(* ===== verification/Bh_Prelude.thy ===== *)
theory Bh_Prelude
  imports Main "HOL-Library.Word" "HOL-Library.Signed_Division"
begin

text \<open>
  Shared vocabulary of the development: the C integer types the sources use, C's truncating
  division, byte sequences, error codes, and the generic lemmas on lists that the component
  theories share.

  \<^item> \<open>bh_intp\<close> and \<open>bh_index\<close> (\<^verbatim>\<open>int64_t\<close>) are \<open>int\<close>: signed overflow is undefined
    behaviour in C and no source relies on it. Where a source narrows a 64-bit value into a
    32-bit \<^verbatim>\<open>int\<close>, the narrowing is written out as \<open>c_int\<close>.
  \<^item> Unsigned 64-bit addresses whose wrap-around matters are \<open>64 word\<close>.
  \<^item> Pointers that are only compared or followed are \<open>nat\<close>, with 0 for NULL.
\<close>

unbundle bit_operations_syntax

type_synonym byte = "8 word"
type_synonym ptr = nat
type_synonym bh_intp = int
type_synonym bh_index = int

abbreviation (input) NULL :: ptr where
  "NULL \<equiv> 0"

named_theorems bh_defs \<open>definitions the component proofs unfold\<close>
named_theorems bh_inv \<open>preservation lemmas of the component invariants\<close>

subsection \<open>Narrowing to a C \<^verbatim>\<open>int\<close>\<close>

text \<open>Conversion of an integer to the 32-bit \<^verbatim>\<open>int\<close> (two's complement, as the supported compilers define it).\<close>

definition c_int :: "int \<Rightarrow> int" where
  "c_int x = (x + 2147483648) mod 4294967296 - 2147483648"

definition fits_int :: "int \<Rightarrow> bool" where
  "fits_int x \<longleftrightarrow> - 2147483648 \<le> x \<and> x < 2147483648"

lemma c_int_range: "fits_int (c_int x)"
proof -
  have "0 \<le> (x + 2147483648) mod 4294967296" "(x + 2147483648) mod 4294967296 < 4294967296"
    by simp_all
  then show ?thesis unfolding fits_int_def c_int_def by linarith
qed

lemma c_int_id [simp]: "fits_int x \<Longrightarrow> c_int x = x"
  unfolding fits_int_def c_int_def by (simp add: mod_pos_pos_trivial)

lemma c_int_idem [simp]: "c_int (c_int x) = c_int x"
  by (simp add: c_int_range)

lemma fits_int_mono: "fits_int u \<Longrightarrow> 0 \<le> x \<Longrightarrow> x \<le> u \<Longrightarrow> fits_int x"
  unfolding fits_int_def by linarith

subsection \<open>C division: truncation towards zero\<close>

text \<open>
  \<open>sdiv\<close> and \<open>smod\<close> of \<open>HOL-Library.Signed_Division\<close> are C's \<^verbatim>\<open>/\<close> and \<^verbatim>\<open>%\<close>. On
  non-negative operands they agree with \<open>div\<close> and \<open>mod\<close>.
\<close>

lemma sdiv_nonneg: "0 \<le> a \<Longrightarrow> 0 \<le> b \<Longrightarrow> a sdiv b = a div (b :: int)"
  by (cases "a = 0"; cases "b = 0") (auto simp: signed_divide_int_def sgn_if)

lemma smod_nonneg: "0 \<le> a \<Longrightarrow> 0 \<le> b \<Longrightarrow> a smod b = a mod (b :: int)"
  by (cases "a = 0") (auto simp: signed_modulo_int_def)

lemma smod_abs_less:
  fixes a b :: int
  assumes "b \<noteq> 0"
  shows "\<bar>a smod b\<bar> < \<bar>b\<bar>"
proof -
  have "\<bar>sgn a * (\<bar>a\<bar> mod \<bar>b\<bar>)\<bar> \<le> \<bar>a\<bar> mod \<bar>b\<bar>"
    using assms by (simp add: abs_mult sgn_if pos_mod_sign)
  also have "\<dots> < \<bar>b\<bar>" using assms by simp
  finally show ?thesis by (simp add: signed_modulo_int_def)
qed

lemma smod_dvd:
  fixes a b d :: int
  assumes "d dvd a" and "d dvd b"
  shows "d dvd a smod b"
proof -
  have "a smod b = a - a sdiv b * b" by (simp add: minus_sdiv_mult_eq_smod)
  then show ?thesis using assms by simp
qed

lemma dvd_smod_imp_dvd:
  fixes a b d :: int
  assumes "d dvd a smod b" and "d dvd b"
  shows "d dvd a"
proof -
  have "a = a sdiv b * b + a smod b" by (simp add: minus_sdiv_mult_eq_smod [symmetric])
  then show ?thesis using assms by (metis dvd_add dvd_mult)
qed

subsection \<open>Lists\<close>

lemma all_less_2: "(\<forall>i < 2 :: nat. P i) \<longleftrightarrow> P 0 \<and> P 1"
  by (auto simp: less_2_cases_iff)

subsection \<open>Exclusive ownership\<close>

text \<open>Every resource has exactly one owner, and owners own nothing else.\<close>

definition owned_once :: "('w \<rightharpoonup> 'r) \<Rightarrow> 'r set \<Rightarrow> bool" where
  "owned_once own R \<longleftrightarrow> (\<forall>r. r \<in> R \<longleftrightarrow> (\<exists>w. own w = Some r)) \<and>
     (\<forall>w w' r. own w = Some r \<longrightarrow> own w' = Some r \<longrightarrow> w = w')"

lemma owned_onceD:
  assumes "owned_once own R"
  shows "own w = Some r \<Longrightarrow> r \<in> R" and "own w = Some r \<Longrightarrow> own w' = Some r \<Longrightarrow> w = w'"
  using assms unfolding owned_once_def by blast+

lemma owned_once_gain:
  "owned_once own R \<Longrightarrow> own w = None \<Longrightarrow> r \<notin> R \<Longrightarrow> owned_once (own(w \<mapsto> r)) (insert r R)"
  unfolding owned_once_def by (auto split: if_splits) (metis option.distinct(1))+

lemma owned_once_lose:
  "owned_once own R \<Longrightarrow> own w = Some r \<Longrightarrow> owned_once (own(w := None)) (R - {r})"
  unfolding owned_once_def by (auto split: if_splits) (metis option.inject)+

lemma owned_once_transfer:
  assumes "owned_once own R" and "own w = Some r" and "own w' = None"
  shows "owned_once (own(w := None, w' \<mapsto> r)) R"
proof -
  have "owned_once ((own(w := None))(w' \<mapsto> r)) (insert r (R - {r}))"
    using owned_once_lose [OF assms(1,2)] assms(2,3) by (intro owned_once_gain) auto
  moreover have "insert r (R - {r}) = R" using owned_onceD(1) [OF assms(1,2)] by blast
  ultimately show ?thesis by simp
qed

end
