(* ===== verification/Bh_Types.thy ===== *)
theory Bh_Types
  imports Bh_Prelude
begin

text \<open>
  Data types and error codes: \<^verbatim>\<open>include/bh_type.h\<close>, \<^verbatim>\<open>include/bh_error.h\<close>,
  \<^verbatim>\<open>core/bh_type.cpp\<close>, \<^verbatim>\<open>core/bh_error.cpp\<close>, and the conversion between NumPy's and
  Bohrium's element types in \<^verbatim>\<open>bridge/npbackend/src/types.c\<close> (with \<^verbatim>\<open>types.h\<close>).

  The union \<^verbatim>\<open>bh_constant_value\<close> is its sixteen bytes; an assignment to a member overwrites
  the member's bytes and leaves the others. NumPy's type numbers are a datatype of their names
  (their numeric values are NumPy's and are never used), with \<open>NPY_other\<close> for any other
  number. The bit width of C's \<^verbatim>\<open>long\<close>, which the sources test in the preprocessor, is the
  argument \<open>bits_of_long\<close>.
\<close>

subsection \<open>Codes\<close>

datatype bh_error =
    BH_SUCCESS | BH_ERROR | BH_TYPE_NOT_SUPPORTED | BH_OUT_OF_MEMORY
  | BH_INST_NOT_SUPPORTED | BH_EXTMETHOD_NOT_SUPPORTED | BH_error_code int

datatype bh_type =
    BH_BOOL | BH_INT8 | BH_INT16 | BH_INT32 | BH_INT64
  | BH_UINT8 | BH_UINT16 | BH_UINT32 | BH_UINT64
  | BH_FLOAT32 | BH_FLOAT64 | BH_COMPLEX64 | BH_COMPLEX128
  | BH_R123 | BH_UNKNOWN | BH_type_code int

datatype npy_type =
    NPY_BOOL | NPY_BYTE | NPY_UBYTE | NPY_SHORT | NPY_USHORT | NPY_INT | NPY_UINT
  | NPY_LONG | NPY_ULONG | NPY_LONGLONG | NPY_ULONGLONG
  | NPY_FLOAT | NPY_DOUBLE | NPY_LONGDOUBLE | NPY_CFLOAT | NPY_CDOUBLE | NPY_CLONGDOUBLE
  | NPY_OBJECT | NPY_STRING | NPY_UNICODE | NPY_VOID | NPY_DATETIME | NPY_TIMEDELTA
  | NPY_HALF | NPY_NTYPES | NPY_NOTYPE | NPY_CHAR | NPY_USERDEF | NPY_other int

fun bh_error_text :: "bh_error \<Rightarrow> string" where
  "bh_error_text BH_SUCCESS = ''BH_SUCCESS''"
| "bh_error_text BH_ERROR = ''BH_ERROR''"
| "bh_error_text BH_TYPE_NOT_SUPPORTED = ''BH_TYPE_NOT_SUPPORTED''"
| "bh_error_text BH_OUT_OF_MEMORY = ''BH_OUT_OF_MEMORY''"
| "bh_error_text BH_INST_NOT_SUPPORTED = ''BH_INST_NOT_SUPPORTED''"
| "bh_error_text BH_EXTMETHOD_NOT_SUPPORTED = ''BH_EXTMETHOD_NOT_SUPPORTED''"
| "bh_error_text _ = ''Error code unknown''"

fun bh_type_size :: "bh_type \<Rightarrow> int" where
  "bh_type_size BH_BOOL = 1"
| "bh_type_size BH_INT8 = 1"
| "bh_type_size BH_INT16 = 2"
| "bh_type_size BH_INT32 = 4"
| "bh_type_size BH_INT64 = 8"
| "bh_type_size BH_UINT8 = 1"
| "bh_type_size BH_UINT16 = 2"
| "bh_type_size BH_UINT32 = 4"
| "bh_type_size BH_UINT64 = 8"
| "bh_type_size BH_FLOAT32 = 4"
| "bh_type_size BH_FLOAT64 = 8"
| "bh_type_size BH_COMPLEX64 = 8"
| "bh_type_size BH_COMPLEX128 = 16"
| "bh_type_size BH_UNKNOWN = - 1"
| "bh_type_size _ = - 1"

fun bh_type_text :: "bh_type \<Rightarrow> string" where
  "bh_type_text BH_BOOL = ''BH_BOOL''"
| "bh_type_text BH_INT8 = ''BH_INT8''"
| "bh_type_text BH_INT16 = ''BH_INT16''"
| "bh_type_text BH_INT32 = ''BH_INT32''"
| "bh_type_text BH_INT64 = ''BH_INT64''"
| "bh_type_text BH_UINT8 = ''BH_UINT8''"
| "bh_type_text BH_UINT16 = ''BH_UINT16''"
| "bh_type_text BH_UINT32 = ''BH_UINT32''"
| "bh_type_text BH_UINT64 = ''BH_UINT64''"
| "bh_type_text BH_FLOAT32 = ''BH_FLOAT32''"
| "bh_type_text BH_FLOAT64 = ''BH_FLOAT64''"
| "bh_type_text BH_COMPLEX64 = ''BH_COMPLEX64''"
| "bh_type_text BH_COMPLEX128 = ''BH_COMPLEX128''"
| "bh_type_text BH_R123 = ''BH_R123''"
| "bh_type_text BH_UNKNOWN = ''BH_UNKNOWN''"
| "bh_type_text _ = ''Unknown type''"

subsection \<open>Between NumPy and Bohrium types\<close>

fun type_py2cph :: "nat \<Rightarrow> npy_type \<Rightarrow> bh_type" where
  "type_py2cph bits_of_long NPY_BOOL = BH_BOOL"
| "type_py2cph bits_of_long NPY_BYTE = BH_INT8"
| "type_py2cph bits_of_long NPY_UBYTE = BH_UINT8"
| "type_py2cph bits_of_long NPY_SHORT = BH_INT16"
| "type_py2cph bits_of_long NPY_USHORT = BH_UINT16"
| "type_py2cph bits_of_long NPY_INT = BH_INT32"
| "type_py2cph bits_of_long NPY_UINT = BH_UINT32"
| "type_py2cph bits_of_long NPY_LONG = (if bits_of_long = 32 then BH_INT32 else BH_INT64)"
| "type_py2cph bits_of_long NPY_ULONG = (if bits_of_long = 32 then BH_UINT32 else BH_UINT64)"
| "type_py2cph bits_of_long NPY_LONGLONG = BH_INT64"
| "type_py2cph bits_of_long NPY_ULONGLONG = BH_UINT64"
| "type_py2cph bits_of_long NPY_FLOAT = BH_FLOAT32"
| "type_py2cph bits_of_long NPY_DOUBLE = BH_FLOAT64"
| "type_py2cph bits_of_long NPY_CFLOAT = BH_COMPLEX64"
| "type_py2cph bits_of_long NPY_CDOUBLE = BH_COMPLEX128"
| "type_py2cph bits_of_long _ = BH_UNKNOWN"

text \<open>\<open>None\<close> is the failing \<^verbatim>\<open>assert\<close> after the switch.\<close>

fun type_cph2py :: "nat \<Rightarrow> bh_type \<Rightarrow> npy_type option" where
  "type_cph2py bits_of_long BH_BOOL = Some NPY_BOOL"
| "type_cph2py bits_of_long BH_INT8 = Some NPY_BYTE"
| "type_cph2py bits_of_long BH_UINT8 = Some NPY_UBYTE"
| "type_cph2py bits_of_long BH_INT16 = Some NPY_SHORT"
| "type_cph2py bits_of_long BH_UINT16 = Some NPY_USHORT"
| "type_cph2py bits_of_long BH_INT32 = Some NPY_INT"
| "type_cph2py bits_of_long BH_UINT32 = Some NPY_UINT"
| "type_cph2py bits_of_long BH_INT64 = Some (if bits_of_long = 32 then NPY_LONGLONG else NPY_LONG)"
| "type_cph2py bits_of_long BH_UINT64 = Some (if bits_of_long = 32 then NPY_ULONGLONG else NPY_ULONG)"
| "type_cph2py bits_of_long BH_FLOAT32 = Some NPY_FLOAT"
| "type_cph2py bits_of_long BH_FLOAT64 = Some NPY_DOUBLE"
| "type_cph2py bits_of_long BH_COMPLEX64 = Some NPY_CFLOAT"
| "type_cph2py bits_of_long BH_COMPLEX128 = Some NPY_CDOUBLE"
| "type_cph2py bits_of_long _ = None"

fun bh_npy_type_text :: "npy_type \<Rightarrow> string" where
  "bh_npy_type_text NPY_BOOL = ''NPY_BOOL''"
| "bh_npy_type_text NPY_BYTE = ''NPY_BYTE''"
| "bh_npy_type_text NPY_UBYTE = ''NPY_UBYTE''"
| "bh_npy_type_text NPY_SHORT = ''NPY_SHORT''"
| "bh_npy_type_text NPY_USHORT = ''NPY_USHORT''"
| "bh_npy_type_text NPY_INT = ''NPY_INT''"
| "bh_npy_type_text NPY_UINT = ''NPY_UINT''"
| "bh_npy_type_text NPY_LONG = ''NPY_LONG''"
| "bh_npy_type_text NPY_ULONG = ''NPY_ULONG''"
| "bh_npy_type_text NPY_LONGLONG = ''NPY_LONGLONG''"
| "bh_npy_type_text NPY_ULONGLONG = ''NPY_ULONGLONG''"
| "bh_npy_type_text NPY_FLOAT = ''NPY_FLOAT''"
| "bh_npy_type_text NPY_DOUBLE = ''NPY_DOUBLE''"
| "bh_npy_type_text NPY_LONGDOUBLE = ''NPY_LONGDOUBLE''"
| "bh_npy_type_text NPY_CFLOAT = ''NPY_CFLOAT''"
| "bh_npy_type_text NPY_CDOUBLE = ''NPY_CDOUBLE''"
| "bh_npy_type_text NPY_CLONGDOUBLE = ''NPY_CLONGDOUBLE''"
| "bh_npy_type_text NPY_OBJECT = ''NPY_OBJECT''"
| "bh_npy_type_text NPY_STRING = ''NPY_STRING''"
| "bh_npy_type_text NPY_UNICODE = ''NPY_UNICODE''"
| "bh_npy_type_text NPY_VOID = ''NPY_VOID''"
| "bh_npy_type_text NPY_DATETIME = ''NPY_DATETIME''"
| "bh_npy_type_text NPY_TIMEDELTA = ''NPY_TIMEDELTA''"
| "bh_npy_type_text NPY_HALF = ''NPY_HALF''"
| "bh_npy_type_text NPY_NTYPES = ''NPY_NTYPES''"
| "bh_npy_type_text NPY_NOTYPE = ''NPY_NOTYPE''"
| "bh_npy_type_text NPY_CHAR = ''NPY_CHAR''"
| "bh_npy_type_text NPY_USERDEF = ''NPY_USERDEF''"
| "bh_npy_type_text (NPY_other _) = ''Unknown npy type.''"

subsection \<open>Constants\<close>

record bh_constant =
  cvalue :: "byte list"
  ctype :: bh_type

definition wf_constant :: "bh_constant \<Rightarrow> bool" where
  "wf_constant c \<longleftrightarrow> length (cvalue c) = 16"

text \<open>Assignment to a union member that occupies the first \<open>n\<close> bytes.\<close>

definition put_value :: "nat \<Rightarrow> byte list \<Rightarrow> bh_constant \<Rightarrow> bh_constant" where
  "put_value n bs c = c\<lparr>cvalue := take n bs @ drop n (cvalue c)\<rparr>"

text \<open>
  \<open>data\<close> is the memory the pointer argument designates. \<^verbatim>\<open>NPY_COMPLEX64\<close> and
  \<^verbatim>\<open>NPY_COMPLEX128\<close> are NumPy's other names for \<^verbatim>\<open>NPY_CFLOAT\<close> and \<^verbatim>\<open>NPY_CDOUBLE\<close>; their
  real part is stored before the imaginary part in NumPy's struct and in Bohrium's.
\<close>

fun bh_set_constant :: "nat \<Rightarrow> npy_type \<Rightarrow> bh_constant \<Rightarrow> byte list \<Rightarrow> bh_error \<times> bh_constant" where
  "bh_set_constant bits_of_long npy_type constant data =
    (let constant = constant\<lparr>ctype := type_py2cph bits_of_long npy_type\<rparr> in
     case npy_type of
       NPY_BOOL \<Rightarrow> (BH_SUCCESS, put_value 1 data constant)
     | NPY_BYTE \<Rightarrow> (BH_SUCCESS, put_value 1 data constant)
     | NPY_UBYTE \<Rightarrow> (BH_SUCCESS, put_value 1 data constant)
     | NPY_SHORT \<Rightarrow> (BH_SUCCESS, put_value 2 data constant)
     | NPY_USHORT \<Rightarrow> (BH_SUCCESS, put_value 2 data constant)
     | NPY_INT \<Rightarrow> (BH_SUCCESS, put_value 4 data constant)
     | NPY_UINT \<Rightarrow> (BH_SUCCESS, put_value 4 data constant)
     | NPY_LONG \<Rightarrow> (if bits_of_long = 32 then (BH_SUCCESS, put_value 4 data constant)
                    else if bits_of_long = 64 then (BH_SUCCESS, put_value 8 data constant)
                    else (BH_ERROR, constant))
     | NPY_ULONG \<Rightarrow> (if bits_of_long = 32 then (BH_SUCCESS, put_value 4 data constant)
                     else if bits_of_long = 64 then (BH_SUCCESS, put_value 8 data constant)
                     else (BH_ERROR, constant))
     | NPY_LONGLONG \<Rightarrow> (BH_SUCCESS, put_value 8 data constant)
     | NPY_ULONGLONG \<Rightarrow> (BH_SUCCESS, put_value 8 data constant)
     | NPY_FLOAT \<Rightarrow> (BH_SUCCESS, put_value 4 data constant)
     | NPY_DOUBLE \<Rightarrow> (BH_SUCCESS, put_value 8 data constant)
     | NPY_CFLOAT \<Rightarrow> (BH_SUCCESS, put_value 8 (take 4 data @ take 4 (drop 4 data)) constant)
     | NPY_CDOUBLE \<Rightarrow> (BH_SUCCESS, put_value 16 (take 8 data @ take 8 (drop 8 data)) constant)
     | _ \<Rightarrow> (BH_ERROR, constant))"

text \<open>
  Integer to byte representation, little endian (the layout of every platform the bridge is
  built for). The conversions of an integer to \<^verbatim>\<open>float\<close> and \<^verbatim>\<open>double\<close> are the processor's; they
  are arguments, given as the bytes of the result.
\<close>

definition le_bytes :: "nat \<Rightarrow> int \<Rightarrow> byte list" where
  "le_bytes n x = map (\<lambda>i. word_of_int (x div 2 ^ (8 * i))) [0..<n]"

record c_float_conv =
  float32_of :: "int \<Rightarrow> byte list"
  float64_of :: "int \<Rightarrow> byte list"

text \<open>\<open>None\<close> is the failing \<^verbatim>\<open>assert\<close> of the default branch.\<close>

fun bh_set_int_constant ::
  "c_float_conv \<Rightarrow> nat \<Rightarrow> npy_type \<Rightarrow> bh_constant \<Rightarrow> int \<Rightarrow> (bh_error \<times> bh_constant) option" where
  "bh_set_int_constant fc bits_of_long npy_type constant integer =
    (let constant = constant\<lparr>ctype := type_py2cph bits_of_long npy_type\<rparr>;
         ok = (\<lambda>n. Some (BH_SUCCESS, put_value n (le_bytes n integer) constant)) in
     case npy_type of
       NPY_BOOL \<Rightarrow> ok 1
     | NPY_BYTE \<Rightarrow> ok 1
     | NPY_UBYTE \<Rightarrow> ok 1
     | NPY_SHORT \<Rightarrow> ok 2
     | NPY_USHORT \<Rightarrow> ok 2
     | NPY_INT \<Rightarrow> ok 4
     | NPY_UINT \<Rightarrow> ok 4
     | NPY_LONG \<Rightarrow> (if bits_of_long = 32 then ok 4 else if bits_of_long = 64 then ok 8 else None)
     | NPY_ULONG \<Rightarrow> (if bits_of_long = 32 then ok 4 else if bits_of_long = 64 then ok 8 else None)
     | NPY_LONGLONG \<Rightarrow> ok 8
     | NPY_ULONGLONG \<Rightarrow> ok 8
     | NPY_FLOAT \<Rightarrow> Some (BH_SUCCESS, put_value 4 (float32_of fc integer) constant)
     | NPY_DOUBLE \<Rightarrow> Some (BH_SUCCESS, put_value 8 (float64_of fc integer) constant)
     | NPY_CFLOAT \<Rightarrow>
         Some (BH_SUCCESS, put_value 8 (float32_of fc integer @ float32_of fc 0) constant)
     | NPY_CDOUBLE \<Rightarrow>
         Some (BH_SUCCESS, put_value 16 (float64_of fc integer @ float64_of fc 0) constant)
     | _ \<Rightarrow> None)"

subsection \<open>Type conversion round trips\<close>

text \<open>A Bohrium type with a NumPy counterpart is exactly one with a positive size.\<close>

lemma type_cph2py_defined: "(type_cph2py b t \<noteq> None) = (0 < bh_type_size t)"
  by (cases t) auto

lemma type_py2cph_cph2py: "type_cph2py b t = Some n \<Longrightarrow> type_py2cph b n = t"
  by (cases t) (auto split: if_splits)

lemma type_py2cph_known: "type_py2cph b n \<noteq> BH_UNKNOWN \<Longrightarrow> 0 < bh_type_size (type_py2cph b n)"
  by (cases n) auto

text \<open>
  Converting a Bohrium element type to NumPy and back is the identity, and it is defined
  exactly on the types that have a size. Converting a NumPy type to Bohrium and back is the
  identity too, except that the wider of two equally wide NumPy integer types
  (\<^verbatim>\<open>LONGLONG\<close> where \<^verbatim>\<open>long\<close> has 64 bits, \<^verbatim>\<open>LONG\<close> where it has 32) is replaced by the other.
\<close>

theorem type_conversion_roundtrip:
  shows "(case type_cph2py b t of
            Some n \<Rightarrow> 0 < bh_type_size t \<and> type_py2cph b n = t
          | None \<Rightarrow> bh_type_size t = - 1) \<and>
         type_cph2py b (type_py2cph b n) =
           (if bh_type_size (type_py2cph b n) = - 1 then None
            else if b = 32 then Some (case n of NPY_LONG \<Rightarrow> NPY_INT | NPY_ULONG \<Rightarrow> NPY_UINT | _ \<Rightarrow> n)
            else Some (case n of NPY_LONGLONG \<Rightarrow> NPY_LONG | NPY_ULONGLONG \<Rightarrow> NPY_ULONG | _ \<Rightarrow> n))"
  by (cases t; cases n) auto

subsection \<open>Little-endian bytes\<close>

primrec le_value :: "byte list \<Rightarrow> int" where
  "le_value [] = 0"
| "le_value (b # bs) = uint b + 256 * le_value bs"

lemma le_bytes_0 [simp]: "le_bytes 0 x = []"
  by (simp add: le_bytes_def)

lemma le_bytes_Suc: "le_bytes (Suc n) x = word_of_int x # le_bytes n (x div 256)"
proof -
  have "le_bytes (Suc n) x = map (\<lambda>i. word_of_int (x div 2 ^ (8 * i))) (0 # map Suc [0..<n])"
    by (simp add: le_bytes_def upt_conv_Cons map_Suc_upt del: upt_Suc)
  also have "\<dots> = word_of_int x # le_bytes n (x div 256)"
    by (simp add: le_bytes_def power_add zdiv_zmult2_eq [symmetric] mult.commute)
  finally show ?thesis .
qed

lemma length_le_bytes [simp]: "length (le_bytes n x) = n"
  by (simp add: le_bytes_def)

lemma le_value_le_bytes: "le_value (le_bytes n x) = x mod 2 ^ (8 * n)"
proof (induction n arbitrary: x)
  case 0
  then show ?case by simp
next
  case (Suc n)
  have "(2::int) ^ (8 * Suc n) = 256 * 2 ^ (8 * n)" by (simp add: power_add)
  then have "x mod 2 ^ (8 * Suc n) = 256 * (x div 256 mod 2 ^ (8 * n)) + x mod 256"
    by (simp add: zmod_zmult2_eq)
  then show ?case
    by (simp add: le_bytes_Suc Suc.IH uint_word_of_int take_bit_eq_mod)
qed

text \<open>The value an integer type's member of the union reads, by the constant's type.\<close>

definition signed_of :: "nat \<Rightarrow> int \<Rightarrow> int" where
  "signed_of n u = (if u < 2 ^ (8 * n - 1) then u else u - 2 ^ (8 * n))"

fun int_width :: "bh_type \<Rightarrow> (bool \<times> nat) option" where
  "int_width BH_BOOL = Some (False, 1)"
| "int_width BH_INT8 = Some (True, 1)"
| "int_width BH_INT16 = Some (True, 2)"
| "int_width BH_INT32 = Some (True, 4)"
| "int_width BH_INT64 = Some (True, 8)"
| "int_width BH_UINT8 = Some (False, 1)"
| "int_width BH_UINT16 = Some (False, 2)"
| "int_width BH_UINT32 = Some (False, 4)"
| "int_width BH_UINT64 = Some (False, 8)"
| "int_width _ = None"

definition read_int :: "bh_constant \<Rightarrow> int option" where
  "read_int c = (case int_width (ctype c) of
     None \<Rightarrow> None
   | Some (sgnd, n) \<Rightarrow>
       (let u = le_value (take n (cvalue c)) in Some (if sgnd then signed_of n u else u)))"

definition in_width :: "bool \<Rightarrow> nat \<Rightarrow> int \<Rightarrow> bool" where
  "in_width sgnd n x \<longleftrightarrow>
     (if sgnd then - (2 ^ (8 * n - 1)) \<le> x \<and> x < 2 ^ (8 * n - 1) else 0 \<le> x \<and> x < 2 ^ (8 * n))"

lemma signed_of_mod:
  assumes "0 < n" and "in_width True n x"
  shows "signed_of n (x mod 2 ^ (8 * n)) = x"
proof -
  have p: "(2::int) ^ (8 * n) = 2 * 2 ^ (8 * n - 1)"
    using assms(1) by (simp flip: power_Suc)
  have r: "- (2 ^ (8 * n - 1)) \<le> x" "x < 2 ^ (8 * n - 1)"
    using assms(2) by (auto simp: in_width_def)
  show ?thesis
  proof (cases "0 \<le> x")
    case True
    then show ?thesis using r p by (simp add: signed_of_def)
  next
    case False
    have "(x + 2 ^ (8 * n)) mod 2 ^ (8 * n) = x + 2 ^ (8 * n)"
      using False r p by (intro mod_pos_pos_trivial) auto
    then have "x mod 2 ^ (8 * n) = x + 2 ^ (8 * n)" by simp
    then show ?thesis using False r p by (simp add: signed_of_def)
  qed
qed

lemma put_value_simps [simp]:
  "ctype (put_value n bs c) = ctype c"
  "length bs = n \<Longrightarrow> n \<le> length (cvalue c) \<Longrightarrow> take n (cvalue (put_value n bs c)) = bs"
  "length bs = n \<Longrightarrow> n \<le> length (cvalue c) \<Longrightarrow> length (cvalue (put_value n bs c)) = length (cvalue c)"
  by (simp_all add: put_value_def)

lemma read_int_put_le:
  assumes "int_width (ctype c) = Some (sgnd, n)" and "wf_constant c" and "in_width sgnd n x"
  shows "read_int (put_value n (le_bytes n x) c) = Some x \<and> wf_constant (put_value n (le_bytes n x) c)"
proof -
  have n: "0 < n" "n \<le> 16"
    using assms(1) by (auto elim!: int_width.elims)
  have "signed_of n (x mod 2 ^ (8 * n)) = x" if "sgnd"
    using signed_of_mod [OF n(1)] assms(3) that by simp
  moreover have "x mod 2 ^ (8 * n) = x" if "\<not> sgnd"
    using assms(3) that by (simp add: in_width_def)
  ultimately show ?thesis
    using assms(1,2) n by (auto simp: read_int_def wf_constant_def le_value_le_bytes Let_def)
qed

text \<open>
  An integer constant survives storage: for every integer type (\<^verbatim>\<open>long\<close> 32 or 64 bits wide)
  and every integer in the type's range, \<^verbatim>\<open>bh_set_int_constant\<close> succeeds and the member of the
  union that the stored type selects reads back the same integer.
\<close>

theorem bh_set_int_constant_readback:
  assumes "bits \<in> {32, 64}" and "wf_constant c"
    and "int_width (type_py2cph bits n) = Some (sgnd, w)" and "in_width sgnd w x"
  shows "\<exists>c'. bh_set_int_constant fc bits n c x = Some (BH_SUCCESS, c') \<and>
           ctype c' = type_py2cph bits n \<and> read_int c' = Some x \<and> wf_constant c'"
proof -
  let ?c = "c\<lparr>ctype := type_py2cph bits n\<rparr>"
  have "bh_set_int_constant fc bits n c x = Some (BH_SUCCESS, put_value w (le_bytes w x) ?c)"
    using assms(1,3) by (cases n) (auto split: if_splits)
  moreover have "read_int (put_value w (le_bytes w x) ?c) = Some x \<and>
      wf_constant (put_value w (le_bytes w x) ?c)"
    using assms(2,3,4) by (intro read_int_put_le) (auto simp: wf_constant_def)
  ultimately show ?thesis by simp
qed

theorem bh_set_int_constant_readback_witness:
  "\<exists>c'. bh_set_int_constant \<lparr>float32_of = \<lambda>_. [], float64_of = \<lambda>_. []\<rparr> 64 NPY_SHORT
          \<lparr>cvalue = replicate 16 7, ctype = BH_UNKNOWN\<rparr> (- 2) = Some (BH_SUCCESS, c') \<and>
        ctype c' = BH_INT16 \<and> read_int c' = Some (- 2)"
  using bh_set_int_constant_readback [of 64 "\<lparr>cvalue = replicate 16 7, ctype = BH_UNKNOWN\<rparr>"
      NPY_SHORT True 2 "- 2" "\<lparr>float32_of = \<lambda>_. [], float64_of = \<lambda>_. []\<rparr>"]
  by (auto simp: wf_constant_def in_width_def simp del: bh_set_int_constant.simps)

text \<open>
  \<^verbatim>\<open>bh_set_constant\<close> copies exactly the element: when the memory holds one element of the
  type, the first \<^verbatim>\<open>bh_type_size\<close> bytes of the constant become the element's bytes and the rest
  of the union is untouched; on a type Bohrium does not know it reports \<^verbatim>\<open>BH_ERROR\<close> and leaves
  the value alone, with the type set to \<^verbatim>\<open>BH_UNKNOWN\<close>.
\<close>

theorem bh_set_constant_copies:
  assumes "bits \<in> {32, 64}"
    and "type_py2cph bits n = BH_UNKNOWN \<or> length data = nat (bh_type_size (type_py2cph bits n))"
  shows "bh_set_constant bits n c data =
    (if type_py2cph bits n = BH_UNKNOWN then (BH_ERROR, c\<lparr>ctype := BH_UNKNOWN\<rparr>)
     else (BH_SUCCESS, c\<lparr>cvalue := data @ drop (length data) (cvalue c),
                          ctype := type_py2cph bits n\<rparr>))"
  using assms by (cases n) (auto simp: put_value_def split: if_splits)

theorem bh_set_constant_copies_witness:
  "bh_set_constant 64 NPY_USHORT \<lparr>cvalue = [1, 2, 3], ctype = BH_BOOL\<rparr> [9, 8] =
     (BH_SUCCESS, \<lparr>cvalue = [9, 8, 3], ctype = BH_UINT16\<rparr>)"
  using bh_set_constant_copies [of 64 NPY_USHORT "[9, 8]" "\<lparr>cvalue = [1, 2, 3], ctype = BH_BOOL\<rparr>"]
  by simp

end
