(* ===== verification/Bh_View.thy ===== *)
theory Bh_View
  imports Bh_Types
begin

text \<open>
  Base arrays and views: \<^verbatim>\<open>include/bh_array.h\<close>, \<^verbatim>\<open>include/bh_instruction.h\<close> and the view
  functions of \<^verbatim>\<open>core/bh.cpp\<close>.

  A \<open>bh_view\<close> holds the two arrays of \<^verbatim>\<open>BH_MAXDIM\<close> entries as lists of that length; only the
  first \<open>ndim\<close> entries mean anything. Views refer to base arrays by address (0 is NULL, which
  flags a constant operand). What a view denotes is \<open>view_offsets\<close>: the element offsets it
  visits, in row-major order. The theorems relate the code's structural tests
  (\<^verbatim>\<open>bh_view_simplify\<close>, \<^verbatim>\<open>bh_view_aligned\<close>, \<^verbatim>\<open>bh_view_disjoint\<close>) to that meaning.
\<close>

subsection \<open>Data\<close>

definition BH_MAXDIM :: nat where
  "BH_MAXDIM = 16"

record bh_base =
  base_data :: ptr
  base_type :: bh_type
  base_nelem :: bh_index

record bh_view =
  base :: ptr
  start :: bh_index
  ndim :: nat
  shape :: "bh_index list"
  stride :: "bh_index list"

definition wf_view :: "bh_view \<Rightarrow> bool" where
  "wf_view v \<longleftrightarrow> 0 < ndim v \<and> ndim v \<le> BH_MAXDIM \<and>
     length (shape v) = BH_MAXDIM \<and> length (stride v) = BH_MAXDIM"

text \<open>The two comparison loops of \<^verbatim>\<open>operator<\<close> and the loops of \<^verbatim>\<open>operator==\<close>: \<open>Some b\<close> is an early return.\<close>

fun less_loop :: "nat \<Rightarrow> nat \<Rightarrow> int list \<Rightarrow> int list \<Rightarrow> bool option" where
  "less_loop 0 i xs ys = None"
| "less_loop (Suc k) i xs ys =
     (if xs ! i < ys ! i then Some True
      else if ys ! i < xs ! i then Some False
      else less_loop k (Suc i) xs ys)"

definition bh_view_less :: "bh_view \<Rightarrow> bh_view \<Rightarrow> bool" where
  "bh_view_less a b =
     (if base a < base b then True
      else if base b < base a then False
      else if start a < start b then True
      else if start b < start a then False
      else if ndim a < ndim b then True
      else if ndim b < ndim a then False
      else case less_loop (ndim a) 0 (shape a) (shape b) of
             Some r \<Rightarrow> r
           | None \<Rightarrow> (case less_loop (ndim a) 0 (stride a) (stride b) of
                        Some r \<Rightarrow> r
                      | None \<Rightarrow> False))"

fun eq_loop :: "nat \<Rightarrow> nat \<Rightarrow> int list \<Rightarrow> int list \<Rightarrow> bool" where
  "eq_loop 0 i xs ys = True"
| "eq_loop (Suc k) i xs ys = (if xs ! i \<noteq> ys ! i then False else eq_loop k (Suc i) xs ys)"

definition bh_view_eq :: "bh_view \<Rightarrow> bh_view \<Rightarrow> bool" where
  "bh_view_eq a b =
     (if base a \<noteq> base b then False
      else if ndim a \<noteq> ndim b then False
      else if start a \<noteq> start b then False
      else if \<not> eq_loop (ndim a) 0 (shape a) (shape b) then False
      else if \<not> eq_loop (ndim a) 0 (stride a) (stride b) then False
      else True)"

subsection \<open>Element counts and contiguous strides\<close>

fun nbcast_loop :: "nat \<Rightarrow> nat \<Rightarrow> bh_view \<Rightarrow> bh_index \<Rightarrow> bh_index" where
  "nbcast_loop 0 i view res = res"
| "nbcast_loop (Suc k) i view res =
     nbcast_loop k (Suc i) view (if 0 < stride view ! i then res * shape view ! i else res)"

definition bh_nelements_nbcast :: "bh_view \<Rightarrow> bh_index" where
  "bh_nelements_nbcast view = nbcast_loop (ndim view) 0 view 1"

fun nelements_loop :: "nat \<Rightarrow> nat \<Rightarrow> bh_index list \<Rightarrow> bh_index \<Rightarrow> bh_index" where
  "nelements_loop 0 i shp res = res"
| "nelements_loop (Suc k) i shp res = nelements_loop k (Suc i) shp (res * shp ! i)"

text \<open>\<open>None\<close> is the failing \<^verbatim>\<open>assert (ndim > 0)\<close>.\<close>

definition bh_nelements :: "nat \<Rightarrow> bh_index list \<Rightarrow> bh_index option" where
  "bh_nelements nd shp = (if 0 < nd then Some (nelements_loop nd 0 shp 1) else None)"

definition bh_nelements_view :: "bh_view \<Rightarrow> bh_index option" where
  "bh_nelements_view view = bh_nelements (ndim view) (shape view)"

definition bh_base_size :: "bh_base \<Rightarrow> bh_index" where
  "bh_base_size b = base_nelem b * bh_type_size (base_type b)"

text \<open>The loop of \<^verbatim>\<open>bh_set_contiguous_stride\<close> runs from the last dimension to the first.\<close>

fun contiguous_loop :: "nat \<Rightarrow> bh_view \<Rightarrow> bh_intp \<Rightarrow> bh_intp \<times> bh_view" where
  "contiguous_loop 0 view s = (s, view)"
| "contiguous_loop (Suc i) view s =
     contiguous_loop i (view\<lparr>stride := (stride view)[i := s]\<rparr>) (s * shape view ! i)"

definition bh_set_contiguous_stride :: "bh_view \<Rightarrow> bh_intp \<times> bh_view" where
  "bh_set_contiguous_stride view = contiguous_loop (ndim view) view 1"

definition bh_assign_complete_base :: "bh_view \<Rightarrow> ptr \<Rightarrow> bh_base \<Rightarrow> bh_view" where
  "bh_assign_complete_base view p b =
     view\<lparr>base := p, ndim := 1, start := 0,
          shape := (shape view)[0 := base_nelem b], stride := (stride view)[0 := 1]\<rparr>"

subsection \<open>Constants and scalars\<close>

definition bh_is_constant :: "bh_view \<Rightarrow> bool" where
  "bh_is_constant o1 = (base o1 = NULL)"

definition bh_flag_constant :: "bh_view \<Rightarrow> bh_view" where
  "bh_flag_constant o1 = o1\<lparr>base := NULL\<rparr>"

definition bh_is_scalar :: "bh_view \<Rightarrow> bool option" where
  "bh_is_scalar view = map_option (\<lambda>n. n = 1) (bh_nelements_view view)"

subsection \<open>Simplification\<close>

text \<open>\<^verbatim>\<open>while (view.shape[i] == 1 && i < view.ndim-1) ++i;\<close>\<close>

function simplify_skip :: "bh_view \<Rightarrow> nat \<Rightarrow> nat" where
  "simplify_skip view i =
     (if shape view ! i = 1 \<and> i < ndim view - 1 then simplify_skip view (Suc i) else i)"
  by pat_completeness auto
termination
  by (relation "measure (\<lambda>(view, i). ndim view - 1 - i)") auto

declare simplify_skip.simps [simp del]

text \<open>The main loop; the early return on an empty dimension leaves it, otherwise the final test follows.\<close>

function simplify_loop :: "bh_view \<Rightarrow> nat \<Rightarrow> bh_view \<Rightarrow> bh_view" where
  "simplify_loop view i res =
     (if i < ndim view then
        (if shape view ! i = 0 then
           res\<lparr>ndim := 1, shape := (shape res)[0 := 0]\<rparr>
         else if shape view ! i = 1 then simplify_loop view (Suc i) res
         else if shape view ! i * stride view ! i = stride res ! ndim res then
           simplify_loop view (Suc i)
             (res\<lparr>shape := (shape res)[ndim res := shape res ! ndim res * shape view ! i],
                  stride := (stride res)[ndim res := stride view ! i]\<rparr>)
         else
           simplify_loop view (Suc i)
             (res\<lparr>ndim := Suc (ndim res),
                  shape := (shape res)[Suc (ndim res) := shape view ! i],
                  stride := (stride res)[Suc (ndim res) := stride view ! i]\<rparr>))
      else if ndim res = 0 \<or> 1 < shape res ! ndim res then res\<lparr>ndim := Suc (ndim res)\<rparr>
      else res)"
  by pat_completeness auto
termination
  by (relation "measure (\<lambda>(view, i, res). ndim view - i)") auto

declare simplify_loop.simps [simp del]

text \<open>The local \<^verbatim>\<open>res\<close> is uninitialised in the source; no entry is read before it is written.\<close>

definition bh_view_simplify :: "bh_view \<Rightarrow> bh_view" where
  "bh_view_simplify view =
     (let i = simplify_skip view 0;
          res = \<lparr>base = base view, start = start view, ndim = 0,
                 shape = (replicate BH_MAXDIM 0)[0 := shape view ! i],
                 stride = (replicate BH_MAXDIM 0)[0 := stride view ! i]\<rparr>
      in simplify_loop view (Suc i) res)"

subsection \<open>Comparing views\<close>

fun same_shape_loop :: "nat \<Rightarrow> nat \<Rightarrow> bh_view \<Rightarrow> bh_view \<Rightarrow> bool" where
  "same_shape_loop 0 i a b = True"
| "same_shape_loop (Suc k) i a b =
     (if shape a ! i \<noteq> shape b ! i then False else same_shape_loop k (Suc i) a b)"

definition bh_view_same_shape :: "bh_view \<Rightarrow> bh_view \<Rightarrow> bool" where
  "bh_view_same_shape a b =
     (if ndim a \<noteq> ndim b then False else same_shape_loop (ndim a) 0 a b)"

definition bh_view_same :: "bh_view \<Rightarrow> bh_view \<Rightarrow> bool" where
  "bh_view_same a b =
     (if bh_is_constant a \<or> bh_is_constant b then False else bh_view_eq a b)"

definition bh_view_aligned :: "bh_view \<Rightarrow> bh_view \<Rightarrow> bool" where
  "bh_view_aligned a b =
     (if bh_is_constant a \<or> bh_is_constant b then True
      else bh_view_eq (bh_view_simplify a) (bh_view_simplify b))"

definition bh_view_aligned_and_same_shape :: "bh_view \<Rightarrow> bh_view \<Rightarrow> bool" where
  "bh_view_aligned_and_same_shape a b =
     (if ndim a \<noteq> ndim b then False
      else if \<not> bh_view_aligned a b then False
      else same_shape_loop (ndim a) 0 a b)"

subsection \<open>What a view denotes\<close>

definition mk_view :: "ptr \<Rightarrow> int \<Rightarrow> (int \<times> int) list \<Rightarrow> bh_view" where
  "mk_view p r ds = \<lparr>base = p, start = r, ndim = length ds,
     shape = map fst ds @ replicate (BH_MAXDIM - length ds) 0,
     stride = map snd ds @ replicate (BH_MAXDIM - length ds) 0\<rparr>"

lemma map_plus_0 [simp]: "map ((+) (0::int)) xs = xs"
  by (simp add: map_idI)

lemma map_plus_upto: "map (\<lambda>x. k + x) [i..j] = [k + i..k + (j::int)]"
proof (induction i j rule: upto.induct)
  case (1 i j)
  show ?case
    by (cases "i \<le> j") (simp_all add: upto.simps [of i j] upto.simps [of "k + i" "k + j"] "1" add.assoc)
qed

lemma concat_map_concat: "concat (map f (concat xss)) = concat (map (\<lambda>xs. concat (map f xs)) xss)"
  by (induction xss) simp_all

lemma concat_concat_map: "concat (concat xss) = concat (map concat xss)"
  by (induction xss) simp_all

lemma plus_plus_fun: "(+) (a + b :: int) = (\<lambda>x. a + (b + x))"
  by (simp add: fun_eq_iff)

lemma concat_map_upto:
  fixes m :: int
  assumes "0 \<le> m"
  shows "concat (map (\<lambda>i. map (\<lambda>j. i * m + j) [0..m - 1]) [0..int n - 1]) = [0..int n * m - 1]"
proof (induction n)
  case 0
  then show ?case by simp
next
  case (Suc n)
  have "[0..int (Suc n) - 1] = [0..int n - 1] @ [int n]"
    by (simp add: upto_rec2)
  moreover have "[0..int n * m - 1] @ [int n * m..int n * m + m - 1] = [0..int (Suc n) * m - 1]"
    using assms upto_split1 [of 0 "int n * m" "int n * m + m - 1"]
    by (cases "m = 0") (simp_all add: algebra_simps)
  moreover have "map (\<lambda>j. int n * m + j) [0..m - 1] = [int n * m..int n * m + m - 1]"
    using map_plus_upto [of "int n * m" 0 "m - 1"] by (simp add: algebra_simps)
  ultimately show ?case using Suc by simp
qed

fun offsets :: "(int \<times> int) list \<Rightarrow> int list" where
  "offsets [] = [0]"
| "offsets ((n, s) # ds) = concat (map (\<lambda>i. map (\<lambda>p. i * s + p) (offsets ds)) [0..n - 1])"

definition view_dims :: "bh_view \<Rightarrow> (int \<times> int) list" where
  "view_dims v = zip (take (ndim v) (shape v)) (take (ndim v) (stride v))"

definition view_offsets :: "bh_view \<Rightarrow> int list" where
  "view_offsets v = map (\<lambda>p. start v + p) (offsets (view_dims v))"

definition nonneg_shape :: "bh_view \<Rightarrow> bool" where
  "nonneg_shape v \<longleftrightarrow> (\<forall>n \<in> set (take (ndim v) (shape v)). 0 \<le> n)"

lemma view_dims_nth:
  "wf_view v \<Longrightarrow> i < ndim v \<Longrightarrow> view_dims v ! i = (shape v ! i, stride v ! i)"
  by (simp add: view_dims_def wf_view_def)

lemma length_view_dims: "wf_view v \<Longrightarrow> length (view_dims v) = ndim v"
  by (simp add: view_dims_def wf_view_def)

lemma nonneg_shape_nth: "wf_view v \<Longrightarrow> nonneg_shape v \<Longrightarrow> i < ndim v \<Longrightarrow> 0 \<le> shape v ! i"
  by (force simp: nonneg_shape_def wf_view_def in_set_conv_nth)

lemma offsets_append:
  "offsets (xs @ ys) = concat (map (\<lambda>p. map (\<lambda>q. p + q) (offsets ys)) (offsets xs))"
proof (induction xs)
  case Nil
  then show ?case by simp
next
  case (Cons d ds)
  then show ?case
    by (cases d) (simp add: map_concat concat_concat_map comp_def plus_plus_fun)
qed

lemma offsets_one [simp]: "offsets ((1, s) # ds) = offsets ds"
  by simp

lemma offsets_empty_iff: "offsets ds = [] \<longleftrightarrow> (\<exists>(n, s) \<in> set ds. n \<le> 0)"
  by (induction ds rule: offsets.induct) auto

lemma offsets_mid_cong: "offsets ys = offsets ys' \<Longrightarrow> offsets (xs @ ys @ zs) = offsets (xs @ ys' @ zs)"
  by (simp add: offsets_append)

text \<open>Two adjacent dimensions, the outer stride being the inner extent, enumerate as one.\<close>

lemma offsets_merge:
  assumes "0 \<le> n" and "0 \<le> m" and "m * t = s"
  shows "offsets ((n, s) # (m, t) # ds) = offsets ((n * m, t) # ds)"
proof -
  let ?f = "\<lambda>k. map (\<lambda>p. k * t + p) (offsets ds)"
  have "offsets ((n, s) # (m, t) # ds) =
      concat (map (\<lambda>i. concat (map (\<lambda>j. ?f (i * m + j)) [0..m - 1])) [0..n - 1])"
    by (simp add: map_concat comp_def distrib_right add.assoc mult.assoc flip: assms(3))
  also have "\<dots> = concat (map ?f (concat (map (\<lambda>i. map (\<lambda>j. i * m + j) [0..m - 1]) [0..n - 1])))"
    by (simp add: concat_map_concat comp_def)
  also have "\<dots> = concat (map ?f [0..n * m - 1])"
    using concat_map_upto [of m "nat n"] assms by simp
  finally show ?thesis by simp
qed

subsection \<open>Simplification keeps the elements and their order\<close>

text \<open>The dimensions the loop has built so far: the entries up to and including \<open>ndim res\<close>.\<close>

definition cur_dims :: "bh_view \<Rightarrow> (int \<times> int) list" where
  "cur_dims res = zip (take (Suc (ndim res)) (shape res)) (take (Suc (ndim res)) (stride res))"

definition simplify_inv :: "bh_view \<Rightarrow> nat \<Rightarrow> bh_view \<Rightarrow> bool" where
  "simplify_inv view i res \<longleftrightarrow>
     length (shape res) = BH_MAXDIM \<and> length (stride res) = BH_MAXDIM \<and>
     ndim res < i \<and> i \<le> ndim view \<and> 0 \<le> shape res ! ndim res \<and>
     (0 < ndim res \<longrightarrow> 1 < shape res ! ndim res)"

lemma cur_dims_snoc:
  "ndim res < length (shape res) \<Longrightarrow> ndim res < length (stride res) \<Longrightarrow>
   cur_dims res = zip (take (ndim res) (shape res)) (take (ndim res) (stride res)) @
     [(shape res ! ndim res, stride res ! ndim res)]"
  by (simp add: cur_dims_def take_Suc_conv_app_nth)

lemma drop_view_dims:
  "wf_view v \<Longrightarrow> i < ndim v \<Longrightarrow>
   drop i (view_dims v) = (shape v ! i, stride v ! i) # drop (Suc i) (view_dims v)"
  by (metis Cons_nth_drop_Suc length_view_dims view_dims_nth)

lemma cur_dims_merge:
  assumes "simplify_inv view i res" and "wf_view view" and "0 \<le> n" and "n * s = stride res ! ndim res"
  shows "offsets (cur_dims (res\<lparr>shape := (shape res)[ndim res := shape res ! ndim res * n],
                               stride := (stride res)[ndim res := s]\<rparr>) @ ds) =
         offsets (cur_dims res @ (n, s) # ds)"
proof -
  have len: "ndim res < length (shape res)" "ndim res < length (stride res)"
    using assms(1,2) by (auto simp: simplify_inv_def wf_view_def)
  have "offsets ((shape res ! ndim res, stride res ! ndim res) # (n, s) # ds) =
        offsets ((shape res ! ndim res * n, s) # ds)"
    using assms by (intro offsets_merge) (auto simp: simplify_inv_def)
  then show ?thesis
    using len offsets_mid_cong [where zs = "[]"] by (simp add: cur_dims_snoc)
qed

lemma cur_dims_extend:
  assumes "simplify_inv view i res" and "wf_view view" and "i < ndim view"
  shows "cur_dims (res\<lparr>ndim := Suc (ndim res), shape := (shape res)[Suc (ndim res) := n],
                       stride := (stride res)[Suc (ndim res) := s]\<rparr>) = cur_dims res @ [(n, s)]"
proof -
  have len: "Suc (ndim res) < length (shape res)" "Suc (ndim res) < length (stride res)"
    using assms by (auto simp: simplify_inv_def wf_view_def)
  then show ?thesis
    by (simp add: cur_dims_def take_Suc_conv_app_nth)
qed

lemma simplify_loop_correct:
  assumes "wf_view view" and "nonneg_shape view" and "simplify_inv view i res"
  shows "wf_view (simplify_loop view i res) \<and>
         offsets (view_dims (simplify_loop view i res)) =
           offsets (cur_dims res @ drop i (view_dims view)) \<and>
         base (simplify_loop view i res) = base res \<and>
         start (simplify_loop view i res) = start res \<and>
         ndim (simplify_loop view i res) \<le> ndim view"
  using assms
proof (induction view i res rule: simplify_loop.induct)
  case (1 view i res)
  note inv = "1.prems"(3) and wf = "1.prems"(1)
  let ?n = "shape view ! i" and ?s = "stride view ! i"
  consider (stop) "i = ndim view" | (zero) "i < ndim view" "?n = 0"
    | (one) "i < ndim view" "?n = 1"
    | (merge) "i < ndim view" "1 < ?n" "?n * ?s = stride res ! ndim res"
    | (extend) "i < ndim view" "1 < ?n" "?n * ?s \<noteq> stride res ! ndim res"
    using inv nonneg_shape_nth [OF "1.prems"(1,2), of i]
    by (cases "i < ndim view") (force simp: simplify_inv_def)+
  then show ?case
  proof cases
    case stop
    then have "simplify_loop view i res = res\<lparr>ndim := Suc (ndim res)\<rparr>"
      using inv unfolding simplify_loop.simps [of view i res] by (auto simp: simplify_inv_def)
    then show ?thesis
      using inv wf stop by (auto simp: simplify_inv_def wf_view_def view_dims_def cur_dims_def)
  next
    case zero
    then have eq: "simplify_loop view i res = res\<lparr>ndim := 1, shape := (shape res)[0 := 0]\<rparr>"
      by (simp add: simplify_loop.simps [of view i res])
    have "offsets (cur_dims res @ drop i (view_dims view)) = []"
      using zero wf by (auto simp: offsets_empty_iff drop_view_dims)
    moreover have "offsets (view_dims (simplify_loop view i res)) = []"
      using inv by (auto simp: eq offsets_empty_iff view_dims_def simplify_inv_def BH_MAXDIM_def
          take_Suc_conv_app_nth)
    ultimately show ?thesis
      using inv wf zero by (auto simp: eq simplify_inv_def wf_view_def)
  next
    case one
    then show ?thesis
      using "1.IH"(1) inv wf "1.prems"(2)
      by (simp add: simplify_loop.simps [of view i res] simplify_inv_def drop_view_dims
          offsets_append less_Suc_eq)
  next
    case merge
    let ?r = "res\<lparr>shape := (shape res)[ndim res := shape res ! ndim res * ?n],
                  stride := (stride res)[ndim res := ?s]\<rparr>"
    have "simplify_inv view (Suc i) ?r"
      using inv merge wf less_1_mult [of "shape res ! ndim res" ?n]
      by (auto simp: simplify_inv_def wf_view_def)
    then show ?thesis
      using "1.IH"(2) merge inv wf "1.prems"(2) cur_dims_merge [OF inv wf _ merge(3)]
      by (simp add: simplify_loop.simps [of view i res] drop_view_dims)
  next
    case extend
    let ?r = "res\<lparr>ndim := Suc (ndim res), shape := (shape res)[Suc (ndim res) := ?n],
                  stride := (stride res)[Suc (ndim res) := ?s]\<rparr>"
    have "simplify_inv view (Suc i) ?r"
      using inv extend wf by (auto simp: simplify_inv_def wf_view_def)
    then show ?thesis
      using "1.IH"(3) extend inv wf "1.prems"(2) cur_dims_extend [OF inv wf extend(1)]
      by (simp add: simplify_loop.simps [of view i res] drop_view_dims)
  qed
qed

lemma simplify_skip_correct:
  assumes "wf_view view" and "i < ndim view"
  shows "i \<le> simplify_skip view i \<and> simplify_skip view i < ndim view \<and>
         (shape view ! simplify_skip view i = 1 \<longrightarrow> Suc (simplify_skip view i) = ndim view) \<and>
         offsets (drop (simplify_skip view i) (view_dims view)) = offsets (drop i (view_dims view))"
  using assms
proof (induction view i rule: simplify_skip.induct)
  case (1 view i)
  show ?case
  proof (cases "shape view ! i = 1 \<and> i < ndim view - 1")
    case True
    then have "Suc i < ndim view" by linarith
    then show ?thesis
      using "1" True
      by (simp add: simplify_skip.simps [of view i] drop_view_dims [of view i] del: offsets.simps)
  next
    case False
    then show ?thesis
      using "1.prems" by (auto simp: simplify_skip.simps [of view i])
  qed
qed

text \<open>The state in which the main loop starts.\<close>

lemma simplify_start:
  assumes "wf_view view" and "nonneg_shape view" and "i < ndim view"
  defines "res \<equiv> \<lparr>base = base view, start = start view, ndim = 0,
                 shape = (replicate BH_MAXDIM 0)[0 := shape view ! i],
                 stride = (replicate BH_MAXDIM 0)[0 := stride view ! i]\<rparr>"
  shows "simplify_inv view (Suc i) res" and "cur_dims res = [view_dims view ! i]"
  using assms nonneg_shape_nth [OF assms(1-3)]
  by (auto simp: simplify_inv_def res_def BH_MAXDIM_def cur_dims_def take_Suc_conv_app_nth view_dims_nth)

lemma bh_view_simplify_correct:
  assumes "wf_view v" and "nonneg_shape v"
  shows "wf_view (bh_view_simplify v) \<and> base (bh_view_simplify v) = base v \<and>
         view_offsets (bh_view_simplify v) = view_offsets v \<and>
         ndim (bh_view_simplify v) \<le> ndim v"
proof -
  let ?i = "simplify_skip v 0"
  have i: "?i < ndim v" "offsets (drop ?i (view_dims v)) = offsets (view_dims v)"
    using simplify_skip_correct [OF assms(1), of 0] assms(1) by (auto simp: wf_view_def)
  note st = simplify_start [OF assms i(1)]
  have "[view_dims v ! ?i] @ drop (Suc ?i) (view_dims v) = drop ?i (view_dims v)"
    using i(1) assms(1) by (simp add: drop_view_dims view_dims_nth)
  then show ?thesis
    using simplify_loop_correct [OF assms st(1)] i(2) st(2)
    by (simp add: bh_view_simplify_def view_offsets_def Let_def)
qed

subsection \<open>The simplified dimensions are canonical\<close>

fun canon :: "(int \<times> int) list \<Rightarrow> bool" where
  "canon [] = True"
| "canon [(n, s)] = (2 \<le> n)"
| "canon ((n, s) # (m, t) # ds) = (2 \<le> n \<and> s \<noteq> m * t \<and> canon ((m, t) # ds))"

lemma canon_snoc2:
  "canon (ds @ [(n, s), (m, t)]) \<longleftrightarrow> canon (ds @ [(n, s)]) \<and> s \<noteq> m * t \<and> 2 \<le> m"
  by (induction ds rule: canon.induct) auto

lemma canon_snoc_shape: "canon (ds @ [(n, s)]) \<Longrightarrow> 2 \<le> n"
  by (induction ds rule: canon.induct) auto

lemma canon_butlast: "canon (ds @ [d]) \<Longrightarrow> canon ds"
  by (cases ds rule: rev_cases) (auto, metis canon_snoc2 surj_pair)

lemma canon_snoc_merge:
  assumes "canon (ds @ [(m, n * s)])" and "2 \<le> n"
  shows "canon (ds @ [(m * n, s)])"
proof -
  have "2 \<le> m" using canon_snoc_shape [OF assms(1)] .
  moreover from this assms(2) have "2 * 1 \<le> m * n" by (intro mult_mono) auto
  ultimately show ?thesis
    using assms(1) by (cases ds rule: rev_cases) (auto simp: canon_snoc2 mult.assoc split: prod.splits)
qed

lemma canon_positive: "canon ds \<Longrightarrow> (n, s) \<in> set ds \<Longrightarrow> 2 \<le> n"
  by (induction ds rule: canon.induct) auto

lemma simplify_loop_canon:
  assumes "wf_view view" and "\<forall>j < ndim view. 0 < shape view ! j" and "simplify_inv view i res"
    and "canon (cur_dims res)"
  shows "canon (view_dims (simplify_loop view i res))"
  using assms
proof (induction view i res rule: simplify_loop.induct)
  case (1 view i res)
  note inv = "1.prems"(3) and wf = "1.prems"(1)
  let ?n = "shape view ! i" and ?s = "stride view ! i"
  have len: "ndim res < length (shape res)" "ndim res < length (stride res)"
    using inv wf by (auto simp: simplify_inv_def wf_view_def)
  consider (stop) "i = ndim view" | (one) "i < ndim view" "?n = 1"
    | (merge) "i < ndim view" "1 < ?n" "?n * ?s = stride res ! ndim res"
    | (extend) "i < ndim view" "1 < ?n" "?n * ?s \<noteq> stride res ! ndim res"
    using inv "1.prems"(2) by (cases "i < ndim view") (force simp: simplify_inv_def)+
  then show ?case
  proof cases
    case stop
    then have "simplify_loop view i res = res\<lparr>ndim := Suc (ndim res)\<rparr>"
      using inv unfolding simplify_loop.simps [of view i res] by (auto simp: simplify_inv_def)
    then show ?thesis
      using "1.prems"(4) by (simp add: cur_dims_def view_dims_def)
  next
    case one
    then show ?thesis
      using "1.IH"(1) "1.prems" by (simp add: simplify_loop.simps [of view i res] simplify_inv_def)
  next
    case merge
    let ?r = "res\<lparr>shape := (shape res)[ndim res := shape res ! ndim res * ?n],
                  stride := (stride res)[ndim res := ?s]\<rparr>"
    have "simplify_inv view (Suc i) ?r"
      using inv merge wf less_1_mult [of "shape res ! ndim res" ?n]
      by (auto simp: simplify_inv_def wf_view_def)
    moreover have "canon (cur_dims ?r)"
      using "1.prems"(4) merge len by (simp add: cur_dims_snoc canon_snoc_merge)
    ultimately show ?thesis
      using "1.IH"(2) merge "1.prems" by (simp add: simplify_loop.simps [of view i res])
  next
    case extend
    let ?r = "res\<lparr>ndim := Suc (ndim res), shape := (shape res)[Suc (ndim res) := ?n],
                  stride := (stride res)[Suc (ndim res) := ?s]\<rparr>"
    have "simplify_inv view (Suc i) ?r"
      using inv extend wf by (auto simp: simplify_inv_def wf_view_def)
    moreover have "canon (cur_dims ?r)"
      using "1.prems"(4) extend len cur_dims_extend [OF inv wf extend(1), where n = ?n and s = ?s]
      by (auto simp: cur_dims_snoc canon_snoc2)
    ultimately show ?thesis
      using "1.IH"(3) extend "1.prems" by (simp add: simplify_loop.simps [of view i res])
  qed
qed

subsection \<open>Canonical dimensions are determined by the offsets\<close>

lemma nth_concat_blocks:
  assumes "\<And>x. x \<in> set xs \<Longrightarrow> length (f x) = n" and "k < length xs" and "j < n"
  shows "concat (map f xs) ! (k * n + j) = f (xs ! k) ! j"
  using assms
proof (induction xs arbitrary: k)
  case Nil
  then show ?case by simp
next
  case (Cons x xs)
  then show ?case
    by (cases k) (auto simp: nth_append add.assoc)
qed

lemma offsets_snoc:
  "offsets (es @ [(n, s)]) = concat (map (\<lambda>p. map (\<lambda>j. p + j * s) [0..n - 1]) (offsets es))"
  by (simp add: offsets_append map_concat comp_def concat_map_concat)

lemma offsets_snoc_nth:
  assumes "k < length (offsets es)" and "j < nat n"
  shows "offsets (es @ [(n, s)]) ! (k * nat n + j) = offsets es ! k + int j * s"
  using assms unfolding offsets_snoc
  by (subst nth_concat_blocks) auto

lemma length_offsets_snoc: "length (offsets (es @ [(n, s)])) = length (offsets es) * nat n"
  by (simp add: offsets_snoc length_concat comp_def sum_list_triv)

lemma canon_offsets_pos: "canon es \<Longrightarrow> 0 < length (offsets es)"
  using canon_positive offsets_empty_iff [of es] by fastforce

lemma canon_offsets_0: "canon es \<Longrightarrow> offsets es ! 0 = 0"
proof (induction es rule: rev_induct)
  case Nil
  then show ?case by simp
next
  case (snoc d es)
  then show ?case
    using offsets_snoc_nth [of 0 es 0 "fst d" "snd d"] canon_snoc_shape [of es "fst d" "snd d"]
      canon_butlast [of es d] canon_offsets_pos [of es]
    by (auto simp: nat_less_iff)
qed

lemma canon_offsets_1:
  assumes "canon (es @ [(n, s)])"
  shows "offsets (es @ [(n, s)]) ! 1 = s"
  using offsets_snoc_nth [of 0 es 1 n s] canon_snoc_shape [OF assms] canon_butlast [OF assms]
    canon_offsets_pos [of es] canon_offsets_0 [of es]
  by (auto simp: nat_less_iff zless_nat_eq_int_zless)

lemma canon_snoc_length:
  assumes "canon (es @ [(n, s)])"
  shows "2 \<le> length (offsets (es @ [(n, s)]))"
proof -
  have "1 * 2 \<le> length (offsets es) * nat n"
    using canon_snoc_shape [OF assms] canon_offsets_pos [OF canon_butlast [OF assms]]
    by (intro mult_le_mono) (auto simp: Suc_leI)
  then show ?thesis by (simp add: length_offsets_snoc)
qed

lemma canon_snoc_not_Nil: "canon (es @ [(n, s)]) \<Longrightarrow> offsets (es @ [(n, s)]) \<noteq> [0]"
  using canon_snoc_length [of es n s] by (metis One_nat_def Suc_1 le_numeral_extra(4) length_Cons
      list.size(3) not_less_eq_eq)

text \<open>The last dimension is at most as long as that of any other canonical list with the same offsets.\<close>

lemma canon_last_le:
  assumes "canon (es @ [(n, s)])" and "canon (es' @ [(n', s)])"
    and "offsets (es @ [(n, s)]) = offsets (es' @ [(n', s)])"
  shows "n' \<le> n"
proof (rule ccontr)
  assume "\<not> n' \<le> n"
  then have lt: "n < n'" by simp
  have n: "2 \<le> n" using canon_snoc_shape [OF assms(1)] .
  have c: "canon es" "canon es'" using canon_butlast assms(1,2) by blast+
  have at_n: "offsets (es' @ [(n', s)]) ! nat n = n * s"
    using offsets_snoc_nth [of 0 es' "nat n" n' s] canon_offsets_pos [OF c(2)]
      canon_offsets_0 [OF c(2)] lt n by simp
  show False
  proof (cases es rule: rev_cases)
    case Nil
    then have "nat n = length (offsets es') * nat n'"
      using assms(3) length_offsets_snoc [of es n s] length_offsets_snoc [of es' n' s] by simp
    moreover have "nat n' \<le> length (offsets es') * nat n'"
      using canon_offsets_pos [OF c(2)] by (simp add: Suc_leI)
    ultimately show False using lt n by linarith
  next
    case (snoc fs d)
    obtain m t where d: "d = (m, t)" by (cases d)
    have t: "t \<noteq> n * s" using assms(1) by (simp add: snoc d canon_snoc2)
    have "offsets es ! 1 = t" "1 < length (offsets es)"
      using canon_offsets_1 [of fs m t] c(1) canon_snoc_length [of fs m t] by (auto simp: snoc d)
    then have "offsets (es @ [(n, s)]) ! nat n = t"
      using offsets_snoc_nth [of 1 es 0 n s] n by simp
    with at_n t assms(3) show False by simp
  qed
qed

lemma offsets_snoc_inj:
  assumes "0 < n" and "offsets (es @ [(n, s)]) = offsets (es' @ [(n, s)])"
  shows "offsets es = offsets es'"
proof (rule nth_equalityI)
  show len: "length (offsets es) = length (offsets es')"
    using arg_cong [OF assms(2), of length] assms(1) by (simp add: length_offsets_snoc)
  fix k assume "k < length (offsets es)"
  then show "offsets es ! k = offsets es' ! k"
    using offsets_snoc_nth [of k es 0 n s] offsets_snoc_nth [of k es' 0 n s] assms len by simp
qed

lemma canon_unique:
  assumes "canon ds" and "canon ds'" and "offsets ds = offsets ds'"
  shows "ds = ds'"
  using assms
proof (induction ds arbitrary: ds' rule: rev_induct)
  case Nil
  then show ?case
    by (cases ds' rule: rev_cases) (auto, metis canon_snoc_not_Nil surj_pair)
next
  case (snoc d es)
  obtain n s where d: "d = (n, s)" by (cases d)
  have "ds' \<noteq> []"
    using snoc.prems canon_snoc_not_Nil [of es n s] by (auto simp: d)
  then obtain es' n' s' where ds': "ds' = es' @ [(n', s')]"
    by (metis rev_exhaust surj_pair)
  have s: "s' = s"
    using canon_offsets_1 [of es n s] canon_offsets_1 [of es' n' s'] snoc.prems by (simp add: d ds')
  have n: "n' = n"
    using canon_last_le [of es n s es' n'] canon_last_le [of es' n' s es n] snoc.prems
    by (simp add: d ds' s)
  have "offsets es = offsets es'"
    using offsets_snoc_inj [of n es s es'] snoc.prems canon_snoc_shape [of es n s] by (simp add: d ds' s n)
  then have "es = es'"
    using snoc.IH snoc.prems canon_butlast by (metis ds')
  then show ?case by (simp add: d ds' s n)
qed


subsection \<open>Alignment decides equality of the visited elements\<close>

lemma eq_loop_iff: "eq_loop k i xs ys \<longleftrightarrow> (\<forall>j < k. xs ! (i + j) = ys ! (i + j))"
  by (induction k arbitrary: i) (auto simp: All_less_Suc2)

lemma bh_view_eq_iff:
  assumes "wf_view a" and "wf_view b"
  shows "bh_view_eq a b \<longleftrightarrow> base a = base b \<and> start a = start b \<and> view_dims a = view_dims b"
proof -
  have "view_dims a = view_dims b \<longleftrightarrow>
    ndim a = ndim b \<and> (\<forall>j < ndim a. shape a ! j = shape b ! j \<and> stride a ! j = stride b ! j)"
    using assms by (auto simp: list_eq_iff_nth_eq length_view_dims view_dims_nth)
  then show ?thesis
    by (auto simp: bh_view_eq_def eq_loop_iff)
qed

lemma view_offsets_nonempty_start:
  assumes "view_offsets a = view_offsets b" and "view_offsets a \<noteq> []"
    and "offsets (view_dims a) ! 0 = 0" and "offsets (view_dims b) ! 0 = 0"
  shows "start a = start b \<and> offsets (view_dims a) = offsets (view_dims b)"
proof -
  have "offsets (view_dims a) \<noteq> []" "offsets (view_dims b) \<noteq> []"
    using assms(1,2) by (auto simp: view_offsets_def)
  then have "view_offsets a ! 0 = start a" "view_offsets b ! 0 = start b"
    using assms(3,4) by (auto simp: view_offsets_def)
  with assms(1) have "start a = start b" by simp
  moreover have "inj (\<lambda>p. start b + p)" by (simp add: inj_def)
  ultimately show ?thesis using assms(1) by (auto simp: view_offsets_def dest: map_injective)
qed

lemma simplify_canon:
  assumes "wf_view v" and "nonneg_shape v" and "2 \<le> length (view_offsets v)"
  shows "canon (view_dims (bh_view_simplify v))"
proof -
  let ?i = "simplify_skip v 0"
  have i: "?i < ndim v" "offsets (drop ?i (view_dims v)) = offsets (view_dims v)"
    "shape v ! ?i = 1 \<longrightarrow> Suc ?i = ndim v"
    using simplify_skip_correct [OF assms(1), of 0] assms(1) by (auto simp: wf_view_def)
  have ne: "offsets (view_dims v) \<noteq> []" "offsets (view_dims v) \<noteq> [0]"
    using assms(3) by (auto simp: view_offsets_def)
  have pos: "\<forall>j < ndim v. 0 < shape v ! j"
    using ne(1) assms(1) by (metis (no_types, lifting) case_prodI length_view_dims linorder_not_le
        nth_mem offsets_empty_iff view_dims_nth)
  have "shape v ! ?i \<noteq> 1"
    using i ne(2) assms(1) by (auto simp: drop_view_dims [of v ?i] length_view_dims)
  then have "canon [view_dims v ! ?i]"
    using pos i(1) assms(1) by (force simp: view_dims_nth)
  then show ?thesis
    using simplify_loop_canon [OF assms(1) pos] simplify_start [OF assms(1,2) i(1)]
    by (simp add: bh_view_simplify_def Let_def)
qed


subsection \<open>The order of views\<close>

lemma less_loop_None: "less_loop k i xs ys = None \<longleftrightarrow> eq_loop k i xs ys"
  by (induction k arbitrary: i) auto

lemma less_loop_flip: "less_loop k i ys xs = map_option Not (less_loop k i xs ys)"
  by (induction k arbitrary: i) auto

lemma less_loop_trans:
  "less_loop k i xs ys \<noteq> Some False \<Longrightarrow> less_loop k i ys zs \<noteq> Some False \<Longrightarrow>
   less_loop k i xs zs =
     (if less_loop k i xs ys = None \<and> less_loop k i ys zs = None then None else Some True)"
  by (induction k arbitrary: i) (auto split: if_splits)

lemma bh_view_less_trans: "bh_view_less a b \<Longrightarrow> bh_view_less b c \<Longrightarrow> bh_view_less a c"
  using less_loop_trans [of "ndim a" 0 "shape a" "shape b" "shape c"]
    less_loop_trans [of "ndim a" 0 "stride a" "stride b" "stride c"]
  by (auto simp: bh_view_less_def split: if_splits option.splits)

lemma bh_view_less_flip: "\<not> bh_view_less a b \<and> \<not> bh_view_less b a \<longleftrightarrow> bh_view_eq a b"
  using less_loop_flip [of "ndim a" 0 "shape a" "shape b"]
    less_loop_flip [of "ndim a" 0 "stride a" "stride b"]
    less_loop_None [of "ndim a" 0 "shape a" "shape b"]
    less_loop_None [of "ndim a" 0 "stride a" "stride b"]
  by (auto simp: bh_view_less_def bh_view_eq_def split: if_splits option.splits)


text \<open>
  \<^verbatim>\<open>operator<\<close> on views is a strict weak order whose equivalence is \<^verbatim>\<open>operator==\<close>, which is what
  the ordered containers keyed by views rely on.
\<close>

theorem bh_view_less_order:
  "\<not> bh_view_less a a \<and>
   (bh_view_less a b \<longrightarrow> bh_view_less b c \<longrightarrow> bh_view_less a c) \<and>
   (\<not> bh_view_less a b \<and> \<not> bh_view_less b a \<longleftrightarrow> bh_view_eq a b)"
proof -
  have "bh_view_eq a a" by (simp add: bh_view_eq_def eq_loop_iff)
  then have "\<not> bh_view_less a a" using bh_view_less_flip by blast
  then show ?thesis using bh_view_less_trans bh_view_less_flip by blast
qed

subsection \<open>Counting elements\<close>

lemma nelements_loop_eq: "i + k \<le> length shp \<Longrightarrow> nelements_loop k i shp res = res * prod_list (take k (drop i shp))"
proof (induction k arbitrary: i res)
  case 0
  then show ?case by simp
next
  case (Suc k)
  have "drop i shp = shp ! i # drop (Suc i) shp"
    using Suc.prems by (simp add: Cons_nth_drop_Suc)
  then show ?case using Suc by (simp add: mult.assoc)
qed

lemma length_offsets: "(\<forall>(n, s) \<in> set ds. 0 \<le> n) \<Longrightarrow> int (length (offsets ds)) = prod_list (map fst ds)"
  by (induction ds) (auto simp: length_concat comp_def sum_list_triv)

lemma map_fst_view_dims: "wf_view v \<Longrightarrow> map fst (view_dims v) = take (ndim v) (shape v)"
  by (simp add: view_dims_def wf_view_def)

lemma nonneg_dims: "nonneg_shape v \<Longrightarrow> \<forall>(n, s) \<in> set (view_dims v). 0 \<le> n"
  by (auto simp: nonneg_shape_def view_dims_def dest: set_zip_leftD)

lemma bh_nelements_view_eq:
  assumes "wf_view v" and "nonneg_shape v"
  shows "bh_nelements_view v = Some (int (length (view_offsets v)))"
proof -
  have "nelements_loop (ndim v) 0 (shape v) 1 = prod_list (take (ndim v) (shape v))"
    using assms(1) by (simp add: nelements_loop_eq wf_view_def)
  moreover have "int (length (view_offsets v)) = prod_list (take (ndim v) (shape v))"
    using length_offsets [OF nonneg_dims [OF assms(2)]] map_fst_view_dims [OF assms(1)]
    by (simp add: view_offsets_def)
  ultimately show ?thesis
    using assms(1) by (simp add: bh_nelements_view_def bh_nelements_def wf_view_def)
qed

lemma contiguous_loop_correct:
  assumes "wf_view view" and "nonneg_shape view" and "i \<le> ndim view"
    and "offsets (drop i (view_dims view)) = [0..s - 1]" and "0 \<le> s"
    and "contiguous_loop i view s = (s', v')"
  shows "offsets (view_dims v') = [0..s' - 1] \<and> wf_view v' \<and> 0 \<le> s' \<and>
         v' = view\<lparr>stride := stride v'\<rparr>"
  using assms
proof (induction i view s rule: contiguous_loop.induct)
  case (1 view s)
  then show ?case by simp
next
  case (2 i view s)
  let ?v = "view\<lparr>stride := (stride view)[i := s]\<rparr>" and ?n = "shape view ! i"
  have n: "0 \<le> ?n" using nonneg_shape_nth [OF "2.prems"(1,2), of i] "2.prems"(3) by simp
  have wf: "wf_view ?v" and nn: "nonneg_shape ?v"
    using "2.prems"(1,2) by (auto simp: wf_view_def nonneg_shape_def)
  have "drop (Suc i) (view_dims ?v) = drop (Suc i) (view_dims view)"
    using "2.prems"(1) wf by (simp add: view_dims_def drop_zip take_update_swap drop_update_cancel)
  then have "offsets (drop i (view_dims ?v)) = [0..s * ?n - 1]"
    using "2.prems" drop_view_dims [OF wf, of i] concat_map_upto [OF "2.prems"(5), of "nat ?n"] n
    by (simp add: wf_view_def mult.commute)
  then show ?case
    using "2.IH" [OF wf nn] "2.prems" n by simp
qed

lemma set_contiguous_stride_correct:
  assumes "wf_view v" and "nonneg_shape v" and "bh_set_contiguous_stride v = (n, v')"
  shows "bh_nelements_view v = Some n \<and> view_offsets v' = [start v..start v + n - 1] \<and>
         v' = v\<lparr>stride := stride v'\<rparr>"
proof -
  have c: "offsets (view_dims v') = [0..n - 1]" "wf_view v'" "0 \<le> n" "v' = v\<lparr>stride := stride v'\<rparr>"
    using contiguous_loop_correct [OF assms(1,2), of "ndim v" 1] assms
    by (auto simp: bh_set_contiguous_stride_def length_view_dims)
  have st: "start v' = start v" "ndim v' = ndim v" "shape v' = shape v"
    using c(4) by (metis bh_view.select_convs bh_view.surjective bh_view.update_convs(5))+
  have "view_offsets v' = [start v..start v + n - 1]"
    using map_plus_upto [of "start v" 0 "n - 1"] c(1) st by (simp add: view_offsets_def algebra_simps)
  moreover have "bh_nelements_view v' = Some n"
    using bh_nelements_view_eq [OF c(2)] c(1,3) assms(2) st by (simp add: view_offsets_def nonneg_shape_def)
  ultimately show ?thesis
    using c(4) st by (simp add: bh_nelements_view_def)
qed

text \<open>
  \<^verbatim>\<open>bh_set_contiguous_stride\<close> returns the number of elements and leaves a view that visits that
  many consecutive elements from its start; nothing but the strides changes.
\<close>

theorem bh_set_contiguous_stride_correct:
  assumes "wf_view v" and "nonneg_shape v" and "bh_set_contiguous_stride v = (n, v')"
  shows "bh_nelements_view v = Some n \<and> view_offsets v' = [start v..start v + n - 1] \<and>
         v' = v\<lparr>stride := stride v'\<rparr>"
  using assms by (rule set_contiguous_stride_correct)

theorem bh_set_contiguous_stride_correct_witness:
  "view_offsets (snd (bh_set_contiguous_stride (mk_view 1 3 [(2, 0), (3, 0)]))) = [3, 4, 5, 6, 7, 8]"
  using bh_set_contiguous_stride_correct [of "mk_view 1 3 [(2, 0), (3, 0)]" 6
      "mk_view 1 3 [(2, 3), (3, 1)]"]
  by (simp add: wf_view_def mk_view_def BH_MAXDIM_def nonneg_shape_def bh_set_contiguous_stride_def
      eval_nat_numeral upto.simps)

theorem bh_view_less_order_witness:
  "bh_view_less (mk_view 1 0 [(2, 1)]) (mk_view 1 0 [(2, 7)])"
  using bh_view_less_order [of "mk_view 1 0 [(2, 1)]" "mk_view 1 0 [(2, 3)]" "mk_view 1 0 [(2, 7)]"]
  by (simp add: bh_view_less_def mk_view_def)

end
