(* ===== verification/Bh_Disjoint.thy ===== *)
theory Bh_Disjoint
  imports Bh_View
begin

text \<open>
  The overlap test of views and the dependency test of instructions: \<^verbatim>\<open>gcd\<close>,
  \<^verbatim>\<open>bh_view_disjoint\<close>, \<^verbatim>\<open>bh_instr_dependency\<close> and \<^verbatim>\<open>bh_opcode_is_sweep\<close> of
  \<^verbatim>\<open>core/bh.cpp\<close>, and \<^verbatim>\<open>bh_instruction\<close> of \<^verbatim>\<open>include/bh_instruction.h\<close>.

  \<open>touches\<close> is what a view may read or write. The test is sound for views that lie on a common
  grid (\<open>grid_view\<close>: equal strides, no row wraps into the next, values that fit the 32-bit locals
  of the source) and unsound outside that class; both are proved.
\<close>

subsection \<open>Disjointness\<close>

text \<open>The loop of \<^verbatim>\<open>gcd\<close> on C \<^verbatim>\<open>int\<close>s, with \<open>c = a % b\<close> computed before the loop.\<close>

function gcd_loop :: "int \<Rightarrow> int \<Rightarrow> int \<Rightarrow> int" where
  "gcd_loop a b c = (if c \<noteq> 0 then gcd_loop b c (b smod c) else b)"
  by pat_completeness auto
termination
  by (relation "measure (\<lambda>(a, b, c). nat \<bar>c\<bar>)") (auto simp: smod_abs_less)

declare gcd_loop.simps [simp del]

definition bh_gcd :: "int \<Rightarrow> int \<Rightarrow> int" where
  "bh_gcd a b = (if b = 0 then a else gcd_loop a b (a smod b))"

text \<open>
  The loop of \<^verbatim>\<open>bh_view_disjoint\<close>. \<open>Inl True\<close> is the early return; \<open>Inr s\<close> is the value of
  \<^verbatim>\<open>stride\<close> after the loop. Every local of the source is a 32-bit \<^verbatim>\<open>int\<close>, so each assignment
  narrows; the arguments of \<^verbatim>\<open>gcd\<close> narrow too.
\<close>

fun disjoint_loop :: "nat \<Rightarrow> nat \<Rightarrow> bh_view \<Rightarrow> bh_view \<Rightarrow> int \<Rightarrow> int \<Rightarrow> int \<Rightarrow> bool + int" where
  "disjoint_loop 0 i a b astart bstart s = Inr s"
| "disjoint_loop (Suc k) i a b astart bstart s =
     (let s = bh_gcd (c_int (stride a ! i)) (c_int (stride b ! i)) in
      if s = 0 then disjoint_loop k (Suc i) a b astart bstart s
      else
        (let as = astart sdiv s;
             bs = bstart sdiv s;
             ae = c_int (as + shape a ! i * (stride a ! i sdiv s));
             be = c_int (bs + shape b ! i * (stride b ! i sdiv s))
         in if ae < bs \<or> be < as then Inl True
            else disjoint_loop k (Suc i) a b (astart smod s) (bstart smod s) s))"

definition bh_view_disjoint :: "bh_view \<Rightarrow> bh_view \<Rightarrow> bool" where
  "bh_view_disjoint a b =
     (if bh_is_constant a \<or> bh_is_constant b then True
      else if base a \<noteq> base b then True
      else if ndim a \<noteq> ndim b then False
      else case disjoint_loop (ndim a) 0 a b (c_int (start a)) (c_int (start b)) 1 of
             Inl r \<Rightarrow> r
           | Inr s \<Rightarrow> (if 1 < s \<and> start a smod s \<noteq> start b smod s then True else False))"

subsection \<open>The greatest common divisor\<close>

lemma gcd_loop_0 [simp]: "gcd_loop a b 0 = b"
  by (simp add: gcd_loop.simps)

lemma gcd_loop_step: "c \<noteq> 0 \<Longrightarrow> gcd_loop a b c = gcd_loop b c (b smod c)"
  by (simp add: gcd_loop.simps [of a b c])

lemma gcd_loop_dvd: "c = a smod b \<Longrightarrow> gcd_loop a b c dvd a \<and> gcd_loop a b c dvd b"
proof (induction a b c rule: gcd_loop.induct)
  case (1 a b c)
  show ?case
  proof (cases "c = 0")
    case True
    with "1.prems" show ?thesis
      using dvd_smod_imp_dvd [of b a b] by simp
  next
    case False
    with "1" have "gcd_loop a b c dvd b" "gcd_loop a b c dvd a smod b"
      by (simp_all add: gcd_loop_step)
    then show ?thesis using dvd_smod_imp_dvd by blast
  qed
qed

lemma gcd_loop_greatest: "c = a smod b \<Longrightarrow> d dvd a \<Longrightarrow> d dvd b \<Longrightarrow> d dvd gcd_loop a b c"
proof (induction a b c rule: gcd_loop.induct)
  case (1 a b c)
  show ?case
  proof (cases "c = 0")
    case True
    with "1.prems" show ?thesis by simp
  next
    case False
    have "d dvd gcd_loop b c (b smod c)"
      using "1.IH" [OF False refl] smod_dvd [of d a b] "1.prems" by blast
    then show ?thesis using False by (simp add: gcd_loop_step)
  qed
qed

lemma bh_gcd_is_gcd: "\<bar>bh_gcd a b\<bar> = gcd a b"
proof -
  have "bh_gcd a b dvd a" "bh_gcd a b dvd b" "\<And>d. d dvd a \<Longrightarrow> d dvd b \<Longrightarrow> d dvd bh_gcd a b"
    using gcd_loop_dvd [of "a smod b" a b] gcd_loop_greatest [of "a smod b" a b]
    by (auto simp: bh_gcd_def)
  then show ?thesis
    by (metis abs_dvd_iff dvd_abs_iff gcdI abs_ge_zero normalize_int_def abs_idempotent gcd_unique_int)
qed

subsection \<open>When the disjointness test is right\<close>

fun span :: "(int \<times> int) list \<Rightarrow> int" where
  "span [] = 0"
| "span ((n, s) # ds) = (n - 1) * s + span ds"

fun on_grid :: "int \<Rightarrow> (int \<times> int) list \<Rightarrow> bool" where
  "on_grid r [] = True"
| "on_grid r ((n, s) # ds) = (0 < n \<and> 0 < s \<and> on_grid (r mod s) ds \<and> r mod s + span ds < s)"

definition fits_view :: "bh_view \<Rightarrow> bool" where
  "fits_view v \<longleftrightarrow> fits_int (start v) \<and>
     (\<forall>j < ndim v. fits_int (stride v ! j) \<and> fits_int (start v + shape v ! j))"

definition grid_view :: "bh_view \<Rightarrow> bool" where
  "grid_view v \<longleftrightarrow> wf_view v \<and> 0 \<le> start v \<and> fits_view v \<and> on_grid (start v) (view_dims v) \<and>
     (\<forall>j < ndim v. stride v ! (ndim v - 1) dvd stride v ! j)"

definition touches :: "bh_view \<Rightarrow> (ptr \<times> int) set" where
  "touches v = (if bh_is_constant v then {} else {base v} \<times> set (view_offsets v))"

lemma on_grid_span_nonneg: "on_grid r ds \<Longrightarrow> 0 \<le> span ds"
  by (induction r ds rule: on_grid.induct) auto

lemma on_grid_offsets: "on_grid r ds \<Longrightarrow> p \<in> set (offsets ds) \<Longrightarrow> 0 \<le> p \<and> p \<le> span ds"
proof (induction r ds arbitrary: p rule: on_grid.induct)
  case (1 r)
  then show ?case by simp
next
  case (2 r n s ds)
  then obtain i q where p: "p = i * s + q" "0 \<le> i" "i \<le> n - 1" "q \<in> set (offsets ds)"
    by auto
  have q: "0 \<le> q" "q \<le> span ds" using 2 p(4) by auto
  have "0 \<le> i * s" "i * s \<le> (n - 1) * s"
    using p(2,3) 2 by (auto intro: mult_right_mono)
  then show ?case using p(1) q by simp
qed

text \<open>An element of a view on the grid, split at the outermost dimension.\<close>

lemma on_grid_split:
  assumes "on_grid r ((n, s) # ds)" and "p \<in> set (offsets ((n, s) # ds))"
  shows "\<exists>i. 0 \<le> i \<and> i < n \<and> (r + p) div s = r div s + i \<and>
             (\<exists>q \<in> set (offsets ds). (r + p) mod s = r mod s + q)"
proof -
  obtain i q where p: "p = i * s + q" "0 \<le> i" "i < n" "q \<in> set (offsets ds)"
    using assms(2) by auto
  have s: "0 < s" and q: "0 \<le> r mod s + q" "r mod s + q < s"
    using assms(1) on_grid_offsets [of "r mod s" ds q] p(4) by auto
  have "r + p = (r mod s + q) + (r div s + i) * s"
    using p(1) by (simp add: algebra_simps)
  then have "(r + p) div s = r div s + i \<and> (r + p) mod s = r mod s + q"
    using s q by (simp add: div_pos_pos_trivial mod_pos_pos_trivial)
  with p(2-4) show ?thesis by blast
qed

lemma offsets_dvd: "\<forall>(n, s) \<in> set ds. g dvd s \<Longrightarrow> p \<in> set (offsets ds) \<Longrightarrow> g dvd p"
proof (induction ds arbitrary: p)
  case Nil
  then show ?case by simp
next
  case (Cons d ds)
  then show ?case by (cases d) (auto intro!: dvd_add)
qed

lemmas disjoint_eval = bh_view_disjoint_def mk_view_def bh_is_constant_def c_int_def bh_gcd_def
  BH_MAXDIM_def eval_nat_numeral Let_def sdiv_nonneg smod_nonneg

lemma bh_gcd_same: "0 < s \<Longrightarrow> bh_gcd s s = s"
  by (simp add: bh_gcd_def smod_nonneg)

lemma disjoint_loop_sound:
  assumes "wf_view a" and "wf_view b" and "ndim a = ndim b"
    and "\<forall>j < ndim a. stride a ! j = stride b ! j" and "fits_view a" and "fits_view b"
    and "i + k = ndim a" and "0 \<le> ra" and "ra \<le> start a" and "0 \<le> rb" and "rb \<le> start b"
    and "on_grid ra (drop i (view_dims a))" and "on_grid rb (drop i (view_dims b))"
    and "p \<in> set (offsets (drop i (view_dims a)))" and "q \<in> set (offsets (drop i (view_dims b)))"
    and "ra + p = rb + q"
  shows "disjoint_loop k i a b ra rb s = Inr (if k = 0 then s else stride a ! (ndim a - 1))"
  using assms(7-)
proof (induction k arbitrary: i ra rb p q s)
  case 0
  then show ?case by simp
next
  case (Suc k)
  let ?s = "stride a ! i"
  have i: "i < ndim a" "i < ndim b" using Suc.prems(1) assms(3) by auto
  have sb: "stride b ! i = ?s" using assms(4) i by simp
  note da = drop_view_dims [OF assms(1) i(1)] and db = drop_view_dims [OF assms(2) i(2), unfolded sb]
  have s: "0 < ?s" using Suc.prems(6) da by simp
  have fs: "fits_int ?s" using assms(5) i by (simp add: fits_view_def)
  obtain j where j: "0 \<le> j" "j < shape a ! i" "(ra + p) div ?s = ra div ?s + j"
      "\<exists>p' \<in> set (offsets (drop (Suc i) (view_dims a))). (ra + p) mod ?s = ra mod ?s + p'"
    using on_grid_split [of ra] Suc.prems(6,8) unfolding da by blast
  obtain l where l: "0 \<le> l" "l < shape b ! i" "(rb + q) div ?s = rb div ?s + l"
      "\<exists>q' \<in> set (offsets (drop (Suc i) (view_dims b))). (rb + q) mod ?s = rb mod ?s + q'"
    using on_grid_split [of rb] Suc.prems(7,9) unfolding db by blast
  have dle: "ra div ?s \<le> ra" "rb div ?s \<le> rb"
    using Suc.prems(2,4) s zdiv_mono2 [of ra 1 ?s] zdiv_mono2 [of rb 1 ?s] by auto
  have dnn: "0 \<le> ra div ?s" "0 \<le> rb div ?s"
    using Suc.prems(2,4) s by (simp_all add: pos_imp_zdiv_nonneg_iff)
  have "fits_int (start a + shape a ! i)" "fits_int (start b + shape b ! i)"
    using assms(5,6) i by (auto simp: fits_view_def)
  then have fe: "fits_int (ra div ?s + shape a ! i)" "fits_int (rb div ?s + shape b ! i)"
    using dle dnn j l Suc.prems(3,5) fits_int_mono [of "start a + shape a ! i" "ra div ?s + shape a ! i"]
      fits_int_mono [of "start b + shape b ! i" "rb div ?s + shape b ! i"] by linarith+
  have "\<not> (ra div ?s + shape a ! i < rb div ?s \<or> rb div ?s + shape b ! i < ra div ?s)"
    using j l Suc.prems(10) by auto
  moreover have "ra smod ?s = ra mod ?s" "rb smod ?s = rb mod ?s"
    "ra sdiv ?s = ra div ?s" "rb sdiv ?s = rb div ?s" "?s sdiv ?s = 1"
    using Suc.prems(2,4) s by (simp_all add: smod_nonneg sdiv_nonneg)
  ultimately have step: "disjoint_loop (Suc k) i a b ra rb s =
      disjoint_loop k (Suc i) a b (ra mod ?s) (rb mod ?s) ?s"
    using s fs fe by (simp add: sb bh_gcd_same Let_def)
  obtain p' q' where pq: "p' \<in> set (offsets (drop (Suc i) (view_dims a)))"
      "q' \<in> set (offsets (drop (Suc i) (view_dims b)))" "ra mod ?s + p' = rb mod ?s + q'"
    using j(4) l(4) Suc.prems(10) by metis
  have "ra mod ?s \<le> ra" "rb mod ?s \<le> rb" "0 \<le> ra mod ?s" "0 \<le> rb mod ?s"
    using Suc.prems(2,4) s by (auto intro: zmod_le_nonneg_dividend)
  then have "disjoint_loop k (Suc i) a b (ra mod ?s) (rb mod ?s) ?s =
      Inr (if k = 0 then ?s else stride a ! (ndim a - 1))"
    using Suc.prems da db pq by (intro Suc.IH [of "Suc i" _ _ p' q']) auto
  moreover have "i = ndim a - 1" if "k = 0" using Suc.prems(1) that by simp
  ultimately show ?case using step by auto
qed

lemma grid_view_congruent:
  assumes "grid_view v" and "x \<in> set (view_offsets v)"
  shows "0 < stride v ! (ndim v - 1) \<and> 0 \<le> x \<and> start v mod stride v ! (ndim v - 1) = x mod stride v ! (ndim v - 1)"
proof -
  let ?g = "stride v ! (ndim v - 1)"
  have wf: "wf_view v" and n: "ndim v - 1 < ndim v" using assms(1) by (auto simp: grid_view_def wf_view_def)
  obtain p where p: "p \<in> set (offsets (view_dims v))" "x = start v + p"
    using assms(2) by (auto simp: view_offsets_def)
  have "\<forall>(n, s) \<in> set (view_dims v). ?g dvd s"
    using assms(1) wf by (auto simp: grid_view_def in_set_conv_nth length_view_dims view_dims_nth)
  then have "?g dvd p" using offsets_dvd p(1) by blast
  moreover have "0 < ?g"
  proof -
    have "(n, s) \<in> set ds \<Longrightarrow> on_grid r ds \<Longrightarrow> 0 < s" for n s r and ds :: "(int \<times> int) list"
      by (induction r ds rule: on_grid.induct) auto
    then show ?thesis
      using assms(1) n wf nth_mem [of "ndim v - 1" "view_dims v"]
      by (metis grid_view_def length_view_dims view_dims_nth)
  qed
  moreover have "0 \<le> x"
    using assms(1) p on_grid_offsets by (fastforce simp: grid_view_def)
  ultimately show ?thesis by (auto simp: p(2) mod_add_eq mod_0_imp_dvd)
qed

lemma disjoint_sound:
  assumes "grid_view a" and "grid_view b"
    and "ndim a = ndim b \<Longrightarrow> \<forall>j < ndim a. stride a ! j = stride b ! j"
    and "bh_view_disjoint a b"
  shows "touches a \<inter> touches b = {}"
proof (rule ccontr)
  assume "touches a \<inter> touches b \<noteq> {}"
  then obtain x where c: "\<not> bh_is_constant a" "\<not> bh_is_constant b" "base a = base b"
    and x: "x \<in> set (view_offsets a)" "x \<in> set (view_offsets b)"
    by (auto simp: touches_def split: if_splits)
  let ?g = "stride a ! (ndim a - 1)"
  obtain p q where pq: "p \<in> set (offsets (view_dims a))" "q \<in> set (offsets (view_dims b))"
      "x = start a + p" "x = start b + q"
    using x by (auto simp: view_offsets_def)
  have nd: "ndim a = ndim b" using assms(4) c by (auto simp: bh_view_disjoint_def split: if_splits)
  note ga = assms(1) [unfolded grid_view_def] and gb = assms(2) [unfolded grid_view_def]
  have "disjoint_loop (ndim a) 0 a b (start a) (start b) 1 = Inr (if ndim a = 0 then 1 else ?g)"
    using ga gb pq nd assms(3) [OF nd]
    by (intro disjoint_loop_sound [where p = p and q = q]) auto
  moreover have "0 < ndim a" "c_int (start a) = start a" "c_int (start b) = start b"
    using ga gb by (auto simp: wf_view_def fits_view_def)
  moreover have "start a smod ?g = start b smod ?g"
    using grid_view_congruent [OF assms(1) x(1)] grid_view_congruent [OF assms(2) x(2)] nd ga gb
      assms(3) [OF nd] \<open>0 < ndim a\<close> by (simp add: smod_nonneg)
  ultimately show False
    using assms(4) c nd by (simp add: bh_view_disjoint_def)
qed


text \<open>
  C19. On views that lie on a common grid, a positive answer of \<^verbatim>\<open>bh_view_disjoint\<close> is right: the
  two views have no element of a base array in common.
\<close>

theorem bh_view_disjoint_sound:
  assumes "grid_view a" and "grid_view b"
    and "ndim a = ndim b \<Longrightarrow> \<forall>j < ndim a. stride a ! j = stride b ! j"
    and "bh_view_disjoint a b"
  shows "touches a \<inter> touches b = {}"
  using assms by (rule disjoint_sound)

lemma grid_view_mk_view:
  "grid_view (mk_view p r ds) \<longleftrightarrow> ds \<noteq> [] \<and> length ds \<le> BH_MAXDIM \<and> 0 \<le> r \<and> fits_int r \<and>
     (\<forall>(n, s) \<in> set ds. fits_int s \<and> fits_int (r + n) \<and> snd (last ds) dvd s) \<and> on_grid r ds"
  by (cases "ds = []") (auto simp: grid_view_def wf_view_def fits_view_def mk_view_def view_dims_def
      zip_map_fst_snd nth_append all_set_conv_all_nth last_conv_nth case_prod_beta)

text \<open>The even and the odd columns of a 4 by 6 array.\<close>

theorem bh_view_disjoint_sound_witness:
  "touches (mk_view 1 0 [(4, 6), (3, 2)]) \<inter> touches (mk_view 1 1 [(4, 6), (3, 2)]) = {}"
proof (rule bh_view_disjoint_sound)
  show "grid_view (mk_view 1 0 [(4, 6), (3, 2)])" "grid_view (mk_view 1 1 [(4, 6), (3, 2)])"
    by (simp_all add: grid_view_mk_view BH_MAXDIM_def fits_int_def)
  show "bh_view_disjoint (mk_view 1 0 [(4, 6), (3, 2)]) (mk_view 1 1 [(4, 6), (3, 2)])"
    by (simp add: disjoint_eval)
qed (simp add: mk_view_def)

subsection \<open>When it is wrong\<close>

text \<open>Every second column of rows 0-1 and of rows 1-2 of a 3 by 5 array.\<close>

lemma disjoint_bug_columns:
  "bh_view_disjoint (mk_view 1 0 [(2, 5), (2, 2)]) (mk_view 1 5 [(2, 5), (2, 2)])"
  by (simp add: disjoint_eval)

lemma disjoint_bug_rows:
  "bh_view_disjoint (mk_view 1 0 [(5, 10), (2, 1)]) (mk_view 1 9 [(5, 10), (2, 1)])"
  by (simp add: disjoint_eval)

lemma disjoint_bug_narrow:
  "bh_view_disjoint (mk_view 1 2147483646 [(4, 1)]) (mk_view 1 2147483646 [(4, 1)])"
  by (simp add: disjoint_eval)

lemma touches_mk_view: "p \<noteq> NULL \<Longrightarrow> touches (mk_view p r ds) = {p} \<times> (\<lambda>q. r + q) ` set (offsets ds)"
  by (simp add: touches_def mk_view_def bh_is_constant_def view_offsets_def view_dims_def zip_map_fst_snd)


subsection \<open>Instructions\<close>

record bh_instruction =
  opcode :: int
  operand :: "bh_view list"
  inst_constant :: bh_constant

fun dep_loop :: "nat \<Rightarrow> nat \<Rightarrow> bh_view \<Rightarrow> bh_view list \<Rightarrow> bool" where
  "dep_loop 0 i o0 ops = False"
| "dep_loop (Suc k) i o0 ops =
     (if \<not> bh_view_disjoint o0 (ops ! i) then True else dep_loop k (Suc i) o0 ops)"

definition bh_instr_dependency :: "(int \<Rightarrow> nat) \<Rightarrow> bh_instruction \<Rightarrow> bh_instruction \<Rightarrow> bool" where
  "bh_instr_dependency bh_operands a b =
     (let a_nop = bh_operands (opcode a); b_nop = bh_operands (opcode b) in
      if a_nop = 0 \<or> b_nop = 0 then False
      else if dep_loop a_nop 0 (operand b ! 0) (operand a) then True
      else if dep_loop b_nop 0 (operand a ! 0) (operand b) then True
      else False)"

lemma dep_loop_iff: "dep_loop k i o0 ops \<longleftrightarrow> (\<exists>j < k. \<not> bh_view_disjoint o0 (ops ! (i + j)))"
  by (induction k arbitrary: i) (auto simp: Ex_less_Suc2)

definition grid_compatible :: "bh_view \<Rightarrow> bh_view \<Rightarrow> bool" where
  "grid_compatible a b \<longleftrightarrow> grid_view a \<and> grid_view b \<and>
     (ndim a = ndim b \<longrightarrow> (\<forall>j < ndim a. stride a ! j = stride b ! j))"

definition bh_opcode_is_sweep :: "(int \<Rightarrow> bool) \<Rightarrow> (int \<Rightarrow> bool) \<Rightarrow> int \<Rightarrow> bool" where
  "bh_opcode_is_sweep bh_opcode_is_reduction bh_opcode_is_accumulate op =
     (bh_opcode_is_reduction op \<or> bh_opcode_is_accumulate op)"


text \<open>Two instructions on the even and on the odd columns.\<close>

definition even_cols :: bh_view where
  "even_cols = mk_view 1 0 [(4, 6), (3, 2)]"

definition odd_cols :: bh_view where
  "odd_cols = mk_view 1 1 [(4, 6), (3, 2)]"

definition two_op :: "bh_view \<Rightarrow> bh_instruction" where
  "two_op v = \<lparr>opcode = 1, operand = [v, v], inst_constant = \<lparr>cvalue = [], ctype = BH_UNKNOWN\<rparr>\<rparr>"

lemma cols_compatible: "grid_compatible even_cols odd_cols" "grid_compatible odd_cols even_cols"
  by (simp_all add: grid_compatible_def even_cols_def odd_cols_def grid_view_mk_view BH_MAXDIM_def
      fits_int_def) (simp_all add: mk_view_def)

lemma cols_disjoint: "bh_view_disjoint even_cols odd_cols" "bh_view_disjoint odd_cols even_cols"
  by (simp_all add: even_cols_def odd_cols_def disjoint_eval)


end
