(* ===== verification/Bh_Memory.thy ===== *)
theory Bh_Memory
  imports Bh_Disjoint
begin

text \<open>
  Data memory of base arrays: \<^verbatim>\<open>core/bh_memory.cpp\<close>, \<^verbatim>\<open>core/bh_array.cpp\<close>, the data functions
  of \<^verbatim>\<open>core/bh.cpp\<close> and the victim cache of \<^verbatim>\<open>core/bh_vcache.cpp\<close>.

  The kernel is a parameter (\<open>os_mem\<close>): \<^verbatim>\<open>mmap\<close> picks an address or fails, \<^verbatim>\<open>munmap\<close> takes the
  table of mapped regions to the next one. \<open>os_mem_ok\<close> names what the code relies on: a mapping is
  fresh and not NULL, and unmapping exactly a mapped region succeeds and removes it. The state
  \<open>mem_state\<close> has the mapped regions, the heap of \<^verbatim>\<open>bh_base\<close> structures by address, and the static
  variables of the victim cache. \<open>None\<close> is undefined behaviour: a dangling or NULL dereference or
  an access outside an array.
\<close>

subsection \<open>The kernel and the state\<close>

type_synonym regions = "(ptr \<times> bh_intp) list"

record os_mem =
  mmap :: "regions \<Rightarrow> bh_intp \<Rightarrow> ptr option"
  munmap :: "regions \<Rightarrow> ptr \<Rightarrow> bh_intp \<Rightarrow> int \<times> regions"

definition os_mem_ok :: "os_mem \<Rightarrow> bool" where
  "os_mem_ok os \<longleftrightarrow>
     (\<forall>live n p. mmap os live n = Some p \<longrightarrow> p \<noteq> NULL \<and> p \<notin> fst ` set live) \<and>
     (\<forall>live p n. distinct (map fst live) \<longrightarrow> (p, n) \<in> set live \<longrightarrow> 0 < n \<longrightarrow>
        munmap os live p n = (0, remove1 (p, n) live))"

record vcache =
  bh_vcache :: "ptr list"
  bh_vcache_bytes :: "bh_intp list"
  bh_vcache_bytes_total :: bh_intp
  bh_vcache_size :: int
  bh_vcache_cur :: nat
  bh_vcache_hits :: int
  bh_vcache_miss :: int
  bh_vcache_store :: int
  bh_vcache_flush :: int

record mem_state =
  live :: regions
  bases :: "ptr \<rightharpoonup> bh_base"
  vc :: vcache

abbreviation set_data :: "ptr \<Rightarrow> ptr \<Rightarrow> bh_base \<Rightarrow> mem_state \<Rightarrow> mem_state" where
  "set_data p d b s \<equiv> s\<lparr>bases := (bases s)(p \<mapsto> b\<lparr>base_data := d\<rparr>)\<rparr>"

subsection \<open>bh_memory.cpp\<close>

text \<open>NULL on \<^verbatim>\<open>MAP_FAILED\<close>.\<close>

definition bh_memory_malloc :: "os_mem \<Rightarrow> bh_intp \<Rightarrow> mem_state \<Rightarrow> ptr \<times> mem_state" where
  "bh_memory_malloc os sz s =
     (case mmap os (live s) sz of
        None \<Rightarrow> (NULL, s)
      | Some p \<Rightarrow> (p, s\<lparr>live := (p, sz) # live s\<rparr>))"

definition bh_memory_free :: "os_mem \<Rightarrow> ptr \<Rightarrow> bh_intp \<Rightarrow> mem_state \<Rightarrow> int \<times> mem_state" where
  "bh_memory_free os data sz s =
     (let (r, live') = munmap os (live s) data sz in (r, s\<lparr>live := live'\<rparr>))"

subsection \<open>bh_array.cpp\<close>

text \<open>
  \<open>malloc_res\<close> is what \<^verbatim>\<open>malloc\<close> returned for the structure. \<open>Inl\<close> is the error code,
  \<open>Inr\<close> the value stored through \<^verbatim>\<open>new_base\<close>.
\<close>

definition bh_create_base ::
  "ptr \<Rightarrow> bh_type \<Rightarrow> bh_index \<Rightarrow> mem_state \<Rightarrow> (bh_error + ptr) \<times> mem_state" where
  "bh_create_base malloc_res type nelements s =
     (if malloc_res = NULL then (Inl BH_OUT_OF_MEMORY, s)
      else (Inr malloc_res, s\<lparr>bases := (bases s)
              (malloc_res \<mapsto> \<lparr>base_data = NULL, base_type = type, base_nelem = nelements\<rparr>)\<rparr>))"

text \<open>
  The argument is the address in the caller's variable, which the function does not change: the
  assignment of NULL is to a local. \<^verbatim>\<open>free(NULL)\<close> does nothing.
\<close>

definition bh_destroy_base :: "ptr \<Rightarrow> mem_state \<Rightarrow> mem_state option" where
  "bh_destroy_base b s =
     (if b = NULL then Some s
      else if bases s b = None then None
      else Some (s\<lparr>bases := (bases s)(b := None)\<rparr>))"

subsection \<open>The data functions of bh.cpp\<close>

definition bh_data_set :: "bh_view option \<Rightarrow> ptr \<Rightarrow> mem_state \<Rightarrow> (bh_error \<times> mem_state) option" where
  "bh_data_set view data s =
     (case view of
        None \<Rightarrow> Some (BH_ERROR, s)
      | Some v \<Rightarrow>
          (case bases s (base v) of
             None \<Rightarrow> None
           | Some b \<Rightarrow>
               if base_data b \<noteq> NULL \<and> data \<noteq> NULL then Some (BH_ERROR, s)
               else Some (BH_SUCCESS, set_data (base v) data b s)))"

text \<open>\<open>Inr\<close> is success with the value stored through \<^verbatim>\<open>result\<close>.\<close>

definition bh_data_get :: "bh_view option \<Rightarrow> mem_state \<Rightarrow> (bh_error + ptr) option" where
  "bh_data_get view s =
     (case view of
        None \<Rightarrow> Some (Inl BH_ERROR)
      | Some v \<Rightarrow> map_option (\<lambda>b. Inr (base_data b)) (bases s (base v)))"

definition bh_data_malloc :: "os_mem \<Rightarrow> ptr \<Rightarrow> mem_state \<Rightarrow> (bh_error \<times> mem_state) option" where
  "bh_data_malloc os p s =
     (if p = NULL then Some (BH_SUCCESS, s)
      else case bases s p of
        None \<Rightarrow> None
      | Some b \<Rightarrow>
          if base_data b \<noteq> NULL then Some (BH_SUCCESS, s)
          else
            (let bytes = bh_base_size b in
             if bytes = 0 then Some (BH_SUCCESS, s)
             else if bytes < 0 then Some (BH_ERROR, s)
             else
               (let (d, s) = bh_memory_malloc os bytes s; s = set_data p d b s in
                if d = NULL then Some (BH_OUT_OF_MEMORY, s) else Some (BH_SUCCESS, s))))"

definition bh_data_free :: "os_mem \<Rightarrow> ptr \<Rightarrow> mem_state \<Rightarrow> (bh_error \<times> mem_state) option" where
  "bh_data_free os p s =
     (if p = NULL then Some (BH_SUCCESS, s)
      else case bases s p of
        None \<Rightarrow> None
      | Some b \<Rightarrow>
          if base_data b = NULL then Some (BH_SUCCESS, s)
          else
            (let bytes = bh_base_size b;
                 (r, s) = bh_memory_free os (base_data b) bytes s
             in if r \<noteq> 0 then Some (BH_ERROR, s)
                else Some (BH_SUCCESS, set_data p NULL b s)))"

definition bh_inst_operands :: "bh_instruction \<Rightarrow> bh_view list" where
  "bh_inst_operands instruction = operand instruction"

subsection \<open>The victim cache\<close>

definition bh_vcache_reset_counters :: "vcache \<Rightarrow> vcache" where
  "bh_vcache_reset_counters c =
     c\<lparr>bh_vcache_hits := 0, bh_vcache_miss := 0, bh_vcache_store := 0, bh_vcache_flush := 0\<rparr>"

text \<open>\<open>malloc_ok\<close>: both arrays could be allocated; otherwise \<^verbatim>\<open>memset\<close> writes through NULL.\<close>

definition bh_vcache_init :: "bool \<Rightarrow> int \<Rightarrow> mem_state \<Rightarrow> mem_state option" where
  "bh_vcache_init malloc_ok sz s =
     (let c = (vc s)\<lparr>bh_vcache_size := sz, bh_vcache_bytes_total := 0, bh_vcache_cur := 0\<rparr> in
      if 0 < sz then
        (if malloc_ok
         then Some (s\<lparr>vc := bh_vcache_reset_counters
                (c\<lparr>bh_vcache := replicate (nat sz) NULL,
                   bh_vcache_bytes := replicate (nat sz) 0\<rparr>)\<rparr>)
         else None)
      else Some (s\<lparr>vc := bh_vcache_reset_counters (c\<lparr>bh_vcache := [], bh_vcache_bytes := []\<rparr>)\<rparr>))"

text \<open>The freed arrays become empty lists: a later access is out of range, a second call a double free.\<close>

definition bh_vcache_delete :: "mem_state \<Rightarrow> mem_state option" where
  "bh_vcache_delete s =
     (if 0 < bh_vcache_size (vc s) then
        (if bh_vcache (vc s) = [] \<or> bh_vcache_bytes (vc s) = [] then None
         else Some (s\<lparr>vc := (vc s)\<lparr>bh_vcache := [], bh_vcache_bytes := []\<rparr>\<rparr>))
      else Some s)"

text \<open>\<open>clear_loop k i\<close> is the loop from \<open>i\<close> with \<open>k\<close> rounds left.\<close>

fun clear_loop :: "os_mem \<Rightarrow> nat \<Rightarrow> nat \<Rightarrow> mem_state \<Rightarrow> mem_state option" where
  "clear_loop os 0 i s = Some s"
| "clear_loop os (Suc k) i s =
     (if i < length (bh_vcache_bytes (vc s)) \<and> i < length (bh_vcache (vc s)) then
        (if bh_vcache_bytes (vc s) ! i > 0
         then clear_loop os k (Suc i)
                (snd (bh_memory_free os (bh_vcache (vc s) ! i) (bh_vcache_bytes (vc s) ! i) s))
         else clear_loop os k (Suc i) s)
      else None)"

definition bh_vcache_clear :: "os_mem \<Rightarrow> mem_state \<Rightarrow> mem_state option" where
  "bh_vcache_clear os s = clear_loop os (nat (bh_vcache_size (vc s))) 0 s"

fun find_loop :: "nat \<Rightarrow> nat \<Rightarrow> bh_intp \<Rightarrow> mem_state \<Rightarrow> (ptr \<times> mem_state) option" where
  "find_loop 0 i bytes s = Some (NULL, s\<lparr>vc := (vc s)\<lparr>bh_vcache_miss := bh_vcache_miss (vc s) + 1\<rparr>\<rparr>)"
| "find_loop (Suc k) i bytes s =
     (if i < length (bh_vcache_bytes (vc s)) \<and> i < length (bh_vcache (vc s)) then
        (if bh_vcache_bytes (vc s) ! i = bytes
         then Some (bh_vcache (vc s) ! i,
                s\<lparr>vc := (vc s)\<lparr>bh_vcache_hits := bh_vcache_hits (vc s) + 1,
                              bh_vcache_bytes := (bh_vcache_bytes (vc s))[i := 0],
                              bh_vcache_bytes_total := bh_vcache_bytes_total (vc s) - bytes\<rparr>\<rparr>)
         else find_loop k (Suc i) bytes s)
      else None)"

definition bh_vcache_find :: "bh_intp \<Rightarrow> mem_state \<Rightarrow> (ptr \<times> mem_state) option" where
  "bh_vcache_find bytes s = find_loop (nat (bh_vcache_size (vc s))) 0 bytes s"

definition bh_vcache_insert :: "os_mem \<Rightarrow> ptr \<Rightarrow> bh_intp \<Rightarrow> mem_state \<Rightarrow> mem_state option" where
  "bh_vcache_insert os data sz s =
     (let cur = bh_vcache_cur (vc s) in
      if cur < length (bh_vcache_bytes (vc s)) \<and> cur < length (bh_vcache (vc s)) \<and>
         bh_vcache_size (vc s) \<noteq> 0 then
        (let s = (if bh_vcache_bytes (vc s) ! cur > 0
                  then snd (bh_memory_free os (bh_vcache (vc s) ! cur) (bh_vcache_bytes (vc s) ! cur) s)
                  else s);
             c = vc s
         in Some (s\<lparr>vc := c\<lparr>bh_vcache := (bh_vcache c)[cur := data],
                           bh_vcache_bytes := (bh_vcache_bytes c)[cur := sz],
                           bh_vcache_cur := (cur + 1) mod nat (bh_vcache_size c),
                           bh_vcache_bytes_total := bh_vcache_bytes_total c + sz,
                           bh_vcache_store := bh_vcache_store c + 1\<rparr>\<rparr>))
      else None)"

definition bh_vcache_free_base :: "os_mem \<Rightarrow> ptr \<Rightarrow> mem_state \<Rightarrow> (bh_error \<times> mem_state) option" where
  "bh_vcache_free_base os p s =
     (case bases s p of
        None \<Rightarrow> None
      | Some b \<Rightarrow>
          if base_data b \<noteq> NULL then
            (let nelements = base_nelem b;
                 bytes = nelements * bh_type_size (base_type b)
             in map_option (\<lambda>s. (BH_SUCCESS, set_data p NULL b s))
                  (if bh_vcache_size (vc s) > 0 then
                     map_option (\<lambda>s. s\<lparr>vc := (vc s)\<lparr>bh_vcache_store := bh_vcache_store (vc s) + 1\<rparr>\<rparr>)
                       (bh_vcache_insert os (base_data b) bytes s)
                   else Some (snd (bh_memory_free os (base_data b) bytes s))))
          else Some (BH_SUCCESS, s))"

definition bh_vcache_free :: "os_mem \<Rightarrow> bh_instruction \<Rightarrow> mem_state \<Rightarrow> (bh_error \<times> mem_state) option" where
  "bh_vcache_free os inst s =
     map_option (\<lambda>(r, s). (BH_SUCCESS, s)) (bh_vcache_free_base os (base (operand inst ! 0)) s)"

text \<open>The part of the two allocation functions after the checks: a cached region, else a new one.\<close>

definition vcache_alloc :: "os_mem \<Rightarrow> ptr \<Rightarrow> bh_base \<Rightarrow> bh_intp \<Rightarrow> mem_state \<Rightarrow> (bh_error \<times> mem_state) option" where
  "vcache_alloc os p b bytes s =
     (case (if bh_vcache_size (vc s) > 0 then bh_vcache_find bytes s else Some (NULL, s)) of
        None \<Rightarrow> None
      | Some (d, s) \<Rightarrow>
          if d = NULL then
            (let (d, s) = bh_memory_malloc os bytes s; s = set_data p d b s in
             if d = NULL then Some (BH_OUT_OF_MEMORY, s) else Some (BH_SUCCESS, s))
          else Some (BH_SUCCESS, set_data p d b s))"

definition bh_vcache_malloc_base :: "os_mem \<Rightarrow> ptr \<Rightarrow> mem_state \<Rightarrow> (bh_error \<times> mem_state) option" where
  "bh_vcache_malloc_base os p s =
     (case bases s p of
        None \<Rightarrow> None
      | Some b \<Rightarrow>
          if base_data b \<noteq> NULL then Some (BH_SUCCESS, s)
          else
            (let bytes = bh_base_size b in
             if bytes \<le> 0 then Some (BH_ERROR, s) else vcache_alloc os p b bytes s))"

definition bh_vcache_malloc_op :: "os_mem \<Rightarrow> bh_view option \<Rightarrow> mem_state \<Rightarrow> (bh_error \<times> mem_state) option" where
  "bh_vcache_malloc_op os array s =
     (case array of
        None \<Rightarrow> Some (BH_SUCCESS, s)
      | Some v \<Rightarrow>
          (case bases s (base v) of
             None \<Rightarrow> None
           | Some b \<Rightarrow>
               if base_data b \<noteq> NULL then Some (BH_SUCCESS, s)
               else
                 (let bytes = bh_base_size b in
                  if bytes \<le> 0 then Some (BH_ERROR, s) else vcache_alloc os (base v) b bytes s)))"

text \<open>The numbers of the system opcodes, from the opcode table.\<close>

definition no_memory_opcodes :: "int list" where
  "no_memory_opcodes = [57, 54, 56, 55]"

definition bh_vcache_malloc :: "os_mem \<Rightarrow> bh_instruction \<Rightarrow> mem_state \<Rightarrow> (bh_error \<times> mem_state) option" where
  "bh_vcache_malloc os inst s =
     (if opcode inst \<in> set no_memory_opcodes then Some (BH_SUCCESS, s)
      else bh_vcache_malloc_op os (Some (operand inst ! 0)) s)"

subsection \<open>Ownership\<close>

text \<open>
  Who holds a mapped region: a slot of the cache whose byte count is positive, or a base array.
  The invariant \<open>mem_inv\<close> says that every mapped region has exactly one owner and every owner a
  mapped region of the size it believes in: no leak, no dangling pointer, no sharing.
\<close>

datatype owner = Slot nat | Base ptr

fun owns :: "mem_state \<Rightarrow> owner \<Rightarrow> (ptr \<times> bh_intp) option" where
  "owns s (Slot i) =
     (if i < length (bh_vcache_bytes (vc s)) \<and> 0 < bh_vcache_bytes (vc s) ! i
      then Some (bh_vcache (vc s) ! i, bh_vcache_bytes (vc s) ! i) else None)"
| "owns s (Base p) =
     (case bases s p of
        None \<Rightarrow> None
      | Some b \<Rightarrow> if base_data b = NULL then None else Some (base_data b, bh_base_size b))"

definition vc_wf :: "vcache \<Rightarrow> bool" where
  "vc_wf c \<longleftrightarrow>
     length (bh_vcache c) = nat (bh_vcache_size c) \<and> length (bh_vcache_bytes c) = nat (bh_vcache_size c) \<and>
     (0 < bh_vcache_size c \<longrightarrow> bh_vcache_cur c < nat (bh_vcache_size c)) \<and>
     (\<forall>n \<in> set (bh_vcache_bytes c). 0 \<le> n)"

definition own_ok :: "(owner \<rightharpoonup> ptr \<times> bh_intp) \<Rightarrow> regions \<Rightarrow> bool" where
  "own_ok own lv \<longleftrightarrow> distinct (map fst lv) \<and> (\<forall>r \<in> set lv. fst r \<noteq> NULL \<and> 0 < snd r) \<and>
     owned_once own (set lv)"

definition mem_inv :: "mem_state \<Rightarrow> bool" where
  "mem_inv s \<longleftrightarrow> vc_wf (vc s) \<and> own_ok (owns s) (live s) \<and> bases s NULL = None"

subsection \<open>The three ways ownership changes\<close>

lemma own_ok_gain:
  assumes "own_ok own lv" and "own w = None" and "p \<notin> fst ` set lv" and "p \<noteq> NULL" and "0 < n"
  shows "own_ok (own(w \<mapsto> (p, n))) ((p, n) # lv)"
proof -
  have "(p, n) \<notin> set lv" using assms(3) by force
  then show ?thesis using assms owned_once_gain [of own "set lv" w "(p, n)"] by (simp add: own_ok_def)
qed

lemma own_ok_lose:
  assumes "own_ok own lv" and "own w = Some r"
  shows "own_ok (own(w := None)) (remove1 r lv)"
proof -
  have d: "distinct lv" "inj_on fst (set lv)" using assms(1) by (simp_all add: own_ok_def distinct_map)
  then have "distinct (map fst (remove1 r lv))"
    by (auto simp: distinct_map intro: inj_on_subset)
  then show ?thesis
    using assms owned_once_lose [of own "set lv" w r] d by (auto simp: own_ok_def)
qed

lemma own_ok_transfer:
  "own_ok own lv \<Longrightarrow> own w = Some r \<Longrightarrow> own w' = None \<Longrightarrow> own_ok (own(w := None, w' \<mapsto> r)) lv"
  by (simp add: own_ok_def owned_once_transfer)

lemma own_ok_mem:
  assumes "own_ok own lv" and "own w = Some (p, n)"
  shows "(p, n) \<in> set lv \<and> p \<noteq> NULL \<and> 0 < n"
proof -
  have "(p, n) \<in> set lv" using assms owned_onceD(1) by (fastforce simp: own_ok_def)
  then show ?thesis using assms(1) by (fastforce simp: own_ok_def)
qed

lemma own_ok_exclusive:
  assumes "own_ok own lv" and "own w = Some (p, n)" and "own w' = Some (p, m)"
  shows "w = w'"
proof -
  have "(p, n) \<in> set lv" "(p, m) \<in> set lv" using assms own_ok_mem by blast+
  then have "n = m" using assms(1) by (metis own_ok_def eq_key_imp_eq_value)
  then show ?thesis using assms owned_onceD(2) by (fastforce simp: own_ok_def)
qed

lemma own_ok_munmap:
  assumes "os_mem_ok os" and "own_ok own lv" and "own w = Some (p, n)"
  shows "munmap os lv p n = (0, remove1 (p, n) lv)"
  using assms(1) own_ok_mem [OF assms(2,3)] assms(2) unfolding os_mem_ok_def own_ok_def by blast

subsection \<open>How the operations change ownership\<close>

lemma owns_set_data:
  "bases s p = Some b \<Longrightarrow>
   owns (set_data p d b s) = (owns s)(Base p := (if d = NULL then None else Some (d, bh_base_size b)))"
proof (rule ext)
  fix w
  assume "bases s p = Some b"
  then show "owns (set_data p d b s) w = ((owns s)(Base p := (if d = NULL then None else Some (d, bh_base_size b)))) w"
    by (cases w) (simp_all add: bh_base_size_def)
qed

lemma owns_cong: "bases s' = bases s \<Longrightarrow> bh_vcache (vc s') = bh_vcache (vc s) \<Longrightarrow>
    bh_vcache_bytes (vc s') = bh_vcache_bytes (vc s) \<Longrightarrow> owns s' = owns s"
proof (rule ext)
  fix w
  assume "bases s' = bases s" "bh_vcache (vc s') = bh_vcache (vc s)"
    "bh_vcache_bytes (vc s') = bh_vcache_bytes (vc s)"
  then show "owns s' w = owns s w" by (cases w) simp_all
qed

lemma owns_live [simp]: "owns (s\<lparr>live := lv\<rparr>) = owns s"
  by (rule owns_cong) simp_all

lemma owns_vc_empty_slot:
  assumes "bh_vcache c' = bh_vcache (vc s)" and "bh_vcache_bytes c' = (bh_vcache_bytes (vc s))[i := 0]"
  shows "owns (s\<lparr>vc := c'\<rparr>) = (owns s)(Slot i := None)"
proof (rule ext)
  fix w
  show "owns (s\<lparr>vc := c'\<rparr>) w = ((owns s)(Slot i := None)) w"
    using assms by (cases w) (auto simp: nth_list_update)
qed

lemma owns_vc_fill_slot:
  assumes "bh_vcache c' = (bh_vcache (vc s))[i := d]" and "bh_vcache_bytes c' = (bh_vcache_bytes (vc s))[i := n]"
    and "i < length (bh_vcache (vc s))" and "i < length (bh_vcache_bytes (vc s))" and "0 < n"
  shows "owns (s\<lparr>vc := c'\<rparr>) = (owns s)(Slot i \<mapsto> (d, n))"
proof (rule ext)
  fix w
  show "owns (s\<lparr>vc := c'\<rparr>) w = ((owns s)(Slot i \<mapsto> (d, n))) w"
    using assms by (cases w) (auto simp: nth_list_update)
qed

text \<open>The outcome of a search: the first slot with exactly that many bytes, or none.\<close>

lemma find_loop_cases:
  assumes "vc_wf (vc s)" and "i + k = nat (bh_vcache_size (vc s))"
  shows "(\<exists>j. i \<le> j \<and> j < i + k \<and> bh_vcache_bytes (vc s) ! j = bytes \<and>
            find_loop k i bytes s = Some (bh_vcache (vc s) ! j,
              s\<lparr>vc := (vc s)\<lparr>bh_vcache_hits := bh_vcache_hits (vc s) + 1,
                            bh_vcache_bytes := (bh_vcache_bytes (vc s))[j := 0],
                            bh_vcache_bytes_total := bh_vcache_bytes_total (vc s) - bytes\<rparr>\<rparr>)) \<or>
         ((\<forall>j. i \<le> j \<longrightarrow> j < i + k \<longrightarrow> bh_vcache_bytes (vc s) ! j \<noteq> bytes) \<and>
          find_loop k i bytes s = Some (NULL, s\<lparr>vc := (vc s)\<lparr>bh_vcache_miss := bh_vcache_miss (vc s) + 1\<rparr>\<rparr>))"
  using assms(2)
proof (induction k arbitrary: i)
  case 0
  then show ?case by simp
next
  case (Suc k)
  have i: "i < length (bh_vcache_bytes (vc s))" "i < length (bh_vcache (vc s))"
    using assms(1) Suc.prems by (simp_all add: vc_wf_def)
  show ?case
  proof (cases "bh_vcache_bytes (vc s) ! i = bytes")
    case True
    then show ?thesis using i by (intro disjI1 exI [of _ i]) simp
  next
    case False
    then have step: "find_loop (Suc k) i bytes s = find_loop k (Suc i) bytes s" using i by simp
    have range: "(\<forall>j. i \<le> j \<longrightarrow> j < i + Suc k \<longrightarrow> P j) \<longleftrightarrow>
        P i \<and> (\<forall>j. Suc i \<le> j \<longrightarrow> j < Suc i + k \<longrightarrow> P j)" for P
      by (auto simp: Suc_le_eq) (metis le_eq_less_or_eq)
    have "Suc i + k = nat (bh_vcache_size (vc s))" using Suc.prems by simp
    from Suc.IH [OF this] show ?thesis
      unfolding step range using False by (metis Suc_leD add_Suc_shift)
  qed
qed

lemma bh_vcache_find_cases:
  assumes "mem_inv s" and "0 < bytes"
  shows "(\<exists>j d s'. bh_vcache_find bytes s = Some (d, s') \<and> owns s (Slot j) = Some (d, bytes) \<and>
            owns s' = (owns s)(Slot j := None) \<and> live s' = live s \<and> bases s' = bases s \<and> vc_wf (vc s')) \<or>
         (\<exists>s'. bh_vcache_find bytes s = Some (NULL, s') \<and> (\<forall>j d. owns s (Slot j) \<noteq> Some (d, bytes)) \<and>
            owns s' = owns s \<and> live s' = live s \<and> bases s' = bases s \<and> vc_wf (vc s'))"
proof -
  let ?c = "vc s"
  have wf: "vc_wf ?c" using assms(1) by (simp add: mem_inv_def)
  have set: "set ((bh_vcache_bytes ?c)[j := 0]) \<subseteq> insert 0 (set (bh_vcache_bytes ?c))" for j
    by (rule set_update_subset_insert)
  consider (hit) j s' where "j < nat (bh_vcache_size ?c)" "bh_vcache_bytes ?c ! j = bytes"
      "bh_vcache_find bytes s = Some (bh_vcache ?c ! j, s')"
      "s' = s\<lparr>vc := ?c\<lparr>bh_vcache_hits := bh_vcache_hits ?c + 1, bh_vcache_bytes := (bh_vcache_bytes ?c)[j := 0],
                   bh_vcache_bytes_total := bh_vcache_bytes_total ?c - bytes\<rparr>\<rparr>"
    | (miss) s' where "\<forall>j. j < nat (bh_vcache_size ?c) \<longrightarrow> bh_vcache_bytes ?c ! j \<noteq> bytes"
      "bh_vcache_find bytes s = Some (NULL, s')"
      "s' = s\<lparr>vc := ?c\<lparr>bh_vcache_miss := bh_vcache_miss ?c + 1\<rparr>\<rparr>"
    using find_loop_cases [OF wf, of 0 "nat (bh_vcache_size ?c)" bytes]
    by (auto simp: bh_vcache_find_def)
  then show ?thesis
  proof cases
    case hit
    have "owns s (Slot j) = Some (bh_vcache ?c ! j, bytes)"
      using hit(1,2) wf assms(2) by (simp add: vc_wf_def)
    moreover have "vc_wf (vc s')" using wf set [of j] by (auto simp: vc_wf_def hit(4))
    moreover have "owns s' = (owns s)(Slot j := None)"
      unfolding hit(4) by (rule owns_vc_empty_slot) simp_all
    moreover have "live s' = live s" "bases s' = bases s" using hit(4) by simp_all
    ultimately show ?thesis using hit(3) by blast
  next
    case miss
    have "\<forall>j d. owns s (Slot j) \<noteq> Some (d, bytes)" using miss(1) wf by (simp add: vc_wf_def)
    moreover have "vc_wf (vc s')" using wf by (simp add: vc_wf_def miss(3))
    moreover have "owns s' = owns s" unfolding miss(3) by (rule owns_cong) simp_all
    moreover have "live s' = live s" "bases s' = bases s" using miss(3) by simp_all
    ultimately show ?thesis using miss(2) by blast
  qed
qed

lemma fresh_into_base:
  assumes "os_mem_ok os" and "own_ok (owns s) (live s)" and "bases s p = Some b" and "base_data b = NULL"
    and "0 < bh_base_size b" and "bh_memory_malloc os (bh_base_size b) s = (d, s1)"
  shows "own_ok (owns (set_data p d b s1)) (live s1) \<and> bases s1 = bases s \<and> vc s1 = vc s \<and>
         (d = NULL \<longrightarrow> s1 = s)"
proof (cases "mmap os (live s) (bh_base_size b)")
  case None
  then have "d = NULL" "s1 = s" using assms(6) by (auto simp: bh_memory_malloc_def)
  moreover have "b\<lparr>base_data := NULL\<rparr> = b" using assms(4) by simp
  ultimately show ?thesis using assms(2,3) by (simp add: fun_upd_idem)
next
  case (Some q)
  have q: "q \<noteq> NULL" "q \<notin> fst ` set (live s)" using assms(1) Some unfolding os_mem_ok_def by blast+
  have s1: "d = q" "s1 = s\<lparr>live := (q, bh_base_size b) # live s\<rparr>"
    using assms(6) Some by (auto simp: bh_memory_malloc_def)
  have "owns (set_data p d b s1) = (owns s)(Base p \<mapsto> (q, bh_base_size b))"
    using owns_set_data [of s1 p b d] assms(3) q(1) s1 by simp
  moreover have "owns s (Base p) = None" using assms(3,4) by simp
  ultimately show ?thesis using own_ok_gain [OF assms(2) _ q(2,1) assms(5)] s1 q(1) by simp
qed

lemma release_base:
  assumes "os_mem_ok os" and "own_ok (owns s) (live s)" and "bases s p = Some b" and "base_data b \<noteq> NULL"
  shows "\<exists>s1. bh_memory_free os (base_data b) (bh_base_size b) s = (0, s1) \<and>
           own_ok (owns (set_data p NULL b s1)) (live s1) \<and> bases s1 = bases s \<and> vc s1 = vc s"
proof -
  have w: "owns s (Base p) = Some (base_data b, bh_base_size b)" using assms(3,4) by simp
  let ?s1 = "s\<lparr>live := remove1 (base_data b, bh_base_size b) (live s)\<rparr>"
  have "owns (set_data p NULL b ?s1) = (owns s)(Base p := None)"
    using owns_set_data [of ?s1 p b NULL] assms(3) by simp
  then show ?thesis
    using own_ok_munmap [OF assms(1,2) w] own_ok_lose [OF assms(2) w] by (simp add: bh_memory_free_def)
qed

lemma bh_vcache_insert_correct:
  assumes "os_mem_ok os" and "mem_inv s" and "0 < bh_vcache_size (vc s)" and "0 < n"
  defines "w \<equiv> Slot (bh_vcache_cur (vc s))"
  shows "\<exists>s1. bh_vcache_insert os d n s = Some s1 \<and> bases s1 = bases s \<and> vc_wf (vc s1) \<and>
           owns s1 = (owns s)(w \<mapsto> (d, n)) \<and> own_ok ((owns s)(w := None)) (live s1) \<and>
           bh_vcache_size (vc s1) = bh_vcache_size (vc s)"
proof -
  let ?c = "vc s" and ?cur = "bh_vcache_cur (vc s)"
  have wf: "vc_wf ?c" and own: "own_ok (owns s) (live s)" using assms(2) by (simp_all add: mem_inv_def)
  have cur: "?cur < length (bh_vcache_bytes ?c)" "?cur < length (bh_vcache ?c)"
    using wf assms(3) by (simp_all add: vc_wf_def)
  define s0 where "s0 = (if bh_vcache_bytes ?c ! ?cur > 0
      then snd (bh_memory_free os (bh_vcache ?c ! ?cur) (bh_vcache_bytes ?c ! ?cur) s) else s)"
  have s0: "vc s0 = ?c" "bases s0 = bases s" "owns s0 = owns s" "own_ok ((owns s)(w := None)) (live s0)"
  proof -
    have "owns s w = None" if "\<not> bh_vcache_bytes ?c ! ?cur > 0" using that by (simp add: w_def)
    moreover have "owns s w = Some (bh_vcache ?c ! ?cur, bh_vcache_bytes ?c ! ?cur)"
      if "bh_vcache_bytes ?c ! ?cur > 0" using that cur by (simp add: w_def)
    ultimately show "vc s0 = ?c" "bases s0 = bases s" "owns s0 = owns s" "own_ok ((owns s)(w := None)) (live s0)"
      using own own_ok_munmap [OF assms(1) own, of w] own_ok_lose [OF own, of w]
      by (auto simp: s0_def bh_memory_free_def fun_upd_idem simp del: owns.simps)
  qed
  let ?c' = "?c\<lparr>bh_vcache := (bh_vcache ?c)[?cur := d], bh_vcache_bytes := (bh_vcache_bytes ?c)[?cur := n],
      bh_vcache_cur := (?cur + 1) mod nat (bh_vcache_size ?c),
      bh_vcache_bytes_total := bh_vcache_bytes_total ?c + n, bh_vcache_store := bh_vcache_store ?c + 1\<rparr>"
  have "bh_vcache_insert os d n s = Some (s0\<lparr>vc := ?c'\<rparr>)"
    using cur assms(3) s0(1) by (simp add: bh_vcache_insert_def s0_def Let_def)
  moreover have "owns (s0\<lparr>vc := ?c'\<rparr>) = (owns s)(w \<mapsto> (d, n))"
    unfolding w_def s0(3) [symmetric] by (rule owns_vc_fill_slot) (use cur s0(1) assms(4) in simp_all)
  moreover have "vc_wf ?c'"
    using wf assms(3,4) set_update_subset_insert [of "bh_vcache_bytes ?c" ?cur n] by (auto simp: vc_wf_def)
  ultimately show ?thesis using s0 by simp
qed

subsection \<open>The allocator interface\<close>

text \<open>
  What an engine relies on when it allocates and releases the data of a base array. Both pairs of
  functions in the core, \<^verbatim>\<open>bh_data_malloc\<close>/\<^verbatim>\<open>bh_data_free\<close> and
  \<^verbatim>\<open>bh_vcache_malloc_base\<close>/\<^verbatim>\<open>bh_vcache_free_base\<close>, provide it.
\<close>

datatype request = Alloc ptr | Free ptr

primrec target :: "request \<Rightarrow> ptr" where
  "target (Alloc p) = p"
| "target (Free p) = p"

type_synonym mem_op = "os_mem \<Rightarrow> ptr \<Rightarrow> mem_state \<Rightarrow> (bh_error \<times> mem_state) option"

text \<open>A sequence of requests, error codes ignored, as an engine issues them.\<close>

fun run_requests :: "mem_op \<Rightarrow> mem_op \<Rightarrow> os_mem \<Rightarrow> request list \<Rightarrow> mem_state \<Rightarrow> mem_state option" where
  "run_requests alloc dealloc os [] s = Some s"
| "run_requests alloc dealloc os (r # rs) s =
     (case (case r of Alloc p \<Rightarrow> alloc os p s | Free p \<Rightarrow> dealloc os p s) of
        None \<Rightarrow> None
      | Some (e, s') \<Rightarrow> run_requests alloc dealloc os rs s')"

locale base_allocator =
  fixes alloc :: mem_op and dealloc :: mem_op
  assumes alloc_correct: "os_mem_ok os \<Longrightarrow> mem_inv s \<Longrightarrow> bases s p = Some b \<Longrightarrow>
      \<exists>e s' d. alloc os p s = Some (e, s') \<and> mem_inv s' \<and>
        bases s' = (bases s)(p \<mapsto> b\<lparr>base_data := d\<rparr>) \<and>
        (base_data b \<noteq> NULL \<longrightarrow> d = base_data b) \<and> (e = BH_SUCCESS \<and> 0 < bh_base_size b \<longrightarrow> d \<noteq> NULL)"
    and dealloc_correct: "os_mem_ok os \<Longrightarrow> mem_inv s \<Longrightarrow> bases s p = Some b \<Longrightarrow>
      \<exists>s'. dealloc os p s = Some (BH_SUCCESS, s') \<and> mem_inv s' \<and>
        bases s' = (bases s)(p \<mapsto> b\<lparr>base_data := NULL\<rparr>)"
begin

lemma alloc_region:
  assumes "os_mem_ok os" and "mem_inv s" and "bases s p = Some b" and "0 < bh_base_size b"
    and "alloc os p s = Some (BH_SUCCESS, s')"
  shows "\<exists>d. bases s' = (bases s)(p \<mapsto> b\<lparr>base_data := d\<rparr>) \<and> (d, bh_base_size b) \<in> set (live s') \<and>
    (\<forall>w n. owns s' w = Some (d, n) \<longrightarrow> w = Base p) \<and> mem_inv s'"
proof -
  obtain d where d: "mem_inv s'" "bases s' = (bases s)(p \<mapsto> b\<lparr>base_data := d\<rparr>)" "d \<noteq> NULL"
    using alloc_correct [OF assms(1-3)] assms(4,5) by auto
  then have "own_ok (owns s') (live s')" "owns s' (Base p) = Some (d, bh_base_size b)"
    by (simp_all add: mem_inv_def bh_base_size_def)
  then show ?thesis using d(1,2) own_ok_mem own_ok_exclusive by metis
qed

lemma step_inv:
  assumes "os_mem_ok os" and "mem_inv s" and "target r \<in> dom (bases s)"
  shows "\<exists>e s'. (case r of Alloc p \<Rightarrow> alloc os p s | Free p \<Rightarrow> dealloc os p s) = Some (e, s') \<and>
    mem_inv s' \<and> dom (bases s') = dom (bases s)"
proof -
  obtain b where b: "bases s (target r) = Some b" using assms(3) by auto
  then show ?thesis
    using alloc_correct [OF assms(1,2), of "target r" b] dealloc_correct [OF assms(1,2), of "target r" b]
    by (cases r) (auto simp: insert_absorb)
qed

lemma run_requests_inv:
  assumes "os_mem_ok os" and "mem_inv s" and "target ` set rs \<subseteq> dom (bases s)"
  shows "\<exists>s'. run_requests alloc dealloc os rs s = Some s' \<and> mem_inv s' \<and> dom (bases s') = dom (bases s)"
  using assms(2,3)
proof (induction rs arbitrary: s)
  case Nil
  then show ?case by simp
next
  case (Cons r rs)
  obtain e s' where "(case r of Alloc p \<Rightarrow> alloc os p s | Free p \<Rightarrow> dealloc os p s) = Some (e, s')"
      "mem_inv s'" "dom (bases s') = dom (bases s)"
    using step_inv [OF assms(1) Cons.prems(1), of r] Cons.prems(2) by auto
  then show ?case using Cons.IH [of s'] Cons.prems(2) by simp
qed

end

lemma set_data_mem_inv:
  assumes "own_ok (owns (set_data p d b s1)) (live s1)" and "vc_wf (vc s1)" and "bases s1 NULL = None" and "p \<noteq> NULL"
  shows "mem_inv (set_data p d b s1)"
  using assms by (simp add: mem_inv_def)

lemma base_upd_same: "base_data b = d \<Longrightarrow> bases s p = Some b \<Longrightarrow> bases s = (bases s)(p \<mapsto> b\<lparr>base_data := d\<rparr>)"
  by (simp add: fun_upd_idem)

lemma alloc_postI:
  assumes "R = Some (e, s')" and "mem_inv s'" and "bases s' = f d"
    and "e = BH_SUCCESS \<and> d \<noteq> NULL \<or> e = BH_OUT_OF_MEMORY \<and> d = NULL" and "Q \<Longrightarrow> e = BH_SUCCESS \<and> live s' = lv"
  shows "\<exists>e s' d. R = Some (e, s') \<and> mem_inv s' \<and> bases s' = f d \<and>
     (e = BH_SUCCESS \<and> d \<noteq> NULL \<or> e = BH_OUT_OF_MEMORY \<and> d = NULL) \<and> (Q \<longrightarrow> e = BH_SUCCESS \<and> live s' = lv)"
  using assms by blast

lemma vcache_alloc_correct:
  assumes "os_mem_ok os" and "mem_inv s" and "bases s p = Some b" and "base_data b = NULL" and "0 < bh_base_size b"
  shows "\<exists>e s' d. vcache_alloc os p b (bh_base_size b) s = Some (e, s') \<and> mem_inv s' \<and>
     bases s' = (bases s)(p \<mapsto> b\<lparr>base_data := d\<rparr>) \<and> 
     (e = BH_SUCCESS \<and> d \<noteq> NULL \<or> e = BH_OUT_OF_MEMORY \<and> d = NULL) \<and>
     (0 < bh_vcache_size (vc s) \<and> (\<exists>j q. owns s (Slot j) = Some (q, bh_base_size b)) \<longrightarrow>
        e = BH_SUCCESS \<and> live s' = live s)"
proof -
  let ?n = "bh_base_size b"
  let ?look = "if bh_vcache_size (vc s) > 0 then bh_vcache_find ?n s else Some (NULL, s)"
  have inv: "vc_wf (vc s)" "own_ok (owns s) (live s)" "bases s NULL = None"
    using assms(2) by (simp_all add: mem_inv_def)
  have p: "p \<noteq> NULL" using inv(3) assms(3) by (metis option.distinct(1))
  have none: "owns s (Base p) = None" using assms(3,4) by simp
  consider (hit) j d s1 where "?look = Some (d, s1)" "owns s (Slot j) = Some (d, ?n)"
      "owns s1 = (owns s)(Slot j := None)" "live s1 = live s" "bases s1 = bases s" "vc_wf (vc s1)"
    | (miss) s1 where "?look = Some (NULL, s1)" "owns s1 = owns s" "live s1 = live s" "bases s1 = bases s" "vc_wf (vc s1)"
      "0 < bh_vcache_size (vc s) \<longrightarrow> (\<forall>j q. owns s (Slot j) \<noteq> Some (q, ?n))"
  proof (cases "0 < bh_vcache_size (vc s)")
    case True
    then show ?thesis using bh_vcache_find_cases [OF assms(2,5)] that by auto
  next
    case False
    then show ?thesis using inv(1) that(2) [of s] by simp
  qed
  then show ?thesis
  proof cases
    case hit
    have d: "d \<noteq> NULL" using own_ok_mem [OF inv(2) hit(2)] by simp
    have "owns (set_data p d b s1) = (owns s)(Slot j := None, Base p \<mapsto> (d, ?n))"
      using owns_set_data [of s1 p b d] hit assms(3) d by simp
    then have "mem_inv (set_data p d b s1)"
      using own_ok_transfer [OF inv(2) hit(2) none] hit inv(3) p by (intro set_data_mem_inv) simp_all
    moreover have "vcache_alloc os p b ?n s = Some (BH_SUCCESS, set_data p d b s1)"
      using hit(1) d by (simp add: vcache_alloc_def)
    moreover have "bases (set_data p d b s1) = (bases s)(p \<mapsto> b\<lparr>base_data := d\<rparr>)"
      "live (set_data p d b s1) = live s" using hit(4,5) by simp_all
    ultimately show ?thesis
      using d by (intro alloc_postI [where s' = "set_data p d b s1" and d = d and e = BH_SUCCESS]) simp_all
  next
    case miss
    obtain d s2 where m: "bh_memory_malloc os ?n s1 = (d, s2)" by fastforce
    have f: "own_ok (owns (set_data p d b s2)) (live s2)" "bases s2 = bases s1" "vc s2 = vc s1"
      using fresh_into_base [OF assms(1) inv(2) [folded miss(2,3)] assms(3) [folded miss(4)] assms(4,5) m]
      by blast+
    then have "mem_inv (set_data p d b s2)"
      using miss inv(3) p by (intro set_data_mem_inv) simp_all
    moreover have "vcache_alloc os p b ?n s =
        Some (if d = NULL then BH_OUT_OF_MEMORY else BH_SUCCESS, set_data p d b s2)"
      using miss(1) m by (simp add: vcache_alloc_def)
    moreover have "bases (set_data p d b s2) = (bases s)(p \<mapsto> b\<lparr>base_data := d\<rparr>)" using f(2) miss(4) by simp
    moreover have "\<not> (0 < bh_vcache_size (vc s) \<and> (\<exists>j q. owns s (Slot j) = Some (q, ?n)))" using miss(6) by blast
    ultimately show ?thesis
      by (intro alloc_postI [where s' = "set_data p d b s2" and d = d and
          e = "if d = NULL then BH_OUT_OF_MEMORY else BH_SUCCESS"]) (simp_all del: owns.simps)
  qed
qed

lemma base_ne_NULL: "mem_inv s \<Longrightarrow> bases s p = Some b \<Longrightarrow> p \<noteq> NULL"
  by (auto simp: mem_inv_def intro!: gr0I)

lemma bh_vcache_malloc_base_correct:
  assumes "os_mem_ok os" and "mem_inv s" and "bases s p = Some b"
  shows "\<exists>e s' d. bh_vcache_malloc_base os p s = Some (e, s') \<and> mem_inv s' \<and>
     bases s' = (bases s)(p \<mapsto> b\<lparr>base_data := d\<rparr>) \<and>
     (base_data b \<noteq> NULL \<longrightarrow> d = base_data b) \<and> (e = BH_SUCCESS \<and> 0 < bh_base_size b \<longrightarrow> d \<noteq> NULL)"
proof (cases "base_data b \<noteq> NULL \<or> bh_base_size b \<le> 0")
  case True
  then have "\<exists>e. bh_vcache_malloc_base os p s = Some (e, s) \<and> (e = BH_SUCCESS \<and> 0 < bh_base_size b \<longrightarrow> base_data b \<noteq> NULL)"
    using assms(3) by (auto simp: bh_vcache_malloc_base_def)
  then show ?thesis using assms(2) base_upd_same [OF refl assms(3)] by blast
next
  case False
  then show ?thesis
    using vcache_alloc_correct [OF assms] assms(3) by (fastforce simp: bh_vcache_malloc_base_def split: if_splits)
qed

lemma bh_vcache_free_base_correct:
  assumes "os_mem_ok os" and "mem_inv s" and "bases s p = Some b"
  shows "\<exists>s'. bh_vcache_free_base os p s = Some (BH_SUCCESS, s') \<and> mem_inv s' \<and>
     bases s' = (bases s)(p \<mapsto> b\<lparr>base_data := NULL\<rparr>) \<and>
     (base_data b \<noteq> NULL \<and> 0 < bh_vcache_size (vc s) \<longrightarrow> 0 < bh_vcache_size (vc s') \<and>
        owns s' (Slot (bh_vcache_cur (vc s))) = Some (base_data b, bh_base_size b))"
proof -
  have inv: "vc_wf (vc s)" "own_ok (owns s) (live s)" "bases s NULL = None"
    using assms(2) by (simp_all add: mem_inv_def)
  have p: "p \<noteq> NULL" using base_ne_NULL [OF assms(2,3)] .
  consider "base_data b = NULL" | (cached) "base_data b \<noteq> NULL" "0 < bh_vcache_size (vc s)"
    | (direct) "base_data b \<noteq> NULL" "\<not> 0 < bh_vcache_size (vc s)" by blast
  then show ?thesis
  proof cases
    case 1
    then show ?thesis using assms base_upd_same [OF 1 assms(3)] by (simp add: bh_vcache_free_base_def)
  next
    case cached
    let ?w = "Slot (bh_vcache_cur (vc s))"
    have w: "owns s (Base p) = Some (base_data b, bh_base_size b)" using assms(3) cached(1) by simp
    obtain s1 where s1: "bh_vcache_insert os (base_data b) (bh_base_size b) s = Some s1" "bases s1 = bases s"
        "vc_wf (vc s1)" "owns s1 = (owns s)(?w \<mapsto> (base_data b, bh_base_size b))"
        "own_ok ((owns s)(?w := None)) (live s1)" "bh_vcache_size (vc s1) = bh_vcache_size (vc s)"
      using bh_vcache_insert_correct [OF assms(1,2) cached(2)] own_ok_mem [OF inv(2) w] by blast
    let ?s1 = "s1\<lparr>vc := (vc s1)\<lparr>bh_vcache_store := bh_vcache_store (vc s1) + 1\<rparr>\<rparr>"
    have o1: "owns ?s1 = owns s1" by (rule owns_cong) simp_all
    have ow: "owns (set_data p NULL b ?s1) =
        (owns s)(?w := None, Base p := None, ?w \<mapsto> (base_data b, bh_base_size b))"
      using owns_set_data [of ?s1 p b NULL] s1(2,4) assms(3) o1 by (simp add: fun_upd_twist)
    then have "mem_inv (set_data p NULL b ?s1)"
      using own_ok_transfer [OF s1(5), of "Base p" _ ?w] w s1(2,3) inv(3) p
      by (intro set_data_mem_inv) (simp_all add: vc_wf_def)
    moreover have "owns (set_data p NULL b ?s1) ?w = Some (base_data b, bh_base_size b)" unfolding ow by simp
    ultimately show ?thesis
      using s1(1,2,6) cached assms(3)
      by (simp add: bh_vcache_free_base_def bh_base_size_def Let_def del: owns.simps)
  next
    case direct
    obtain s1 where s1: "bh_memory_free os (base_data b) (bh_base_size b) s = (0, s1)"
        "own_ok (owns (set_data p NULL b s1)) (live s1)" "bases s1 = bases s" "vc s1 = vc s"
      using release_base [OF assms(1) inv(2) assms(3) direct(1)] by blast
    then have "mem_inv (set_data p NULL b s1)" using inv(1,3) p by (intro set_data_mem_inv) simp_all
    then show ?thesis
      using s1 direct assms(3) by (simp add: bh_vcache_free_base_def bh_base_size_def Let_def)
  qed
qed

lemma bh_data_malloc_correct:
  assumes "os_mem_ok os" and "mem_inv s" and "bases s p = Some b"
  shows "\<exists>e s' d. bh_data_malloc os p s = Some (e, s') \<and> mem_inv s' \<and>
     bases s' = (bases s)(p \<mapsto> b\<lparr>base_data := d\<rparr>) \<and>
     (base_data b \<noteq> NULL \<longrightarrow> d = base_data b) \<and> (e = BH_SUCCESS \<and> 0 < bh_base_size b \<longrightarrow> d \<noteq> NULL)"
proof (cases "base_data b \<noteq> NULL \<or> bh_base_size b \<le> 0")
  case True
  then have "\<exists>e. bh_data_malloc os p s = Some (e, s) \<and> (e = BH_SUCCESS \<and> 0 < bh_base_size b \<longrightarrow> base_data b \<noteq> NULL)"
    using assms(3) base_ne_NULL [OF assms(2,3)] by (auto simp: bh_data_malloc_def Let_def)
  then show ?thesis using assms(2) base_upd_same [OF refl assms(3)] by blast
next
  case False
  have inv: "vc_wf (vc s)" "own_ok (owns s) (live s)" "bases s NULL = None"
    using assms(2) by (simp_all add: mem_inv_def)
  obtain d s1 where m: "bh_memory_malloc os (bh_base_size b) s = (d, s1)" by fastforce
  have f: "own_ok (owns (set_data p d b s1)) (live s1)" "bases s1 = bases s" "vc s1 = vc s"
    using fresh_into_base [OF assms(1) inv(2) assms(3) _ _ m] False by auto
  then have "mem_inv (set_data p d b s1)"
    using inv base_ne_NULL [OF assms(2,3)] by (intro set_data_mem_inv) simp_all
  then show ?thesis
    using False m f base_ne_NULL [OF assms(2,3)] assms(3) by (auto simp: bh_data_malloc_def Let_def)
qed

lemma bh_data_free_correct:
  assumes "os_mem_ok os" and "mem_inv s" and "bases s p = Some b"
  shows "\<exists>s'. bh_data_free os p s = Some (BH_SUCCESS, s') \<and> mem_inv s' \<and>
     bases s' = (bases s)(p \<mapsto> b\<lparr>base_data := NULL\<rparr>)"
proof (cases "base_data b = NULL")
  case True
  then show ?thesis using assms base_upd_same [OF True assms(3)] by (simp add: bh_data_free_def)
next
  case False
  have inv: "vc_wf (vc s)" "own_ok (owns s) (live s)" "bases s NULL = None"
    using assms(2) by (simp_all add: mem_inv_def)
  obtain s1 where s1: "bh_memory_free os (base_data b) (bh_base_size b) s = (0, s1)"
      "own_ok (owns (set_data p NULL b s1)) (live s1)" "bases s1 = bases s" "vc s1 = vc s"
    using release_base [OF assms(1) inv(2) assms(3) False] by blast
  then have "mem_inv (set_data p NULL b s1)"
    using inv base_ne_NULL [OF assms(2,3)] by (intro set_data_mem_inv) simp_all
  then show ?thesis
    using s1 False base_ne_NULL [OF assms(2,3)] assms(3) by (simp add: bh_data_free_def Let_def)
qed

interpretation vcache_allocator: base_allocator bh_vcache_malloc_base bh_vcache_free_base
  using bh_vcache_malloc_base_correct bh_vcache_free_base_correct by unfold_locales blast+

interpretation data_allocator: base_allocator bh_data_malloc bh_data_free
  using bh_data_malloc_correct bh_data_free_correct by unfold_locales blast+

subsection \<open>Clearing the cache\<close>

text \<open>The slots the loop of \<^verbatim>\<open>bh_vcache_clear\<close> has still to visit.\<close>

definition slots_from :: "nat \<Rightarrow> mem_state \<Rightarrow> owner \<Rightarrow> (ptr \<times> bh_intp) option" where
  "slots_from i s w = (case w of Slot j \<Rightarrow> if i \<le> j then owns s w else None | Base p \<Rightarrow> None)"

lemma slots_from_Suc: "slots_from (Suc i) s = (slots_from i s)(Slot i := None)"
  by (rule ext) (auto simp: slots_from_def split: owner.splits)

lemma slots_from_cong: "vc s' = vc s \<Longrightarrow> slots_from i s' = slots_from i s"
  by (rule ext) (auto simp: slots_from_def split: owner.splits)

lemma clear_loop_correct:
  assumes "os_mem_ok os"
  shows "vc_wf (vc s) \<Longrightarrow> own_ok (slots_from i s) (live s) \<Longrightarrow> i + k = nat (bh_vcache_size (vc s)) \<Longrightarrow>
    \<exists>s'. clear_loop os k i s = Some s' \<and> own_ok (slots_from (i + k) s') (live s') \<and> vc s' = vc s \<and> bases s' = bases s"
proof (induction k arbitrary: i s)
  case 0
  then show ?case by simp
next
  case (Suc k)
  let ?c = "vc s"
  have i: "i < length (bh_vcache_bytes ?c)" "i < length (bh_vcache ?c)"
    using Suc.prems(1,3) by (simp_all add: vc_wf_def)
  let ?s1 = "if bh_vcache_bytes ?c ! i > 0
      then snd (bh_memory_free os (bh_vcache ?c ! i) (bh_vcache_bytes ?c ! i) s) else s"
  have "slots_from i s (Slot i) = (if bh_vcache_bytes ?c ! i > 0
      then Some (bh_vcache ?c ! i, bh_vcache_bytes ?c ! i) else None)"
    using i by (simp add: slots_from_def)
  then have "own_ok (slots_from (Suc i) s) (live ?s1) \<and> vc ?s1 = vc s \<and> bases ?s1 = bases s"
    using own_ok_munmap [OF assms Suc.prems(2), of "Slot i"] own_ok_lose [OF Suc.prems(2), of "Slot i"] Suc.prems(2)
    by (auto simp: slots_from_Suc bh_memory_free_def fun_upd_idem)
  moreover have "clear_loop os (Suc k) i s = clear_loop os k (Suc i) ?s1" using i by simp
  ultimately show ?case
    using Suc.IH [of ?s1 "Suc i"] Suc.prems(1,3) slots_from_cong [of ?s1 s] by auto
qed

lemma owned_once_empty: "owned_once own R \<Longrightarrow> (\<And>w. own w = None) \<Longrightarrow> R = {}"
  by (auto simp: owned_once_def)

subsection \<open>Properties\<close>

text \<open>A kernel that satisfies the hypotheses: the next address after all mapped ones, no failures.\<close>

definition simple_os :: os_mem where
  "simple_os = \<lparr>mmap = (\<lambda>live n. Some (Suc (sum_list (map fst live)))),
     munmap = (\<lambda>live p n. (0, remove1 (p, n) live))\<rparr>"

lemma simple_os_ok: "os_mem_ok simple_os"
proof -
  have "p \<le> sum_list (map fst lv)" if "p \<in> fst ` set lv" for p and lv :: regions
    using member_le_sum_list [of p "map fst lv"] that by simp
  then show ?thesis by (auto simp: os_mem_ok_def simple_os_def) (metis Suc_n_not_le_n fst_conv image_eqI)
qed

text \<open>An empty cache of the given size and two 8-element byte arrays without data at addresses 1 and 2.\<close>

definition fresh_vcache :: "int \<Rightarrow> vcache" where
  "fresh_vcache n = \<lparr>bh_vcache = replicate (nat n) NULL, bh_vcache_bytes = replicate (nat n) 0,
     bh_vcache_bytes_total = 0, bh_vcache_size = n, bh_vcache_cur = 0, bh_vcache_hits = 0,
     bh_vcache_miss = 0, bh_vcache_store = 0, bh_vcache_flush = 0\<rparr>"

definition two_bases :: "int \<Rightarrow> mem_state" where
  "two_bases n = \<lparr>live = [], bases = [1 \<mapsto> \<lparr>base_data = NULL, base_type = BH_UINT8, base_nelem = 8\<rparr>,
     2 \<mapsto> \<lparr>base_data = NULL, base_type = BH_UINT8, base_nelem = 8\<rparr>], vc = fresh_vcache n\<rparr>"

lemma two_bases_inv: "mem_inv (two_bases n)"
proof -
  have "owns (two_bases n) w = None" for w
    by (cases w) (simp_all add: two_bases_def fresh_vcache_def)
  then show ?thesis
    by (simp add: mem_inv_def own_ok_def owned_once_def vc_wf_def) (simp add: two_bases_def fresh_vcache_def)
qed

text \<open>
  A successful \<^verbatim>\<open>bh_vcache_malloc_base\<close> gives the base array a mapped region of exactly its size
  that no other base array and no cache slot holds, whether it came from the cache or from the
  kernel, changes nothing else of any base array and keeps the ownership invariant.
\<close>

theorem bh_vcache_malloc_base_exclusive:
  assumes "os_mem_ok os" and "mem_inv s" and "bases s p = Some b" and "0 < bh_base_size b"
    and "bh_vcache_malloc_base os p s = Some (BH_SUCCESS, s')"
  shows "\<exists>d. bases s' = (bases s)(p \<mapsto> b\<lparr>base_data := d\<rparr>) \<and> (d, bh_base_size b) \<in> set (live s') \<and>
    (\<forall>w n. owns s' w = Some (d, n) \<longrightarrow> w = Base p) \<and> mem_inv s'"
  using assms by (rule vcache_allocator.alloc_region)

lemma two_bases_malloc:
  "bh_vcache_malloc_base simple_os 1 (two_bases 2) =
     Some (BH_SUCCESS, \<lparr>live = [(1, 8)], bases = (bases (two_bases 2))(1 \<mapsto> \<lparr>base_data = 1, base_type = BH_UINT8, base_nelem = 8\<rparr>),
        vc = (fresh_vcache 2)\<lparr>bh_vcache_miss := 1\<rparr>\<rparr>)"
  by (simp add: bh_vcache_malloc_base_def two_bases_def bh_base_size_def vcache_alloc_def fresh_vcache_def
      bh_vcache_find_def bh_memory_malloc_def simple_os_def eval_nat_numeral)

theorem bh_vcache_malloc_base_exclusive_witness:
  "\<exists>d s'. bh_vcache_malloc_base simple_os 1 (two_bases 2) = Some (BH_SUCCESS, s') \<and> (d, 8) \<in> set (live s') \<and> mem_inv s'"
  using bh_vcache_malloc_base_exclusive [OF simple_os_ok two_bases_inv [of 2] _ _ two_bases_malloc]
  unfolding two_bases_malloc by (auto simp: two_bases_def bh_base_size_def)

text \<open>
  C20. Any sequence of allocations and releases of existing base arrays through the victim cache runs
  without undefined behaviour and ends in a state where every mapped region has exactly one owner:
  no leak, no double free, no two arrays with the same data.
\<close>

theorem vcache_requests_safe:
  assumes "os_mem_ok os" and "mem_inv s" and "target ` set rs \<subseteq> dom (bases s)"
  shows "\<exists>s'. run_requests bh_vcache_malloc_base bh_vcache_free_base os rs s = Some s' \<and>
    mem_inv s' \<and> dom (bases s') = dom (bases s)"
  using assms by (rule vcache_allocator.run_requests_inv)

theorem vcache_requests_safe_witness:
  "\<exists>s'. run_requests bh_vcache_malloc_base bh_vcache_free_base simple_os
      [Alloc 1, Free 1, Alloc 2, Alloc 1, Free 2, Free 1, Free 1] (two_bases 1) = Some s' \<and> mem_inv s'"
  using vcache_requests_safe [OF simple_os_ok two_bases_inv [of 1],
      of "[Alloc 1, Free 1, Alloc 2, Alloc 1, Free 2, Free 1, Free 1]"]
  by (auto simp: two_bases_def)

text \<open>
  The cache does its work: after a base array is released through an enabled cache, allocating
  another one of the same size in bytes succeeds without a new mapping, even if the kernel has no
  memory left.
\<close>

theorem vcache_reuse:
  assumes "os_mem_ok os" and "mem_inv s" and "0 < bh_vcache_size (vc s)"
    and "bases s p = Some b" and "base_data b \<noteq> NULL"
    and "bases s q = Some c" and "base_data c = NULL" and "bh_base_size c = bh_base_size b"
  shows "\<exists>s1 s2. bh_vcache_free_base os p s = Some (BH_SUCCESS, s1) \<and>
    bh_vcache_malloc_base os q s1 = Some (BH_SUCCESS, s2) \<and> live s2 = live s1"
proof -
  have pq: "p \<noteq> q" using assms(4-7) by auto
  obtain s1 where s1: "bh_vcache_free_base os p s = Some (BH_SUCCESS, s1)" "mem_inv s1" "0 < bh_vcache_size (vc s1)"
      "bases s1 = (bases s)(p \<mapsto> b\<lparr>base_data := NULL\<rparr>)"
      "owns s1 (Slot (bh_vcache_cur (vc s))) = Some (base_data b, bh_base_size b)"
    using bh_vcache_free_base_correct [OF assms(1,2,4)] assms(3,5) by blast
  have "bases s1 q = Some c" using s1(4) pq assms(6) by simp
  moreover have "0 < bh_base_size c"
    using s1(2,5) own_ok_mem assms(8) by (fastforce simp: mem_inv_def)
  ultimately show ?thesis
    using vcache_alloc_correct [OF assms(1) s1(2), of q c] assms(7,8) s1(1,3,5)
    by (auto simp: bh_vcache_malloc_base_def simp del: owns.simps)
qed

definition one_held :: mem_state where
  "one_held = (two_bases 2)\<lparr>live := [(1, 8)], bases := (bases (two_bases 2))(1 \<mapsto> \<lparr>base_data = 1, base_type = BH_UINT8, base_nelem = 8\<rparr>),
        vc := (fresh_vcache 2)\<lparr>bh_vcache_miss := 1\<rparr>\<rparr>"

lemma one_held_inv: "mem_inv one_held"
  using bh_vcache_malloc_base_correct [OF simple_os_ok two_bases_inv [of 2], of 1
      "\<lparr>base_data = NULL, base_type = BH_UINT8, base_nelem = 8\<rparr>"] two_bases_malloc
  by (simp add: one_held_def two_bases_def)

theorem vcache_reuse_witness:
  "\<exists>s1 s2. bh_vcache_free_base simple_os 1 one_held = Some (BH_SUCCESS, s1) \<and>
    bh_vcache_malloc_base simple_os 2 s1 = Some (BH_SUCCESS, s2) \<and> live s2 = live s1"
  by (rule vcache_reuse [OF simple_os_ok one_held_inv, of 1 "\<lparr>base_data = 1, base_type = BH_UINT8, base_nelem = 8\<rparr>"
        2 "\<lparr>base_data = NULL, base_type = BH_UINT8, base_nelem = 8\<rparr>"])
    (simp_all add: one_held_def two_bases_def fresh_vcache_def bh_base_size_def)

text \<open>
  When no base array holds data, \<^verbatim>\<open>bh_vcache_clear\<close> returns every mapped region to the kernel. It
  does not touch the cache itself: the entries it freed stay listed, against the comment
  (\<open>Remove all entries\<close>), and only a following \<^verbatim>\<open>bh_vcache_delete\<close> makes that harmless.
\<close>

theorem bh_vcache_clear_frees_all:
  assumes "os_mem_ok os" and "mem_inv s" and "\<forall>p b. bases s p = Some b \<longrightarrow> base_data b = NULL"
  shows "\<exists>s'. bh_vcache_clear os s = Some s' \<and> live s' = [] \<and> vc s' = vc s \<and> bases s' = bases s"
proof -
  have "owns s w = slots_from 0 s w" for w
    using assms(3) by (cases w) (auto simp: slots_from_def split: option.splits)
  then have "owns s = slots_from 0 s" by (rule ext)
  then have o: "own_ok (slots_from 0 s) (live s)" "vc_wf (vc s)"
    using assms(2) by (simp_all add: mem_inv_def)
  let ?n = "nat (bh_vcache_size (vc s))"
  obtain s' where s': "clear_loop os ?n 0 s = Some s'" "own_ok (slots_from ?n s') (live s')"
      "vc s' = vc s" "bases s' = bases s"
    using clear_loop_correct [OF assms(1) o(2,1), of ?n] by auto
  have "slots_from ?n s' w = None" for w
    using s'(3) o(2) by (cases w) (auto simp: slots_from_def vc_wf_def)
  then have "live s' = []" using s'(2) owned_once_empty by (fastforce simp: own_ok_def)
  then show ?thesis using s' by (simp add: bh_vcache_clear_def)
qed

definition one_cached :: mem_state where
  "one_cached = (two_bases 2)\<lparr>live := [(1, 8)],
     vc := (fresh_vcache 2)\<lparr>bh_vcache := [1, 0], bh_vcache_bytes := [8, 0], bh_vcache_bytes_total := 8,
       bh_vcache_cur := 1, bh_vcache_miss := 1, bh_vcache_store := 2\<rparr>\<rparr>"

lemma one_held_free: "bh_vcache_free_base simple_os 1 one_held = Some (BH_SUCCESS, one_cached)"
  by (simp add: one_held_def one_cached_def two_bases_def fresh_vcache_def bh_vcache_free_base_def
      bh_vcache_insert_def eval_nat_numeral fun_upd_twist)

lemma one_cached_inv: "mem_inv one_cached"
  using bh_vcache_free_base_correct [OF simple_os_ok one_held_inv, of 1 "\<lparr>base_data = 1, base_type = BH_UINT8, base_nelem = 8\<rparr>"]
    one_held_free by (simp add: one_held_def)

theorem bh_vcache_clear_frees_all_witness:
  "\<exists>s'. bh_vcache_clear simple_os one_cached = Some s' \<and> live s' = [] \<and> vc s' = vc one_cached"
  using bh_vcache_clear_frees_all [OF simple_os_ok one_cached_inv]
  by (force simp: one_cached_def two_bases_def split: if_splits)

text \<open>
  The byte counter drifts: \<^verbatim>\<open>bh_vcache_insert\<close> adds the size of the new entry without subtracting
  that of the entry it evicts, so that after two insertions into a cache of one slot the total is
  twice what the cache holds.
\<close>

lemma vcache_bytes_total_drift:
  "map_option (\<lambda>s. (bh_vcache_bytes (vc s), bh_vcache_bytes_total (vc s)))
     (run_requests bh_vcache_malloc_base bh_vcache_free_base simple_os
        [Alloc 1, Alloc 2, Free 1, Free 2] (two_bases 1)) = Some ([8], 16)"
  by (simp add: two_bases_def fresh_vcache_def bh_vcache_malloc_base_def bh_vcache_free_base_def vcache_alloc_def
      bh_vcache_find_def bh_vcache_insert_def bh_memory_malloc_def bh_memory_free_def simple_os_def
      bh_base_size_def eval_nat_numeral Let_def)

end
