(* ===== verification/Cpp_Map.thy ===== *)
theory Cpp_Map
  imports Bh_Prelude
begin

text \<open>
  The ordered map of the C++ standard library, as the sources use it (\<^verbatim>\<open>std::map\<close>): an association
  list with strictly increasing keys. The locale \<open>ordered_map\<close> states the interface its clients
  (\<^verbatim>\<open>bh_mem_signal.cpp\<close>, \<^verbatim>\<open>bh_seqset.h\<close>) rely on; it is interpreted on the list functions below.
\<close>

type_synonym ('k, 'v) omap = "('k \<times> 'v) list"

subsection \<open>Operations\<close>

fun omap_find :: "('k :: linorder, 'v) omap \<Rightarrow> 'k \<Rightarrow> 'v option" where
  "omap_find [] k = None"
| "omap_find ((k', v) # m) k = (if k = k' then Some v else omap_find m k)"

text \<open>\<^verbatim>\<open>m[k] = v\<close>\<close>

fun omap_set :: "'k :: linorder \<Rightarrow> 'v \<Rightarrow> ('k, 'v) omap \<Rightarrow> ('k, 'v) omap" where
  "omap_set k v [] = [(k, v)]"
| "omap_set k v ((k', v') # m) =
     (if k < k' then (k, v) # (k', v') # m
      else if k = k' then (k, v) # m
      else (k', v') # omap_set k v m)"

fun omap_erase :: "'k :: linorder \<Rightarrow> ('k, 'v) omap \<Rightarrow> ('k, 'v) omap" where
  "omap_erase k [] = []"
| "omap_erase k ((k', v') # m) = (if k = k' then m else (k', v') # omap_erase k m)"

text \<open>The first entry whose key is not less than \<open>k\<close>.\<close>

fun omap_lower_bound :: "('k :: linorder, 'v) omap \<Rightarrow> 'k \<Rightarrow> ('k \<times> 'v) option" where
  "omap_lower_bound [] k = None"
| "omap_lower_bound ((k', v) # m) k = (if k \<le> k' then Some (k', v) else omap_lower_bound m k)"

definition omap_inv :: "('k :: linorder, 'v) omap \<Rightarrow> bool" where
  "omap_inv m \<longleftrightarrow> sorted_wrt (<) (map fst m)"

subsection \<open>The interface\<close>

locale ordered_map =
  fixes find :: "'m \<Rightarrow> 'k :: linorder \<Rightarrow> 'v option"
    and upd :: "'k \<Rightarrow> 'v \<Rightarrow> 'm \<Rightarrow> 'm"
    and del :: "'k \<Rightarrow> 'm \<Rightarrow> 'm"
    and lower_bound :: "'m \<Rightarrow> 'k \<Rightarrow> ('k \<times> 'v) option"
    and inv :: "'m \<Rightarrow> bool"
  assumes find_upd: "inv m \<Longrightarrow> find (upd k v m) k' = (if k' = k then Some v else find m k')"
    and find_del: "inv m \<Longrightarrow> find (del k m) k' = (if k' = k then None else find m k')"
    and lower_bound_Some: "inv m \<Longrightarrow> lower_bound m k = Some (k', v) \<Longrightarrow>
      k \<le> k' \<and> find m k' = Some v \<and> (\<forall>j. k \<le> j \<longrightarrow> j < k' \<longrightarrow> find m j = None)"
    and lower_bound_None: "inv m \<Longrightarrow> lower_bound m k = None \<Longrightarrow> k \<le> j \<Longrightarrow> find m j = None"
    and inv_upd: "inv m \<Longrightarrow> inv (upd k v m)"
    and inv_del: "inv m \<Longrightarrow> inv (del k m)"
begin

lemma lower_bound_hit:
  assumes "inv m" and "find m k = Some v"
  shows "lower_bound m k = Some (k, v)"
proof (cases "lower_bound m k")
  case None
  then show ?thesis using lower_bound_None [OF assms(1) None order.refl] assms(2) by simp
next
  case (Some e)
  then obtain k' v' where e: "lower_bound m k = Some (k', v')" by (cases e) auto
  from lower_bound_Some [OF assms(1) this] have "k \<le> k'" "find m k' = Some v'" "\<not> k < k'"
    using assms(2) by auto
  then show ?thesis using e assms(2) by simp
qed

lemma lower_bound_miss:
  assumes "inv m" and "find m k = None" and "lower_bound m k = Some (k', v)"
  shows "k < k' \<and> find m k' = Some v"
  using lower_bound_Some [OF assms(1,3)] assms(2) by (metis option.distinct(1) order_le_less)

lemma del_upd_find:
  "inv m \<Longrightarrow> find m k = None \<Longrightarrow> find (del k (upd k v m)) j = find m j"
  by (simp add: find_del inv_upd find_upd)

end

subsection \<open>The list functions implement it\<close>

lemma omap_find_iff: "omap_inv m \<Longrightarrow> omap_find m k = Some v \<longleftrightarrow> (k, v) \<in> set m"
  by (induction m) (force simp: omap_inv_def)+

lemma omap_find_None: "\<forall>e \<in> set m. k < fst e \<Longrightarrow> omap_find m k = None"
  by (induction m) auto

lemma keys_omap_set: "fst ` set (omap_set k v m) = insert k (fst ` set m)"
  by (induction k v m rule: omap_set.induct) auto

lemma set_omap_erase: "set (omap_erase k m) \<subseteq> set m"
  by (induction k m rule: omap_erase.induct) auto

lemma omap_inv_set: "omap_inv m \<Longrightarrow> omap_inv (omap_set k v m)"
proof (induction k v m rule: omap_set.induct)
  case (2 k v k' v' m)
  have "\<forall>x \<in> fst ` set (omap_set k v m). k' < x" if "k' < k"
    using 2 that by (auto simp: keys_omap_set omap_inv_def)
  with 2 show ?case by (auto simp: omap_inv_def not_less order.order_iff_strict dest: order.strict_trans)
qed (simp add: omap_inv_def)

lemma omap_inv_erase: "omap_inv m \<Longrightarrow> omap_inv (omap_erase k m)"
  using set_omap_erase by (induction k m rule: omap_erase.induct) (force simp: omap_inv_def)+

lemma omap_find_set: "omap_find (omap_set k v m) k' = (if k' = k then Some v else omap_find m k')"
  by (induction k v m rule: omap_set.induct) auto

lemma omap_find_erase:
  "omap_inv m \<Longrightarrow> omap_find (omap_erase k m) k' = (if k' = k then None else omap_find m k')"
proof (induction k m rule: omap_erase.induct)
  case (2 k j v m)
  then have "omap_find m j = None" by (intro omap_find_None) (auto simp: omap_inv_def)
  with 2 show ?case by (auto simp: omap_inv_def)
qed simp

lemma omap_lower_bound_Some:
  "omap_inv m \<Longrightarrow> omap_lower_bound m k = Some (k', v) \<Longrightarrow>
   k \<le> k' \<and> omap_find m k' = Some v \<and> (\<forall>j. k \<le> j \<longrightarrow> j < k' \<longrightarrow> omap_find m j = None)"
proof (induction m)
  case (Cons e m)
  obtain a b where e: "e = (a, b)" by (cases e)
  have inv: "omap_inv m" and lt: "\<And>x. x \<in> set m \<Longrightarrow> a < fst x"
    using Cons.prems(1) by (auto simp: omap_inv_def e)
  show ?case
  proof (cases "k \<le> a")
    case True
    have "omap_find m j = None" if "j < a" for j
      using lt that by (metis omap_find_None order.strict_trans)
    then show ?thesis using True Cons.prems(2) by (auto simp: e)
  next
    case False
    then have lb: "omap_lower_bound m k = Some (k', v)" using Cons.prems(2) by (simp add: e)
    note IH = Cons.IH [OF inv lb]
    have "k' \<noteq> a" using IH False by auto
    then show ?thesis using IH False by (auto simp: e)
  qed
qed simp

lemma omap_lower_bound_None: "omap_lower_bound m k = None \<Longrightarrow> k \<le> j \<Longrightarrow> omap_find m j = None"
  by (induction m) (auto split: if_splits)

interpretation omap: ordered_map omap_find omap_set omap_erase omap_lower_bound omap_inv
  by unfold_locales
    (simp_all add: omap_find_set omap_find_erase omap_inv_set omap_inv_erase omap_lower_bound_Some
      omap_lower_bound_None)

lemma omap_inv_Nil [simp]: "omap_inv []"
  by (simp add: omap_inv_def)

end
