(* ===== verification/Bh_MemSignal.thy ===== *)
theory Bh_MemSignal
  imports Cpp_Map Bh_Types
begin

text \<open>
  Memory-access signals: \<^verbatim>\<open>core/bh_mem_signal.cpp\<close>. The state holds the mutex, the \<^verbatim>\<open>initialized\<close>
  flag, the map of attached segments (keyed by 64-bit start addresses) and whether \<^verbatim>\<open>SIGSEGV\<close> has
  the handler of this file or the default action. \<open>None\<close> as a result of an operation means that
  it blocks: \<^verbatim>\<open>pthread_mutex_lock\<close> on a mutex that nobody will release.
\<close>

type_synonym addr = "64 word"

record segment =
  seg_idx :: ptr
  seg_size :: "64 word"
  seg_callback :: nat

datatype segv_action = SIG_DFL | Handler

record sig_state =
  signal_mutex :: bool
  initialized :: bool
  segments :: "(addr, segment) omap"
  segv :: segv_action

definition sig_start :: sig_state where
  "sig_start = \<lparr>signal_mutex = False, initialized = False, segments = [], segv = SIG_DFL\<rparr>"

text \<open>The mutex is not recursive: locking it twice never returns.\<close>

definition lock :: "sig_state \<Rightarrow> sig_state option" where
  "lock s = (if signal_mutex s then None else Some (s\<lparr>signal_mutex := True\<rparr>))"

definition unlock :: "sig_state \<Rightarrow> sig_state" where
  "unlock s = s\<lparr>signal_mutex := False\<rparr>"

definition get_segment :: "addr \<Rightarrow> (addr, segment) omap \<Rightarrow> (addr \<times> segment) option" where
  "get_segment addr segs =
     (case omap_lower_bound segs addr of
        None \<Rightarrow> None
      | Some (first, sg) \<Rightarrow>
          (let offset = addr - first in
           if offset > seg_size sg then None else Some (first, sg)))"

text \<open>What the handler does with a fault: the callback it calls, or the default action it restores.\<close>

datatype outcome = Callback nat ptr addr | Default

definition sighandler :: "addr \<Rightarrow> sig_state \<Rightarrow> (outcome \<times> sig_state) option" where
  "sighandler si_addr s =
     (case lock s of
        None \<Rightarrow> None
      | Some s \<Rightarrow>
          (let sg = get_segment si_addr (segments s); s = unlock s in
           case sg of
             None \<Rightarrow> Some (Default, s\<lparr>segv := SIG_DFL\<rparr>)
           | Some (first, g) \<Rightarrow> Some (Callback (seg_callback g) (seg_idx g) si_addr, s)))"

definition bh_mem_signal_init :: "sig_state \<Rightarrow> (bh_error \<times> sig_state) option" where
  "bh_mem_signal_init s =
     (case lock s of
        None \<Rightarrow> None
      | Some s \<Rightarrow>
          (let s = (if \<not> initialized s then s\<lparr>segv := Handler\<rparr> else s)
           in Some (BH_SUCCESS, unlock (s\<lparr>initialized := True\<rparr>))))"

text \<open>The early return on a conflict leaves the mutex locked.\<close>

definition bh_mem_signal_attach ::
  "ptr \<Rightarrow> addr \<Rightarrow> 64 word \<Rightarrow> nat \<Rightarrow> sig_state \<Rightarrow> (bh_error \<times> sig_state) option" where
  "bh_mem_signal_attach idx addr sz callback s =
     (case lock s of
        None \<Rightarrow> None
      | Some s \<Rightarrow>
          if get_segment addr (segments s) \<noteq> None then Some (BH_ERROR, s)
          else Some (BH_SUCCESS, unlock (s\<lparr>segments :=
                 omap_set addr \<lparr>seg_idx = idx, seg_size = sz, seg_callback = callback\<rparr> (segments s)\<rparr>)))"

definition bh_mem_signal_detach :: "addr \<Rightarrow> sig_state \<Rightarrow> (bh_error \<times> sig_state) option" where
  "bh_mem_signal_detach addr s =
     (case lock s of
        None \<Rightarrow> None
      | Some s \<Rightarrow> Some (BH_SUCCESS, unlock (s\<lparr>segments := omap_erase addr (segments s)\<rparr>)))"

subsection \<open>The runs of the module\<close>

inductive sig_step :: "sig_state \<Rightarrow> sig_state \<Rightarrow> bool" where
  step_init: "bh_mem_signal_init s = Some (e, s') \<Longrightarrow> sig_step s s'"
| step_attach: "bh_mem_signal_attach idx a sz cb s = Some (e, s') \<Longrightarrow> sig_step s s'"
| step_detach: "bh_mem_signal_detach a s = Some (e, s') \<Longrightarrow> sig_step s s'"
| step_fault: "segv s = Handler \<Longrightarrow> sighandler a s = Some (r, s') \<Longrightarrow> sig_step s s'"

inductive sig_reachable :: "sig_state \<Rightarrow> bool" where
  reach_start: "sig_reachable sig_start"
| reach_step: "sig_reachable s \<Longrightarrow> sig_step s s' \<Longrightarrow> sig_reachable s'"

inductive_cases sig_stepE: "sig_step s s'"

lemmas sig_defs [bh_defs] = bh_mem_signal_init_def bh_mem_signal_attach_def bh_mem_signal_detach_def
  sighandler_def lock_def unlock_def Let_def

lemma sig_step_inv [bh_inv]: "sig_step s s' \<Longrightarrow> omap_inv (segments s) \<Longrightarrow> omap_inv (segments s')"
  by (elim sig_stepE)
    (auto simp: bh_defs omap_inv_set omap_inv_erase split: if_splits option.splits prod.splits)

lemma sig_reachable_sorted: "sig_reachable s \<Longrightarrow> omap_inv (segments s)"
  by (induction rule: sig_reachable.induct) (auto simp: sig_start_def intro: bh_inv)

lemma sig_step_unlocked: "sig_step s s' \<Longrightarrow> \<not> signal_mutex s"
  by (elim sig_stepE) (auto simp: bh_defs split: if_splits)

subsection \<open>Which addresses are found\<close>

definition no_wrap :: "(addr, segment) omap \<Rightarrow> bool" where
  "no_wrap segs \<longleftrightarrow> (\<forall>(k, g) \<in> set segs. unat k + unat (seg_size g) < 2 ^ 64)"

lemma wrapped_offset:
  fixes a k n :: "64 word"
  assumes "a < k" and "unat k + unat n < 2 ^ 64"
  shows "n < a - k"
proof -
  have "unat (a - k) = 2 ^ 64 + unat a - unat k"
    using assms(1) by (simp add: unat_sub_if' word_less_nat_alt)
  then show ?thesis using assms by (simp add: word_less_nat_alt)
qed

lemma get_segment_iff:
  assumes "omap_inv segs" and "no_wrap segs"
  shows "get_segment a segs = Some (k, g) \<longleftrightarrow> k = a \<and> omap_find segs a = Some g"
proof (cases "omap_find segs a")
  case (Some g')
  then show ?thesis
    using omap.lower_bound_hit [OF assms(1) Some] by (auto simp: get_segment_def)
next
  case None
  have "get_segment a segs = None"
  proof (cases "omap_lower_bound segs a")
    case lb: (Some e)
    obtain k' g' where e: "e = (k', g')" by (cases e)
    then have "a < k'" "(k', g') \<in> set segs"
      using omap.lower_bound_miss [OF assms(1) None] lb omap_find_iff [OF assms(1)] by auto
    then have "seg_size g' < a - k'" using assms(2) wrapped_offset by (fastforce simp: no_wrap_def)
    then show ?thesis using lb e by (simp add: get_segment_def)
  qed (simp add: get_segment_def)
  with None show ?thesis by simp
qed

lemma no_wrap_find: "omap_inv segs \<Longrightarrow> no_wrap segs \<longleftrightarrow>
    (\<forall>k g. omap_find segs k = Some g \<longrightarrow> unat k + unat (seg_size g) < 2 ^ 64)"
  by (auto simp: no_wrap_def omap_find_iff)

lemma no_wrap_set:
  "omap_inv segs \<Longrightarrow> no_wrap segs \<Longrightarrow> unat k + unat (seg_size g) < 2 ^ 64 \<Longrightarrow> no_wrap (omap_set k g segs)"
  by (auto simp: no_wrap_find omap_inv_set omap_find_set)

lemma no_wrap_erase: "omap_inv segs \<Longrightarrow> no_wrap segs \<Longrightarrow> no_wrap (omap_erase k segs)"
  by (auto simp: no_wrap_find omap_inv_erase omap_find_erase split: if_splits)

lemma get_segment_eq:
  "omap_inv segs \<Longrightarrow> no_wrap segs \<Longrightarrow> get_segment a segs = map_option (\<lambda>g. (a, g)) (omap_find segs a)"
  using get_segment_iff [of segs a] by (cases "omap_find segs a"; cases "get_segment a segs") auto

lemma sighandler_eq:
  assumes "omap_inv (segments s)" and "no_wrap (segments s)" and "\<not> signal_mutex s"
  shows "sighandler a s = Some (case omap_find (segments s) a of
      None \<Rightarrow> (Default, s\<lparr>segv := SIG_DFL\<rparr>)
    | Some g \<Rightarrow> (Callback (seg_callback g) (seg_idx g) a, s))"
  using assms by (simp add: sighandler_def lock_def unlock_def get_segment_eq split: option.splits)

subsection \<open>Properties\<close>

text \<open>
  C24. In every reachable state (mutex free, no segment that reaches past the top of the address space)
  a fault is dispatched to a segment exactly when the faulting address is the first byte of that
  segment; any other address, also one in the middle of a segment, restores the default action.
  The comment of \<^verbatim>\<open>get_segment\<close> promises the segment the address is part of.
\<close>

theorem sighandler_exact:
  assumes "sig_reachable s" and "no_wrap (segments s)" and "\<not> signal_mutex s"
  shows "sighandler a s = Some (case omap_find (segments s) a of
      None \<Rightarrow> (Default, s\<lparr>segv := SIG_DFL\<rparr>)
    | Some g \<Rightarrow> (Callback (seg_callback g) (seg_idx g) a, s))"
  using sighandler_eq [OF sig_reachable_sorted [OF assms(1)] assms(2,3)] .

definition page_attached :: sig_state where
  "page_attached = \<lparr>signal_mutex = False, initialized = True,
     segments = [(4096, \<lparr>seg_idx = 7, seg_size = 4096, seg_callback = 3\<rparr>)], segv = Handler\<rparr>"

lemma page_attached_reachable: "sig_reachable page_attached"
proof -
  let ?s = "sig_start\<lparr>initialized := True, segv := Handler\<rparr>"
  have "sig_step sig_start ?s"
    by (rule step_init [of _ BH_SUCCESS]) (simp add: sig_start_def bh_defs)
  moreover have "sig_step ?s page_attached"
    by (rule step_attach [of 7 4096 4096 3 _ BH_SUCCESS])
      (simp add: sig_start_def page_attached_def bh_defs get_segment_def)
  ultimately show ?thesis using reach_start reach_step by blast
qed

theorem sighandler_exact_witness:
  "sighandler 4096 page_attached = Some (Callback 3 7 4096, page_attached) \<and>
   sighandler 4100 page_attached = Some (Default, page_attached\<lparr>segv := SIG_DFL\<rparr>)"
  using sighandler_exact [OF page_attached_reachable, of 4096] sighandler_exact [OF page_attached_reachable, of 4100]
  by (simp add: page_attached_def no_wrap_def)

text \<open>
  Attaching a segment at an address without one makes exactly that address dispatch to the given
  callback with the given id, leaves every other address as it was, and detaching it restores all.
\<close>

theorem bh_mem_signal_attach_detach:
  assumes "sig_reachable s" and "no_wrap (segments s)" and "\<not> signal_mutex s"
    and "omap_find (segments s) a = None" and "unat a + unat sz < 2 ^ 64"
  shows "\<exists>s' s''. bh_mem_signal_attach idx a sz cb s = Some (BH_SUCCESS, s') \<and>
    sighandler a s' = Some (Callback cb idx a, s') \<and>
    (\<forall>x. x \<noteq> a \<longrightarrow> get_segment x (segments s') = get_segment x (segments s)) \<and>
    bh_mem_signal_detach a s' = Some (BH_SUCCESS, s'') \<and>
    (\<forall>x. get_segment x (segments s'') = get_segment x (segments s))"
proof -
  let ?g = "\<lparr>seg_idx = idx, seg_size = sz, seg_callback = cb\<rparr>"
  let ?m = "omap_set a ?g (segments s)"
  note inv = sig_reachable_sorted [OF assms(1)]
  have m: "omap_inv ?m" "no_wrap ?m" using inv assms(2,5) by (simp_all add: omap_inv_set no_wrap_set)
  have at: "bh_mem_signal_attach idx a sz cb s = Some (BH_SUCCESS, s\<lparr>segments := ?m\<rparr>)"
    using assms(3,4) get_segment_eq [OF inv assms(2), of a] by (simp add: bh_defs)
  have "sighandler a (s\<lparr>segments := ?m\<rparr>) = Some (Callback cb idx a, s\<lparr>segments := ?m\<rparr>)"
    using sighandler_eq [of "s\<lparr>segments := ?m\<rparr>" a] m assms(3) by (simp add: omap_find_set)
  moreover have "get_segment x ?m = get_segment x (segments s)" if "x \<noteq> a" for x
    using that m inv assms(2) by (simp add: get_segment_eq omap_find_set)
  moreover have "get_segment x (omap_erase a ?m) = get_segment x (segments s)" for x
    using m inv assms(2) omap.del_upd_find [OF inv assms(4)] by (simp add: get_segment_eq omap_inv_erase no_wrap_erase)
  moreover have "bh_mem_signal_detach a (s\<lparr>segments := ?m\<rparr>) = Some (BH_SUCCESS, s\<lparr>segments := omap_erase a ?m\<rparr>)"
    using assms(3) by (simp add: bh_defs)
  ultimately show ?thesis using at by fastforce
qed

theorem bh_mem_signal_attach_detach_witness:
  "\<exists>s'. bh_mem_signal_attach 9 65536 4096 5 page_attached = Some (BH_SUCCESS, s') \<and>
    sighandler 65536 s' = Some (Callback 5 9 65536, s')"
  using bh_mem_signal_attach_detach [OF page_attached_reachable, of 65536 4096 9 5]
  by (simp add: page_attached_def no_wrap_def) blast

text \<open>
  C27. Attaching a segment where one is already attached reports \<^verbatim>\<open>BH_ERROR\<close> but returns with the
  mutex locked: from then on no operation of the module, the signal handler included, returns.
\<close>

theorem bh_mem_signal_attach_conflict:
  assumes "sig_reachable s" and "\<not> signal_mutex s" and "omap_find (segments s) a = Some g"
  shows "\<exists>s'. bh_mem_signal_attach idx a sz cb s = Some (BH_ERROR, s') \<and> sig_reachable s' \<and>
    (\<forall>s''. \<not> sig_step s' s'')"
proof -
  have "get_segment a (segments s) \<noteq> None"
    using omap.lower_bound_hit [OF sig_reachable_sorted [OF assms(1)] assms(3)] by (simp add: get_segment_def)
  then have at: "bh_mem_signal_attach idx a sz cb s = Some (BH_ERROR, s\<lparr>signal_mutex := True\<rparr>)"
    using assms(2) by (simp add: bh_mem_signal_attach_def lock_def)
  then have "sig_reachable (s\<lparr>signal_mutex := True\<rparr>)"
    using assms(1) by (blast intro: reach_step step_attach)
  moreover have "\<not> sig_step (s\<lparr>signal_mutex := True\<rparr>) s''" for s''
    using sig_step_unlocked [of "s\<lparr>signal_mutex := True\<rparr>" s''] by auto
  ultimately show ?thesis using at by blast
qed

theorem bh_mem_signal_attach_conflict_witness:
  "\<exists>s'. bh_mem_signal_attach 9 4096 4096 5 page_attached = Some (BH_ERROR, s') \<and> (\<forall>s''. \<not> sig_step s' s'')"
  using bh_mem_signal_attach_conflict [OF page_attached_reachable, of 4096 _ 9 4096 5]
  by (simp add: page_attached_def) blast

end
