(* ===== verification/Bh_SeqSet.thy ===== *)
theory Bh_SeqSet
  imports Cpp_Map
begin

text \<open>
  The container \<^verbatim>\<open>seqset\<close> of \<^verbatim>\<open>include/bh_seqset.h\<close>: a set whose elements have consecutive ids in
  the order of their insertion, kept as two ordered maps that invert each other. Ids are \<open>nat\<close>:
  the counter is a \<^verbatim>\<open>size_t\<close> and would need \<open>2 ^ 64\<close> insertions to wrap. \<open>None\<close> is the exception
  \<^verbatim>\<open>std::out_of_range\<close>.
\<close>

record 'a seqset =
  maxid :: nat
  ss_map :: "('a, nat) omap"
  ss_rmap :: "(nat, 'a) omap"

definition ss_new :: "'a seqset" where
  "ss_new = \<lparr>maxid = 0, ss_map = [], ss_rmap = []\<rparr>"

definition ss_clear :: "'a seqset \<Rightarrow> 'a seqset" where
  "ss_clear s = s\<lparr>maxid := 0, ss_map := [], ss_rmap := []\<rparr>"

definition ss_insert :: "'a :: linorder \<Rightarrow> 'a seqset \<Rightarrow> (nat \<times> bool) \<times> 'a seqset" where
  "ss_insert v s =
     (case omap_find (ss_map s) v of
        None \<Rightarrow>
          (let i = maxid s in
           ((i, True), s\<lparr>maxid := i + 1, ss_map := omap_set v i (ss_map s), ss_rmap := omap_set i v (ss_rmap s)\<rparr>))
      | Some i \<Rightarrow> ((i, False), s))"

definition ss_erase :: "'a :: linorder \<Rightarrow> 'a seqset \<Rightarrow> nat \<times> 'a seqset" where
  "ss_erase v s =
     (case omap_find (ss_map s) v of
        Some i \<Rightarrow> (1, s\<lparr>ss_rmap := omap_erase i (ss_rmap s), ss_map := omap_erase v (ss_map s)\<rparr>)
      | None \<Rightarrow> (0, s))"

definition ss_id :: "'a :: linorder \<Rightarrow> 'a seqset \<Rightarrow> nat option" where
  "ss_id v s = omap_find (ss_map s) v"

definition ss_get :: "nat \<Rightarrow> 'a seqset \<Rightarrow> 'a option" where
  "ss_get i s = omap_find (ss_rmap s) i"

text \<open>Iteration from \<^verbatim>\<open>begin\<close> to \<^verbatim>\<open>end\<close>: the entries of the reverse map in key order.\<close>

definition ss_entries :: "'a seqset \<Rightarrow> (nat \<times> 'a) list" where
  "ss_entries s = ss_rmap s"

definition ss_size :: "'a seqset \<Rightarrow> nat" where
  "ss_size s = length (ss_map s)"

definition ss_set :: "'a seqset \<Rightarrow> 'a set" where
  "ss_set s = set (map fst (ss_map s))"

subsection \<open>Invariant\<close>

definition ss_inv :: "'a :: linorder seqset \<Rightarrow> bool" where
  "ss_inv s \<longleftrightarrow> omap_inv (ss_map s) \<and> omap_inv (ss_rmap s) \<and>
     (\<forall>v i. ss_id v s = Some i \<longleftrightarrow> ss_get i s = Some v) \<and> (\<forall>v i. ss_id v s = Some i \<longrightarrow> i < maxid s)"

lemma ss_inv_new [bh_inv]: "ss_inv ss_new"
  by (simp add: ss_inv_def ss_new_def ss_id_def ss_get_def)

lemma ss_inv_clear [bh_inv]: "ss_inv (ss_clear s)"
  by (simp add: ss_inv_def ss_clear_def ss_id_def ss_get_def)

lemma ss_id_insert:
  "ss_inv s \<Longrightarrow> ss_id w (snd (ss_insert v s)) =
     (if w = v then Some (fst (fst (ss_insert v s))) else ss_id w s)"
  by (auto simp: ss_insert_def ss_id_def omap_find_set Let_def split: option.splits)

lemma ss_inv_insert [bh_inv]:
  assumes "ss_inv s"
  shows "ss_inv (snd (ss_insert v s))"
proof (cases "omap_find (ss_map s) v")
  case None
  have fresh: "omap_find (ss_map s) w \<noteq> Some (maxid s)" "omap_find (ss_rmap s) (maxid s) \<noteq> Some w"
      "omap_find (ss_rmap s) i \<noteq> Some v" for w i
    using assms None by (auto simp: ss_inv_def ss_id_def ss_get_def) (metis option.distinct(1))
  then show ?thesis
    using assms None by (auto simp: ss_inv_def ss_insert_def ss_id_def ss_get_def omap_inv_set omap_find_set less_Suc_eq Let_def)
qed (use assms in \<open>simp add: ss_insert_def\<close>)

lemma ss_inv_erase [bh_inv]:
  assumes "ss_inv s"
  shows "ss_inv (snd (ss_erase v s))"
proof (cases "omap_find (ss_map s) v")
  case (Some i)
  let ?m = "ss_map s" and ?r = "ss_rmap s"
  have inv: "omap_inv ?m" "omap_inv ?r" using assms by (simp_all add: ss_inv_def)
  have eq: "omap_find ?r j = Some w \<longleftrightarrow> omap_find ?m w = Some j" for w j
    using assms by (simp add: ss_inv_def ss_id_def ss_get_def)
  then have inj: "w = v" if "omap_find ?m w = Some i" for w using Some that by (metis option.inject)
  have "omap_find (omap_erase v ?m) w = Some j \<longleftrightarrow> omap_find (omap_erase i ?r) j = Some w" for w j
    unfolding omap_find_erase [OF inv(1)] omap_find_erase [OF inv(2)]
    using inj [of w] Some eq [of j w] by (metis option.distinct(1) option.inject)
  moreover have "omap_find (omap_erase v ?m) w = Some j \<Longrightarrow> j < maxid s" for w j
    using assms by (auto simp: omap_find_erase inv ss_inv_def ss_id_def split: if_splits)
  ultimately show ?thesis
    using Some inv by (simp add: ss_inv_def ss_erase_def ss_id_def ss_get_def omap_inv_erase)
qed (use assms in \<open>simp add: ss_erase_def\<close>)

subsection \<open>Runs\<close>

datatype 'a ss_op = SInsert 'a | SErase 'a | SClear

fun ss_run :: "'a :: linorder ss_op list \<Rightarrow> 'a seqset \<Rightarrow> 'a seqset" where
  "ss_run [] s = s"
| "ss_run (SInsert v # os) s = ss_run os (snd (ss_insert v s))"
| "ss_run (SErase v # os) s = ss_run os (snd (ss_erase v s))"
| "ss_run (SClear # os) s = ss_run os (ss_clear s)"

lemma ss_run_inv: "ss_inv s \<Longrightarrow> ss_inv (ss_run os s)"
  by (induction os s rule: ss_run.induct) (simp_all add: bh_inv)

lemma omap_set_last: "\<forall>e \<in> set m. fst e < k \<Longrightarrow> omap_set k v m = m @ [(k, v)]"
  by (induction k v m rule: omap_set.induct) auto

lemma ss_entries_insert:
  assumes "ss_inv s" and "ss_id v s = None"
  shows "ss_entries (snd (ss_insert v s)) = ss_entries s @ [(maxid s, v)]"
proof -
  have "fst e < maxid s" if "e \<in> set (ss_rmap s)" for e
    using that assms(1) omap_find_iff [of "ss_rmap s" "fst e" "snd e"]
    by (auto simp: ss_inv_def ss_get_def)
  then show ?thesis
    using assms(2) by (simp add: ss_insert_def ss_entries_def ss_id_def omap_set_last Let_def)
qed

lemma ss_insert_id: "ss_inv s \<Longrightarrow> ss_id v (snd (ss_insert v s)) = Some (fst (fst (ss_insert v s)))"
  by (simp add: ss_id_insert)

lemma ss_get_id: "ss_inv s \<Longrightarrow> ss_get i s = Some v \<longleftrightarrow> ss_id v s = Some i"
  by (simp add: ss_inv_def)

subsection \<open>Properties\<close>

text \<open>
  After any sequence of insertions, erasures and clearings the two directions of \<^verbatim>\<open>operator[]\<close>
  are inverse; inserting an element gives an id under which both find each other, leaves the id of
  every other element alone, reports whether the element was new, and appends a new element at the
  end of the iteration order.
\<close>

theorem seqset_insert_correct:
  assumes "s = ss_run os ss_new" and "ss_insert v s = ((i, fresh), s')"
  shows "ss_id v s' = Some i \<and> ss_get i s' = Some v \<and> (fresh \<longleftrightarrow> ss_id v s = None) \<and>
    (\<forall>w. w \<noteq> v \<longrightarrow> ss_id w s' = ss_id w s) \<and>
    ss_entries s' = (if fresh then ss_entries s @ [(i, v)] else ss_entries s)"
proof -
  have inv: "ss_inv s" using assms(1) ss_run_inv ss_inv_new by simp
  have s': "s' = snd (ss_insert v s)" "i = fst (fst (ss_insert v s))" using assms(2) by simp_all
  have "ss_get i s' = Some v" using ss_get_id [OF ss_inv_insert [OF inv, of v]] ss_insert_id [OF inv, of v] s' by simp
  moreover have "(fresh \<longleftrightarrow> ss_id v s = None) \<and> (fresh \<longrightarrow> i = maxid s) \<and> (\<not> fresh \<longrightarrow> s' = s)"
    using assms(2) by (auto simp: ss_insert_def ss_id_def Let_def split: option.splits)
  ultimately show ?thesis using ss_id_insert [OF inv] ss_entries_insert [OF inv, of v] s' by auto
qed

theorem seqset_insert_correct_witness:
  "ss_entries (ss_run [SInsert (5 :: nat), SInsert 2, SErase 5] ss_new) = [(1, 2)] \<and>
   ss_entries (snd (ss_insert 1 (ss_run [SInsert (5 :: nat), SInsert 2, SErase 5] ss_new))) = [(1, 2), (2, 1)]"
  using seqset_insert_correct [OF refl, of 1 "[SInsert (5 :: nat), SInsert 2, SErase 5]" 2 True]
  by (simp add: ss_insert_def ss_erase_def ss_new_def ss_entries_def)

end
