(* ===== verification/Bh_Opcode.thy ===== *)
theory Bh_Opcode
  imports Bh_Disjoint
begin

text \<open>
  The opcodes of Bohrium. \<^verbatim>\<open>core/codegen/gen_opcodes.py\<close> generates \<^verbatim>\<open>include/bh_opcode.h\<close> and
  \<^verbatim>\<open>core/bh_opcode.cpp\<close> from \<^verbatim>\<open>core/codegen/opcodes.json\<close> when Bohrium is built. \<open>opcode_table\<close> is
  the contents of the description (identifier, number of operands and the four flags of each
  opcode); the functions are the templates of \<^verbatim>\<open>gen_cfile\<close> filled from the table. An opcode outside
  the table is an extension method.
\<close>

type_synonym bh_opcode = int

abbreviation (input) BH_ADD :: bh_opcode where "BH_ADD \<equiv> 1"
abbreviation (input) BH_SUBTRACT :: bh_opcode where "BH_SUBTRACT \<equiv> 2"
abbreviation (input) BH_MULTIPLY :: bh_opcode where "BH_MULTIPLY \<equiv> 3"
abbreviation (input) BH_DIVIDE :: bh_opcode where "BH_DIVIDE \<equiv> 4"
abbreviation (input) BH_POWER :: bh_opcode where "BH_POWER \<equiv> 5"
abbreviation (input) BH_ABSOLUTE :: bh_opcode where "BH_ABSOLUTE \<equiv> 6"
abbreviation (input) BH_GREATER :: bh_opcode where "BH_GREATER \<equiv> 7"
abbreviation (input) BH_GREATER_EQUAL :: bh_opcode where "BH_GREATER_EQUAL \<equiv> 8"
abbreviation (input) BH_LESS :: bh_opcode where "BH_LESS \<equiv> 9"
abbreviation (input) BH_LESS_EQUAL :: bh_opcode where "BH_LESS_EQUAL \<equiv> 10"
abbreviation (input) BH_EQUAL :: bh_opcode where "BH_EQUAL \<equiv> 11"
abbreviation (input) BH_NOT_EQUAL :: bh_opcode where "BH_NOT_EQUAL \<equiv> 12"
abbreviation (input) BH_LOGICAL_AND :: bh_opcode where "BH_LOGICAL_AND \<equiv> 13"
abbreviation (input) BH_LOGICAL_OR :: bh_opcode where "BH_LOGICAL_OR \<equiv> 14"
abbreviation (input) BH_LOGICAL_XOR :: bh_opcode where "BH_LOGICAL_XOR \<equiv> 15"
abbreviation (input) BH_LOGICAL_NOT :: bh_opcode where "BH_LOGICAL_NOT \<equiv> 16"
abbreviation (input) BH_MAXIMUM :: bh_opcode where "BH_MAXIMUM \<equiv> 17"
abbreviation (input) BH_MINIMUM :: bh_opcode where "BH_MINIMUM \<equiv> 18"
abbreviation (input) BH_BITWISE_AND :: bh_opcode where "BH_BITWISE_AND \<equiv> 19"
abbreviation (input) BH_BITWISE_OR :: bh_opcode where "BH_BITWISE_OR \<equiv> 20"
abbreviation (input) BH_BITWISE_XOR :: bh_opcode where "BH_BITWISE_XOR \<equiv> 21"
abbreviation (input) BH_INVERT :: bh_opcode where "BH_INVERT \<equiv> 22"
abbreviation (input) BH_LEFT_SHIFT :: bh_opcode where "BH_LEFT_SHIFT \<equiv> 23"
abbreviation (input) BH_RIGHT_SHIFT :: bh_opcode where "BH_RIGHT_SHIFT \<equiv> 24"
abbreviation (input) BH_COS :: bh_opcode where "BH_COS \<equiv> 25"
abbreviation (input) BH_SIN :: bh_opcode where "BH_SIN \<equiv> 26"
abbreviation (input) BH_TAN :: bh_opcode where "BH_TAN \<equiv> 27"
abbreviation (input) BH_COSH :: bh_opcode where "BH_COSH \<equiv> 28"
abbreviation (input) BH_SINH :: bh_opcode where "BH_SINH \<equiv> 29"
abbreviation (input) BH_TANH :: bh_opcode where "BH_TANH \<equiv> 30"
abbreviation (input) BH_ARCSIN :: bh_opcode where "BH_ARCSIN \<equiv> 31"
abbreviation (input) BH_ARCCOS :: bh_opcode where "BH_ARCCOS \<equiv> 32"
abbreviation (input) BH_ARCTAN :: bh_opcode where "BH_ARCTAN \<equiv> 33"
abbreviation (input) BH_ARCSINH :: bh_opcode where "BH_ARCSINH \<equiv> 34"
abbreviation (input) BH_ARCCOSH :: bh_opcode where "BH_ARCCOSH \<equiv> 35"
abbreviation (input) BH_ARCTANH :: bh_opcode where "BH_ARCTANH \<equiv> 36"
abbreviation (input) BH_ARCTAN2 :: bh_opcode where "BH_ARCTAN2 \<equiv> 37"
abbreviation (input) BH_EXP :: bh_opcode where "BH_EXP \<equiv> 38"
abbreviation (input) BH_EXP2 :: bh_opcode where "BH_EXP2 \<equiv> 39"
abbreviation (input) BH_EXPM1 :: bh_opcode where "BH_EXPM1 \<equiv> 40"
abbreviation (input) BH_LOG :: bh_opcode where "BH_LOG \<equiv> 41"
abbreviation (input) BH_LOG2 :: bh_opcode where "BH_LOG2 \<equiv> 42"
abbreviation (input) BH_LOG10 :: bh_opcode where "BH_LOG10 \<equiv> 43"
abbreviation (input) BH_LOG1P :: bh_opcode where "BH_LOG1P \<equiv> 44"
abbreviation (input) BH_SQRT :: bh_opcode where "BH_SQRT \<equiv> 45"
abbreviation (input) BH_CEIL :: bh_opcode where "BH_CEIL \<equiv> 46"
abbreviation (input) BH_TRUNC :: bh_opcode where "BH_TRUNC \<equiv> 47"
abbreviation (input) BH_FLOOR :: bh_opcode where "BH_FLOOR \<equiv> 48"
abbreviation (input) BH_RINT :: bh_opcode where "BH_RINT \<equiv> 49"
abbreviation (input) BH_MOD :: bh_opcode where "BH_MOD \<equiv> 50"
abbreviation (input) BH_ISNAN :: bh_opcode where "BH_ISNAN \<equiv> 51"
abbreviation (input) BH_ISINF :: bh_opcode where "BH_ISINF \<equiv> 52"
abbreviation (input) BH_IDENTITY :: bh_opcode where "BH_IDENTITY \<equiv> 53"
abbreviation (input) BH_DISCARD :: bh_opcode where "BH_DISCARD \<equiv> 54"
abbreviation (input) BH_FREE :: bh_opcode where "BH_FREE \<equiv> 55"
abbreviation (input) BH_SYNC :: bh_opcode where "BH_SYNC \<equiv> 56"
abbreviation (input) BH_NONE :: bh_opcode where "BH_NONE \<equiv> 57"
abbreviation (input) BH_ADD_REDUCE :: bh_opcode where "BH_ADD_REDUCE \<equiv> 59"
abbreviation (input) BH_MULTIPLY_REDUCE :: bh_opcode where "BH_MULTIPLY_REDUCE \<equiv> 60"
abbreviation (input) BH_MINIMUM_REDUCE :: bh_opcode where "BH_MINIMUM_REDUCE \<equiv> 61"
abbreviation (input) BH_MAXIMUM_REDUCE :: bh_opcode where "BH_MAXIMUM_REDUCE \<equiv> 62"
abbreviation (input) BH_LOGICAL_AND_REDUCE :: bh_opcode where "BH_LOGICAL_AND_REDUCE \<equiv> 63"
abbreviation (input) BH_BITWISE_AND_REDUCE :: bh_opcode where "BH_BITWISE_AND_REDUCE \<equiv> 64"
abbreviation (input) BH_LOGICAL_OR_REDUCE :: bh_opcode where "BH_LOGICAL_OR_REDUCE \<equiv> 65"
abbreviation (input) BH_BITWISE_OR_REDUCE :: bh_opcode where "BH_BITWISE_OR_REDUCE \<equiv> 66"
abbreviation (input) BH_LOGICAL_XOR_REDUCE :: bh_opcode where "BH_LOGICAL_XOR_REDUCE \<equiv> 67"
abbreviation (input) BH_BITWISE_XOR_REDUCE :: bh_opcode where "BH_BITWISE_XOR_REDUCE \<equiv> 68"
abbreviation (input) BH_RANDOM :: bh_opcode where "BH_RANDOM \<equiv> 69"
abbreviation (input) BH_RANGE :: bh_opcode where "BH_RANGE \<equiv> 70"
abbreviation (input) BH_REAL :: bh_opcode where "BH_REAL \<equiv> 71"
abbreviation (input) BH_IMAG :: bh_opcode where "BH_IMAG \<equiv> 72"
abbreviation (input) BH_ADD_ACCUMULATE :: bh_opcode where "BH_ADD_ACCUMULATE \<equiv> 73"
abbreviation (input) BH_MULTIPLY_ACCUMULATE :: bh_opcode where "BH_MULTIPLY_ACCUMULATE \<equiv> 74"
abbreviation (input) BH_SIGN :: bh_opcode where "BH_SIGN \<equiv> 75"
abbreviation (input) BH_MATMUL :: bh_opcode where "BH_MATMUL \<equiv> 76"
abbreviation (input) BH_GATHER :: bh_opcode where "BH_GATHER \<equiv> 77"
abbreviation (input) BH_SCATTER :: bh_opcode where "BH_SCATTER \<equiv> 78"

record opcode_info =
  op_text :: string
  op_nop :: nat
  op_elementwise :: bool
  op_reduction :: bool
  op_accumulate :: bool
  op_system :: bool

definition op_info :: "string \<Rightarrow> nat \<Rightarrow> bool \<Rightarrow> bool \<Rightarrow> bool \<Rightarrow> bool \<Rightarrow> opcode_info" where
  "op_info name nop ew red acc sys = \<lparr>op_text = name, op_nop = nop, op_elementwise = ew,
     op_reduction = red, op_accumulate = acc, op_system = sys\<rparr>"

definition opcode_table :: "(bh_opcode \<times> opcode_info) list" where
  "opcode_table = [
   (BH_ADD, op_info ''BH_ADD'' 3 True False False False),
   (BH_SUBTRACT, op_info ''BH_SUBTRACT'' 3 True False False False),
   (BH_MULTIPLY, op_info ''BH_MULTIPLY'' 3 True False False False),
   (BH_DIVIDE, op_info ''BH_DIVIDE'' 3 True False False False),
   (BH_POWER, op_info ''BH_POWER'' 3 True False False False),
   (BH_ABSOLUTE, op_info ''BH_ABSOLUTE'' 2 True False False False),
   (BH_GREATER, op_info ''BH_GREATER'' 3 True False False False),
   (BH_GREATER_EQUAL, op_info ''BH_GREATER_EQUAL'' 3 True False False False),
   (BH_LESS, op_info ''BH_LESS'' 3 True False False False),
   (BH_LESS_EQUAL, op_info ''BH_LESS_EQUAL'' 3 True False False False),
   (BH_EQUAL, op_info ''BH_EQUAL'' 3 True False False False),
   (BH_NOT_EQUAL, op_info ''BH_NOT_EQUAL'' 3 True False False False),
   (BH_LOGICAL_AND, op_info ''BH_LOGICAL_AND'' 3 True False False False),
   (BH_LOGICAL_OR, op_info ''BH_LOGICAL_OR'' 3 True False False False),
   (BH_LOGICAL_XOR, op_info ''BH_LOGICAL_XOR'' 3 True False False False),
   (BH_LOGICAL_NOT, op_info ''BH_LOGICAL_NOT'' 2 True False False False),
   (BH_MAXIMUM, op_info ''BH_MAXIMUM'' 3 True False False False),
   (BH_MINIMUM, op_info ''BH_MINIMUM'' 3 True False False False),
   (BH_BITWISE_AND, op_info ''BH_BITWISE_AND'' 3 True False False False),
   (BH_BITWISE_OR, op_info ''BH_BITWISE_OR'' 3 True False False False),
   (BH_BITWISE_XOR, op_info ''BH_BITWISE_XOR'' 3 True False False False),
   (BH_INVERT, op_info ''BH_INVERT'' 2 True False False False),
   (BH_LEFT_SHIFT, op_info ''BH_LEFT_SHIFT'' 3 True False False False),
   (BH_RIGHT_SHIFT, op_info ''BH_RIGHT_SHIFT'' 3 True False False False),
   (BH_COS, op_info ''BH_COS'' 2 True False False False),
   (BH_SIN, op_info ''BH_SIN'' 2 True False False False),
   (BH_TAN, op_info ''BH_TAN'' 2 True False False False),
   (BH_COSH, op_info ''BH_COSH'' 2 True False False False),
   (BH_SINH, op_info ''BH_SINH'' 2 True False False False),
   (BH_TANH, op_info ''BH_TANH'' 2 True False False False),
   (BH_ARCSIN, op_info ''BH_ARCSIN'' 2 True False False False),
   (BH_ARCCOS, op_info ''BH_ARCCOS'' 2 True False False False),
   (BH_ARCTAN, op_info ''BH_ARCTAN'' 2 True False False False),
   (BH_ARCSINH, op_info ''BH_ARCSINH'' 2 True False False False),
   (BH_ARCCOSH, op_info ''BH_ARCCOSH'' 2 True False False False),
   (BH_ARCTANH, op_info ''BH_ARCTANH'' 2 True False False False),
   (BH_ARCTAN2, op_info ''BH_ARCTAN2'' 3 True False False False),
   (BH_EXP, op_info ''BH_EXP'' 2 True False False False),
   (BH_EXP2, op_info ''BH_EXP2'' 2 True False False False),
   (BH_EXPM1, op_info ''BH_EXPM1'' 2 True False False False),
   (BH_LOG, op_info ''BH_LOG'' 2 True False False False),
   (BH_LOG2, op_info ''BH_LOG2'' 2 True False False False),
   (BH_LOG10, op_info ''BH_LOG10'' 2 True False False False),
   (BH_LOG1P, op_info ''BH_LOG1P'' 2 True False False False),
   (BH_SQRT, op_info ''BH_SQRT'' 2 True False False False),
   (BH_CEIL, op_info ''BH_CEIL'' 2 True False False False),
   (BH_TRUNC, op_info ''BH_TRUNC'' 2 True False False False),
   (BH_FLOOR, op_info ''BH_FLOOR'' 2 True False False False),
   (BH_RINT, op_info ''BH_RINT'' 2 True False False False),
   (BH_MOD, op_info ''BH_MOD'' 3 True False False False),
   (BH_ISNAN, op_info ''BH_ISNAN'' 2 True False False False),
   (BH_ISINF, op_info ''BH_ISINF'' 2 True False False False),
   (BH_IDENTITY, op_info ''BH_IDENTITY'' 2 True False False False),
   (BH_DISCARD, op_info ''BH_DISCARD'' 1 False False False True),
   (BH_FREE, op_info ''BH_FREE'' 1 False False False True),
   (BH_SYNC, op_info ''BH_SYNC'' 1 False False False True),
   (BH_NONE, op_info ''BH_NONE'' 0 True False False True),
   (BH_ADD_REDUCE, op_info ''BH_ADD_REDUCE'' 3 False True False False),
   (BH_MULTIPLY_REDUCE, op_info ''BH_MULTIPLY_REDUCE'' 3 False True False False),
   (BH_MINIMUM_REDUCE, op_info ''BH_MINIMUM_REDUCE'' 3 False True False False),
   (BH_MAXIMUM_REDUCE, op_info ''BH_MAXIMUM_REDUCE'' 3 False True False False),
   (BH_LOGICAL_AND_REDUCE, op_info ''BH_LOGICAL_AND_REDUCE'' 3 False True False False),
   (BH_BITWISE_AND_REDUCE, op_info ''BH_BITWISE_AND_REDUCE'' 3 False True False False),
   (BH_LOGICAL_OR_REDUCE, op_info ''BH_LOGICAL_OR_REDUCE'' 3 False True False False),
   (BH_BITWISE_OR_REDUCE, op_info ''BH_BITWISE_OR_REDUCE'' 3 False True False False),
   (BH_LOGICAL_XOR_REDUCE, op_info ''BH_LOGICAL_XOR_REDUCE'' 3 False True False False),
   (BH_BITWISE_XOR_REDUCE, op_info ''BH_BITWISE_XOR_REDUCE'' 3 False True False False),
   (BH_RANDOM, op_info ''BH_RANDOM'' 2 False False False False),
   (BH_RANGE, op_info ''BH_RANGE'' 1 False False False False),
   (BH_REAL, op_info ''BH_REAL'' 2 True False False False),
   (BH_IMAG, op_info ''BH_IMAG'' 2 True False False False),
   (BH_ADD_ACCUMULATE, op_info ''BH_ADD_ACCUMULATE'' 3 False False True False),
   (BH_MULTIPLY_ACCUMULATE, op_info ''BH_MULTIPLY_ACCUMULATE'' 3 False False True False),
   (BH_SIGN, op_info ''BH_SIGN'' 2 True False False False),
   (BH_MATMUL, op_info ''BH_MATMUL'' 3 False False False False),
   (BH_GATHER, op_info ''BH_GATHER'' 3 False False False False),
   (BH_SCATTER, op_info ''BH_SCATTER'' 3 False False False False)]"

text \<open>\<^verbatim>\<open>default: return 3; // Extension methods have 3 operands always\<close>\<close>

definition bh_operands :: "bh_opcode \<Rightarrow> nat" where
  "bh_operands op = (case map_of opcode_table op of Some i \<Rightarrow> op_nop i | None \<Rightarrow> 3)"

definition bh_opcode_text :: "bh_opcode \<Rightarrow> string" where
  "bh_opcode_text op = (case map_of opcode_table op of Some i \<Rightarrow> op_text i | None \<Rightarrow> ''Unknown opcode'')"

definition bh_opcode_is_system :: "bh_opcode \<Rightarrow> bool" where
  "bh_opcode_is_system op = (case map_of opcode_table op of Some i \<Rightarrow> op_system i | None \<Rightarrow> False)"

definition bh_opcode_is_elementwise :: "bh_opcode \<Rightarrow> bool" where
  "bh_opcode_is_elementwise op = (case map_of opcode_table op of Some i \<Rightarrow> op_elementwise i | None \<Rightarrow> False)"

definition bh_opcode_is_reduction :: "bh_opcode \<Rightarrow> bool" where
  "bh_opcode_is_reduction op = (case map_of opcode_table op of Some i \<Rightarrow> op_reduction i | None \<Rightarrow> False)"

definition bh_opcode_is_accumulate :: "bh_opcode \<Rightarrow> bool" where
  "bh_opcode_is_accumulate op = (case map_of opcode_table op of Some i \<Rightarrow> op_accumulate i | None \<Rightarrow> False)"

abbreviation is_sweep :: "bh_opcode \<Rightarrow> bool" where
  "is_sweep \<equiv> bh_opcode_is_sweep bh_opcode_is_reduction bh_opcode_is_accumulate"

lemmas opcode_defs = bh_operands_def bh_opcode_is_system_def bh_opcode_is_elementwise_def
  bh_opcode_is_reduction_def bh_opcode_is_accumulate_def bh_opcode_is_sweep_def bh_opcode_text_def

lemmas opcode_eval = opcode_defs opcode_table_def op_info_def

subsection \<open>What the table guarantees\<close>

lemma table_distinct: "distinct (map fst opcode_table)"
  by (simp add: opcode_table_def)

lemma table_flags:
  "\<forall>(k, i) \<in> set opcode_table. op_nop i \<le> 3 \<and> (op_system i \<longrightarrow> op_nop i \<le> 1 \<and> \<not> op_reduction i \<and> \<not> op_accumulate i) \<and>
     ((op_reduction i \<or> op_accumulate i) \<longrightarrow> op_nop i = 3 \<and> \<not> op_elementwise i) \<and>
     (op_elementwise i \<and> \<not> op_system i \<longrightarrow> 2 \<le> op_nop i) \<and> (\<not> op_system i \<longrightarrow> 1 \<le> op_nop i) \<and>
     \<not> (op_reduction i \<and> op_accumulate i)"
  by (simp add: opcode_table_def op_info_def)

lemma table_info:
  assumes "map_of opcode_table op = Some i"
  shows "op_nop i \<le> 3 \<and> (op_system i \<longrightarrow> op_nop i \<le> 1 \<and> \<not> op_reduction i \<and> \<not> op_accumulate i) \<and>
     ((op_reduction i \<or> op_accumulate i) \<longrightarrow> op_nop i = 3 \<and> \<not> op_elementwise i) \<and>
     (op_elementwise i \<and> \<not> op_system i \<longrightarrow> 2 \<le> op_nop i) \<and> (\<not> op_system i \<longrightarrow> 1 \<le> op_nop i) \<and>
     \<not> (op_reduction i \<and> op_accumulate i)"
  using table_flags map_of_SomeD [OF assms] by blast

lemma bh_operands_le_3: "bh_operands op \<le> 3"
  using table_info by (auto simp: bh_operands_def split: option.splits)

lemma sweep_operands: "is_sweep op \<Longrightarrow> bh_operands op = 3 \<and> \<not> bh_opcode_is_system op"
  using table_info by (fastforce simp: opcode_defs split: option.splits)

lemma nonsystem_operands: "\<not> bh_opcode_is_system op \<Longrightarrow> 0 < bh_operands op"
  using table_info by (fastforce simp: opcode_defs split: option.splits)

lemma elementwise_operands: "bh_opcode_is_elementwise op \<Longrightarrow> \<not> bh_opcode_is_system op \<Longrightarrow> 2 \<le> bh_operands op"
  using table_info by (fastforce simp: opcode_defs split: option.splits)

end
