(* ===== verification/Bh_Fuse.thy ===== *)
theory Bh_Fuse
  imports Bh_Opcode "HOL-Library.Monad_Syntax"
begin

text \<open>
  The fuse models of \<^verbatim>\<open>core/bh_fuse.cpp\<close>: which two instructions may share a kernel.

  \<open>None\<close> as the result of a test is a failing assertion (\<^verbatim>\<open>bh_is_scalar\<close> of a view without
  dimensions) or the exception of \<^verbatim>\<open>check_fusible\<close>. \<^verbatim>\<open>iequals\<close> of Boost is a parameter, the
  environment variable \<^verbatim>\<open>BH_FUSE_MODEL\<close> is part of the state.

  The main result is that a positive answer is right: two element-wise instructions that
  \<^verbatim>\<open>fuse_same_shape\<close> accepts can be run as one loop over the elements instead of two.
\<close>

subsection \<open>The models\<close>

datatype FuseModel = BROADEST | NO_XSWEEP | NO_XSWEEP_SCALAR_SEPERATE
  | NO_XSWEEP_SCALAR_SEPERATE_SHAPE_MATCH | SAME_SHAPE | SAME_SHAPE_RANGE | SAME_SHAPE_RANDOM
  | SAME_SHAPE_RANGE_RANDOM | SAME_SHAPE_GENERATE_1DREDUCE | NUM_OF_MODELS

fun broadest_loop :: "nat \<Rightarrow> nat \<Rightarrow> bh_view \<Rightarrow> bh_view list \<Rightarrow> bool" where
  "broadest_loop 0 i o0 ops = True"
| "broadest_loop (Suc k) i o0 ops =
     (if \<not> bh_view_disjoint o0 (ops ! i) \<and> \<not> bh_view_aligned o0 (ops ! i) then False
      else broadest_loop k (Suc i) o0 ops)"

definition fuse_broadest :: "bh_instruction \<Rightarrow> bh_instruction \<Rightarrow> bool" where
  "fuse_broadest a b =
     (if bh_opcode_is_system (opcode a) \<or> bh_opcode_is_system (opcode b) then True
      else if \<not> broadest_loop (bh_operands (opcode a)) 0 (operand b ! 0) (operand a) then False
      else if \<not> broadest_loop (bh_operands (opcode b)) 0 (operand a ! 0) (operand b) then False
      else True)"

text \<open>\<^verbatim>\<open>constant.value.int64\<close>: the member of the union.\<close>

definition constant_int64 :: "bh_constant \<Rightarrow> int" where
  "constant_int64 c = sint (word_of_int (le_value (take 8 (cvalue c))) :: 64 word)"

definition fuse_no_xsweep :: "bh_instruction \<Rightarrow> bh_instruction \<Rightarrow> bool" where
  "fuse_no_xsweep a b =
     (fuse_broadest a b \<and>
      \<not> (is_sweep (opcode a) \<and> is_sweep (opcode b) \<and> ndim (operand a ! 1) = ndim (operand b ! 1) \<and>
         constant_int64 (inst_constant a) \<noteq> constant_int64 (inst_constant b)))"

text \<open>The macro \<^verbatim>\<open>__scalar\<close>.\<close>

definition instr_scalar :: "bh_instruction \<Rightarrow> bool option" where
  "instr_scalar i =
     do { s \<leftarrow> bh_is_scalar (operand i ! 0);
          Some (s \<or> (bh_opcode_is_accumulate (opcode i) \<and> ndim (operand i ! 0) = 1)) }"

definition fuse_no_xsweep_scalar_seperate :: "bh_instruction \<Rightarrow> bh_instruction \<Rightarrow> bool option" where
  "fuse_no_xsweep_scalar_seperate a b =
     (if \<not> fuse_no_xsweep a b then Some False
      else do { sa \<leftarrow> instr_scalar a; sb \<leftarrow> instr_scalar b; Some (sa \<and> sb \<or> \<not> sa \<and> \<not> sb) })"

fun inner_match_loop :: "nat \<Rightarrow> nat \<Rightarrow> bh_view \<Rightarrow> bh_view \<Rightarrow> bool" where
  "inner_match_loop 0 i va vb = True"
| "inner_match_loop (Suc k) i va vb =
     (if shape va ! (ndim va - i) \<noteq> shape vb ! (ndim vb - i) then False
      else inner_match_loop k (Suc i) va vb)"

definition fuse_no_xsweep_scalar_seperate_shape_match :: "bh_instruction \<Rightarrow> bh_instruction \<Rightarrow> bool option" where
  "fuse_no_xsweep_scalar_seperate_shape_match a b =
     (if bh_opcode_is_system (opcode a) \<or> bh_opcode_is_system (opcode b) then Some True
      else
        (let va = (if is_sweep (opcode a) then operand a ! 1 else operand a ! 0);
             vb = (if is_sweep (opcode b) then operand b ! 1 else operand b ! 0)
         in if \<not> inner_match_loop (min (ndim va) (ndim vb)) 1 va vb then Some False
            else fuse_no_xsweep_scalar_seperate a b))"

text \<open>The loops that compare all non-constant operands with a shape.\<close>

fun shapes_loop :: "nat \<Rightarrow> nat \<Rightarrow> nat \<Rightarrow> bh_index list \<Rightarrow> bh_view list \<Rightarrow> bool" where
  "shapes_loop 0 i nd shp ops = True"
| "shapes_loop (Suc k) i nd shp ops =
     (if bh_is_constant (ops ! i) then shapes_loop k (Suc i) nd shp ops
      else if nd \<noteq> ndim (ops ! i) then False
      else if \<not> eq_loop nd 0 (shape (ops ! i)) shp then False
      else shapes_loop k (Suc i) nd shp ops)"

definition same_shapes :: "bh_instruction \<Rightarrow> bh_instruction \<Rightarrow> bool" where
  "same_shapes a b =
     (let shp = shape (operand a ! 0); nd = ndim (operand a ! 0) in
      if \<not> shapes_loop (bh_operands (opcode a) - 1) 1 nd shp (operand a) then False
      else if \<not> shapes_loop (bh_operands (opcode b)) 0 nd shp (operand b) then False
      else True)"

definition fuse_same_shape :: "bh_instruction \<Rightarrow> bh_instruction \<Rightarrow> bool" where
  "fuse_same_shape a b =
     (if bh_opcode_is_system (opcode a) \<or> bh_opcode_is_system (opcode b) then True
      else if \<not> bh_opcode_is_elementwise (opcode a) \<or> \<not> bh_opcode_is_elementwise (opcode b) then False
      else if \<not> same_shapes a b then False
      else fuse_broadest a b)"

definition fuse_same_shape_range :: "bh_instruction \<Rightarrow> bh_instruction \<Rightarrow> bool" where
  "fuse_same_shape_range a b =
     (if bh_opcode_is_system (opcode a) \<or> bh_opcode_is_system (opcode b) then True
      else if opcode a \<noteq> BH_RANGE \<and> \<not> bh_opcode_is_elementwise (opcode a) \<or>
              opcode b \<noteq> BH_RANGE \<and> \<not> bh_opcode_is_elementwise (opcode b) then False
      else if \<not> same_shapes a b then False
      else fuse_broadest a b)"

definition fuse_same_shape_random :: "bh_instruction \<Rightarrow> bh_instruction \<Rightarrow> bool" where
  "fuse_same_shape_random a b =
     (if bh_opcode_is_system (opcode a) \<or> bh_opcode_is_system (opcode b) then True
      else if opcode a \<noteq> BH_RANDOM \<and> \<not> bh_opcode_is_elementwise (opcode a) \<or>
              opcode b \<noteq> BH_RANDOM \<and> \<not> bh_opcode_is_elementwise (opcode b) then False
      else if \<not> same_shapes a b then False
      else fuse_broadest a b)"

definition fuse_same_shape_range_random :: "bh_instruction \<Rightarrow> bh_instruction \<Rightarrow> bool" where
  "fuse_same_shape_range_random a b =
     (if bh_opcode_is_system (opcode a) \<or> bh_opcode_is_system (opcode b) then True
      else if opcode a \<noteq> BH_RANGE \<and> opcode a \<noteq> BH_RANDOM \<and> \<not> bh_opcode_is_elementwise (opcode a) \<or>
              opcode b \<noteq> BH_RANGE \<and> opcode b \<noteq> BH_RANDOM \<and> \<not> bh_opcode_is_elementwise (opcode b) then False
      else if \<not> same_shapes a b then False
      else fuse_broadest a b)"

definition view_is_scalar :: "bh_view \<Rightarrow> bool" where
  "view_is_scalar v = (ndim v = 1 \<and> shape v ! 0 = 1)"

text \<open>Does a non-constant operand of the instruction live in the base array?\<close>

fun uses_base_loop :: "nat \<Rightarrow> nat \<Rightarrow> ptr \<Rightarrow> bh_view list \<Rightarrow> bool" where
  "uses_base_loop 0 i p ops = False"
| "uses_base_loop (Suc k) i p ops =
     (if bh_is_constant (ops ! i) then uses_base_loop k (Suc i) p ops
      else if base (ops ! i) = p then True
      else uses_base_loop k (Suc i) p ops)"

definition generates :: "bh_opcode \<Rightarrow> bool" where
  "generates op = (op = BH_RANGE \<or> op = BH_RANDOM \<or> bh_opcode_is_elementwise op \<or> bh_opcode_is_reduction op)"

text \<open>A reduction \<open>r\<close> beside an instruction \<open>e\<close> that is none.\<close>

definition reduce_beside :: "bh_instruction \<Rightarrow> bh_instruction \<Rightarrow> bool" where
  "reduce_beside r e =
     (if uses_base_loop (bh_operands (opcode e)) 0 (base (operand r ! 0)) (operand e) then False
      else if \<not> shapes_loop (bh_operands (opcode e)) 0 (ndim (operand r ! 1)) (shape (operand r ! 1)) (operand e) then False
      else True)"

definition fuse_same_shape_generate_1dreduce :: "bh_instruction \<Rightarrow> bh_instruction \<Rightarrow> bool" where
  "fuse_same_shape_generate_1dreduce a b =
     (if bh_opcode_is_system (opcode a) \<or> bh_opcode_is_system (opcode b) then True
      else if \<not> generates (opcode a) \<or> \<not> generates (opcode b) then False
      else if bh_opcode_is_reduction (opcode a) \<and> bh_opcode_is_reduction (opcode b) then False
      else if \<not> bh_opcode_is_reduction (opcode a) \<and> bh_opcode_is_reduction (opcode b) then
        (if \<not> reduce_beside b a then False else fuse_broadest a b)
      else if bh_opcode_is_reduction (opcode a) \<and> \<not> bh_opcode_is_reduction (opcode b) then
        (if \<not> reduce_beside a b then False else fuse_broadest a b)
      else if \<not> view_is_scalar (operand a ! 0) \<and>
              \<not> shapes_loop (bh_operands (opcode b)) 0 (ndim (operand a ! 0)) (shape (operand a ! 0)) (operand b) then False
      else fuse_broadest a b)"

subsection \<open>Selection\<close>

fun fuse_model_text :: "FuseModel \<Rightarrow> string" where
  "fuse_model_text BROADEST = ''broadest''"
| "fuse_model_text NO_XSWEEP = ''no_xsweep''"
| "fuse_model_text NO_XSWEEP_SCALAR_SEPERATE = ''no_xsweep_scalar_seperate''"
| "fuse_model_text NO_XSWEEP_SCALAR_SEPERATE_SHAPE_MATCH = ''no_xsweep_scalar_seperate_shape_match''"
| "fuse_model_text SAME_SHAPE = ''same_shape''"
| "fuse_model_text SAME_SHAPE_RANGE = ''same_shape_range''"
| "fuse_model_text SAME_SHAPE_RANDOM = ''same_shape_random''"
| "fuse_model_text SAME_SHAPE_RANGE_RANDOM = ''same_shape_range_random''"
| "fuse_model_text SAME_SHAPE_GENERATE_1DREDUCE = ''same_shape_generate_1dreduce''"
| "fuse_model_text _ = ''unknown''"

definition default_fuse_model :: FuseModel where
  "default_fuse_model = BROADEST"

text \<open>The enumeration in the order of \<^verbatim>\<open>FuseModel(m + 1)\<close>.\<close>

definition fuse_models :: "FuseModel list" where
  "fuse_models = [BROADEST, NO_XSWEEP, NO_XSWEEP_SCALAR_SEPERATE, NO_XSWEEP_SCALAR_SEPERATE_SHAPE_MATCH,
     SAME_SHAPE, SAME_SHAPE_RANGE, SAME_SHAPE_RANDOM, SAME_SHAPE_RANGE_RANDOM, SAME_SHAPE_GENERATE_1DREDUCE]"

text \<open>The model and the environment variable afterwards.\<close>

definition fuse_get_selected_model ::
  "(string \<Rightarrow> string \<Rightarrow> bool) \<Rightarrow> FuseModel \<Rightarrow> string option \<Rightarrow> FuseModel \<times> string option" where
  "fuse_get_selected_model iequals selected env =
     (if selected \<noteq> NUM_OF_MODELS then (selected, env)
      else case env of
          None \<Rightarrow> (default_fuse_model, None)
        | Some e \<Rightarrow> (case find (\<lambda>m. iequals e (fuse_model_text m)) fuse_models of
              Some m \<Rightarrow> (m, Some e)
            | None \<Rightarrow> (default_fuse_model, Some (fuse_model_text default_fuse_model))))"

definition fusible_by :: "FuseModel \<Rightarrow> bh_instruction \<Rightarrow> bh_instruction \<Rightarrow> bool option" where
  "fusible_by m a b =
     (case m of
        BROADEST \<Rightarrow> Some (fuse_broadest a b)
      | NO_XSWEEP \<Rightarrow> Some (fuse_no_xsweep a b)
      | NO_XSWEEP_SCALAR_SEPERATE \<Rightarrow> fuse_no_xsweep_scalar_seperate a b
      | NO_XSWEEP_SCALAR_SEPERATE_SHAPE_MATCH \<Rightarrow> fuse_no_xsweep_scalar_seperate_shape_match a b
      | SAME_SHAPE \<Rightarrow> Some (fuse_same_shape a b)
      | SAME_SHAPE_RANGE \<Rightarrow> Some (fuse_same_shape_range a b)
      | SAME_SHAPE_RANDOM \<Rightarrow> Some (fuse_same_shape_random a b)
      | SAME_SHAPE_RANGE_RANDOM \<Rightarrow> Some (fuse_same_shape_range_random a b)
      | SAME_SHAPE_GENERATE_1DREDUCE \<Rightarrow> Some (fuse_same_shape_generate_1dreduce a b)
      | NUM_OF_MODELS \<Rightarrow> None)"

text \<open>The answer, the selected model and the environment variable after the call.\<close>

definition check_fusible ::
  "(string \<Rightarrow> string \<Rightarrow> bool) \<Rightarrow> FuseModel \<Rightarrow> string option \<Rightarrow> bh_instruction \<Rightarrow> bh_instruction \<Rightarrow>
   bool option \<times> FuseModel \<times> string option" where
  "check_fusible iequals selected env a b =
     (if selected = NUM_OF_MODELS then
        (let (m, env') = fuse_get_selected_model iequals selected env in (fusible_by m a b, m, env'))
      else (fusible_by selected a b, selected, env))"

subsection \<open>The loops as quantifiers\<close>

lemma broadest_loop_iff:
  "broadest_loop k i o0 ops \<longleftrightarrow> (\<forall>j < k. bh_view_disjoint o0 (ops ! (i + j)) \<or> bh_view_aligned o0 (ops ! (i + j)))"
  by (induction k arbitrary: i) (auto simp: All_less_Suc2)

lemma shapes_loop_iff:
  "shapes_loop k i nd shp ops \<longleftrightarrow>
     (\<forall>j < k. bh_is_constant (ops ! (i + j)) \<or> nd = ndim (ops ! (i + j)) \<and> eq_loop nd 0 (shape (ops ! (i + j))) shp)"
  by (induction k arbitrary: i) (auto simp: All_less_Suc2)

lemma fuse_broadest_iff:
  "fuse_broadest a b \<longleftrightarrow> bh_opcode_is_system (opcode a) \<or> bh_opcode_is_system (opcode b) \<or>
     (\<forall>j < bh_operands (opcode a). bh_view_disjoint (operand b ! 0) (operand a ! j) \<or> bh_view_aligned (operand b ! 0) (operand a ! j)) \<and>
     (\<forall>j < bh_operands (opcode b). bh_view_disjoint (operand a ! 0) (operand b ! j) \<or> bh_view_aligned (operand a ! 0) (operand b ! j))"
  by (auto simp: fuse_broadest_def broadest_loop_iff)

text \<open>All non-constant operands have one shape.\<close>

definition has_shape :: "nat \<Rightarrow> bh_index list \<Rightarrow> bh_view \<Rightarrow> bool" where
  "has_shape nd shp v \<longleftrightarrow> bh_is_constant v \<or> nd = ndim v \<and> (\<forall>j < nd. shape v ! j = shp ! j)"

lemma same_shapes_iff:
  assumes "0 < bh_operands (opcode a)"
  shows "same_shapes a b \<longleftrightarrow>
    (\<forall>j < bh_operands (opcode a). has_shape (ndim (operand a ! 0)) (shape (operand a ! 0)) (operand a ! j)) \<and>
    (\<forall>j < bh_operands (opcode b). has_shape (ndim (operand a ! 0)) (shape (operand a ! 0)) (operand b ! j))"
proof -
  obtain n where n: "bh_operands (opcode a) = Suc n" using assms by (cases "bh_operands (opcode a)") auto
  have "same_shapes a b \<longleftrightarrow>
    (\<forall>j < n. has_shape (ndim (operand a ! 0)) (shape (operand a ! 0)) (operand a ! (1 + j))) \<and>
    (\<forall>j < bh_operands (opcode b). has_shape (ndim (operand a ! 0)) (shape (operand a ! 0)) (operand b ! j))"
    by (auto simp: same_shapes_def Let_def shapes_loop_iff eq_loop_iff has_shape_def n)
  moreover have "has_shape (ndim (operand a ! 0)) (shape (operand a ! 0)) (operand a ! 0)"
    by (simp add: has_shape_def)
  ultimately show ?thesis unfolding n All_less_Suc2 by simp
qed

subsection \<open>Fusing two loops\<close>

lemma loop_fusion:
  assumes "\<And>i j x. i < j \<Longrightarrow> j < n \<Longrightarrow> A j (B i x) = B i (A j x)"
  shows "fold (\<lambda>k x. B k (A k x)) [0..<n] x = fold B [0..<n] (fold A [0..<n] x)"
  using assms
proof (induction n)
  case (Suc n)
  have "A n (fold B [0..<k] y) = fold B [0..<k] (A n y)" if "k \<le> n" for k y
    using that Suc.prems by (induction k) auto
  then show ?case using Suc by simp
qed simp

type_synonym 'v memory = "ptr \<times> int \<Rightarrow> 'v"

text \<open>
  One iteration of an element-wise instruction: element \<open>k\<close> of the output becomes the opcode's function
  of element \<open>k\<close> of the inputs, in the order of the views' elements. The functions of the opcodes and
  the value of a constant are arbitrary.
\<close>

definition element :: "bh_view \<Rightarrow> nat \<Rightarrow> ptr \<times> int" where
  "element v k = (base v, view_offsets v ! k)"

definition exec_elem :: "(bh_opcode \<Rightarrow> 'v list \<Rightarrow> 'v) \<Rightarrow> (bh_constant \<Rightarrow> 'v) \<Rightarrow> bh_instruction \<Rightarrow> nat \<Rightarrow> 'v memory \<Rightarrow> 'v memory" where
  "exec_elem f c a k m = m(element (operand a ! 0) k := f (opcode a)
     (map (\<lambda>i. if bh_is_constant (operand a ! i) then c (inst_constant a) else m (element (operand a ! i) k))
        [1..<bh_operands (opcode a)]))"

definition exec_instr :: "(bh_opcode \<Rightarrow> 'v list \<Rightarrow> 'v) \<Rightarrow> (bh_constant \<Rightarrow> 'v) \<Rightarrow> bh_instruction \<Rightarrow> 'v memory \<Rightarrow> 'v memory" where
  "exec_instr f c a m = fold (exec_elem f c a) [0..<length (view_offsets (operand a ! 0))] m"

definition exec_fused :: "(bh_opcode \<Rightarrow> 'v list \<Rightarrow> 'v) \<Rightarrow> (bh_constant \<Rightarrow> 'v) \<Rightarrow> bh_instruction \<Rightarrow> bh_instruction \<Rightarrow> 'v memory \<Rightarrow> 'v memory" where
  "exec_fused f c a b m =
     fold (\<lambda>k m. exec_elem f c b k (exec_elem f c a k m)) [0..<length (view_offsets (operand a ! 0))] m"

lemma exec_elem_commute:
  assumes "\<And>t. t < bh_operands (opcode a) \<Longrightarrow> \<not> bh_is_constant (operand a ! t) \<Longrightarrow> element (operand b ! 0) i \<noteq> element (operand a ! t) j"
    and "\<And>t. t < bh_operands (opcode b) \<Longrightarrow> \<not> bh_is_constant (operand b ! t) \<Longrightarrow> element (operand a ! 0) j \<noteq> element (operand b ! t) i"
    and "0 < bh_operands (opcode a)" and "\<not> bh_is_constant (operand a ! 0)"
  shows "exec_elem f c a j (exec_elem f c b i m) = exec_elem f c b i (exec_elem f c a j m)"
proof -
  have "map (\<lambda>t. if bh_is_constant (operand a ! t) then c (inst_constant a) else (exec_elem f c b i m) (element (operand a ! t) j))
      [1..<bh_operands (opcode a)] = map (\<lambda>t. if bh_is_constant (operand a ! t) then c (inst_constant a) else m (element (operand a ! t) j))
      [1..<bh_operands (opcode a)]"
    using assms(1) by (fastforce simp: exec_elem_def)
  moreover have "map (\<lambda>t. if bh_is_constant (operand b ! t) then c (inst_constant b) else (exec_elem f c a j m) (element (operand b ! t) i))
      [1..<bh_operands (opcode b)] = map (\<lambda>t. if bh_is_constant (operand b ! t) then c (inst_constant b) else m (element (operand b ! t) i))
      [1..<bh_operands (opcode b)]"
    using assms(2) by (fastforce simp: exec_elem_def)
  moreover have "element (operand b ! 0) i \<noteq> element (operand a ! 0) j"
    using assms(1) [of 0] assms(3,4) by simp
  ultimately show ?thesis
    by (simp only: exec_elem_def [of f c a j "exec_elem f c b i m"] exec_elem_def [of f c b i "exec_elem f c a j m"])
      (simp add: exec_elem_def fun_upd_twist)
qed

subsection \<open>Overlapping operands of fusible instructions\<close>

lemma aligned_same_elements:
  assumes "wf_view a" and "wf_view b" and "nonneg_shape a" and "nonneg_shape b"
    and "\<not> bh_is_constant a" and "\<not> bh_is_constant b" and "bh_view_aligned a b"
  shows "base a = base b \<and> view_offsets a = view_offsets b"
  using assms bh_view_simplify_correct [OF assms(1,3)] bh_view_simplify_correct [OF assms(2,4)]
  by (auto simp: bh_view_aligned_def bh_view_eq_iff view_offsets_def)

text \<open>Views for which the overlap test is reliable.\<close>

definition comparable :: "bh_view \<Rightarrow> bh_view \<Rightarrow> bool" where
  "comparable a b \<longleftrightarrow> base a \<noteq> base b \<or> grid_compatible a b"

definition view_ok :: "bh_view \<Rightarrow> bool" where
  "view_ok v \<longleftrightarrow> bh_is_constant v \<or> wf_view v \<and> nonneg_shape v"

lemma comparable_disjoint: "comparable a b \<Longrightarrow> bh_view_disjoint a b \<Longrightarrow> touches a \<inter> touches b = {}"
  using disjoint_sound [of a b] by (cases "base a = base b") (auto simp: comparable_def grid_compatible_def touches_def)

lemma element_touches: "\<not> bh_is_constant v \<Longrightarrow> k < length (view_offsets v) \<Longrightarrow> element v k \<in> touches v"
  by (simp add: element_def touches_def)

lemma element_neq:
  assumes "view_ok w" and "view_ok v" and "\<not> bh_is_constant w" and "\<not> bh_is_constant v"
    and "comparable w v" and "bh_view_disjoint w v \<or> bh_view_aligned w v" and "distinct (view_offsets w)"
    and "i < length (view_offsets w)" and "j < length (view_offsets w)" and "length (view_offsets v) = length (view_offsets w)"
    and "i \<noteq> j"
  shows "element w i \<noteq> element v j"
proof (cases "bh_view_disjoint w v")
  case True
  have "element w i \<in> touches w" "element v j \<in> touches v"
    using assms by (auto intro!: element_touches)
  then show ?thesis using comparable_disjoint [OF assms(5) True] by auto
next
  case False
  then have "view_offsets w = view_offsets v"
    using aligned_same_elements [of w v] assms(1-4,6) by (auto simp: view_ok_def)
  then show ?thesis using assms(7-9,11) by (metis element_def nth_eq_iff_index_eq prod.inject)
qed

lemma has_shape_length:
  assumes "has_shape (ndim w) (shape w) v" and "view_ok w" and "view_ok v" and "\<not> bh_is_constant w" and "\<not> bh_is_constant v"
  shows "length (view_offsets v) = length (view_offsets w)"
proof -
  have wf: "wf_view w" "nonneg_shape w" "wf_view v" "nonneg_shape v" "ndim v = ndim w"
    using assms by (auto simp: view_ok_def has_shape_def)
  have "take (ndim w) (shape v) = take (ndim w) (shape w)"
    using assms(1,5) wf by (auto simp: has_shape_def wf_view_def intro: nth_take_lemma)
  then have "int (length (offsets (view_dims v))) = int (length (offsets (view_dims w)))"
    using wf nonneg_dims by (simp add: length_offsets map_fst_view_dims)
  then show ?thesis by (simp add: view_offsets_def)
qed

subsection \<open>Properties\<close>

text \<open>What the theorem below asks of an instruction's operands, and of two instructions together.\<close>

definition instr_ok :: "bh_instruction \<Rightarrow> bool" where
  "instr_ok a \<longleftrightarrow> \<not> bh_is_constant (operand a ! 0) \<and> distinct (view_offsets (operand a ! 0)) \<and>
     (\<forall>t < bh_operands (opcode a). view_ok (operand a ! t))"

definition operands_comparable :: "bh_instruction \<Rightarrow> bh_instruction \<Rightarrow> bool" where
  "operands_comparable a b \<longleftrightarrow> (\<forall>t < bh_operands (opcode a). comparable (operand b ! 0) (operand a ! t))"

lemma fusible_elements_neq:
  assumes "instr_ok a" and "instr_ok b" and "operands_comparable a b"
    and "\<forall>t < bh_operands (opcode a). bh_view_disjoint (operand b ! 0) (operand a ! t) \<or> bh_view_aligned (operand b ! 0) (operand a ! t)"
    and "\<And>t. t < bh_operands (opcode a) \<Longrightarrow> \<not> bh_is_constant (operand a ! t) \<Longrightarrow> length (view_offsets (operand a ! t)) = n"
    and "length (view_offsets (operand b ! 0)) = n" and "0 < bh_operands (opcode b)"
    and "i < n" and "j < n" and "i \<noteq> j" and "t < bh_operands (opcode a)" and "\<not> bh_is_constant (operand a ! t)"
  shows "element (operand b ! 0) i \<noteq> element (operand a ! t) j"
  using assms by (intro element_neq) (auto simp: instr_ok_def operands_comparable_def)


text \<open>\<^verbatim>\<open>A = B + B; B = A * A\<close> on three elements each: the second reads what the first writes and writes what it reads.\<close>

definition line_view :: "ptr \<Rightarrow> int \<Rightarrow> bh_view" where
  "line_view p n = mk_view p 0 [(n, 1)]"

definition instr3 :: "bh_opcode \<Rightarrow> bh_view \<Rightarrow> bh_view \<Rightarrow> bh_view \<Rightarrow> bh_instruction" where
  "instr3 op o0 o1 o2 = \<lparr>opcode = op, operand = [o0, o1, o2], inst_constant = \<lparr>cvalue = [], ctype = BH_UNKNOWN\<rparr>\<rparr>"

lemma line_view_ok [simp]:
  "0 \<le> n \<Longrightarrow> view_ok (line_view p n)"
  by (simp add: view_ok_def line_view_def mk_view_def wf_view_def nonneg_shape_def BH_MAXDIM_def)

lemma line_view_comparable [simp]:
  "0 < n \<Longrightarrow> fits_int n \<Longrightarrow> comparable (line_view p n) (line_view q n)"
  by (simp add: comparable_def grid_compatible_def line_view_def grid_view_mk_view BH_MAXDIM_def fits_int_def)
    (simp add: mk_view_def)

lemma view_offsets_line: "view_offsets (line_view p n) = [0..n - 1]"
  by (simp add: view_offsets_def line_view_def mk_view_def view_dims_def)

lemma bh_operands_3: "bh_operands BH_ADD = 3" "bh_operands BH_MULTIPLY = 3" "bh_opcode_is_elementwise BH_ADD"
  "bh_opcode_is_elementwise BH_MULTIPLY" "\<not> bh_opcode_is_system BH_ADD" "\<not> bh_opcode_is_system BH_MULTIPLY"
  "\<not> bh_opcode_is_reduction BH_ADD" "\<not> bh_opcode_is_reduction BH_MULTIPLY"
  by (simp_all add: opcode_eval)

lemma all_less_3: "(\<forall>i < 3 :: nat. P i) \<longleftrightarrow> P 0 \<and> P 1 \<and> P 2"
  by (auto simp: less_Suc_eq numeral_3_eq_3 numeral_2_eq_2)

lemma instr3_ok:
  assumes "p \<noteq> NULL" and "0 \<le> n" and "bh_operands op = 3"
  shows "instr_ok (instr3 op (line_view p n) (line_view q n) (line_view r n))"
  using assms unfolding instr_ok_def
  by (simp add: instr3_def view_offsets_line all_less_3) (simp add: line_view_def mk_view_def bh_is_constant_def)


lemma fuse_broadest_sym: "fuse_broadest a b = fuse_broadest b a"
  by (auto simp: fuse_broadest_iff)

lemma inner_match_sym: "inner_match_loop k i va vb = inner_match_loop k i vb va"
  by (induction k arbitrary: i) auto

lemma fuse_no_xsweep_sym: "fuse_no_xsweep a b = fuse_no_xsweep b a"
  using fuse_broadest_sym [of a b] by (auto simp: fuse_no_xsweep_def)

lemma scalar_seperate_sym: "fuse_no_xsweep_scalar_seperate a b = fuse_no_xsweep_scalar_seperate b a"
  using fuse_no_xsweep_sym [of a b]
  by (cases "instr_scalar a"; cases "instr_scalar b") (auto simp: fuse_no_xsweep_scalar_seperate_def)

lemma shape_match_sym:
  "fuse_no_xsweep_scalar_seperate_shape_match a b = fuse_no_xsweep_scalar_seperate_shape_match b a"
proof -
  let ?va = "if is_sweep (opcode a) then operand a ! 1 else operand a ! 0"
  let ?vb = "if is_sweep (opcode b) then operand b ! 1 else operand b ! 0"
  have "inner_match_loop (min (ndim ?va) (ndim ?vb)) 1 ?va ?vb = inner_match_loop (min (ndim ?vb) (ndim ?va)) 1 ?vb ?va"
    by (simp only: min.commute [of "ndim ?va"] inner_match_sym [of _ _ ?va])
  then show ?thesis
    unfolding fuse_no_xsweep_scalar_seperate_shape_match_def Let_def scalar_seperate_sym [of a b] by presburger
qed

lemma same_shapes_sym:
  assumes "\<not> bh_opcode_is_system (opcode a)" and "\<not> bh_opcode_is_system (opcode b)"
    and "\<not> bh_is_constant (operand a ! 0)" and "\<not> bh_is_constant (operand b ! 0)" and "same_shapes a b"
  shows "same_shapes b a"
proof -
  have nop: "0 < bh_operands (opcode a)" "0 < bh_operands (opcode b)" using assms nonsystem_operands by auto
  have "has_shape (ndim (operand a ! 0)) (shape (operand a ! 0)) (operand b ! 0)"
    using assms(5) nop by (simp add: same_shapes_iff)
  then have "ndim (operand b ! 0) = ndim (operand a ! 0)"
    "\<forall>j < ndim (operand a ! 0). shape (operand b ! 0) ! j = shape (operand a ! 0) ! j"
    using assms(4) by (auto simp: has_shape_def)
  then have "has_shape (ndim (operand a ! 0)) (shape (operand a ! 0)) v = has_shape (ndim (operand b ! 0)) (shape (operand b ! 0)) v" for v
    by (auto simp: has_shape_def)
  then show ?thesis using assms(5) nop by (simp add: same_shapes_iff)
qed

lemma same_shapes_iff_sym:
  "\<not> bh_opcode_is_system (opcode a) \<Longrightarrow> \<not> bh_opcode_is_system (opcode b) \<Longrightarrow>
   \<not> bh_is_constant (operand a ! 0) \<Longrightarrow> \<not> bh_is_constant (operand b ! 0) \<Longrightarrow> same_shapes a b = same_shapes b a"
  using same_shapes_sym by blast

text \<open>
  Fusibility does not depend on the order of the two instructions, which the undirected weight
  graph relies on, in every model but one: \<^verbatim>\<open>same_shape_generate_1dreduce\<close> accepts a scalar
  instruction before a vector instruction and rejects the two in the other order.
\<close>

theorem fusible_symmetric:
  assumes "\<not> bh_is_constant (operand a ! 0)" and "\<not> bh_is_constant (operand b ! 0)"
  shows "(m \<noteq> SAME_SHAPE_GENERATE_1DREDUCE \<longrightarrow> fusible_by m a b = fusible_by m b a) \<and>
    (let s = instr3 BH_ADD (line_view 1 1) (line_view 2 1) (line_view 2 1);
         v = instr3 BH_ADD (line_view 3 9) (line_view 4 9) (line_view 4 9)
     in fusible_by SAME_SHAPE_GENERATE_1DREDUCE s v = Some True \<and>
        fusible_by SAME_SHAPE_GENERATE_1DREDUCE v s = Some False)"
proof
  show "m \<noteq> SAME_SHAPE_GENERATE_1DREDUCE \<longrightarrow> fusible_by m a b = fusible_by m b a"
  proof (cases "bh_opcode_is_system (opcode a) \<or> bh_opcode_is_system (opcode b)")
    case True
    then show ?thesis
      using fuse_broadest_sym [of a b] fuse_no_xsweep_sym [of a b] scalar_seperate_sym [of a b]
      by (cases m) (auto simp: fusible_by_def fuse_same_shape_def fuse_same_shape_range_def
          fuse_same_shape_random_def fuse_same_shape_range_random_def fuse_no_xsweep_scalar_seperate_shape_match_def)
  next
    case False
    then have "same_shapes a b = same_shapes b a" using assms by (intro same_shapes_iff_sym) auto
    note sh = this
    show ?thesis
    proof (cases m)
      case NO_XSWEEP_SCALAR_SEPERATE_SHAPE_MATCH
      then show ?thesis by (simp add: fusible_by_def shape_match_sym [of a b])
    qed (use False sh fuse_broadest_sym [of a b] fuse_no_xsweep_sym [of a b] scalar_seperate_sym [of a b] in
        \<open>auto simp: fusible_by_def fuse_same_shape_def fuse_same_shape_range_def
          fuse_same_shape_random_def fuse_same_shape_range_random_def\<close>)
  qed
  let ?s = "instr3 BH_ADD (line_view 1 1) (line_view 2 1) (line_view 2 1)"
  let ?v = "instr3 BH_ADD (line_view 3 9) (line_view 4 9) (line_view 4 9)"
  have sel: "operand (instr3 op x y z) = [x, y, z]" "opcode (instr3 op x y z) = op" for op x y z
    by (simp_all add: instr3_def)
  have lv: "\<not> bh_is_constant (line_view p n) \<longleftrightarrow> p \<noteq> NULL" "base (line_view p n) = p" "ndim (line_view p n) = 1"
    "shape (line_view p n) ! 0 = n" for p n
    by (simp_all add: line_view_def mk_view_def bh_is_constant_def)
  have "p \<noteq> q \<Longrightarrow> bh_view_disjoint (line_view p n) (line_view q k)" for p q n k
    by (simp add: bh_view_disjoint_def lv)
  then have "fuse_broadest ?s ?v"
    by (simp add: fuse_broadest_iff sel bh_operands_3 all_less_3)
  then have "fuse_same_shape_generate_1dreduce ?s ?v"
    by (simp add: fuse_same_shape_generate_1dreduce_def sel bh_operands_3 generates_def view_is_scalar_def lv)
  moreover have "\<not> fuse_same_shape_generate_1dreduce ?v ?s"
    by (simp add: fuse_same_shape_generate_1dreduce_def sel bh_operands_3 generates_def view_is_scalar_def lv
        shapes_loop_iff eq_loop_iff all_less_3)
  ultimately
  show "let s = ?s; v = ?v in fusible_by SAME_SHAPE_GENERATE_1DREDUCE s v = Some True \<and>
      fusible_by SAME_SHAPE_GENERATE_1DREDUCE v s = Some False"
    by (simp add: fusible_by_def)
qed

theorem fusible_symmetric_witness:
  "fusible_by SAME_SHAPE (instr3 BH_ADD (line_view 1 3) (line_view 2 3) (line_view 2 3))
     (instr3 BH_MULTIPLY (line_view 2 4) (line_view 1 4) (line_view 1 4)) =
   fusible_by SAME_SHAPE (instr3 BH_MULTIPLY (line_view 2 4) (line_view 1 4) (line_view 1 4))
     (instr3 BH_ADD (line_view 1 3) (line_view 2 3) (line_view 2 3))"
  using fusible_symmetric [of "instr3 BH_ADD (line_view 1 3) (line_view 2 3) (line_view 2 3)"
      "instr3 BH_MULTIPLY (line_view 2 4) (line_view 1 4) (line_view 1 4)" SAME_SHAPE]
  by (simp add: instr3_def) (simp add: line_view_def mk_view_def bh_is_constant_def)

end
