(* ===== verification/Bh_ViewOrder.thy ===== *)
theory Bh_ViewOrder
  imports Bh_View "HOL-Library.Product_Lexorder" "HOL-Library.List_Lexorder"
begin

text \<open>
  Views as keys of the ordered containers of the C++ library. \<open>norm_view\<close> clears the entries of the
  shape and stride arrays that no operation reads (those behind \<open>ndim\<close>); two views are equal under
  \<^verbatim>\<open>operator==\<close> exactly when their normal forms are, and \<^verbatim>\<open>operator<\<close> is the lexicographic order of
  the normal forms. Views are therefore an instance of \<open>linorder\<close>, and a container of views holds
  normal forms.
\<close>

subsection \<open>A linear order on views\<close>

definition view_key :: "('a :: linorder) bh_view_ext \<Rightarrow> ptr \<times> int \<times> nat \<times> int list \<times> int list \<times> 'a" where
  "view_key v = (base v, start v, ndim v, shape v, stride v, bh_view.more v)"

lemma view_key_inject: "view_key v = view_key w \<Longrightarrow> v = w"
  by (simp add: view_key_def)

instantiation bh_view_ext :: (linorder) linorder
begin

definition less_eq_bh_view_ext :: "'a bh_view_ext \<Rightarrow> 'a bh_view_ext \<Rightarrow> bool" where
  "less_eq_bh_view_ext v w \<longleftrightarrow> view_key v \<le> view_key w"

definition less_bh_view_ext :: "'a bh_view_ext \<Rightarrow> 'a bh_view_ext \<Rightarrow> bool" where
  "less_bh_view_ext v w \<longleftrightarrow> view_key v < view_key w"

instance
  by standard (auto simp: less_eq_bh_view_ext_def less_bh_view_ext_def intro: view_key_inject)

end

subsection \<open>Normal forms\<close>

definition norm_entries :: "nat \<Rightarrow> int list \<Rightarrow> int list" where
  "norm_entries nd xs = take nd xs @ replicate (BH_MAXDIM - nd) 0"

definition norm_view :: "bh_view \<Rightarrow> bh_view" where
  "norm_view v = v\<lparr>shape := norm_entries (ndim v) (shape v), stride := norm_entries (ndim v) (stride v)\<rparr>"

lemma norm_view_sel [simp]:
  "base (norm_view v) = base v" "start (norm_view v) = start v" "ndim (norm_view v) = ndim v"
  "bh_is_constant (norm_view v) = bh_is_constant v"
  by (simp_all add: norm_view_def bh_is_constant_def)

lemma norm_view_nth:
  "wf_view v \<Longrightarrow> i < ndim v \<Longrightarrow> shape (norm_view v) ! i = shape v ! i \<and> stride (norm_view v) ! i = stride v ! i"
  by (simp add: norm_view_def norm_entries_def nth_append wf_view_def)

lemma wf_norm_view [simp]: "wf_view v \<Longrightarrow> wf_view (norm_view v)"
  by (simp add: wf_view_def norm_view_def norm_entries_def)

lemma view_dims_norm [simp]: "wf_view v \<Longrightarrow> view_dims (norm_view v) = view_dims v"
  by (rule nth_equalityI) (simp_all add: length_view_dims view_dims_nth norm_view_nth)

lemma view_offsets_norm [simp]: "wf_view v \<Longrightarrow> view_offsets (norm_view v) = view_offsets v"
  by (simp add: view_offsets_def)

lemma bh_view_eq_norm:
  assumes "wf_view a" and "wf_view b"
  shows "bh_view_eq a b \<longleftrightarrow> norm_view a = norm_view b"
proof
  assume "bh_view_eq a b"
  then have eq: "base a = base b" "start a = start b" "view_dims a = view_dims b"
    using assms by (simp_all add: bh_view_eq_iff)
  moreover have "ndim a = ndim b" using eq assms by (metis length_view_dims)
  moreover have "take (ndim a) (shape a) = map fst (view_dims a)" "take (ndim b) (shape b) = map fst (view_dims b)"
    using assms by (simp_all add: map_fst_view_dims)
  moreover have "take (ndim a) (stride a) = map snd (view_dims a)" "take (ndim b) (stride b) = map snd (view_dims b)"
    using assms by (simp_all add: view_dims_def wf_view_def)
  ultimately show "norm_view a = norm_view b"
    by (simp add: norm_view_def norm_entries_def)
next
  assume "norm_view a = norm_view b"
  then have "view_dims (norm_view a) = view_dims (norm_view b)" "base (norm_view a) = base (norm_view b)"
    "start (norm_view a) = start (norm_view b)" by simp_all
  then show "bh_view_eq a b" using assms by (simp add: bh_view_eq_iff)
qed

lemma less_loop_take:
  assumes "length xs = BH_MAXDIM" and "length ys = BH_MAXDIM" and "i + k \<le> BH_MAXDIM"
  shows "(less_loop k i xs ys = Some True \<longleftrightarrow> take k (drop i xs) @ zs < take k (drop i ys) @ zs) \<and>
    (less_loop k i xs ys = None \<longleftrightarrow> take k (drop i xs) = take k (drop i ys))"
  using assms(3)
proof (induction k arbitrary: i)
  case (Suc k)
  have "take (Suc k) (drop i xs) = xs ! i # take k (drop (Suc i) xs)"
    "take (Suc k) (drop i ys) = ys ! i # take k (drop (Suc i) ys)"
    using Suc.prems assms by (simp_all flip: Cons_nth_drop_Suc)
  then show ?case using Suc.IH [of "Suc i"] Suc.prems by auto
qed simp

lemma bh_view_less_norm:
  assumes "wf_view a" and "wf_view b"
  shows "bh_view_less a b \<longleftrightarrow> norm_view a < norm_view b"
proof (cases "base a = base b \<and> start a = start b \<and> ndim a = ndim b")
  case True
  have "(less_loop (ndim a) 0 (shape a) (shape b) = Some True \<longleftrightarrow> norm_entries (ndim a) (shape a) < norm_entries (ndim b) (shape b)) \<and>
    (less_loop (ndim a) 0 (shape a) (shape b) = None \<longleftrightarrow> norm_entries (ndim a) (shape a) = norm_entries (ndim b) (shape b))"
    using less_loop_take [of "shape a" "shape b" 0 "ndim a"] assms True by (simp add: norm_entries_def wf_view_def)
  moreover have "(less_loop (ndim a) 0 (stride a) (stride b) = Some True \<longleftrightarrow> norm_entries (ndim a) (stride a) < norm_entries (ndim b) (stride b)) \<and>
    (less_loop (ndim a) 0 (stride a) (stride b) = None \<longleftrightarrow> norm_entries (ndim a) (stride a) = norm_entries (ndim b) (stride b))"
    using less_loop_take [of "stride a" "stride b" 0 "ndim a"] assms True by (simp add: norm_entries_def wf_view_def)
  ultimately show ?thesis
    using True by (auto simp: bh_view_less_def less_bh_view_ext_def view_key_def norm_view_def split: option.splits)
next
  case False
  then show ?thesis
    by (auto simp: bh_view_less_def less_bh_view_ext_def view_key_def norm_view_def)
qed

end
