(* ===== verification/Bh_Ir.thy ===== *)
theory Bh_Ir
  imports Bh_Fuse Bh_ViewOrder Bh_SeqSet
begin

text \<open>
  Kernels of the internal representation: \<^verbatim>\<open>bh_ir\<close> and \<^verbatim>\<open>bh_ir_kernel\<close> of \<^verbatim>\<open>include/bh_ir.h\<close> and
  \<^verbatim>\<open>core/bh_ir.cpp\<close>.

  The program a kernel belongs to (\<^verbatim>\<open>bhir->instr_list\<close>) is the argument \<open>prog\<close>. The sets of the
  library are HOL sets; containers of views hold normal forms (theory \<open>Bh_ViewOrder\<close>); a multimap is
  the list of its entries. \<open>None\<close> is an index outside the program or a failing assertion. The
  assertions of \<^verbatim>\<open>dependency\<close> and its early return depend on \<^verbatim>\<open>NDEBUG\<close>, which is the argument
  \<open>ndebug\<close>; the selected fuse model is the argument \<open>fm\<close>, the element type of each base array the
  argument \<open>ty\<close>. Costs are \<^verbatim>\<open>uint64_t\<close>.
\<close>

subsection \<open>Data\<close>

record bh_ir_kernel =
  temps :: "ptr set"
  frees :: "ptr set"
  discards :: "ptr set"
  syncs :: "ptr set"
  views :: "bh_view seqset"
  parameters :: "ptr seqset"
  output_map :: "(ptr \<times> bh_view) list"
  output_set :: "bh_view set"
  input_map :: "(ptr \<times> bh_view) list"
  input_set :: "bh_view set"
  input_shape :: "bh_index list"
  output_shape :: "bh_index list"
  scalar :: bool
  sweeps :: "(int, int) omap"
  constants :: "bh_constant list"
  instr_indexes :: "nat list"

type_synonym program = "bh_instruction list"

definition bh_ir_kernel_new :: bh_ir_kernel where
  "bh_ir_kernel_new = \<lparr>temps = {}, frees = {}, discards = {}, syncs = {}, views = ss_new, parameters = ss_new,
     output_map = [], output_set = {}, input_map = [], input_set = {}, input_shape = [], output_shape = [],
     scalar = False, sweeps = [], constants = [], instr_indexes = []\<rparr>"

text \<open>\<^verbatim>\<open>clear\<close> leaves \<^verbatim>\<open>sweeps\<close> and \<^verbatim>\<open>constants\<close> as they are.\<close>

definition kernel_clear :: "bh_ir_kernel \<Rightarrow> bh_ir_kernel" where
  "kernel_clear k = k\<lparr>instr_indexes := [], input_set := {}, output_set := {}, input_map := [], output_map := [],
     temps := {}, views := ss_clear (views k), syncs := {}, frees := {}, discards := {},
     parameters := ss_clear (parameters k), input_shape := [], output_shape := [], scalar := False\<rparr>"

definition get_view_id :: "bh_view \<Rightarrow> bh_ir_kernel \<Rightarrow> nat option" where
  "get_view_id v k = ss_id (norm_view (bh_view_simplify v)) (views k)"

fun used_by_opcode_loop :: "program \<Rightarrow> nat list \<Rightarrow> ptr \<Rightarrow> bh_opcode \<Rightarrow> bool" where
  "used_by_opcode_loop prog [] b op = False"
| "used_by_opcode_loop prog (i # is) b op =
     (if opcode (prog ! i) = op \<and> base (operand (prog ! i) ! 0) = b then True
      else used_by_opcode_loop prog is b op)"

definition is_base_used_by_opcode :: "program \<Rightarrow> bh_ir_kernel \<Rightarrow> ptr \<Rightarrow> bh_opcode \<Rightarrow> bool" where
  "is_base_used_by_opcode prog k b op = used_by_opcode_loop prog (instr_indexes k) b op"

definition is_output_base :: "ptr \<Rightarrow> bh_ir_kernel \<Rightarrow> bool" where
  "is_output_base b k = (\<exists>e \<in> set (output_map k). fst e = b)"

definition is_output_view :: "bh_view \<Rightarrow> bh_ir_kernel \<Rightarrow> bool" where
  "is_output_view v k = (norm_view v \<in> output_set k)"

definition is_input_view :: "bh_view \<Rightarrow> bh_ir_kernel \<Rightarrow> bool" where
  "is_input_view v k = (norm_view v \<in> input_set k)"

subsection \<open>Adding an instruction\<close>

definition add_sync :: "bh_instruction \<Rightarrow> bh_ir_kernel \<Rightarrow> bh_ir_kernel" where
  "add_sync instr k = k\<lparr>syncs := insert (base (operand instr ! 0)) (syncs k)\<rparr>"

definition add_discard :: "bh_instruction \<Rightarrow> bh_ir_kernel \<Rightarrow> bh_ir_kernel" where
  "add_discard instr k =
     (let b = base (operand instr ! 0) in
      if b \<notin> syncs k then
        (let temp = is_output_base b k;
             k = k\<lparr>output_set := output_set k - set (map snd (filter (\<lambda>e. fst e = b) (output_map k))),
                   output_map := filter (\<lambda>e. fst e \<noteq> b) (output_map k)\<rparr>
         in if temp \<and> \<not> (\<exists>e \<in> set (input_map k). fst e = b) then
              k\<lparr>temps := insert b (temps k), frees := frees k - {b}, parameters := snd (ss_erase b (parameters k))\<rparr>
            else k\<lparr>discards := insert b (discards k)\<rparr>)
      else k\<lparr>discards := insert b (discards k)\<rparr>)"

definition add_free :: "bh_instruction \<Rightarrow> bh_ir_kernel \<Rightarrow> bh_ir_kernel" where
  "add_free instr k =
     (let b = base (operand instr ! 0) in
      if b \<notin> temps k then k\<lparr>frees := insert b (frees k)\<rparr> else k)"

text \<open>\<^verbatim>\<open>if (v.ndim > input_shape.size()) input_shape = vector(v.shape, v.shape+v.ndim)\<close>\<close>

definition grow_input_shape :: "bh_view \<Rightarrow> bh_ir_kernel \<Rightarrow> bh_ir_kernel" where
  "grow_input_shape v k =
     (if length (input_shape k) < ndim v then k\<lparr>input_shape := take (ndim v) (shape v)\<rparr> else k)"

definition add_input :: "bool \<Rightarrow> bh_instruction \<Rightarrow> nat \<Rightarrow> bh_ir_kernel \<Rightarrow> bh_ir_kernel" where
  "add_input sweep instr i k =
     (let v = operand instr ! i in
      if bh_is_constant v then
        (if \<not> sweep then k\<lparr>constants := constants k @ [inst_constant instr]\<rparr> else k)
      else
        (let (vid, vs) = ss_insert (norm_view (bh_view_simplify v)) (views k);
             k = k\<lparr>views := vs\<rparr>;
             k = (if snd vid then
                    k\<lparr>input_map := input_map k @ [(base v, norm_view v)],
                      input_set := insert (norm_view v) (input_set k),
                      parameters := snd (ss_insert (base v) (parameters k))\<rparr>
                  else k)
         in grow_input_shape v k))"

definition add_output :: "bh_instruction \<Rightarrow> bh_ir_kernel \<Rightarrow> bh_ir_kernel option" where
  "add_output instr k =
     (let v = operand instr ! 0;
          sv = bh_view_simplify v;
          k = k\<lparr>views := snd (ss_insert (norm_view sv) (views k)),
                output_map := output_map k @ [(base v, norm_view v)],
                output_set := insert (norm_view v) (output_set k),
                parameters := snd (ss_insert (base v) (parameters k))\<rparr>;
          k = (if ndim v < length (output_shape k) \<or> output_shape k = [] then
                 k\<lparr>output_shape := take (ndim v) (shape v)\<rparr> else k)
      in do { s \<leftarrow> bh_is_scalar v;
              Some (grow_input_shape v
                (k\<lparr>scalar := scalar k \<or> s \<or> bh_opcode_is_accumulate (opcode instr) \<and> ndim sv = 1\<rparr>)) })"

definition add_default :: "bh_instruction \<Rightarrow> bh_ir_kernel \<Rightarrow> bh_ir_kernel option" where
  "add_default instr k =
     (let sweep = is_sweep (opcode instr);
          k = fold (add_input sweep instr) [1..<bh_operands (opcode instr)] k
      in do { k \<leftarrow> add_output instr k;
              Some (if sweep then
                      k\<lparr>sweeps := omap_set (int (ndim (operand instr ! 1))) (constant_int64 (inst_constant instr)) (sweeps k)\<rparr>
                    else k) })"

definition add_instr :: "program \<Rightarrow> nat \<Rightarrow> bh_ir_kernel \<Rightarrow> bh_ir_kernel option" where
  "add_instr prog instr_idx k =
     (if length prog \<le> instr_idx then None
      else
        (let instr = prog ! instr_idx in
         do { k \<leftarrow> (if opcode instr = BH_NONE then Some k
                   else if opcode instr = BH_SYNC then Some (add_sync instr k)
                   else if opcode instr = BH_DISCARD then Some (add_discard instr k)
                   else if opcode instr = BH_FREE then Some (add_free instr k)
                   else add_default instr k);
              Some (k\<lparr>instr_indexes := instr_indexes k @ [instr_idx]\<rparr>) }))"

fun add_instrs :: "program \<Rightarrow> nat list \<Rightarrow> bh_ir_kernel \<Rightarrow> bh_ir_kernel option" where
  "add_instrs prog [] k = Some k"
| "add_instrs prog (i # is) k = do { k \<leftarrow> add_instr prog i k; add_instrs prog is k }"

subsection \<open>Questions about kernels\<close>

fun only_system_loop :: "program \<Rightarrow> nat list \<Rightarrow> bool" where
  "only_system_loop prog [] = True"
| "only_system_loop prog (i # is) =
     (if \<not> bh_opcode_is_system (opcode (prog ! i)) then False else only_system_loop prog is)"

definition only_system_opcodes :: "program \<Rightarrow> bh_ir_kernel \<Rightarrow> bool" where
  "only_system_opcodes prog k = only_system_loop prog (instr_indexes k)"

fun noop_loop :: "program \<Rightarrow> nat list \<Rightarrow> bool" where
  "noop_loop prog [] = True"
| "noop_loop prog (i # is) = (if opcode (prog ! i) \<noteq> BH_NONE then False else noop_loop prog is)"

definition is_noop :: "program \<Rightarrow> bh_ir_kernel \<Rightarrow> bool" where
  "is_noop prog k = noop_loop prog (instr_indexes k)"

text \<open>The instruction is checked against the listed ones, up to the first that does not fit.\<close>

fun fusible_loop :: "FuseModel \<Rightarrow> program \<Rightarrow> bh_instruction \<Rightarrow> nat list \<Rightarrow> bool option" where
  "fusible_loop fm prog instr [] = Some True"
| "fusible_loop fm prog instr (i # is) =
     do { r \<leftarrow> fusible_by fm instr (prog ! i); if \<not> r then Some False else fusible_loop fm prog instr is }"

fun fusible_self_loop :: "FuseModel \<Rightarrow> program \<Rightarrow> nat list \<Rightarrow> bool option" where
  "fusible_self_loop fm prog [] = Some True"
| "fusible_self_loop fm prog (i # is) =
     do { r \<leftarrow> fusible_loop fm prog (prog ! i) is; if \<not> r then Some False else fusible_self_loop fm prog is }"

definition fusible_self :: "FuseModel \<Rightarrow> program \<Rightarrow> bh_ir_kernel \<Rightarrow> bool option" where
  "fusible_self fm prog k = fusible_self_loop fm prog (instr_indexes k)"

definition fusible_instr :: "FuseModel \<Rightarrow> program \<Rightarrow> bh_ir_kernel \<Rightarrow> nat \<Rightarrow> bool option" where
  "fusible_instr fm prog k instr_idx = fusible_loop fm prog (prog ! instr_idx) (instr_indexes k)"

fun fusible_kernel_loop :: "FuseModel \<Rightarrow> program \<Rightarrow> nat list \<Rightarrow> nat list \<Rightarrow> bool option" where
  "fusible_kernel_loop fm prog [] js = Some True"
| "fusible_kernel_loop fm prog (i # is) js =
     do { r \<leftarrow> fusible_loop fm prog (prog ! i) js; if \<not> r then Some False else fusible_kernel_loop fm prog is js }"

definition fusible_kernel :: "FuseModel \<Rightarrow> program \<Rightarrow> bh_ir_kernel \<Rightarrow> bh_ir_kernel \<Rightarrow> bool option" where
  "fusible_kernel fm prog k other = fusible_kernel_loop fm prog (instr_indexes k) (instr_indexes other)"

definition input_and_output_subset_of :: "bh_ir_kernel \<Rightarrow> bh_ir_kernel \<Rightarrow> bool" where
  "input_and_output_subset_of k other =
     (if card (input_set other) < card (input_set k) then False
      else if card (output_set other) < card (output_set k) then False
      else input_set k \<subseteq> input_set other \<and> output_set k \<subseteq> output_set other)"

abbreviation instr_dep :: "program \<Rightarrow> nat \<Rightarrow> nat \<Rightarrow> bool" where
  "instr_dep prog i j \<equiv> bh_instr_dependency bh_operands (prog ! i) (prog ! j)"

fun dependency_loop :: "bool \<Rightarrow> program \<Rightarrow> nat \<Rightarrow> nat list \<Rightarrow> int \<Rightarrow> int option" where
  "dependency_loop ndebug prog instr_idx [] ret = Some ret"
| "dependency_loop ndebug prog instr_idx (this_idx # is) ret =
     (if instr_dep prog instr_idx this_idx then
        (if instr_idx \<le> this_idx then
           (if ndebug then Some 1
            else if ret = 0 \<or> ret = 1 then dependency_loop ndebug prog instr_idx is 1
            else None)
         else
           (if ndebug then Some (- 1)
            else if ret = 0 \<or> ret = - 1 then dependency_loop ndebug prog instr_idx is (- 1)
            else None))
      else dependency_loop ndebug prog instr_idx is ret)"

definition dependency_instr :: "bool \<Rightarrow> program \<Rightarrow> bh_ir_kernel \<Rightarrow> nat \<Rightarrow> int option" where
  "dependency_instr ndebug prog k instr_idx = dependency_loop ndebug prog instr_idx (instr_indexes k) 0"

fun dependency_kernel_loop :: "bool \<Rightarrow> program \<Rightarrow> bh_ir_kernel \<Rightarrow> nat list \<Rightarrow> int \<Rightarrow> int option" where
  "dependency_kernel_loop ndebug prog k [] ret = Some ret"
| "dependency_kernel_loop ndebug prog k (other_idx # is) ret =
     do { dep \<leftarrow> dependency_instr ndebug prog k other_idx;
          if dep \<noteq> 0 then
            (if ndebug \<or> ret = 0 \<or> ret = dep then dependency_kernel_loop ndebug prog k is dep else None)
          else dependency_kernel_loop ndebug prog k is ret }"

definition dependency :: "bool \<Rightarrow> program \<Rightarrow> bh_ir_kernel \<Rightarrow> bh_ir_kernel \<Rightarrow> int option" where
  "dependency ndebug prog k other = dependency_kernel_loop ndebug prog k (instr_indexes other) 0"

subsection \<open>Cost\<close>

definition cost_of_view :: "(ptr \<Rightarrow> bh_type) \<Rightarrow> bh_view \<Rightarrow> 64 word" where
  "cost_of_view ty v = word_of_int (bh_nelements_nbcast v * bh_type_size (ty (base v)))"

definition kernel_cost :: "(ptr \<Rightarrow> bh_type) \<Rightarrow> bh_ir_kernel \<Rightarrow> 64 word" where
  "kernel_cost ty k = (\<Sum>v \<in> input_set k. cost_of_view ty v) + (\<Sum>v \<in> output_set k. cost_of_view ty v)"

definition bh_ir_cost :: "(ptr \<Rightarrow> bh_type) \<Rightarrow> bh_ir_kernel list \<Rightarrow> 64 word" where
  "bh_ir_cost ty kernel_list = sum_list (map (kernel_cost ty) kernel_list)"

definition price_drop :: "(ptr \<Rightarrow> bh_type) \<Rightarrow> program \<Rightarrow> bh_ir_kernel \<Rightarrow> bh_ir_kernel \<Rightarrow> 64 word" where
  "price_drop ty prog a b =
     (\<Sum>i \<in> input_set a. (\<Sum>o' \<in> output_set b. if bh_view_aligned i o' then cost_of_view ty i else 0) +
                        (\<Sum>o' \<in> input_set b. if bh_view_aligned i o' then cost_of_view ty i else 0)) +
     (\<Sum>o' \<in> output_set b. if used_by_opcode_loop prog (instr_indexes a) (base o') BH_DISCARD then cost_of_view ty o' else 0)"

text \<open>\<open>same\<close> is the comparison of the two addresses.\<close>

definition merge_cost_savings :: "bool \<Rightarrow> FuseModel \<Rightarrow> (ptr \<Rightarrow> bh_type) \<Rightarrow> program \<Rightarrow> bool \<Rightarrow> bh_ir_kernel \<Rightarrow> bh_ir_kernel \<Rightarrow> int option" where
  "merge_cost_savings ndebug fm ty prog same k other =
     (if same then Some 0
      else do { f \<leftarrow> fusible_kernel fm prog k other;
                if \<not> f then Some (- 1)
                else do { d \<leftarrow> dependency ndebug prog k other;
                          Some (sint (if d = 1 then price_drop ty prog k other else price_drop ty prog other k)) } })"

text \<open>\<^verbatim>\<open>bh_ir(const bh_instruction&)\<close>: the program and its kernel list.\<close>

definition bh_ir_single :: "bh_instruction \<Rightarrow> (program \<times> bh_ir_kernel list) option" where
  "bh_ir_single instr = do { k \<leftarrow> add_instr [instr] 0 bh_ir_kernel_new; Some ([instr], [k]) }"

subsection \<open>The invariant of a kernel\<close>

definition kernel_inv :: "bh_ir_kernel \<Rightarrow> bool" where
  "kernel_inv k \<longleftrightarrow> input_set k = snd ` set (input_map k) \<and> (\<forall>e \<in> set (input_map k). fst e = base (snd e)) \<and>
     output_set k = snd ` set (output_map k) \<and> (\<forall>e \<in> set (output_map k). fst e = base (snd e)) \<and>
     ss_inv (views k) \<and> ss_inv (parameters k) \<and> temps k \<inter> frees k = {} \<and>
     ss_set (parameters k) = base ` (input_set k \<union> output_set k)"

lemma ss_set_insert [simp]: "ss_set (snd (ss_insert v s)) = insert v (ss_set s)"
proof (cases "omap_find (ss_map s) v")
  case (Some i)
  have "omap_find m v = Some i \<Longrightarrow> v \<in> fst ` set m" for m :: "('a, nat) omap"
    by (induction m v rule: omap_find.induct) (auto split: if_splits)
  then show ?thesis using Some by (auto simp: ss_insert_def ss_set_def)
qed (simp add: ss_insert_def ss_set_def Let_def keys_omap_set)

lemma omap_find_keys: "omap_find m k = None \<longleftrightarrow> k \<notin> fst ` set m"
  by (induction m k rule: omap_find.induct) auto

lemma ss_set_find: "ss_inv s \<Longrightarrow> ss_set s = {v. omap_find (ss_map s) v \<noteq> None}"
  by (auto simp: ss_set_def omap_find_keys)

lemma ss_set_erase [simp]:
  assumes "ss_inv s"
  shows "ss_set (snd (ss_erase v s)) = ss_set s - {v}"
proof -
  have "omap_inv (ss_map s)" using assms by (simp add: ss_inv_def)
  then show ?thesis
    using ss_set_find [OF assms] ss_set_find [OF ss_inv_erase [OF assms, of v]]
    by (auto simp: ss_erase_def omap_find_erase split: option.splits if_splits)
qed

lemma ss_set_new [simp]: "ss_set ss_new = {}"
  by (simp add: ss_set_def ss_new_def)

lemmas add_defs = add_sync_def add_discard_def add_free_def add_input_def add_output_def grow_input_shape_def Let_def

lemma kernel_inv_new [bh_inv]: "kernel_inv bh_ir_kernel_new"
  by (simp add: kernel_inv_def bh_ir_kernel_new_def ss_inv_new)

lemma kernel_inv_sync [bh_inv]: "kernel_inv k \<Longrightarrow> kernel_inv (add_sync i k)"
  by (simp add: kernel_inv_def add_sync_def)

lemma kernel_inv_free [bh_inv]: "kernel_inv k \<Longrightarrow> kernel_inv (add_free i k)"
  by (simp add: kernel_inv_def add_free_def Let_def)

lemma kernel_inv_grow [bh_inv]: "kernel_inv k \<Longrightarrow> kernel_inv (grow_input_shape v k)"
  by (simp add: kernel_inv_def grow_input_shape_def)

lemma kernel_inv_input [bh_inv]:
  assumes "kernel_inv k"
  shows "kernel_inv (add_input sw i t k)"
proof -
  obtain vid vs where ins: "ss_insert (norm_view (bh_view_simplify (operand i ! t))) (views k) = (vid, vs)"
    by (cases "ss_insert (norm_view (bh_view_simplify (operand i ! t))) (views k)")
  have "ss_inv vs" using ss_inv_insert [of "views k" "norm_view (bh_view_simplify (operand i ! t))"] assms ins
    by (simp add: kernel_inv_def)
  then have "kernel_inv (let k = k\<lparr>views := vs\<rparr> in
      if snd vid then k\<lparr>input_map := input_map k @ [(base (operand i ! t), norm_view (operand i ! t))],
        input_set := insert (norm_view (operand i ! t)) (input_set k),
        parameters := snd (ss_insert (base (operand i ! t)) (parameters k))\<rparr> else k)"
    using assms by (auto simp: kernel_inv_def Let_def ss_inv_insert)
  moreover have "kernel_inv (k\<lparr>constants := constants k @ [inst_constant i]\<rparr>)"
    using assms by (simp add: kernel_inv_def)
  ultimately show ?thesis
    using assms kernel_inv_grow by (simp add: add_input_def Let_def ins)
qed

lemma kernel_inv_store:
  assumes "kernel_inv k" and "ss_inv vs"
  shows "kernel_inv (k\<lparr>views := vs, output_map := output_map k @ [(base v, norm_view v)],
    output_set := insert (norm_view v) (output_set k), parameters := snd (ss_insert (base v) (parameters k))\<rparr>)"
  using assms by (auto simp: kernel_inv_def ss_inv_insert)

lemma kernel_inv_shape: "kernel_inv (k\<lparr>output_shape := sh\<rparr>) = kernel_inv k"
  "kernel_inv (k\<lparr>scalar := sc\<rparr>) = kernel_inv k" "kernel_inv (k\<lparr>sweeps := sw\<rparr>) = kernel_inv k"
  "kernel_inv (k\<lparr>instr_indexes := is\<rparr>) = kernel_inv k" "kernel_inv (k\<lparr>discards := ds\<rparr>) = kernel_inv k"
  by (simp_all add: kernel_inv_def)

lemma kernel_inv_output [bh_inv]:
  assumes "kernel_inv k" and "add_output i k = Some k'"
  shows "kernel_inv k'"
proof -
  let ?v = "operand i ! 0"
  let ?k = "k\<lparr>views := snd (ss_insert (norm_view (bh_view_simplify ?v)) (views k)), output_map := output_map k @ [(base ?v, norm_view ?v)],
    output_set := insert (norm_view ?v) (output_set k), parameters := snd (ss_insert (base ?v) (parameters k))\<rparr>"
  have "kernel_inv ?k" using assms(1) by (intro kernel_inv_store ss_inv_insert) (simp_all add: kernel_inv_def)
  then show ?thesis
    using assms(2) by (auto simp only: add_output_def Let_def bind_eq_Some_conv option.inject kernel_inv_shape
        intro!: kernel_inv_grow split: if_splits)
qed

lemma kernel_inv_discard [bh_inv]:
  assumes "kernel_inv k"
  shows "kernel_inv (add_discard i k)"
proof (cases "base (operand i ! 0) \<in> syncs k")
  case True
  then show ?thesis using assms by (simp add: add_discard_def kernel_inv_shape)
next
  case False
  let ?b = "base (operand i ! 0)"
  let ?k = "k\<lparr>output_set := output_set k - set (map snd (filter (\<lambda>e. fst e = ?b) (output_map k))),
    output_map := filter (\<lambda>e. fst e \<noteq> ?b) (output_map k)\<rparr>"
  have im: "fst e = base (snd e)" if "e \<in> set (input_map k)" for e using assms that by (simp add: kernel_inv_def)
  have om: "fst e = base (snd e)" if "e \<in> set (output_map k)" for e using assms that by (simp add: kernel_inv_def)
  have sets: "input_set k = snd ` set (input_map k)" "output_set k = snd ` set (output_map k)"
    "ss_set (parameters k) = base ` input_set k \<union> base ` output_set k" "ss_inv (parameters k)" "ss_inv (views k)"
    "temps k \<inter> frees k = {}"
    using assms by (auto simp: kernel_inv_def)
  have bases: "base ` input_set k = fst ` set (input_map k)" "base ` output_set k = fst ` set (output_map k)"
    unfolding sets image_image using im om by (auto intro!: image_cong)
  have out: "output_set ?k = snd ` set (output_map ?k)"
    using om by (auto simp: sets image_iff) (metis prod.collapse)
  have bo: "base ` output_set ?k = base ` output_set k - {?b}"
    unfolding out image_image bases using om by (auto simp: image_iff)
  show ?thesis
  proof (cases "is_output_base ?b k \<and> \<not> (\<exists>e \<in> set (input_map k). fst e = ?b)")
    case True
    then have "?b \<notin> base ` input_set k" by (auto simp: bases)
    then have "ss_set (parameters k) - {?b} = base ` (input_set ?k \<union> output_set ?k)"
      using sets(3) bo by (simp only: image_Un) auto
    moreover have "insert ?b (temps k) \<inter> (frees k - {?b}) = {}" using sets(6) by auto
    ultimately have "kernel_inv (?k\<lparr>temps := insert ?b (temps k), frees := frees k - {?b}, parameters := snd (ss_erase ?b (parameters k))\<rparr>)"
      using sets(1,4,5) im om out unfolding kernel_inv_def by (simp add: ss_inv_erase)
    then show ?thesis using True False by (simp add: add_discard_def Let_def)
  next
    case nt: False
    then have "?b \<in> base ` input_set k \<or> ?b \<notin> base ` output_set k"
      unfolding bases is_output_base_def by (auto intro: rev_image_eqI)
    then have "kernel_inv ?k"
      using sets im om out bo unfolding kernel_inv_def by (simp add: image_Un) blast
    then show ?thesis using nt False by (simp add: add_discard_def Let_def kernel_inv_shape) blast
  qed
qed

lemma kernel_inv_default [bh_inv]:
  assumes "kernel_inv k" and "add_default i k = Some k'"
  shows "kernel_inv k'"
proof -
  have "kernel_inv (fold (add_input sw i) ts k)" for sw ts
    using assms(1) by (induction ts arbitrary: k) (simp_all add: kernel_inv_input)
  then show ?thesis using assms(2) kernel_inv_output
    by (fastforce simp: add_default_def Let_def bind_eq_Some_conv kernel_inv_shape split: if_splits)
qed

lemma kernel_inv_add [bh_inv]: "kernel_inv k \<Longrightarrow> add_instr prog i k = Some k' \<Longrightarrow> kernel_inv k'"
  by (auto simp: add_instr_def Let_def bind_eq_Some_conv kernel_inv_shape intro: bh_inv split: if_splits)

lemma add_instr_indexes:
  assumes "add_instr prog i k = Some k'"
  shows "instr_indexes k' = instr_indexes k @ [i]"
proof -
  have inp: "instr_indexes (fold (add_input sw ins) ts k) = instr_indexes k" for sw ins ts k
    by (induction ts arbitrary: k) (auto simp: add_input_def grow_input_shape_def Let_def split: prod.splits)
  have "instr_indexes k'' = instr_indexes k" if "add_default ins k = Some k''" for ins k''
    using that by (auto simp: add_default_def add_output_def grow_input_shape_def Let_def bind_eq_Some_conv inp)
  then show ?thesis
    using assms by (auto simp: add_instr_def Let_def bind_eq_Some_conv add_sync_def add_discard_def add_free_def split: if_splits)
qed

lemma add_instr_total:
  assumes "i < length prog" and "0 < ndim (operand (prog ! i) ! 0)"
  shows "\<exists>k'. add_instr prog i k = Some k'"
proof -
  have "\<exists>k'. add_default (prog ! i) k = Some k'"
    using assms(2) by (simp add: add_default_def add_output_def Let_def bh_is_scalar_def bh_nelements_view_def bh_nelements_def)
  then show ?thesis using assms(1) by (auto simp: add_instr_def Let_def)
qed

subsection \<open>Temporary arrays\<close>

text \<open>The base arrays an instruction works on.\<close>

definition instr_bases :: "bh_instruction \<Rightarrow> ptr set" where
  "instr_bases i = {base (operand i ! t) | t. t < bh_operands (opcode i) \<and> (t = 0 \<or> \<not> bh_is_constant (operand i ! t))}"

text \<open>After an array is discarded, the kernel does nothing with it but free it.\<close>

fun discard_last :: "program \<Rightarrow> nat list \<Rightarrow> bool" where
  "discard_last prog [] = True"
| "discard_last prog (i # is) =
     ((opcode (prog ! i) = BH_DISCARD \<longrightarrow>
         (\<forall>j \<in> set is. opcode (prog ! j) = BH_FREE \<or> base (operand (prog ! i) ! 0) \<notin> instr_bases (prog ! j))) \<and>
      discard_last prog is)"

definition temps_internal :: "bh_ir_kernel \<Rightarrow> bool" where
  "temps_internal k \<longleftrightarrow> temps k \<inter> (ss_set (parameters k) \<union> discards k \<union> syncs k \<union> frees k) = {}"

lemma temps_add_input:
  "temps (add_input sw i t k) = temps k \<and> discards (add_input sw i t k) = discards k \<and>
   syncs (add_input sw i t k) = syncs k \<and> frees (add_input sw i t k) = frees k \<and>
   ss_set (parameters (add_input sw i t k)) \<subseteq> ss_set (parameters k) \<union> (if bh_is_constant (operand i ! t) then {} else {base (operand i ! t)})"
  by (auto simp: add_input_def grow_input_shape_def Let_def split: prod.splits)

lemma temps_add_inputs:
  "temps (fold (add_input sw i) ts k) = temps k \<and> discards (fold (add_input sw i) ts k) = discards k \<and>
   syncs (fold (add_input sw i) ts k) = syncs k \<and> frees (fold (add_input sw i) ts k) = frees k \<and>
   ss_set (parameters (fold (add_input sw i) ts k)) \<subseteq>
     ss_set (parameters k) \<union> {base (operand i ! t) | t. t \<in> set ts \<and> \<not> bh_is_constant (operand i ! t)}"
proof (induction ts arbitrary: k)
  case (Cons t ts)
  show ?case
    using Cons.IH [of "add_input sw i t k"] temps_add_input [of sw i t k]
    unfolding fold_Cons comp_apply list.set(2) by (simp split: if_splits) blast+
qed simp

lemma kernel_if:
  "temps (if c then k1 else k2) = (if c then temps k1 else temps k2)"
  "discards (if c then k1 else k2) = (if c then discards k1 else discards k2)"
  "syncs (if c then k1 else k2) = (if c then syncs k1 else syncs k2)"
  "frees (if c then k1 else k2) = (if c then frees k1 else frees k2)"
  "parameters (if c then k1 else k2) = (if c then parameters k1 else parameters k2)"
  by simp_all

lemma grow_sel [simp]: "temps (grow_input_shape v k) = temps k" "discards (grow_input_shape v k) = discards k"
  "syncs (grow_input_shape v k) = syncs k" "frees (grow_input_shape v k) = frees k" "parameters (grow_input_shape v k) = parameters k"
  by (simp_all add: grow_input_shape_def)

lemma temps_add_output:
  assumes "add_output i k = Some k'"
  shows "temps k' = temps k \<and> discards k' = discards k \<and> syncs k' = syncs k \<and> frees k' = frees k \<and>
    ss_set (parameters k') = insert (base (operand i ! 0)) (ss_set (parameters k))"
proof -
  let ?v = "operand i ! 0"
  let ?k = "k\<lparr>views := snd (ss_insert (norm_view (bh_view_simplify ?v)) (views k)), output_map := output_map k @ [(base ?v, norm_view ?v)],
    output_set := insert (norm_view ?v) (output_set k), parameters := snd (ss_insert (base ?v) (parameters k))\<rparr>"
  obtain s where "k' = grow_input_shape ?v (let k = (if ndim ?v < length (output_shape ?k) \<or> output_shape ?k = [] then
      ?k\<lparr>output_shape := take (ndim ?v) (shape ?v)\<rparr> else ?k) in k\<lparr>scalar := s\<rparr>)"
    using assms unfolding add_output_def Let_def bind_eq_Some_conv by blast
  then show ?thesis by (simp add: Let_def kernel_if)
qed

lemma temps_add_default:
  assumes "add_default i k = Some k'" and "\<not> bh_opcode_is_system (opcode i)"
  shows "temps k' = temps k \<and> discards k' = discards k \<and> syncs k' = syncs k \<and> frees k' = frees k \<and>
    ss_set (parameters k') \<subseteq> ss_set (parameters k) \<union> instr_bases i"
proof -
  let ?k = "fold (add_input (is_sweep (opcode i)) i) [1..<bh_operands (opcode i)] k"
  have out: "temps k' = temps ?k \<and> discards k' = discards ?k \<and> syncs k' = syncs ?k \<and> frees k' = frees ?k \<and>
      ss_set (parameters k') = insert (base (operand i ! 0)) (ss_set (parameters ?k))"
  proof -
    obtain y where y: "add_output i ?k = Some y" "k' = (if is_sweep (opcode i) then y\<lparr>sweeps := omap_set (int (ndim (operand i ! 1)))
        (constant_int64 (inst_constant i)) (sweeps y)\<rparr> else y)"
      using assms(1) unfolding add_default_def Let_def bind_eq_Some_conv by auto
    show ?thesis using temps_add_output [OF y(1)] y(2) by simp
  qed
  moreover have own: "base (operand i ! 0) \<in> instr_bases i"
    using nonsystem_operands [OF assms(2)] by (auto simp: instr_bases_def)
  moreover have others: "{base (operand i ! t) | t. t \<in> set [1..<bh_operands (opcode i)] \<and> \<not> bh_is_constant (operand i ! t)} \<subseteq> instr_bases i"
    by (auto simp: instr_bases_def)
  moreover note ins = temps_add_inputs [of "is_sweep (opcode i)" i "[1..<bh_operands (opcode i)]" k]
  ultimately have "temps k' = temps k \<and> discards k' = discards k \<and> syncs k' = syncs k \<and> frees k' = frees k"
    by simp
  moreover have "X = insert b B \<Longrightarrow> B \<subseteq> P \<union> C \<Longrightarrow> C \<subseteq> I \<Longrightarrow> b \<in> I \<Longrightarrow> X \<subseteq> P \<union> I" for X B P C I :: "ptr set" and b
    by blast
  ultimately show ?thesis using out ins own others by meson
qed

lemma system_opcodes: "bh_opcode_is_system op \<longleftrightarrow> op \<in> {BH_NONE, BH_SYNC, BH_DISCARD, BH_FREE}"
  by (simp add: opcode_eval)

lemma system_bases:
  "opcode i \<in> {BH_SYNC, BH_DISCARD, BH_FREE} \<Longrightarrow> instr_bases i = {base (operand i ! 0)}"
  by (auto simp: instr_bases_def opcode_eval)

lemma temps_step:
  assumes "add_instr prog i k = Some k'" and "kernel_inv k" and "temps_internal k"
    and "opcode (prog ! i) = BH_FREE \<or> (temps k \<union> discards k) \<inter> instr_bases (prog ! i) = {}"
  shows "temps_internal k'" and "temps k' \<union> discards k' \<subseteq> temps k \<union> discards k \<union> (if opcode (prog ! i) = BH_DISCARD then instr_bases (prog ! i) else {})"
proof -
  let ?i = "prog ! i"
  let ?b = "base (operand ?i ! 0)"
  consider "opcode ?i = BH_NONE" | "opcode ?i = BH_SYNC" | "opcode ?i = BH_DISCARD" | "opcode ?i = BH_FREE"
    | "\<not> bh_opcode_is_system (opcode ?i)" by (auto simp: system_opcodes)
  then have "temps_internal k' \<and> temps k' \<union> discards k' \<subseteq> temps k \<union> discards k \<union> (if opcode ?i = BH_DISCARD then instr_bases ?i else {})"
  proof cases
    case 3
    have b: "instr_bases ?i = {?b}" "?b \<notin> temps k" "?b \<notin> discards k" using 3 assms(4) system_bases [of ?i] by auto
    have fin: "ss_inv (parameters k)" using assms(2) by (simp add: kernel_inv_def)
    have k': "k' = (add_discard ?i k)\<lparr>instr_indexes := instr_indexes (add_discard ?i k) @ [i]\<rparr>"
      using assms(1) 3 by (auto simp: add_instr_def Let_def split: if_splits)
    show ?thesis using 3 b assms(3) fin
      by (auto simp: k' add_discard_def Let_def temps_internal_def)
  next
    case 5
    then have "opcode ?i \<notin> {BH_NONE, BH_SYNC, BH_DISCARD, BH_FREE}" by (simp add: system_opcodes)
    then obtain k1 where k1: "add_default ?i k = Some k1" "k' = k1\<lparr>instr_indexes := instr_indexes k1 @ [i]\<rparr>"
      using assms(1) by (auto simp: add_instr_def Let_def bind_eq_Some_conv split: if_splits)
    have "temps k \<inter> instr_bases ?i = {}" using assms(4) \<open>opcode ?i \<notin> {BH_NONE, BH_SYNC, BH_DISCARD, BH_FREE}\<close> by auto
    then show ?thesis
      using temps_add_default [OF k1(1) 5] assms(3) k1(2) by (auto simp: temps_internal_def)
  qed (use assms system_bases [of ?i] in
      \<open>auto simp: add_instr_def Let_def temps_internal_def add_sync_def add_free_def split: if_splits\<close>)
  then show "temps_internal k'" "temps k' \<union> discards k' \<subseteq> temps k \<union> discards k \<union> (if opcode ?i = BH_DISCARD then instr_bases ?i else {})"
    by auto
qed

lemma add_instrs_internal:
  assumes "add_instrs prog is k = Some k'" and "kernel_inv k" and "temps_internal k" and "discard_last prog is"
    and "\<forall>j \<in> set is. opcode (prog ! j) = BH_FREE \<or> (temps k \<union> discards k) \<inter> instr_bases (prog ! j) = {}"
  shows "kernel_inv k' \<and> temps_internal k' \<and> instr_indexes k' = instr_indexes k @ is"
  using assms
proof (induction "is" arbitrary: k)
  case (Cons i "is")
  then obtain k1 where k1: "add_instr prog i k = Some k1" "add_instrs prog is k1 = Some k'"
    by (auto simp: bind_eq_Some_conv)
  have st: "temps_internal k1" "temps k1 \<union> discards k1 \<subseteq> temps k \<union> discards k \<union> (if opcode (prog ! i) = BH_DISCARD then instr_bases (prog ! i) else {})"
    using temps_step [OF k1(1) Cons.prems(2,3)] Cons.prems(5) by auto
  have "opcode (prog ! j) = BH_FREE \<or> (temps k1 \<union> discards k1) \<inter> instr_bases (prog ! j) = {}" if j: "j \<in> set is" for j
  proof (cases "opcode (prog ! i) = BH_DISCARD")
    case True
    then have "opcode (prog ! j) = BH_FREE \<or> base (operand (prog ! i) ! 0) \<notin> instr_bases (prog ! j)"
      using Cons.prems(4) j by simp
    moreover have "temps k1 \<union> discards k1 \<subseteq> temps k \<union> discards k \<union> {base (operand (prog ! i) ! 0)}"
      using st(2) True system_bases [of "prog ! i"] by simp
    ultimately show ?thesis using Cons.prems(5) j by auto
  next
    case False
    then show ?thesis using st(2) Cons.prems(5) j by auto
  qed
  then show ?case
    using Cons.IH [OF k1(2) kernel_inv_add [OF Cons.prems(2) k1(1)] st(1)] Cons.prems(4) add_instr_indexes [OF k1(1)]
    by auto
qed simp


subsection \<open>Dependencies\<close>

text \<open>The directions in which the instructions of the first kernel depend on those of the second.\<close>

definition dep_dirs :: "program \<Rightarrow> nat list \<Rightarrow> nat list \<Rightarrow> int set" where
  "dep_dirs prog is js = {if j \<le> i then 1 else - 1 | i j. i \<in> set is \<and> j \<in> set js \<and> instr_dep prog j i}"

definition join_dirs :: "int set \<Rightarrow> int option" where
  "join_dirs D = (if D = {} then Some 0 else if D = {1} then Some 1 else if D = {- 1} then Some (- 1) else None)"

lemma dep_dirs_simps [simp]:
  "dep_dirs prog [] js = {}" "dep_dirs prog is [] = {}"
  "dep_dirs prog (i # is) [j] = (if instr_dep prog j i then {if j \<le> i then 1 else - 1} else {}) \<union> dep_dirs prog is [j]"
  "j # js \<noteq> [j] \<Longrightarrow> dep_dirs prog is (j # js) = dep_dirs prog is [j] \<union> dep_dirs prog is js"
  by (auto simp: dep_dirs_def)

lemma dep_dirs_subset: "dep_dirs prog is js \<subseteq> {1, - 1}"
  by (auto simp: dep_dirs_def)

definition dir_set :: "int \<Rightarrow> int set" where
  "dir_set r = (if r = 0 then {} else {r})"

lemma dirs_cases: "D \<subseteq> {1, - 1 :: int} \<Longrightarrow> D = {} \<or> D = {1} \<or> D = {- 1} \<or> D = {1, - 1}"
  by auto

lemma dependency_loop_debug:
  "r \<in> {0, 1, - 1} \<Longrightarrow> dependency_loop False prog j is r = join_dirs (dir_set r \<union> dep_dirs prog is [j])"
proof (induction "is" arbitrary: r)
  case Nil
  then show ?case by (auto simp: join_dirs_def dir_set_def)
next
  case (Cons i "is")
  have [simp]: "join_dirs (insert 1 (insert (- 1) X)) = None" "join_dirs (insert (- 1) (insert 1 X)) = None" for X
    by (auto simp: join_dirs_def)
  show ?case using Cons by (auto simp: dir_set_def insert_commute)
qed

lemma dependency_loop_release:
  assumes "dep_dirs prog is [j] \<subseteq> {d}"
  shows "dependency_loop True prog j is 0 = Some (if dep_dirs prog is [j] = {} then 0 else d)"
  using assms by (induction "is") (auto split: if_splits)

lemma join_dirs_Some: "D \<subseteq> {1, - 1} \<Longrightarrow> join_dirs D = Some d \<longleftrightarrow> d \<in> {0, 1, - 1} \<and> D = dir_set d"
  using dirs_cases [of D] by (auto simp: join_dirs_def dir_set_def)

lemma dependency_kernel_debug:
  "r \<in> {0, 1, - 1} \<Longrightarrow>
   dependency_kernel_loop False prog k js r = join_dirs (dir_set r \<union> dep_dirs prog (instr_indexes k) js)"
proof (induction js arbitrary: r)
  case Nil
  then show ?case by (auto simp: join_dirs_def dir_set_def)
next
  case (Cons j js)
  let ?D = "dep_dirs prog (instr_indexes k) [j]"
  have sub: "?D \<subseteq> {1, - 1}" by (rule dep_dirs_subset)
  have inst: "dependency_instr False prog k j = join_dirs ?D"
    by (simp add: dependency_instr_def dependency_loop_debug dir_set_def)
  have all: "dep_dirs prog (instr_indexes k) (j # js) = ?D \<union> dep_dirs prog (instr_indexes k) js"
    by (cases js) simp_all
  consider "?D = {}" | "?D = {1}" | "?D = {- 1}" | "?D = {1, - 1}" using dirs_cases [OF sub] by blast
  then show ?case
    using Cons unfolding all dependency_kernel_loop.simps inst
    by cases (auto simp: join_dirs_def dir_set_def)
qed

lemma dependency_kernel_release:
  assumes "dep_dirs prog (instr_indexes k) js \<subseteq> {d}" and "d \<noteq> 0" and "r = 0 \<or> r = d"
  shows "dependency_kernel_loop True prog k js r = Some (if dep_dirs prog (instr_indexes k) js = {} then r else d)"
  using assms
proof (induction js arbitrary: r)
  case (Cons j js)
  have all: "dep_dirs prog (instr_indexes k) (j # js) = dep_dirs prog (instr_indexes k) [j] \<union> dep_dirs prog (instr_indexes k) js"
    by (cases js) simp_all
  have "dependency_instr True prog k j = Some (if dep_dirs prog (instr_indexes k) [j] = {} then 0 else d)"
    unfolding dependency_instr_def using Cons.prems all by (intro dependency_loop_release) auto
  then show ?case using Cons all by auto
qed simp

text \<open>
  \<^verbatim>\<open>dependency\<close> between two kernels is exact: it is 0 when no two instructions depend on each other,
  1 or -1 when all dependencies point one way, in debug and in release builds; when the kernels
  depend on each other in both directions the assertion of a debug build fails.
\<close>

theorem kernel_dependency_exact:
  "dependency False prog k other = join_dirs (dep_dirs prog (instr_indexes k) (instr_indexes other)) \<and>
   (dep_dirs prog (instr_indexes k) (instr_indexes other) \<noteq> {1, - 1} \<longrightarrow>
      dependency True prog k other = join_dirs (dep_dirs prog (instr_indexes k) (instr_indexes other)))"
proof
  let ?D = "dep_dirs prog (instr_indexes k) (instr_indexes other)"
  show "dependency False prog k other = join_dirs ?D"
    by (simp add: dependency_def dependency_kernel_debug dir_set_def)
  show "?D \<noteq> {1, - 1} \<longrightarrow> dependency True prog k other = join_dirs ?D"
  proof
    assume "?D \<noteq> {1, - 1}"
    then consider "?D = {}" | "?D = {1}" | "?D = {- 1}" using dirs_cases [OF dep_dirs_subset] by blast
    then show "dependency True prog k other = join_dirs ?D"
      by cases (simp_all add: dependency_def dependency_kernel_release [where d = 1] dependency_kernel_release [where d = "- 1"] join_dirs_def)
  qed
qed

text \<open>\<^verbatim>\<open>v = v + v; w = v + v\<close> on vectors of three elements.\<close>

definition inplace_prog :: program where
  "inplace_prog = [instr3 BH_ADD (line_view 1 3) (line_view 1 3) (line_view 1 3),
                   instr3 BH_ADD (line_view 2 3) (line_view 1 3) (line_view 1 3)]"

definition kernel_at :: "nat \<Rightarrow> bh_ir_kernel" where
  "kernel_at i = bh_ir_kernel_new\<lparr>instr_indexes := [i]\<rparr>"

theorem kernel_dependency_exact_witness:
  "dependency True inplace_prog (kernel_at 1) (kernel_at 0) = Some 1"
proof -
  have D: "dep_dirs inplace_prog (instr_indexes (kernel_at 1)) (instr_indexes (kernel_at 0)) = {1}"
  proof -
    have "instr_dep inplace_prog 0 1" by code_simp
    then show ?thesis by (simp add: dep_dirs_def kernel_at_def)
  qed
  have "join_dirs {1} = Some 1" "{1 :: int} \<noteq> {1, - 1}" by (simp_all add: join_dirs_def set_eq_iff) (rule exI [of _ "- 1"], simp)
  then show ?thesis using kernel_dependency_exact [of inplace_prog "kernel_at 1" "kernel_at 0"] unfolding D by simp
qed

text \<open>A kernel that makes \<^verbatim>\<open>v\<close>, uses it for \<^verbatim>\<open>w\<close> and discards it.\<close>

definition temp_prog :: program where
  "temp_prog = [instr3 BH_ADD (line_view 1 3) (line_view 3 3) (line_view 3 3),
                instr3 BH_ADD (line_view 2 3) (line_view 1 3) (line_view 1 3),
                instr3 BH_FREE (line_view 1 3) (line_view 1 3) (line_view 1 3),
                instr3 BH_DISCARD (line_view 1 3) (line_view 1 3) (line_view 1 3)]"


text \<open>
  The savings \<^verbatim>\<open>merge_cost_savings\<close> reports are not the amount by which the cost drops: for
  \<^verbatim>\<open>v = v + v; w = v + v\<close> the input \<^verbatim>\<open>v\<close> of the second kernel is counted twice, once as an output and
  once as an input of the first, so 48 bytes are reported where the fused kernel saves 24.
\<close>

theorem merge_cost_savings_overcounts:
  "do { a \<leftarrow> add_instrs inplace_prog [1] bh_ir_kernel_new;
        b \<leftarrow> add_instrs inplace_prog [0] bh_ir_kernel_new;
        m \<leftarrow> add_instrs inplace_prog [0, 1] bh_ir_kernel_new;
        s \<leftarrow> merge_cost_savings True BROADEST (\<lambda>_. BH_FLOAT64) inplace_prog False a b;
        Some (s, kernel_cost (\<lambda>_. BH_FLOAT64) a + kernel_cost (\<lambda>_. BH_FLOAT64) b - kernel_cost (\<lambda>_. BH_FLOAT64) m) }
   = Some (48, 24)"
  by code_simp

end
