(* ===== verification/Bgl.thy ===== *)
theory Bgl
  imports Main "HOL-Library.Product_Lexorder"
begin

text \<open>
  The algorithms of the Boost Graph Library that \<^verbatim>\<open>core/bh_dag.cpp\<close> calls, as a parameter. A graph is
  its number of vertices and its set of edges. \<open>bfs\<close> is the sequence of the edges on which
  \<^verbatim>\<open>breadth_first_search\<close> calls \<^verbatim>\<open>examine_edge\<close>, \<open>topo\<close> the output of \<^verbatim>\<open>topological_sort\<close> (\<open>None\<close> for
  the exception \<^verbatim>\<open>not_a_dag\<close>), \<open>order\<close> the order in which a container is traversed, and
  \<open>components\<close> and \<open>strong\<close> number the connected and the strongly connected components.

  The locale \<open>boost_graph\<close> states what the documentation of the library promises; it is interpreted on
  an executable implementation, \<open>bgl_ref\<close>.
\<close>

type_synonym edge = "nat \<times> nat"

record bgl =
  bfs :: "nat \<Rightarrow> edge set \<Rightarrow> nat \<Rightarrow> edge list"
  topo :: "nat \<Rightarrow> edge set \<Rightarrow> nat list option"
  order :: "edge list \<Rightarrow> edge list"
  components :: "nat \<Rightarrow> edge set \<Rightarrow> nat list"
  strong :: "nat \<Rightarrow> edge set \<Rightarrow> nat list"

definition in_range :: "nat \<Rightarrow> edge set \<Rightarrow> bool" where
  "in_range n E \<longleftrightarrow> E \<subseteq> {..<n} \<times> {..<n}"

definition same_partition :: "nat \<Rightarrow> (nat \<Rightarrow> nat \<Rightarrow> bool) \<Rightarrow> nat list \<Rightarrow> bool" where
  "same_partition n R cs \<longleftrightarrow> length cs = n \<and> (\<forall>u < n. \<forall>v < n. cs ! u = cs ! v \<longleftrightarrow> R u v)"

text \<open>A reverse topological order: the target of an edge comes before its source.\<close>

definition reverse_topological :: "nat \<Rightarrow> edge set \<Rightarrow> nat list \<Rightarrow> bool" where
  "reverse_topological n E ts \<longleftrightarrow> distinct ts \<and> set ts = {..<n} \<and>
     (\<forall>i < n. \<forall>j < n. (ts ! i, ts ! j) \<in> E \<longrightarrow> j < i)"

locale boost_graph =
  fixes B :: bgl
  assumes bfs_edges: "in_range n E \<Longrightarrow> a < n \<Longrightarrow> set (bfs B n E a) = {e \<in> E. (a, fst e) \<in> E\<^sup>*}"
    and topo_acyclic: "in_range n E \<Longrightarrow> acyclic E \<Longrightarrow> \<exists>ts. topo B n E = Some ts \<and> reverse_topological n E ts"
    and topo_cyclic: "in_range n E \<Longrightarrow> \<not> acyclic E \<Longrightarrow> topo B n E = None"
    and set_order: "set (order B es) = set es"
    and distinct_order: "distinct es \<Longrightarrow> distinct (order B es)"
    and components_partition: "in_range n E \<Longrightarrow> same_partition n (\<lambda>u v. (u, v) \<in> (E \<union> E\<inverse>)\<^sup>*) (components B n E)"
    and strong_partition: "in_range n E \<Longrightarrow> same_partition n (\<lambda>u v. (u, v) \<in> E\<^sup>* \<and> (v, u) \<in> E\<^sup>*) (strong B n E)"
begin

lemma order_Nil [simp]: "order B es = [] \<longleftrightarrow> es = []"
  using set_order [of es] by (metis set_empty)

lemma topo_None: "in_range n E \<Longrightarrow> topo B n E = None \<longleftrightarrow> \<not> acyclic E"
  using topo_acyclic topo_cyclic by fastforce

end

lemma in_range_finite: "in_range n E \<Longrightarrow> finite E"
  unfolding in_range_def by (meson finite_SigmaI finite_lessThan finite_subset)

lemma in_range_rtrancl: "in_range n E \<Longrightarrow> (a, v) \<in> E\<^sup>* \<Longrightarrow> a < n \<Longrightarrow> v < n"
  by (erule rtranclE) (auto simp: in_range_def)

subsection \<open>An implementation\<close>

definition reach :: "edge set \<Rightarrow> nat \<Rightarrow> nat set" where
  "reach E a = ((\<lambda>R. R \<union> E `` R) ^^ card E) {a}"

definition bgl_ref :: bgl where
  "bgl_ref = \<lparr>
     bfs = (\<lambda>n E a. sorted_list_of_set {e \<in> E. fst e \<in> reach E a}),
     topo = (\<lambda>n E. if \<exists>e \<in> E. fst e \<in> reach E (snd e) then None
                   else Some (sort_key (\<lambda>v. card (reach E v)) [0..<n])),
     order = id,
     components = (\<lambda>n E. map (\<lambda>u. Min (set (filter (\<lambda>v. v \<in> reach (E \<union> E\<inverse>) u) [0..<Suc u]))) [0..<n]),
     strong = (\<lambda>n E. map (\<lambda>u. Min (set (filter (\<lambda>v. v \<in> reach E u \<and> u \<in> reach E v) [0..<Suc u]))) [0..<n])\<rparr>"

lemma reach_relpow: "((\<lambda>R. R \<union> E `` R) ^^ m) {a} = {v. \<exists>k \<le> m. (a, v) \<in> E ^^ k}"
proof (induction m)
  case (Suc m)
  have "v \<in> ((\<lambda>R. R \<union> E `` R) ^^ Suc m) {a} \<longleftrightarrow> (\<exists>k \<le> Suc m. (a, v) \<in> E ^^ k)" for v
  proof
    assume "v \<in> ((\<lambda>R. R \<union> E `` R) ^^ Suc m) {a}"
    then consider k where "k \<le> m" "(a, v) \<in> E ^^ k" | k u where "k \<le> m" "(a, u) \<in> E ^^ k" "(u, v) \<in> E"
      using Suc by auto
    then show "\<exists>k \<le> Suc m. (a, v) \<in> E ^^ k"
      by cases (auto intro: le_SucI, metis Suc_le_mono relpow_Suc_I)
  next
    assume "\<exists>k \<le> Suc m. (a, v) \<in> E ^^ k"
    then obtain k where k: "k \<le> Suc m" "(a, v) \<in> E ^^ k" by blast
    show "v \<in> ((\<lambda>R. R \<union> E `` R) ^^ Suc m) {a}"
    proof (cases k)
      case 0
      then show ?thesis using k Suc by auto
    next
      case (Suc j)
      then obtain u where "(a, u) \<in> E ^^ j" "(u, v) \<in> E" using k(2) by auto
      then show ?thesis using Suc.IH k(1) Suc by auto
    qed
  qed
  then show ?case by auto
qed simp

lemma reach_rtrancl: "finite E \<Longrightarrow> reach E a = {v. (a, v) \<in> E\<^sup>*}"
  unfolding reach_def reach_relpow by (auto simp: rtrancl_finite_eq_relpow)

lemma acyclic_reach: "finite E \<Longrightarrow> acyclic E \<longleftrightarrow> \<not> (\<exists>e \<in> E. fst e \<in> reach E (snd e))"
proof -
  assume fin: "finite E"
  have "(\<exists>x. (x, x) \<in> E\<^sup>+) \<longleftrightarrow> (\<exists>x y. (x, y) \<in> E \<and> (y, x) \<in> E\<^sup>*)"
    by (meson rtrancl_into_trancl2 tranclD)
  then show ?thesis by (auto simp: reach_rtrancl [OF fin] acyclic_def)
qed

lemma card_reach_less:
  assumes "in_range n E" and "acyclic E" and "(u, v) \<in> E"
  shows "card (reach E v) < card (reach E u)"
proof (rule psubset_card_mono)
  have fin: "finite E" by (rule in_range_finite [OF assms(1)])
  have "u < n" using assms(1,3) by (auto simp: in_range_def)
  then have "reach E u \<subseteq> {..<n}" using in_range_rtrancl [OF assms(1)] by (auto simp: reach_rtrancl [OF fin])
  then show "finite (reach E u)" by (rule finite_subset) simp
  have "u \<notin> reach E v" using assms(2,3) by (auto simp: reach_rtrancl [OF fin] acyclic_def dest: rtrancl_into_trancl2)
  moreover have "u \<in> reach E u" "reach E v \<subseteq> reach E u"
    using assms(3) by (auto simp: reach_rtrancl [OF fin] intro: converse_rtrancl_into_rtrancl)
  ultimately show "reach E v \<subset> reach E u" by blast
qed

lemma Min_class:
  assumes "\<And>x. R x x" and "\<And>x y. R x y \<Longrightarrow> R y x" and "\<And>x y z. R x y \<Longrightarrow> R y z \<Longrightarrow> R x z"
  shows "Min (set (filter (R u) [0..<Suc u])) = Min (set (filter (R v) [0..<Suc v])) \<longleftrightarrow> R u (v :: nat)"
proof -
  define m where "m u = Min (set (filter (R u) [0..<Suc u]))" for u
  have mR: "R u (m u)" and least: "R u x \<Longrightarrow> m u \<le> x" for u x
  proof -
    have ne: "set (filter (R u) [0..<Suc u]) \<noteq> {}" using assms(1) by fastforce
    then show "R u (m u)" using Min_in [OF _ ne] unfolding m_def by auto
    show "m u \<le> x" if "R u x"
    proof (cases "x \<le> u")
      case True
      then show ?thesis using that assms(1) [of u] unfolding m_def by (intro Min_le) auto
    next
      case False
      have "m u \<le> u" using assms(1) unfolding m_def by (intro Min_le) auto
      then show ?thesis using False by simp
    qed
  qed
  have "m u = m v" if "R u v"
    using that least [of u "m v"] least [of v "m u"] mR assms(2,3) by (meson antisym)
  then show ?thesis using mR [of u] mR [of v] assms(2,3) unfolding m_def by metis
qed

lemma sort_key_reverse_topological:
  assumes "in_range n E" and "acyclic E"
  shows "reverse_topological n E (sort_key (\<lambda>v. card (reach E v)) [0..<n])"
proof -
  let ?ts = "sort_key (\<lambda>v. card (reach E v)) [0..<n]"
  have "j < i" if ij: "i < n" "j < n" "(?ts ! i, ?ts ! j) \<in> E" for i j
  proof (rule ccontr)
    assume "\<not> j < i"
    then have "card (reach E (?ts ! i)) \<le> card (reach E (?ts ! j))"
      using ij sorted_nth_mono [OF sorted_sort_key, of i j "\<lambda>v. card (reach E v)" "[0..<n]"] by simp
    then show False using card_reach_less [OF assms ij(3)] by simp
  qed
  then show ?thesis unfolding reverse_topological_def by (auto simp: atLeast0LessThan)
qed

interpretation bgl_ref: boost_graph bgl_ref
proof
  fix n :: nat and E :: "edge set" and a :: nat and es :: "edge list"
  assume r: "in_range n E"
  note fin = in_range_finite [OF r]
  show "a < n \<Longrightarrow> set (bfs bgl_ref n E a) = {e \<in> E. (a, fst e) \<in> E\<^sup>*}"
    using fin by (simp add: bgl_ref_def reach_rtrancl)
  show "acyclic E \<Longrightarrow> \<exists>ts. topo bgl_ref n E = Some ts \<and> reverse_topological n E ts"
    using sort_key_reverse_topological [OF r] acyclic_reach [OF fin] by (simp add: bgl_ref_def)
  show "\<not> acyclic E \<Longrightarrow> topo bgl_ref n E = None"
    using acyclic_reach [OF fin] by (simp add: bgl_ref_def)
  have sym: "(u, v) \<in> (E \<union> E\<inverse>)\<^sup>* \<Longrightarrow> (v, u) \<in> (E \<union> E\<inverse>)\<^sup>*" for u v
    by (metis converse_Un converse_converse rtrancl_converseD sup_commute)
  have "Min (set (filter (\<lambda>x. (u, x) \<in> (E \<union> E\<inverse>)\<^sup>*) [0..<Suc u])) = Min (set (filter (\<lambda>x. (v, x) \<in> (E \<union> E\<inverse>)\<^sup>*) [0..<Suc v]))
      \<longleftrightarrow> (u, v) \<in> (E \<union> E\<inverse>)\<^sup>*" for u v
    by (rule Min_class [where R = "\<lambda>u v. (u, v) \<in> (E \<union> E\<inverse>)\<^sup>*"]) (auto intro: sym)
  then show "same_partition n (\<lambda>u v. (u, v) \<in> (E \<union> E\<inverse>)\<^sup>*) (components bgl_ref n E)"
    using fin by (simp add: same_partition_def bgl_ref_def reach_rtrancl del: upt_Suc)
  have "Min (set (filter (\<lambda>x. (u, x) \<in> E\<^sup>* \<and> (x, u) \<in> E\<^sup>*) [0..<Suc u])) = Min (set (filter (\<lambda>x. (v, x) \<in> E\<^sup>* \<and> (x, v) \<in> E\<^sup>*) [0..<Suc v]))
      \<longleftrightarrow> (u, v) \<in> E\<^sup>* \<and> (v, u) \<in> E\<^sup>*" for u v
    by (rule Min_class [where R = "\<lambda>u v. (u, v) \<in> E\<^sup>* \<and> (v, u) \<in> E\<^sup>*"]) auto
  then show "same_partition n (\<lambda>u v. (u, v) \<in> E\<^sup>* \<and> (v, u) \<in> E\<^sup>*) (strong bgl_ref n E)"
    using fin by (simp add: same_partition_def bgl_ref_def reach_rtrancl del: upt_Suc)
qed (simp_all add: bgl_ref_def)

end
