(* ===== verification/Bh_Graph.thy ===== *)
theory Bh_Graph
  imports Bgl
begin

text \<open>
  Facts on finite acyclic graphs the proofs about \<^verbatim>\<open>core/bh_dag.cpp\<close> share: removing edges that longer
  paths make redundant, contracting an edge, and renaming vertices.
\<close>

subsection \<open>Redundant edges\<close>

definition long_path :: "edge set \<Rightarrow> nat \<Rightarrow> nat \<Rightarrow> bool" where
  "long_path E a b \<longleftrightarrow> (\<exists>u. u \<noteq> a \<and> (a, u) \<in> E\<^sup>* \<and> (u, b) \<in> E)"

definition between :: "edge set \<Rightarrow> nat \<Rightarrow> nat \<Rightarrow> nat set" where
  "between E a b = {w. (a, w) \<in> E\<^sup>+ \<and> (w, b) \<in> E\<^sup>+}"

lemma long_path_between: "long_path E a b \<longleftrightarrow> (\<exists>w \<in> between E a b. w \<noteq> a \<and> (w, b) \<in> E)"
  unfolding long_path_def between_def by (auto intro: r_into_trancl simp: rtrancl_eq_or_trancl)

lemma long_path_trancl: "long_path E a b \<Longrightarrow> (a, b) \<in> E\<^sup>+"
  by (auto simp: long_path_def intro: rtrancl_into_trancl1)

lemma finite_between: "finite E \<Longrightarrow> finite (between E a b)"
  unfolding between_def by (rule finite_subset [of _ "snd ` (E\<^sup>+)"]) (force, simp)

lemma redundant_trancl:
  assumes "finite E" and "acyclic E" and red: "\<And>a b. (a, b) \<in> R \<Longrightarrow> between E a b \<noteq> {}"
  shows "(E - R)\<^sup>+ = E\<^sup>+"
proof
  show "(E - R)\<^sup>+ \<subseteq> E\<^sup>+" by (simp add: trancl_mono_subset)
  have "(x, y) \<in> (E - R)\<^sup>+" if "(x, y) \<in> E\<^sup>+" for x y
    using that
  proof (induction "card (between E x y)" arbitrary: x y rule: less_induct)
    case less
    show ?case
    proof (cases "between E x y = {}")
      case True
      then have "(x, y) \<in> E" using less.prems unfolding between_def by (blast elim: tranclE intro: r_into_trancl)
      then show ?thesis using red True by blast
    next
      case False
      then obtain w where w: "(x, w) \<in> E\<^sup>+" "(w, y) \<in> E\<^sup>+" by (auto simp: between_def)
      have "between E x w \<subset> between E x y" "between E w y \<subset> between E x y"
        using w assms(2) by (auto simp: between_def acyclic_def intro: trancl_trans)
      then have "card (between E x w) < card (between E x y)" "card (between E w y) < card (between E x y)"
        by (simp_all add: psubset_card_mono finite_between [OF assms(1)])
      then show ?thesis using less.hyps w by (meson trancl_trans)
    qed
  qed
  then show "E\<^sup>+ \<subseteq> (E - R)\<^sup>+" by auto
qed

lemma remove_long:
  assumes "finite E" and "acyclic E" and "long_path E a b \<or> long_path E b a"
  shows "(E - {(a, b)} - {(b, a)})\<^sup>+ = E\<^sup>+"
proof -
  have *: "(E - {(u, v)} - {(v, u)})\<^sup>+ = E\<^sup>+" if "long_path E u v" for u v
  proof -
    have "(v, u) \<notin> E" using long_path_trancl [OF that] assms(2)
      by (auto simp: acyclic_def dest: trancl_into_trancl)
    then have "E - {(u, v)} - {(v, u)} = E - {(u, v)}" by blast
    then show ?thesis using redundant_trancl [OF assms(1,2), of "{(u, v)}"] that by (auto simp: long_path_between)
  qed
  show ?thesis
    using assms(3) * [of a b] * [of b a] by (auto simp: Diff_insert2 [symmetric] insert_commute)
qed

subsection \<open>Contracting two vertices\<close>

definition contract :: "nat \<Rightarrow> nat \<Rightarrow> nat \<Rightarrow> nat" where
  "contract a b v = (if v = b then a else v)"

definition contract_edges :: "nat \<Rightarrow> nat \<Rightarrow> edge set \<Rightarrow> edge set" where
  "contract_edges a b E = {(u, v). \<exists>x y. (x, y) \<in> E \<and> u = contract a b x \<and> v = contract a b y \<and> u \<noteq> v}"

lemma contract_edge: "(x, y) \<in> E \<Longrightarrow> contract a b x = contract a b y \<or> (contract a b x, contract a b y) \<in> contract_edges a b E"
  by (auto simp: contract_edges_def)

lemma contract_edgeE:
  assumes "(u, v) \<in> contract_edges a b E"
  obtains x y where "(x, y) \<in> E - {(a, b), (b, a)}" "contract a b x = u" "contract a b y = v"
proof -
  obtain x y where "(x, y) \<in> E" "contract a b x = u" "contract a b y = v" "u \<noteq> v"
    using assms by (auto simp: contract_edges_def)
  moreover have "(x, y) \<noteq> (a, b)" "(x, y) \<noteq> (b, a)" using calculation by (auto simp: contract_def)
  ultimately show ?thesis using that by blast
qed

lemma contract_trancl:
  assumes "(x, y) \<in> E\<^sup>+" and "contract a b x \<noteq> contract a b y"
  shows "(contract a b x, contract a b y) \<in> (contract_edges a b E)\<^sup>+"
proof -
  have "(contract a b x, contract a b y) \<in> (contract_edges a b E)\<^sup>*"
    using assms(1)
  proof (induction rule: trancl_induct)
    case (base y)
    then show ?case using contract_edge [of x y E a b] by (metis r_into_rtrancl rtrancl.rtrancl_refl)
  next
    case (step y z)
    then show ?case using contract_edge [of y z E a b] by (metis rtrancl.rtrancl_into_rtrancl)
  qed
  then show ?thesis using assms(2) by (simp add: rtrancl_eq_or_trancl)
qed

text \<open>The paths of the contracted graph, lifted: at most one visit of the merged vertex joins two pieces.\<close>

lemma contract_lift:
  assumes "(x, y) \<in> (contract_edges a b E)\<^sup>+" and no: "\<And>u v. u \<in> {a, b} \<Longrightarrow> v \<in> {a, b} \<Longrightarrow> (u, v) \<notin> F\<^sup>+"
    and F: "F = E - {(a, b), (b, a)}"
  shows "\<exists>x' y'. contract a b x' = x \<and> contract a b y' = y \<and>
     ((x', y') \<in> F\<^sup>+ \<or> (\<exists>c \<in> {a, b}. \<exists>d \<in> {a, b}. (x', c) \<in> F\<^sup>+ \<and> (d, y') \<in> F\<^sup>+))"
  using assms(1)
proof (induction rule: trancl_induct)
  case (base y)
  then show ?case unfolding F by (blast elim: contract_edgeE)
next
  case (step y z)
  obtain y1 z1 where e: "(y1, z1) \<in> F" "contract a b y1 = y" "contract a b z1 = z"
    using step.hyps(2) unfolding F by (rule contract_edgeE)
  obtain x' y' where p: "contract a b x' = x" "contract a b y' = y"
    "(x', y') \<in> F\<^sup>+ \<or> (\<exists>c \<in> {a, b}. \<exists>d \<in> {a, b}. (x', c) \<in> F\<^sup>+ \<and> (d, y') \<in> F\<^sup>+)"
    using step.IH by blast
  have "(x', z1) \<in> F\<^sup>+ \<or> (\<exists>c \<in> {a, b}. \<exists>d \<in> {a, b}. (x', c) \<in> F\<^sup>+ \<and> (d, z1) \<in> F\<^sup>+)"
  proof (cases "y' = y1")
    case True
    then have "(w, z1) \<in> F\<^sup>+" if "(w, y') \<in> F\<^sup>+" for w using that e(1) by (simp add: trancl_into_trancl)
    then show ?thesis using p(3) by blast
  next
    case False
    then have "y' \<in> {a, b}" "y1 \<in> {a, b}" using p(2) e(2) by (auto simp: contract_def split: if_splits)
    moreover have "(x', y') \<in> F\<^sup>+" using p(3) no calculation(1) by blast
    ultimately show ?thesis using e(1) by blast
  qed
  then show ?case using p(1) e(3) by blast
qed

lemma contract_acyclic:
  assumes "finite E" and "acyclic E" and "\<not> long_path E a b" and "\<not> long_path E b a"
  shows "acyclic (contract_edges a b E)"
proof (rule acyclicI, intro allI notI)
  fix x assume cyc: "(x, x) \<in> (contract_edges a b E)\<^sup>+"
  let ?F = "E - {(a, b), (b, a)}"
  have sub: "?F\<^sup>+ \<subseteq> E\<^sup>+" by (simp add: trancl_mono_subset)
  have acy: "acyclic ?F" using assms(2) by (rule acyclic_subset) blast
  have inc: "(u, v) \<notin> ?F\<^sup>+" if "{u, v} = {a, b}" "u \<noteq> v" for u v
  proof
    assume "(u, v) \<in> ?F\<^sup>+"
    then obtain w where "(u, w) \<in> ?F\<^sup>*" "(w, v) \<in> ?F" by (meson tranclD2)
    moreover have "w \<noteq> u" using calculation(2) that by (auto simp: doubleton_eq_iff)
    moreover have "?F\<^sup>* \<subseteq> E\<^sup>*" by (rule rtrancl_mono) blast
    ultimately have "long_path E u v" by (auto simp: long_path_def)
    then show False using assms(3,4) that by (auto simp: doubleton_eq_iff)
  qed
  have no: "(u, v) \<notin> ?F\<^sup>+" if "u \<in> {a, b}" "v \<in> {a, b}" for u v
    using inc [of u v] acy that by (cases "u = v") (auto simp: acyclic_def)
  obtain x' y' where p: "contract a b x' = x" "contract a b y' = x"
    "(x', y') \<in> ?F\<^sup>+ \<or> (\<exists>c \<in> {a, b}. \<exists>d \<in> {a, b}. (x', c) \<in> ?F\<^sup>+ \<and> (d, y') \<in> ?F\<^sup>+)"
    using contract_lift [OF cyc no refl] by blast
  consider "x' = y'" | "x' \<in> {a, b}" "y' \<in> {a, b}" using p(1,2) by (auto simp: contract_def split: if_splits)
  then show False
  proof cases
    case 1
    then obtain c d where "c \<in> {a, b}" "d \<in> {a, b}" "(d, c) \<in> ?F\<^sup>+"
      using p(3) acy by (metis acyclic_def trancl_trans)
    then show False using no [of d c] by blast
  next
    case 2
    then show False using p(3) no by blast
  qed
qed

subsection \<open>Renaming vertices\<close>

lemma trancl_map:
  assumes "(x, y) \<in> E\<^sup>+"
  shows "(f x, f y) \<in> (map_prod f f ` E)\<^sup>+"
  using assms
proof (induction rule: trancl_induct)
  case (step y z)
  then show ?case by (meson map_prod_imageI trancl.trancl_into_trancl)
qed (simp add: map_prod_imageI r_into_trancl)

lemma trancl_unmap:
  assumes "(x, y) \<in> (map_prod f f ` E)\<^sup>+" and "inj_on f (Field E)"
  shows "\<exists>x' y'. x = f x' \<and> y = f y' \<and> (x', y') \<in> E\<^sup>+"
  using assms(1)
proof (induction rule: trancl_induct)
  case (base y)
  then show ?case by auto
next
  case (step y z)
  then obtain x' y' u v where *: "x = f x'" "y = f y'" "(x', y') \<in> E\<^sup>+" "y = f u" "z = f v" "(u, v) \<in> E" by auto
  then have "y' = u" using assms(2) by (metis FieldI1 FieldI2 inj_onD tranclD2)
  then have "(x', v) \<in> E\<^sup>+" using * by (meson trancl.trancl_into_trancl)
  then show ?case using * by blast
qed

lemma acyclic_map:
  assumes "acyclic E" and "inj_on f (Field E)"
  shows "acyclic (map_prod f f ` E)"
proof (rule acyclicI, intro allI notI)
  fix x assume "(x, x) \<in> (map_prod f f ` E)\<^sup>+"
  from trancl_unmap [OF this assms(2)] obtain u v where "x = f u" "x = f v" "(u, v) \<in> E\<^sup>+" by blast
  moreover have "u \<in> Field E" "v \<in> Field E" using calculation(3) by (metis FieldI1 FieldI2 tranclD tranclD2)+
  ultimately show False using assms by (metis acyclic_def inj_onD)
qed

lemma forward_acyclic: "\<forall>(u, v) \<in> E. u < (v :: nat) \<Longrightarrow> acyclic E"
proof (rule acyclicI, intro allI notI)
  fix x assume fwd: "\<forall>(u, v) \<in> E. u < v" and "(x, x) \<in> E\<^sup>+"
  have "(u, v) \<in> E\<^sup>+ \<Longrightarrow> u < v" for u v
    by (induction rule: trancl_induct) (use fwd in \<open>auto dest: less_trans\<close>)
  then show False using \<open>(x, x) \<in> E\<^sup>+\<close> by blast
qed

end
