(* ===== verification/Bh_Dag.thy ===== *)
theory Bh_Dag
  imports Bh_Ir Bgl
begin

text \<open>
  The dependency and weight graphs of kernels, \<^verbatim>\<open>GraphDW\<close> of \<^verbatim>\<open>include/bh_dag.h\<close>, and the algorithms of
  \<^verbatim>\<open>core/bh_dag.cpp\<close> that build, validate, reduce, split and fuse them.

  What the functions use besides their arguments is collected in \<open>dag_env\<close>: the graph library, whether
  the build defines \<^verbatim>\<open>NDEBUG\<close>, the selected fuse model, the element types and the instruction list.
  \<open>None\<close> is a failing assertion, an access outside a vector, or an exception that leaves the function.
  A weight edge keeps the orientation it was added with; the weight of an edge added without one is
  indeterminate in the source and 0 here, and \<^verbatim>\<open>merge_vertices\<close> assigns it before anything reads it.
  The graph files written for failed validations are not modelled.
\<close>

record dag_env =
  graph_lib :: bgl
  release :: bool
  fuse_model :: FuseModel
  base_type :: "ptr \<Rightarrow> bh_type"
  instr_list :: program

record GraphDW =
  kernels :: "bh_ir_kernel list"
  dedges :: "edge set"
  wnum :: nat
  wedges :: "(edge \<times> int) list"
  base2vertices :: "ptr \<Rightarrow> nat set option"

definition GraphDW_new :: GraphDW where
  "GraphDW_new = \<lparr>kernels = [], dedges = {}, wnum = 0, wedges = [], base2vertices = Map.empty\<rparr>"

text \<open>The copy constructor copies the two graphs only.\<close>

definition GraphDW_copy :: "GraphDW \<Rightarrow> GraphDW" where
  "GraphDW_copy g = GraphDW_new\<lparr>kernels := kernels g, dedges := dedges g, wnum := wnum g, wedges := wedges g\<rparr>"

definition GraphDW_of_D :: "bh_ir_kernel list \<Rightarrow> edge set \<Rightarrow> GraphDW" where
  "GraphDW_of_D ks E = GraphDW_new\<lparr>kernels := ks, dedges := E, wnum := length ks\<rparr>"

text \<open>\<^verbatim>\<open>assert\<close> is compiled out when \<^verbatim>\<open>NDEBUG\<close> is defined.\<close>

definition c_assert :: "dag_env \<Rightarrow> bool option \<Rightarrow> unit option" where
  "c_assert env c = (if release env then Some () else do { b \<leftarrow> c; if b then Some () else None })"

fun all_opt :: "('a \<Rightarrow> bool option) \<Rightarrow> 'a list \<Rightarrow> bool option" where
  "all_opt p [] = Some True"
| "all_opt p (x # xs) = do { b \<leftarrow> p x; if b then all_opt p xs else Some False }"

subsection \<open>Paths, cycles and edges\<close>

definition path_exist :: "bgl \<Rightarrow> nat \<Rightarrow> edge set \<Rightarrow> nat \<Rightarrow> nat \<Rightarrow> bool \<Rightarrow> bool" where
  "path_exist B n E a b only_long_path =
     list_ex (\<lambda>e. if only_long_path then fst e \<noteq> a \<and> snd e = b else snd e = b) (bfs B n E a)"

abbreviation path :: "dag_env \<Rightarrow> GraphDW \<Rightarrow> nat \<Rightarrow> nat \<Rightarrow> bool \<Rightarrow> bool" where
  "path env g \<equiv> path_exist (graph_lib env) (length (kernels g)) (dedges g)"

definition cycles :: "bgl \<Rightarrow> nat \<Rightarrow> edge set \<Rightarrow> bool" where
  "cycles B n E = (case topo B n E of Some topological_order \<Rightarrow> False | None \<Rightarrow> True)"

definition adjacent_vertices :: "nat \<Rightarrow> edge set \<Rightarrow> nat list" where
  "adjacent_vertices v E = sorted_list_of_set (snd ` {e \<in> E. fst e = v})"

definition inv_adjacent_vertices :: "nat \<Rightarrow> edge set \<Rightarrow> nat list" where
  "inv_adjacent_vertices v E = sorted_list_of_set (fst ` {e \<in> E. snd e = v})"

definition connects :: "nat \<Rightarrow> nat \<Rightarrow> edge \<Rightarrow> bool" where
  "connects u v e \<longleftrightarrow> e = (u, v) \<or> e = (v, u)"

definition incident :: "nat \<Rightarrow> edge \<Rightarrow> bool" where
  "incident v e \<longleftrightarrow> fst e = v \<or> snd e = v"

text \<open>The edge container is a set: an edge between connected vertices is not added again.\<close>

definition add_weight :: "nat \<Rightarrow> nat \<Rightarrow> int \<Rightarrow> (edge \<times> int) list \<Rightarrow> (edge \<times> int) list" where
  "add_weight u v w ws = (if \<exists>e \<in> set ws. connects u v (fst e) then ws else ws @ [((u, v), w)])"

definition wadjacent_vertices :: "nat \<Rightarrow> (edge \<times> int) list \<Rightarrow> nat list" where
  "wadjacent_vertices v ws =
     sorted_list_of_set (set (map (\<lambda>e. if fst (fst e) = v then snd (fst e) else fst (fst e)) (filter (\<lambda>e. incident v (fst e)) ws)))"

text \<open>\<^verbatim>\<open>edges(w)\<close> with the weights, in the order of the traversal.\<close>

definition weight_edges :: "dag_env \<Rightarrow> (edge \<times> int) list \<Rightarrow> (edge \<times> int) list" where
  "weight_edges env ws = map (\<lambda>e. (e, the (map_of ws e))) (order (graph_lib env) (map fst ws))"

definition savings :: "dag_env \<Rightarrow> bh_ir_kernel list \<Rightarrow> nat \<Rightarrow> nat \<Rightarrow> int option" where
  "savings env ks u v =
     merge_cost_savings (release env) (fuse_model env) (base_type env) (instr_list env) (u = v) (ks ! u) (ks ! v)"

subsection \<open>Building the graph\<close>

definition kernel_bases :: "program \<Rightarrow> bh_ir_kernel \<Rightarrow> ptr set" where
  "kernel_bases prog k =
     set (concat (map (\<lambda>i. map base (filter (\<lambda>v. \<not> bh_is_constant v)
       (map (\<lambda>t. operand (prog ! i) ! t) [0..<bh_operands (opcode (prog ! i))]))) (instr_indexes k)))"

fun link_vertices :: "dag_env \<Rightarrow> bh_ir_kernel \<Rightarrow> nat \<Rightarrow> nat list \<Rightarrow> GraphDW \<Rightarrow> GraphDW option" where
  "link_vertices env k d [] g = Some g"
| "link_vertices env k d (v # vs) g =
     (if length (kernels g) \<le> v then None
      else if d \<noteq> v \<and> \<not> path env g v d False then
        do { dep \<leftarrow> dependency (release env) (instr_list env) k (kernels g ! v);
             c_assert env (Some (dep = 0 \<or> dep = 1));
             let g = (if dep \<noteq> 0 then g\<lparr>dedges := insert (v, d) (dedges g)\<rparr> else g);
             cost \<leftarrow> merge_cost_savings (release env) (fuse_model env) (base_type env) (instr_list env) False k (kernels g ! v);
             link_vertices env k d vs
               (if 0 < cost \<or> cost = 0 \<and> dep \<noteq> 0 then g\<lparr>wedges := add_weight v d cost (wedges g)\<rparr> else g) }
      else link_vertices env k d vs g)"

fun link_bases :: "dag_env \<Rightarrow> bh_ir_kernel \<Rightarrow> nat \<Rightarrow> ptr list \<Rightarrow> GraphDW \<Rightarrow> GraphDW option" where
  "link_bases env k d [] g = Some g"
| "link_bases env k d (b # bs) g =
     (case base2vertices g b of
        None \<Rightarrow> link_bases env k d bs (g\<lparr>base2vertices := (base2vertices g)(b \<mapsto> {d})\<rparr>)
      | Some vs \<Rightarrow>
          do { g \<leftarrow> link_vertices env k d (sorted_list_of_set vs) g;
               link_bases env k d bs (g\<lparr>base2vertices := (base2vertices g)(b \<mapsto> insert d vs)\<rparr>) })"

definition add_vertex :: "dag_env \<Rightarrow> bh_ir_kernel \<Rightarrow> GraphDW \<Rightarrow> (nat \<times> GraphDW) option" where
  "add_vertex env k g =
     (let d = length (kernels g);
          g = g\<lparr>kernels := kernels g @ [k], wnum := wnum g + 1\<rparr>
      in do { g \<leftarrow> link_bases env k d (sorted_list_of_set (kernel_bases (instr_list env) k)) g;
              Some (d, g) })"

definition add_from_subgraph :: "dag_env \<Rightarrow> nat set \<Rightarrow> GraphDW \<Rightarrow> GraphDW \<Rightarrow> GraphDW" where
  "add_from_subgraph env sub_graph dag g =
     (let vs = sorted_list_of_set sub_graph;
          n = length (kernels g);
          dag2this = (\<lambda>v. the (map_of (zip vs [n..<n + length vs]) v));
          inside = (\<lambda>e. fst e \<in> sub_graph \<and> snd e \<in> sub_graph)
      in g\<lparr>kernels := kernels g @ map (\<lambda>v. kernels dag ! v) vs,
           wnum := wnum g + length vs,
           dedges := dedges g \<union> map_prod dag2this dag2this ` {e \<in> dedges dag. inside e},
           wedges := fold (\<lambda>(e, w). add_weight (dag2this (fst e)) (dag2this (snd e)) w)
                       (filter (\<lambda>(e, w). inside e) (weight_edges env (wedges dag))) (wedges g)\<rparr>)"

subsection \<open>Removing edges and vertices\<close>

definition remove_edges :: "nat \<Rightarrow> nat \<Rightarrow> GraphDW \<Rightarrow> GraphDW" where
  "remove_edges v1 v2 g = g\<lparr>dedges := dedges g - {(v1, v2)} - {(v2, v1)},
     wedges := filter (\<lambda>e. \<not> connects v1 v2 (fst e)) (wedges g)\<rparr>"

definition clear_vertex :: "nat \<Rightarrow> GraphDW \<Rightarrow> GraphDW" where
  "clear_vertex v g = g\<lparr>dedges := {e \<in> dedges g. \<not> incident v e},
     wedges := filter (\<lambda>e. \<not> incident v (fst e)) (wedges g),
     kernels := (kernels g)[v := kernel_clear (kernels g ! v)]\<rparr>"

text \<open>Removing a vertex renumbers the later ones; the library requires that it has no edges.\<close>

definition renumber :: "nat \<Rightarrow> nat \<Rightarrow> nat" where
  "renumber v u = (if v < u then u - 1 else u)"

definition remove_vertex :: "nat \<Rightarrow> GraphDW \<Rightarrow> GraphDW option" where
  "remove_vertex v g =
     (if (\<exists>e \<in> dedges g. incident v e) \<or> (\<exists>e \<in> set (wedges g). incident v (fst e)) then None
      else Some (g\<lparr>kernels := take v (kernels g) @ drop (Suc v) (kernels g),
                   dedges := map_prod (renumber v) (renumber v) ` dedges g,
                   wnum := wnum g - 1,
                   wedges := map (map_prod (map_prod (renumber v) (renumber v)) id) (wedges g)\<rparr>))"

fun remove_vertices :: "nat list \<Rightarrow> GraphDW \<Rightarrow> GraphDW option" where
  "remove_vertices [] g = Some g"
| "remove_vertices (v # vs) g = do { g \<leftarrow> remove_vertex v g; remove_vertices vs g }"

definition remove_cleared_vertices :: "GraphDW \<Rightarrow> GraphDW option" where
  "remove_cleared_vertices g =
     (let removes = filter (\<lambda>v. instr_indexes (kernels g ! v) = []) [0..<length (kernels g)]
      in remove_vertices (rev removes) g)"

subsection \<open>Validation\<close>

definition precedence_check :: "dag_env \<Rightarrow> GraphDW \<Rightarrow> bool option" where
  "precedence_check env g =
     all_opt (\<lambda>v1. all_opt (\<lambda>v2.
         if v1 \<noteq> v2 then
           do { dep \<leftarrow> dependency (release env) (instr_list env) (kernels g ! v1) (kernels g ! v2);
                Some (\<not> (dep = 1 \<and> \<not> path env g v2 v1 False)) }
         else Some True) [0..<length (kernels g)]) [0..<length (kernels g)]"

definition weight_check :: "dag_env \<Rightarrow> GraphDW \<Rightarrow> bool option" where
  "weight_check env g =
     all_opt (\<lambda>(src, dst). do { cost \<leftarrow> savings env (kernels g) src dst;
         Some (if cost \<noteq> - 1 then
                 (case find (\<lambda>e. connects src dst (fst e)) (wedges g) of
                    Some e \<Rightarrow> snd e = cost
                  | None \<Rightarrow> False)
               else True) })
       (sorted_list_of_set (dedges g))"

definition transitivity_check :: "dag_env \<Rightarrow> GraphDW \<Rightarrow> bool" where
  "transitivity_check env g \<longleftrightarrow>
     (\<forall>e \<in> dedges g. \<not> path env g (fst e) (snd e) True) \<and>
     (\<forall>e \<in> set (wedges g). \<not> path env g (fst (fst e)) (snd (fst e)) True)"

definition dag_validate :: "dag_env \<Rightarrow> GraphDW \<Rightarrow> bool \<Rightarrow> bool option" where
  "dag_validate env g transitivity_allowed =
     (if length (kernels g) \<noteq> wnum g then Some False
      else if \<not> distinct (concat (map instr_indexes (kernels g))) then Some False
      else if cycles (graph_lib env) (length (kernels g)) (dedges g) then Some False
      else do { p \<leftarrow> precedence_check env g;
                if \<not> p then Some False
                else do { w \<leftarrow> weight_check env g;
                          if \<not> w then Some False
                          else Some (transitivity_allowed \<or> transitivity_check env g) } })"

fun validate_loop :: "dag_env \<Rightarrow> bool \<Rightarrow> GraphDW list \<Rightarrow> nat set \<Rightarrow> nat set option option" where
  "validate_loop env ta [] seen = Some (Some seen)"
| "validate_loop env ta (g # gs) seen =
     do { v \<leftarrow> dag_validate env g ta;
          if \<not> v then Some None
          else let is = concat (map instr_indexes (kernels g))
               in if \<not> distinct is \<or> set is \<inter> seen \<noteq> {} then Some None
                  else validate_loop env ta gs (seen \<union> set is) }"

definition dags_validate :: "dag_env \<Rightarrow> GraphDW list \<Rightarrow> bool \<Rightarrow> bool option" where
  "dags_validate env dags transitivity_allowed =
     do { r \<leftarrow> validate_loop env transitivity_allowed dags {};
          case r of
            None \<Rightarrow> Some False
          | Some seen \<Rightarrow> Some (list_all (\<lambda>i. i \<in> seen) [0..<length (instr_list env)]) }"

subsection \<open>Merging vertices\<close>

fun reweigh :: "dag_env \<Rightarrow> bh_ir_kernel list \<Rightarrow> nat \<Rightarrow> (edge \<times> int) list \<Rightarrow> (edge \<times> int) list option" where
  "reweigh env ks a [] = Some []"
| "reweigh env ks a ((e, w) # ws) =
     (if incident a e then
        do { cost \<leftarrow> savings env ks a (if fst e = a then snd e else fst e);
             ws \<leftarrow> reweigh env ks a ws;
             Some (if 0 \<le> cost then (e, cost) # ws else ws) }
      else do { ws \<leftarrow> reweigh env ks a ws; Some ((e, w) # ws) })"

definition merge_instrs :: "dag_env \<Rightarrow> nat \<Rightarrow> nat \<Rightarrow> bool \<Rightarrow> bh_ir_kernel list \<Rightarrow> bh_ir_kernel list option" where
  "merge_instrs env a b a_before_b ks =
     (if a_before_b then
        do { k \<leftarrow> add_instrs (instr_list env) (instr_indexes (ks ! b)) (ks ! a);
             Some (ks[a := k]) }
      else
        do { k \<leftarrow> add_instrs (instr_list env) (instr_indexes (ks ! a)) (ks ! b);
             Some (ks[b := k, a := k]) })"

definition move_edges :: "nat \<Rightarrow> nat \<Rightarrow> GraphDW \<Rightarrow> GraphDW" where
  "move_edges a b g =
     (let succs = filter (\<lambda>v. a \<noteq> v) (adjacent_vertices b (dedges g));
          preds = filter (\<lambda>v. a \<noteq> v) (inv_adjacent_vertices b (dedges g));
          near = filter (\<lambda>v. a \<noteq> v) (wadjacent_vertices b (wedges g))
      in g\<lparr>dedges := dedges g \<union> (\<lambda>v. (a, v)) ` set succs \<union> (\<lambda>v. (v, a)) ` set preds,
           wedges := fold (\<lambda>v. add_weight a v 0) (succs @ preds @ near) (wedges g)\<rparr>)"

definition merge_vertices :: "dag_env \<Rightarrow> nat \<Rightarrow> nat \<Rightarrow> bool \<Rightarrow> GraphDW \<Rightarrow> GraphDW option" where
  "merge_vertices env a b a_before_b g =
     do { c_assert env (fusible_kernel (fuse_model env) (instr_list env) (kernels g ! a) (kernels g ! b));
          ks \<leftarrow> merge_instrs env a b a_before_b (kernels g);
          let g = clear_vertex b (move_edges a b (g\<lparr>kernels := ks\<rparr>));
          ws \<leftarrow> reweigh env (kernels g) a (wedges g);
          let g = g\<lparr>wedges := ws\<rparr>;
          c_assert env (dag_validate env g True);
          Some g }"

definition transitive_reduction :: "dag_env \<Rightarrow> GraphDW \<Rightarrow> GraphDW option" where
  "transitive_reduction env g =
     (let g = g\<lparr>dedges := {e \<in> dedges g. \<not> path env g (fst e) (snd e) True}\<rparr>;
          g = g\<lparr>wedges := filter (\<lambda>((a, b), w). (a, b) \<in> dedges g \<or> (b, a) \<in> dedges g \<or>
                            \<not> (path env g a b True \<or> path env g b a True)) (wedges g)\<rparr>
      in do { c_assert env (dag_validate env g False); Some g })"

subsection \<open>From and to lists of kernels\<close>

definition base_in_kernel :: "program \<Rightarrow> bh_ir_kernel \<Rightarrow> ptr \<Rightarrow> bool" where
  "base_in_kernel prog k b =
     list_ex (\<lambda>i. list_ex (\<lambda>t. \<not> bh_is_constant (operand (prog ! i) ! t) \<and> base (operand (prog ! i) ! t) = b)
        [0..<bh_operands (opcode (prog ! i))]) (instr_indexes k)"

text \<open>The instructions from \<open>idx\<close> on that join the kernel, and the index of the first that does not.\<close>

function gentle_loop :: "program \<Rightarrow> nat \<Rightarrow> bh_ir_kernel \<Rightarrow> (nat \<times> bh_ir_kernel) option" where
  "gentle_loop prog idx k =
     (if idx < length prog then
        (if bh_opcode_is_system (opcode (prog ! idx)) \<and> bh_operands (opcode (prog ! idx)) = 1 \<and>
            base_in_kernel prog k (base (operand (prog ! idx) ! 0))
         then do { k \<leftarrow> add_instr prog idx k; gentle_loop prog (Suc idx) k }
         else Some (idx, k))
      else Some (idx, k))"
  by pat_completeness auto
termination by (relation "measure (\<lambda>(prog, idx, k). length prog - idx)") auto

declare gentle_loop.simps [simp del]

lemma gentle_loop_mono: "gentle_loop prog idx k = Some (idx', k') \<Longrightarrow> idx \<le> idx'"
proof (induction prog idx k rule: gentle_loop.induct)
  case (1 prog idx k)
  show ?case
    using 1(2) by (subst (asm) gentle_loop.simps) (auto simp: bind_eq_Some_conv split: if_splits dest!: 1(1))
qed

function from_bhir_loop :: "dag_env \<Rightarrow> nat \<Rightarrow> GraphDW \<Rightarrow> GraphDW option" where
  "from_bhir_loop env idx g =
     (if idx < length (instr_list env) then
        do { k \<leftarrow> add_instr (instr_list env) idx bh_ir_kernel_new;
             (idx, k) \<leftarrow> gentle_loop (instr_list env) (idx + 1) k;
             (d, g) \<leftarrow> add_vertex env k g;
             from_bhir_loop env idx g }
      else Some g)"
  by pat_completeness auto
termination
  by (relation "measure (\<lambda>(env, idx, g). length (instr_list env) - idx)")
    (auto dest!: gentle_loop_mono)

declare from_bhir_loop.simps [simp del]

text \<open>\<open>Inl\<close> is the exception \<^verbatim>\<open>logic_error\<close>.\<close>

definition from_bhir :: "dag_env \<Rightarrow> bh_ir_kernel list \<Rightarrow> GraphDW \<Rightarrow> (string + GraphDW) option" where
  "from_bhir env kernel_list dag =
     do { c_assert env (Some (kernels dag = []));
          if kernel_list \<noteq> [] then Some (Inl ''The kernel_list is not empty!'')
          else do { dag \<leftarrow> from_bhir_loop env 0 dag;
                    c_assert env (dag_validate env dag True);
                    Some (Inr dag) } }"

fun from_kernels_loop :: "dag_env \<Rightarrow> bh_ir_kernel list \<Rightarrow> GraphDW \<Rightarrow> GraphDW option" where
  "from_kernels_loop env [] dag = Some dag"
| "from_kernels_loop env (k # ks) dag =
     (if 0 < length (instr_indexes k)
      then do { (d, dag) \<leftarrow> add_vertex env k dag; from_kernels_loop env ks dag }
      else from_kernels_loop env ks dag)"

definition from_kernels :: "dag_env \<Rightarrow> bh_ir_kernel list \<Rightarrow> GraphDW \<Rightarrow> GraphDW option" where
  "from_kernels env ks dag =
     do { c_assert env (Some (kernels dag = []));
          dag \<leftarrow> from_kernels_loop env ks dag;
          c_assert env (dag_validate env dag True);
          Some dag }"

definition fill_kernel_list :: "dag_env \<Rightarrow> GraphDW \<Rightarrow> bh_ir_kernel list \<Rightarrow> bh_ir_kernel list option" where
  "fill_kernel_list env dag kernel_list =
     do { topological_order \<leftarrow> topo (graph_lib env) (length (kernels dag)) (dedges dag);
          Some (kernel_list @ filter (\<lambda>k. \<not> is_noop (instr_list env) k)
                  (map (\<lambda>v. kernels dag ! v) (rev topological_order))) }"

definition dag_cost :: "dag_env \<Rightarrow> GraphDW \<Rightarrow> 64 word" where
  "dag_cost env dag = sum_list (map (kernel_cost (base_type env)) (kernels dag))"

subsection \<open>Fusing\<close>

text \<open>The first vertex of the list with a single edge into whose neighbour it fits, and the graph
  after the merge.\<close>

fun gently_scan :: "dag_env \<Rightarrow> GraphDW \<Rightarrow> nat list \<Rightarrow> (nat \<times> GraphDW) option option" where
  "gently_scan env g [] = Some None"
| "gently_scan env g (it # rest) =
     (let succs = adjacent_vertices it (dedges g);
          preds = inv_adjacent_vertices it (dedges g)
      in if preds = [] \<and> length succs = 1 \<and> input_and_output_subset_of (kernels g ! it) (kernels g ! hd succs) then
           do { f \<leftarrow> fusible_kernel (fuse_model env) (instr_list env) (kernels g ! it) (kernels g ! hd succs);
                g \<leftarrow> (if f then merge_vertices env (hd succs) it False g else Some g);
                Some (Some (it, g)) }
         else if length preds = 1 \<and> succs = [] \<and> input_and_output_subset_of (kernels g ! it) (kernels g ! hd preds) then
           do { f \<leftarrow> fusible_kernel (fuse_model env) (instr_list env) (kernels g ! it) (kernels g ! hd preds);
                g \<leftarrow> (if f then merge_vertices env (hd preds) it True g else Some g);
                Some (Some (it, g)) }
         else gently_scan env g rest)"

lemma gently_scan_mem: "gently_scan env g vs = Some (Some (it, g')) \<Longrightarrow> it \<in> set vs"
  by (induction env g vs rule: gently_scan.induct) (auto simp: Let_def bind_eq_Some_conv split: if_splits)

function gently_loop :: "dag_env \<Rightarrow> nat list \<Rightarrow> GraphDW \<Rightarrow> GraphDW option" where
  "gently_loop env vs g =
     (if vs = [] then Some g
      else do { r \<leftarrow> gently_scan env g vs;
                case r of
                  None \<Rightarrow> Some g
                | Some (it, g) \<Rightarrow> gently_loop env (remove1 it vs) g })"
  by pat_completeness auto
termination
  by (relation "measure (\<lambda>(env, vs, g). length vs)")
    (auto dest!: gently_scan_mem simp: length_remove1 dest: length_pos_if_in_set)

declare gently_loop.simps [simp del]

definition fuse_gently :: "dag_env \<Rightarrow> GraphDW \<Rightarrow> GraphDW option" where
  "fuse_gently env dag =
     do { dag \<leftarrow> gently_loop env [0..<length (kernels dag)] dag;
          dag \<leftarrow> remove_cleared_vertices dag;
          c_assert env (dag_validate env dag True);
          Some dag }"

definition greatest_edge :: "(edge \<times> int) list \<Rightarrow> edge \<times> int" where
  "greatest_edge es = fold (\<lambda>e greatest. if snd greatest < snd e then e else greatest) es (hd es)"

definition greedy_step :: "dag_env \<Rightarrow> GraphDW \<Rightarrow> GraphDW option" where
  "greedy_step env g =
     (let (v1, v2) = fst (greatest_edge (weight_edges env (wedges g)))
      in if path env g v1 v2 True \<or> path env g v2 v1 True then Some (remove_edges v1 v2 g)
         else do { dep \<leftarrow> dependency (release env) (instr_list env) (kernels g ! v1) (kernels g ! v2);
                   if dep = 1 then merge_vertices env v2 v1 True g else merge_vertices env v1 v2 True g })"

partial_function (option) greedy_loop :: "dag_env \<Rightarrow> GraphDW \<Rightarrow> GraphDW option" where
  "greedy_loop env g =
     (if wedges g = [] then Some g else do { g \<leftarrow> greedy_step env g; greedy_loop env g })"

declare greedy_loop.simps [code]

definition fuse_greedy :: "dag_env \<Rightarrow> GraphDW \<Rightarrow> GraphDW option" where
  "fuse_greedy env dag =
     do { dag \<leftarrow> greedy_loop env dag;
          dag \<leftarrow> remove_cleared_vertices dag;
          c_assert env (dag_validate env dag True);
          Some dag }"

end
