(* ===== verification/Bh_DagInv.thy ===== *)
theory Bh_DagInv
  imports Bh_Dag Bh_Graph "HOL-Library.Multiset"
begin

text \<open>
  The invariant of the kernel graph and its preservation by the algorithms of \<^verbatim>\<open>core/bh_dag.cpp\<close> in a
  build with \<^verbatim>\<open>NDEBUG\<close>: the dependency graph is acyclic, every dependency between instructions of
  different kernels is a path, within a kernel dependent instructions keep the order of the program,
  and every instruction is in exactly one kernel.
\<close>

subsection \<open>The searches\<close>

context boost_graph
begin

lemma path_exist_short:
  assumes "in_range n E" and "a < n"
  shows "path_exist B n E a b False \<longleftrightarrow> (a, b) \<in> E\<^sup>+"
  unfolding path_exist_def list_ex_iff bfs_edges [OF assms]
  by (auto intro: rtrancl_into_trancl1 dest: tranclD2)

lemma path_exist_long:
  assumes "in_range n E" and "a < n"
  shows "path_exist B n E a b True \<longleftrightarrow> long_path E a b"
  unfolding path_exist_def list_ex_iff bfs_edges [OF assms] long_path_def by auto

lemma cycles_iff: "in_range n E \<Longrightarrow> cycles B n E \<longleftrightarrow> \<not> acyclic E"
  using topo_None [of n E] by (auto simp: cycles_def split: option.split)

end

subsection \<open>The invariant\<close>

definition env_ok :: "dag_env \<Rightarrow> bool" where
  "env_ok env \<longleftrightarrow> boost_graph (graph_lib env) \<and> release env \<and> fuse_model env \<noteq> NUM_OF_MODELS \<and>
     (\<forall>i \<in> set (instr_list env). 0 < ndim (operand i ! 0))"

abbreviation dep :: "dag_env \<Rightarrow> nat \<Rightarrow> nat \<Rightarrow> bool" where
  "dep env \<equiv> instr_dep (instr_list env)"

definition instrs :: "GraphDW \<Rightarrow> nat list" where
  "instrs g = concat (map instr_indexes (kernels g))"

definition live :: "GraphDW \<Rightarrow> nat set" where
  "live g = {v. v < length (kernels g) \<and> instr_indexes (kernels g ! v) \<noteq> []}"

definition precedence :: "dag_env \<Rightarrow> GraphDW \<Rightarrow> bool" where
  "precedence env g \<longleftrightarrow> (\<forall>u \<in> live g. \<forall>v \<in> live g. u \<noteq> v \<longrightarrow>
     (\<forall>i \<in> set (instr_indexes (kernels g ! u)). \<forall>j \<in> set (instr_indexes (kernels g ! v)).
        i < j \<and> dep env i j \<longrightarrow> (u, v) \<in> (dedges g)\<^sup>+))"

definition in_order :: "dag_env \<Rightarrow> nat list \<Rightarrow> bool" where
  "in_order env is \<longleftrightarrow> sorted_wrt (\<lambda>i j. dep env i j \<longrightarrow> i < j) is"

definition graph_ok :: "dag_env \<Rightarrow> GraphDW \<Rightarrow> bool" where
  "graph_ok env g \<longleftrightarrow> wnum g = length (kernels g) \<and> dedges g \<subseteq> live g \<times> live g \<and> acyclic (dedges g) \<and>
     fst ` set (wedges g) \<subseteq> {(u, v). u \<in> live g \<and> v \<in> live g \<and> u \<noteq> v} \<and>
     distinct (instrs g) \<and> set (instrs g) \<subseteq> {..<length (instr_list env)} \<and>
     precedence env g \<and> (\<forall>k \<in> set (kernels g). in_order env (instr_indexes k))"

lemma graph_ok_path:
  "graph_ok env g \<Longrightarrow> u \<in> live g \<Longrightarrow> v \<in> live g \<Longrightarrow> u \<noteq> v \<Longrightarrow> i \<in> set (instr_indexes (kernels g ! u)) \<Longrightarrow>
   j \<in> set (instr_indexes (kernels g ! v)) \<Longrightarrow> i < j \<Longrightarrow> dep env i j \<Longrightarrow> (u, v) \<in> (dedges g)\<^sup>+"
  unfolding graph_ok_def precedence_def by blast

lemma dep_sym: "instr_dep prog i j = instr_dep prog j i"
  by (auto simp: bh_instr_dependency_def dep_loop_iff Let_def)

lemma live_less: "v \<in> live g \<Longrightarrow> v < length (kernels g)"
  by (simp add: live_def)

lemma finite_live [simp]: "finite (live g)"
  by (simp add: live_def)

lemma graph_ok_range: "graph_ok env g \<Longrightarrow> in_range (length (kernels g)) (dedges g)"
  by (fastforce simp: graph_ok_def in_range_def live_def)

lemma graph_ok_finite: "graph_ok env g \<Longrightarrow> finite (dedges g)"
  by (meson graph_ok_range in_range_finite)

lemma path_iff:
  assumes "env_ok env" and "graph_ok env g" and "v < length (kernels g)"
  shows "path env g v u False \<longleftrightarrow> (v, u) \<in> (dedges g)\<^sup>+" and "path env g v u True \<longleftrightarrow> long_path (dedges g) v u"
  using assms boost_graph.path_exist_short [OF _ graph_ok_range [OF assms(2)] assms(3)]
    boost_graph.path_exist_long [OF _ graph_ok_range [OF assms(2)] assms(3)]
  by (auto simp: env_ok_def)

lemma instrs_nth: "v < length (kernels g) \<Longrightarrow> i \<in> set (instr_indexes (kernels g ! v)) \<Longrightarrow> i \<in> set (instrs g)"
  by (auto simp: instrs_def)

lemma distinct_concat_parts:
  "distinct (concat xs) \<Longrightarrow> u < length xs \<Longrightarrow> v < length xs \<Longrightarrow> u \<noteq> v \<Longrightarrow> set (xs ! u) \<inter> set (xs ! v) = {}"
proof (induction xs arbitrary: u v)
  case (Cons x xs)
  have "set (xs ! w) \<subseteq> (\<Union>a \<in> set xs. set a)" if "w < length xs" for w using that nth_mem by blast
  then show ?case using Cons by (cases u; cases v) (auto, blast+)
qed simp

lemma instrs_disjoint:
  assumes "graph_ok env g" and "u < length (kernels g)" and "v < length (kernels g)" and "u \<noteq> v"
  shows "set (instr_indexes (kernels g ! u)) \<inter> set (instr_indexes (kernels g ! v)) = {}"
  using assms distinct_concat_parts [of "map instr_indexes (kernels g)" u v] by (simp add: graph_ok_def instrs_def)

subsection \<open>Questions about kernels always have an answer\<close>

definition kernel_valid :: "dag_env \<Rightarrow> bh_ir_kernel \<Rightarrow> bool" where
  "kernel_valid env k \<longleftrightarrow> set (instr_indexes k) \<subseteq> {..<length (instr_list env)}"

lemma graph_ok_valid: "graph_ok env g \<Longrightarrow> v < length (kernels g) \<Longrightarrow> kernel_valid env (kernels g ! v)"
  by (fastforce simp: graph_ok_def kernel_valid_def intro: instrs_nth)

lemma fusible_by_total:
  assumes "fm \<noteq> NUM_OF_MODELS" and "0 < ndim (operand a ! 0)" and "0 < ndim (operand b ! 0)"
  shows "\<exists>r. fusible_by fm a b = Some r"
proof -
  have "\<exists>s. bh_is_scalar v = Some s" if "0 < ndim v" for v
    using that by (simp add: bh_is_scalar_def bh_nelements_view_def bh_nelements_def)
  then have "\<exists>s. instr_scalar i = Some s" if "0 < ndim (operand i ! 0)" for i
    using \<open>\<And>v. 0 < ndim v \<Longrightarrow> \<exists>s. bh_is_scalar v = Some s\<close> [OF that] by (auto simp: instr_scalar_def)
  then have "\<exists>s. instr_scalar a = Some s" "\<exists>s. instr_scalar b = Some s" using assms by blast+
  then have "\<exists>r. fuse_no_xsweep_scalar_seperate a b = Some r"
    by (auto simp: fuse_no_xsweep_scalar_seperate_def)
  then show ?thesis
    using assms(1) by (cases fm) (auto simp: fusible_by_def fuse_no_xsweep_scalar_seperate_shape_match_def Let_def)
qed

lemma env_ok_nth: "env_ok env \<Longrightarrow> i < length (instr_list env) \<Longrightarrow> 0 < ndim (operand (instr_list env ! i) ! 0)"
  by (simp add: env_ok_def)

lemma fusible_loop_total:
  assumes "env_ok env" and "i < length (instr_list env)" and "set js \<subseteq> {..<length (instr_list env)}"
  shows "\<exists>r. fusible_loop (fuse_model env) (instr_list env) (instr_list env ! i) js = Some r"
  using assms(3)
proof (induction js)
  case (Cons j js)
  obtain r where "fusible_by (fuse_model env) (instr_list env ! i) (instr_list env ! j) = Some r"
    using fusible_by_total [of "fuse_model env" "instr_list env ! i" "instr_list env ! j"] env_ok_nth [OF assms(1)]
      assms(2) Cons.prems assms(1) by (auto simp: env_ok_def)
  then show ?case using Cons by auto
qed auto

lemma fusible_kernel_total:
  assumes "env_ok env" and "kernel_valid env k" and "kernel_valid env l"
  shows "\<exists>r. fusible_kernel (fuse_model env) (instr_list env) k l = Some r"
proof -
  have "\<exists>r. fusible_kernel_loop (fuse_model env) (instr_list env) is (instr_indexes l) = Some r"
    if "set is \<subseteq> {..<length (instr_list env)}" for "is"
    using that
  proof (induction "is")
    case (Cons i "is")
    obtain r where "fusible_loop (fuse_model env) (instr_list env) (instr_list env ! i) (instr_indexes l) = Some r"
      using fusible_loop_total [OF assms(1), of i "instr_indexes l"] Cons.prems assms(3) by (auto simp: kernel_valid_def)
    then show ?case using Cons by auto
  qed auto
  then show ?thesis using assms(2) by (simp add: fusible_kernel_def kernel_valid_def)
qed

lemma dependency_loop_total: "\<exists>d. dependency_loop True prog i is r = Some d"
  by (induction "is" arbitrary: r) auto

lemma dependency_total: "\<exists>d. dependency True prog k l = Some d"
proof -
  have "\<exists>d. dependency_kernel_loop True prog k js r = Some d" for js r
  proof (induction js arbitrary: r)
    case (Cons j js)
    obtain d where "dependency_instr True prog k j = Some d"
      using dependency_loop_total unfolding dependency_instr_def by blast
    then show ?case using Cons by auto
  qed simp
  then show ?thesis by (simp add: dependency_def)
qed

lemma savings_total:
  assumes "env_ok env" and "kernel_valid env k" and "kernel_valid env l"
  shows "\<exists>c. merge_cost_savings (release env) (fuse_model env) (base_type env) (instr_list env) same k l = Some c"
proof -
  obtain r where "fusible_kernel (fuse_model env) (instr_list env) k l = Some r"
    using fusible_kernel_total [OF assms] by blast
  moreover obtain d where "dependency (release env) (instr_list env) k l = Some d"
    using dependency_total [of "instr_list env" k l] assms(1) by (auto simp: env_ok_def)
  ultimately show ?thesis by (auto simp: merge_cost_savings_def)
qed

lemma dependency_value:
  assumes "dep_dirs prog (instr_indexes k) (instr_indexes l) \<subseteq> {d}" and "d \<noteq> 0"
  shows "dependency True prog k l = Some (if dep_dirs prog (instr_indexes k) (instr_indexes l) = {} then 0 else d)"
  unfolding dependency_def by (rule dependency_kernel_release) (use assms in auto)

subsection \<open>Merging two vertices\<close>

lemma set_adjacent [simp]:
  "finite E \<Longrightarrow> set (adjacent_vertices v E) = {u. (v, u) \<in> E}"
  "finite E \<Longrightarrow> set (inv_adjacent_vertices v E) = {u. (u, v) \<in> E}"
  by (auto simp: adjacent_vertices_def inv_adjacent_vertices_def image_iff)

lemma fst_add_weight: "fst ` set (add_weight u v w ws) \<subseteq> insert (u, v) (fst ` set ws)"
  by (auto simp: add_weight_def)

lemma fst_add_weights: "fst ` set (fold (\<lambda>v. add_weight a v 0) vs ws) \<subseteq> (\<lambda>v. (a, v)) ` set vs \<union> fst ` set ws"
proof (induction vs arbitrary: ws)
  case (Cons v vs)
  show ?case using Cons.IH [of "add_weight a v 0 ws"] fst_add_weight [of a v 0 ws] by auto
qed simp

lemma set_wadjacent: "u \<in> set (wadjacent_vertices v ws) \<Longrightarrow> (v, u) \<in> fst ` set ws \<or> (u, v) \<in> fst ` set ws"
  unfolding wadjacent_vertices_def by (force simp: incident_def)

lemma add_instrs_indexes: "add_instrs prog is k = Some k' \<Longrightarrow> instr_indexes k' = instr_indexes k @ is"
  by (induction "is" arbitrary: k) (auto simp: bind_eq_Some_conv dest!: add_instr_indexes)

lemma add_instrs_total:
  assumes "env_ok env" and "set is \<subseteq> {..<length (instr_list env)}"
  shows "\<exists>k'. add_instrs (instr_list env) is k = Some k'"
  using assms(2)
proof (induction "is" arbitrary: k)
  case (Cons i "is")
  obtain k1 where "add_instr (instr_list env) i k = Some k1"
    using add_instr_total [of i "instr_list env" k] Cons.prems env_ok_nth [OF assms(1)] by auto
  then show ?case using Cons by auto
qed simp

lemma merge_instrs_result:
  assumes "env_ok env" and "a < length ks" and "b < length ks" and "a \<noteq> b"
    and "kernel_valid env (ks ! a)" and "kernel_valid env (ks ! b)"
  obtains k ks' where "merge_instrs env a b f ks = Some ks'" and "length ks' = length ks"
    and "instr_indexes k = (if f then instr_indexes (ks ! a) @ instr_indexes (ks ! b)
                            else instr_indexes (ks ! b) @ instr_indexes (ks ! a))"
    and "\<And>c. ks'[b := c] = ks[a := k, b := c]"
proof (cases f)
  case True
  obtain k where k: "add_instrs (instr_list env) (instr_indexes (ks ! b)) (ks ! a) = Some k"
    using add_instrs_total [OF assms(1)] assms(6) unfolding kernel_valid_def by blast
  show ?thesis
    by (rule that [of "ks[a := k]" k]) (use True add_instrs_indexes [OF k] in \<open>simp_all add: merge_instrs_def k\<close>)
next
  case False
  obtain k where k: "add_instrs (instr_list env) (instr_indexes (ks ! a)) (ks ! b) = Some k"
    using add_instrs_total [OF assms(1)] assms(5) unfolding kernel_valid_def by blast
  have "ks[b := k, a := k, b := c] = ks[a := k, b := c]" for c
    using assms(4) by (simp add: list_update_swap [of b a])
  then show ?thesis
    by (intro that [of "ks[b := k, a := k]" k]) (use False add_instrs_indexes [OF k] in \<open>simp_all add: merge_instrs_def k\<close>)
qed

lemma merged_edges:
  assumes loops: "\<And>v. (v, v) \<notin> E" and "finite E" and "a \<noteq> b"
  shows "{e \<in> E \<union> (\<lambda>v. (a, v)) ` set (filter (\<lambda>v. a \<noteq> v) (adjacent_vertices b E)) \<union>
              (\<lambda>v. (v, a)) ` set (filter (\<lambda>v. a \<noteq> v) (inv_adjacent_vertices b E)). \<not> incident b e} = contract_edges a b E"
  using loops assms(2,3) by (auto simp: incident_def contract_edges_def contract_def) (metis+)

lemma reweigh_total:
  assumes "env_ok env" and "\<forall>k \<in> set ks. kernel_valid env k" and "a < length ks"
    and "fst ` set ws \<subseteq> {..<length ks} \<times> {..<length ks}"
  shows "\<exists>ws'. reweigh env ks a ws = Some ws' \<and> fst ` set ws' \<subseteq> fst ` set ws"
  using assms(4)
proof (induction ws)
  case (Cons ew ws)
  obtain e w where ew: "ew = (e, w)" by (cases ew)
  obtain ws' where ws': "reweigh env ks a ws = Some ws'" "fst ` set ws' \<subseteq> fst ` set ws" using Cons by auto
  have "\<exists>c. savings env ks a v = Some c" if "v < length ks" for v
    using savings_total [OF assms(1)] assms(2,3) that by (simp add: savings_def)
  then obtain c where "savings env ks a (if fst e = a then snd e else fst e) = Some c"
    using Cons.prems ew by (cases e) fastforce
  then show ?case using ws' ew by (auto simp: image_iff)
qed simp

lemma mset_concat_update2:
  assumes "a < length xs" and "b < length xs" and "a \<noteq> b" and "mset x = mset (xs ! a) + mset (xs ! b)"
  shows "mset (concat (xs[a := x, b := []])) = mset (concat xs)"
proof -
  have *: "mset (concat (ys[i := y])) + mset (ys ! i) = mset (concat ys) + mset y" if "i < length ys" for ys :: "'a list list" and i y
    using that by (induction ys arbitrary: i) (auto split: nat.split)
  show ?thesis
    using * [of a xs x] * [of b "xs[a := x]" "[]"] assms by (simp add: ac_simps)
qed

definition first_then :: "dag_env \<Rightarrow> nat list \<Rightarrow> nat list \<Rightarrow> bool" where
  "first_then env is js \<longleftrightarrow> (\<forall>i \<in> set is. \<forall>j \<in> set js. dep env i j \<longrightarrow> i < j)"

lemma in_order_append: "in_order env (is @ js) \<longleftrightarrow> in_order env is \<and> in_order env js \<and> first_then env is js"
  by (auto simp: in_order_def sorted_wrt_append first_then_def)

text \<open>What a merge does to the graph, apart from the weights.\<close>

definition merged :: "nat \<Rightarrow> nat \<Rightarrow> bool \<Rightarrow> GraphDW \<Rightarrow> GraphDW \<Rightarrow> bool" where
  "merged a b f g g' \<longleftrightarrow> (\<exists>k c. kernels g' = (kernels g)[a := k, b := c] \<and> instr_indexes c = [] \<and>
     instr_indexes k = (if f then instr_indexes (kernels g ! a) @ instr_indexes (kernels g ! b)
                        else instr_indexes (kernels g ! b) @ instr_indexes (kernels g ! a))) \<and>
     wnum g' = wnum g \<and> dedges g' = contract_edges a b (dedges g) \<and>
     fst ` set (wedges g') \<subseteq> {(u, v). u \<in> live g - {b} \<and> v \<in> live g - {b} \<and> u \<noteq> v}"

lemma merged_instrs:
  assumes "merged a b f g g'" and "a < length (kernels g)" and "b < length (kernels g)" and "a \<noteq> b"
  shows "mset (instrs g') = mset (instrs g)" and "length (kernels g') = length (kernels g)"
    and "\<And>v i. v < length (kernels g) \<Longrightarrow> i \<in> set (instr_indexes (kernels g' ! v)) \<longleftrightarrow>
           (\<exists>x < length (kernels g). contract a b x = v \<and> i \<in> set (instr_indexes (kernels g ! x)))"
proof -
  obtain k c where k: "kernels g' = (kernels g)[a := k, b := c]" "instr_indexes c = []"
    "instr_indexes k = (if f then instr_indexes (kernels g ! a) @ instr_indexes (kernels g ! b)
                        else instr_indexes (kernels g ! b) @ instr_indexes (kernels g ! a))"
    using assms(1) by (auto simp: merged_def)
  then show "mset (instrs g') = mset (instrs g)"
    using assms(2-4) mset_concat_update2 [of a "map instr_indexes (kernels g)" b "instr_indexes k"]
    by (simp add: instrs_def map_update)
  show "length (kernels g') = length (kernels g)" using k by simp
  show "i \<in> set (instr_indexes (kernels g' ! v)) \<longleftrightarrow>
      (\<exists>x < length (kernels g). contract a b x = v \<and> i \<in> set (instr_indexes (kernels g ! x)))"
    if v: "v < length (kernels g)" for v i
  proof -
    have "kernels g' ! v = (if v = b then c else if v = a then k else kernels g ! v)"
      using v assms(2-4) k(1) by simp
    moreover have "contract a b x = v \<longleftrightarrow> v \<noteq> b \<and> (x = v \<or> x = b \<and> v = a)" for x
      using assms(4) by (auto simp: contract_def)
    moreover have "i \<in> set (instr_indexes k) \<longleftrightarrow> i \<in> set (instr_indexes (kernels g ! a)) \<or> i \<in> set (instr_indexes (kernels g ! b))"
      using k(3) by auto
    ultimately show ?thesis using v assms(2,3) k(2) by auto
  qed
qed

lemma merged_live:
  assumes "merged a b f g g'" and "a \<in> live g" and "b \<in> live g" and "a \<noteq> b"
  shows "live g' = live g - {b}"
  using assms by (auto simp: merged_def live_def nth_list_update split: if_splits)

lemma merged_precedence:
  assumes "merged a b f g g'" and "graph_ok env g" and "a \<in> live g" and "b \<in> live g" and "a \<noteq> b"
  shows "precedence env g'"
  unfolding precedence_def
proof (intro ballI impI)
  fix u v i j
  assume uv: "u \<in> live g'" "v \<in> live g'" "u \<noteq> v"
    and ij: "i \<in> set (instr_indexes (kernels g' ! u))" "j \<in> set (instr_indexes (kernels g' ! v))" "i < j \<and> dep env i j"
  note ins = merged_instrs [OF assms(1) live_less live_less, OF assms(3-5)]
  have less: "u < length (kernels g)" "v < length (kernels g)" using uv ins(2) live_less by metis+
  obtain x y where xy: "x < length (kernels g)" "contract a b x = u" "i \<in> set (instr_indexes (kernels g ! x))"
      "y < length (kernels g)" "contract a b y = v" "j \<in> set (instr_indexes (kernels g ! y))"
    using ij ins(3) [OF less(1)] ins(3) [OF less(2)] by auto
  then have "x \<in> live g" "y \<in> live g" "x \<noteq> y" using uv(3) by (auto simp: live_def)
  then have "(x, y) \<in> (dedges g)\<^sup>+" using graph_ok_path [OF assms(2)] xy ij(3) by blast
  then show "(u, v) \<in> (dedges g')\<^sup>+"
    using contract_trancl [of x y "dedges g" a b] xy uv(3) assms(1) by (simp add: merged_def)
qed

lemma merged_ok:
  assumes "merged a b f g g'" and "graph_ok env g" and "a \<in> live g" and "b \<in> live g" and "a \<noteq> b"
    and "\<not> long_path (dedges g) a b" and "\<not> long_path (dedges g) b a"
    and "if f then first_then env (instr_indexes (kernels g ! a)) (instr_indexes (kernels g ! b))
              else first_then env (instr_indexes (kernels g ! b)) (instr_indexes (kernels g ! a))"
  shows "graph_ok env g'"
proof -
  note ins = merged_instrs [OF assms(1) live_less live_less, OF assms(3-5)]
  note lv = merged_live [OF assms(1,3,4,5)]
  have ok: "dedges g \<subseteq> live g \<times> live g" "acyclic (dedges g)" "distinct (instrs g)" "wnum g = length (kernels g)"
    "set (instrs g) \<subseteq> {..<length (instr_list env)}" "\<And>k. k \<in> set (kernels g) \<Longrightarrow> in_order env (instr_indexes k)"
    using assms(2) by (auto simp: graph_ok_def)
  have "dedges g' \<subseteq> live g' \<times> live g'"
  proof -
    have "contract a b x \<in> live g - {b}" if "x \<in> live g" for x using that assms(3,5) by (simp add: contract_def)
    moreover have "dedges g' = contract_edges a b (dedges g)" using assms(1) by (simp add: merged_def)
    ultimately show ?thesis using ok(1) unfolding lv by (auto simp: contract_edges_def)
  qed
  moreover have "acyclic (dedges g')"
    using assms(1,6,7) ok(2) graph_ok_finite [OF assms(2)] by (simp add: merged_def contract_acyclic)
  moreover have "distinct (instrs g')" "set (instrs g') \<subseteq> {..<length (instr_list env)}"
    using ok(3,5) ins(1) mset_eq_imp_distinct_iff mset_eq_setD by metis+
  moreover have "in_order env (instr_indexes l)" if "l \<in> set (kernels g')" for l
  proof -
    obtain k c where k: "kernels g' = (kernels g)[a := k, b := c]" "instr_indexes c = []"
      "instr_indexes k = (if f then instr_indexes (kernels g ! a) @ instr_indexes (kernels g ! b)
                          else instr_indexes (kernels g ! b) @ instr_indexes (kernels g ! a))"
      using assms(1) by (auto simp: merged_def)
    have "in_order env (instr_indexes (kernels g ! a))" "in_order env (instr_indexes (kernels g ! b))"
      using ok(6) assms(3,4) by (simp_all add: live_def)
    then have "in_order env (instr_indexes k)" using assms(8) k(3) by (auto simp: in_order_append split: if_splits)
    moreover have "in_order env (instr_indexes c)" using k(2) by (simp add: in_order_def)
    moreover have "l \<in> insert c (insert k (set (kernels g)))"
      using that k(1) by (auto dest!: set_update_subset_insert [THEN subsetD])
    ultimately show ?thesis using ok(6) by auto
  qed
  moreover have "wnum g' = length (kernels g')" using assms(1) ins(2) ok(4) by (simp add: merged_def)
  moreover have "fst ` set (wedges g') \<subseteq> {(u, v). u \<in> live g' \<and> v \<in> live g' \<and> u \<noteq> v}"
    using assms(1) unfolding lv by (simp add: merged_def)
  ultimately show ?thesis
    using merged_precedence [OF assms(1-5)] by (simp add: graph_ok_def)
qed

lemma graph_ok_wedge: "graph_ok env g \<Longrightarrow> (u, v) \<in> fst ` set (wedges g) \<Longrightarrow> u \<in> live g \<and> v \<in> live g \<and> u \<noteq> v"
  unfolding graph_ok_def by blast

lemma graph_ok_dedge: "graph_ok env g \<Longrightarrow> (u, v) \<in> dedges g \<Longrightarrow> u \<in> live g \<and> v \<in> live g \<and> u \<noteq> v"
  unfolding graph_ok_def acyclic_def by blast

lemma move_edges_weights:
  assumes "graph_ok env g" and "a \<in> live g" and "wedges g1 = wedges g" and "dedges g1 = dedges g"
  shows "fst ` set (wedges (clear_vertex b (move_edges a b g1))) \<subseteq> {(u, v). u \<in> live g - {b} \<and> v \<in> live g - {b} \<and> u \<noteq> v}"
proof
  fix e assume e: "e \<in> fst ` set (wedges (clear_vertex b (move_edges a b g1)))"
  let ?vs = "filter (\<lambda>v. a \<noteq> v) (adjacent_vertices b (dedges g)) @ filter (\<lambda>v. a \<noteq> v) (inv_adjacent_vertices b (dedges g)) @
    filter (\<lambda>v. a \<noteq> v) (wadjacent_vertices b (wedges g))"
  have ni: "\<not> incident b e" using e by (auto simp: clear_vertex_def)
  have "e \<in> fst ` set (wedges (move_edges a b g1))" using e by (force simp: clear_vertex_def)
  moreover have "wedges (move_edges a b g1) = fold (\<lambda>v. add_weight a v 0) ?vs (wedges g)"
    using assms(3,4) by (simp add: move_edges_def Let_def)
  ultimately have "e \<in> (\<lambda>v. (a, v)) ` set ?vs \<union> fst ` set (wedges g)"
    using fst_add_weights [of a ?vs "wedges g"] by (simp only:) (rule subsetD)
  then show "e \<in> {(u, v). u \<in> live g - {b} \<and> v \<in> live g - {b} \<and> u \<noteq> v}"
  proof
    assume "e \<in> (\<lambda>v. (a, v)) ` set ?vs"
    then obtain v where v: "e = (a, v)" "v \<in> set ?vs" by blast
    have "v \<in> live g" if "v \<in> set (wadjacent_vertices b (wedges g))"
      using set_wadjacent [OF that] graph_ok_wedge [OF assms(1)] by blast
    then have "v \<in> live g" "a \<noteq> v"
      using v(2) graph_ok_finite [OF assms(1)] graph_ok_dedge [OF assms(1)] by auto
    then show ?thesis using v(1) ni assms(2) by (auto simp: incident_def)
  next
    assume "e \<in> fst ` set (wedges g)"
    then have "fst e \<in> live g \<and> snd e \<in> live g \<and> fst e \<noteq> snd e" by (intro graph_ok_wedge [OF assms(1)]) simp
    then show ?thesis using ni by (cases e) (simp add: incident_def)
  qed
qed

lemma merge_vertices_merged:
  assumes "env_ok env" and "graph_ok env g" and "a \<in> live g" and "b \<in> live g" and "a \<noteq> b"
  obtains g' where "merge_vertices env a b f g = Some g'" and "merged a b f g g'" and "base2vertices g' = base2vertices g"
proof -
  have less: "a < length (kernels g)" "b < length (kernels g)" using assms(3,4) by (simp_all add: live_less)
  obtain k ks where ks: "merge_instrs env a b f (kernels g) = Some ks" "length ks = length (kernels g)"
    "instr_indexes k = (if f then instr_indexes (kernels g ! a) @ instr_indexes (kernels g ! b)
                        else instr_indexes (kernels g ! b) @ instr_indexes (kernels g ! a))"
    "\<And>c. ks[b := c] = (kernels g)[a := k, b := c]"
    using merge_instrs_result [OF assms(1) less assms(5) graph_ok_valid graph_ok_valid, OF assms(2) less(1) assms(2) less(2)] by metis
  define g1 where "g1 = clear_vertex b (move_edges a b (g\<lparr>kernels := ks\<rparr>))"
  have k1: "kernels g1 = (kernels g)[a := k, b := kernel_clear (ks ! b)]" "wnum g1 = wnum g" "base2vertices g1 = base2vertices g"
    using ks(4) by (simp_all add: g1_def clear_vertex_def move_edges_def Let_def)
  have d1: "dedges g1 = contract_edges a b (dedges g)"
    using merged_edges [OF _ graph_ok_finite [OF assms(2)] assms(5)] graph_ok_dedge [OF assms(2)]
    by (simp add: g1_def clear_vertex_def move_edges_def Let_def) metis
  have w1: "fst ` set (wedges g1) \<subseteq> {(u, v). u \<in> live g - {b} \<and> v \<in> live g - {b} \<and> u \<noteq> v}"
    unfolding g1_def by (rule move_edges_weights [OF assms(2,3)]) simp_all
  have m1: "merged a b f g g1" unfolding merged_def
    using k1(1,2) d1 w1 ks(3) by (intro conjI exI [of _ k] exI [of _ "kernel_clear (ks ! b)"]) (simp_all add: kernel_clear_def)
  have "kernel_valid env l" if "l \<in> set (kernels g1)" for l
  proof -
    have "set (instr_indexes l) \<subseteq> set (instrs g1)" using that by (auto simp: instrs_def)
    moreover have "set (instrs g1) = set (instrs g)" using merged_instrs(1) [OF m1 less assms(5)] by (rule mset_eq_setD)
    ultimately show ?thesis using assms(2) by (auto simp: kernel_valid_def graph_ok_def)
  qed
  moreover have "fst ` set (wedges g1) \<subseteq> {..<length (kernels g1)} \<times> {..<length (kernels g1)}"
    using w1 k1(1) by (auto dest!: subsetD simp: live_def)
  ultimately obtain ws where ws: "reweigh env (kernels g1) a (wedges g1) = Some ws" "fst ` set ws \<subseteq> fst ` set (wedges g1)"
    using reweigh_total [OF assms(1), of "kernels g1" a "wedges g1"] less(1) k1(1) by auto
  have "merge_vertices env a b f g = Some (g1\<lparr>wedges := ws\<rparr>)"
    using assms(1) ks(1) ws(1) by (simp add: merge_vertices_def c_assert_def env_ok_def g1_def Let_def)
  moreover have "merged a b f g (g1\<lparr>wedges := ws\<rparr>)" using m1 ws(2) by (auto simp: merged_def)
  ultimately show ?thesis using that k1(3) by auto
qed

subsection \<open>Greedy fusion\<close>

lemma greatest_edge_mem:
  assumes "es \<noteq> []"
  shows "greatest_edge es \<in> set es"
proof -
  have "fold (\<lambda>e greatest. if snd greatest < snd e then e else greatest) es g \<in> insert g (set es)" for es :: "(edge \<times> int) list" and g
    by (induction es arbitrary: g) auto
  from this [of es "hd es"] show ?thesis using assms by (simp add: greatest_edge_def insert_absorb)
qed

lemma greatest_weight_edge:
  assumes "env_ok env" and "ws \<noteq> []"
  shows "fst (greatest_edge (weight_edges env ws)) \<in> fst ` set ws"
proof -
  have lib: "boost_graph (graph_lib env)" using assms(1) by (simp add: env_ok_def)
  have "weight_edges env ws \<noteq> []" using assms(2) boost_graph.order_Nil [OF lib] by (simp add: weight_edges_def)
  then have "fst (greatest_edge (weight_edges env ws)) \<in> fst ` set (weight_edges env ws)"
    by (intro imageI greatest_edge_mem)
  also have "fst ` set (weight_edges env ws) = fst ` set ws"
    using boost_graph.set_order [OF lib, of "map fst ws"] by (simp add: weight_edges_def image_image)
  finally show ?thesis .
qed

lemma remove_edges_ok:
  assumes "graph_ok env g" and "long_path (dedges g) a b \<or> long_path (dedges g) b a"
  shows "graph_ok env (remove_edges a b g)" and "live (remove_edges a b g) = live g" and "instrs (remove_edges a b g) = instrs g"
proof -
  have ac: "acyclic (dedges g)" using assms(1) by (simp add: graph_ok_def)
  have same: "kernels (remove_edges a b g) = kernels g" "wnum (remove_edges a b g) = wnum g" by (simp_all add: remove_edges_def)
  then show lv: "live (remove_edges a b g) = live g" and ins: "instrs (remove_edges a b g) = instrs g"
    by (simp_all add: live_def instrs_def)
  have tr: "(dedges (remove_edges a b g))\<^sup>+ = (dedges g)\<^sup>+"
    using remove_long [OF graph_ok_finite [OF assms(1)] ac assms(2)] by (simp add: remove_edges_def)
  have "acyclic (dedges (remove_edges a b g))" using ac tr by (simp add: acyclic_def)
  moreover have "dedges (remove_edges a b g) \<subseteq> dedges g" "fst ` set (wedges (remove_edges a b g)) \<subseteq> fst ` set (wedges g)"
    by (auto simp: remove_edges_def)
  ultimately show "graph_ok env (remove_edges a b g)"
    using assms(1) unfolding graph_ok_def precedence_def lv ins same tr by (elim conjE, intro conjI) (assumption | erule (1) subset_trans)+
qed

lemma dependency_order:
  assumes "env_ok env" and "graph_ok env g" and "u \<in> live g" and "v \<in> live g" and "u \<noteq> v"
  obtains d where "dependency (release env) (instr_list env) (kernels g ! u) (kernels g ! v) = Some d"
    and "d = 1 \<Longrightarrow> first_then env (instr_indexes (kernels g ! v)) (instr_indexes (kernels g ! u))"
    and "d \<noteq> 1 \<Longrightarrow> first_then env (instr_indexes (kernels g ! u)) (instr_indexes (kernels g ! v))"
proof -
  let ?U = "instr_indexes (kernels g ! u)" and ?V = "instr_indexes (kernels g ! v)"
  let ?D = "dep_dirs (instr_list env) ?U ?V"
  have "?D \<noteq> {1, - 1}"
  proof
    assume D: "?D = {1, - 1}"
    have neq: "i \<noteq> j" if "i \<in> set ?U" "j \<in> set ?V" for i j
      using that instrs_disjoint [OF assms(2) live_less live_less, OF assms(3-5)] by blast
    have "1 \<in> ?D" "- 1 \<in> ?D" using D by auto
    then obtain i j i' j' where "i \<in> set ?U" "j \<in> set ?V" "dep env j i" "j \<le> i" "i' \<in> set ?U" "j' \<in> set ?V" "dep env j' i'" "i' < j'"
      unfolding dep_dirs_def by (auto split: if_splits)
    then have "(v, u) \<in> (dedges g)\<^sup>+" "(u, v) \<in> (dedges g)\<^sup>+"
      using graph_ok_path [OF assms(2)] assms(3-5) neq dep_sym by (metis order_le_less)+
    then show False using assms(2) by (auto simp: graph_ok_def acyclic_def dest: trancl_trans)
  qed
  then obtain d where d: "?D \<subseteq> {d}" "d = 1 \<or> d = - 1" using dirs_cases [OF dep_dirs_subset] by (metis subset_refl empty_subsetI)
  have one: "j < i" if "i \<in> set ?U" "j \<in> set ?V" "dep env j i" "d = 1" for i j
  proof -
    have "(if j \<le> i then 1 else - 1) \<in> ?D" using that(1-3) by (auto simp: dep_dirs_def)
    moreover have "i \<noteq> j" using that(1,2) instrs_disjoint [OF assms(2) live_less live_less, OF assms(3-5)] by blast
    ultimately show ?thesis using d(1) that(4) by (auto split: if_splits)
  qed
  have other: "i < j" if "i \<in> set ?U" "j \<in> set ?V" "dep env i j" "d = - 1 \<or> ?D = {}" for i j
  proof -
    have "(if j \<le> i then 1 else - 1) \<in> ?D" using that(1-3) dep_sym [of "instr_list env" i j] by (auto simp: dep_dirs_def)
    then show ?thesis using d(1) that(4) by (auto split: if_splits)
  qed
  have "release env" "d \<noteq> 0" using assms(1) d(2) by (auto simp: env_ok_def)
  then have "dependency (release env) (instr_list env) (kernels g ! u) (kernels g ! v) = Some (if ?D = {} then 0 else d)"
    using dependency_value [OF d(1) \<open>d \<noteq> 0\<close>] by simp
  then show ?thesis
    by (rule that) (use d(2) one other in \<open>auto simp: first_then_def split: if_splits\<close>)
qed

lemma merge_vertices_ok:
  assumes "env_ok env" and "graph_ok env g" and "a \<in> live g" and "b \<in> live g" and "a \<noteq> b"
    and "\<not> long_path (dedges g) a b" and "\<not> long_path (dedges g) b a"
    and "if f then first_then env (instr_indexes (kernels g ! a)) (instr_indexes (kernels g ! b))
              else first_then env (instr_indexes (kernels g ! b)) (instr_indexes (kernels g ! a))"
  obtains g' where "merge_vertices env a b f g = Some g'" and "graph_ok env g'"
    and "live g' = live g - {b}" and "mset (instrs g') = mset (instrs g)"
proof -
  obtain g' where g': "merge_vertices env a b f g = Some g'" "merged a b f g g'"
    using merge_vertices_merged [OF assms(1-5)] by blast
  show ?thesis
    using that [OF g'(1) merged_ok [OF g'(2) assms(2-8)] merged_live [OF g'(2) assms(3-5)]]
      merged_instrs(1) [OF g'(2) live_less live_less, OF assms(3-5)] by simp
qed

definition greedy_measure :: "(GraphDW \<times> GraphDW) set" where
  "greedy_measure = inv_image (less_than <*lex*> less_than) (\<lambda>g. (card (live g), length (wedges g)))"

lemma wf_greedy_measure: "wf greedy_measure"
  unfolding greedy_measure_def by (intro wf_inv_image wf_lex_prod wf_less_than)

lemma greedy_step_ok:
  assumes "env_ok env" and "graph_ok env g" and "wedges g \<noteq> []"
  obtains g' where "greedy_step env g = Some g'" and "graph_ok env g'" and "mset (instrs g') = mset (instrs g)"
    and "(g', g) \<in> greedy_measure"
proof -
  obtain v1 v2 where e: "fst (greatest_edge (weight_edges env (wedges g))) = (v1, v2)" by (metis surj_pair)
  have mem: "(v1, v2) \<in> fst ` set (wedges g)" using greatest_weight_edge [OF assms(1,3)] e by simp
  have lv: "v1 \<in> live g" "v2 \<in> live g" "v1 \<noteq> v2" using graph_ok_wedge [OF assms(2) mem] by auto
  note paths = path_iff(2) [OF assms(1,2) live_less]
  show ?thesis
  proof (cases "long_path (dedges g) v1 v2 \<or> long_path (dedges g) v2 v1")
    case True
    have "length (wedges (remove_edges v1 v2 g)) < length (wedges g)"
      using mem by (auto simp: remove_edges_def connects_def intro!: length_filter_less)
    then have "(remove_edges v1 v2 g, g) \<in> greedy_measure"
      using remove_edges_ok(2) [OF assms(2) True] by (simp add: greedy_measure_def)
    moreover have "greedy_step env g = Some (remove_edges v1 v2 g)"
      using True paths [OF lv(1)] paths [OF lv(2)] by (simp add: greedy_step_def e)
    ultimately show ?thesis using that remove_edges_ok [OF assms(2) True] by simp
  next
    case False
    obtain d where d: "dependency (release env) (instr_list env) (kernels g ! v1) (kernels g ! v2) = Some d"
      "d = 1 \<Longrightarrow> first_then env (instr_indexes (kernels g ! v2)) (instr_indexes (kernels g ! v1))"
      "d \<noteq> 1 \<Longrightarrow> first_then env (instr_indexes (kernels g ! v1)) (instr_indexes (kernels g ! v2))"
      using dependency_order [OF assms(1,2) lv] by blast
    define a b where "a = (if d = 1 then v2 else v1)" and "b = (if d = 1 then v1 else v2)"
    have ab: "a \<in> live g" "b \<in> live g" "a \<noteq> b" "\<not> long_path (dedges g) a b" "\<not> long_path (dedges g) b a"
      "first_then env (instr_indexes (kernels g ! a)) (instr_indexes (kernels g ! b))"
      using lv False d by (auto simp: a_def b_def)
    obtain g' where g': "merge_vertices env a b True g = Some g'" "graph_ok env g'" "live g' = live g - {b}"
      "mset (instrs g') = mset (instrs g)"
      using merge_vertices_ok [OF assms(1,2) ab(1-5), of True] ab(6) by auto
    have "card (live g') < card (live g)" unfolding g'(3) using ab(2) by (intro card_Diff1_less) simp_all
    then have "(g', g) \<in> greedy_measure" by (simp add: greedy_measure_def)
    moreover have "greedy_step env g = Some g'"
      using False paths [OF lv(1)] paths [OF lv(2)] d(1) g'(1) by (simp add: greedy_step_def e a_def b_def split: if_splits)
    ultimately show ?thesis using that g'(2,4) by blast
  qed
qed

lemma greedy_loop_ok:
  assumes "env_ok env" and "graph_ok env g"
  shows "\<exists>g'. greedy_loop env g = Some g' \<and> graph_ok env g' \<and> mset (instrs g') = mset (instrs g) \<and> wedges g' = []"
  using assms(2)
proof (induction g rule: wf_induct_rule [OF wf_greedy_measure])
  case (1 g)
  show ?case
  proof (cases "wedges g = []")
    case True
    then show ?thesis using "1.prems" by (simp add: greedy_loop.simps)
  next
    case False
    obtain h where h: "greedy_step env g = Some h" "graph_ok env h" "mset (instrs h) = mset (instrs g)" "(h, g) \<in> greedy_measure"
      using greedy_step_ok [OF assms(1) "1.prems" False] by blast
    then show ?thesis using "1.IH" [OF h(4,2)] False by (simp add: greedy_loop.simps [of env g])
  qed
qed

subsection \<open>Removing cleared vertices\<close>

lemma renumber_inj: "v \<notin> S \<Longrightarrow> inj_on (renumber v) S"
proof (rule inj_onI)
  fix x y assume "v \<notin> S" "x \<in> S" "y \<in> S" "renumber v x = renumber v y"
  moreover have "x \<noteq> v" "y \<noteq> v" using calculation by auto
  ultimately show "x = y" by (simp add: renumber_def split: if_splits)
qed

lemma kernels_removed:
  assumes "v < length ks" and "u < length ks" and "u \<noteq> v"
  shows "(take v ks @ drop (Suc v) ks) ! renumber v u = ks ! u" and "renumber v u < length ks - 1"
  using assms by (auto simp: renumber_def nth_append)

lemma removed_nth:
  assumes "v < length ks" and "u < length ks - 1"
  shows "(take v ks @ drop (Suc v) ks) ! u = ks ! (if u < v then u else Suc u)"
  using assms by (auto simp: nth_append)

lemma concat_removed:
  assumes "v < length xs" and "xs ! v = []"
  shows "concat (take v xs @ drop (Suc v) xs) = concat xs"
  using assms id_take_nth_drop [of v xs] by (metis concat.simps(2) concat_append self_append_conv2)

lemma remove_vertex_ok:
  assumes "graph_ok env g" and "v < length (kernels g)" and "instr_indexes (kernels g ! v) = []"
  obtains g' where "remove_vertex v g = Some g'" and "graph_ok env g'" and "instrs g' = instrs g"
    and "kernels g' = take v (kernels g) @ drop (Suc v) (kernels g)" and "wedges g = [] \<Longrightarrow> wedges g' = []"
proof -
  let ?r = "renumber v"
  have dead: "v \<notin> live g" using assms(3) by (simp add: live_def)
  have no: "\<not> incident v e" if "e \<in> dedges g \<or> e \<in> fst ` set (wedges g)" for e
    using that dead graph_ok_dedge [OF assms(1), of "fst e" "snd e"] graph_ok_wedge [OF assms(1), of "fst e" "snd e"]
    by (auto simp: incident_def)
  define g' where "g' = g\<lparr>kernels := take v (kernels g) @ drop (Suc v) (kernels g), dedges := map_prod ?r ?r ` dedges g,
     wnum := wnum g - 1, wedges := map (map_prod (map_prod ?r ?r) id) (wedges g)\<rparr>"
  have rm: "remove_vertex v g = Some g'" using no by (auto simp: remove_vertex_def g'_def)
  have ks: "kernels g' = take v (kernels g) @ drop (Suc v) (kernels g)" by (simp add: g'_def)
  have len: "length (kernels g') = length (kernels g) - 1" using assms(2) by (simp add: ks)
  have at: "kernels g' ! ?r u = kernels g ! u" "?r u < length (kernels g')" if "u \<in> live g" for u
    using kernels_removed [OF assms(2), of u] live_less [OF that] that dead len by (auto simp: ks)
  have lv: "live g' = ?r ` live g"
  proof
    show "?r ` live g \<subseteq> live g'" using at by (auto simp: live_def)
    show "live g' \<subseteq> ?r ` live g"
    proof
      fix u assume u: "u \<in> live g'"
      let ?u = "if u < v then u else Suc u"
      have "kernels g' ! u = kernels g ! ?u" using removed_nth [OF assms(2), of u] live_less [OF u] len by (simp add: ks)
      moreover have "?u < length (kernels g)" using live_less [OF u] len by auto
      ultimately have "?u \<in> live g" using u by (simp add: live_def)
      moreover have "?r ?u = u" by (simp add: renumber_def)
      ultimately show "u \<in> ?r ` live g" by (metis image_eqI)
    qed
  qed
  have inj: "inj_on ?r (live g)" by (rule renumber_inj [OF dead])
  have fld: "Field (dedges g) \<subseteq> live g" using graph_ok_dedge [OF assms(1)] by (auto simp: Field_def)
  have ins: "instrs g' = instrs g"
    using concat_removed [of v "map instr_indexes (kernels g)"] assms(2,3) by (simp add: instrs_def ks take_map drop_map)
  have "precedence env g'"
    unfolding precedence_def
  proof (intro ballI impI)
    fix u w i j assume a: "u \<in> live g'" "w \<in> live g'" "u \<noteq> w" "i \<in> set (instr_indexes (kernels g' ! u))"
      "j \<in> set (instr_indexes (kernels g' ! w))" "i < j \<and> dep env i j"
    obtain x y where xy: "x \<in> live g" "u = ?r x" "y \<in> live g" "w = ?r y" using a(1,2) lv by auto
    then have "(x, y) \<in> (dedges g)\<^sup>+" using a at by (intro graph_ok_path [OF assms(1), of x y i j]) auto
    then show "(u, w) \<in> (dedges g')\<^sup>+" using xy trancl_map [of x y "dedges g" ?r] by (simp add: g'_def)
  qed
  moreover have "acyclic (dedges g')"
    using acyclic_map [of "dedges g" ?r] inj_on_subset [OF inj fld] assms(1) by (simp add: graph_ok_def g'_def)
  moreover have "dedges g' \<subseteq> live g' \<times> live g'"
    using graph_ok_dedge [OF assms(1)] unfolding lv by (auto simp: g'_def)
  moreover have "fst ` set (wedges g') \<subseteq> {(u, v). u \<in> live g' \<and> v \<in> live g' \<and> u \<noteq> v}"
  proof
    fix e assume "e \<in> fst ` set (wedges g')"
    then obtain x y where e: "(x, y) \<in> fst ` set (wedges g)" "e = (?r x, ?r y)" by (force simp: g'_def)
    have "x \<in> live g" "y \<in> live g" "x \<noteq> y" using graph_ok_wedge [OF assms(1) e(1)] by auto
    then show "e \<in> {(u, v). u \<in> live g' \<and> v \<in> live g' \<and> u \<noteq> v}" using e(2) inj by (auto simp: lv inj_on_def)
  qed
  moreover have "set (kernels g') \<subseteq> set (kernels g)" using set_take_subset set_drop_subset by (force simp: ks)
  moreover have "wnum g' = length (kernels g')" using assms(1) len by (simp add: graph_ok_def g'_def)
  ultimately have "graph_ok env g'" using assms(1) ins by (auto simp: graph_ok_def)
  then show ?thesis using that rm ins ks by (simp add: g'_def)
qed

lemma remove_vertices_ok:
  assumes "graph_ok env g" and "sorted_wrt (>) vs" and "\<And>u. u < length (kernels g) \<Longrightarrow> instr_indexes (kernels g ! u) = [] \<longleftrightarrow> u \<in> set vs"
    and "set vs \<subseteq> {..<length (kernels g)}"
  shows "\<exists>g'. remove_vertices vs g = Some g' \<and> graph_ok env g' \<and> instrs g' = instrs g \<and>
    (\<forall>k \<in> set (kernels g'). instr_indexes k \<noteq> []) \<and> (wedges g = [] \<longrightarrow> wedges g' = [])"
  using assms
proof (induction vs arbitrary: g)
  case Nil
  then show ?case by (auto simp: in_set_conv_nth)
next
  case (Cons v vs)
  have v: "v < length (kernels g)" "instr_indexes (kernels g ! v) = []" using Cons.prems(3,4) by auto
  obtain g1 where g1: "remove_vertex v g = Some g1" "graph_ok env g1" "instrs g1 = instrs g"
    "kernels g1 = take v (kernels g) @ drop (Suc v) (kernels g)" "wedges g = [] \<Longrightarrow> wedges g1 = []"
    using remove_vertex_ok [OF Cons.prems(1) v] by metis
  have len: "length (kernels g1) = length (kernels g) - 1" using v(1) g1(4) by simp
  have "instr_indexes (kernels g1 ! u) = [] \<longleftrightarrow> u \<in> set vs" if u: "u < length (kernels g1)" for u
  proof -
    have "kernels g1 ! u = kernels g ! (if u < v then u else Suc u)" using removed_nth [OF v(1), of u] u len g1(4) by simp
    moreover have "(if u < v then u else Suc u) < length (kernels g)" using u len by auto
    ultimately have "instr_indexes (kernels g1 ! u) = [] \<longleftrightarrow> (if u < v then u else Suc u) \<in> set (v # vs)"
      using Cons.prems(3) by simp
    then show ?thesis using Cons.prems(2) by (auto split: if_splits)
  qed
  moreover have "set vs \<subseteq> {..<length (kernels g1)}"
  proof
    fix u assume "u \<in> set vs"
    then have "u < v" using Cons.prems(2) by simp
    then show "u \<in> {..<length (kernels g1)}" using v(1) len by simp
  qed
  ultimately show ?case
    using Cons.IH [OF g1(2)] Cons.prems(2) g1(1,3,5) by fastforce
qed

lemma remove_cleared_ok:
  assumes "graph_ok env g"
  shows "\<exists>g'. remove_cleared_vertices g = Some g' \<and> graph_ok env g' \<and> instrs g' = instrs g \<and>
    (\<forall>k \<in> set (kernels g'). instr_indexes k \<noteq> []) \<and> (wedges g = [] \<longrightarrow> wedges g' = [])"
  unfolding remove_cleared_vertices_def Let_def
  by (rule remove_vertices_ok [OF assms]) (auto simp: sorted_wrt_rev intro: sorted_wrt_filter)

end
