(* ===== verification/Bh_DagBuild.thy ===== *)
theory Bh_DagBuild
  imports Bh_DagInv
begin

text \<open>
  Building the kernel graph: \<^verbatim>\<open>GraphDW::add_vertex\<close>, \<^verbatim>\<open>from_kernels\<close> and \<^verbatim>\<open>from_bhir\<close> of \<^verbatim>\<open>core/bh_dag.cpp\<close>
  establish the invariant of theory \<open>Bh_DagInv\<close>.
\<close>

subsection \<open>Dependent instructions share a base array\<close>

lemma not_disjoint: "\<not> bh_view_disjoint v w \<Longrightarrow> \<not> bh_is_constant v \<and> \<not> bh_is_constant w \<and> base v = base w"
  by (auto simp: bh_view_disjoint_def split: if_splits)

lemma dep_operands:
  assumes "instr_dep prog i j"
  obtains s t where "s < bh_operands (opcode (prog ! i))" and "t < bh_operands (opcode (prog ! j))"
    and "\<not> bh_view_disjoint (operand (prog ! i) ! s) (operand (prog ! j) ! t) \<or> \<not> bh_view_disjoint (operand (prog ! j) ! t) (operand (prog ! i) ! s)"
  using assms by (auto simp: bh_instr_dependency_def dep_loop_iff Let_def split: if_splits)

lemma kernel_bases_iff:
  "b \<in> kernel_bases prog k \<longleftrightarrow> (\<exists>i \<in> set (instr_indexes k). \<exists>t < bh_operands (opcode (prog ! i)).
     \<not> bh_is_constant (operand (prog ! i) ! t) \<and> base (operand (prog ! i) ! t) = b)"
  by (fastforce simp: kernel_bases_def image_iff)

lemma finite_kernel_bases [simp]: "finite (kernel_bases prog k)"
  by (simp add: kernel_bases_def)

lemma dep_dirs_base:
  assumes "dep_dirs prog (instr_indexes k) (instr_indexes l) \<noteq> {}"
  shows "kernel_bases prog k \<inter> kernel_bases prog l \<noteq> {}"
proof -
  obtain i j where ij: "i \<in> set (instr_indexes k)" "j \<in> set (instr_indexes l)" "instr_dep prog j i"
    using assms by (auto simp: dep_dirs_def)
  obtain s t where st: "s < bh_operands (opcode (prog ! j))" "t < bh_operands (opcode (prog ! i))"
    "\<not> bh_is_constant (operand (prog ! j) ! s)" "\<not> bh_is_constant (operand (prog ! i) ! t)"
    "base (operand (prog ! j) ! s) = base (operand (prog ! i) ! t)"
  proof -
    obtain s t where "s < bh_operands (opcode (prog ! j))" "t < bh_operands (opcode (prog ! i))"
      "\<not> bh_view_disjoint (operand (prog ! j) ! s) (operand (prog ! i) ! t) \<or> \<not> bh_view_disjoint (operand (prog ! i) ! t) (operand (prog ! j) ! s)"
      using dep_operands [OF ij(3)] .
    then show ?thesis using that [of s t] not_disjoint by auto
  qed
  have "base (operand (prog ! i) ! t) \<in> kernel_bases prog k"
    unfolding kernel_bases_iff using ij(1) st(2,4) by blast
  moreover have "base (operand (prog ! j) ! s) \<in> kernel_bases prog l"
    unfolding kernel_bases_iff using ij(2) st(1,3) by blast
  ultimately show ?thesis using st(5) by auto
qed

lemma first_then_dirs: "first_then env is js \<Longrightarrow> dep_dirs (instr_list env) js is \<subseteq> {1}"
  by (fastforce simp: first_then_def dep_dirs_def)

subsection \<open>Linking the new vertex\<close>

text \<open>What linking vertex \<open>d\<close> may change.\<close>

definition extends :: "nat \<Rightarrow> GraphDW \<Rightarrow> GraphDW \<Rightarrow> bool" where
  "extends d g g' \<longleftrightarrow> kernels g' = kernels g \<and> wnum g' = wnum g \<and>
     dedges g \<subseteq> dedges g' \<and> dedges g' \<subseteq> dedges g \<union> {..<d} \<times> {d} \<and>
     fst ` set (wedges g') \<subseteq> fst ` set (wedges g) \<union> {..<d} \<times> {d}"

lemma extends_refl [simp]: "extends d g g"
  by (simp add: extends_def)

lemma extends_trans:
  assumes "extends d g g1" and "extends d g1 g2"
  shows "extends d g g2"
proof -
  have *: "C \<subseteq> A \<union> X" if "B \<subseteq> A \<union> X" "C \<subseteq> B \<union> X" for A B C X :: "edge set" using that by blast
  show ?thesis
    using assms * [of "dedges g1" "dedges g" "{..<d} \<times> {d}" "dedges g2"]
      * [of "fst ` set (wedges g1)" "fst ` set (wedges g)" "{..<d} \<times> {d}" "fst ` set (wedges g2)"]
    by (simp add: extends_def) (meson subset_trans)
qed

lemma extends_trancl: "extends d g g' \<Longrightarrow> e \<in> (dedges g)\<^sup>+ \<Longrightarrow> e \<in> (dedges g')\<^sup>+"
  using trancl_mono unfolding extends_def by blast

definition linkable :: "dag_env \<Rightarrow> bh_ir_kernel \<Rightarrow> nat \<Rightarrow> GraphDW \<Rightarrow> bool" where
  "linkable env k d g \<longleftrightarrow> length (kernels g) = Suc d \<and> dedges g \<subseteq> {..d} \<times> {..d} \<and>
     kernel_valid env k \<and> (\<forall>v < d. kernel_valid env (kernels g ! v) \<and>
       dep_dirs (instr_list env) (instr_indexes k) (instr_indexes (kernels g ! v)) \<subseteq> {1})"

lemma linkable_extends: "linkable env k d g \<Longrightarrow> extends d g g' \<Longrightarrow> linkable env k d g'"
  unfolding linkable_def extends_def by fastforce

lemma link_vertex:
  assumes "env_ok env" and "linkable env k d g" and "v \<le> d"
  obtains g' where "link_vertices env k d (v # vs) g = link_vertices env k d vs g'" and "extends d g g'"
    and "base2vertices g' = base2vertices g"
    and "v < d \<Longrightarrow> dep_dirs (instr_list env) (instr_indexes k) (instr_indexes (kernels g ! v)) \<noteq> {} \<Longrightarrow> (v, d) \<in> (dedges g')\<^sup>+"
proof -
  have n: "length (kernels g) = Suc d" and r: "in_range (length (kernels g)) (dedges g)"
    using assms(2) by (auto simp: linkable_def in_range_def)
  have vn: "v < length (kernels g)" using n assms(3) by simp
  have p: "path env g v d False \<longleftrightarrow> (v, d) \<in> (dedges g)\<^sup>+"
    using boost_graph.path_exist_short [OF _ r vn] assms(1) by (simp add: env_ok_def)
  show ?thesis
  proof (cases "v = d \<or> (v, d) \<in> (dedges g)\<^sup>+")
    case True
    then show ?thesis using that [of g] vn p by auto
  next
    case False
    then have v: "v < d" using assms(3) by simp
    let ?D = "dep_dirs (instr_list env) (instr_indexes k) (instr_indexes (kernels g ! v))"
    define x :: int where "x = (if ?D = {} then 0 else 1)"
    have dv: "dependency (release env) (instr_list env) k (kernels g ! v) = Some x"
      using dependency_value [of "instr_list env" k "kernels g ! v" 1] assms(1,2) v by (simp add: linkable_def env_ok_def x_def)
    define g1 where "g1 = (if x \<noteq> 0 then g\<lparr>dedges := insert (v, d) (dedges g)\<rparr> else g)"
    have k1: "kernels g1 = kernels g" by (simp add: g1_def)
    obtain c where c: "merge_cost_savings (release env) (fuse_model env) (base_type env) (instr_list env) False k (kernels g ! v) = Some c"
      using savings_total [OF assms(1), of k "kernels g ! v" False] assms(2) v by (auto simp: linkable_def)
    define g' where "g' = (if 0 < c \<or> c = 0 \<and> x \<noteq> 0 then g1\<lparr>wedges := add_weight v d c (wedges g1)\<rparr> else g1)"
    have w1: "wedges g1 = wedges g" "dedges g' = dedges g1" "kernels g' = kernels g" "wnum g' = wnum g"
        "base2vertices g' = base2vertices g" by (simp_all add: g1_def g'_def)
    have st: "link_vertices env k d (v # vs) g = link_vertices env k d vs g'"
      using False vn p dv c k1 assms(1) by (simp add: c_assert_def env_ok_def g1_def g'_def Let_def)
    have "fst ` set (wedges g') \<subseteq> fst ` set (wedges g) \<union> {..<d} \<times> {d}"
    proof -
      have "wedges g' = wedges g \<or> wedges g' = add_weight v d c (wedges g)" using w1(1) by (simp add: g'_def)
      moreover have "fst ` set (add_weight v d c (wedges g)) \<subseteq> fst ` set (wedges g) \<union> {..<d} \<times> {d}"
        using v by (intro subset_trans [OF fst_add_weight]) simp
      ultimately show ?thesis by (elim disjE) (simp_all only: Un_upper1)
    qed
    moreover have "dedges g \<subseteq> dedges g' \<and> dedges g' \<subseteq> dedges g \<union> {..<d} \<times> {d}"
      unfolding w1(2) using v by (auto simp: g1_def split: if_splits)
    ultimately have "extends d g g'" using w1(3,4) by (simp add: extends_def)
    moreover have "(v, d) \<in> (dedges g')\<^sup>+" if "?D \<noteq> {}"
      unfolding w1(2) using that by (simp add: g1_def x_def r_into_trancl)
    ultimately show ?thesis using that st w1(5) by blast
  qed
qed

lemma link_vertices_ok:
  assumes "env_ok env" and "linkable env k d g" and "set vs \<subseteq> {..d}"
  shows "\<exists>g'. link_vertices env k d vs g = Some g' \<and> extends d g g' \<and> base2vertices g' = base2vertices g \<and>
    (\<forall>v \<in> set vs. v < d \<longrightarrow> dep_dirs (instr_list env) (instr_indexes k) (instr_indexes (kernels g ! v)) \<noteq> {} \<longrightarrow> (v, d) \<in> (dedges g')\<^sup>+)"
  using assms(2,3)
proof (induction vs arbitrary: g)
  case (Cons v vs)
  obtain g1 where g1: "link_vertices env k d (v # vs) g = link_vertices env k d vs g1" "extends d g g1"
    "base2vertices g1 = base2vertices g"
    "v < d \<Longrightarrow> dep_dirs (instr_list env) (instr_indexes k) (instr_indexes (kernels g ! v)) \<noteq> {} \<Longrightarrow> (v, d) \<in> (dedges g1)\<^sup>+"
    using link_vertex [OF assms(1) Cons.prems(1), of v vs] Cons.prems(2) by auto
  have k1: "kernels g1 = kernels g" using g1(2) by (simp add: extends_def)
  obtain g' where g': "link_vertices env k d vs g1 = Some g'" "extends d g1 g'" "base2vertices g' = base2vertices g1"
    "\<forall>v \<in> set vs. v < d \<longrightarrow> dep_dirs (instr_list env) (instr_indexes k) (instr_indexes (kernels g1 ! v)) \<noteq> {} \<longrightarrow> (v, d) \<in> (dedges g')\<^sup>+"
    using Cons.IH [OF linkable_extends [OF Cons.prems(1) g1(2)]] Cons.prems(2) by auto
  then show ?case
    using g1 extends_trans [OF g1(2) g'(2)] extends_trancl [OF g'(2)] k1 by auto
qed simp

definition b2v_range :: "nat \<Rightarrow> GraphDW \<Rightarrow> bool" where
  "b2v_range n g \<longleftrightarrow> (\<forall>b vs. base2vertices g b = Some vs \<longrightarrow> vs \<subseteq> {..<n})"

lemma link_bases_ok:
  assumes "env_ok env" and "linkable env k d g" and "b2v_range (Suc d) g"
  shows "\<exists>g'. link_bases env k d bs g = Some g' \<and> extends d g g' \<and> b2v_range (Suc d) g' \<and>
    (\<forall>b vs. base2vertices g b = Some vs \<longrightarrow> (\<exists>vs'. base2vertices g' b = Some vs' \<and> vs \<subseteq> vs')) \<and>
    (\<forall>b \<in> set bs. \<exists>vs. base2vertices g' b = Some vs \<and> d \<in> vs) \<and>
    (\<forall>b \<in> set bs. \<forall>vs. base2vertices g b = Some vs \<longrightarrow> (\<forall>v \<in> vs. v < d \<longrightarrow>
       dep_dirs (instr_list env) (instr_indexes k) (instr_indexes (kernels g ! v)) \<noteq> {} \<longrightarrow> (v, d) \<in> (dedges g')\<^sup>+))"
  using assms(2,3)
proof (induction bs arbitrary: g)
  case (Cons b bs)
  have "\<exists>g1. link_bases env k d (b # bs) g = link_bases env k d bs g1 \<and> extends d g g1 \<and> b2v_range (Suc d) g1 \<and>
      base2vertices g1 = (base2vertices g)(b \<mapsto> insert d (case base2vertices g b of None \<Rightarrow> {} | Some vs \<Rightarrow> vs)) \<and>
      (\<forall>vs. base2vertices g b = Some vs \<longrightarrow> (\<forall>v \<in> vs. v < d \<longrightarrow>
         dep_dirs (instr_list env) (instr_indexes k) (instr_indexes (kernels g ! v)) \<noteq> {} \<longrightarrow> (v, d) \<in> (dedges g1)\<^sup>+))"
  proof (cases "base2vertices g b")
    case None
    then show ?thesis using Cons.prems(2)
      by (intro exI [of _ "g\<lparr>base2vertices := (base2vertices g)(b \<mapsto> {d})\<rparr>"]) (auto simp: extends_def b2v_range_def)
  next
    case (Some vs)
    have vs: "vs \<subseteq> {..d}" using Cons.prems(2) Some unfolding b2v_range_def lessThan_Suc_atMost by blast
    then have fin: "finite vs" by (rule finite_subset) simp
    obtain g1 where g1: "link_vertices env k d (sorted_list_of_set vs) g = Some g1" "extends d g g1" "base2vertices g1 = base2vertices g"
      "\<forall>v \<in> vs. v < d \<longrightarrow> dep_dirs (instr_list env) (instr_indexes k) (instr_indexes (kernels g ! v)) \<noteq> {} \<longrightarrow> (v, d) \<in> (dedges g1)\<^sup>+"
      using link_vertices_ok [OF assms(1) Cons.prems(1), of "sorted_list_of_set vs"] vs fin by auto
    have "extends d g (g1\<lparr>base2vertices := (base2vertices g1)(b \<mapsto> insert d vs)\<rparr>)" using g1(2) by (simp add: extends_def)
    moreover have "b2v_range (Suc d) (g1\<lparr>base2vertices := (base2vertices g1)(b \<mapsto> insert d vs)\<rparr>)"
      using Cons.prems(2) vs g1(3) by (auto simp: b2v_range_def)
    ultimately show ?thesis using Some g1
      by (intro exI [of _ "g1\<lparr>base2vertices := (base2vertices g1)(b \<mapsto> insert d vs)\<rparr>"]) simp
  qed
  then obtain g1 where g1: "link_bases env k d (b # bs) g = link_bases env k d bs g1" "extends d g g1" "b2v_range (Suc d) g1"
    "base2vertices g1 = (base2vertices g)(b \<mapsto> insert d (case base2vertices g b of None \<Rightarrow> {} | Some vs \<Rightarrow> vs))"
    "\<forall>vs. base2vertices g b = Some vs \<longrightarrow> (\<forall>v \<in> vs. v < d \<longrightarrow>
         dep_dirs (instr_list env) (instr_indexes k) (instr_indexes (kernels g ! v)) \<noteq> {} \<longrightarrow> (v, d) \<in> (dedges g1)\<^sup>+)"
    by auto
  have k1: "kernels g1 = kernels g" using g1(2) by (simp add: extends_def)
  have grow: "\<exists>vs'. base2vertices g1 c = Some vs' \<and> vs \<subseteq> vs'" if "base2vertices g c = Some vs" for c vs
    using that unfolding g1(4) by (cases "c = b") auto
  have own: "\<exists>vs. base2vertices g1 b = Some vs \<and> d \<in> vs" by (simp add: g1(4))
  obtain g' where g': "link_bases env k d bs g1 = Some g'" "extends d g1 g'" "b2v_range (Suc d) g'"
    and g'2: "\<forall>b vs. base2vertices g1 b = Some vs \<longrightarrow> (\<exists>vs'. base2vertices g' b = Some vs' \<and> vs \<subseteq> vs')"
    and g'3: "\<forall>b \<in> set bs. \<exists>vs. base2vertices g' b = Some vs \<and> d \<in> vs"
    and g'4: "\<forall>b \<in> set bs. \<forall>vs. base2vertices g1 b = Some vs \<longrightarrow> (\<forall>v \<in> vs. v < d \<longrightarrow>
       dep_dirs (instr_list env) (instr_indexes k) (instr_indexes (kernels g1 ! v)) \<noteq> {} \<longrightarrow> (v, d) \<in> (dedges g')\<^sup>+)"
    using Cons.IH [OF linkable_extends [OF Cons.prems(1) g1(2)] g1(3)] by blast
  show ?case
  proof (intro exI [of _ g'] conjI ballI allI impI)
    show "link_bases env k d (b # bs) g = Some g'" using g1(1) g'(1) by (simp only:)
    show "extends d g g'" using g1(2) g'(2) by (rule extends_trans)
    show "\<exists>vs'. base2vertices g' c = Some vs' \<and> vs \<subseteq> vs'" if "base2vertices g c = Some vs" for c vs
      using grow [OF that] g'2 by (meson subset_trans)
    show "\<exists>vs. base2vertices g' c = Some vs \<and> d \<in> vs" if "c \<in> set (b # bs)" for c
      using that own g'2 g'3 by (metis set_ConsD subsetD)
    show "(v, d) \<in> (dedges g')\<^sup>+" if "c \<in> set (b # bs)" "base2vertices g c = Some vs" "v \<in> vs" "v < d"
      "dep_dirs (instr_list env) (instr_indexes k) (instr_indexes (kernels g ! v)) \<noteq> {}" for c vs v
    proof (cases "c = b")
      case True
      then show ?thesis using that g1(5) extends_trancl [OF g'(2)] by blast
    next
      case False
      then show ?thesis using that grow [OF that(2)] g'4 k1 by auto
    qed
  qed (rule g'(3))
qed (simp add: extends_def)

subsection \<open>Adding a vertex\<close>

definition build_ok :: "dag_env \<Rightarrow> GraphDW \<Rightarrow> bool" where
  "build_ok env g \<longleftrightarrow> graph_ok env g \<and> (\<forall>(u, v) \<in> dedges g. u < v) \<and> (\<forall>k \<in> set (kernels g). instr_indexes k \<noteq> []) \<and>
     b2v_range (length (kernels g)) g \<and>
     (\<forall>v < length (kernels g). \<forall>b \<in> kernel_bases (instr_list env) (kernels g ! v). \<exists>vs. base2vertices g b = Some vs \<and> v \<in> vs)"

definition schedule_ok :: "dag_env \<Rightarrow> nat list \<Rightarrow> bool" where
  "schedule_ok env is \<longleftrightarrow> distinct is \<and> set is \<subseteq> {..<length (instr_list env)} \<and> in_order env is"

lemma build_ok_new: "build_ok env GraphDW_new"
  by (simp add: build_ok_def graph_ok_def GraphDW_new_def precedence_def live_def instrs_def b2v_range_def acyclic_def)

lemma build_ok_live: "build_ok env g \<Longrightarrow> live g = {..<length (kernels g)}"
  by (auto simp: build_ok_def live_def)

lemma first_then_nth: "first_then env (instrs g) js \<Longrightarrow> v < length (kernels g) \<Longrightarrow> first_then env (instr_indexes (kernels g ! v)) js"
  unfolding first_then_def using instrs_nth by blast

lemma add_vertex_ok:
  assumes "env_ok env" and "build_ok env g" and "schedule_ok env (instrs g @ instr_indexes k)" and "instr_indexes k \<noteq> []"
  shows "\<exists>g'. add_vertex env k g = Some (length (kernels g), g') \<and> build_ok env g' \<and> instrs g' = instrs g @ instr_indexes k"
proof -
  let ?d = "length (kernels g)"
  let ?prog = "instr_list env"
  let ?g = "g\<lparr>kernels := kernels g @ [k], wnum := wnum g + 1\<rparr>" and ?bs = "sorted_list_of_set (kernel_bases ?prog k)"
  have ok: "graph_ok env g" "\<forall>(u, v) \<in> dedges g. u < v" "b2v_range ?d g"
    using assms(2) by (auto simp: build_ok_def)
  have ft: "first_then env (instrs g) (instr_indexes k)" and kio: "in_order env (instr_indexes k)" and kv: "kernel_valid env k"
    using assms(3) by (auto simp: schedule_ok_def in_order_append kernel_valid_def)
  note lv = build_ok_live [OF assms(2)]
  have "dedges g \<subseteq> {..?d} \<times> {..?d}" using graph_ok_dedge [OF ok(1)] unfolding lv by force
  then have lk: "linkable env k ?d ?g"
    using first_then_dirs [OF first_then_nth [OF ft]] graph_ok_valid [OF ok(1)] kv
    by (simp add: linkable_def nth_append)
  have rg: "b2v_range (Suc ?d) ?g" using ok(3) unfolding b2v_range_def by fastforce
  obtain g' where g': "link_bases env k ?d ?bs ?g = Some g'" "extends ?d ?g g'" "b2v_range (Suc ?d) g'"
    and keep0: "\<forall>b vs. base2vertices ?g b = Some vs \<longrightarrow> (\<exists>vs'. base2vertices g' b = Some vs' \<and> vs \<subseteq> vs')"
    and own0: "\<forall>b \<in> set ?bs. \<exists>vs. base2vertices g' b = Some vs \<and> ?d \<in> vs"
    and edge0: "\<forall>b \<in> set ?bs. \<forall>vs. base2vertices ?g b = Some vs \<longrightarrow> (\<forall>v \<in> vs. v < ?d \<longrightarrow>
       dep_dirs ?prog (instr_indexes k) (instr_indexes (kernels ?g ! v)) \<noteq> {} \<longrightarrow> (v, ?d) \<in> (dedges g')\<^sup>+)"
    by (rule exE [OF link_bases_ok [OF assms(1) lk rg, of ?bs]], elim conjE) (rule that)
  have keep: "\<exists>vs'. base2vertices g' b = Some vs' \<and> vs \<subseteq> vs'" if "base2vertices g b = Some vs" for b vs
    using that keep0 by simp
  have own: "\<exists>vs. base2vertices g' b = Some vs \<and> ?d \<in> vs" if "b \<in> kernel_bases ?prog k" for b
    using that own0 by simp
  have edge: "(v, ?d) \<in> (dedges g')\<^sup>+" if "b \<in> kernel_bases ?prog k" "base2vertices g b = Some vs" "v \<in> vs" "v < ?d"
      "dep_dirs ?prog (instr_indexes k) (instr_indexes ((kernels g @ [k]) ! v)) \<noteq> {}" for b vs v
    using that edge0 by simp
  have ks: "kernels g' = kernels g @ [k]" "wnum g' = wnum g + 1" "dedges g \<subseteq> dedges g'"
    and de: "dedges g' \<subseteq> dedges g \<union> {..<?d} \<times> {?d}" and we: "fst ` set (wedges g') \<subseteq> fst ` set (wedges g) \<union> {..<?d} \<times> {?d}"
    using g'(2) by (simp_all add: extends_def)
  have "instr_indexes (kernels g' ! v) \<noteq> []" if "v \<le> ?d" for v
    using that assms(2,4) by (cases "v = ?d") (auto simp: ks nth_append build_ok_def)
  then have lv': "live g' = {..?d}" unfolding live_def by (auto simp: ks)
  have fwd: "\<forall>(u, v) \<in> dedges g'. u < v" using ok(2) de by blast
  have link: "(v, ?d) \<in> (dedges g')\<^sup>+" if v: "v < ?d" and D: "dep_dirs ?prog (instr_indexes k) (instr_indexes (kernels g ! v)) \<noteq> {}" for v
  proof -
    obtain b where b: "b \<in> kernel_bases ?prog k" "b \<in> kernel_bases ?prog (kernels g ! v)" using dep_dirs_base [OF D] by blast
    then obtain vs where "base2vertices g b = Some vs" "v \<in> vs" using assms(2) v unfolding build_ok_def by blast
    then show ?thesis using edge [OF b(1)] v D by (simp add: nth_append)
  qed
  have "precedence env g'"
    unfolding precedence_def
  proof (intro ballI impI)
    fix u v i j assume a: "u \<in> live g'" "v \<in> live g'" "u \<noteq> v" "i \<in> set (instr_indexes (kernels g' ! u))"
      "j \<in> set (instr_indexes (kernels g' ! v))" "i < j \<and> dep env i j"
    consider "u < ?d" "v < ?d" | "u < ?d" "v = ?d" | "u = ?d" "v < ?d" using a(1-3) lv' by fastforce
    then show "(u, v) \<in> (dedges g')\<^sup>+"
    proof cases
      case 1
      then have "(u, v) \<in> (dedges g)\<^sup>+"
        using a by (intro graph_ok_path [OF ok(1), of u v i j]) (auto simp: lv ks nth_append)
      then show ?thesis using ks(3) by (rule trancl_mono)
    next
      case 2
      then have "dep_dirs ?prog (instr_indexes k) (instr_indexes (kernels g ! u)) \<noteq> {}"
        using a by (auto simp: dep_dirs_def ks nth_append)
      then show ?thesis using link 2 by simp
    next
      case 3
      then have "dep env j i \<longrightarrow> j < i" using first_then_nth [OF ft 3(2)] a by (auto simp: first_then_def ks nth_append)
      then show ?thesis using a(6) dep_sym [of ?prog i j] by auto
    qed
  qed
  moreover have ins: "instrs g' = instrs g @ instr_indexes k" by (simp add: instrs_def ks)
  moreover have "fst ` set (wedges g') \<subseteq> {(u, v). u \<in> live g' \<and> v \<in> live g' \<and> u \<noteq> v}"
  proof
    fix e assume "e \<in> fst ` set (wedges g')"
    then consider "e \<in> fst ` set (wedges g)" | "e \<in> {..<?d} \<times> {?d}" using we by blast
    then show "e \<in> {(u, v). u \<in> live g' \<and> v \<in> live g' \<and> u \<noteq> v}"
      using graph_ok_wedge [OF ok(1), of "fst e" "snd e"] by cases (auto simp: lv lv')
  qed
  moreover have "dedges g' \<subseteq> live g' \<times> live g'"
    using de graph_ok_dedge [OF ok(1)] unfolding lv lv' by fastforce
  ultimately have "graph_ok env g'"
    using assms(3) ok(1) kio forward_acyclic [OF fwd] by (auto simp: graph_ok_def schedule_ok_def ks)
  moreover have "\<exists>vs. base2vertices g' b = Some vs \<and> v \<in> vs" if "v < length (kernels g')" "b \<in> kernel_bases ?prog (kernels g' ! v)" for v b
  proof (cases "v = ?d")
    case True
    then show ?thesis using own that by (simp add: ks)
  next
    case False
    then have "\<exists>vs. base2vertices g b = Some vs \<and> v \<in> vs"
      using assms(2) that unfolding build_ok_def ks by (auto simp: nth_append)
    then show ?thesis using keep by blast
  qed
  moreover have "\<forall>l \<in> set (kernels g'). instr_indexes l \<noteq> []" using assms(2,4) by (auto simp: build_ok_def ks)
  ultimately have "build_ok env g'" using fwd g'(3) by (simp add: build_ok_def ks)
  then show ?thesis using g'(1) ins by (simp add: add_vertex_def Let_def)
qed

lemma schedule_ok_prefix: "schedule_ok env (is @ js) \<Longrightarrow> schedule_ok env is"
  by (auto simp: schedule_ok_def in_order_append)

lemma from_kernels_loop_ok:
  assumes "env_ok env" and "build_ok env g" and "schedule_ok env (instrs g @ concat (map instr_indexes ks))"
  shows "\<exists>g'. from_kernels_loop env ks g = Some g' \<and> build_ok env g' \<and> instrs g' = instrs g @ concat (map instr_indexes ks)"
  using assms(2,3)
proof (induction ks arbitrary: g)
  case (Cons k ks)
  show ?case
  proof (cases "instr_indexes k = []")
    case True
    then show ?thesis using Cons by simp
  next
    case False
    obtain g1 where "add_vertex env k g = Some (length (kernels g), g1)" "build_ok env g1" "instrs g1 = instrs g @ instr_indexes k"
      using add_vertex_ok [OF assms(1) Cons.prems(1) _ False] Cons.prems(2) schedule_ok_prefix [of env "instrs g @ instr_indexes k"]
      by auto
    then show ?thesis using Cons.IH [of g1] Cons.prems(2) False by simp
  qed
qed simp

lemma gentle_loop_ok:
  assumes "env_ok env" and "idx \<le> length (instr_list env)"
  shows "\<exists>idx' k'. gentle_loop (instr_list env) idx k = Some (idx', k') \<and> idx \<le> idx' \<and> idx' \<le> length (instr_list env) \<and>
    instr_indexes k' = instr_indexes k @ [idx..<idx']"
  using assms(2)
proof (induction "length (instr_list env) - idx" arbitrary: idx k)
  case 0
  then show ?case by (subst gentle_loop.simps) auto
next
  case (Suc n)
  then have idx: "idx < length (instr_list env)" by simp
  obtain k1 where k1: "add_instr (instr_list env) idx k = Some k1"
    using add_instr_total [OF idx env_ok_nth [OF assms(1) idx]] by blast
  obtain idx' k' where IH: "gentle_loop (instr_list env) (Suc idx) k1 = Some (idx', k')" "Suc idx \<le> idx'" "idx' \<le> length (instr_list env)"
    "instr_indexes k' = instr_indexes k1 @ [Suc idx..<idx']"
    using Suc(1) [of "Suc idx" k1] Suc(2) idx by (metis Suc_diff_Suc Suc_inject Suc_leI)
  have "idx # [Suc idx..<idx'] = [idx..<idx']" using IH(2) by (simp add: upt_conv_Cons)
  then show ?case
    using idx k1 IH add_instr_indexes [OF k1] by (subst gentle_loop.simps) auto
qed

lemma schedule_ok_upt: "n \<le> length (instr_list env) \<Longrightarrow> schedule_ok env [0..<n]"
  by (auto simp: schedule_ok_def in_order_def sorted_wrt_iff_nth_less)

lemma from_bhir_loop_ok:
  assumes "env_ok env" and "build_ok env g" and "instrs g = [0..<idx]" and "idx \<le> length (instr_list env)"
  shows "\<exists>g'. from_bhir_loop env idx g = Some g' \<and> build_ok env g' \<and> instrs g' = [0..<length (instr_list env)]"
  using assms(2-4)
proof (induction "length (instr_list env) - idx" arbitrary: idx g rule: less_induct)
  case less
  show ?case
  proof (cases "idx < length (instr_list env)")
    case False
    then show ?thesis using less.prems by (subst from_bhir_loop.simps) simp
  next
    case True
    obtain k where k: "add_instr (instr_list env) idx bh_ir_kernel_new = Some k"
      using add_instr_total [OF True env_ok_nth [OF assms(1) True]] by blast
    obtain idx' k' where g: "gentle_loop (instr_list env) (idx + 1) k = Some (idx', k')" "idx + 1 \<le> idx'" "idx' \<le> length (instr_list env)"
      "instr_indexes k' = instr_indexes k @ [idx + 1..<idx']"
      using gentle_loop_ok [OF assms(1), of "idx + 1" k] True by auto
    have "instr_indexes k' = [idx..<idx']"
      using g(2,4) add_instr_indexes [OF k] by (simp add: bh_ir_kernel_new_def upt_conv_Cons)
    moreover have "[0..<idx] @ [idx..<idx'] = [0..<idx']" using g(2) upt_add_eq_append [of 0 idx "idx' - idx"] by simp
    ultimately obtain g1 where "add_vertex env k' g = Some (length (kernels g), g1)" "build_ok env g1" "instrs g1 = [0..<idx']"
      using add_vertex_ok [OF assms(1) less.prems(1), of k'] schedule_ok_upt [OF g(3)] less.prems(2) g(2) by auto
    then show ?thesis using less.hyps [of idx' g1] g(1-3) True k by (subst from_bhir_loop.simps) simp
  qed
qed

end
