(* ===== verification/Bh_DagFuse.thy ===== *)
theory Bh_DagFuse
  imports Bh_DagBuild
begin

text \<open>
  Correctness of the fusers: \<^verbatim>\<open>fuse_gently\<close>, \<^verbatim>\<open>fuse_greedy\<close>, \<^verbatim>\<open>transitive_reduction\<close> and
  \<^verbatim>\<open>fill_kernel_list\<close> of \<^verbatim>\<open>core/bh_dag.cpp\<close> keep the invariant of the kernel graph, and the kernels they
  produce execute every instruction of the program once, in an order that changes no result.
\<close>

subsection \<open>Gentle fusion\<close>

lemma single_edge:
  assumes "graph_ok env g" and "adjacent_vertices it (dedges g) = [v]" and "inv_adjacent_vertices it (dedges g) = []"
  shows "it \<in> live g" and "v \<in> live g" and "it \<noteq> v" and "\<not> long_path (dedges g) it v" and "\<not> long_path (dedges g) v it"
    and "first_then env (instr_indexes (kernels g ! it)) (instr_indexes (kernels g ! v))"
proof -
  let ?E = "dedges g"
  have fin: "finite ?E" by (rule graph_ok_finite [OF assms(1)])
  have out: "(it, u) \<in> ?E \<longleftrightarrow> u = v" and into: "(u, it) \<notin> ?E" for u
    using set_adjacent [OF fin, of it] assms(2,3) by auto
  then show lv: "it \<in> live g" "v \<in> live g" "it \<noteq> v" using graph_ok_dedge [OF assms(1), of it v] by simp_all
  show "\<not> long_path ?E v it" using into by (simp add: long_path_def)
  have noto: "(w, it) \<notin> ?E\<^sup>+" for w using into by (meson tranclE)
  show "\<not> long_path ?E it v"
  proof
    assume "long_path ?E it v"
    then obtain u where u: "u \<noteq> it" "(it, u) \<in> ?E\<^sup>*" "(u, v) \<in> ?E" by (auto simp: long_path_def)
    then have "(v, u) \<in> ?E\<^sup>*" using out by (metis converse_rtranclE)
    then have "(v, v) \<in> ?E\<^sup>+" using u(3) by (rule rtrancl_into_trancl1)
    then show False using assms(1) by (simp add: graph_ok_def acyclic_def)
  qed
  show "first_then env (instr_indexes (kernels g ! it)) (instr_indexes (kernels g ! v))"
    unfolding first_then_def
  proof (intro ballI impI)
    fix i j assume ij: "i \<in> set (instr_indexes (kernels g ! it))" "j \<in> set (instr_indexes (kernels g ! v))" "dep env i j"
    have "\<not> j < i" using graph_ok_path [OF assms(1) lv(2,1) _ ij(2,1)] noto lv(3) ij(3) dep_sym by metis
    moreover have "i \<noteq> j" using ij(1,2) instrs_disjoint [OF assms(1) live_less live_less, OF lv] by blast
    ultimately show "i < j" by simp
  qed
qed

lemma single_edge_end:
  assumes "graph_ok env g" and "inv_adjacent_vertices it (dedges g) = [v]" and "adjacent_vertices it (dedges g) = []"
  shows "it \<in> live g" and "v \<in> live g" and "it \<noteq> v" and "\<not> long_path (dedges g) it v" and "\<not> long_path (dedges g) v it"
    and "first_then env (instr_indexes (kernels g ! v)) (instr_indexes (kernels g ! it))"
proof -
  let ?E = "dedges g"
  have fin: "finite ?E" by (rule graph_ok_finite [OF assms(1)])
  have into: "(u, it) \<in> ?E \<longleftrightarrow> u = v" and out: "(it, u) \<notin> ?E" for u
    using set_adjacent [OF fin, of it] assms(2,3) by auto
  then show lv: "it \<in> live g" "v \<in> live g" "it \<noteq> v" using graph_ok_dedge [OF assms(1), of v it] by simp_all
  have nofrom: "(it, w) \<notin> ?E\<^sup>+" for w using out by (meson tranclD)
  show "\<not> long_path ?E it v" using nofrom long_path_trancl by blast
  show "\<not> long_path ?E v it" using into by (auto simp: long_path_def)
  show "first_then env (instr_indexes (kernels g ! v)) (instr_indexes (kernels g ! it))"
    unfolding first_then_def
  proof (intro ballI impI)
    fix i j assume ij: "i \<in> set (instr_indexes (kernels g ! v))" "j \<in> set (instr_indexes (kernels g ! it))" "dep env i j"
    have "\<not> j < i" using graph_ok_path [OF assms(1) lv(1,2) _ ij(2,1)] nofrom lv(3) ij(3) dep_sym by metis
    moreover have "i \<noteq> j" using ij(1,2) instrs_disjoint [OF assms(1) live_less live_less, OF lv] by blast
    ultimately show "i < j" by simp
  qed
qed

definition same_instrs :: "dag_env \<Rightarrow> GraphDW \<Rightarrow> GraphDW \<Rightarrow> bool" where
  "same_instrs env g g' \<longleftrightarrow> graph_ok env g' \<and> mset (instrs g') = mset (instrs g)"

lemma merge_into:
  assumes "env_ok env" and "graph_ok env g" and "it \<in> live g" and "v \<in> live g" and "it \<noteq> v"
    and "\<not> long_path (dedges g) it v" and "\<not> long_path (dedges g) v it"
    and "if f then first_then env (instr_indexes (kernels g ! v)) (instr_indexes (kernels g ! it))
              else first_then env (instr_indexes (kernels g ! it)) (instr_indexes (kernels g ! v))"
  shows "\<exists>g'. do { b \<leftarrow> fusible_kernel (fuse_model env) (instr_list env) (kernels g ! it) (kernels g ! v);
               g \<leftarrow> (if b then merge_vertices env v it f g else Some g);
               Some (Some (it, g)) } = Some (Some (it, g')) \<and> same_instrs env g g'"
proof -
  obtain b where "fusible_kernel (fuse_model env) (instr_list env) (kernels g ! it) (kernels g ! v) = Some b"
    using fusible_kernel_total [OF assms(1) graph_ok_valid graph_ok_valid, OF assms(2) live_less assms(2) live_less, OF assms(3,4)]
    by blast
  moreover obtain g' where "merge_vertices env v it f g = Some g'" "graph_ok env g'" "mset (instrs g') = mset (instrs g)"
    using merge_vertices_ok [OF assms(1,2,4,3) assms(5) [symmetric] assms(7,6), of f] assms(8) by auto
  ultimately show ?thesis using assms(2) by (auto simp: same_instrs_def)
qed

lemma gently_scan_ok:
  assumes "env_ok env" and "graph_ok env g"
  shows "gently_scan env g vs = Some None \<or> (\<exists>it g'. gently_scan env g vs = Some (Some (it, g')) \<and> same_instrs env g g')"
proof (induction vs)
  case (Cons it vs)
  let ?succs = "adjacent_vertices it (dedges g)"
  let ?preds = "inv_adjacent_vertices it (dedges g)"
  have one: "length xs = 1 \<Longrightarrow> xs = [hd xs]" for xs :: "nat list" by (cases xs) auto
  consider (start) "?preds = [] \<and> length ?succs = 1 \<and> input_and_output_subset_of (kernels g ! it) (kernels g ! hd ?succs)"
    | (final) "\<not> (?preds = [] \<and> length ?succs = 1 \<and> input_and_output_subset_of (kernels g ! it) (kernels g ! hd ?succs))"
        "length ?preds = 1 \<and> ?succs = [] \<and> input_and_output_subset_of (kernels g ! it) (kernels g ! hd ?preds)"
    | (skip) "\<not> (?preds = [] \<and> length ?succs = 1 \<and> input_and_output_subset_of (kernels g ! it) (kernels g ! hd ?succs))"
        "\<not> (length ?preds = 1 \<and> ?succs = [] \<and> input_and_output_subset_of (kernels g ! it) (kernels g ! hd ?preds))"
    by blast
  then show ?case
  proof cases
    case start
    note se = single_edge [OF assms(2) one, of it]
    show ?thesis using merge_into [OF assms, of it "hd ?succs" False] se start by (simp add: Let_def) blast
  next
    case final
    note se = single_edge_end [OF assms(2) one, of it]
    show ?thesis using merge_into [OF assms, of it "hd ?preds" True] se final by (simp add: Let_def) blast
  next
    case skip
    then have "gently_scan env g (it # vs) = gently_scan env g vs" by (auto simp: Let_def)
    then show ?thesis using Cons by simp
  qed
qed simp

lemma gently_loop_ok:
  assumes "env_ok env" and "graph_ok env g"
  shows "\<exists>g'. gently_loop env vs g = Some g' \<and> same_instrs env g g'"
  using assms(2)
proof (induction "length vs" arbitrary: vs g rule: less_induct)
  case less
  show ?case
  proof (cases "vs = [] \<or> gently_scan env g vs = Some None")
    case True
    then show ?thesis using less.prems by (subst gently_loop.simps) (auto simp: same_instrs_def)
  next
    case False
    then obtain it g1 where s: "gently_scan env g vs = Some (Some (it, g1))" "same_instrs env g g1"
      using gently_scan_ok [OF assms(1) less.prems, of vs] by auto
    have "length (remove1 it vs) < length vs"
      using gently_scan_mem [OF s(1)] length_pos_if_in_set [of it vs] by (simp add: length_remove1)
    then show ?thesis using less.hyps [of "remove1 it vs" g1] s False by (subst gently_loop.simps) (auto simp: same_instrs_def)
  qed
qed

subsection \<open>Schedules\<close>

lemma sorted_wrt_concat:
  "sorted_wrt P (concat xss) \<longleftrightarrow>
     (\<forall>xs \<in> set xss. sorted_wrt P xs) \<and> sorted_wrt (\<lambda>xs ys. \<forall>x \<in> set xs. \<forall>y \<in> set ys. P x y) xss"
  by (induction xss) (auto simp: sorted_wrt_append)

lemma topological_trancl:
  assumes "reverse_topological n E ts" and "in_range n E" and "(x, y) \<in> E\<^sup>+" and "x = ts ! i" and "i < n"
  shows "\<exists>j < i. j < n \<and> y = ts ! j"
  using assms(3)
proof (induction rule: trancl_induct)
  have len: "length ts = n" using assms(1) by (metis card_lessThan distinct_card reverse_topological_def)
  case (base y)
  then have "y \<in> set ts" using assms(1,2) by (auto simp: in_range_def reverse_topological_def)
  then obtain j where "j < n" "y = ts ! j" using len by (auto simp: in_set_conv_nth)
  then show ?case using base assms(1,4,5) by (auto simp: reverse_topological_def)
next
  have len: "length ts = n" using assms(1) by (metis card_lessThan distinct_card reverse_topological_def)
  case (step y z)
  then obtain j where j: "j < i" "j < n" "y = ts ! j" by blast
  have "z \<in> set ts" using step.hyps(2) assms(1,2) by (auto simp: in_range_def reverse_topological_def)
  then obtain k where "k < n" "z = ts ! k" using len by (auto simp: in_set_conv_nth)
  moreover have "k < j" using calculation j step.hyps(2) assms(1) by (auto simp: reverse_topological_def)
  ultimately show ?case using j(1) by (intro exI [of _ k]) simp
qed

lemma topological_schedule:
  assumes "graph_ok env g" and "reverse_topological (length (kernels g)) (dedges g) ts"
  shows "schedule_ok env (concat (map instr_indexes (map (\<lambda>v. kernels g ! v) (rev ts))))"
    and "mset (concat (map instr_indexes (map (\<lambda>v. kernels g ! v) (rev ts)))) = mset (instrs g)"
proof -
  let ?n = "length (kernels g)" and ?ks = "map (\<lambda>v. kernels g ! v) (rev ts)"
  have ts: "distinct ts" "set ts = {..<?n}" using assms(2) by (auto simp: reverse_topological_def)
  have len: "length ts = ?n" using ts by (metis card_lessThan distinct_card)
  have "mset (rev ts) = mset [0..<?n]" 
    using ts set_eq_iff_mset_eq_distinct [of "rev ts" "[0..<?n]"] by (simp add: atLeast0LessThan)
  then have "mset ?ks = mset (map (\<lambda>v. kernels g ! v) [0..<?n])" by (metis mset_map)
  then have "mset ?ks = mset (kernels g)" by (simp only: map_nth)
  then have "mset (map mset (map instr_indexes ?ks)) = mset (map mset (map instr_indexes (kernels g)))" by (metis mset_map)
  then show ms: "mset (concat (map instr_indexes ?ks)) = mset (instrs g)"
    unfolding instrs_def mset_concat by (metis sum_mset_sum_list)
  have "first_then env (instr_indexes (kernels g ! (ts ! j))) (instr_indexes (kernels g ! (ts ! i)))" if ij: "i < j" "j < ?n" for i j
    unfolding first_then_def
  proof (intro ballI impI)
    fix x y assume xy: "x \<in> set (instr_indexes (kernels g ! (ts ! j)))" "y \<in> set (instr_indexes (kernels g ! (ts ! i)))" "dep env x y"
    have mem: "ts ! i < ?n" "ts ! j < ?n" using ts(2) ij len nth_mem by (metis lessThan_iff less_trans)+
    have lv: "ts ! i \<in> live g" "ts ! j \<in> live g" "ts ! i \<noteq> ts ! j"
      using xy(1,2) mem ij len ts(1) by (auto simp: live_def nth_eq_iff_index_eq)
    have "\<not> y < x"
    proof
      assume "y < x"
      then have "(ts ! i, ts ! j) \<in> (dedges g)\<^sup>+"
        using graph_ok_path [OF assms(1) lv xy(2,1)] xy(3) dep_sym [of "instr_list env" x y] by simp
      then obtain k where "k < i" "k < ?n" "ts ! j = ts ! k"
        using topological_trancl [OF assms(2) graph_ok_range [OF assms(1)], of "ts ! i" "ts ! j" i] ij by auto
      then show False using ij ts(1) len by (simp add: nth_eq_iff_index_eq)
    qed
    moreover have "x \<noteq> y" using xy(1,2) instrs_disjoint [OF assms(1) mem lv(3)] by blast
    ultimately show "x < y" by simp
  qed
  then have "sorted_wrt (first_then env) (map instr_indexes ?ks)"
    by (auto simp: sorted_wrt_map sorted_wrt_iff_nth_less len rev_nth)
  then have "in_order env (concat (map instr_indexes ?ks))"
    using assms(1) ts(2) unfolding in_order_def sorted_wrt_concat first_then_def
    by (auto simp: graph_ok_def in_order_def)
  then show "schedule_ok env (concat (map instr_indexes ?ks))"
    using assms(1) mset_eq_setD [OF ms] mset_eq_imp_distinct_iff [OF ms] by (auto simp: schedule_ok_def graph_ok_def)
qed

text \<open>Moving an instruction past independent ones.\<close>

definition commuting :: "dag_env \<Rightarrow> (nat \<Rightarrow> 's \<Rightarrow> 's) \<Rightarrow> bool" where
  "commuting env exec \<longleftrightarrow> (\<forall>i < length (instr_list env). \<forall>j < length (instr_list env). \<forall>s.
     i \<noteq> j \<and> \<not> dep env i j \<longrightarrow> exec i (exec j s) = exec j (exec i s))"

lemma commutingD:
  "commuting env exec \<Longrightarrow> i < length (instr_list env) \<Longrightarrow> j < length (instr_list env) \<Longrightarrow> i \<noteq> j \<Longrightarrow> \<not> dep env i j \<Longrightarrow>
   exec j (exec i s) = exec i (exec j s)"
  by (metis commuting_def)

lemma fold_insort:
  assumes "commuting env exec" and "set (i # js) \<subseteq> {..<length (instr_list env)}" and "sorted js"
    and "\<forall>j \<in> set js. i \<noteq> j \<and> (dep env i j \<longrightarrow> i < j)"
  shows "fold exec (insort i js) s = fold exec js (exec i s)"
  using assms(2-4)
proof (induction js arbitrary: s)
  case (Cons j js)
  show ?case
  proof (cases "i \<le> j")
    case False
    then have "exec j (exec i s) = exec i (exec j s)" using Cons.prems by (intro commutingD [OF assms(1)]) auto
    then show ?thesis using False Cons by simp
  qed simp
qed simp

text \<open>A schedule that keeps dependent instructions in order has the effect of the program order.\<close>

lemma schedule_sort:
  assumes "commuting env exec" and "schedule_ok env is"
  shows "fold exec is s = fold exec (sort is) s"
  using assms(2)
proof (induction "is" arbitrary: s)
  case (Cons i "is")
  have "fold exec (insort i (sort is)) s = fold exec (sort is) (exec i s)"
    by (rule fold_insort [OF assms(1)]) (use Cons.prems in \<open>auto simp: schedule_ok_def in_order_def\<close>)
  then show ?case using Cons by (simp add: schedule_ok_def in_order_def)
qed simp

lemma schedule_filter:
  "schedule_ok env (concat (map instr_indexes ks)) \<Longrightarrow> schedule_ok env (concat (map instr_indexes (filter P ks)))"
proof (induction ks)
  case (Cons k ks)
  have "set (concat (map instr_indexes (filter P ks))) \<subseteq> set (concat (map instr_indexes ks))" by auto
  then have "set is \<inter> set (concat (map instr_indexes ks)) = {} \<longrightarrow> set is \<inter> set (concat (map instr_indexes (filter P ks))) = {}"
    "first_then env is (concat (map instr_indexes ks)) \<longrightarrow> first_then env is (concat (map instr_indexes (filter P ks)))" for "is"
    unfolding first_then_def by blast+
  then show ?case using Cons by (simp add: schedule_ok_def in_order_append)
qed simp

lemma noop_loop_iff: "noop_loop prog is \<longleftrightarrow> (\<forall>i \<in> set is. opcode (prog ! i) = BH_NONE)"
  by (induction "is") auto

definition exec_kernels :: "(nat \<Rightarrow> 's \<Rightarrow> 's) \<Rightarrow> bh_ir_kernel list \<Rightarrow> 's \<Rightarrow> 's" where
  "exec_kernels exec ks = fold exec (concat (map instr_indexes ks))"

subsection \<open>Element-wise programs\<close>

definition exec_at :: "(bh_opcode \<Rightarrow> 'v list \<Rightarrow> 'v) \<Rightarrow> (bh_constant \<Rightarrow> 'v) \<Rightarrow> program \<Rightarrow> nat \<Rightarrow> 'v memory \<Rightarrow> 'v memory" where
  "exec_at f c prog i m = (if bh_opcode_is_system (opcode (prog ! i)) then m else exec_instr f c (prog ! i) m)"

text \<open>All operands have the number of elements of the output.\<close>

definition operands_match :: "bh_instruction \<Rightarrow> bool" where
  "operands_match a \<longleftrightarrow> (\<forall>t < bh_operands (opcode a). \<not> bh_is_constant (operand a ! t) \<longrightarrow>
     length (view_offsets (operand a ! t)) = length (view_offsets (operand a ! 0)))"

definition elementwise_program :: "program \<Rightarrow> bool" where
  "elementwise_program prog \<longleftrightarrow>
     (\<forall>a \<in> set prog. bh_opcode_is_system (opcode a) \<or> bh_opcode_is_elementwise (opcode a) \<and> instr_ok a \<and> operands_match a) \<and>
     (\<forall>a \<in> set prog. \<forall>b \<in> set prog. bh_opcode_is_system (opcode a) \<or> bh_opcode_is_system (opcode b) \<or> operands_comparable a b)"

lemma fold_commute_all:
  assumes "\<And>i j x. i \<in> set is \<Longrightarrow> j \<in> set js \<Longrightarrow> f i (h j x) = h j (f i x)"
  shows "fold f is (fold h js x) = fold h js (fold f is x)"
proof -
  have one: "f i (fold h js x) = fold h js (f i x)" if "i \<in> set is" for i x
    using that assms
  proof (induction js arbitrary: x)
    case (Cons j js)
    then show ?case by (metis fold_simps(2) list.set_intros)
  qed simp
  then show ?thesis
  proof (induction "is" arbitrary: x)
    case (Cons i "is")
    then show ?case by simp
  qed simp
qed

lemma independent_elements:
  assumes "instr_ok a" and "instr_ok b" and "operands_comparable a b" and "operands_match a" and "0 < bh_operands (opcode b)"
    and "\<And>t. t < bh_operands (opcode a) \<Longrightarrow> bh_view_disjoint (operand b ! 0) (operand a ! t)"
    and "i < length (view_offsets (operand b ! 0))" and "j < length (view_offsets (operand a ! 0))"
    and "t < bh_operands (opcode a)" and "\<not> bh_is_constant (operand a ! t)"
  shows "element (operand b ! 0) i \<noteq> element (operand a ! t) j"
proof -
  have "touches (operand b ! 0) \<inter> touches (operand a ! t) = {}"
    using assms(3,6,9) by (intro comparable_disjoint) (simp_all add: operands_comparable_def)
  moreover have "element (operand b ! 0) i \<in> touches (operand b ! 0)" "element (operand a ! t) j \<in> touches (operand a ! t)"
    using assms(2,4,7-10) by (intro element_touches; simp add: instr_ok_def operands_match_def)+
  ultimately show ?thesis by auto
qed

lemma independent_commute:
  assumes "instr_ok a" and "instr_ok b" and "operands_comparable a b" and "operands_comparable b a"
    and "operands_match a" and "operands_match b"
    and "\<not> bh_opcode_is_system (opcode a)" and "\<not> bh_opcode_is_system (opcode b)" and "\<not> bh_instr_dependency bh_operands a b"
  shows "exec_instr f c a (exec_instr f c b m) = exec_instr f c b (exec_instr f c a m)"
proof -
  have nop: "0 < bh_operands (opcode a)" "0 < bh_operands (opcode b)" using assms(7,8) nonsystem_operands by auto
  have dj: "bh_view_disjoint (operand b ! 0) (operand a ! t)" if "t < bh_operands (opcode a)" for t
    using that assms(9) nop by (auto simp: bh_instr_dependency_def dep_loop_iff Let_def split: if_splits)
  have dj': "bh_view_disjoint (operand a ! 0) (operand b ! t)" if "t < bh_operands (opcode b)" for t
    using that assms(9) nop by (auto simp: bh_instr_dependency_def dep_loop_iff Let_def split: if_splits)
  have "exec_elem f c a j (exec_elem f c b i x) = exec_elem f c b i (exec_elem f c a j x)"
    if "i < length (view_offsets (operand b ! 0))" "j < length (view_offsets (operand a ! 0))" for i j x
    by (rule exec_elem_commute)
      (use that independent_elements [OF assms(1,2,3,5) nop(2) dj] independent_elements [OF assms(2,1,4,6) nop(1) dj'] assms(1) nop(1)
       in \<open>auto simp: instr_ok_def\<close>)
  then show ?thesis unfolding exec_instr_def by (intro fold_commute_all) auto
qed

lemma commuting_exec_at:
  assumes "elementwise_program (instr_list env)"
  shows "commuting env (exec_at f c (instr_list env))"
  unfolding commuting_def
proof (intro allI impI)
  fix i j and m :: "'a memory"
  assume ij: "i < length (instr_list env)" "j < length (instr_list env)" "i \<noteq> j \<and> \<not> dep env i j"
  let ?a = "instr_list env ! i" and ?b = "instr_list env ! j"
  show "exec_at f c (instr_list env) i (exec_at f c (instr_list env) j m) = exec_at f c (instr_list env) j (exec_at f c (instr_list env) i m)"
  proof (cases "bh_opcode_is_system (opcode ?a) \<or> bh_opcode_is_system (opcode ?b)")
    case False
    have mem: "?a \<in> set (instr_list env)" "?b \<in> set (instr_list env)" using ij by simp_all
    have "instr_ok ?a" "instr_ok ?b" "operands_match ?a" "operands_match ?b" "operands_comparable ?a ?b" "operands_comparable ?b ?a"
      using assms mem False unfolding elementwise_program_def by blast+
    then show ?thesis using independent_commute [of ?a ?b] ij(3) False by (simp add: exec_at_def)
  qed (auto simp: exec_at_def)
qed

subsection \<open>Properties\<close>

text \<open>
  \<^verbatim>\<open>path_exist\<close> answers whether a path of at least one edge leads from the first vertex to the
  second; with \<^verbatim>\<open>only_long_path\<close>, in an acyclic graph, whether one of at least two edges does. \<^verbatim>\<open>cycles\<close>
  finds exactly the cyclic graphs.
\<close>

theorem path_exist_correct:
  assumes "boost_graph B" and "in_range n E" and "a < n"
  shows "(path_exist B n E a b False \<longleftrightarrow> (a, b) \<in> E\<^sup>+) \<and>
    (acyclic E \<longrightarrow> (path_exist B n E a b True \<longleftrightarrow> (\<exists>u. (a, u) \<in> E\<^sup>+ \<and> (u, b) \<in> E\<^sup>+))) \<and>
    (cycles B n E \<longleftrightarrow> \<not> acyclic E)"
proof -
  have "path_exist B n E a b True \<longleftrightarrow> (\<exists>u. (a, u) \<in> E\<^sup>+ \<and> (u, b) \<in> E\<^sup>+)" if "acyclic E"
  proof -
    have "long_path E a b \<longleftrightarrow> between E a b \<noteq> {}"
    proof
      assume "between E a b \<noteq> {}"
      then obtain u where u: "(a, u) \<in> E\<^sup>+" "(u, b) \<in> E\<^sup>+" by (auto simp: between_def)
      then obtain w where w: "(u, w) \<in> E\<^sup>*" "(w, b) \<in> E" by (meson tranclD2)
      have "(a, w) \<in> E\<^sup>+" using u(1) w(1) by (rule trancl_rtrancl_trancl)
      then show "long_path E a b" using w(2) that by (auto simp: long_path_def acyclic_def)
    qed (auto simp: long_path_between)
    then show ?thesis using boost_graph.path_exist_long [OF assms] by (auto simp: between_def)
  qed
  then show ?thesis
    using boost_graph.path_exist_short [OF assms] boost_graph.cycles_iff [OF assms(1,2)] by blast
qed

theorem path_exist_correct_witness:
  "path_exist bgl_ref 3 {(0, 1), (1, 2)} 0 2 True \<and> \<not> path_exist bgl_ref 3 {(0, 1), (1, 2)} 0 1 True \<and>
   \<not> cycles bgl_ref 3 {(0, 1), (1, 2)}"
proof -
  let ?E = "{(0, 1), (1, 2)} :: edge set"
  have r: "in_range 3 ?E" by (simp add: in_range_def)
  have ac: "acyclic ?E" by (rule forward_acyclic) simp
  have "(0, 1) \<in> ?E\<^sup>+" "(1, 2) \<in> ?E\<^sup>+" by auto
  moreover have "(u, 1) \<in> ?E\<^sup>+ \<Longrightarrow> u = 0" for u
    by (erule tranclE) (auto elim: tranclE)
  moreover have "(0, 0) \<notin> ?E\<^sup>+" using ac by (simp add: acyclic_def)
  ultimately show ?thesis
    using path_exist_correct [OF bgl_ref.boost_graph_axioms r, where a = 0 and b = 2]
      path_exist_correct [OF bgl_ref.boost_graph_axioms r, where a = 0 and b = 1] ac
    by auto
qed

lemma from_bhir_ok:
  assumes "env_ok env"
  shows "\<exists>g. from_bhir env [] GraphDW_new = Some (Inr g) \<and> graph_ok env g \<and> instrs g = [0..<length (instr_list env)]"
proof -
  have "instrs GraphDW_new = []" by (simp add: instrs_def GraphDW_new_def)
  then obtain g where "from_bhir_loop env 0 GraphDW_new = Some g" "build_ok env g" "instrs g = [0..<length (instr_list env)]"
    using from_bhir_loop_ok [OF assms build_ok_new, of 0] by auto
  then show ?thesis using assms by (simp add: from_bhir_def c_assert_def env_ok_def build_ok_def)
qed


text \<open>\<^verbatim>\<open>v = u + u; w = v + v; x = u + u; free v\<close>, compiled with the reference graph library.\<close>

definition demo_prog :: program where
  "demo_prog = [instr3 BH_ADD (line_view 1 3) (line_view 4 3) (line_view 4 3),
                instr3 BH_ADD (line_view 2 3) (line_view 1 3) (line_view 1 3),
                instr3 BH_ADD (line_view 3 3) (line_view 4 3) (line_view 4 3),
                instr3 BH_FREE (line_view 1 3) (line_view 1 3) (line_view 1 3)]"

definition demo_env :: dag_env where
  "demo_env = \<lparr>graph_lib = bgl_ref, release = True, fuse_model = BROADEST, base_type = (\<lambda>_. BH_FLOAT64), instr_list = demo_prog\<rparr>"

lemma env_ok_demo: "env_ok demo_env"
  using bgl_ref.boost_graph_axioms
  by (simp add: env_ok_def demo_env_def demo_prog_def instr3_def line_view_def mk_view_def)

lemma demo_length: "[0..<length (instr_list demo_env)] = [0, 1, 2, 3]"
  by (simp add: demo_env_def demo_prog_def upt_rec)

lemma demo_graph: "\<exists>g. from_bhir demo_env [] GraphDW_new = Some (Inr g) \<and> graph_ok demo_env g \<and> mset (instrs g) = mset [0, 1, 2, 3]"
  using from_bhir_ok [OF env_ok_demo] demo_length by auto


lemma fuse_greedy_ok:
  assumes "env_ok env" and "graph_ok env g"
  shows "\<exists>g'. fuse_greedy env g = Some g' \<and> graph_ok env g' \<and> mset (instrs g') = mset (instrs g) \<and>
    wedges g' = [] \<and> (\<forall>k \<in> set (kernels g'). instr_indexes k \<noteq> [])"
proof -
  obtain h where "greedy_loop env g = Some h" "graph_ok env h" "mset (instrs h) = mset (instrs g)" "wedges h = []"
    using greedy_loop_ok [OF assms] by blast
  moreover obtain g' where "remove_cleared_vertices h = Some g'" "graph_ok env g'" "instrs g' = instrs h"
      "\<forall>k \<in> set (kernels g'). instr_indexes k \<noteq> []" "wedges h = [] \<longrightarrow> wedges g' = []"
    using remove_cleared_ok [OF calculation(2)] by blast
  ultimately show ?thesis using assms(1) by (simp add: fuse_greedy_def c_assert_def env_ok_def)
qed

text \<open>
  C2. \<^verbatim>\<open>fuse_greedy\<close> terminates on every valid graph, and the result is valid, has no weight edge left, no
  empty kernel, and contains the same instructions.
\<close>

theorem fuse_greedy_terminates:
  assumes "env_ok env" and "graph_ok env g"
  shows "\<exists>g'. fuse_greedy env g = Some g' \<and> graph_ok env g' \<and> mset (instrs g') = mset (instrs g) \<and>
    wedges g' = [] \<and> (\<forall>k \<in> set (kernels g'). instr_indexes k \<noteq> [])"
  by (rule fuse_greedy_ok [OF assms])

theorem fuse_greedy_terminates_witness:
  "\<exists>g g'. from_bhir demo_env [] GraphDW_new = Some (Inr g) \<and> fuse_greedy demo_env g = Some g' \<and>
     mset (instrs g') = mset [0, 1, 2, 3] \<and> wedges g' = []"
  using demo_graph fuse_greedy_terminates [OF env_ok_demo] by metis

lemma fuse_gently_ok:
  assumes "env_ok env" and "graph_ok env g"
  shows "\<exists>g'. fuse_gently env g = Some g' \<and> graph_ok env g' \<and> mset (instrs g') = mset (instrs g) \<and>
    (\<forall>k \<in> set (kernels g'). instr_indexes k \<noteq> [])"
proof -
  obtain h where "gently_loop env [0..<length (kernels g)] g = Some h" "graph_ok env h" "mset (instrs h) = mset (instrs g)"
    using gently_loop_ok [OF assms] by (auto simp: same_instrs_def)
  moreover obtain g' where "remove_cleared_vertices h = Some g'" "graph_ok env g'" "instrs g' = instrs h"
      "\<forall>k \<in> set (kernels g'). instr_indexes k \<noteq> []"
    using remove_cleared_ok [OF calculation(2)] by blast
  ultimately show ?thesis using assms(1) by (simp add: fuse_gently_def c_assert_def env_ok_def)
qed

text \<open>
  \<^verbatim>\<open>fuse_gently\<close> terminates on every valid graph, and the result is valid, has no empty kernel, and
  contains the same instructions.
\<close>

theorem fuse_gently_correct:
  assumes "env_ok env" and "graph_ok env g"
  shows "\<exists>g'. fuse_gently env g = Some g' \<and> graph_ok env g' \<and> mset (instrs g') = mset (instrs g) \<and>
    (\<forall>k \<in> set (kernels g'). instr_indexes k \<noteq> [])"
  by (rule fuse_gently_ok [OF assms])

theorem fuse_gently_correct_witness:
  "\<exists>g g'. from_bhir demo_env [] GraphDW_new = Some (Inr g) \<and> fuse_gently demo_env g = Some g' \<and>
     mset (instrs g') = mset [0, 1, 2, 3]"
  using demo_graph fuse_gently_correct [OF env_ok_demo] by metis

text \<open>
  C38. \<^verbatim>\<open>transitive_reduction\<close> removes exactly the dependency edges that a longer path makes redundant: the
  vertices connected by paths stay the same, and no remaining edge is redundant.
\<close>

theorem transitive_reduction_correct:
  assumes "env_ok env" and "graph_ok env g"
  shows "\<exists>g'. transitive_reduction env g = Some g' \<and> graph_ok env g' \<and> kernels g' = kernels g \<and>
    (dedges g')\<^sup>+ = (dedges g)\<^sup>+ \<and> (\<forall>(u, v) \<in> dedges g'. \<not> long_path (dedges g') u v)"
proof -
  let ?E = "{e \<in> dedges g. \<not> path env g (fst e) (snd e) True}"
  have ac: "acyclic (dedges g)" using assms(2) by (simp add: graph_ok_def)
  have E: "?E = dedges g - {(u, v). long_path (dedges g) u v}"
    using path_iff(2) [OF assms live_less] graph_ok_dedge [OF assms(2)] by fastforce
  have tr: "?E\<^sup>+ = (dedges g)\<^sup>+" unfolding E
    by (rule redundant_trancl [OF graph_ok_finite [OF assms(2)] ac]) (auto simp: long_path_between)
  have "?E\<^sup>* \<subseteq> (dedges g)\<^sup>*" by (rule rtrancl_mono) blast
  then have nolong: "\<not> long_path ?E u v" if "(u, v) \<in> ?E" for u v
    using that unfolding E long_path_def by blast
  obtain ws where g': "transitive_reduction env g = Some (g\<lparr>dedges := ?E, wedges := ws\<rparr>)" "set ws \<subseteq> set (wedges g)"
    using assms(1) by (auto simp: transitive_reduction_def Let_def c_assert_def env_ok_def)
  have "live (g\<lparr>dedges := ?E, wedges := ws\<rparr>) = live g" "instrs (g\<lparr>dedges := ?E, wedges := ws\<rparr>) = instrs g"
    by (simp_all add: live_def instrs_def)
  moreover have "acyclic ?E" using ac tr by (simp add: acyclic_def)
  moreover have "fst ` set ws \<subseteq> fst ` set (wedges g)" using g'(2) by (rule image_mono)
  moreover have "?E \<subseteq> dedges g" by blast
  ultimately have "graph_ok env (g\<lparr>dedges := ?E, wedges := ws\<rparr>)"
    using assms(2) tr unfolding graph_ok_def precedence_def by (simp (no_asm_simp)) (meson subset_trans)
  then show ?thesis using g'(1) tr nolong by auto
qed

theorem transitive_reduction_correct_witness:
  "\<exists>g g'. from_bhir demo_env [] GraphDW_new = Some (Inr g) \<and> transitive_reduction demo_env g = Some g' \<and>
     (dedges g')\<^sup>+ = (dedges g)\<^sup>+"
  using demo_graph transitive_reduction_correct [OF env_ok_demo] by metis

lemma line_operands:
  assumes "p \<noteq> NULL" and "bh_operands op = 3"
  shows "instr_ok (instr3 op (line_view p 3) (line_view q 3) (line_view r 3))"
    and "operands_match (instr3 op (line_view p 3) (line_view q 3) (line_view r 3))"
proof -
  show "instr_ok (instr3 op (line_view p 3) (line_view q 3) (line_view r 3))" using assms by (intro instr3_ok) simp_all
  show "operands_match (instr3 op (line_view p 3) (line_view q 3) (line_view r 3))"
    using assms by (simp add: operands_match_def instr3_def view_offsets_line all_less_3)
qed

lemma demo_elementwise: "elementwise_program demo_prog"
  unfolding elementwise_program_def
proof
  show "\<forall>a \<in> set demo_prog. bh_opcode_is_system (opcode a) \<or> bh_opcode_is_elementwise (opcode a) \<and> instr_ok a \<and> operands_match a"
    unfolding demo_prog_def by (simp add: line_operands bh_operands_3) (simp add: instr3_def bh_operands_3 opcode_eval)
  show "\<forall>a \<in> set demo_prog. \<forall>b \<in> set demo_prog. bh_opcode_is_system (opcode a) \<or> bh_opcode_is_system (opcode b) \<or> operands_comparable a b"
    unfolding demo_prog_def operands_comparable_def by (simp add: instr3_def bh_operands_3 all_less_3 fits_int_def) (simp add: opcode_eval)
qed

text \<open>
  A copy of a graph does not know which vertices access which base array: adding the kernel
  \<^verbatim>\<open>w = v + v\<close> after \<^verbatim>\<open>v = u + u\<close> links the two in the original graph and leaves them independent in its copy.
\<close>

theorem GraphDW_copy_loses_dependencies:
  "do { a \<leftarrow> add_instrs demo_prog [0] bh_ir_kernel_new;
        b \<leftarrow> add_instrs demo_prog [1] bh_ir_kernel_new;
        (d, g) \<leftarrow> add_vertex demo_env a GraphDW_new;
        (d, g1) \<leftarrow> add_vertex demo_env b g;
        (d, g2) \<leftarrow> add_vertex demo_env b (GraphDW_copy g);
        Some (dedges g1, dedges g2) } = Some ({(0, 1)}, {})"
  by code_simp

end
