(* ===== verification/Bh_DagSplit.thy ===== *)
theory Bh_DagSplit
  imports Bh_DagFuse
begin

text \<open>
  \<^verbatim>\<open>split\<close> of \<^verbatim>\<open>core/bh_dag.cpp\<close>: the graph is cut into the connected components of the weight graph;
  components that depend on each other cyclically are merged, and the parts are returned in the order
  of their dependencies.
\<close>

subsection \<open>The component graph\<close>

text \<open>The vertices of each component, and the edges between components.\<close>

record GraphComp =
  comp_sets :: "nat set list"
  comp_edges :: "edge set"

definition num_components :: "nat list \<Rightarrow> nat" where
  "num_components cs = (if cs = [] then 0 else Suc (Max (set cs)))"

definition component_graph :: "dag_env \<Rightarrow> GraphDW \<Rightarrow> GraphComp" where
  "component_graph env dag =
     (let vertex2component = components (graph_lib env) (wnum dag) (fst ` set (wedges dag));
          num = num_components vertex2component
      in \<lparr>comp_sets = map (\<lambda>c. set (filter (\<lambda>v. vertex2component ! v = c) [0..<length (kernels dag)])) [0..<num],
          comp_edges = {e \<in> map_prod (\<lambda>v. vertex2component ! v) (\<lambda>v. vertex2component ! v) ` dedges dag. fst e \<noteq> snd e}\<rparr>)"

definition merge_component :: "nat \<Rightarrow> nat \<Rightarrow> GraphComp \<Rightarrow> GraphComp" where
  "merge_component root it g =
     (let succs = filter (\<lambda>v. root \<noteq> v) (adjacent_vertices it (comp_edges g));
          preds = filter (\<lambda>v. root \<noteq> v) (inv_adjacent_vertices it (comp_edges g))
      in \<lparr>comp_sets = (comp_sets g)[root := comp_sets g ! root \<union> comp_sets g ! it, it := {}],
          comp_edges = {e \<in> comp_edges g \<union> (\<lambda>v. (root, v)) ` set succs \<union> (\<lambda>v. (v, root)) ` set preds. \<not> incident it e}\<rparr>)"

definition merge_strong :: "dag_env \<Rightarrow> GraphComp \<Rightarrow> GraphComp" where
  "merge_strong env g =
     (let n = length (comp_sets g);
          comp2connected = strong (graph_lib env) n (comp_edges g);
          connected2comp = map (\<lambda>s. filter (\<lambda>v. comp2connected ! v = s) [0..<n]) [0..<num_components comp2connected]
      in fold (\<lambda>comps g. if 1 < length comps then fold (merge_component (hd comps)) (tl comps) g else g) connected2comp g)"

definition split :: "dag_env \<Rightarrow> GraphDW \<Rightarrow> GraphDW list \<Rightarrow> GraphDW list option" where
  "split env dag output =
     (let comp_graph = merge_strong env (component_graph env dag)
      in do { topological_order \<leftarrow> topo (graph_lib env) (length (comp_sets comp_graph)) (comp_edges comp_graph);
              Some (output @ map (\<lambda>v. add_from_subgraph env (comp_sets comp_graph ! v) dag GraphDW_new)
                      (filter (\<lambda>v. comp_sets comp_graph ! v \<noteq> {}) (rev topological_order))) })"

subsection \<open>Quotients\<close>

definition quot_edges :: "(nat \<Rightarrow> nat) \<Rightarrow> edge set \<Rightarrow> edge set" where
  "quot_edges f E = {(u, v). \<exists>x y. (x, y) \<in> E \<and> u = f x \<and> v = f y \<and> u \<noteq> v}"

lemma contract_quotient: "contract_edges a b E = quot_edges (contract a b) E"
  by (simp add: contract_edges_def quot_edges_def)

lemma quotient_comp: "quot_edges g (quot_edges f E) = quot_edges (g \<circ> f) E"
  unfolding quot_edges_def by (auto, metis)

lemma quotient_id: "\<forall>(u, v) \<in> E. u \<noteq> v \<Longrightarrow> quot_edges (\<lambda>v. v) E = E"
  unfolding quot_edges_def by auto

lemma quotient_irrefl: "(u, u) \<notin> quot_edges f E"
  by (simp add: quot_edges_def)

lemma quotient_rtrancl:
  assumes "\<And>a b. f a = f b \<Longrightarrow> (a, b) \<in> E\<^sup>*" and "(u, v) \<in> (quot_edges f E)\<^sup>*"
  shows "\<forall>a b. u = f a \<longrightarrow> v = f b \<longrightarrow> (a, b) \<in> E\<^sup>*"
  using assms(2)
proof (induction rule: rtrancl_induct)
  case base
  then show ?case using assms(1) by auto
next
  case (step v w)
  obtain x y where xy: "(x, y) \<in> E" "v = f x" "w = f y" using step.hyps(2) by (auto simp: quot_edges_def)
  show ?case
  proof (intro allI impI)
    fix a b assume "u = f a" "w = f b"
    then have "(a, x) \<in> E\<^sup>*" "(y, b) \<in> E\<^sup>*" using step.IH xy(2,3) assms(1) by auto
    then show "(a, b) \<in> E\<^sup>*" using xy(1) by (meson rtrancl.rtrancl_into_rtrancl rtrancl_trans)
  qed
qed

lemma quotient_acyclic:
  assumes "\<And>a b. f a = f b \<longleftrightarrow> (a, b) \<in> E\<^sup>* \<and> (b, a) \<in> E\<^sup>*"
  shows "acyclic (quot_edges f E)"
proof (rule acyclicI, intro allI notI)
  fix u assume "(u, u) \<in> (quot_edges f E)\<^sup>+"
  then obtain v where v: "(u, v) \<in> quot_edges f E" "(v, u) \<in> (quot_edges f E)\<^sup>*" by (meson tranclD)
  then obtain x y where xy: "(x, y) \<in> E" "u = f x" "v = f y" "u \<noteq> v" by (auto simp: quot_edges_def)
  then have "(y, x) \<in> E\<^sup>*" using quotient_rtrancl [OF _ v(2)] assms by blast
  then have "f x = f y" using assms xy(1) by blast
  then show False using xy by simp
qed

lemma quotient_path:
  assumes "(x, y) \<in> E\<^sup>+" and "f x \<noteq> f y"
  shows "(f x, f y) \<in> (quot_edges f E)\<^sup>+"
proof -
  have "(f x, f y) \<in> (quot_edges f E)\<^sup>*" using assms(1)
  proof (induction rule: trancl_induct)
    case (base y)
    then show ?case by (cases "f x = f y") (auto simp: quot_edges_def)
  next
    case (step y z)
    then have "f y = f z \<or> (f y, f z) \<in> quot_edges f E" by (auto simp: quot_edges_def)
    then show ?case using step.IH by (metis rtrancl.rtrancl_into_rtrancl)
  qed
  then show ?thesis using assms(2) by (simp add: rtrancl_eq_or_trancl)
qed

text \<open>In an acyclic quot_edges a path between vertices of one class stays in the class.\<close>

lemma quotient_inside:
  assumes "(x, y) \<in> E\<^sup>+" and "f x = f y" and "acyclic (quot_edges f E)"
  shows "(x, y) \<in> {e \<in> E. f (fst e) = f x \<and> f (snd e) = f x}\<^sup>+"
proof -
  have stay: "f v = f x" if v: "(x, v) \<in> E\<^sup>*" "(v, y) \<in> E\<^sup>*" for v
  proof (rule ccontr)
    assume ne: "f v \<noteq> f x"
    then have "(x, v) \<in> E\<^sup>+" "(v, y) \<in> E\<^sup>+" using v assms(2) by (auto simp: rtrancl_eq_or_trancl)
    then have "(f x, f v) \<in> (quot_edges f E)\<^sup>+" "(f v, f x) \<in> (quot_edges f E)\<^sup>+"
      using quotient_path [of x v E f] quotient_path [of v y E f] ne assms(2) by auto
    then show False using assms(3) by (meson acyclic_def trancl_trans)
  qed
  have "(x, v) \<in> {e \<in> E. f (fst e) = f x \<and> f (snd e) = f x}\<^sup>*" if "(x, v) \<in> E\<^sup>*" "(v, y) \<in> E\<^sup>*" for v
    using that
  proof (induction rule: rtrancl_induct)
    case (step v w)
    have "f v = f x" "f w = f x" using step.hyps step.prems stay
      by (meson converse_rtrancl_into_rtrancl rtrancl.rtrancl_into_rtrancl)+
    then have "(v, w) \<in> {e \<in> E. f (fst e) = f x \<and> f (snd e) = f x}" using step.hyps(2) by simp
    then show ?case using step.IH step.prems step.hyps(2) by (meson converse_rtrancl_into_rtrancl rtrancl.rtrancl_into_rtrancl)
  qed simp
  moreover obtain z where "(x, z) \<in> E\<^sup>*" "(z, y) \<in> E" using assms(1) by (meson tranclD2)
  moreover have "(z, y) \<in> {e \<in> E. f (fst e) = f x \<and> f (snd e) = f x}"
    using calculation(2,3) stay [of z] assms(2) by auto
  ultimately show ?thesis by (meson r_into_rtrancl rtrancl_into_trancl1)
qed

subsection \<open>Merging components\<close>

fun merge_map :: "(nat \<times> nat) list \<Rightarrow> nat \<Rightarrow> nat" where
  "merge_map [] = id"
| "merge_map ((r, i) # ps) = merge_map ps \<circ> contract r i"

definition merges :: "(nat \<times> nat) list \<Rightarrow> GraphComp \<Rightarrow> GraphComp" where
  "merges ps g = fold (\<lambda>(r, i). merge_component r i) ps g"

definition comp_ok :: "nat \<Rightarrow> GraphComp \<Rightarrow> bool" where
  "comp_ok n g \<longleftrightarrow> length (comp_sets g) = n \<and> in_range n (comp_edges g) \<and> (\<forall>v. (v, v) \<notin> comp_edges g)"

lemma merge_component_ok:
  assumes "comp_ok n g" and "r < n" and "i < n" and "r \<noteq> i"
  shows "comp_ok n (merge_component r i g)" and "comp_edges (merge_component r i g) = quot_edges (contract r i) (comp_edges g)"
    and "x < n \<Longrightarrow> comp_sets (merge_component r i g) ! x = (\<Union>y \<in> {y. y < n \<and> contract r i y = x}. comp_sets g ! y)"
proof -
  have fin: "finite (comp_edges g)" using assms(1) by (auto simp: comp_ok_def intro: in_range_finite)
  show e: "comp_edges (merge_component r i g) = quot_edges (contract r i) (comp_edges g)"
    using merged_edges [OF _ fin assms(4)] assms(1)
    by (simp add: merge_component_def Let_def comp_ok_def contract_quotient)
  have "contract r i y < n" if "y < n" for y using that assms(2) by (simp add: contract_def)
  then have "in_range n (quot_edges (contract r i) (comp_edges g))"
    using assms(1) by (auto simp: comp_ok_def in_range_def quot_edges_def)
  then show "comp_ok n (merge_component r i g)"
    using assms(1) quotient_irrefl unfolding comp_ok_def e by (simp add: merge_component_def Let_def)
  have "{y. y < n \<and> contract r i y = x} = (if x = i then {} else if x = r then {r, i} else if x < n then {x} else {})"
    using assms(2-4) by (auto simp: contract_def)
  then show "x < n \<Longrightarrow> comp_sets (merge_component r i g) ! x = (\<Union>y \<in> {y. y < n \<and> contract r i y = x}. comp_sets g ! y)"
    using assms by (simp add: merge_component_def Let_def comp_ok_def)
qed

lemma merges_ok:
  assumes "comp_ok n g" and "\<forall>(r, i) \<in> set ps. r < n \<and> i < n \<and> r \<noteq> i"
  shows "comp_ok n (merges ps g) \<and> comp_edges (merges ps g) = quot_edges (merge_map ps) (comp_edges g) \<and>
    (\<forall>c < n. comp_sets (merges ps g) ! c = (\<Union>x \<in> {x. x < n \<and> merge_map ps x = c}. comp_sets g ! x))"
  using assms
proof (induction ps arbitrary: g)
  case Nil
  then have "quot_edges (\<lambda>v. v) (comp_edges g) = comp_edges g" by (intro quotient_id) (auto simp: comp_ok_def)
  moreover have "{x. x < n \<and> x = c} = {c}" if "c < n" for c :: nat using that by auto
  ultimately show ?case using Nil by (simp add: merges_def id_def)
next
  case (Cons p ps)
  obtain r i where p: "p = (r, i)" "r < n" "i < n" "r \<noteq> i" using Cons.prems(2) by (cases p) auto
  note m = merge_component_ok [OF Cons.prems(1) p(2-4)]
  have cn: "contract r i y < n" if "y < n" for y using that p(2) by (simp add: contract_def)
  have IH: "comp_ok n (merges ps (merge_component r i g))"
    "comp_edges (merges ps (merge_component r i g)) = quot_edges (merge_map ps) (comp_edges (merge_component r i g))"
    "\<And>c. c < n \<Longrightarrow> comp_sets (merges ps (merge_component r i g)) ! c =
       (\<Union>x \<in> {x. x < n \<and> merge_map ps x = c}. comp_sets (merge_component r i g) ! x)"
    using Cons.IH [OF m(1)] Cons.prems(2) by auto
  have "comp_sets (merges ps (merge_component r i g)) ! c = (\<Union>x \<in> {x. x < n \<and> merge_map ps (contract r i x) = c}. comp_sets g ! x)"
    if "c < n" for c
  proof -
    have "(\<Union>x \<in> {x. x < n \<and> merge_map ps x = c}. comp_sets (merge_component r i g) ! x) =
        (\<Union>x \<in> {x. x < n \<and> merge_map ps x = c}. \<Union>y \<in> {y. y < n \<and> contract r i y = x}. comp_sets g ! y)"
      using m(3) by (intro SUP_cong) auto
    also have "\<dots> = (\<Union>x \<in> {x. x < n \<and> merge_map ps (contract r i x) = c}. comp_sets g ! x)" using cn by auto
    finally show ?thesis using IH(3) [OF that] by simp
  qed
  then show ?case using IH(1,2) m(2) by (simp add: p(1) merges_def quotient_comp comp_def)
qed

lemma merge_map_value:
  assumes "\<And>r i. (r, i) \<in> set ps \<Longrightarrow> r = rt i" and "\<And>r i. (r, i) \<in> set ps \<Longrightarrow> rt i \<notin> snd ` set ps"
  shows "merge_map ps c = (if c \<in> snd ` set ps then rt c else c)"
  using assms
proof (induction ps arbitrary: c)
  case (Cons p ps)
  obtain r i where p: "p = (r, i)" by (cases p)
  have r: "r = rt i" "r \<notin> snd ` set ps" "r \<noteq> i" using Cons.prems(1) [of r i] Cons.prems(2) [of r i] p by auto
  have IH: "merge_map ps d = (if d \<in> snd ` set ps then rt d else d)" for d
  proof (rule Cons.IH)
    show "s = rt j" "rt j \<notin> snd ` set ps" if "(s, j) \<in> set ps" for s j
      using that Cons.prems(1) [of s j] Cons.prems(2) [of s j] by simp_all
  qed
  show ?case using r IH by (cases "c = i") (auto simp: p contract_def)
qed simp

subsection \<open>Strongly connected components\<close>

lemma hd_tl_filter:
  assumes "c < n" and "ss ! c = s"
  shows "c = hd (filter (\<lambda>v. ss ! v = s) [0..<n]) \<or> c \<in> set (tl (filter (\<lambda>v. ss ! v = s) [0..<n]))"
    and "hd (filter (\<lambda>v. ss ! v = s) [0..<n]) < n \<and> ss ! hd (filter (\<lambda>v. ss ! v = s) [0..<n]) = s"
proof -
  let ?l = "filter (\<lambda>v. ss ! v = s) [0..<n]"
  have c: "c \<in> set ?l" using assms by simp
  then have ne: "?l \<noteq> []" by (metis empty_iff empty_set)
  then show "c = hd ?l \<or> c \<in> set (tl ?l)" using c by (metis list.collapse set_ConsD)
  have "hd ?l \<in> set ?l" using ne by (rule hd_in_set)
  then show "hd ?l < n \<and> ss ! hd ?l = s" by simp
qed

lemma tl_filter:
  assumes "c \<in> set (tl (filter (\<lambda>v. ss ! v = s) [0..<n]))"
  shows "c < n" and "ss ! c = s" and "c \<noteq> hd (filter (\<lambda>v. ss ! v = s) [0..<n])"
proof -
  let ?l = "filter (\<lambda>v. ss ! v = s) [0..<n]"
  have "c \<in> set ?l" using assms by (metis list.sel(2) list.set_sel(2))
  then show "c < n" "ss ! c = s" by auto
  have "distinct ?l" by simp
  then show "c \<noteq> hd ?l" using assms by (cases ?l) auto
qed

lemma merge_strong_ok:
  assumes "boost_graph (graph_lib env)" and "comp_ok n g"
  obtains F where "comp_ok n (merge_strong env g)" and "comp_edges (merge_strong env g) = quot_edges F (comp_edges g)"
    and "\<And>c. c < n \<Longrightarrow> comp_sets (merge_strong env g) ! c = (\<Union>x \<in> {x. x < n \<and> F x = c}. comp_sets g ! x)"
    and "\<And>a b. F a = F b \<longleftrightarrow> (a, b) \<in> (comp_edges g)\<^sup>* \<and> (b, a) \<in> (comp_edges g)\<^sup>*" and "\<And>c. c < n \<Longrightarrow> F c < n"
proof -
  let ?E = "comp_edges g"
  define ss where "ss = strong (graph_lib env) n ?E"
  define cl where "cl s = filter (\<lambda>v. ss ! v = s) [0..<n]" for s
  define ps where "ps = concat (map (\<lambda>s. map (Pair (hd (cl s))) (tl (cl s))) [0..<num_components ss])"
  define rt where "rt c = hd (cl (ss ! c))" for c
  have E: "in_range n ?E" and len: "length (comp_sets g) = n" using assms(2) by (auto simp: comp_ok_def)
  have part: "length ss = n" "\<And>u v. u < n \<Longrightarrow> v < n \<Longrightarrow> ss ! u = ss ! v \<longleftrightarrow> (u, v) \<in> ?E\<^sup>* \<and> (v, u) \<in> ?E\<^sup>*"
    using boost_graph.strong_partition [OF assms(1) E] by (auto simp: same_partition_def ss_def)
  have num: "ss ! c < num_components ss" if "c < n" for c
    using that part(1) by (auto simp: num_components_def less_Suc_eq_le)
  have rt: "rt c < n" "ss ! rt c = ss ! c" if "c < n" for c
    using hd_tl_filter(2) [OF that refl, of ss] by (simp_all add: rt_def cl_def)
  have ps: "(r, i) \<in> set ps \<longleftrightarrow> i < n \<and> r = rt i \<and> i \<noteq> rt i" for r i
  proof
    assume "(r, i) \<in> set ps"
    then obtain s where "r = hd (cl s)" "i \<in> set (tl (cl s))" by (auto simp: ps_def)
    then show "i < n \<and> r = rt i \<and> i \<noteq> rt i" using tl_filter [of i ss s n] by (auto simp: cl_def rt_def)
  next
    assume i: "i < n \<and> r = rt i \<and> i \<noteq> rt i"
    then have "i \<in> set (tl (cl (ss ! i)))" using hd_tl_filter(1) [of i n ss] by (auto simp: rt_def cl_def)
    then show "(r, i) \<in> set ps" using i num by (auto simp: ps_def rt_def)
  qed
  have snds: "c \<in> snd ` set ps \<longleftrightarrow> c < n \<and> c \<noteq> rt c" for c
  proof
    assume "c \<in> snd ` set ps"
    then show "c < n \<and> c \<noteq> rt c" using ps by (auto simp: image_iff)
  next
    assume "c < n \<and> c \<noteq> rt c"
    then have "(rt c, c) \<in> set ps" using ps by blast
    then show "c \<in> snd ` set ps" by (rule rev_image_eqI) simp
  qed
  have F: "merge_map ps c = (if c < n then rt c else c)" for c
  proof -
    have "rt (rt i) = rt i" if "i < n" for i using rt [OF that] by (simp add: rt_def)
    then show ?thesis using merge_map_value [of ps rt c] ps snds by auto
  qed
  have fold_ps: "merge_strong env g = merges ps g"
  proof -
    have "(if 1 < length l then fold (merge_component (hd l)) (tl l) h else h) = merges (map (Pair (hd l)) (tl l)) h" for l h
      by (cases l; cases "tl l") (auto simp: merges_def fold_map comp_def)
    then have "fold (\<lambda>l g. if 1 < length l then fold (merge_component (hd l)) (tl l) g else g) (map cl xs) h =
        merges (concat (map (\<lambda>s. map (Pair (hd (cl s))) (tl (cl s))) xs)) h" for xs h
      by (induction xs arbitrary: h) (simp_all add: merges_def)
    then show ?thesis unfolding merge_strong_def Let_def len ps_def ss_def cl_def by simp
  qed
  have m: "comp_ok n (merges ps g) \<and> comp_edges (merges ps g) = quot_edges (merge_map ps) ?E \<and>
    (\<forall>c < n. comp_sets (merges ps g) ! c = (\<Union>x \<in> {x. x < n \<and> merge_map ps x = c}. comp_sets g ! x))"
    using rt by (intro merges_ok [OF assms(2)]) (auto simp: ps)
  show ?thesis
  proof (rule that [of "merge_map ps"])
    show "merge_map ps a = merge_map ps b \<longleftrightarrow> (a, b) \<in> ?E\<^sup>* \<and> (b, a) \<in> ?E\<^sup>*" for a b
    proof (cases "a < n \<and> b < n")
      case True
      then have "rt a = rt b \<longleftrightarrow> ss ! a = ss ! b" using rt by (metis rt_def)
      then show ?thesis using True part(2) by (simp add: F)
    next
      case False
      have "(a, b) \<in> ?E\<^sup>* \<and> (b, a) \<in> ?E\<^sup>* \<longleftrightarrow> a = b"
        using False in_range_rtrancl [OF E] E by (auto elim: converse_rtranclE simp: in_range_def)
      then show ?thesis using False rt by (auto simp: F split: if_splits)
    qed
  qed (use m fold_ps F rt in auto)
qed

text \<open>The class of every vertex of the graph after \<^verbatim>\<open>split\<close> merged the components.\<close>

lemma split_classes:
  assumes "env_ok env" and "graph_ok env g"
  obtains n cls where "length (comp_sets (merge_strong env (component_graph env g))) = n"
    and "in_range n (comp_edges (merge_strong env (component_graph env g)))"
    and "comp_edges (merge_strong env (component_graph env g)) = quot_edges cls (dedges g)"
    and "acyclic (quot_edges cls (dedges g))"
    and "\<And>c. c < n \<Longrightarrow> comp_sets (merge_strong env (component_graph env g)) ! c = {v. v < length (kernels g) \<and> cls v = c}"
    and "\<And>v. v < length (kernels g) \<Longrightarrow> cls v < n"
    and "\<And>u v. (u, v) \<in> fst ` set (wedges g) \<Longrightarrow> cls u = cls v"
proof -
  let ?N = "length (kernels g)"
  let ?W = "fst ` set (wedges g)"
  have lib: "boost_graph (graph_lib env)" using assms(1) by (simp add: env_ok_def)
  have wn: "wnum g = ?N" using assms(2) by (simp add: graph_ok_def)
  have W: "in_range ?N ?W" using graph_ok_wedge [OF assms(2)] by (fastforce simp: in_range_def live_def)
  define cs where "cs = components (graph_lib env) ?N ?W"
  define n where "n = num_components cs"
  have cs: "length cs = ?N" "\<And>u v. u < ?N \<Longrightarrow> v < ?N \<Longrightarrow> cs ! u = cs ! v \<longleftrightarrow> (u, v) \<in> (?W \<union> ?W\<inverse>)\<^sup>*"
    using boost_graph.components_partition [OF lib W] by (auto simp: same_partition_def cs_def)
  have less: "cs ! v < n" if "v < ?N" for v using that cs(1) by (auto simp: n_def num_components_def less_Suc_eq_le)
  let ?C = "component_graph env g"
  have sets: "length (comp_sets ?C) = n" "\<And>c. c < n \<Longrightarrow> comp_sets ?C ! c = {v. v < ?N \<and> cs ! v = c}"
    by (auto simp: component_graph_def Let_def wn cs_def [symmetric] n_def [symmetric])
  have edges: "comp_edges ?C = quot_edges ((!) cs) (dedges g)"
    by (auto simp: component_graph_def Let_def wn cs_def [symmetric] quot_edges_def) blast
  have ok: "comp_ok n ?C"
    using sets(1) edges graph_ok_range [OF assms(2)] less by (auto simp: comp_ok_def in_range_def quot_edges_def)
  obtain F where F: "comp_ok n (merge_strong env ?C)" "comp_edges (merge_strong env ?C) = quot_edges F (comp_edges ?C)"
    "\<And>c. c < n \<Longrightarrow> comp_sets (merge_strong env ?C) ! c = (\<Union>x \<in> {x. x < n \<and> F x = c}. comp_sets ?C ! x)"
    "\<And>a b. F a = F b \<longleftrightarrow> (a, b) \<in> (comp_edges ?C)\<^sup>* \<and> (b, a) \<in> (comp_edges ?C)\<^sup>*" "\<And>c. c < n \<Longrightarrow> F c < n"
    by (rule merge_strong_ok [OF lib ok], rule that)
  let ?cls = "F \<circ> (!) cs"
  have q: "comp_edges (merge_strong env ?C) = quot_edges ?cls (dedges g)" by (simp add: F(2) edges quotient_comp)
  have "acyclic (quot_edges ?cls (dedges g))" using quotient_acyclic [of F "comp_edges ?C", OF F(4)] q F(2) by simp
  moreover have "comp_sets (merge_strong env ?C) ! c = {v. v < ?N \<and> ?cls v = c}" if "c < n" for c
    using F(3) [OF that] sets(2) less by auto
  moreover have "?cls u = ?cls v" if "(u, v) \<in> ?W" for u v
  proof -
    have "(u, v) \<in> (?W \<union> ?W\<inverse>)\<^sup>*" "u < ?N" "v < ?N" using that W by (auto simp: in_range_def)
    then have "cs ! u = cs ! v" using cs(2) by blast
    then show ?thesis by simp
  qed
  ultimately show ?thesis
    using that [of n ?cls] F(1,5) q less by (simp add: comp_ok_def)
qed

subsection \<open>The parts\<close>

lemma distinct_concat_map:
  assumes "distinct xs" and "\<And>x. x \<in> set xs \<Longrightarrow> distinct (f x)"
    and "\<And>x y. x \<in> set xs \<Longrightarrow> y \<in> set xs \<Longrightarrow> x \<noteq> y \<Longrightarrow> set (f x) \<inter> set (f y) = {}"
  shows "distinct (concat (map f xs))"
  using assms
proof (induction xs)
  case (Cons x xs)
  have "set (f x) \<inter> set (f y) = {}" if "y \<in> set xs" for y using that Cons.prems(1,3) by auto
  then show ?case using Cons by auto
qed simp

definition place :: "nat list \<Rightarrow> nat \<Rightarrow> nat" where
  "place vs v = the (map_of (zip vs [0..<length vs]) v)"

lemma place_nth: "distinct vs \<Longrightarrow> i < length vs \<Longrightarrow> place vs (vs ! i) = i"
  by (simp add: place_def map_of_zip_nth)

lemma nth_place:
  assumes "distinct vs" and "v \<in> set vs"
  shows "place vs v < length vs" and "vs ! place vs v = v"
  using assms place_nth by (metis in_set_conv_nth)+

lemma inj_place: "distinct vs \<Longrightarrow> inj_on (place vs) (set vs)"
  by (metis inj_onI nth_place(2))

lemma fold_add_weight:
  "fst ` set (fold (\<lambda>(e, w). add_weight (f (fst e)) (f (snd e)) w) es ws) \<subseteq> map_prod f f ` fst ` set es \<union> fst ` set ws"
proof (induction es arbitrary: ws)
  case (Cons e es)
  obtain u v w where e: "e = ((u, v), w)" by (metis prod.collapse)
  show ?case using Cons.IH [of "add_weight (f u) (f v) w ws"] fst_add_weight [of "f u" "f v" w ws] by (auto simp: e)
qed simp

lemma subgraph_parts:
  assumes "env_ok env" and "graph_ok env g" and "S \<subseteq> {..<length (kernels g)}"
  defines "h \<equiv> add_from_subgraph env S g GraphDW_new" and "vs \<equiv> sorted_list_of_set S"
  shows "kernels h = map ((!) (kernels g)) vs" and "wnum h = length (kernels h)"
    and "dedges h = map_prod (place vs) (place vs) ` {e \<in> dedges g. fst e \<in> S \<and> snd e \<in> S}"
    and "fst ` set (wedges h) \<subseteq> map_prod (place vs) (place vs) ` {e \<in> fst ` set (wedges g). fst e \<in> S \<and> snd e \<in> S}"
    and "set (instrs h) = (\<Union>v \<in> S. set (instr_indexes (kernels g ! v)))"
    and "set vs = S" and "distinct vs"
proof -
  have lib: "boost_graph (graph_lib env)" using assms(1) by (simp add: env_ok_def)
  have fin: "finite S" using assms(3) by (rule finite_subset) simp
  then show vs: "set vs = S" "distinct vs" by (simp_all add: vs_def)
  have pl: "place vs = (\<lambda>v. the (map_of (zip vs [0..<length vs]) v))" by (simp add: place_def fun_eq_iff)
  show ks: "kernels h = map ((!) (kernels g)) vs" and "wnum h = length (kernels h)"
    and "dedges h = map_prod (place vs) (place vs) ` {e \<in> dedges g. fst e \<in> S \<and> snd e \<in> S}"
    by (simp_all add: h_def add_from_subgraph_def Let_def GraphDW_new_def vs_def [symmetric] pl)
  show "set (instrs h) = (\<Union>v \<in> S. set (instr_indexes (kernels g ! v)))" using vs by (simp add: instrs_def ks)
  have we: "fst ` set (weight_edges env (wedges g)) = fst ` set (wedges g)"
    using boost_graph.set_order [OF lib, of "map fst (wedges g)"] by (simp add: weight_edges_def image_image)
  let ?es = "filter (\<lambda>(e, w). fst e \<in> S \<and> snd e \<in> S) (weight_edges env (wedges g))"
  have "fst ` set ?es \<subseteq> {e \<in> fst ` set (wedges g). fst e \<in> S \<and> snd e \<in> S}" unfolding we [symmetric] by auto
  moreover have "wedges h = fold (\<lambda>(e, w). add_weight (place vs (fst e)) (place vs (snd e)) w) ?es []"
    by (simp add: h_def add_from_subgraph_def Let_def GraphDW_new_def vs_def [symmetric] pl)
  ultimately show "fst ` set (wedges h) \<subseteq> map_prod (place vs) (place vs) ` {e \<in> fst ` set (wedges g). fst e \<in> S \<and> snd e \<in> S}"
    using fold_add_weight [of "place vs" ?es "[]"] image_mono [of "fst ` set ?es" _ "map_prod (place vs) (place vs)"]
    by (simp only: list.set image_empty Un_empty_right) (rule subset_trans)
qed

lemma subgraph_ok:
  assumes "env_ok env" and "graph_ok env g" and "S = {v. v < length (kernels g) \<and> cls v = c}" and "acyclic (quot_edges cls (dedges g))"
  shows "graph_ok env (add_from_subgraph env S g GraphDW_new)"
proof -
  let ?h = "add_from_subgraph env S g GraphDW_new" and ?vs = "sorted_list_of_set S"
  let ?pl = "place ?vs" and ?D = "{e \<in> dedges g. fst e \<in> S \<and> snd e \<in> S}"
  have S: "S \<subseteq> {..<length (kernels g)}" using assms(3) by auto
  note p = subgraph_parts [OF assms(1,2) S]
  have inj: "inj_on ?pl S" using inj_place [of ?vs] p(6,7) by simp
  have at: "kernels ?h ! ?pl v = kernels g ! v" "?pl v < length (kernels ?h)" if "v \<in> S" for v
    using nth_place [of ?vs v] p(6,7) that by (simp_all add: p(1))
  have lv: "live ?h = ?pl ` (live g \<inter> S)"
  proof
    show "?pl ` (live g \<inter> S) \<subseteq> live ?h" using at by (auto simp: live_def)
    show "live ?h \<subseteq> ?pl ` (live g \<inter> S)"
    proof
      fix i assume i: "i \<in> live ?h"
      then have il: "i < length ?vs" using p(1) by (simp add: live_def)
      have mem: "?vs ! i \<in> S" using il p(6) nth_mem by metis
      moreover have "?vs ! i \<in> live g" using i il mem S by (auto simp: live_def p(1))
      ultimately show "i \<in> ?pl ` (live g \<inter> S)" using place_nth [OF p(7) il] by (metis IntI image_eqI)
    qed
  qed
  have D: "?D \<subseteq> (live g \<inter> S) \<times> (live g \<inter> S)" using graph_ok_dedge [OF assms(2)] by auto
  have "acyclic ?D" using assms(2) by (auto simp: graph_ok_def intro: acyclic_subset)
  moreover have "inj_on ?pl (Field ?D)" using inj by (rule inj_on_subset) (auto simp: Field_def)
  ultimately have ac: "acyclic (dedges ?h)" unfolding p(3) by (rule acyclic_map)
  have "dedges ?h \<subseteq> live ?h \<times> live ?h" unfolding p(3) lv using D by (auto simp: map_prod_def)
  moreover have "precedence env ?h"
    unfolding precedence_def
  proof (intro ballI impI)
    fix u v i j assume a: "u \<in> live ?h" "v \<in> live ?h" "u \<noteq> v" "i \<in> set (instr_indexes (kernels ?h ! u))"
      "j \<in> set (instr_indexes (kernels ?h ! v))" "i < j \<and> dep env i j"
    obtain x y where xy: "x \<in> live g" "x \<in> S" "u = ?pl x" "y \<in> live g" "y \<in> S" "v = ?pl y" using a(1,2) unfolding lv by auto
    then have "(x, y) \<in> (dedges g)\<^sup>+" using a at by (intro graph_ok_path [OF assms(2), of x y i j]) auto
    then have "(x, y) \<in> {e \<in> dedges g. cls (fst e) = cls x \<and> cls (snd e) = cls x}\<^sup>+"
      using xy(2,5) assms(3,4) by (intro quotient_inside) auto
    moreover have "{e \<in> dedges g. cls (fst e) = cls x \<and> cls (snd e) = cls x} = ?D"
      using xy(2) assms(3) graph_ok_dedge [OF assms(2)] live_less by fastforce
    ultimately show "(u, v) \<in> (dedges ?h)\<^sup>+" using trancl_map [of x y ?D ?pl] xy(3,6) by (simp add: p(3))
  qed
  moreover have "fst ` set (wedges ?h) \<subseteq> {(u, v). u \<in> live ?h \<and> v \<in> live ?h \<and> u \<noteq> v}"
  proof
    fix e assume "e \<in> fst ` set (wedges ?h)"
    then have "e \<in> map_prod ?pl ?pl ` {e \<in> fst ` set (wedges g). fst e \<in> S \<and> snd e \<in> S}" using p(4) by (rule subsetD [rotated])
    then obtain d where d: "d \<in> {e \<in> fst ` set (wedges g). fst e \<in> S \<and> snd e \<in> S}" "e = map_prod ?pl ?pl d" by (rule imageE)
    define x y where "x = fst d" and "y = snd d"
    have e: "(x, y) \<in> fst ` set (wedges g)" "x \<in> S" "y \<in> S" "e = (?pl x, ?pl y)"
      using d by (simp_all add: x_def y_def map_prod_def case_prod_beta)
    then have "x \<in> live g" "y \<in> live g" "x \<noteq> y" using graph_ok_wedge [OF assms(2) e(1)] by auto
    then show "e \<in> {(u, v). u \<in> live ?h \<and> v \<in> live ?h \<and> u \<noteq> v}" unfolding lv using e inj by (auto simp: inj_on_def)
  qed
  moreover have "distinct (instrs ?h)"
  proof -
    have "distinct (instr_indexes (kernels g ! v))" if "v < length (kernels g)" for v
      using assms(2) that by (auto simp: graph_ok_def instrs_def distinct_concat_iff)
    then show ?thesis
      unfolding instrs_def p(1) map_map comp_def using p(6,7) S instrs_disjoint [OF assms(2)]
      by (intro distinct_concat_map) (auto, blast)
  qed
  moreover have "set (instrs ?h) \<subseteq> {..<length (instr_list env)}"
    using graph_ok_valid [OF assms(2)] S unfolding p(5) kernel_valid_def by blast
  moreover have "\<forall>k \<in> set (kernels ?h). in_order env (instr_indexes k)"
    using assms(2) S p(6) by (auto simp: p(1) graph_ok_def)
  ultimately show ?thesis using p(2) ac by (simp add: graph_ok_def)
qed

text \<open>The parts have the instructions of the graph, each in one part, and no part depends on a later one.\<close>

definition parts_ok :: "dag_env \<Rightarrow> GraphDW list \<Rightarrow> bool" where
  "parts_ok env gs \<longleftrightarrow> (\<forall>g \<in> set gs. graph_ok env g) \<and> schedule_ok env (concat (map (sort \<circ> instrs) gs))"

lemma parts_schedule:
  assumes "\<And>g. g \<in> set gs \<Longrightarrow> graph_ok env g" and "sorted_wrt (\<lambda>g h. first_then env (instrs g) (instrs h) \<and> set (instrs g) \<inter> set (instrs h) = {}) gs"
  shows "parts_ok env gs"
proof -
  have srt: "sorted_wrt (\<lambda>i j. dep env i j \<longrightarrow> i < j) (sort is)" if "distinct is" for "is"
  proof (rule sorted_wrt_mono_rel)
    show "sorted_wrt (<) (sort is)" using that by (simp add: strict_sorted_iff)
  qed simp
  have "in_order env (concat (map (sort \<circ> instrs) gs))"
    unfolding in_order_def sorted_wrt_concat
  proof
    show "\<forall>xs \<in> set (map (sort \<circ> instrs) gs). sorted_wrt (\<lambda>i j. dep env i j \<longrightarrow> i < j) xs"
      using srt assms(1) by (simp add: graph_ok_def)
    show "sorted_wrt (\<lambda>xs ys. \<forall>x \<in> set xs. \<forall>y \<in> set ys. dep env x y \<longrightarrow> x < y) (map (sort \<circ> instrs) gs)"
      unfolding sorted_wrt_map by (rule sorted_wrt_mono_rel [OF _ assms(2)]) (simp add: first_then_def)
  qed
  moreover have "distinct (concat (map (sort \<circ> instrs) gs))" using assms
  proof (induction gs)
    case (Cons g gs)
    have "distinct (instrs g)" using Cons.prems(1) [of g] by (simp add: graph_ok_def)
    then show ?case using Cons by (simp add: disjoint_iff)
  qed simp
  moreover have "set (concat (map (sort \<circ> instrs) gs)) \<subseteq> {..<length (instr_list env)}"
    using assms(1) by (fastforce simp: graph_ok_def)
  ultimately show ?thesis using assms(1) by (simp add: parts_ok_def schedule_ok_def)
qed

lemma split_ok:
  assumes "env_ok env" and "graph_ok env g"
  shows "\<exists>gs. split env g [] = Some gs \<and> parts_ok env gs \<and> set (concat (map instrs gs)) = set (instrs g)"
proof -
  let ?C = "merge_strong env (component_graph env g)" and ?N = "length (kernels g)"
  obtain n cls where len: "length (comp_sets ?C) = n" and r: "in_range n (comp_edges ?C)"
    and e: "comp_edges ?C = quot_edges cls (dedges g)" and ac: "acyclic (quot_edges cls (dedges g))"
    and cl: "\<And>c. c < n \<Longrightarrow> comp_sets ?C ! c = {v. v < ?N \<and> cls v = c}" and less: "\<And>v. v < ?N \<Longrightarrow> cls v < n"
    by (rule split_classes [OF assms], rule that)
  have lib: "boost_graph (graph_lib env)" using assms(1) by (simp add: env_ok_def)
  obtain ts where ts: "topo (graph_lib env) n (comp_edges ?C) = Some ts" "reverse_topological n (comp_edges ?C) ts"
    using boost_graph.topo_acyclic [OF lib r] ac e by auto
  have set_ts: "set ts = {..<n}" and dts: "distinct ts" using ts(2) by (auto simp: reverse_topological_def)
  have lts: "length ts = n" using set_ts dts by (metis card_lessThan distinct_card)
  define part where "part c = add_from_subgraph env (comp_sets ?C ! c) g GraphDW_new" for c
  have ok: "graph_ok env (part c)" and ins: "set (instrs (part c)) = (\<Union>v \<in> {v. v < ?N \<and> cls v = c}. set (instr_indexes (kernels g ! v)))"
    if "c < n" for c
    using subgraph_ok [OF assms cl [OF that] ac] subgraph_parts(5) [OF assms, of "comp_sets ?C ! c"] cl [OF that]
    by (auto simp: part_def)
  have after: "first_then env (instrs (part (ts ! j))) (instrs (part (ts ! i))) \<and> set (instrs (part (ts ! j))) \<inter> set (instrs (part (ts ! i))) = {}"
    if ij: "i < j" "j < n" for i j
  proof -
    have c: "ts ! i < n" "ts ! j < n" "ts ! i \<noteq> ts ! j" using ij set_ts lts dts nth_mem by (auto simp: nth_eq_iff_index_eq)
    have "x < y \<or> \<not> dep env x y" "x \<noteq> y" if xy: "x \<in> set (instrs (part (ts ! j)))" "y \<in> set (instrs (part (ts ! i)))" for x y
    proof -
      obtain u v where uv: "u < ?N" "cls u = ts ! j" "x \<in> set (instr_indexes (kernels g ! u))"
        "v < ?N" "cls v = ts ! i" "y \<in> set (instr_indexes (kernels g ! v))" using xy ins [OF c(1)] ins [OF c(2)] by auto
      then have "u \<noteq> v" using c(3) by auto
      then show "x \<noteq> y" using instrs_disjoint [OF assms(2) uv(1,4)] uv(3,6) by blast
      show "x < y \<or> \<not> dep env x y"
      proof (rule ccontr)
        assume "\<not> (x < y \<or> \<not> dep env x y)"
        then have "(v, u) \<in> (dedges g)\<^sup>+"
          using uv \<open>u \<noteq> v\<close> \<open>x \<noteq> y\<close> dep_sym [of "instr_list env" x y]
          by (intro graph_ok_path [OF assms(2), of v u y x]) (auto simp: live_def)
        then have "(ts ! i, ts ! j) \<in> (comp_edges ?C)\<^sup>+" using quotient_path [of v u "dedges g" cls] uv c(3) e by simp
        then obtain k where "k < i" "k < n" "ts ! j = ts ! k" using topological_trancl [OF ts(2) r, of "ts ! i" "ts ! j" i] ij by auto
        then show False using ij dts lts by (simp add: nth_eq_iff_index_eq)
      qed
    qed
    then show ?thesis by (auto simp: first_then_def)
  qed
  let ?gs = "map part (filter (\<lambda>v. comp_sets ?C ! v \<noteq> {}) (rev ts))"
  have sp: "split env g [] = Some ?gs" using ts(1) by (simp add: split_def Let_def len part_def)
  have "sorted_wrt (\<lambda>a b. first_then env (instrs (part a)) (instrs (part b)) \<and> set (instrs (part a)) \<inter> set (instrs (part b)) = {}) (rev ts)"
    using after lts by (auto simp: sorted_wrt_iff_nth_less rev_nth)
  then have "sorted_wrt (\<lambda>g h. first_then env (instrs g) (instrs h) \<and> set (instrs g) \<inter> set (instrs h) = {}) ?gs"
    unfolding sorted_wrt_map by (rule sorted_wrt_filter)
  then have "parts_ok env ?gs" using ok set_ts by (intro parts_schedule) auto
  moreover have "set (concat (map instrs ?gs)) = set (instrs g)"
  proof -
    have "set (concat (map instrs ?gs)) = (\<Union>c \<in> {c. c < n \<and> comp_sets ?C ! c \<noteq> {}}. set (instrs (part c)))"
      using set_ts by auto
    also have "\<dots> = (\<Union>v < ?N. set (instr_indexes (kernels g ! v)))" 
    proof
      show "(\<Union>v < ?N. set (instr_indexes (kernels g ! v))) \<subseteq> (\<Union>c \<in> {c. c < n \<and> comp_sets ?C ! c \<noteq> {}}. set (instrs (part c)))"
      proof
        fix x assume "x \<in> (\<Union>v < ?N. set (instr_indexes (kernels g ! v)))"
        then obtain v where v: "v < ?N" "x \<in> set (instr_indexes (kernels g ! v))" by auto
        then have "x \<in> set (instrs (part (cls v)))" "v \<in> comp_sets ?C ! cls v" using less ins cl by auto
        then show "x \<in> (\<Union>c \<in> {c. c < n \<and> comp_sets ?C ! c \<noteq> {}}. set (instrs (part c)))" using less [OF v(1)] by blast
      qed
    qed (use ins in auto)
    also have "\<dots> = set (instrs g)"
    proof -
      have "set (kernels g) = (\<lambda>v. kernels g ! v) ` {..<?N}" by (auto simp: in_set_conv_nth image_iff)
      then show ?thesis by (simp add: instrs_def)
    qed
    finally show ?thesis .
  qed
  ultimately show ?thesis using sp by blast
qed

end
