(* ===== verification/Bh_FuseCache.thy ===== *)
theory Bh_FuseCache
  imports Bh_DagInv "HOL-Library.AList"
begin

text \<open>
  The cache of fusions, \<^verbatim>\<open>include/bh_fuse_cache.h\<close> and \<^verbatim>\<open>core/bh_fuse_cache.cpp\<close>: a batch of instructions is
  hashed by what the selected fuse model looks at, and the instruction indexes of the kernels found for
  a hash are kept in memory and in a directory.

  \<^item> A stream is the list of the bytes written to it. Numbers of eight bytes are little endian.
  \<^item> \<^verbatim>\<open>boost::hash<string>\<close> is the argument \<open>hasher\<close>.
  \<^item> The map from hashes to entries is an association list: its order stands for the unspecified
    order of an \<^verbatim>\<open>unordered_map\<close>.
  \<^item> A directory is the list of its regular files, \<open>None\<close> when it does not exist. The archives of
    the serialisation library are the arguments \<open>save\<close> and \<open>restore\<close> (\<open>None\<close> is an exception, which may
    come at one try and not at the next). Messages, permissions and the temporary directory the files
    are written in before they are moved are left out.
  \<^item> \<open>None\<close> is an exception or a failing assertion.
\<close>

subsection \<open>Hashing a batch\<close>

record BatchHash =
  hviews :: "bh_view seqset"
  hshapes :: "bh_index list seqset"
  hvalue :: "64 word"

type_synonym hash_state = "byte list \<times> BatchHash"

definition inst_sep :: int where
  "inst_sep = 2 ^ 64 - 1"

definition op_sep :: int where
  "op_sep = 2 ^ 64 - 2"

definition put64 :: "int \<Rightarrow> hash_state \<Rightarrow> hash_state" where
  "put64 x s = (fst s @ le_bytes 8 x, snd s)"

definition put_bool :: "bool \<Rightarrow> hash_state \<Rightarrow> hash_state" where
  "put_bool b s = (fst s @ le_bytes 1 (of_bool b), snd s)"

definition put_view_id :: "bh_view \<Rightarrow> hash_state \<Rightarrow> hash_state" where
  "put_view_id view s =
     (let (vid, vs) = ss_insert (norm_view view) (hviews (snd s))
      in put64 (int (fst vid)) (fst s, (snd s)\<lparr>hviews := vs\<rparr>))"

definition put_shape_id :: "bh_view \<Rightarrow> hash_state \<Rightarrow> hash_state" where
  "put_shape_id view s =
     (let (sidp, ss) = ss_insert (take (ndim view) (shape view)) (hshapes (snd s))
      in put64 (int (fst sidp)) (fst s, (snd s)\<lparr>hshapes := ss\<rparr>))"

text \<open>The operands of an instruction that are not constants, in order.\<close>

definition hashed_operands :: "bh_instruction \<Rightarrow> bh_view list" where
  "hashed_operands instr = filter (\<lambda>view. \<not> bh_is_constant view) (map (\<lambda>oidx. operand instr ! oidx) [0..<bh_operands (opcode instr)])"

definition put_sweep :: "bh_instruction \<Rightarrow> hash_state \<Rightarrow> hash_state" where
  "put_sweep instr s =
     (if is_sweep (opcode instr)
      then put64 (constant_int64 (inst_constant instr)) (put64 (int (ndim (operand instr ! 1))) s) else s)"

definition put_is_scalar :: "bh_instruction \<Rightarrow> hash_state \<Rightarrow> hash_state option" where
  "put_is_scalar instr s =
     do { sc \<leftarrow> bh_is_scalar (operand instr ! 0);
          Some (put_bool (sc \<or> bh_opcode_is_accumulate (opcode instr) \<and> ndim (operand instr ! 0) = 1) s) }"

definition hashOpcodeOpidShapeidSweepdim :: "bh_instruction \<Rightarrow> hash_state \<Rightarrow> hash_state option" where
  "hashOpcodeOpidShapeidSweepdim instr s =
     (let s = put64 (opcode instr) s;
          s = fold (\<lambda>view s. put64 op_sep (put_shape_id view (put64 (int (ndim view)) (put_view_id view s)))) (hashed_operands instr) s;
          s = (if is_sweep (opcode instr) then put64 (constant_int64 (inst_constant instr)) s else s)
      in Some (put64 inst_sep s))"

definition hashOpidSweepdim :: "bh_instruction \<Rightarrow> hash_state \<Rightarrow> hash_state option" where
  "hashOpidSweepdim instr s =
     (let s = fold put_view_id (hashed_operands instr) s
      in Some (put64 inst_sep (put_sweep instr (put64 op_sep s))))"

definition hashScalarOpidSweepdim :: "bh_instruction \<Rightarrow> hash_state \<Rightarrow> hash_state option" where
  "hashScalarOpidSweepdim instr s =
     do { s \<leftarrow> put_is_scalar instr s;
          let s = fold put_view_id (hashed_operands instr) s;
          Some (put64 inst_sep (put_sweep instr (put64 op_sep s))) }"

definition hashScalarShapeidOpidSweepdim :: "bh_instruction \<Rightarrow> hash_state \<Rightarrow> hash_state option" where
  "hashScalarShapeidOpidSweepdim instr s =
     do { s \<leftarrow> put_is_scalar instr s;
          let s = put_shape_id (if is_sweep (opcode instr) then operand instr ! 1 else operand instr ! 0) s;
          let s = fold put_view_id (hashed_operands instr) s;
          Some (put64 inst_sep (put_sweep instr (put64 op_sep s))) }"

definition hashOpid :: "bh_instruction \<Rightarrow> hash_state \<Rightarrow> hash_state option" where
  "hashOpid instr s = Some (put64 inst_sep (fold put_view_id (hashed_operands instr) s))"

fun getInstrHash :: "FuseModel \<Rightarrow> (bh_instruction \<Rightarrow> hash_state \<Rightarrow> hash_state option) option" where
  "getInstrHash BROADEST = Some hashOpid"
| "getInstrHash NO_XSWEEP = Some hashOpidSweepdim"
| "getInstrHash NO_XSWEEP_SCALAR_SEPERATE = Some hashScalarOpidSweepdim"
| "getInstrHash NO_XSWEEP_SCALAR_SEPERATE_SHAPE_MATCH = Some hashScalarShapeidOpidSweepdim"
| "getInstrHash SAME_SHAPE = Some hashOpcodeOpidShapeidSweepdim"
| "getInstrHash SAME_SHAPE_RANGE = Some hashOpcodeOpidShapeidSweepdim"
| "getInstrHash SAME_SHAPE_RANDOM = Some hashOpcodeOpidShapeidSweepdim"
| "getInstrHash SAME_SHAPE_RANGE_RANDOM = Some hashOpcodeOpidShapeidSweepdim"
| "getInstrHash SAME_SHAPE_GENERATE_1DREDUCE = Some hashOpcodeOpidShapeidSweepdim"
| "getInstrHash _ = None"

fun hash_loop :: "(bh_instruction \<Rightarrow> hash_state \<Rightarrow> hash_state option) \<Rightarrow> program \<Rightarrow> hash_state \<Rightarrow> hash_state option" where
  "hash_loop hashFn [] s = Some s"
| "hash_loop hashFn (instr # prog) s = do { s \<leftarrow> hashFn instr s; hash_loop hashFn prog s }"

text \<open>The data that is hashed, and the constructor of \<^verbatim>\<open>BatchHash\<close>.\<close>

definition hash_data :: "FuseModel \<Rightarrow> program \<Rightarrow> hash_state option" where
  "hash_data fm prog =
     do { hashFn \<leftarrow> getInstrHash fm;
          hash_loop hashFn prog ([], \<lparr>hviews = ss_new, hshapes = ss_new, hvalue = 0\<rparr>) }"

definition BatchHash_new :: "(byte list \<Rightarrow> 64 word) \<Rightarrow> FuseModel \<Rightarrow> program \<Rightarrow> BatchHash option" where
  "BatchHash_new hasher fm prog = do { (data, b) \<leftarrow> hash_data fm prog; Some (b\<lparr>hvalue := hasher data\<rparr>) }"

subsection \<open>Cached fusions\<close>

record InstrIndexesList =
  instr_indexes_list :: "nat list list"
  ihash :: "64 word"
  ifuse_model :: string
  ifuser_name :: string

definition InstrIndexesList_new :: "FuseModel \<Rightarrow> bh_ir_kernel list \<Rightarrow> 64 word \<Rightarrow> string \<Rightarrow> InstrIndexesList" where
  "InstrIndexesList_new fm kernel_list h name =
     \<lparr>instr_indexes_list = map instr_indexes kernel_list, ihash = h, ifuse_model = fuse_model_text fm, ifuser_name = name\<rparr>"

fun fill_cached_loop :: "program \<Rightarrow> nat list list \<Rightarrow> bh_ir_kernel list \<Rightarrow> bh_ir_kernel list option" where
  "fill_cached_loop prog [] kernel_list = Some kernel_list"
| "fill_cached_loop prog (is # iss) kernel_list =
     do { k \<leftarrow> add_instrs prog is bh_ir_kernel_new; fill_cached_loop prog iss (kernel_list @ [k]) }"

definition fill_cached :: "program \<Rightarrow> InstrIndexesList \<Rightarrow> bh_ir_kernel list \<Rightarrow> bh_ir_kernel list option" where
  "fill_cached prog t kernel_list = fill_cached_loop prog (instr_indexes_list t) kernel_list"

text \<open>\<^verbatim>\<open>std::hex\<close>: the lower-case hexadecimal digits of a number, the most significant first.\<close>

definition hex_digit :: "nat \<Rightarrow> char" where
  "hex_digit d = ''0123456789abcdef'' ! d"

fun hex_string :: "nat \<Rightarrow> string" where
  "hex_string n = (if n < 16 then [hex_digit n] else hex_string (n div 16) @ [hex_digit (n mod 16)])"

declare hex_string.simps [simp del]

definition get_filename :: "InstrIndexesList \<Rightarrow> string" where
  "get_filename t = ifuse_model t @ ''--'' @ hex_string (unat (ihash t)) @ ''--'' @ ifuser_name t"

subsection \<open>The cache\<close>

record FuseCache =
  cache :: "(64 word \<times> InstrIndexesList) list"
  dir_path :: "string option"
  fuser_name :: string
  deactivated :: bool

definition cache_insert :: "FuseModel \<Rightarrow> BatchHash \<Rightarrow> bh_ir_kernel list \<Rightarrow> FuseCache \<Rightarrow> FuseCache" where
  "cache_insert fm batch kernel_list c =
     c\<lparr>cache := AList.update (hvalue batch) (InstrIndexesList_new fm kernel_list (hvalue batch) (fuser_name c)) (cache c)\<rparr>"

text \<open>The outer \<open>None\<close> is an exception, the inner one the answer \<^verbatim>\<open>false\<close>.\<close>

definition cache_lookup :: "program \<Rightarrow> BatchHash \<Rightarrow> FuseCache \<Rightarrow> bh_ir_kernel list \<Rightarrow> bh_ir_kernel list option option" where
  "cache_lookup prog batch c kernel_list =
     (case map_of (cache c) (hvalue batch) of
        None \<Rightarrow> Some None
      | Some t \<Rightarrow> if deactivated c then Some None else map_option Some (fill_cached prog t kernel_list))"

type_synonym 'f directory = "(string \<times> 'f) list option"

fun write_loop :: "(InstrIndexesList \<Rightarrow> 'f) \<Rightarrow> (64 word \<times> InstrIndexesList) list \<Rightarrow> (string \<times> 'f) list \<Rightarrow> (string \<times> 'f) list" where
  "write_loop save [] files = files"
| "write_loop save ((h, t) # es) files =
     (let name = get_filename t
      in if name \<in> set (map fst files) then write_loop save es files
         else write_loop save es (files @ [(name, save t)]))"

definition write_to_files :: "(InstrIndexesList \<Rightarrow> 'f) \<Rightarrow> FuseCache \<Rightarrow> 'f directory \<Rightarrow> 'f directory" where
  "write_to_files save c dir =
     (if deactivated c then dir
      else case dir_path c of
        None \<Rightarrow> dir
      | Some p \<Rightarrow> Some (write_loop save (cache c) (case dir of None \<Rightarrow> [] | Some files \<Rightarrow> files)))"

text \<open>\<open>tries\<close> failed so far; after ten the file is given up.\<close>

function read_file :: "(nat \<Rightarrow> 'f \<Rightarrow> InstrIndexesList option) \<Rightarrow> 'f \<Rightarrow> nat \<Rightarrow> InstrIndexesList option" where
  "read_file restore f tries =
     (case restore tries f of
        Some t \<Rightarrow> Some t
      | None \<Rightarrow> if 10 \<le> Suc tries then None else read_file restore f (Suc tries))"
  by pat_completeness auto
termination by (relation "measure (\<lambda>(restore, f, tries). 10 - tries)") auto

declare read_file.simps [simp del]

definition load_file ::
  "(string \<Rightarrow> string \<Rightarrow> bool) \<Rightarrow> (nat \<Rightarrow> 'f \<Rightarrow> InstrIndexesList option) \<Rightarrow> FuseModel \<Rightarrow> string \<times> 'f \<Rightarrow> FuseCache \<Rightarrow> FuseCache" where
  "load_file iequals restore fm f c =
     (case read_file restore (snd f) 0 of
        None \<Rightarrow> c
      | Some t \<Rightarrow>
          if iequals (ifuser_name t) (fuser_name c) \<and> iequals (ifuse_model t) (fuse_model_text fm)
          then c\<lparr>cache := AList.update (ihash t) t (cache c)\<rparr> else c)"

definition load_from_files ::
  "(string \<Rightarrow> string \<Rightarrow> bool) \<Rightarrow> (nat \<Rightarrow> 'f \<Rightarrow> InstrIndexesList option) \<Rightarrow> FuseModel \<Rightarrow> 'f directory \<Rightarrow> FuseCache \<Rightarrow> FuseCache" where
  "load_from_files iequals restore fm dir c =
     (case dir_path c of
        None \<Rightarrow> c
      | Some p \<Rightarrow> (case dir of None \<Rightarrow> c | Some files \<Rightarrow> fold (load_file iequals restore fm) files c))"

text \<open>The constructor, from the keys \<^verbatim>\<open>cache_path\<close> and \<^verbatim>\<open>fuse_cache\<close> of the configuration and the name of
  the component.\<close>

definition FuseCache_new ::
  "(string \<Rightarrow> string \<Rightarrow> bool) \<Rightarrow> (nat \<Rightarrow> 'f \<Rightarrow> InstrIndexesList option) \<Rightarrow> FuseModel \<Rightarrow> string option \<Rightarrow> string \<Rightarrow> bool \<Rightarrow>
   'f directory \<Rightarrow> FuseCache" where
  "FuseCache_new iequals restore fm cache_path name fuse_cache dir =
     (let c = \<lparr>cache = [], dir_path = cache_path, fuser_name = name, deactivated = \<not> fuse_cache\<rparr>
      in if \<not> deactivated c then load_from_files iequals restore fm dir c else c)"

subsection \<open>The hash of a batch is defined\<close>

lemma put_is_scalar_total: "0 < ndim (operand i ! 0) \<Longrightarrow> \<exists>s'. put_is_scalar i s = Some s'"
  by (simp add: put_is_scalar_def bh_is_scalar_def bh_nelements_view_def bh_nelements_def put_bool_def)

lemma hash_total:
  assumes "getInstrHash fm = Some hashFn" and "0 < ndim (operand i ! 0)"
  shows "\<exists>s'. hashFn i s = Some s'"
  using assms put_is_scalar_total [OF assms(2), of s]
  by (cases fm) (auto simp: hashOpid_def hashOpidSweepdim_def hashScalarOpidSweepdim_def hashScalarShapeidOpidSweepdim_def
      hashOpcodeOpidShapeidSweepdim_def Let_def)

lemma hash_loop_total:
  assumes "getInstrHash fm = Some hashFn" and "\<forall>i \<in> set prog. 0 < ndim (operand i ! 0)"
  shows "\<exists>s'. hash_loop hashFn prog s = Some s'"
  using assms(2)
proof (induction prog arbitrary: s)
  case (Cons i prog)
  then show ?case using hash_total [OF assms(1), of i s] by auto
qed simp

lemma BatchHash_total:
  assumes "fm \<noteq> NUM_OF_MODELS" and "\<forall>i \<in> set prog. 0 < ndim (operand i ! 0)"
  shows "\<exists>b. BatchHash_new hasher fm prog = Some b"
proof -
  obtain hashFn where "getInstrHash fm = Some hashFn" using assms(1) by (cases fm) auto
  then show ?thesis
    using hash_loop_total [OF _ assms(2), of fm hashFn "([], \<lparr>hviews = ss_new, hshapes = ss_new, hvalue = 0\<rparr>)"]
    by (auto simp: BatchHash_new_def hash_data_def)
qed

subsection \<open>Cached kernels\<close>

lemma fill_cached_loop_ok:
  assumes "env_ok env" and "\<forall>is \<in> set iss. set is \<subseteq> {..<length (instr_list env)}"
  shows "\<exists>ks. fill_cached_loop (instr_list env) iss acc = Some (acc @ ks) \<and> map instr_indexes ks = iss \<and>
    (\<forall>k \<in> set ks. add_instrs (instr_list env) (instr_indexes k) bh_ir_kernel_new = Some k)"
  using assms(2)
proof (induction iss arbitrary: acc)
  case (Cons "is" iss)
  obtain k where k: "add_instrs (instr_list env) is bh_ir_kernel_new = Some k"
    using add_instrs_total [OF assms(1), of "is" bh_ir_kernel_new] Cons.prems by auto
  then have "instr_indexes k = is" using add_instrs_indexes [OF k] by (simp add: bh_ir_kernel_new_def)
  moreover obtain ks where "fill_cached_loop (instr_list env) iss (acc @ [k]) = Some (acc @ k # ks)" "map instr_indexes ks = iss"
      "\<forall>k \<in> set ks. add_instrs (instr_list env) (instr_indexes k) bh_ir_kernel_new = Some k"
    using Cons.IH [of "acc @ [k]"] Cons.prems by auto
  ultimately show ?case using k by (intro exI [of _ "k # ks"]) simp
qed simp

definition constructed :: "program \<Rightarrow> bh_ir_kernel \<Rightarrow> bool" where
  "constructed prog k \<longleftrightarrow> add_instrs prog (instr_indexes k) bh_ir_kernel_new = Some k"

lemma constructed_unique:
  assumes "map instr_indexes ks = map instr_indexes ks'" and "list_all (constructed prog) ks" and "list_all (constructed prog) ks'"
  shows "ks = ks'"
  using assms
proof (induction ks ks' rule: list_induct2')
  case (4 k ks k' ks')
  then have "Some k = Some k'" by (simp add: constructed_def)
  then show ?case using 4 by simp
qed simp_all

lemma lookup_hit:
  assumes "env_ok env" and "map_of (cache c) (hvalue b) = Some t" and "\<not> deactivated c"
    and "\<forall>is \<in> set (instr_indexes_list t). set is \<subseteq> {..<length (instr_list env)}"
  obtains ks where "cache_lookup (instr_list env) b c [] = Some (Some ks)" and "map instr_indexes ks = instr_indexes_list t"
    and "list_all (constructed (instr_list env)) ks"
proof -
  obtain ks where "fill_cached_loop (instr_list env) (instr_indexes_list t) [] = Some ([] @ ks)"
    "map instr_indexes ks = instr_indexes_list t" "\<forall>k \<in> set ks. add_instrs (instr_list env) (instr_indexes k) bh_ir_kernel_new = Some k"
    using fill_cached_loop_ok [OF assms(1,4)] by blast
  then show ?thesis
    using assms(2,3) by (intro that [of ks]) (simp_all add: cache_lookup_def fill_cached_def list_all_iff constructed_def)
qed

lemma insert_lookup:
  assumes "env_ok env" and "\<not> deactivated c" and "\<forall>k \<in> set ks. kernel_valid env k"
  obtains ks' where "cache_lookup (instr_list env) b (cache_insert fm b ks c) [] = Some (Some ks')"
    and "map instr_indexes ks' = map instr_indexes ks" and "list_all (constructed (instr_list env)) ks'"
  by (rule lookup_hit [OF assms(1), of "cache_insert fm b ks c" b "InstrIndexesList_new fm ks (hvalue b) (fuser_name c)"])
    (use assms(2,3) that in \<open>auto simp: cache_insert_def InstrIndexesList_new_def update_conv' kernel_valid_def\<close>)

subsection \<open>Files\<close>

lemma hex_digit_inj: "a < 16 \<Longrightarrow> b < 16 \<Longrightarrow> hex_digit a = hex_digit b \<Longrightarrow> a = b"
  unfolding hex_digit_def by (simp add: nth_eq_iff_index_eq)

lemma hex_string_inj: "hex_string m = hex_string n \<Longrightarrow> m = n"
proof (induction m arbitrary: n rule: less_induct)
  case (less m)
  have long: "hex_string (k div 16) \<noteq> []" for k by (subst hex_string.simps) simp
  have eq: "(if m < 16 then [hex_digit m] else hex_string (m div 16) @ [hex_digit (m mod 16)]) =
      (if n < 16 then [hex_digit n] else hex_string (n div 16) @ [hex_digit (n mod 16)])"
    using less.prems hex_string.simps [of m] hex_string.simps [of n] by simp
  show ?case
  proof (cases "m < 16 \<or> n < 16")
    case True
    then show ?thesis using eq long [of m] long [of n] hex_digit_inj [of m n] by (simp split: if_splits)
  next
    case False
    then have "m div 16 = n div 16" using eq by (intro less.IH) simp_all
    moreover have "m mod 16 = n mod 16" using eq False by (intro hex_digit_inj) simp_all
    ultimately show ?thesis by (metis div_mult_mod_eq)
  qed
qed

lemma get_filename_inj:
  "get_filename t = get_filename t' \<Longrightarrow> ifuse_model t = ifuse_model t' \<Longrightarrow> ifuser_name t = ifuser_name t' \<Longrightarrow> ihash t = ihash t'"
  by (simp add: get_filename_def word_unat_eq_iff) (blast dest: hex_string_inj)

text \<open>Entries this process has inserted.\<close>

definition own_entry :: "FuseModel \<Rightarrow> string \<Rightarrow> 64 word \<times> InstrIndexesList \<Rightarrow> bool" where
  "own_entry fm name e \<longleftrightarrow> ihash (snd e) = fst e \<and> ifuse_model (snd e) = fuse_model_text fm \<and> ifuser_name (snd e) = name"

definition cache_inv :: "FuseModel \<Rightarrow> FuseCache \<Rightarrow> bool" where
  "cache_inv fm c \<longleftrightarrow> distinct (map fst (cache c)) \<and> list_all (own_entry fm (fuser_name c)) (cache c)"

lemma set_update_subset: "set (AList.update k v es) \<subseteq> insert (k, v) (set es)"
  by (induction es) auto

lemma cache_inv_insert [bh_inv]: "cache_inv fm c \<Longrightarrow> cache_inv fm (cache_insert fm b ks c)"
  using set_update_subset [of "hvalue b" "InstrIndexesList_new fm ks (hvalue b) (fuser_name c)" "cache c"]
  by (auto simp: cache_inv_def cache_insert_def list_all_iff own_entry_def InstrIndexesList_new_def distinct_update)

lemma write_loop_fresh:
  assumes "distinct (map fst es)" and "list_all (own_entry fm name) es" and "get_filename ` snd ` set es \<inter> set (map fst files) = {}"
  shows "write_loop save es files = files @ map (\<lambda>e. (get_filename (snd e), save (snd e))) es"
  using assms
proof (induction save es files rule: write_loop.induct)
  case (2 save h t es files)
  have "get_filename t \<notin> get_filename ` snd ` set es"
  proof
    assume "get_filename t \<in> get_filename ` snd ` set es"
    then obtain e where "e \<in> set es" "get_filename t = get_filename (snd e)" by auto
    moreover from this have "ihash t = ihash (snd e)" using 2(4) by (intro get_filename_inj) (auto simp: own_entry_def list_all_iff)
    ultimately show False using 2(3,4) by (force simp: own_entry_def list_all_iff)
  qed
  then show ?case using 2 by (auto simp: Let_def)
qed simp

text \<open>What the files rely on: each try to read an archive fails or restores what was saved, and one of the
  first ten succeeds.\<close>

definition archive_ok :: "(InstrIndexesList \<Rightarrow> 'f) \<Rightarrow> (nat \<Rightarrow> 'f \<Rightarrow> InstrIndexesList option) \<Rightarrow> bool" where
  "archive_ok save restore \<longleftrightarrow>
     (\<forall>t. (\<forall>k. restore k (save t) \<in> {None, Some t}) \<and> (\<exists>k < 10. restore k (save t) = Some t))"

lemma read_file_first:
  assumes "\<forall>k. restore k f \<in> {None, Some t}" and "tries < 10"
  shows "read_file restore f tries = (if \<exists>k < 10. tries \<le> k \<and> restore k f = Some t then Some t else None)"
  using assms(2)
proof (induction "9 - tries" arbitrary: tries)
  case 0
  then have "tries = 9" by simp
  moreover have "k = 9" if "k < 10" and "9 \<le> k" for k :: nat using that by simp
  then have "(\<exists>k < 10. 9 \<le> k \<and> restore k f = Some t) \<longleftrightarrow> restore 9 f = Some t"
    by (intro iffI) (metis, intro exI [of _ 9], simp)
  moreover have "restore 9 f = None \<or> restore 9 f = Some t" using assms(1) by blast
  moreover have "read_file restore f 9 = restore 9 f" by (simp add: read_file.simps [of _ _ 9] split: option.splits)
  ultimately show ?case by auto
next
  case (Suc x)
  then have "tries < 9" by simp
  moreover have "(\<exists>k < 10. tries \<le> k \<and> restore k f = Some t) \<longleftrightarrow> restore tries f = Some t \<or> (\<exists>k < 10. Suc tries \<le> k \<and> restore k f = Some t)"
    using Suc.prems by (metis Suc_leD not_less_eq_eq order_antisym_conv order_refl)
  moreover have "read_file restore f (Suc tries) = (if \<exists>k < 10. Suc tries \<le> k \<and> restore k f = Some t then Some t else None)"
    using Suc by simp
  moreover have "restore tries f = None \<or> restore tries f = Some t" using assms(1) by blast
  ultimately show ?case by (subst read_file.simps) (auto simp del: Suc_le_eq split: option.splits)
qed

lemma read_saved: "archive_ok save restore \<Longrightarrow> read_file restore (save t) 0 = Some t"
  by (subst read_file_first [where t = t]) (auto simp: archive_ok_def)

lemma load_saved:
  assumes "archive_ok save restore" and "\<And>x. iequals x x" and "list_all (own_entry fm name) es"
  shows "fold (load_file iequals restore fm) (map (\<lambda>e. (get_filename (snd e), save (snd e))) es) (c\<lparr>cache := xs, fuser_name := name\<rparr>) =
    c\<lparr>cache := fold (\<lambda>e. AList.update (fst e) (snd e)) es xs, fuser_name := name\<rparr>"
  using assms(3)
proof (induction es arbitrary: xs)
  case (Cons e es)
  then have "load_file iequals restore fm (get_filename (snd e), save (snd e)) (c\<lparr>cache := xs, fuser_name := name\<rparr>) =
      c\<lparr>cache := AList.update (fst e) (snd e) xs, fuser_name := name\<rparr>"
    using read_saved [OF assms(1)] assms(2) by (simp add: load_file_def own_entry_def)
  then show ?case using Cons by simp
qed simp

lemma map_of_updates:
  "distinct (map fst es) \<Longrightarrow> map_of (fold (\<lambda>e. AList.update (fst e) (snd e)) es xs) = map_of xs ++ map_of es"
proof (induction es arbitrary: xs)
  case (Cons e es)
  then have "map_of es (fst e) = None" by (simp add: map_of_eq_None_iff)
  then show ?case using Cons by (auto simp: update_conv' map_add_def fun_eq_iff split: option.splits)
qed simp

subsection \<open>Properties\<close>

lemma fill_cached_constructed:
  "list_all (constructed prog) ks \<Longrightarrow> fill_cached_loop prog (map instr_indexes ks) acc = Some (acc @ ks)"
  by (induction ks arbitrary: acc) (auto simp: constructed_def)

text \<open>
  A fusion that has been inserted into an active cache is found again: the lookup of its hash rebuilds
  exactly the inserted kernels, and the lookup of every other hash answers as before.
\<close>

theorem fuse_cache_roundtrip:
  assumes "\<not> deactivated c" and "list_all (constructed prog) ks"
  shows "cache_lookup prog b (cache_insert fm b ks c) [] = Some (Some ks) \<and>
    (hvalue b' \<noteq> hvalue b \<longrightarrow> cache_lookup prog' b' (cache_insert fm b ks c) [] = cache_lookup prog' b' c [])"
  using assms fill_cached_constructed [OF assms(2), of "[]"]
  by (simp add: cache_lookup_def cache_insert_def fill_cached_def InstrIndexesList_new_def update_conv' split: option.splits)

text \<open>\<^verbatim>\<open>v = u + u; w = v + v\<close> in one kernel.\<close>

definition cached_prog :: program where
  "cached_prog = [instr3 BH_ADD (line_view 1 3) (line_view 4 3) (line_view 4 3),
                  instr3 BH_ADD (line_view 2 3) (line_view 1 3) (line_view 1 3)]"

lemma cached_hash: "\<exists>b. BatchHash_new hasher BROADEST cached_prog = Some b"
  by (rule BatchHash_total) (simp_all add: cached_prog_def instr3_def line_view_def mk_view_def)

theorem fuse_cache_roundtrip_witness:
  "\<exists>k b. add_instrs cached_prog [0, 1] bh_ir_kernel_new = Some k \<and> BatchHash_new (\<lambda>_. 5) BROADEST cached_prog = Some b \<and>
     cache_lookup cached_prog b (cache_insert BROADEST b [k] (FuseCache_new (=) (\<lambda>_ _. None) BROADEST None ''topological'' True None)) [] =
       Some (Some [k])"
proof -
  have "\<not> Option.is_none (add_instrs cached_prog [0, 1] bh_ir_kernel_new)" by code_simp
  then obtain k where k: "add_instrs cached_prog [0, 1] bh_ir_kernel_new = Some k" by (auto simp: Option.is_none_def)
  then have "constructed cached_prog k" using add_instrs_indexes [OF k] by (simp add: constructed_def bh_ir_kernel_new_def)
  moreover obtain b where "BatchHash_new (\<lambda>_. 5) BROADEST cached_prog = Some b"
    using cached_hash by blast
  ultimately show ?thesis
    using k fuse_cache_roundtrip [of "FuseCache_new (=) (\<lambda>_ _. None) BROADEST None ''topological'' True None" cached_prog "[k]" b BROADEST]
    by (simp add: FuseCache_new_def load_from_files_def)
qed

text \<open>
  C37. The cache survives on disk: after any insertions into a fresh cache, writing it to an empty
  directory and starting a new process with the same fuser and fuse model gives a cache that answers
  every lookup as the old one.
\<close>

theorem fuse_cache_files_roundtrip:
  fixes save :: "InstrIndexesList \<Rightarrow> 'f"
  assumes "archive_ok save restore" and "\<And>x. iequals x x"
    and "c = fold (\<lambda>(b, ks). cache_insert fm b ks) batches (FuseCache_new iequals restore fm (Some p) name True None)"
    and "dir = write_to_files save c None"
  shows "cache_lookup prog b (FuseCache_new iequals restore fm (Some p) name True dir) ks = cache_lookup prog b c ks"
proof -
  let ?new = "FuseCache_new iequals restore fm (Some p) name True (None :: 'f directory)"
  have new: "?new = \<lparr>cache = [], dir_path = Some p, fuser_name = name, deactivated = False\<rparr>"
    by (simp add: FuseCache_new_def load_from_files_def)
  have "cache_inv fm (fold (\<lambda>(b, ks). cache_insert fm b ks) bs c) \<and>
      (\<exists>es. fold (\<lambda>(b, ks). cache_insert fm b ks) bs c = c\<lparr>cache := es\<rparr>)" if "cache_inv fm c" for bs c
    using that
  proof (induction bs arbitrary: c)
    case (Cons e bs)
    then show ?case using Cons.IH [OF cache_inv_insert [OF Cons.prems]] by (cases e) (force simp: cache_insert_def)
  next
    case Nil
    then show ?case by (auto intro!: exI [of _ "cache c"])
  qed
  moreover have "cache_inv fm ?new" by (simp add: new cache_inv_def)
  ultimately obtain es where inv: "cache_inv fm c" and c: "c = ?new\<lparr>cache := es\<rparr>" using assms(3) by blast
  then have es: "distinct (map fst es)" "list_all (own_entry fm name) es" by (simp_all add: cache_inv_def new)
  have "dir = Some (map (\<lambda>e. (get_filename (snd e), save (snd e))) es)"
    using write_loop_fresh [OF es, of "[]" save] assms(4) by (simp add: c new write_to_files_def)
  then have "FuseCache_new iequals restore fm (Some p) name True dir = ?new\<lparr>cache := fold (\<lambda>e. AList.update (fst e) (snd e)) es []\<rparr>"
    using load_saved [where iequals = iequals and c = ?new and xs = "[]", OF assms(1,2) es(2)] by (simp add: FuseCache_new_def load_from_files_def new)
  then show ?thesis using map_of_updates [OF es(1), of "[]"] by (simp add: cache_lookup_def c new split: option.splits)
qed

text \<open>Archives that fail at the first try.\<close>

definition slow_restore :: "nat \<Rightarrow> InstrIndexesList \<Rightarrow> InstrIndexesList option" where
  "slow_restore k f = (if k = 0 then None else Some f)"

theorem fuse_cache_files_roundtrip_witness:
  "\<exists>b c dir. BatchHash_new (\<lambda>_. 5) BROADEST cached_prog = Some b \<and>
     c = cache_insert BROADEST b [] (FuseCache_new (=) slow_restore BROADEST (Some ''/tmp'') ''greedy'' True None) \<and>
     dir = write_to_files id c None \<and>
     cache_lookup cached_prog b (FuseCache_new (=) slow_restore BROADEST (Some ''/tmp'') ''greedy'' True dir) [] = Some (Some [])"
proof -
  obtain b where b: "BatchHash_new (\<lambda>_. 5) BROADEST cached_prog = Some b"
    using cached_hash by blast
  let ?c = "cache_insert BROADEST b [] (FuseCache_new (=) slow_restore BROADEST (Some ''/tmp'') ''greedy'' True None)"
  have "archive_ok id slow_restore" by (auto simp: archive_ok_def slow_restore_def intro!: exI [of _ 1])
  then have "cache_lookup cached_prog b (FuseCache_new (=) slow_restore BROADEST (Some ''/tmp'') ''greedy'' True (write_to_files id ?c None)) [] =
      cache_lookup cached_prog b ?c []"
    by (rule fuse_cache_files_roundtrip [where batches = "[(b, [])]"]) simp_all
  then show ?thesis
    using b by (simp add: cache_lookup_def cache_insert_def fill_cached_def InstrIndexesList_new_def FuseCache_new_def load_from_files_def)
qed

end
