(* ===== verification/Bh_Fusers.thy ===== *)
theory Bh_Fusers
  imports Bh_DagSplit Bh_FuseCache
begin

text \<open>
  The fuser components \<^verbatim>\<open>fuser/singleton\<close>, \<^verbatim>\<open>fuser/topological\<close>, \<^verbatim>\<open>fuser/gentle\<close> and \<^verbatim>\<open>fuser/greedy\<close>:
  \<^verbatim>\<open>do_fusion\<close> turns the instructions of a batch into kernels, and \<^verbatim>\<open>fuser\<close> does so through the cache of
  fusions. \<open>Inl\<close> is the exception \<^verbatim>\<open>logic_error\<close>, \<open>None\<close> every other exception and a failing assertion.
\<close>

subsection \<open>The four fusions\<close>

function singleton_loop :: "program \<Rightarrow> nat \<Rightarrow> bh_ir_kernel list \<Rightarrow> bh_ir_kernel list option" where
  "singleton_loop prog idx kernel_list =
     (if idx < length prog then
        do { k \<leftarrow> add_instr prog idx bh_ir_kernel_new; singleton_loop prog (idx + 1) (kernel_list @ [k]) }
      else Some kernel_list)"
  by pat_completeness auto
termination by (relation "measure (\<lambda>(prog, idx, kernel_list). length prog - idx)") auto

declare singleton_loop.simps [simp del]

definition singleton_do_fusion :: "dag_env \<Rightarrow> bh_ir_kernel list \<Rightarrow> (string + bh_ir_kernel list) option" where
  "singleton_do_fusion env kernel_list = map_option Inr (singleton_loop (instr_list env) 0 kernel_list)"

text \<open>The inner loop: the instructions from \<open>idx\<close> on that fit join the kernel.\<close>

function topological_grow :: "FuseModel \<Rightarrow> program \<Rightarrow> nat \<Rightarrow> bh_ir_kernel \<Rightarrow> (nat \<times> bh_ir_kernel) option" where
  "topological_grow fm prog idx k =
     (if idx < length prog then
        do { f \<leftarrow> fusible_instr fm prog k idx;
             if f then do { k \<leftarrow> add_instr prog idx k; topological_grow fm prog (idx + 1) k }
             else Some (idx, k) }
      else Some (idx, k))"
  by pat_completeness auto
termination by (relation "measure (\<lambda>(fm, prog, idx, k). length prog - idx)") auto

declare topological_grow.simps [simp del]

lemma topological_grow_mono: "topological_grow fm prog idx k = Some (idx', k') \<Longrightarrow> idx \<le> idx'"
proof (induction fm prog idx k rule: topological_grow.induct)
  case (1 fm prog idx k)
  show ?case
    using 1(2) by (subst (asm) topological_grow.simps) (auto simp: bind_eq_Some_conv split: if_splits dest!: 1(1))
qed

function topological_loop :: "FuseModel \<Rightarrow> program \<Rightarrow> nat \<Rightarrow> bh_ir_kernel list \<Rightarrow> bh_ir_kernel list option" where
  "topological_loop fm prog idx kernel_list =
     (if idx < length prog then
        do { k \<leftarrow> add_instr prog idx bh_ir_kernel_new;
             (idx, k) \<leftarrow> topological_grow fm prog (idx + 1) k;
             topological_loop fm prog idx (kernel_list @ [k]) }
      else Some kernel_list)"
  by pat_completeness auto
termination
  by (relation "measure (\<lambda>(fm, prog, idx, kernel_list). length prog - idx)") (auto dest!: topological_grow_mono)

declare topological_loop.simps [simp del]

definition topological_do_fusion :: "dag_env \<Rightarrow> bh_ir_kernel list \<Rightarrow> (string + bh_ir_kernel list) option" where
  "topological_do_fusion env kernel_list =
     map_option Inr (topological_loop (fuse_model env) (instr_list env) 0 kernel_list)"

fun each_graph :: "(GraphDW \<Rightarrow> GraphDW option) \<Rightarrow> GraphDW list \<Rightarrow> GraphDW list option" where
  "each_graph f [] = Some []"
| "each_graph f (d # ds) = do { d \<leftarrow> f d; ds \<leftarrow> each_graph f ds; Some (d # ds) }"

fun fill_all :: "dag_env \<Rightarrow> GraphDW list \<Rightarrow> bh_ir_kernel list \<Rightarrow> bh_ir_kernel list option" where
  "fill_all env [] kernel_list = Some kernel_list"
| "fill_all env (d # ds) kernel_list = do { kernel_list \<leftarrow> fill_kernel_list env d kernel_list; fill_all env ds kernel_list }"

definition gentle_do_fusion :: "dag_env \<Rightarrow> bh_ir_kernel list \<Rightarrow> (string + bh_ir_kernel list) option" where
  "gentle_do_fusion env kernel_list =
     do { r \<leftarrow> from_bhir env kernel_list GraphDW_new;
          case r of
            Inl e \<Rightarrow> Some (Inl e)
          | Inr dag \<Rightarrow>
              do { dags \<leftarrow> split env dag [];
                   c_assert env (dags_validate env dags True);
                   dags \<leftarrow> each_graph (fuse_gently env) dags;
                   c_assert env (dags_validate env dags True);
                   map_option Inr (fill_all env dags kernel_list) } }"

definition greedy_do_fusion :: "dag_env \<Rightarrow> bh_ir_kernel list \<Rightarrow> (string + bh_ir_kernel list) option" where
  "greedy_do_fusion env kernel_list =
     do { r \<leftarrow> from_bhir env kernel_list GraphDW_new;
          case r of
            Inl e \<Rightarrow> Some (Inl e)
          | Inr dag \<Rightarrow>
              do { dags \<leftarrow> split env dag [];
                   c_assert env (dags_validate env dags True);
                   dags \<leftarrow> each_graph (\<lambda>d. do { d \<leftarrow> fuse_gently env d; fuse_greedy env d }) dags;
                   c_assert env (dags_validate env dags True);
                   map_option Inr (fill_all env dags kernel_list) } }"

subsection \<open>Fusing through the cache\<close>

text \<open>The function \<^verbatim>\<open>fuser\<close>, the same in every component but for the \<^verbatim>\<open>do_fusion\<close> it calls.\<close>

definition fuser ::
  "(dag_env \<Rightarrow> bh_ir_kernel list \<Rightarrow> (string + bh_ir_kernel list) option) \<Rightarrow> (byte list \<Rightarrow> 64 word) \<Rightarrow> dag_env \<Rightarrow>
   bh_ir_kernel list \<Rightarrow> FuseCache \<Rightarrow> (string + bh_ir_kernel list \<times> FuseCache) option" where
  "fuser do_fusion hasher env kernel_list c =
     (if kernel_list \<noteq> [] then Some (Inl ''The kernel_list is not empty!'')
      else do { hash \<leftarrow> BatchHash_new hasher (fuse_model env) (instr_list env);
                found \<leftarrow> cache_lookup (instr_list env) hash c kernel_list;
                case found of
                  Some kernel_list \<Rightarrow> Some (Inr (kernel_list, c))
                | None \<Rightarrow>
                    do { r \<leftarrow> do_fusion env kernel_list;
                         case r of
                           Inl e \<Rightarrow> Some (Inl e)
                         | Inr kernel_list \<Rightarrow> Some (Inr (kernel_list, cache_insert (fuse_model env) hash kernel_list c)) } })"

definition singleton_fuser where "singleton_fuser = fuser singleton_do_fusion"
definition topological_fuser where "topological_fuser = fuser topological_do_fusion"
definition gentle_fuser where "gentle_fuser = fuser gentle_do_fusion"
definition greedy_fuser where "greedy_fuser = fuser greedy_do_fusion"

subsection \<open>Orders that keep the meaning of a program\<close>

text \<open>Every instruction but \<^verbatim>\<open>BH_NONE\<close> is executed once, dependent ones in the order of the program.\<close>

definition order_ok :: "dag_env \<Rightarrow> nat list \<Rightarrow> bool" where
  "order_ok env is \<longleftrightarrow> schedule_ok env is \<and>
     (\<forall>i < length (instr_list env). i \<notin> set is \<longrightarrow> opcode (instr_list env ! i) = BH_NONE)"

definition indexes :: "bh_ir_kernel list \<Rightarrow> nat list" where
  "indexes ks = concat (map instr_indexes ks)"

lemma indexes_simps [simp]:
  "indexes [] = []" "indexes (k # ks) = instr_indexes k @ indexes ks" "indexes (ks @ ks') = indexes ks @ indexes ks'"
  by (simp_all add: indexes_def)

lemma fold_filter_identity: "(\<And>i s. i \<in> set is \<Longrightarrow> \<not> P i \<Longrightarrow> f i s = s) \<Longrightarrow> fold f (filter P is) s = fold f is s"
  by (induction "is" arbitrary: s) auto

lemma order_ok_exec:
  assumes "order_ok env is" and "commuting env exec"
    and "\<And>i s. i < length (instr_list env) \<Longrightarrow> opcode (instr_list env ! i) = BH_NONE \<Longrightarrow> exec i s = s"
  shows "fold exec is s = fold exec [0..<length (instr_list env)] s"
proof -
  let ?n = "length (instr_list env)"
  have "sort is = filter (\<lambda>i. i \<in> set is) [0..<?n]"
    using assms(1) by (intro sorted_distinct_set_unique) (auto simp: order_ok_def schedule_ok_def sorted_wrt_filter)
  moreover have "fold exec is s = fold exec (sort is) s" 
    using schedule_sort [OF assms(2)] assms(1) unfolding order_ok_def by blast
  moreover have "fold exec (filter (\<lambda>i. i \<in> set is) [0..<?n]) s = fold exec [0..<?n] s"
    using assms(1,3) by (intro fold_filter_identity) (simp add: order_ok_def)
  ultimately show ?thesis by simp
qed

text \<open>For element-wise programs, an order with this property leaves the memory as the program does.\<close>

lemma order_ok_elementwise:
  assumes "order_ok env is" and "elementwise_program (instr_list env)"
  shows "fold (exec_at f c (instr_list env)) is m = fold (exec_at f c (instr_list env)) [0..<length (instr_list env)] m"
  by (rule order_ok_exec [OF assms(1) commuting_exec_at [OF assms(2)]]) (simp add: exec_at_def opcode_eval)

lemma order_ok_upt: "order_ok env [0..<length (instr_list env)]"
  by (simp add: order_ok_def schedule_ok_upt)

subsection \<open>What a fuser promises\<close>

text \<open>What the cache has for the hash of the batch fits the batch.\<close>

definition cache_fits :: "(byte list \<Rightarrow> 64 word) \<Rightarrow> dag_env \<Rightarrow> FuseCache \<Rightarrow> bool" where
  "cache_fits hasher env c \<longleftrightarrow>
     (\<forall>b t. BatchHash_new hasher (fuse_model env) (instr_list env) = Some b \<and> map_of (cache c) (hvalue b) = Some t \<longrightarrow>
        order_ok env (concat (instr_indexes_list t)))"

definition batch_hash :: "(byte list \<Rightarrow> 64 word) \<Rightarrow> dag_env \<Rightarrow> 64 word option" where
  "batch_hash hasher env = map_option hvalue (BatchHash_new hasher (fuse_model env) (instr_list env))"

text \<open>Batches fused one after the other through one cache.\<close>

fun fuse_batches ::
  "(dag_env \<Rightarrow> bh_ir_kernel list \<Rightarrow> (string + bh_ir_kernel list) option) \<Rightarrow> (byte list \<Rightarrow> 64 word) \<Rightarrow> dag_env list \<Rightarrow> FuseCache \<Rightarrow>
   (bh_ir_kernel list list \<times> FuseCache) option" where
  "fuse_batches do_fusion hasher [] c = Some ([], c)"
| "fuse_batches do_fusion hasher (env # envs) c =
     (case fuser do_fusion hasher env [] c of
        Some (Inr (ks, c)) \<Rightarrow> map_option (\<lambda>(kss, c). (ks # kss, c)) (fuse_batches do_fusion hasher envs c)
      | _ \<Rightarrow> None)"

locale fusion =
  fixes do_fusion :: "dag_env \<Rightarrow> bh_ir_kernel list \<Rightarrow> (string + bh_ir_kernel list) option"
  assumes fused: "env_ok env \<Longrightarrow> \<exists>ks. do_fusion env [] = Some (Inr ks) \<and> order_ok env (indexes ks)"
begin

lemma fuser_correct:
  assumes "env_ok env" and "cache_fits hasher env c"
  shows "\<exists>ks c'. fuser do_fusion hasher env [] c = Some (Inr (ks, c')) \<and> order_ok env (indexes ks) \<and> cache_fits hasher env c' \<and>
    (c' = c \<or> (\<exists>b. BatchHash_new hasher (fuse_model env) (instr_list env) = Some b \<and> c' = cache_insert (fuse_model env) b ks c))"
proof -
  obtain b where b: "BatchHash_new hasher (fuse_model env) (instr_list env) = Some b"
    using BatchHash_total assms(1) unfolding env_ok_def by blast
  obtain ks where ks: "do_fusion env [] = Some (Inr ks)" "order_ok env (indexes ks)" using fused [OF assms(1)] by blast
  let ?c = "cache_insert (fuse_model env) b ks c"
  have fits: "cache_fits hasher env ?c"
    using b ks(2) by (simp add: cache_fits_def cache_insert_def update_conv' InstrIndexesList_new_def indexes_def)
  show ?thesis
  proof (cases "cache_lookup (instr_list env) b c [] = Some None")
    case True
    then show ?thesis using b ks fits by (auto simp: fuser_def)
  next
    case False
    then obtain t where t: "map_of (cache c) (hvalue b) = Some t" "\<not> deactivated c"
      by (auto simp: cache_lookup_def split: option.splits if_splits)
    have ord: "order_ok env (concat (instr_indexes_list t))" using assms(2) b t(1) by (auto simp: cache_fits_def)
    then have "\<forall>is \<in> set (instr_indexes_list t). set is \<subseteq> {..<length (instr_list env)}"
      by (auto simp: order_ok_def schedule_ok_def)
    then obtain ks' where "cache_lookup (instr_list env) b c [] = Some (Some ks')" "map instr_indexes ks' = instr_indexes_list t"
      using lookup_hit [OF assms(1) t] by blast
    then show ?thesis using b ord assms(2) by (auto simp: fuser_def indexes_def)
  qed
qed

lemma fuse_batches_correct:
  assumes "\<forall>env \<in> set envs. env_ok env \<and> cache_fits hasher env c"
    and "\<forall>env \<in> set envs. \<forall>env' \<in> set envs. batch_hash hasher env = batch_hash hasher env' \<longrightarrow> env = env'"
  shows "\<exists>kss c'. fuse_batches do_fusion hasher envs c = Some (kss, c') \<and> list_all2 (\<lambda>env ks. order_ok env (indexes ks)) envs kss"
  using assms
proof (induction envs arbitrary: c)
  case (Cons env envs)
  obtain ks c' where f: "fuser do_fusion hasher env [] c = Some (Inr (ks, c'))" "order_ok env (indexes ks)" "cache_fits hasher env c'"
    and c': "c' = c \<or> (\<exists>b. BatchHash_new hasher (fuse_model env) (instr_list env) = Some b \<and> c' = cache_insert (fuse_model env) b ks c)"
    using fuser_correct [of env hasher c] Cons.prems(1) by auto
  have "cache_fits hasher e c'" if "e \<in> set envs" for e
  proof (cases "batch_hash hasher e = batch_hash hasher env")
    case True
    then have "e = env" using Cons.prems(2) that by simp
    then show ?thesis using f(3) by simp
  next
    case False
    then have "map_of (cache c') (hvalue b) = map_of (cache c) (hvalue b)"
      if "BatchHash_new hasher (fuse_model e) (instr_list e) = Some b" for b
      using c' that by (auto simp: cache_insert_def update_conv' batch_hash_def)
    moreover have "cache_fits hasher e c" using Cons.prems(1) that by simp
    ultimately show ?thesis unfolding cache_fits_def by metis
  qed
  then show ?case using Cons.IH [of c'] Cons.prems f by auto
qed simp

end

subsection \<open>Singleton and topological fusion\<close>

lemma singleton_loop_ok:
  assumes "env_ok env" and "idx \<le> length (instr_list env)"
  shows "\<exists>ks. singleton_loop (instr_list env) idx acc = Some (acc @ ks) \<and> indexes ks = [idx..<length (instr_list env)] \<and>
    list_all (\<lambda>k. length (instr_indexes k) = 1) ks"
  using assms(2)
proof (induction "length (instr_list env) - idx" arbitrary: idx acc)
  case 0
  then show ?case by (subst singleton_loop.simps) simp
next
  case (Suc n)
  then have idx: "idx < length (instr_list env)" "n = length (instr_list env) - (idx + 1)" "idx + 1 \<le> length (instr_list env)" by simp_all
  obtain k where k: "add_instr (instr_list env) idx bh_ir_kernel_new = Some k"
    using add_instr_total [OF idx(1) env_ok_nth [OF assms(1) idx(1)]] by blast
  have i: "instr_indexes k = [idx]" using add_instr_indexes [OF k] by (simp add: bh_ir_kernel_new_def)
  obtain ks where ks: "singleton_loop (instr_list env) (idx + 1) (acc @ [k]) = Some (acc @ k # ks)"
    "indexes ks = [idx + 1..<length (instr_list env)]" "list_all (\<lambda>k. length (instr_indexes k) = 1) ks"
    using Suc.hyps(1) [OF idx(2,3), of "acc @ [k]"] by auto
  then have "indexes (k # ks) = [idx..<length (instr_list env)]" using idx i by (simp add: upt_conv_Cons)
  moreover have "singleton_loop (instr_list env) idx acc = Some (acc @ k # ks)"
    using idx k ks(1) by (subst singleton_loop.simps) simp
  ultimately show ?case using ks(3) i by (intro exI [of _ "k # ks"]) simp
qed

lemma singleton_fused:
  assumes "env_ok env"
  shows "\<exists>ks. singleton_do_fusion env [] = Some (Inr ks) \<and> indexes ks = [0..<length (instr_list env)] \<and>
    list_all (\<lambda>k. length (instr_indexes k) = 1) ks"
  using singleton_loop_ok [OF assms, of 0 "[]"] by (auto simp: singleton_do_fusion_def)

interpretation singleton: fusion singleton_do_fusion
  using singleton_fused order_ok_upt by unfold_locales metis

definition all_fusible :: "dag_env \<Rightarrow> nat list \<Rightarrow> bool" where
  "all_fusible env is \<longleftrightarrow> sorted_wrt (\<lambda>i j. fusible_by (fuse_model env) (instr_list env ! j) (instr_list env ! i) = Some True) is"

lemma fusible_loop_True:
  "fusible_loop fm prog instr is = Some True \<longleftrightarrow> (\<forall>i \<in> set is. fusible_by fm instr (prog ! i) = Some True)"
  by (induction "is") (auto simp: bind_eq_Some_conv)

lemma topological_grow_ok:
  assumes "env_ok env" and "idx \<le> length (instr_list env)" and "j < idx" and "instr_indexes k = [j..<idx]" and "all_fusible env [j..<idx]"
  shows "\<exists>idx' k'. topological_grow (fuse_model env) (instr_list env) idx k = Some (idx', k') \<and> idx \<le> idx' \<and> idx' \<le> length (instr_list env) \<and>
    instr_indexes k' = [j..<idx'] \<and> all_fusible env [j..<idx'] \<and>
    (idx' < length (instr_list env) \<longrightarrow> fusible_instr (fuse_model env) (instr_list env) k' idx' = Some False)"
  using assms(2-)
proof (induction "length (instr_list env) - idx" arbitrary: idx k)
  case 0
  then show ?case by (subst topological_grow.simps) simp
next
  case (Suc n)
  then have idx: "idx < length (instr_list env)" "n = length (instr_list env) - (idx + 1)" "idx + 1 \<le> length (instr_list env)" by simp_all
  have "{j..<idx} \<subseteq> {..<length (instr_list env)}" using idx(1) by auto
  then obtain f where f: "fusible_instr (fuse_model env) (instr_list env) k idx = Some f"
    using fusible_loop_total [OF assms(1) idx(1), of "[j..<idx]"] Suc.prems idx(1) by (auto simp: fusible_instr_def)
  show ?case
  proof (cases f)
    case True
    obtain k1 where k1: "add_instr (instr_list env) idx k = Some k1"
      using add_instr_total [OF idx(1) env_ok_nth [OF assms(1) idx(1)]] by blast
    have "instr_indexes k1 = [j..<idx + 1]" using add_instr_indexes [OF k1] Suc.prems by simp
    moreover have "all_fusible env [j..<idx + 1]"
      using f True Suc.prems by (auto simp: all_fusible_def sorted_wrt_append fusible_instr_def fusible_loop_True)
    ultimately show ?thesis
      using Suc.hyps(1) [OF idx(2,3), of k1] Suc.prems(2) idx(1) f True k1 by (subst topological_grow.simps) auto
  next
    case False
    then show ?thesis using f idx(1) Suc.prems by (subst topological_grow.simps) simp
  qed
qed

text \<open>Each kernel ends where the next instruction does not fit.\<close>

definition maximal :: "dag_env \<Rightarrow> bh_ir_kernel \<Rightarrow> bh_ir_kernel \<Rightarrow> bool" where
  "maximal env k k' \<longleftrightarrow> fusible_instr (fuse_model env) (instr_list env) k (hd (instr_indexes k')) = Some False"

lemma topological_loop_ok:
  assumes "env_ok env" and "idx \<le> length (instr_list env)"
  shows "\<exists>ks. topological_loop (fuse_model env) (instr_list env) idx acc = Some (acc @ ks) \<and> indexes ks = [idx..<length (instr_list env)] \<and>
    list_all (\<lambda>k. instr_indexes k \<noteq> [] \<and> all_fusible env (instr_indexes k)) ks \<and> successively (maximal env) ks"
  using assms(2)
proof (induction "length (instr_list env) - idx" arbitrary: idx acc rule: less_induct)
  case less
  show ?case
  proof (cases "idx < length (instr_list env)")
    case False
    then show ?thesis using less.prems by (subst topological_loop.simps) simp
  next
    case True
    obtain k0 where k0: "add_instr (instr_list env) idx bh_ir_kernel_new = Some k0"
      using add_instr_total [OF True env_ok_nth [OF assms(1) True]] by blast
    have i0: "instr_indexes k0 = [idx..<idx + 1]" using add_instr_indexes [OF k0] by (simp add: bh_ir_kernel_new_def)
    obtain idx' k where g: "topological_grow (fuse_model env) (instr_list env) (idx + 1) k0 = Some (idx', k)" "idx + 1 \<le> idx'"
        "idx' \<le> length (instr_list env)" "instr_indexes k = [idx..<idx']" "all_fusible env [idx..<idx']"
        "idx' < length (instr_list env) \<longrightarrow> fusible_instr (fuse_model env) (instr_list env) k idx' = Some False"
      using topological_grow_ok [OF assms(1) _ _ i0] True by (auto simp: all_fusible_def)
    have "length (instr_list env) - idx' < length (instr_list env) - idx" using g(2) True by linarith
    then obtain ks where ks: "topological_loop (fuse_model env) (instr_list env) idx' (acc @ [k]) = Some (acc @ k # ks)"
        "indexes ks = [idx'..<length (instr_list env)]" "list_all (\<lambda>k. instr_indexes k \<noteq> [] \<and> all_fusible env (instr_indexes k)) ks"
        "successively (maximal env) ks"
      using less.hyps [of idx' "acc @ [k]"] g(3) by auto
    have "topological_loop (fuse_model env) (instr_list env) idx acc = Some (acc @ k # ks)"
      using True k0 g(1) ks(1) by (subst topological_loop.simps) simp
    moreover have "indexes (k # ks) = [idx..<length (instr_list env)]"
      using g(2-4) ks(2) upt_add_eq_append [of idx idx' "length (instr_list env) - idx'"] by simp
    moreover have "successively (maximal env) (k # ks)"
    proof (cases ks)
      case (Cons k' ks')
      then have "instr_indexes k' \<noteq> []" using ks(3) by simp
      then have "hd (instr_indexes k') = hd (indexes ks)" and "indexes ks \<noteq> []" using Cons by simp_all
      then have "idx' < length (instr_list env)" "hd (instr_indexes k') = idx'" using ks(2) by auto
      then show ?thesis using g(6) ks(4) Cons by (simp add: maximal_def)
    qed simp
    ultimately show ?thesis using g(2,4,5) ks(3) by (intro exI [of _ "k # ks"]) simp
  qed
qed

lemma topological_fused:
  assumes "env_ok env"
  shows "\<exists>ks. topological_do_fusion env [] = Some (Inr ks) \<and> indexes ks = [0..<length (instr_list env)] \<and>
    list_all (\<lambda>k. instr_indexes k \<noteq> [] \<and> all_fusible env (instr_indexes k)) ks \<and> successively (maximal env) ks"
  using topological_loop_ok [OF assms, of 0 "[]"] by (auto simp: topological_do_fusion_def)

interpretation topological: fusion topological_do_fusion
  using topological_fused order_ok_upt by unfold_locales metis

subsection \<open>Gentle and greedy fusion\<close>

lemma fill_kernel_list_order:
  assumes "env_ok env" and "graph_ok env g"
  shows "\<exists>ks. fill_kernel_list env g acc = Some (acc @ ks) \<and> schedule_ok env (indexes ks) \<and> set (indexes ks) \<subseteq> set (instrs g) \<and>
    (\<forall>i \<in> set (instrs g). i \<notin> set (indexes ks) \<longrightarrow> opcode (instr_list env ! i) = BH_NONE)"
proof -
  have lib: "boost_graph (graph_lib env)" using assms(1) by (simp add: env_ok_def)
  obtain ts where ts: "topo (graph_lib env) (length (kernels g)) (dedges g) = Some ts" "reverse_topological (length (kernels g)) (dedges g) ts"
    using boost_graph.topo_acyclic [OF lib graph_ok_range [OF assms(2)]] assms(2) by (auto simp: graph_ok_def)
  let ?ks = "map (\<lambda>v. kernels g ! v) (rev ts)"
  let ?out = "filter (\<lambda>k. \<not> is_noop (instr_list env) k) ?ks"
  note sch = topological_schedule [OF assms(2) ts(2)]
  have "set (indexes ?ks) = set (instrs g)" using mset_eq_setD [OF sch(2)] by (simp add: indexes_def)
  moreover have "opcode (instr_list env ! i) = BH_NONE" if "i \<in> set (indexes ?ks)" "i \<notin> set (indexes ?out)" for i
    using that by (auto simp: indexes_def is_noop_def noop_loop_iff)
  moreover have "set (indexes ?out) \<subseteq> set (indexes ?ks)" by (auto simp: indexes_def)
  moreover have "schedule_ok env (indexes ?out)" using schedule_filter [OF sch(1)] by (simp add: indexes_def)
  ultimately show ?thesis using ts(1) by (intro exI [of _ ?out]) (simp add: fill_kernel_list_def)
qed

lemma schedule_ok_append:
  "schedule_ok env (is @ js) \<longleftrightarrow> schedule_ok env is \<and> schedule_ok env js \<and> set is \<inter> set js = {} \<and> first_then env is js"
  by (auto simp: schedule_ok_def in_order_append)

lemma first_then_subset: "first_then env is js \<Longrightarrow> set is' \<subseteq> set is \<Longrightarrow> set js' \<subseteq> set js \<Longrightarrow> first_then env is' js'"
  unfolding first_then_def by blast

lemma fill_all_ok:
  assumes "env_ok env" and "parts_ok env gs"
  shows "\<exists>ks. fill_all env gs acc = Some (acc @ ks) \<and> schedule_ok env (indexes ks) \<and> set (indexes ks) \<subseteq> set (concat (map instrs gs)) \<and>
    (\<forall>i \<in> set (concat (map instrs gs)). i \<notin> set (indexes ks) \<longrightarrow> opcode (instr_list env ! i) = BH_NONE)"
  using assms(2)
proof (induction gs arbitrary: acc)
  case Nil
  then show ?case by (simp add: schedule_ok_def in_order_def)
next
  case (Cons g gs)
  have p: "graph_ok env g" "parts_ok env gs" "set (instrs g) \<inter> set (concat (map instrs gs)) = {}"
      "first_then env (instrs g) (concat (map instrs gs))"
    using Cons.prems by (auto simp: parts_ok_def schedule_ok_append first_then_def)
  obtain ks where ks: "fill_kernel_list env g acc = Some (acc @ ks)" "schedule_ok env (indexes ks)" "set (indexes ks) \<subseteq> set (instrs g)"
      "\<forall>i \<in> set (instrs g). i \<notin> set (indexes ks) \<longrightarrow> opcode (instr_list env ! i) = BH_NONE"
    using fill_kernel_list_order [OF assms(1) p(1)] by blast
  obtain ks' where ks': "fill_all env gs (acc @ ks) = Some ((acc @ ks) @ ks')" "schedule_ok env (indexes ks')"
      "set (indexes ks') \<subseteq> set (concat (map instrs gs))"
      "\<forall>i \<in> set (concat (map instrs gs)). i \<notin> set (indexes ks') \<longrightarrow> opcode (instr_list env ! i) = BH_NONE"
    using Cons.IH [OF p(2)] by blast
  have "set (indexes ks) \<inter> set (indexes ks') = {}" using ks(3) ks'(3) p(3) by blast
  then have "schedule_ok env (indexes (ks @ ks'))"
    using first_then_subset [OF p(4) ks(3) ks'(3)] ks(2) ks'(2) by (simp add: schedule_ok_append)
  moreover have "fill_all env (g # gs) acc = Some (acc @ ks @ ks')" using ks(1) ks'(1) by simp
  moreover have "set (indexes (ks @ ks')) \<subseteq> set (concat (map instrs (g # gs)))" using ks(3) ks'(3) by auto
  moreover have "\<forall>i \<in> set (concat (map instrs (g # gs))). i \<notin> set (indexes (ks @ ks')) \<longrightarrow> opcode (instr_list env ! i) = BH_NONE"
    using ks(4) ks'(4) by (metis Un_iff concat.simps(2) indexes_simps(3) list.map(2) set_append)
  ultimately show ?case by blast
qed

text \<open>A pass over the parts that keeps each part valid and its instructions.\<close>

lemma each_graph_ok:
  assumes "\<And>g. graph_ok env g \<Longrightarrow> \<exists>g'. f g = Some g' \<and> graph_ok env g' \<and> mset (instrs g') = mset (instrs g)" and "parts_ok env gs"
  shows "\<exists>gs'. each_graph f gs = Some gs' \<and> parts_ok env gs' \<and> set (concat (map instrs gs')) = set (concat (map instrs gs))"
proof -
  have "\<exists>gs'. each_graph f gs = Some gs' \<and> list_all2 (\<lambda>g g'. graph_ok env g' \<and> mset (instrs g') = mset (instrs g)) gs gs'"
    if "\<forall>g \<in> set gs. graph_ok env g"
    using that
  proof (induction gs)
    case (Cons g gs)
    then show ?case using assms(1) [of g] by fastforce
  qed simp
  then obtain gs' where gs': "each_graph f gs = Some gs'" "list_all2 (\<lambda>g g'. graph_ok env g' \<and> mset (instrs g') = mset (instrs g)) gs gs'"
    using assms(2) by (auto simp: parts_ok_def)
  have "map (sort \<circ> instrs) gs' = map (sort \<circ> instrs) gs"
    using gs'(2) by (induction rule: list_all2_induct) (auto intro: properties_for_sort)
  moreover have "\<forall>g \<in> set gs'. graph_ok env g" using gs'(2) by (auto simp: list_all2_conv_all_nth in_set_conv_nth)
  moreover have "map (set \<circ> instrs) gs' = map (set \<circ> instrs) gs"
    using gs'(2) by (induction rule: list_all2_induct) (auto dest: mset_eq_setD)
  then have "set (concat (map instrs gs')) = set (concat (map instrs gs))"
    by (metis (no_types, lifting) list.map_comp set_concat set_map)
  ultimately show ?thesis using gs'(1) assms(2) by (auto simp: parts_ok_def)
qed

lemma graph_fusion_ok:
  assumes "env_ok env" and "\<And>g. graph_ok env g \<Longrightarrow> \<exists>g'. f g = Some g' \<and> graph_ok env g' \<and> mset (instrs g') = mset (instrs g)"
  obtains dag dags dags' ks where "from_bhir env [] GraphDW_new = Some (Inr dag)" and "split env dag [] = Some dags"
    and "each_graph f dags = Some dags'" and "fill_all env dags' [] = Some ks" and "order_ok env (indexes ks)"
proof -
  obtain dag where dag: "from_bhir env [] GraphDW_new = Some (Inr dag)" "graph_ok env dag" "instrs dag = [0..<length (instr_list env)]"
    using from_bhir_ok [OF assms(1)] by blast
  obtain dags where dags: "split env dag [] = Some dags" "parts_ok env dags" "set (concat (map instrs dags)) = set (instrs dag)"
    using split_ok [OF assms(1) dag(2)] by blast
  obtain dags' where dags': "each_graph f dags = Some dags'" "parts_ok env dags'" "set (concat (map instrs dags')) = set (concat (map instrs dags))"
    using each_graph_ok [OF assms(2) dags(2)] by blast
  obtain ks where ks: "fill_all env dags' [] = Some ([] @ ks)" "schedule_ok env (indexes ks)"
      "\<forall>i \<in> set (concat (map instrs dags')). i \<notin> set (indexes ks) \<longrightarrow> opcode (instr_list env ! i) = BH_NONE"
    using fill_all_ok [OF assms(1) dags'(2)] by blast
  have "set (concat (map instrs dags')) = {0..<length (instr_list env)}" using dag(3) dags(3) dags'(3) by simp
  then have "order_ok env (indexes ks)" unfolding order_ok_def using ks(2,3) by (metis atLeast0LessThan lessThan_iff)
  then show thesis using that dag(1) dags(1) dags'(1) ks(1) by simp
qed

lemma gentle_fused:
  assumes "env_ok env"
  shows "\<exists>ks. gentle_do_fusion env [] = Some (Inr ks) \<and> order_ok env (indexes ks)"
proof (rule graph_fusion_ok [OF assms, of "fuse_gently env"])
  show "graph_ok env g \<Longrightarrow> \<exists>g'. fuse_gently env g = Some g' \<and> graph_ok env g' \<and> mset (instrs g') = mset (instrs g)" for g
    using fuse_gently_ok [OF assms] by blast
qed (use assms in \<open>auto simp: gentle_do_fusion_def c_assert_def env_ok_def\<close>)

lemma greedy_fused:
  assumes "env_ok env"
  shows "\<exists>ks. greedy_do_fusion env [] = Some (Inr ks) \<and> order_ok env (indexes ks)"
proof (rule graph_fusion_ok [OF assms, of "\<lambda>d. do { d \<leftarrow> fuse_gently env d; fuse_greedy env d }"])
  fix g assume "graph_ok env g"
  then obtain h where "fuse_gently env g = Some h" "graph_ok env h" "mset (instrs h) = mset (instrs g)"
    using fuse_gently_ok [OF assms] by blast
  then show "\<exists>g'. do { d \<leftarrow> fuse_gently env g; fuse_greedy env d } = Some g' \<and> graph_ok env g' \<and> mset (instrs g') = mset (instrs g)"
    using fuse_greedy_ok [OF assms] by force
qed (use assms in \<open>auto simp: greedy_do_fusion_def c_assert_def env_ok_def\<close>)

interpretation gentle: fusion gentle_do_fusion
  using gentle_fused by unfold_locales

interpretation greedy: fusion greedy_do_fusion
  using greedy_fused by unfold_locales

subsection \<open>Properties\<close>

lemma exec_indexes: "exec_kernels exec ks = fold exec (indexes ks)"
  by (simp add: exec_kernels_def indexes_def)

lemmas fuser_defs = singleton_fuser_def topological_fuser_def gentle_fuser_def greedy_fuser_def


definition empty_cache :: FuseCache where
  "empty_cache = FuseCache_new (=) (\<lambda>_ (f :: unit). None) BROADEST None ''fuser'' True None"

lemma empty_cache_fits: "cache_fits hasher env empty_cache"
  by (simp add: cache_fits_def empty_cache_def FuseCache_new_def load_from_files_def)




text \<open>
  The topological fuser cuts the program, in its order, into kernels whose instructions the fuse model
  accepts in pairs, and each kernel ends only where the next instruction does not fit.
\<close>

theorem topological_fusion_maximal:
  assumes "env_ok env"
  shows "\<exists>ks. topological_do_fusion env [] = Some (Inr ks) \<and> concat (map instr_indexes ks) = [0..<length (instr_list env)] \<and>
    (\<forall>k \<in> set ks. instr_indexes k \<noteq> [] \<and>
       sorted_wrt (\<lambda>i j. fusible_by (fuse_model env) (instr_list env ! j) (instr_list env ! i) = Some True) (instr_indexes k)) \<and>
    successively (\<lambda>k k'. fusible_instr (fuse_model env) (instr_list env) k (hd (instr_indexes k')) = Some False) ks"
  using topological_fused [OF assms] unfolding indexes_def list_all_iff all_fusible_def maximal_def by blast

theorem topological_fusion_maximal_witness:
  "\<exists>ks. topological_do_fusion demo_env [] = Some (Inr ks) \<and> concat (map instr_indexes ks) = [0, 1, 2, 3]"
  using topological_fusion_maximal [OF env_ok_demo] demo_length by auto

text \<open>
  Two programs with the same hash data under the default model: \<^verbatim>\<open>a = b + b; c = d + d; e = b + g\<close> on six
  different arrays, and the same with the first four elements of \<^verbatim>\<open>a\<close>, whose first three the first
  instruction writes, in place of \<^verbatim>\<open>d\<close>.
\<close>

definition sum_prog :: "bh_view \<Rightarrow> program" where
  "sum_prog d = [instr3 BH_ADD (line_view 1 3) (line_view 2 3) (line_view 2 3),
                 instr3 BH_ADD (line_view 3 4) d d,
                 instr3 BH_ADD (line_view 5 3) (line_view 2 3) (line_view 6 3)]"

definition sum_env :: "bh_view \<Rightarrow> dag_env" where
  "sum_env d = \<lparr>graph_lib = bgl_ref, release = True, fuse_model = BROADEST, base_type = (\<lambda>_. BH_FLOAT64), instr_list = sum_prog d\<rparr>"

lemma sum_env_sel: "instr_list (sum_env d) = sum_prog d" "fuse_model (sum_env d) = BROADEST"
  by (simp_all add: sum_env_def)

lemma env_ok_sum: "0 < ndim d \<Longrightarrow> env_ok (sum_env d)"
  using bgl_ref.boost_graph_axioms
  by (simp add: env_ok_def sum_env_def sum_prog_def instr3_def line_view_def mk_view_def)

lemma sum_hash: "map_option fst (hash_data BROADEST (sum_prog (line_view 4 4))) = map_option fst (hash_data BROADEST (sum_prog (line_view 1 4)))"
  by code_simp

lemma sum_fused:
  "map_option (map_sum id (map instr_indexes)) (greedy_do_fusion (sum_env (line_view 4 4)) []) = Some (Inr [[1], [0, 2]])"
  by code_simp

lemma sum_reordered:
  "fold (exec_at (\<lambda>_. sum_list) (\<lambda>_. 0) (sum_prog (line_view 1 4))) [1, 0, 2] snd (3, 1) = (2 :: int)"
  "fold (exec_at (\<lambda>_. sum_list) (\<lambda>_. 0) (sum_prog (line_view 1 4))) [0, 1, 2] snd (3, 1) = (4 :: int)"
  by code_simp+

lemma fuser_hit:
  assumes "env_ok env" and "BatchHash_new hasher (fuse_model env) (instr_list env) = Some b" and "map_of (cache c) (hvalue b) = Some t"
    and "\<not> deactivated c" and "\<forall>is \<in> set (instr_indexes_list t). set is \<subseteq> {..<length (instr_list env)}"
  obtains ks where "fuser f hasher env [] c = Some (Inr (ks, c))" and "map instr_indexes ks = instr_indexes_list t"
proof -
  obtain ks where "cache_lookup (instr_list env) b c [] = Some (Some ks)" "map instr_indexes ks = instr_indexes_list t"
    using lookup_hit [OF assms(1,3-5)] by blast
  then show thesis using that assms(2) by (simp add: fuser_def)
qed

text \<open>
  C5. The cache confuses batches, whatever the hash function: the two programs above have the same hash
  data, since a view is hashed by its number in the batch and not by the memory it accesses. Fused
  after the first, the second gets the kernels of the first, which execute the second instruction
  before the first; the element 1 of \<^verbatim>\<open>c\<close> becomes 2 instead of 4.
\<close>

theorem fuse_cache_confuses_batches:
  "\<exists>ks1 ks2 c. fuse_batches greedy_do_fusion hasher [sum_env (line_view 4 4), sum_env (line_view 1 4)] empty_cache = Some ([ks1, ks2], c) \<and>
     exec_kernels (exec_at (\<lambda>_. sum_list) (\<lambda>_. 0) (sum_prog (line_view 1 4))) ks2 snd (3, 1) = (2 :: int) \<and>
     fold (exec_at (\<lambda>_. sum_list) (\<lambda>_. 0) (sum_prog (line_view 1 4))) [0, 1, 2] snd (3, 1) = (4 :: int)"
proof -
  let ?e1 = "sum_env (line_view 4 4)" and ?e2 = "sum_env (line_view 1 4)"
  have ok: "env_ok ?e1" "env_ok ?e2" by (simp_all add: env_ok_sum line_view_def mk_view_def)
  obtain b1 b2 where b: "BatchHash_new hasher (fuse_model ?e1) (instr_list ?e1) = Some b1"
    "BatchHash_new hasher (fuse_model ?e2) (instr_list ?e2) = Some b2"
    using BatchHash_total ok unfolding env_ok_def by metis
  then have same: "hvalue b1 = hvalue b2"
    using sum_hash by (auto simp: BatchHash_new_def sum_env_sel bind_eq_Some_conv)
  obtain z where z: "greedy_do_fusion ?e1 [] = Some z" "map_sum id (map instr_indexes) z = Inr [[1], [0, 2]]"
    using sum_fused by auto
  obtain ks1 where ks1: "greedy_do_fusion ?e1 [] = Some (Inr ks1)" "map instr_indexes ks1 = [[1], [0, 2]]"
    using z by (cases z) auto
  let ?c = "cache_insert BROADEST b1 ks1 empty_cache"
  have f1: "fuser greedy_do_fusion hasher ?e1 [] empty_cache = Some (Inr (ks1, ?c))"
    using b(1) ks1(1) by (simp add: fuser_def cache_lookup_def empty_cache_def FuseCache_new_def load_from_files_def sum_env_sel)
  have entry: "map_of (cache ?c) (hvalue b2) = Some (InstrIndexesList_new BROADEST ks1 (hvalue b1) (fuser_name empty_cache))"
    using same by (simp add: cache_insert_def update_conv')
  have act: "\<not> deactivated ?c" by (simp add: cache_insert_def empty_cache_def FuseCache_new_def load_from_files_def)
  have "\<forall>is \<in> set (map instr_indexes ks1). set is \<subseteq> {..<length (instr_list ?e2)}" by (simp add: ks1(2) sum_env_sel sum_prog_def)
  then obtain ks2 where f2: "fuser greedy_do_fusion hasher ?e2 [] ?c = Some (Inr (ks2, ?c))" "map instr_indexes ks2 = [[1], [0, 2]]"
    using fuser_hit [OF ok(2) b(2) entry act] ks1(2) by (auto simp: InstrIndexesList_new_def)
  have "indexes ks2 = [1, 0, 2]" using f2(2) by (simp add: indexes_def)
  then have "exec_kernels (exec_at (\<lambda>_. sum_list) (\<lambda>_. 0) (sum_prog (line_view 1 4))) ks2 snd (3, 1) = (2 :: int)"
    using sum_reordered(1) unfolding exec_indexes by simp
  then show ?thesis using f1 f2(1) sum_reordered(2) by simp
qed

end
