(* ===== verification/Bh_TypeUtil.thy ===== *)
theory Bh_TypeUtil
  imports Bh_Opcode Bh_Types Bh_Disjoint
begin

text \<open>
  Type signatures of instructions, \<^verbatim>\<open>core/bh_typeutil.cpp\<close>: the numeric signature of an instruction and
  its check, the table of the types an opcode accepts, and the suggestion of a conversion for types it
  does not accept.

  The tables are the case labels of the source in their order. A run of labels of one opcode that repeat
  one pattern is written with the pattern's name: \<open>rows3 op ts\<close> has three operands of the same type,
  \<open>bool_rows3\<close> a boolean result of two operands of the same type, \<open>rows2\<close> and \<open>bool_rows2\<close> the same with one
  input, \<open>into_rows\<close> one input type into several output types. \<open>None\<close> in the last place of a row is the mark
  \<^verbatim>\<open>1 << 17\<close> of an opcode with two operands. The element type of a base array is the argument \<open>ty\<close>.
\<close>

subsection \<open>Type codes\<close>

fun type_id :: "bh_type \<Rightarrow> int" where
  "type_id BH_BOOL = 0"
| "type_id BH_INT8 = 1"
| "type_id BH_INT16 = 2"
| "type_id BH_INT32 = 3"
| "type_id BH_INT64 = 4"
| "type_id BH_UINT8 = 5"
| "type_id BH_UINT16 = 6"
| "type_id BH_UINT32 = 7"
| "type_id BH_UINT64 = 8"
| "type_id BH_FLOAT32 = 9"
| "type_id BH_FLOAT64 = 10"
| "type_id BH_COMPLEX64 = 11"
| "type_id BH_COMPLEX128 = 12"
| "type_id BH_R123 = 13"
| "type_id BH_UNKNOWN = 14"
| "type_id (BH_type_code c) = c"

definition known_type :: "bh_type \<Rightarrow> bool" where
  "known_type t = (case t of BH_type_code c \<Rightarrow> False | _ \<Rightarrow> True)"

subsection \<open>The signature of an instruction\<close>

definition bh_type_sig :: "(ptr \<Rightarrow> bh_type) \<Rightarrow> bh_instruction \<Rightarrow> int" where
  "bh_type_sig ty instr =
     (let nops = bh_operands (opcode instr);
          t = (\<lambda>i. type_id (ty (base (operand instr ! i))));
          ct = type_id (ctype (inst_constant instr))
      in if nops = 3 then
           (if bh_is_constant (operand instr ! 1) then t 0 + 1 + (push_bit 4 (1 + ct) + push_bit 8 (1 + t 2))
            else if bh_is_constant (operand instr ! 2) then t 0 + 1 + (push_bit 4 (1 + t 1) + push_bit 8 (1 + ct))
            else t 0 + 1 + (push_bit 4 (1 + t 1) + push_bit 8 (1 + t 2)))
         else if nops = 2 then
           (if bh_is_constant (operand instr ! 1) then t 0 + 1 + push_bit 4 (1 + ct)
            else t 0 + 1 + push_bit 4 (1 + t 1))
         else if nops = 1 then 1 + t 0
         else 0)"

definition signatures_three :: "int list" where
  "signatures_three =
     [273, 3549, 3276, 2730, 3003, 819, 1092, 1365, 546, 1911, 2184, 2457, 1638, 2721, 2993, 817, 1089, 1361, 545,
       1905, 2177, 2449, 1633, 3537, 3265, 1297, 1501, 1484, 1450, 1467, 1331, 1348, 1314, 1399, 1416, 1433, 1382]"

definition signatures_two :: "int list" where
  "signatures_two =
     [17, 170, 187, 51, 68, 85, 34, 119, 136, 153, 102, 221, 204, 161, 177, 49, 65, 81, 33, 113, 129, 145, 97, 29,
       205, 173, 189, 61, 77, 93, 45, 125, 141, 157, 109, 28, 220, 172, 188, 60, 76, 92, 44, 124, 140, 156, 108, 26,
       186, 58, 74, 90, 42, 122, 138, 154, 106, 27, 171, 59, 75, 91, 43, 123, 139, 155, 107, 19, 163, 179, 67, 83, 35,
       115, 131, 147, 99, 20, 164, 180, 52, 84, 36, 116, 132, 148, 100, 21, 165, 181, 53, 69, 37, 117, 133, 149, 101,
       18, 162, 178, 50, 66, 82, 114, 130, 146, 98, 23, 167, 183, 55, 71, 87, 39, 135, 151, 103, 24, 168, 184, 56, 72,
       88, 40, 120, 152, 104, 25, 169, 185, 57, 73, 89, 41, 121, 137, 105, 22, 166, 182, 54, 70, 86, 38, 118, 134,
       150, 232, 233, 219, 202]"

definition signatures_one :: "int list" where
  "signatures_one =
     [8, 9]"

definition bh_type_sig_check :: "int \<Rightarrow> bool" where
  "bh_type_sig_check type_sig \<longleftrightarrow> type_sig \<in> set (signatures_three @ signatures_two @ signatures_one)"

subsection \<open>Accepted types\<close>

type_synonym validate_row = "bh_opcode \<times> bh_type \<times> bh_type \<times> bh_type option"

definition rows3 :: "bh_opcode \<Rightarrow> bh_type list \<Rightarrow> validate_row list" where
  "rows3 op ts = map (\<lambda>t. (op, t, t, Some t)) ts"

definition bool_rows3 :: "bh_opcode \<Rightarrow> bh_type list \<Rightarrow> validate_row list" where
  "bool_rows3 op ts = map (\<lambda>t. (op, BH_BOOL, t, Some t)) ts"

definition rows2 :: "bh_opcode \<Rightarrow> bh_type list \<Rightarrow> validate_row list" where
  "rows2 op ts = map (\<lambda>t. (op, t, t, None)) ts"

definition bool_rows2 :: "bh_opcode \<Rightarrow> bh_type list \<Rightarrow> validate_row list" where
  "bool_rows2 op ts = map (\<lambda>t. (op, BH_BOOL, t, None)) ts"

definition into_rows :: "bh_opcode \<Rightarrow> bh_type \<Rightarrow> bh_type list \<Rightarrow> validate_row list" where
  "into_rows op t outs = map (\<lambda>out. (op, out, t, None)) outs"

definition validate_arith :: "validate_row list" where
  "validate_arith =
     rows3 BH_ADD [BH_INT8, BH_FLOAT64, BH_UINT16, BH_UINT64, BH_INT16, BH_FLOAT32, BH_BOOL, BH_INT32, BH_UINT8,
       BH_INT64, BH_UINT32, BH_COMPLEX64, BH_COMPLEX128] @
     rows3 BH_SUBTRACT [BH_INT8, BH_FLOAT64, BH_UINT16, BH_UINT64, BH_INT16, BH_FLOAT32, BH_BOOL, BH_INT32, BH_UINT8,
       BH_INT64, BH_UINT32, BH_COMPLEX64, BH_COMPLEX128] @
     rows3 BH_MULTIPLY [BH_INT8, BH_FLOAT64, BH_UINT16, BH_UINT64, BH_INT16, BH_FLOAT32, BH_BOOL, BH_INT32, BH_UINT8,
       BH_INT64, BH_UINT32, BH_COMPLEX64, BH_COMPLEX128] @
     rows3 BH_DIVIDE [BH_INT8, BH_FLOAT64, BH_UINT16, BH_UINT64, BH_INT16, BH_FLOAT32, BH_INT32, BH_UINT8, BH_INT64,
       BH_UINT32, BH_COMPLEX64, BH_COMPLEX128] @
     rows3 BH_POWER [BH_INT8, BH_FLOAT64, BH_UINT16, BH_UINT64, BH_INT16, BH_FLOAT32, BH_INT32, BH_UINT8, BH_INT64,
       BH_UINT32] @
     rows2 BH_ABSOLUTE [BH_INT8, BH_FLOAT64, BH_UINT16, BH_UINT64, BH_INT16, BH_FLOAT32, BH_BOOL, BH_INT32, BH_UINT8,
       BH_INT64, BH_UINT32]"

definition validate_compare :: "validate_row list" where
  "validate_compare =
     bool_rows3 BH_GREATER [BH_INT8, BH_FLOAT64, BH_UINT16, BH_UINT64, BH_INT16, BH_FLOAT32, BH_BOOL, BH_INT32,
       BH_UINT8, BH_INT64, BH_UINT32] @
     bool_rows3 BH_GREATER_EQUAL [BH_INT8, BH_FLOAT64, BH_UINT16, BH_UINT64, BH_INT16, BH_FLOAT32, BH_BOOL, BH_INT32,
       BH_UINT8, BH_INT64, BH_UINT32] @
     bool_rows3 BH_LESS [BH_INT8, BH_FLOAT64, BH_UINT16, BH_UINT64, BH_INT16, BH_FLOAT32, BH_BOOL, BH_INT32, BH_UINT8,
       BH_INT64, BH_UINT32] @
     bool_rows3 BH_LESS_EQUAL [BH_INT8, BH_FLOAT64, BH_UINT16, BH_UINT64, BH_INT16, BH_FLOAT32, BH_BOOL, BH_INT32,
       BH_UINT8, BH_INT64, BH_UINT32] @
     bool_rows3 BH_EQUAL [BH_INT8, BH_FLOAT64, BH_UINT16, BH_UINT64, BH_INT16, BH_FLOAT32, BH_BOOL, BH_INT32,
       BH_UINT8, BH_INT64, BH_UINT32, BH_COMPLEX64, BH_COMPLEX128] @
     bool_rows3 BH_NOT_EQUAL [BH_INT8, BH_FLOAT64, BH_UINT16, BH_UINT64, BH_INT16, BH_FLOAT32, BH_BOOL, BH_INT32,
       BH_UINT8, BH_INT64, BH_UINT32, BH_COMPLEX64, BH_COMPLEX128] @
     rows3 BH_LOGICAL_AND [BH_BOOL] @
     rows3 BH_LOGICAL_OR [BH_BOOL] @
     rows3 BH_LOGICAL_XOR [BH_BOOL] @
     rows2 BH_LOGICAL_NOT [BH_BOOL]"

definition validate_bitwise :: "validate_row list" where
  "validate_bitwise =
     rows3 BH_MAXIMUM [BH_INT8, BH_FLOAT64, BH_UINT16, BH_UINT64, BH_INT16, BH_FLOAT32, BH_BOOL, BH_INT32, BH_UINT8,
       BH_INT64, BH_UINT32] @
     rows3 BH_MINIMUM [BH_INT8, BH_FLOAT64, BH_UINT16, BH_UINT64, BH_INT16, BH_FLOAT32, BH_BOOL, BH_INT32, BH_UINT8,
       BH_INT64, BH_UINT32] @
     rows3 BH_BITWISE_AND [BH_INT8, BH_UINT16, BH_UINT64, BH_INT16, BH_BOOL, BH_INT32, BH_UINT8, BH_INT64, BH_UINT32] @
     rows3 BH_BITWISE_OR [BH_INT8, BH_UINT16, BH_UINT64, BH_INT16, BH_BOOL, BH_INT32, BH_UINT8, BH_INT64, BH_UINT32] @
     rows3 BH_BITWISE_XOR [BH_INT8, BH_UINT16, BH_UINT64, BH_INT16, BH_BOOL, BH_INT32, BH_UINT8, BH_INT64, BH_UINT32] @
     rows2 BH_INVERT [BH_INT8, BH_UINT16, BH_UINT64, BH_INT16, BH_BOOL, BH_INT32, BH_UINT8, BH_INT64, BH_UINT32] @
     rows3 BH_LEFT_SHIFT [BH_INT8, BH_UINT16, BH_UINT64, BH_INT16, BH_UINT32, BH_UINT8, BH_INT64, BH_INT32] @
     rows3 BH_RIGHT_SHIFT [BH_INT8, BH_UINT16, BH_UINT64, BH_INT16, BH_UINT32, BH_UINT8, BH_INT64, BH_INT32]"

definition validate_math :: "validate_row list" where
  "validate_math =
     rows2 BH_COS [BH_FLOAT32, BH_FLOAT64, BH_COMPLEX64, BH_COMPLEX128] @
     rows2 BH_SIN [BH_FLOAT32, BH_FLOAT64, BH_COMPLEX64, BH_COMPLEX128] @
     rows2 BH_TAN [BH_FLOAT32, BH_FLOAT64, BH_COMPLEX64, BH_COMPLEX128] @
     rows2 BH_COSH [BH_FLOAT32, BH_FLOAT64, BH_COMPLEX64, BH_COMPLEX128] @
     rows2 BH_SINH [BH_FLOAT32, BH_FLOAT64, BH_COMPLEX64, BH_COMPLEX128] @
     rows2 BH_TANH [BH_FLOAT32, BH_FLOAT64, BH_COMPLEX64, BH_COMPLEX128] @
     rows2 BH_ARCSIN [BH_FLOAT32, BH_FLOAT64] @
     rows2 BH_ARCCOS [BH_FLOAT32, BH_FLOAT64] @
     rows2 BH_ARCTAN [BH_FLOAT32, BH_FLOAT64] @
     rows2 BH_ARCSINH [BH_FLOAT32, BH_FLOAT64] @
     rows2 BH_ARCCOSH [BH_FLOAT32, BH_FLOAT64] @
     rows2 BH_ARCTANH [BH_FLOAT32, BH_FLOAT64] @
     rows3 BH_ARCTAN2 [BH_FLOAT32, BH_FLOAT64] @
     rows2 BH_EXP [BH_FLOAT32, BH_FLOAT64, BH_COMPLEX64, BH_COMPLEX128] @
     rows2 BH_EXP2 [BH_FLOAT32, BH_FLOAT64] @
     rows2 BH_EXPM1 [BH_FLOAT32, BH_FLOAT64] @
     rows2 BH_LOG [BH_FLOAT32, BH_FLOAT64, BH_COMPLEX64, BH_COMPLEX128] @
     rows2 BH_LOG2 [BH_FLOAT32, BH_FLOAT64] @
     rows2 BH_LOG10 [BH_FLOAT32, BH_FLOAT64, BH_COMPLEX64, BH_COMPLEX128] @
     rows2 BH_LOG1P [BH_FLOAT32, BH_FLOAT64] @
     rows2 BH_SQRT [BH_FLOAT32, BH_FLOAT64, BH_COMPLEX64, BH_COMPLEX128] @
     rows2 BH_CEIL [BH_FLOAT32, BH_FLOAT64] @
     rows2 BH_TRUNC [BH_FLOAT32, BH_FLOAT64] @
     rows2 BH_FLOOR [BH_FLOAT32, BH_FLOAT64] @
     rows2 BH_RINT [BH_FLOAT32, BH_FLOAT64] @
     rows3 BH_MOD [BH_INT8, BH_FLOAT64, BH_UINT16, BH_UINT64, BH_INT16, BH_FLOAT32, BH_INT32, BH_UINT8, BH_INT64,
       BH_UINT32] @
     bool_rows2 BH_ISNAN [BH_FLOAT32, BH_FLOAT64] @
     bool_rows2 BH_ISINF [BH_FLOAT32, BH_FLOAT64]"

definition validate_identity :: "validate_row list" where
  "validate_identity =
     into_rows BH_IDENTITY BH_INT8 [BH_BOOL, BH_INT8, BH_UINT8, BH_INT16, BH_UINT16, BH_INT32, BH_UINT32, BH_INT64,
       BH_UINT64, BH_FLOAT32, BH_FLOAT64] @
     into_rows BH_IDENTITY BH_FLOAT64 [BH_BOOL, BH_INT8, BH_UINT8, BH_INT16, BH_UINT16, BH_INT32, BH_UINT32, BH_INT64,
       BH_UINT64, BH_FLOAT32, BH_FLOAT64] @
     into_rows BH_IDENTITY BH_UINT16 [BH_BOOL, BH_INT8, BH_UINT8, BH_INT16, BH_UINT16, BH_INT32, BH_UINT32, BH_INT64,
       BH_UINT64, BH_FLOAT32, BH_FLOAT64] @
     into_rows BH_IDENTITY BH_UINT64 [BH_BOOL, BH_INT8, BH_UINT8, BH_INT16, BH_UINT16, BH_INT32, BH_UINT32, BH_INT64,
       BH_UINT64, BH_FLOAT32, BH_FLOAT64] @
     into_rows BH_IDENTITY BH_INT16 [BH_BOOL, BH_INT8, BH_UINT8, BH_INT16, BH_UINT16, BH_INT32, BH_UINT32, BH_INT64,
       BH_UINT64, BH_FLOAT32, BH_FLOAT64] @
     into_rows BH_IDENTITY BH_FLOAT32 [BH_BOOL, BH_INT8, BH_UINT8, BH_INT16, BH_UINT16, BH_INT32, BH_UINT32, BH_INT64,
       BH_UINT64, BH_FLOAT32, BH_FLOAT64] @
     into_rows BH_IDENTITY BH_BOOL [BH_BOOL, BH_INT8, BH_UINT8, BH_INT16, BH_UINT16, BH_INT32, BH_UINT32, BH_INT64,
       BH_UINT64, BH_FLOAT32, BH_FLOAT64] @
     into_rows BH_IDENTITY BH_INT32 [BH_BOOL, BH_INT8, BH_UINT8, BH_INT16, BH_UINT16, BH_INT32, BH_UINT32, BH_INT64,
       BH_UINT64, BH_FLOAT32, BH_FLOAT64] @
     into_rows BH_IDENTITY BH_UINT8 [BH_BOOL, BH_INT8, BH_UINT8, BH_INT16, BH_UINT16, BH_INT32, BH_UINT32, BH_INT64,
       BH_UINT64, BH_FLOAT32, BH_FLOAT64] @
     into_rows BH_IDENTITY BH_INT64 [BH_BOOL, BH_INT8, BH_UINT8, BH_INT16, BH_UINT16, BH_INT32, BH_UINT32, BH_INT64,
       BH_UINT64, BH_FLOAT32, BH_FLOAT64] @
     into_rows BH_IDENTITY BH_UINT32 [BH_BOOL, BH_INT8, BH_UINT8, BH_INT16, BH_UINT16, BH_INT32, BH_UINT32, BH_INT64,
       BH_UINT64, BH_FLOAT32, BH_FLOAT64] @
     into_rows BH_IDENTITY BH_COMPLEX64 [BH_COMPLEX64] @
     into_rows BH_IDENTITY BH_COMPLEX128 [BH_COMPLEX128] @
     into_rows BH_IDENTITY BH_BOOL [BH_COMPLEX64, BH_COMPLEX128] @
     into_rows BH_IDENTITY BH_INT8 [BH_COMPLEX64, BH_COMPLEX128] @
     into_rows BH_IDENTITY BH_UINT8 [BH_COMPLEX64, BH_COMPLEX128] @
     into_rows BH_IDENTITY BH_INT16 [BH_COMPLEX64, BH_COMPLEX128] @
     into_rows BH_IDENTITY BH_UINT16 [BH_COMPLEX64, BH_COMPLEX128] @
     into_rows BH_IDENTITY BH_INT32 [BH_COMPLEX64, BH_COMPLEX128] @
     into_rows BH_IDENTITY BH_UINT32 [BH_COMPLEX64, BH_COMPLEX128] @
     into_rows BH_IDENTITY BH_INT64 [BH_COMPLEX64, BH_COMPLEX128] @
     into_rows BH_IDENTITY BH_UINT64 [BH_COMPLEX64, BH_COMPLEX128] @
     into_rows BH_IDENTITY BH_FLOAT32 [BH_COMPLEX64, BH_COMPLEX128] @
     into_rows BH_IDENTITY BH_FLOAT64 [BH_COMPLEX64, BH_COMPLEX128] @
     into_rows BH_IDENTITY BH_COMPLEX64 [BH_COMPLEX128] @
     into_rows BH_IDENTITY BH_COMPLEX128 [BH_COMPLEX64]"

definition validate_reduce :: "validate_row list" where
  "validate_reduce =
     rows2 BH_ADD_REDUCE [BH_INT8, BH_FLOAT64, BH_UINT16, BH_UINT64, BH_INT16, BH_FLOAT32, BH_BOOL, BH_INT32,
       BH_UINT8, BH_INT64, BH_UINT32, BH_COMPLEX64, BH_COMPLEX128] @
     rows2 BH_MULTIPLY_REDUCE [BH_INT8, BH_FLOAT64, BH_UINT16, BH_UINT64, BH_INT16, BH_FLOAT32, BH_BOOL, BH_INT32,
       BH_UINT8, BH_INT64, BH_UINT32, BH_COMPLEX64, BH_COMPLEX128] @
     rows2 BH_MINIMUM_REDUCE [BH_INT8, BH_FLOAT64, BH_UINT16, BH_UINT64, BH_INT16, BH_FLOAT32, BH_BOOL, BH_INT32,
       BH_UINT8, BH_INT64, BH_UINT32] @
     rows2 BH_MAXIMUM_REDUCE [BH_INT8, BH_FLOAT64, BH_UINT16, BH_UINT64, BH_INT16, BH_FLOAT32, BH_BOOL, BH_INT32,
       BH_UINT8, BH_INT64, BH_UINT32] @
     rows2 BH_LOGICAL_AND_REDUCE [BH_BOOL] @
     rows2 BH_BITWISE_AND_REDUCE [BH_INT8, BH_UINT16, BH_UINT64, BH_INT16, BH_BOOL, BH_INT32, BH_UINT8, BH_INT64,
       BH_UINT32] @
     rows2 BH_LOGICAL_OR_REDUCE [BH_BOOL] @
     rows2 BH_BITWISE_OR_REDUCE [BH_INT8, BH_UINT16, BH_UINT64, BH_INT16, BH_BOOL, BH_INT32, BH_UINT8, BH_INT64,
       BH_UINT32] @
     rows2 BH_LOGICAL_XOR_REDUCE [BH_BOOL] @
     rows2 BH_BITWISE_XOR_REDUCE [BH_INT8, BH_UINT16, BH_UINT64, BH_INT16, BH_BOOL, BH_INT32, BH_UINT8, BH_INT64,
       BH_UINT32]"

definition validate_rows :: "validate_row list" where
  "validate_rows = validate_arith @ validate_compare @ validate_bitwise @ validate_math @ validate_identity @ validate_reduce"

definition poly3 :: "bh_opcode \<Rightarrow> bh_type \<Rightarrow> bh_type \<Rightarrow> bh_type \<Rightarrow> int" where
  "poly3 op out t1 t2 = op OR push_bit 8 (type_id out) OR push_bit 12 (type_id t1) OR push_bit 16 (type_id t2)"

definition poly2 :: "bh_opcode \<Rightarrow> bh_type \<Rightarrow> bh_type \<Rightarrow> int" where
  "poly2 op out t1 = op OR push_bit 8 (type_id out) OR push_bit 12 (type_id t1) OR push_bit 17 1"

definition case_label :: "validate_row \<Rightarrow> int" where
  "case_label r = (case r of (op, out, t1, Some t2) \<Rightarrow> poly3 op out t1 t2 | (op, out, t1, None) \<Rightarrow> poly2 op out t1)"

definition bh_validate_types :: "bh_opcode \<Rightarrow> bh_type \<Rightarrow> bh_type \<Rightarrow> bh_type \<Rightarrow> bh_type \<Rightarrow> bool" where
  "bh_validate_types op outtype inputtype1 inputtype2 constanttype =
     (let poly = (if bh_operands op = 3 then
                    (if inputtype1 = BH_UNKNOWN then poly3 op outtype constanttype inputtype2
                     else if inputtype2 = BH_UNKNOWN then poly3 op outtype inputtype1 constanttype
                     else poly3 op outtype inputtype1 inputtype2)
                  else
                    (if inputtype1 = BH_UNKNOWN then poly2 op outtype constanttype
                     else poly2 op outtype inputtype1))
      in list_ex (\<lambda>r. case_label r = poly) validate_rows)"

subsection \<open>Conversions\<close>

type_synonym conversion_row = "bh_opcode \<times> bh_type \<times> bh_type \<times> bh_type option"

definition same2 :: "bh_opcode \<Rightarrow> bh_type list \<Rightarrow> conversion_row list" where
  "same2 op outs = map (\<lambda>t. (op, t, t, Some t)) outs"

definition same1 :: "bh_opcode \<Rightarrow> bh_type list \<Rightarrow> conversion_row list" where
  "same1 op outs = map (\<lambda>t. (op, t, t, None)) outs"

definition conversion_add :: "conversion_row list" where
  "conversion_add =
     same2 BH_ADD [BH_INT8, BH_FLOAT64, BH_UINT16, BH_UINT64, BH_INT16, BH_FLOAT32, BH_BOOL, BH_INT32, BH_UINT8,
       BH_INT64, BH_UINT32, BH_COMPLEX64, BH_COMPLEX128] @
     same2 BH_SUBTRACT [BH_INT8, BH_FLOAT64, BH_UINT16, BH_UINT64, BH_INT16, BH_FLOAT32, BH_BOOL, BH_INT32, BH_UINT8,
       BH_INT64, BH_UINT32, BH_COMPLEX64, BH_COMPLEX128]"

definition conversion_multiply :: "conversion_row list" where
  "conversion_multiply =
     same2 BH_MULTIPLY [BH_INT8, BH_FLOAT64, BH_UINT16, BH_UINT64, BH_INT16, BH_FLOAT32, BH_BOOL, BH_INT32, BH_UINT8,
       BH_INT64, BH_UINT32, BH_COMPLEX64, BH_COMPLEX128] @
     same2 BH_DIVIDE [BH_INT8, BH_FLOAT64, BH_UINT16, BH_UINT64, BH_INT16, BH_FLOAT32, BH_INT32, BH_UINT8, BH_INT64,
       BH_UINT32, BH_COMPLEX64, BH_COMPLEX128] @
     same2 BH_POWER [BH_INT8, BH_FLOAT64, BH_UINT16, BH_UINT64, BH_INT16, BH_FLOAT32, BH_INT32, BH_UINT8, BH_INT64,
       BH_UINT32]"

definition conversion_maximum :: "conversion_row list" where
  "conversion_maximum =
     same1 BH_ABSOLUTE [BH_INT8, BH_FLOAT64, BH_UINT16, BH_UINT64, BH_INT16, BH_FLOAT32, BH_BOOL, BH_INT32, BH_UINT8,
       BH_INT64, BH_UINT32] @
     [(BH_GREATER, BH_BOOL, BH_INT8, Some BH_INT8)] @
     same2 BH_MAXIMUM [BH_INT8, BH_FLOAT64, BH_UINT16, BH_UINT64, BH_INT16, BH_FLOAT32, BH_BOOL, BH_INT32, BH_UINT8,
       BH_INT64, BH_UINT32] @
     same2 BH_MINIMUM [BH_INT8, BH_FLOAT64, BH_UINT16, BH_UINT64, BH_INT16, BH_FLOAT32, BH_BOOL, BH_INT32, BH_UINT8,
       BH_INT64, BH_UINT32]"

definition conversion_bitwise :: "conversion_row list" where
  "conversion_bitwise =
     same2 BH_BITWISE_AND [BH_INT8, BH_UINT16, BH_UINT64, BH_INT16, BH_BOOL, BH_INT32, BH_UINT8, BH_INT64, BH_UINT32] @
     same2 BH_BITWISE_OR [BH_INT8, BH_UINT16, BH_UINT64, BH_INT16, BH_BOOL, BH_INT32, BH_UINT8, BH_INT64, BH_UINT32] @
     same2 BH_BITWISE_XOR [BH_INT8, BH_UINT16, BH_UINT64, BH_INT16, BH_BOOL, BH_INT32, BH_UINT8, BH_INT64, BH_UINT32] @
     same1 BH_INVERT [BH_INT8, BH_UINT16, BH_UINT64, BH_INT16, BH_BOOL, BH_INT32, BH_UINT8, BH_INT64, BH_UINT32]"

definition conversion_trigonometric :: "conversion_row list" where
  "conversion_trigonometric =
     same2 BH_LEFT_SHIFT [BH_INT8, BH_UINT16, BH_UINT64, BH_INT16, BH_UINT32, BH_UINT8, BH_INT64, BH_INT32] @
     same2 BH_RIGHT_SHIFT [BH_INT8, BH_UINT16, BH_UINT64, BH_INT16, BH_UINT32, BH_UINT8, BH_INT64, BH_INT32] @
     same1 BH_COS [BH_FLOAT32, BH_FLOAT64, BH_COMPLEX64, BH_COMPLEX128] @
     same1 BH_SIN [BH_FLOAT32, BH_FLOAT64, BH_COMPLEX64, BH_COMPLEX128] @
     same1 BH_TAN [BH_FLOAT32, BH_FLOAT64, BH_COMPLEX64, BH_COMPLEX128] @
     same1 BH_COSH [BH_FLOAT32, BH_FLOAT64, BH_COMPLEX64, BH_COMPLEX128] @
     same1 BH_SINH [BH_FLOAT32, BH_FLOAT64, BH_COMPLEX64, BH_COMPLEX128] @
     same1 BH_TANH [BH_FLOAT32, BH_FLOAT64, BH_COMPLEX64, BH_COMPLEX128]"

definition conversion_math :: "conversion_row list" where
  "conversion_math =
     same1 BH_ARCSIN [BH_FLOAT32, BH_FLOAT64] @
     same1 BH_ARCCOS [BH_FLOAT32, BH_FLOAT64] @
     same1 BH_ARCTAN [BH_FLOAT32, BH_FLOAT64] @
     same1 BH_ARCSINH [BH_FLOAT32, BH_FLOAT64] @
     same1 BH_ARCCOSH [BH_FLOAT32, BH_FLOAT64] @
     same1 BH_ARCTANH [BH_FLOAT32, BH_FLOAT64] @
     same2 BH_ARCTAN2 [BH_FLOAT32, BH_FLOAT64] @
     same1 BH_EXP [BH_FLOAT32, BH_FLOAT64, BH_COMPLEX64, BH_COMPLEX128] @
     same1 BH_EXP2 [BH_FLOAT32, BH_FLOAT64] @
     same1 BH_EXPM1 [BH_FLOAT32, BH_FLOAT64] @
     same1 BH_LOG [BH_FLOAT32, BH_FLOAT64, BH_COMPLEX64, BH_COMPLEX128] @
     same1 BH_LOG2 [BH_FLOAT32, BH_FLOAT64] @
     same1 BH_LOG10 [BH_FLOAT32, BH_FLOAT64, BH_COMPLEX64, BH_COMPLEX128] @
     same1 BH_LOG1P [BH_FLOAT32, BH_FLOAT64] @
     same1 BH_SQRT [BH_FLOAT32, BH_FLOAT64, BH_COMPLEX64, BH_COMPLEX128] @
     same1 BH_CEIL [BH_FLOAT32, BH_FLOAT64] @
     same1 BH_TRUNC [BH_FLOAT32, BH_FLOAT64] @
     same1 BH_FLOOR [BH_FLOAT32, BH_FLOAT64] @
     same1 BH_RINT [BH_FLOAT32, BH_FLOAT64]"

definition conversion_mod :: "conversion_row list" where
  "conversion_mod =
     same2 BH_MOD [BH_INT8, BH_FLOAT64, BH_UINT16, BH_UINT64, BH_INT16, BH_FLOAT32, BH_INT32, BH_UINT8, BH_INT64,
       BH_UINT32] @
     [(BH_ISNAN, BH_BOOL, BH_FLOAT32, None)]"

definition conversion_reduce :: "conversion_row list" where
  "conversion_reduce =
     same1 BH_ADD_REDUCE [BH_INT8, BH_FLOAT64, BH_UINT16, BH_UINT64, BH_INT16, BH_FLOAT32, BH_BOOL, BH_INT32,
       BH_UINT8, BH_INT64, BH_UINT32, BH_COMPLEX64, BH_COMPLEX128] @
     same1 BH_MULTIPLY_REDUCE [BH_INT8, BH_FLOAT64, BH_UINT16, BH_UINT64, BH_INT16, BH_FLOAT32, BH_BOOL, BH_INT32,
       BH_UINT8, BH_INT64, BH_UINT32, BH_COMPLEX64, BH_COMPLEX128] @
     same1 BH_MINIMUM_REDUCE [BH_INT8, BH_FLOAT64, BH_UINT16, BH_UINT64, BH_INT16, BH_FLOAT32, BH_BOOL, BH_INT32,
       BH_UINT8, BH_INT64, BH_UINT32]"

definition conversion_reduce_bitwise :: "conversion_row list" where
  "conversion_reduce_bitwise =
     same1 BH_MAXIMUM_REDUCE [BH_INT8, BH_FLOAT64, BH_UINT16, BH_UINT64, BH_INT16, BH_FLOAT32, BH_BOOL, BH_INT32,
       BH_UINT8, BH_INT64, BH_UINT32] @
     same1 BH_LOGICAL_AND_REDUCE [BH_BOOL] @
     same1 BH_BITWISE_AND_REDUCE [BH_INT8, BH_UINT16, BH_UINT64, BH_INT16, BH_BOOL, BH_INT32, BH_UINT8, BH_INT64,
       BH_UINT32] @
     same1 BH_LOGICAL_OR_REDUCE [BH_BOOL] @
     same1 BH_BITWISE_OR_REDUCE [BH_INT8, BH_UINT16, BH_UINT64, BH_INT16, BH_BOOL, BH_INT32, BH_UINT8, BH_INT64,
       BH_UINT32] @
     same1 BH_LOGICAL_XOR_REDUCE [BH_BOOL] @
     same1 BH_BITWISE_XOR_REDUCE [BH_INT8, BH_UINT16, BH_UINT64, BH_INT16, BH_BOOL, BH_INT32, BH_UINT8, BH_INT64,
       BH_UINT32]"

definition conversion_rows :: "conversion_row list" where
  "conversion_rows =
     conversion_add @ conversion_multiply @ conversion_maximum @ conversion_bitwise @ conversion_trigonometric @
       conversion_math @ conversion_mod @ conversion_reduce @ conversion_reduce_bitwise"

definition out_label :: "bh_opcode \<Rightarrow> bh_type \<Rightarrow> int" where
  "out_label op out = op OR push_bit 8 (type_id out)"

definition desired_input_types :: "bh_opcode \<Rightarrow> bh_type \<Rightarrow> bh_type \<times> bh_type" where
  "desired_input_types op outtype =
     (case find (\<lambda>(op', out', d1, d2). out_label op' out' = out_label op outtype) conversion_rows of
        None \<Rightarrow> (BH_UNKNOWN, BH_UNKNOWN)
      | Some (op', out', d1, d2) \<Rightarrow> (d1, case d2 of None \<Rightarrow> BH_UNKNOWN | Some d \<Rightarrow> d))"

text \<open>\<^verbatim>\<open>bh_validate_types(BH_IDENTITY, desired, t, BH_UNKNOWN, BH_UNKNOWN)\<close>\<close>

definition convertible :: "bh_type \<Rightarrow> bh_type \<Rightarrow> bool" where
  "convertible desired t = bh_validate_types BH_IDENTITY desired t BH_UNKNOWN BH_UNKNOWN"

text \<open>The result and the three types the pointer arguments have afterwards.\<close>

definition bh_get_type_conversion ::
  "bh_opcode \<Rightarrow> bh_type \<Rightarrow> bh_type \<Rightarrow> bh_type \<Rightarrow> bh_type \<Rightarrow> bool \<times> bh_type \<times> bh_type \<times> bh_type" where
  "bh_get_type_conversion op outtype inputtype1 inputtype2 constanttype =
     (if bh_validate_types op outtype inputtype1 inputtype2 constanttype
      then (True, inputtype1, inputtype2, constanttype)
      else if op = BH_IDENTITY then (False, inputtype1, inputtype2, constanttype)
      else
        (let (d1, d2) = desired_input_types op outtype
         in if d1 = BH_UNKNOWN then (False, inputtype1, inputtype2, constanttype)
            else if bh_operands op = 3 then
              (if d2 = BH_UNKNOWN then (False, inputtype1, inputtype2, constanttype)
               else if inputtype1 = BH_UNKNOWN then
                 (if convertible d1 constanttype \<and> convertible d2 inputtype2 then (True, inputtype1, d2, d1)
                  else (False, inputtype1, inputtype2, constanttype))
               else if inputtype2 = BH_UNKNOWN then
                 (if convertible d1 inputtype1 \<and> convertible d2 constanttype then (True, d1, inputtype2, d2)
                  else (False, inputtype1, inputtype2, constanttype))
               else
                 (if convertible d1 inputtype1 \<and> convertible d2 inputtype2 then (True, d1, d2, constanttype)
                  else (False, inputtype1, inputtype2, constanttype)))
            else
              (if inputtype1 = BH_UNKNOWN then
                 (if convertible d1 constanttype then (True, inputtype1, inputtype2, d1)
                  else (False, inputtype1, inputtype2, constanttype))
               else
                 (if convertible d1 inputtype1 then (True, d1, inputtype2, constanttype)
                  else (False, inputtype1, inputtype2, constanttype)))))"

subsection \<open>Case labels are unique\<close>

lemma type_id_range: "known_type t \<Longrightarrow> 0 \<le> type_id t \<and> type_id t < 16"
  by (cases t) (simp_all add: known_type_def)

lemma type_id_inj: "known_type s \<Longrightarrow> known_type t \<Longrightarrow> type_id s = type_id t \<longleftrightarrow> s = t"
  by (cases s; cases t) (simp_all add: known_type_def)

lemma or_disjoint: "0 \<le> a \<Longrightarrow> a < 2 ^ n \<Longrightarrow> a OR push_bit n b = a + 2 ^ n * (b :: int)"
proof -
  assume a: "0 \<le> a" "a < 2 ^ n"
  then have "take_bit n a = a" by (simp add: take_bit_int_eq_self_iff)
  then show ?thesis using concat_bit_def [of n a b] concat_bit_eq [of n a b] by (simp add: push_bit_eq_mult mult.commute)
qed

lemma or_fields:
  fixes op o' a b :: int
  assumes "0 \<le> op" and "op < 256" and "0 \<le> o'" and "o' < 16" and "0 \<le> a" and "a < 16"
  shows "op OR push_bit 8 o' OR push_bit 12 a OR push_bit 16 b = op + 256 * o' + 4096 * a + 65536 * b"
proof -
  have "op OR push_bit 8 o' OR push_bit 12 a OR push_bit 16 b = op OR push_bit 8 (o' OR push_bit 4 (a OR push_bit 4 b))"
    by (simp add: push_bit_or push_bit_push_bit or.assoc)
  also have "a OR push_bit 4 b = a + 16 * b" using or_disjoint [of a 4 b] assms by simp
  also have "o' OR push_bit 4 (a + 16 * b) = o' + 16 * (a + 16 * b)" using or_disjoint [of o' 4 "a + 16 * b"] assms by simp
  also have "op OR push_bit 8 (o' + 16 * (a + 16 * b)) = op + 256 * (o' + 16 * (a + 16 * b))"
    using or_disjoint [of op 8 "o' + 16 * (a + 16 * b)"] assms by simp
  finally show ?thesis by simp
qed

lemma digit_unique:
  fixes a a' x x' k :: int
  assumes "a + k * x = a' + k * x'" and "0 \<le> a" and "a < k" and "0 \<le> a'" and "a' < k"
  shows "a = a' \<and> x = x'"
proof -
  have "a = (a + k * x) mod k" "a' = (a' + k * x') mod k" using assms(2-) by simp_all
  then have "a = a'" using assms(1) by simp
  then show ?thesis using assms by simp
qed

lemma fields_unique:
  fixes op o1 a b :: int
  assumes "op + 256 * o1 + 4096 * a + 65536 * b = op' + 256 * o2 + 4096 * a' + 65536 * b'"
    and "0 \<le> op" "op < 256" "0 \<le> op'" "op' < 256" "0 \<le> o1" "o1 < 16" "0 \<le> o2" "o2 < 16" "0 \<le> a" "a < 16" "0 \<le> a'" "a' < 16"
  shows "op = op' \<and> o1 = o2 \<and> a = a' \<and> b = b'"
proof -
  have "op + 256 * (o1 + 16 * (a + 16 * b)) = op' + 256 * (o2 + 16 * (a' + 16 * b'))" using assms(1) by simp
  then have "op = op'" and "o1 + 16 * (a + 16 * b) = o2 + 16 * (a' + 16 * b')" using digit_unique assms(2-5) by blast+
  moreover from this(2) have "o1 = o2" and "a + 16 * b = a' + 16 * b'" using digit_unique assms(6-9) by blast+
  ultimately show ?thesis using digit_unique [of a 16 b a' b'] assms(10-13) by blast
qed

text \<open>The third field of a label: the mark of two operands is the code of \<^verbatim>\<open>BH_INT16\<close>.\<close>

definition third :: "bh_type option \<Rightarrow> bh_type" where
  "third t = (case t of Some t \<Rightarrow> t | None \<Rightarrow> BH_INT16)"

lemma case_label_poly3: "case_label (op, out, t1, t2) = poly3 op out t1 (third t2)"
proof -
  have "push_bit 17 (1 :: int) = push_bit 16 2" by (simp add: push_bit_eq_mult)
  then show ?thesis by (simp add: case_label_def poly2_def poly3_def third_def split: option.splits)
qed

lemma poly2_poly3: "poly2 op out t1 = poly3 op out t1 BH_INT16"
  using case_label_poly3 [of op out t1 None] by (simp add: case_label_def third_def)

lemma poly3_inject:
  assumes "0 \<le> op" "op < 256" "0 \<le> op'" "op' < 256" "known_type o1" "known_type o2" "known_type a" "known_type a'" "known_type b" "known_type b'"
  shows "poly3 op o1 a b = poly3 op' o2 a' b' \<longleftrightarrow> op = op' \<and> o1 = o2 \<and> a = a' \<and> b = b'"
  unfolding poly3_def
  using or_fields [of op "type_id o1" "type_id a" "type_id b"] or_fields [of op' "type_id o2" "type_id a'" "type_id b'"]
    fields_unique [of op "type_id o1" "type_id a" "type_id b" op' "type_id o2" "type_id a'" "type_id b'"]
    type_id_range assms type_id_inj by auto

definition row_ok :: "validate_row \<Rightarrow> bool" where
  "row_ok r = (case r of (op, out, t1, t2) \<Rightarrow>
     0 \<le> op \<and> op < 256 \<and> known_type out \<and> known_type t1 \<and> known_type (third t2) \<and>
     out \<noteq> BH_UNKNOWN \<and> t1 \<noteq> BH_UNKNOWN \<and> third t2 \<noteq> BH_UNKNOWN)"

lemma rows_ok: "list_all row_ok validate_rows"
  by code_simp

lemma validate_mem:
  assumes "0 \<le> op" "op < 256" "known_type out" "known_type a" "known_type b"
  shows "list_ex (\<lambda>r. case_label r = poly3 op out a b) validate_rows \<longleftrightarrow> (\<exists>t. third t = b \<and> (op, out, a, t) \<in> set validate_rows)"
    (is "?l = ?r")
proof
  assume ?l
  then obtain op' out' a' t where m: "(op', out', a', t) \<in> set validate_rows" and l: "case_label (op', out', a', t) = poly3 op out a b"
    by (auto simp: list_ex_iff)
  have "row_ok (op', out', a', t)" using m rows_ok by (auto simp: list_all_iff)
  then have "op' = op \<and> out' = out \<and> a' = a \<and> third t = b"
    using l assms by (simp add: case_label_poly3 row_ok_def poly3_inject)
  then show ?r using m by blast
next
  assume ?r
  then show ?l by (auto simp: list_ex_iff case_label_poly3 intro!: bexI [rotated])
qed

subsection \<open>What the tables say\<close>

lemma rows_sets:
  "set (rows3 op ts) = (\<lambda>t. (op, t, t, Some t)) ` set ts" "set (bool_rows3 op ts) = (\<lambda>t. (op, BH_BOOL, t, Some t)) ` set ts"
  "set (rows2 op ts) = (\<lambda>t. (op, t, t, None)) ` set ts" "set (bool_rows2 op ts) = (\<lambda>t. (op, BH_BOOL, t, None)) ` set ts"
  "set (into_rows op t outs) = (\<lambda>out. (op, out, t, None)) ` set outs"
  by (simp_all add: rows3_def bool_rows3_def rows2_def bool_rows2_def into_rows_def)

lemmas validate_defs = validate_rows_def validate_arith_def validate_compare_def validate_bitwise_def validate_math_def
  validate_identity_def validate_reduce_def

lemmas conversion_defs = conversion_rows_def conversion_add_def conversion_multiply_def conversion_maximum_def
  conversion_bitwise_def conversion_trigonometric_def conversion_math_def conversion_mod_def conversion_reduce_def
  conversion_reduce_bitwise_def

definition three_operand_opcodes :: "bh_opcode list" where
  "three_operand_opcodes =
     [BH_ADD, BH_SUBTRACT, BH_MULTIPLY, BH_DIVIDE, BH_POWER, BH_GREATER, BH_GREATER_EQUAL, BH_LESS, BH_LESS_EQUAL,
      BH_EQUAL, BH_NOT_EQUAL, BH_LOGICAL_AND, BH_LOGICAL_OR, BH_LOGICAL_XOR, BH_MAXIMUM, BH_MINIMUM,
      BH_BITWISE_AND, BH_BITWISE_OR, BH_BITWISE_XOR, BH_LEFT_SHIFT, BH_RIGHT_SHIFT, BH_ARCTAN2, BH_MOD]"

definition two_operand_opcodes :: "bh_opcode list" where
  "two_operand_opcodes =
     [BH_ABSOLUTE, BH_LOGICAL_NOT, BH_INVERT, BH_COS, BH_SIN, BH_TAN, BH_COSH, BH_SINH, BH_TANH, BH_ARCSIN,
      BH_ARCCOS, BH_ARCTAN, BH_ARCSINH, BH_ARCCOSH, BH_ARCTANH, BH_EXP, BH_EXP2, BH_EXPM1, BH_LOG, BH_LOG2,
      BH_LOG10, BH_LOG1P, BH_SQRT, BH_CEIL, BH_TRUNC, BH_FLOOR, BH_RINT, BH_ISNAN, BH_ISINF, BH_IDENTITY]"

definition reduction_opcodes :: "bh_opcode list" where
  "reduction_opcodes =
     [BH_ADD_REDUCE, BH_MULTIPLY_REDUCE, BH_MINIMUM_REDUCE, BH_MAXIMUM_REDUCE, BH_LOGICAL_AND_REDUCE,
      BH_BITWISE_AND_REDUCE, BH_LOGICAL_OR_REDUCE, BH_BITWISE_OR_REDUCE, BH_LOGICAL_XOR_REDUCE,
      BH_BITWISE_XOR_REDUCE]"

text \<open>One pass over the opcode table.\<close>

definition table_says :: "nat \<Rightarrow> bool \<Rightarrow> bh_opcode list \<Rightarrow> bool" where
  "table_says n red ops \<longleftrightarrow> list_all (\<lambda>op. op \<in> set (map fst opcode_table)) ops \<and>
     list_all (\<lambda>(op, i). op \<in> set ops \<longrightarrow> op_nop i = n \<and> op_reduction i = red) opcode_table"

lemma table_says_opcodes:
  assumes "table_says n red ops" and "op \<in> set ops"
  shows "bh_operands op = n \<and> bh_opcode_is_reduction op = red"
proof -
  have "op \<in> set (map fst opcode_table)" using assms by (simp add: table_says_def list_all_iff)
  then obtain i where i: "map_of opcode_table op = Some i" by (metis map_of_eq_None_iff not_None_eq set_map)
  then have "(op, i) \<in> set opcode_table" by (rule map_of_SomeD)
  then show ?thesis using assms i by (auto simp: table_says_def list_all_iff bh_operands_def bh_opcode_is_reduction_def)
qed

lemma opcode_classes:
  "table_says 3 False three_operand_opcodes" "table_says 2 False two_operand_opcodes" "table_says 3 True reduction_opcodes"
  by code_simp+

lemmas opcode_class = opcode_classes [THEN table_says_opcodes]

text \<open>Labels with a third type are those of the opcodes with three operands that are no reductions.\<close>

definition row_class :: "validate_row \<Rightarrow> bool" where
  "row_class r = (case r of (op, out, t1, t2) \<Rightarrow>
     if t2 = None then op \<in> set two_operand_opcodes \<union> set reduction_opcodes else op \<in> set three_operand_opcodes)"

lemma row_classes:
  "op \<in> set three_operand_opcodes \<Longrightarrow> \<forall>r \<in> set (rows3 op ts). row_class r"
  "op \<in> set three_operand_opcodes \<Longrightarrow> \<forall>r \<in> set (bool_rows3 op ts). row_class r"
  "op \<in> set two_operand_opcodes \<union> set reduction_opcodes \<Longrightarrow> \<forall>r \<in> set (rows2 op ts). row_class r"
  "op \<in> set two_operand_opcodes \<union> set reduction_opcodes \<Longrightarrow> \<forall>r \<in> set (bool_rows2 op ts). row_class r"
  "op \<in> set two_operand_opcodes \<union> set reduction_opcodes \<Longrightarrow> \<forall>r \<in> set (into_rows op t ts). row_class r"
  by (auto simp: rows_sets row_class_def)

lemma rows_opcodes: "\<forall>r \<in> set validate_rows. row_class r"
  unfolding validate_defs set_append ball_Un
  by (intro conjI row_classes) (simp_all add: three_operand_opcodes_def two_operand_opcodes_def reduction_opcodes_def)

lemma rows_third:
  assumes "(op, out, t1, t2) \<in> set validate_rows"
  shows "t2 = None \<longleftrightarrow> bh_operands op \<noteq> 3 \<or> bh_opcode_is_reduction op"
  using rows_opcodes [THEN bspec, OF assms] opcode_class [of op] by (auto simp: row_class_def split: if_splits)

text \<open>Every suggested conversion leads to accepted types.\<close>

lemma same_rows: "same2 op ts = rows3 op ts" "same1 op ts = rows2 op ts"
  by (simp_all add: same2_def rows3_def same1_def rows2_def)

lemma conversions_accepted: "set conversion_rows \<subseteq> set validate_rows"
proof -
  have "(BH_GREATER, BH_BOOL, BH_INT8, Some BH_INT8) \<in> set validate_compare" "(BH_ISNAN, BH_BOOL, BH_FLOAT32, None) \<in> set validate_math"
    by (simp_all add: validate_compare_def validate_math_def rows_sets)
  moreover have "set conversion_add \<subseteq> set validate_arith" "set conversion_multiply \<subseteq> set validate_arith"
    unfolding conversion_add_def conversion_multiply_def validate_arith_def same_rows set_append by blast+
  moreover have "set conversion_maximum \<subseteq> set validate_arith \<union> set validate_bitwise \<union> {(BH_GREATER, BH_BOOL, BH_INT8, Some BH_INT8)}"
    unfolding conversion_maximum_def validate_arith_def validate_bitwise_def same_rows set_append by simp blast
  moreover have "set conversion_bitwise \<subseteq> set validate_bitwise"
    unfolding conversion_bitwise_def validate_bitwise_def same_rows set_append by blast
  moreover have "set conversion_trigonometric \<subseteq> set validate_bitwise \<union> set validate_math"
    unfolding conversion_trigonometric_def validate_bitwise_def validate_math_def same_rows set_append by blast
  moreover have "set conversion_math \<subseteq> set validate_math"
    unfolding conversion_math_def validate_math_def same_rows set_append by blast
  moreover have "set conversion_mod \<subseteq> set validate_math \<union> {(BH_ISNAN, BH_BOOL, BH_FLOAT32, None)}"
    unfolding conversion_mod_def validate_math_def same_rows set_append by simp blast
  moreover have "set conversion_reduce \<subseteq> set validate_reduce" "set conversion_reduce_bitwise \<subseteq> set validate_reduce"
    unfolding conversion_reduce_def conversion_reduce_bitwise_def validate_reduce_def same_rows set_append by blast+
  ultimately show ?thesis unfolding conversion_rows_def validate_rows_def set_append by blast
qed

text \<open>The signature of an accepted row is accepted, reductions apart.\<close>

definition signature_of :: "bh_type \<Rightarrow> bh_type \<Rightarrow> bh_type option \<Rightarrow> int" where
  "signature_of out t1 t2 = type_id out + 1 + 16 * (1 + type_id t1) + (case t2 of None \<Rightarrow> 0 | Some t2 \<Rightarrow> 256 * (1 + type_id t2))"

definition sig_ok :: "validate_row \<Rightarrow> bool" where
  "sig_ok r = (case r of (op, out, t1, t2) \<Rightarrow> bh_type_sig_check (signature_of out t1 t2))"

definition numeric_types :: "bh_type list" where
  "numeric_types = [BH_BOOL, BH_INT8, BH_INT16, BH_INT32, BH_INT64, BH_UINT8, BH_UINT16, BH_UINT32, BH_UINT64,
     BH_FLOAT32, BH_FLOAT64, BH_COMPLEX64, BH_COMPLEX128]"

lemma numeric_sigs:
  "list_all (\<lambda>t. bh_type_sig_check (signature_of t t (Some t)) \<and> bh_type_sig_check (signature_of BH_BOOL t (Some t)) \<and>
     bh_type_sig_check (signature_of t t None)) numeric_types"
  by code_simp

lemma row_sigs:
  assumes "set ts \<subseteq> set numeric_types"
  shows "\<forall>r \<in> set (rows3 op ts). sig_ok r" "\<forall>r \<in> set (bool_rows3 op ts). sig_ok r" "\<forall>r \<in> set (rows2 op ts). sig_ok r"
  using assms numeric_sigs by (auto simp: rows_sets sig_ok_def list_all_iff)

lemma identity_sigs: "list_all sig_ok validate_identity" "list_all sig_ok (bool_rows2 op [BH_FLOAT32, BH_FLOAT64])"
  by code_simp+

lemma rows_signatures: "\<forall>r \<in> set (validate_arith @ validate_compare @ validate_bitwise @ validate_math @ validate_identity). sig_ok r"
proof -
  have "\<forall>r \<in> set validate_arith. sig_ok r" "\<forall>r \<in> set validate_compare. sig_ok r" "\<forall>r \<in> set validate_bitwise. sig_ok r"
    unfolding validate_arith_def validate_compare_def validate_bitwise_def set_append ball_Un
    by (intro conjI row_sigs; simp add: numeric_types_def)+
  moreover have "\<forall>r \<in> set validate_math. sig_ok r"
    unfolding validate_math_def set_append ball_Un
    by (intro conjI row_sigs) (use identity_sigs(2) in \<open>simp_all add: numeric_types_def list_all_iff\<close>)
  ultimately show ?thesis using identity_sigs(1) by (auto simp: list_all_iff)
qed

lemma reduce_opcodes: "\<forall>r \<in> set validate_reduce. fst r \<in> set reduction_opcodes"
  unfolding validate_reduce_def set_append ball_Un by (simp add: rows_sets reduction_opcodes_def)

subsection \<open>Properties\<close>

definition first_input :: "bh_type \<Rightarrow> bh_type \<Rightarrow> bh_type" where
  "first_input t1 c = (if t1 = BH_UNKNOWN then c else t1)"

definition second_input :: "bh_type \<Rightarrow> bh_type \<Rightarrow> bh_type \<Rightarrow> bh_type" where
  "second_input t1 t2 c = (if t1 \<noteq> BH_UNKNOWN \<and> t2 = BH_UNKNOWN then c else t2)"

lemma validate_exact:
  assumes "0 \<le> op" "op < 256" "known_type out" "known_type t1" "known_type t2" "known_type c"
  shows "bh_validate_types op out t1 t2 c \<longleftrightarrow>
    (if bh_operands op = 3 then
       (if bh_opcode_is_reduction op
        then (op, out, first_input t1 c, None) \<in> set validate_rows \<and> second_input t1 t2 c = BH_INT16
        else (op, out, first_input t1 c, Some (second_input t1 t2 c)) \<in> set validate_rows)
     else (op, out, first_input t1 c, None) \<in> set validate_rows)"
proof -
  let ?a = "first_input t1 c" and ?b = "if bh_operands op = 3 then second_input t1 t2 c else BH_INT16"
  have k: "known_type ?a" "known_type ?b" using assms by (simp_all add: first_input_def second_input_def known_type_def)
  have "bh_validate_types op out t1 t2 c \<longleftrightarrow> (\<exists>t. third t = ?b \<and> (op, out, ?a, t) \<in> set validate_rows)"
    unfolding validate_mem [OF assms(1-3) k, symmetric]
    by (simp add: bh_validate_types_def first_input_def second_input_def poly2_poly3)
  also have "\<dots> \<longleftrightarrow> BH_INT16 = ?b \<and> (op, out, ?a, None) \<in> set validate_rows \<or> (op, out, ?a, Some ?b) \<in> set validate_rows"
    unfolding split_option_ex by (simp add: third_def)
  finally show ?thesis
    using rows_third [of op out ?a None] rows_third [of op out ?a "Some ?b"]
    by (cases "bh_operands op = 3"; cases "bh_opcode_is_reduction op") auto
qed

text \<open>
  C29. \<^verbatim>\<open>bh_validate_types\<close> accepts exactly the rows of its table, the constant's type standing for the operand
  that is constant: the packed value of an opcode below 256 and its types is unique. The table lists
  the reductions as opcodes with two operands, but they have three: they are accepted exactly when
  the type of the axis is \<^verbatim>\<open>BH_INT16\<close>, whose code is the mark of two operands.
\<close>

theorem bh_validate_types_exact:
  assumes "0 \<le> op" "op < 256" "known_type out" "known_type t1" "known_type t2" "known_type c"
  shows "bh_validate_types op out t1 t2 c \<longleftrightarrow>
    (if bh_operands op = 3 then
       (if bh_opcode_is_reduction op
        then (op, out, first_input t1 c, None) \<in> set validate_rows \<and> second_input t1 t2 c = BH_INT16
        else (op, out, first_input t1 c, Some (second_input t1 t2 c)) \<in> set validate_rows)
     else (op, out, first_input t1 c, None) \<in> set validate_rows)"
  by (rule validate_exact [OF assms])

lemma in_validate_rows:
  "(BH_ADD, BH_INT32, BH_INT32, Some BH_INT32) \<in> set validate_rows" "(BH_ADD_REDUCE, BH_INT32, BH_INT32, None) \<in> set validate_rows"
  by (simp_all add: validate_rows_def validate_arith_def validate_reduce_def rows_sets)

theorem bh_validate_types_exact_witness:
  "bh_validate_types BH_ADD BH_INT32 BH_UNKNOWN BH_INT32 BH_INT32 \<and>
   bh_validate_types BH_ADD_REDUCE BH_INT32 BH_INT32 BH_UNKNOWN BH_INT16 \<and>
   \<not> bh_validate_types BH_ADD_REDUCE BH_INT32 BH_INT32 BH_UNKNOWN BH_INT64"
proof -
  have "bh_operands BH_ADD = 3 \<and> \<not> bh_opcode_is_reduction BH_ADD" "bh_operands BH_ADD_REDUCE = 3 \<and> bh_opcode_is_reduction BH_ADD_REDUCE"
    using opcode_class(1) [of BH_ADD] opcode_class(3) [of BH_ADD_REDUCE] by (simp_all add: three_operand_opcodes_def reduction_opcodes_def)
  then show ?thesis
    using bh_validate_types_exact [of BH_ADD BH_INT32 BH_UNKNOWN BH_INT32 BH_INT32]
      bh_validate_types_exact [of BH_ADD_REDUCE BH_INT32 BH_INT32 BH_UNKNOWN BH_INT16]
      bh_validate_types_exact [of BH_ADD_REDUCE BH_INT32 BH_INT32 BH_UNKNOWN BH_INT64] in_validate_rows
    by (simp add: known_type_def first_input_def second_input_def)
qed

lemma out_label_inject:
  assumes "0 \<le> op" "op < 256" "0 \<le> op'" "op' < 256" "known_type out" "known_type out'"
  shows "out_label op out = out_label op' out' \<longleftrightarrow> op = op' \<and> out = out'"
proof -
  have "out_label op out = op + 256 * type_id out" "out_label op' out' = op' + 256 * type_id out'"
    using or_disjoint [of op 8] or_disjoint [of op' 8] assms by (simp_all add: out_label_def)
  then show ?thesis using digit_unique [of op 256 "type_id out" op' "type_id out'"] assms type_id_inj by auto
qed

lemma desired_row:
  assumes "0 \<le> op" "op < 256" "known_type out" and "desired_input_types op out = (d1, d2)" and "d1 \<noteq> BH_UNKNOWN"
  shows "\<exists>t. (op, out, d1, t) \<in> set validate_rows \<and> d2 = (case t of None \<Rightarrow> BH_UNKNOWN | Some d \<Rightarrow> d)"
proof -
  obtain op' out' d where f: "find (\<lambda>(op', out', d1, d2). out_label op' out' = out_label op out) conversion_rows = Some (op', out', d1, d)"
    and d: "d2 = (case d of None \<Rightarrow> BH_UNKNOWN | Some d \<Rightarrow> d)"
    using assms(4,5) by (auto simp: desired_input_types_def split: option.splits prod.splits)
  have "(op', out', d1, d) \<in> set conversion_rows" and l: "out_label op' out' = out_label op out"
    using f by (auto simp: find_Some_iff in_set_conv_nth)
  then have m: "(op', out', d1, d) \<in> set validate_rows" using conversions_accepted by blast
  have "row_ok (op', out', d1, d)" using m rows_ok by (auto simp: list_all_iff)
  then have "op' = op \<and> out' = out" using l assms by (simp add: row_ok_def out_label_inject)
  then show ?thesis using m d by auto
qed

lemma row_validates:
  assumes "(op, out, d1, t) \<in> set validate_rows"
  shows "t = Some d2 \<Longrightarrow> bh_validate_types op out BH_UNKNOWN d2 d1" and "t = Some d2 \<Longrightarrow> bh_validate_types op out d1 BH_UNKNOWN d2"
    and "t = Some d2 \<Longrightarrow> bh_validate_types op out d1 d2 c"
    and "bh_operands op \<noteq> 3 \<Longrightarrow> bh_validate_types op out BH_UNKNOWN t2 d1" and "bh_operands op \<noteq> 3 \<Longrightarrow> bh_validate_types op out d1 t2 c"
proof -
  have "row_ok (op, out, d1, t)" using assms rows_ok by (auto simp: list_all_iff)
  then have nu: "d1 \<noteq> BH_UNKNOWN" "third t \<noteq> BH_UNKNOWN" by (simp_all add: row_ok_def)
  have hit: "list_ex (\<lambda>r. case_label r = poly3 op out d1 (third t)) validate_rows"
    using assms by (auto simp: list_ex_iff case_label_poly3 intro!: bexI [rotated])
  have n: "t = Some d2 \<Longrightarrow> bh_operands op = 3" "bh_operands op \<noteq> 3 \<Longrightarrow> t = None" using rows_third [OF assms] by auto
  show "t = Some d2 \<Longrightarrow> bh_validate_types op out BH_UNKNOWN d2 d1" "t = Some d2 \<Longrightarrow> bh_validate_types op out d1 BH_UNKNOWN d2"
    "t = Some d2 \<Longrightarrow> bh_validate_types op out d1 d2 c"
    using hit nu n(1) by (auto simp: bh_validate_types_def third_def)
  show "bh_operands op \<noteq> 3 \<Longrightarrow> bh_validate_types op out BH_UNKNOWN t2 d1" "bh_operands op \<noteq> 3 \<Longrightarrow> bh_validate_types op out d1 t2 c"
    using hit nu n(2) by (auto simp: bh_validate_types_def third_def poly2_poly3)
qed

text \<open>
  C36. A conversion \<^verbatim>\<open>bh_get_type_conversion\<close> suggests is usable: the opcode accepts the types it leaves, and
  every type it has changed is one an \<^verbatim>\<open>IDENTITY\<close> instruction converts from the old one. When it fails
  it has changed nothing.
\<close>

theorem bh_get_type_conversion_sound:
  assumes "0 \<le> op" "op < 256" "known_type out"
    and "bh_get_type_conversion op out t1 t2 c = (r, t1', t2', c')"
  shows "if r then bh_validate_types op out t1' t2' c' \<and>
           (t1' = t1 \<or> convertible t1' t1) \<and> (t2' = t2 \<or> convertible t2' t2) \<and> (c' = c \<or> convertible c' c)
         else t1' = t1 \<and> t2' = t2 \<and> c' = c"
proof (cases "bh_validate_types op out t1 t2 c \<or> op = BH_IDENTITY")
  case True
  then show ?thesis using assms(4) by (auto simp: bh_get_type_conversion_def split: if_splits)
next
  case False
  obtain d1 d2 where d: "desired_input_types op out = (d1, d2)" by fastforce
  show ?thesis
  proof (cases "d1 = BH_UNKNOWN")
    case True
    then show ?thesis using False assms(4) d by (simp add: bh_get_type_conversion_def)
  next
    case known: False
    then obtain t where t: "(op, out, d1, t) \<in> set validate_rows" "d2 = (case t of None \<Rightarrow> BH_UNKNOWN | Some d \<Rightarrow> d)"
      using desired_row [OF assms(1-3) d] by blast
    then have "d2 \<noteq> BH_UNKNOWN \<Longrightarrow> t = Some d2" by (simp split: option.splits)
    then show ?thesis
      using False known assms(4) d row_validates [OF t(1)] unfolding bh_get_type_conversion_def d Let_def prod.case
      by (simp only: if_False de_Morgan_disj simp_thms) (auto split: if_splits)
  qed
qed

theorem bh_get_type_conversion_sound_witness:
  "bh_get_type_conversion BH_SQRT BH_FLOAT64 BH_INT32 BH_UNKNOWN BH_UNKNOWN = (True, BH_FLOAT64, BH_UNKNOWN, BH_UNKNOWN) \<and>
   bh_validate_types BH_SQRT BH_FLOAT64 BH_FLOAT64 BH_UNKNOWN BH_UNKNOWN \<and> convertible BH_FLOAT64 BH_INT32"
proof -
  have c: "bh_get_type_conversion BH_SQRT BH_FLOAT64 BH_INT32 BH_UNKNOWN BH_UNKNOWN = (True, BH_FLOAT64, BH_UNKNOWN, BH_UNKNOWN)"
    by code_simp
  then show ?thesis using bh_get_type_conversion_sound [OF _ _ _ c] by (simp add: known_type_def)
qed

lemma reduction_opcode_range: "op \<in> set reduction_opcodes \<Longrightarrow> 0 \<le> op \<and> op < 256"
  by (auto simp: reduction_opcodes_def)

text \<open>
  No reduction passes the type check with the axis every caller passes, a constant of type
  \<^verbatim>\<open>BH_INT64\<close>, although the opcode table declares exactly these types; and no conversion is found for it.
\<close>

theorem reductions_never_validate:
  assumes "op \<in> set reduction_opcodes" and "known_type out" and "known_type t" and "t \<noteq> BH_UNKNOWN"
  shows "bh_opcode_is_reduction op \<and> \<not> bh_validate_types op out t BH_UNKNOWN BH_INT64 \<and>
    bh_get_type_conversion op out t BH_UNKNOWN BH_INT64 = (False, t, BH_UNKNOWN, BH_INT64)"
proof -
  note op = reduction_opcode_range [OF assms(1)] opcode_class(3) [OF assms(1)]
  have v: "\<not> bh_validate_types op out t BH_UNKNOWN BH_INT64"
    using validate_exact [of op out t BH_UNKNOWN BH_INT64] op assms by (simp add: known_type_def second_input_def)
  obtain d1 d2 where d: "desired_input_types op out = (d1, d2)" by fastforce
  have "d2 = BH_UNKNOWN" if kn: "d1 \<noteq> BH_UNKNOWN"
  proof -
    obtain r where r: "(op, out, d1, r) \<in> set validate_rows" "d2 = (case r of None \<Rightarrow> BH_UNKNOWN | Some d \<Rightarrow> d)"
      using desired_row [OF _ _ assms(2) d kn] op by blast
    then show ?thesis using rows_third [OF r(1)] op by simp
  qed
  then show ?thesis using v op d by (auto simp: bh_get_type_conversion_def)
qed

theorem reductions_never_validate_witness:
  "\<not> bh_validate_types BH_ADD_REDUCE BH_FLOAT64 BH_FLOAT64 BH_UNKNOWN BH_INT64"
  using reductions_never_validate [of BH_ADD_REDUCE BH_FLOAT64 BH_FLOAT64] by (simp add: reduction_opcodes_def known_type_def)

definition operand_type :: "(ptr \<Rightarrow> bh_type) \<Rightarrow> bh_instruction \<Rightarrow> nat \<Rightarrow> bh_type" where
  "operand_type ty instr i = (if bh_is_constant (operand instr ! i) then ctype (inst_constant instr) else ty (base (operand instr ! i)))"

text \<open>An output array, and at most one constant.\<close>

definition operands_typed :: "(ptr \<Rightarrow> bh_type) \<Rightarrow> bh_instruction \<Rightarrow> bool" where
  "operands_typed ty instr \<longleftrightarrow> \<not> bh_is_constant (operand instr ! 0) \<and> known_type (ctype (inst_constant instr)) \<and>
     (bh_operands (opcode instr) = 3 \<longrightarrow> \<not> (bh_is_constant (operand instr ! 1) \<and> bh_is_constant (operand instr ! 2))) \<and>
     (\<forall>i < bh_operands (opcode instr). known_type (operand_type ty instr i))"

definition digits :: "int list \<Rightarrow> int" where
  "digits ds = foldr (\<lambda>d x. d + 16 * x) ds 0"

lemma digits_simps [simp]: "digits [] = 0" "digits (d # ds) = d + 16 * digits ds"
  by (simp_all add: digits_def)

lemma digits_range: "\<forall>d \<in> set ds. 0 \<le> d \<and> d < 16 \<Longrightarrow> 0 \<le> digits ds \<and> digits ds < 16 ^ length ds"
  by (induction ds) auto

lemma digits_nth: "\<forall>d \<in> set ds. 0 \<le> d \<and> d < 16 \<Longrightarrow> i < length ds \<Longrightarrow> digits ds div 16 ^ i mod 16 = ds ! i"
proof (induction ds arbitrary: i)
  case (Cons d ds)
  have "(d + 16 * digits ds) div 16 ^ Suc j = digits ds div 16 ^ j" for j
    using Cons.prems(1) by (simp add: zdiv_zmult2_eq)
  then show ?case using Cons by (cases i) auto
qed simp

lemma type_sig_digits:
  assumes "operands_typed ty instr"
  shows "bh_type_sig ty instr = digits (map (\<lambda>i. 1 + type_id (operand_type ty instr i)) [0..<bh_operands (opcode instr)])"
proof -
  have "bh_operands (opcode instr) \<le> 3" by (rule bh_operands_le_3)
  then consider "bh_operands (opcode instr) = 0" | "bh_operands (opcode instr) = 1" | "bh_operands (opcode instr) = 2" | "bh_operands (opcode instr) = 3"
    by linarith
  then show ?thesis
    using assms by cases (auto simp: bh_type_sig_def Let_def operands_typed_def operand_type_def push_bit_eq_mult upt_rec simp flip: numeral_2_eq_2)
qed

text \<open>
  The signature of an instruction is a number below 4096 whose hexadecimal digits, from the lowest,
  are the operand types' codes plus one: it never leaves the range of an \<^verbatim>\<open>int\<close> and the types of the
  operands can be read off it.
\<close>

theorem bh_type_sig_bounds:
  assumes "operands_typed ty instr"
  shows "0 \<le> bh_type_sig ty instr \<and> bh_type_sig ty instr < 4096 \<and>
    (\<forall>i < bh_operands (opcode instr). bh_type_sig ty instr div 16 ^ i mod 16 = 1 + type_id (operand_type ty instr i))"
proof -
  let ?n = "bh_operands (opcode instr)"
  let ?ds = "map (\<lambda>i. 1 + type_id (operand_type ty instr i)) [0..<?n]"
  have n: "?n \<le> 3" by (rule bh_operands_le_3)
  have "type_id t < 15 \<and> 0 \<le> type_id t" if "known_type t" for t using that by (cases t) (simp_all add: known_type_def)
  then have ds: "\<forall>d \<in> set ?ds. 0 \<le> d \<and> d < 16" using assms n unfolding operands_typed_def by fastforce
  have "(16 :: int) ^ ?n \<le> 16 ^ 3" using n by (intro power_increasing) simp_all
  then show ?thesis using digits_range [OF ds] digits_nth [OF ds] unfolding type_sig_digits [OF assms] by auto
qed

lemma digits_signature:
  "digits [1 + type_id out, 1 + type_id t1] = signature_of out t1 None"
  "digits [1 + type_id out, 1 + type_id t1, 1 + type_id t2] = signature_of out t1 (Some t2)"
  by (simp_all add: signature_of_def)

lemma row_signature:
  assumes "(op, out, t1, t2) \<in> set validate_rows" and "\<not> bh_opcode_is_reduction op"
  shows "bh_type_sig_check (signature_of out t1 t2)"
proof -
  have "(op, out, t1, t2) \<notin> set validate_reduce"
    using reduce_opcodes opcode_class(3) [of op] assms(2) by fastforce
  then have "sig_ok (op, out, t1, t2)" using assms(1) rows_signatures unfolding validate_rows_def set_append by blast
  then show ?thesis by (simp add: sig_ok_def)
qed

text \<open>The type \<^verbatim>\<open>bh_validate_types\<close> gets for an input operand: \<^verbatim>\<open>BH_UNKNOWN\<close> where there is none or a constant.\<close>

definition input_type :: "(ptr \<Rightarrow> bh_type) \<Rightarrow> bh_instruction \<Rightarrow> nat \<Rightarrow> bh_type" where
  "input_type ty instr i =
     (if bh_operands (opcode instr) \<le> i \<or> bh_is_constant (operand instr ! i) then BH_UNKNOWN else ty (base (operand instr ! i)))"

lemma input_types:
  assumes "operands_typed ty instr" and "\<forall>i < bh_operands (opcode instr). operand_type ty instr i \<noteq> BH_UNKNOWN" and "2 \<le> bh_operands (opcode instr)"
  shows "known_type (input_type ty instr i)"
    and "first_input (input_type ty instr 1) (ctype (inst_constant instr)) = operand_type ty instr 1"
    and "bh_operands (opcode instr) = 3 \<Longrightarrow>
      second_input (input_type ty instr 1) (input_type ty instr 2) (ctype (inst_constant instr)) = operand_type ty instr 2"
proof -
  have "known_type BH_UNKNOWN" by (simp add: known_type_def)
  then show "known_type (input_type ty instr i)" 
    using assms(1) unfolding operands_typed_def input_type_def operand_type_def by (metis not_less)
  show "first_input (input_type ty instr 1) (ctype (inst_constant instr)) = operand_type ty instr 1"
    using assms(2) [rule_format, of 1] assms(3) by (auto simp: first_input_def input_type_def operand_type_def split: if_splits)
  show "second_input (input_type ty instr 1) (input_type ty instr 2) (ctype (inst_constant instr)) = operand_type ty instr 2"
    if "bh_operands (opcode instr) = 3"
    using assms(1) assms(2) [rule_format, of 1] assms(2) [rule_format, of 2] that
    by (auto simp: second_input_def input_type_def operand_type_def operands_typed_def split: if_splits)
qed

text \<open>
  The two type checks agree: the signature of an instruction with two or three operands whose types
  \<^verbatim>\<open>bh_validate_types\<close> accepts passes \<^verbatim>\<open>bh_type_sig_check\<close>, reductions apart.
\<close>

theorem validated_signature_checks:
  assumes "operands_typed ty instr" and "\<forall>i < bh_operands (opcode instr). operand_type ty instr i \<noteq> BH_UNKNOWN"
    and "0 \<le> opcode instr" and "opcode instr < 256" and "\<not> bh_opcode_is_reduction (opcode instr)" and "2 \<le> bh_operands (opcode instr)"
    and "bh_validate_types (opcode instr) (operand_type ty instr 0) (input_type ty instr 1) (input_type ty instr 2) (ctype (inst_constant instr))"
  shows "bh_type_sig_check (bh_type_sig ty instr)"
proof -
  let ?n = "bh_operands (opcode instr)" and ?t = "operand_type ty instr"
  note it = input_types [OF assms(1,2,6)]
  have kn: "known_type (?t 0)" "known_type (ctype (inst_constant instr))" using assms(1,6) by (simp_all add: operands_typed_def)
  have n: "?n = 2 \<or> ?n = 3" using assms(6) bh_operands_le_3 [of "opcode instr"] by linarith
  have "(opcode instr, ?t 0, ?t 1, if ?n = 3 then Some (?t 2) else None) \<in> set validate_rows"
    using assms(5,7) it(2,3) unfolding validate_exact [OF assms(3,4) kn(1) it(1) it(1) kn(2)] by (simp split: if_splits)
  then have "bh_type_sig_check (signature_of (?t 0) (?t 1) (if ?n = 3 then Some (?t 2) else None))"
    using row_signature assms(5) by blast
  moreover have "[0..<2] = [0, 1 :: nat]" "[0..<3] = [0, 1, 2 :: nat]" by (simp_all add: upt_rec)
  ultimately show ?thesis
    using n type_sig_digits [OF assms(1)] by (elim disjE) (simp_all only: list.map digits_signature if_True if_False refl, simp_all)
qed

text \<open>\<^verbatim>\<open>v = 5 + w\<close> with a constant first input.\<close>

definition add_constant :: bh_instruction where
  "add_constant = \<lparr>opcode = BH_ADD, operand = [mk_view 1 0 [(3, 1)], mk_view 0 0 [(3, 1)], mk_view 2 0 [(3, 1)]],
     inst_constant = \<lparr>cvalue = [], ctype = BH_INT64\<rparr>\<rparr>"

lemma add_constant_sel:
  "opcode add_constant = BH_ADD" "inst_constant add_constant = \<lparr>cvalue = [], ctype = BH_INT64\<rparr>"
  "base (operand add_constant ! 0) = 1" "base (operand add_constant ! 1) = 0" "base (operand add_constant ! 2) = 2"
  by (simp_all add: add_constant_def mk_view_def)

lemma BH_ADD_class: "bh_operands BH_ADD = 3 \<and> \<not> bh_opcode_is_reduction BH_ADD"
  using opcode_class(1) [of BH_ADD] by (simp add: three_operand_opcodes_def)

lemma add_constant_types: "i < 3 \<Longrightarrow> operand_type (\<lambda>_. BH_INT64) add_constant i = BH_INT64"
  by (simp add: operand_type_def add_constant_sel)

lemma add_constant_typed: "operands_typed (\<lambda>_. BH_INT64) add_constant"
  using BH_ADD_class by (simp add: operands_typed_def add_constant_types add_constant_sel bh_is_constant_def known_type_def)

theorem bh_type_sig_bounds_witness:
  "0 \<le> bh_type_sig (\<lambda>_. BH_INT64) add_constant \<and> bh_type_sig (\<lambda>_. BH_INT64) add_constant < 4096 \<and>
   bh_type_sig (\<lambda>_. BH_INT64) add_constant div 256 mod 16 = 5"
  using bh_type_sig_bounds [OF add_constant_typed] BH_ADD_class
  by (auto simp: add_constant_sel add_constant_types dest: spec [of _ 2])

theorem validated_signature_checks_witness:
  "bh_type_sig_check (bh_type_sig (\<lambda>_. BH_INT64) add_constant)"
proof (rule validated_signature_checks [OF add_constant_typed])
  show "bh_validate_types (opcode add_constant) (operand_type (\<lambda>_. BH_INT64) add_constant 0) (input_type (\<lambda>_. BH_INT64) add_constant 1)
      (input_type (\<lambda>_. BH_INT64) add_constant 2) (ctype (inst_constant add_constant))"
    using BH_ADD_class
    by (subst validate_exact)
      (simp_all add: add_constant_sel add_constant_types input_type_def bh_is_constant_def known_type_def first_input_def second_input_def
        validate_rows_def validate_arith_def rows_sets)
qed (use BH_ADD_class in \<open>simp_all add: add_constant_sel add_constant_types\<close>)

end
