(* ===== verification/Flt_Dimclean.thy ===== *)
theory Flt_Dimclean
  imports Bh_Fuse
begin

text \<open>
  The filter \<^verbatim>\<open>filter/dimclean\<close>: dimensions of length one are removed from the views of every instruction, a
  sweep over a dimension of length one becomes a copy, and an instruction on an empty view is dropped.
  \<open>None\<close> is an axis outside the shape array. Assigning to the member \<^verbatim>\<open>int64\<close> of the constant overwrites its
  first eight bytes.
\<close>

subsection \<open>The filter\<close>

definition decrement_axis :: "bh_instruction \<Rightarrow> bh_instruction" where
  "decrement_axis instr =
     instr\<lparr>inst_constant := put_value 8 (le_bytes 8 (constant_int64 (inst_constant instr) - 1)) (inst_constant instr)\<rparr>"

text \<open>The loop over the dimensions: \<open>i\<close> is the dimension read, \<open>ii\<close> the one written; \<open>axis\<close> tells whether the view is
  the input of a sweep.\<close>

fun dims_loop :: "bool \<Rightarrow> nat \<Rightarrow> nat \<Rightarrow> nat \<Rightarrow> bh_view \<Rightarrow> bh_instruction \<Rightarrow> bh_view \<times> bh_instruction" where
  "dims_loop axis 0 i ii view instr = (view, instr)"
| "dims_loop axis (Suc k) i ii view instr =
     (if shape view ! i = 0 then dims_loop axis k (Suc i) ii view (instr\<lparr>opcode := BH_NONE\<rparr>)
      else if shape view ! i = 1 then
        dims_loop axis k (Suc i) ii
          (if 1 < ndim view then view\<lparr>ndim := ndim view - 1\<rparr> else view)
          (if axis \<and> int ii < constant_int64 (inst_constant instr) then decrement_axis instr else instr)
      else if ii < i then
        dims_loop axis k (Suc i) (Suc ii)
          (view\<lparr>shape := (shape view)[ii := shape view ! i], stride := (stride view)[ii := stride view ! i]\<rparr>) instr
      else dims_loop axis k (Suc i) (Suc ii) view instr)"

definition clean_operand :: "bool \<Rightarrow> nat \<Rightarrow> bh_instruction \<Rightarrow> bh_instruction" where
  "clean_operand axis o' instr =
     (let view = operand instr ! o'
      in if base view \<noteq> NULL then
           (let (view, instr) = dims_loop axis (ndim view) 0 0 view instr
            in instr\<lparr>operand := (operand instr)[o' := view]\<rparr>)
         else instr)"

fun operands_loop :: "nat \<Rightarrow> nat \<Rightarrow> bool \<Rightarrow> bh_instruction \<Rightarrow> bh_instruction option" where
  "operands_loop 0 o' sweep instr = Some instr"
| "operands_loop (Suc k) o' sweep instr =
     (if sweep \<and> o' = 1 then
        (let a = constant_int64 (inst_constant instr)
         in if a < 0 \<or> int (length (shape (operand instr ! 1))) \<le> a then None
            else if shape (operand instr ! 1) ! nat a = 1
              then operands_loop k (Suc o') False (clean_operand False o' (instr\<lparr>opcode := BH_IDENTITY\<rparr>))
            else operands_loop k (Suc o') sweep (clean_operand True o' instr))
      else operands_loop k (Suc o') sweep (clean_operand False o' instr))"

definition dimclean_instr :: "bh_instruction \<Rightarrow> bh_instruction option" where
  "dimclean_instr instr = operands_loop (bh_operands (opcode instr)) 0 (is_sweep (opcode instr)) instr"

fun dimclean_filter :: "bh_instruction list \<Rightarrow> bh_instruction list option" where
  "dimclean_filter [] = Some []"
| "dimclean_filter (instr # instrs) =
     do { instr \<leftarrow> dimclean_instr instr; instrs \<leftarrow> dimclean_filter instrs; Some (instr # instrs) }"

subsection \<open>Dimensions of length one\<close>

definition positive_shape :: "bh_view \<Rightarrow> bool" where
  "positive_shape v \<longleftrightarrow> (\<forall>i < ndim v. 0 < shape v ! i)"

definition cleaned :: "(int \<times> int) list \<Rightarrow> (int \<times> int) list" where
  "cleaned ds = (let ds' = filter (\<lambda>d. fst d \<noteq> 1) ds in if ds' = [] then take 1 ds else ds')"

lemma offsets_one_dim: "offsets (ds @ (1, s) # ds') = offsets (ds @ ds')"
  by (induction ds) (auto simp: map_idI)

lemma offsets_drop_ones: "offsets (filter (\<lambda>d. fst d \<noteq> 1) ds) = offsets ds"
proof (induction ds)
  case (Cons d ds)
  then show ?case using offsets_one_dim [of "[]" "snd d" ds] by (cases d) auto
qed simp

lemma offsets_cleaned: "offsets (cleaned ds) = offsets ds"
proof (cases "filter (\<lambda>d. fst d \<noteq> 1) ds = []")
  case True
  then have "offsets ds = [0]" using offsets_drop_ones [of ds] by simp
  moreover have "offsets (take 1 ds) = [0]"
    using True by (cases ds) (auto simp: filter_empty_conv split: if_splits)
  ultimately show ?thesis using True by (simp add: cleaned_def)
qed (simp add: cleaned_def offsets_drop_ones)

definition dims_from :: "nat \<Rightarrow> nat \<Rightarrow> bh_view \<Rightarrow> (int \<times> int) list" where
  "dims_from i k v = map (\<lambda>j. (shape v ! j, stride v ! j)) [i..<i + k]"

definition no_ones :: "(int \<times> int) list \<Rightarrow> (int \<times> int) list" where
  "no_ones ds = filter (\<lambda>d. fst d \<noteq> 1) ds"

lemma dims_from_Suc: "dims_from i (Suc k) v = (shape v ! i, stride v ! i) # dims_from (Suc i) k v"
  by (simp add: dims_from_def upt_conv_Cons del: upt_Suc)

lemma no_ones_simps [simp]: "no_ones [] = []" "no_ones (d # ds) = (if fst d = 1 then no_ones ds else d # no_ones ds)"
  by (simp_all add: no_ones_def)

lemma dims_from_cong:
  "(\<And>j. i \<le> j \<Longrightarrow> shape v ! j = shape w ! j \<and> stride v ! j = stride w ! j) \<Longrightarrow> dims_from i k v = dims_from i k w"
  by (simp add: dims_from_def)

lemma view_dims_from: "wf_view v \<Longrightarrow> view_dims v = dims_from 0 (ndim v) v"
  by (rule nth_equalityI) (simp_all add: length_view_dims view_dims_nth dims_from_def)

text \<open>What the loop leaves of the view: the written dimensions, then the remaining ones that are not of length one.\<close>

definition view_cleaned :: "nat \<Rightarrow> nat \<Rightarrow> (int \<times> int) list \<Rightarrow> bh_view \<Rightarrow> bh_view \<Rightarrow> bool" where
  "view_cleaned k ii rest v v' \<longleftrightarrow> base v' = base v \<and> start v' = start v \<and>
     length (shape v') = length (shape v) \<and> length (stride v') = length (stride v) \<and>
     ndim v' = max 1 (ndim v - (k - length rest)) \<and>
     dims_from 0 (ii + length rest) v' = dims_from 0 ii v @ rest \<and>
     (rest = [] \<longrightarrow> shape v' = shape v \<and> stride v' = stride v)"

lemma dims_from_upd:
  assumes "ii < length (shape v)" and "ii < length (stride v)"
  shows "dims_from 0 (Suc ii) (v\<lparr>shape := (shape v)[ii := a], stride := (stride v)[ii := b]\<rparr>) = dims_from 0 ii v @ [(a, b)]"
  using assms by (simp add: dims_from_def)

lemma length_no_ones: "length (no_ones (dims_from i k v)) \<le> k"
  using length_filter_le [of "\<lambda>d. fst d \<noteq> 1" "dims_from i k v"] by (simp add: no_ones_def dims_from_def)

lemma dims_loop_view:
  assumes "i + k \<le> length (shape v)" and "i + k \<le> length (stride v)" and "ii \<le> i" and "1 \<le> ndim v"
    and "\<forall>j. i \<le> j \<and> j < i + k \<longrightarrow> 0 < shape v ! j"
  shows "view_cleaned k ii (no_ones (dims_from i k v)) v (fst (dims_loop axis k i ii v instr)) \<and>
    opcode (snd (dims_loop axis k i ii v instr)) = opcode instr \<and> operand (snd (dims_loop axis k i ii v instr)) = operand instr"
  using assms
proof (induction k arbitrary: i ii v instr)
  case 0
  then show ?case by (simp add: view_cleaned_def dims_from_def)
next
  case (Suc k)
  let ?rest = "no_ones (dims_from (Suc i) k v)"
  have pos: "shape v ! i \<noteq> 0" using Suc.prems(5) by (metis add_Suc_right le_add1 le_refl less_Suc_eq_le less_irrefl)
  have len: "length ?rest \<le> k" by (rule length_no_ones)
  consider (one) "shape v ! i = 1" | (copy) "shape v ! i \<noteq> 1" "ii < i" | (keep) "shape v ! i \<noteq> 1" "ii = i"
    using Suc.prems(3) by linarith
  then show ?case
  proof cases
    case one
    define v1 where "v1 = (if 1 < ndim v then v\<lparr>ndim := ndim v - 1\<rparr> else v)"
    define i1 where "i1 = (if axis \<and> int ii < constant_int64 (inst_constant instr) then decrement_axis instr else instr)"
    have same: "dims_from (Suc i) k v1 = dims_from (Suc i) k v" "dims_from 0 ii v1 = dims_from 0 ii v" "shape v1 = shape v" "stride v1 = stride v"
      "base v1 = base v" "start v1 = start v" "opcode i1 = opcode instr" "operand i1 = operand instr"
      by (simp_all add: v1_def i1_def dims_from_def decrement_axis_def)
    have nd: "1 \<le> ndim v1" "max 1 (ndim v1 - (k - length ?rest)) = max 1 (ndim v - (Suc k - length ?rest))"
      using Suc.prems(4) len by (auto simp: v1_def)
    have step: "dims_loop axis (Suc k) i ii v instr = dims_loop axis k (Suc i) ii v1 i1" using one by (simp add: v1_def i1_def)
    have "view_cleaned k ii ?rest v1 v' \<Longrightarrow> view_cleaned (Suc k) ii ?rest v v'" for v'
      unfolding view_cleaned_def same nd by blast
    moreover have "no_ones (dims_from i (Suc k) v) = ?rest" using one by (simp add: dims_from_Suc)
    ultimately show ?thesis
      using Suc.IH [of "Suc i" v1 ii i1] Suc.prems nd(1) unfolding step same by auto
  next
    case copy
    let ?v = "v\<lparr>shape := (shape v)[ii := shape v ! i], stride := (stride v)[ii := stride v ! i]\<rparr>"
    have same: "dims_from (Suc i) k ?v = dims_from (Suc i) k v" 
      by (rule dims_from_cong) (use copy in simp)
    have upd: "dims_from 0 (Suc ii) ?v = dims_from 0 ii v @ [(shape v ! i, stride v ! i)]"
      using Suc.prems(1-3) by (intro dims_from_upd) linarith+
    have "view_cleaned k (Suc ii) ?rest ?v v' \<Longrightarrow> view_cleaned (Suc k) ii ((shape v ! i, stride v ! i) # ?rest) v v'" for v'
      using len unfolding view_cleaned_def upd by simp
    then show ?thesis
      using Suc.IH [of "Suc i" ?v "Suc ii" instr] Suc.prems copy pos unfolding dims_from_Suc same by simp
  next
    case keep
    have "dims_from 0 (Suc ii) v = dims_from 0 ii v @ [(shape v ! i, stride v ! i)]" using keep by (simp add: dims_from_def)
    then have "view_cleaned k (Suc ii) ?rest v v' \<Longrightarrow> view_cleaned (Suc k) ii ((shape v ! i, stride v ! i) # ?rest) v v'" for v'
      using len unfolding view_cleaned_def by simp
    then show ?thesis using Suc.IH [of "Suc i" v "Suc ii" instr] Suc.prems keep pos unfolding dims_from_Suc by simp
  qed
qed

subsection \<open>The axis of a sweep\<close>

lemma constant_int64_put:
  assumes "- (2 ^ 63) \<le> x" and "x < 2 ^ 63"
  shows "constant_int64 (put_value 8 (le_bytes 8 x) c) = x"
proof -
  have "take 8 (cvalue (put_value 8 (le_bytes 8 x) c)) = le_bytes 8 x" by (simp add: put_value_def)
  then have "constant_int64 (put_value 8 (le_bytes 8 x) c) = sint (word_of_int (x mod 2 ^ 64) :: 64 word)"
    by (simp add: constant_int64_def le_value_le_bytes)
  also have "\<dots> = signed_take_bit 63 (take_bit 64 x)" by (simp add: sint_sbintrunc' take_bit_eq_mod)
  also have "\<dots> = x" using assms by (simp add: signed_take_bit_take_bit signed_take_bit_int_eq_self)
  finally show ?thesis .
qed

lemma decrement_axis_value:
  "0 < constant_int64 (inst_constant instr) \<Longrightarrow>
   constant_int64 (inst_constant (decrement_axis instr)) = constant_int64 (inst_constant instr) - 1"
proof -
  assume a: "0 < constant_int64 (inst_constant instr)"
  have "constant_int64 (inst_constant instr) < 2 ^ 63"
    using sint_lt [of "word_of_int (le_value (take 8 (cvalue (inst_constant instr)))) :: 64 word"] by (simp add: constant_int64_def)
  then show ?thesis using a by (simp add: decrement_axis_def constant_int64_put)
qed

text \<open>While the loop stands at dimension \<open>i\<close>, the axis \<open>a\<close> is a written dimension or the dimension \<open>i + (a - ii)\<close> to come.\<close>

lemma dims_loop_axis:
  assumes "constant_int64 (inst_constant instr) = int a" and "ii \<le> i" and "\<forall>j. i \<le> j \<and> j < i + k \<longrightarrow> 0 < shape v ! j"
    and "a < ii \<or> a - ii < k \<and> shape v ! (i + (a - ii)) \<noteq> 1" 
    and "i + k \<le> length (shape v)"
  shows "constant_int64 (inst_constant (snd (dims_loop True k i ii v instr))) =
    (if a < ii then int a else int (ii + length (no_ones (dims_from i (a - ii) v))))"
  using assms
proof (induction k arbitrary: i ii v instr a)
  case 0
  then show ?case by simp
next
  case (Suc k)
  have pos: "shape v ! i \<noteq> 0" using Suc.prems(3) by (metis add_Suc_right le_add1 le_refl less_Suc_eq_le less_irrefl)
  show ?case
  proof (cases "shape v ! i = 1")
    case True
    define v1 where "v1 = (if 1 < ndim v then v\<lparr>ndim := ndim v - 1\<rparr> else v)"
    have sv: "shape v1 = shape v" "dims_from j l v1 = dims_from j l v" for j l by (simp_all add: v1_def dims_from_def)
    show ?thesis
    proof (cases "ii < a")
      case gt: True
      then have c: "constant_int64 (inst_constant (decrement_axis instr)) = int (a - 1)"
        using Suc.prems(1) by (subst decrement_axis_value) simp_all
      have step: "dims_loop True (Suc k) i ii v instr = dims_loop True k (Suc i) ii v1 (decrement_axis instr)"
        using True gt Suc.prems(1) by (simp add: v1_def)
      obtain m where m: "a = Suc (ii + m)" using gt less_imp_Suc_add by blast
      have "dims_from i (a - ii) v = (shape v ! i, stride v ! i) # dims_from (Suc i) (a - 1 - ii) v"
        using m by (simp add: dims_from_Suc)
      then show ?thesis
        using Suc.IH [OF c, of ii "Suc i" v1] Suc.prems True gt m unfolding step sv by simp
    next
      case False
      have "a \<noteq> ii" using Suc.prems(4) True by auto
      then have "a < ii" using False by simp
      moreover have "dims_loop True (Suc k) i ii v instr = dims_loop True k (Suc i) ii v1 instr"
        using True False Suc.prems(1) by (simp add: v1_def)
      ultimately show ?thesis using Suc.IH [OF Suc.prems(1), of ii "Suc i" v1] Suc.prems by (simp add: sv)
    qed
  next
    case False
    define v1 where "v1 = (if ii < i then v\<lparr>shape := (shape v)[ii := shape v ! i], stride := (stride v)[ii := stride v ! i]\<rparr> else v)"
    have step: "dims_loop True (Suc k) i ii v instr = dims_loop True k (Suc i) (Suc ii) v1 instr" using False pos by (simp add: v1_def)
    have sv: "i < j \<Longrightarrow> shape v1 ! j = shape v ! j" "length (shape v1) = length (shape v)" for j by (auto simp: v1_def)
    have dv: "dims_from (Suc i) l v1 = dims_from (Suc i) l v" for l by (rule dims_from_cong) (auto simp: v1_def)
    note IH = Suc.IH [OF Suc.prems(1), of "Suc ii" "Suc i" v1]
    consider "a < ii" | "a = ii" | m where "a = Suc (ii + m)" by (metis less_imp_Suc_add linorder_neqE_nat)
    then show ?thesis
    proof cases
      case 3
      then have "dims_from i (a - ii) v = (shape v ! i, stride v ! i) # dims_from (Suc i) m v" by (simp add: dims_from_Suc)
      then show ?thesis using IH Suc.prems False 3 unfolding step dv by (simp add: sv)
    qed (use IH Suc.prems in \<open>simp_all add: sv step dims_from_def del: dims_loop.simps\<close>)
  qed
qed

subsection \<open>Instructions\<close>

definition operand_ok :: "bh_view \<Rightarrow> bool" where
  "operand_ok v \<longleftrightarrow> bh_is_constant v \<or> wf_view v \<and> 0 < ndim v \<and> positive_shape v"

definition same_elements :: "bh_view \<Rightarrow> bh_view \<Rightarrow> bool" where
  "same_elements v v' \<longleftrightarrow> base v' = base v \<and> (if bh_is_constant v then v' = v else view_dims v' = cleaned (view_dims v) \<and> start v' = start v)"

lemma same_elements_offsets: "same_elements v v' \<Longrightarrow> base v' = base v \<and> (bh_is_constant v \<or> view_offsets v' = view_offsets v)"
  by (auto simp: same_elements_def view_offsets_def offsets_cleaned split: if_splits)

lemma dims_loop_dims:
  assumes "wf_view v" and "0 < ndim v" and "positive_shape v"
  shows "view_dims (fst (dims_loop axis (ndim v) 0 0 v instr)) = cleaned (view_dims v)"
proof -
  let ?v = "fst (dims_loop axis (ndim v) 0 0 v instr)" and ?rest = "no_ones (dims_from 0 (ndim v) v)"
  have "view_cleaned (ndim v) 0 ?rest v ?v"
    using dims_loop_view [of 0 "ndim v" v 0 axis instr] assms by (auto simp: wf_view_def positive_shape_def)
  then have c: "ndim ?v = max 1 (length ?rest)" "dims_from 0 (length ?rest) ?v = ?rest"
      "?rest = [] \<longrightarrow> shape ?v = shape v \<and> stride ?v = stride v" "length (shape ?v) = length (shape v)" "length (stride ?v) = length (stride v)"
    using length_no_ones [of 0 "ndim v" v] by (auto simp: view_cleaned_def dims_from_def)
  have wf: "wf_view ?v" using assms(1,2) c(1,4,5) length_no_ones [of 0 "ndim v" v] by (auto simp: wf_view_def)
  show ?thesis
  proof (cases "?rest = []")
    case True
    then have "view_dims ?v = dims_from 0 1 v" using c(1,3) view_dims_from [OF wf] by (simp add: dims_from_def)
    moreover have "dims_from 0 1 v = take 1 (dims_from 0 (ndim v) v)" using assms(2) by (simp add: dims_from_def take_map)
    ultimately show ?thesis using True view_dims_from [OF assms(1)] by (simp add: cleaned_def no_ones_def)
  next
    case False
    then have "max 1 (length ?rest) = length ?rest" by (cases ?rest) auto
    then have "view_dims ?v = ?rest" using c(1,2) view_dims_from [OF wf] by simp
    then show ?thesis using False view_dims_from [OF assms(1)] by (simp add: cleaned_def no_ones_def)
  qed
qed

lemma dims_loop_constant: "inst_constant (snd (dims_loop False k i ii v instr)) = inst_constant instr"
  by (induction "False" k i ii v instr rule: dims_loop.induct) auto

lemma clean_operand_ok:
  assumes "operand_ok (operand instr ! t)" and "t < length (operand instr)"
  obtains v' where "operand (clean_operand axis t instr) = (operand instr)[t := v']" and "same_elements (operand instr ! t) v'"
    and "opcode (clean_operand axis t instr) = opcode instr" and "\<not> axis \<Longrightarrow> inst_constant (clean_operand axis t instr) = inst_constant instr"
proof (cases "bh_is_constant (operand instr ! t)")
  case True
  then have "clean_operand axis t instr = instr" by (simp add: clean_operand_def bh_is_constant_def)
  then show thesis by (intro that [of "operand instr ! t"]) (use True in \<open>simp_all add: same_elements_def\<close>)
next
  case False
  let ?v = "operand instr ! t"
  let ?r = "dims_loop axis (ndim ?v) 0 0 ?v instr"
  have ok: "wf_view ?v" "0 < ndim ?v" "positive_shape ?v" using assms(1) False by (simp_all add: operand_ok_def)
  have l: "view_cleaned (ndim ?v) 0 (no_ones (dims_from 0 (ndim ?v) ?v)) ?v (fst ?r)" "opcode (snd ?r) = opcode instr" "operand (snd ?r) = operand instr"
    using dims_loop_view [of 0 "ndim ?v" ?v 0 axis instr] ok by (auto simp: wf_view_def positive_shape_def)
  have "clean_operand axis t instr = (snd ?r)\<lparr>operand := (operand (snd ?r))[t := fst ?r]\<rparr>"
    using False by (simp add: clean_operand_def bh_is_constant_def Let_def split_beta)
  moreover have "same_elements ?v (fst ?r)"
    using l(1) False dims_loop_dims [OF ok] by (simp add: same_elements_def view_cleaned_def)
  ultimately show thesis by (intro that [of "fst ?r"]) (use l dims_loop_constant in auto)
qed

text \<open>An instruction with the elements of another: each of the first operands visits the same elements in the same order.\<close>

definition same_operands :: "nat \<Rightarrow> bh_instruction \<Rightarrow> bh_instruction \<Rightarrow> bool" where
  "same_operands n instr instr' \<longleftrightarrow> length (operand instr') = length (operand instr) \<and>
     (\<forall>t < n. same_elements (operand instr ! t) (operand instr' ! t)) \<and> (\<forall>t. n \<le> t \<longrightarrow> operand instr' ! t = operand instr ! t)"

lemma operands_loop_plain:
  assumes "n + k \<le> length (operand instr)" and "\<forall>t < n + k. operand_ok (operand instr ! t)"
    and "same_operands n instr instr1" and "\<not> sweep \<or> 1 < n"
  shows "\<exists>instr'. operands_loop k n sweep instr1 = Some instr' \<and> same_operands (n + k) instr instr' \<and>
    opcode instr' = opcode instr1 \<and> inst_constant instr' = inst_constant instr1"
  using assms
proof (induction k arbitrary: n instr1)
  case (Suc k)
  have t: "n < length (operand instr1)" "operand_ok (operand instr1 ! n)" "operand instr1 ! n = operand instr ! n"
    using Suc.prems by (simp_all add: same_operands_def)
  obtain v' where c: "operand (clean_operand False n instr1) = (operand instr1)[n := v']" "same_elements (operand instr1 ! n) v'"
    "opcode (clean_operand False n instr1) = opcode instr1" "inst_constant (clean_operand False n instr1) = inst_constant instr1"
    using clean_operand_ok [OF t(2,1), of False] by blast
  have "same_operands (Suc n) instr (clean_operand False n instr1)"
    using Suc.prems(3) c(1,2) t by (auto simp: same_operands_def less_Suc_eq nth_list_update)
  then show ?case using Suc.IH [of "Suc n" "clean_operand False n instr1"] Suc.prems c(3,4) by auto
qed simp

lemma same_operands_0: "same_operands 0 instr instr"
  by (simp add: same_operands_def)

definition instr_clean :: "bh_instruction \<Rightarrow> bool" where
  "instr_clean instr \<longleftrightarrow> bh_operands (opcode instr) \<le> length (operand instr) \<and>
     (\<forall>t < bh_operands (opcode instr). operand_ok (operand instr ! t))"

lemma dimclean_plain:
  assumes "instr_clean instr" and "\<not> is_sweep (opcode instr)"
  shows "\<exists>instr'. dimclean_instr instr = Some instr' \<and> same_operands (bh_operands (opcode instr)) instr instr' \<and>
    opcode instr' = opcode instr \<and> inst_constant instr' = inst_constant instr"
  using operands_loop_plain [of 0 "bh_operands (opcode instr)" instr instr False] assms
  by (simp add: dimclean_instr_def instr_clean_def same_operands_0)

text \<open>Execution depends only on the elements the operands visit.\<close>

lemma exec_same_operands:
  assumes "same_operands (bh_operands (opcode instr)) instr instr'" and "opcode instr' = opcode instr"
    and "inst_constant instr' = inst_constant instr" and "0 < bh_operands (opcode instr)" and "\<not> bh_is_constant (operand instr ! 0)"
  shows "exec_instr f c instr' m = exec_instr f c instr m"
proof -
  have e: "base (operand instr' ! t) = base (operand instr ! t) \<and> (bh_is_constant (operand instr ! t) \<or>
      view_offsets (operand instr' ! t) = view_offsets (operand instr ! t))" if "t < bh_operands (opcode instr)" for t
    using assms(1) that same_elements_offsets by (simp add: same_operands_def)
  then have const: "bh_is_constant (operand instr' ! t) = bh_is_constant (operand instr ! t)"
    if "t < bh_operands (opcode instr)" for t using e [OF that] by (simp add: bh_is_constant_def)
  have el: "element (operand instr' ! t) k = element (operand instr ! t) k"
    if "t < bh_operands (opcode instr)" and "\<not> bh_is_constant (operand instr ! t)" for t k
    using e [OF that(1)] that(2) by (simp add: element_def)
  have "exec_elem f c instr' k m = exec_elem f c instr k m" for k m
    unfolding exec_elem_def assms(2,3) el [OF assms(4,5)]
    by (intro arg_cong [where f = "\<lambda>x. m (_ := f _ x)"] map_cong) (auto simp: const el)
  moreover have "view_offsets (operand instr' ! 0) = view_offsets (operand instr ! 0)" using e [OF assms(4)] assms(5) by blast
  ultimately show ?thesis unfolding exec_instr_def by (metis (no_types) ext)
qed

lemma nth_no_ones:
  assumes "a < length ds" and "fst (ds ! a) \<noteq> 1"
  shows "length (no_ones (take a ds)) < length (no_ones ds)" and "no_ones ds ! length (no_ones (take a ds)) = ds ! a"
proof -
  have "no_ones ds = no_ones (take a ds) @ ds ! a # no_ones (drop (Suc a) ds)"
    using assms by (subst id_take_nth_drop [of a ds]) (simp_all add: no_ones_def)
  then show "length (no_ones (take a ds)) < length (no_ones ds)" "no_ones ds ! length (no_ones (take a ds)) = ds ! a" by simp_all
qed

text \<open>A sweep over a dimension of length one becomes a copy; any other keeps sweeping over the same dimension.\<close>

lemma sweep_cleaned:
  assumes "instr_clean instr" and "is_sweep (opcode instr)" and "\<not> bh_is_constant (operand instr ! 1)"
    and "constant_int64 (inst_constant instr) = int a" and "a < ndim (operand instr ! 1)"
  shows "\<exists>instr'. dimclean_instr instr = Some instr' \<and> same_operands (bh_operands (opcode instr)) instr instr' \<and>
    (if shape (operand instr ! 1) ! a = 1 then opcode instr' = BH_IDENTITY
     else opcode instr' = opcode instr \<and> (\<exists>a'. constant_int64 (inst_constant instr') = int a' \<and> a' < ndim (operand instr' ! 1) \<and>
       view_dims (operand instr' ! 1) ! a' = view_dims (operand instr ! 1) ! a))"
proof -
  have n: "bh_operands (opcode instr) = 3" using sweep_operands [OF assms(2)] by simp
  have ok: "operand_ok (operand instr ! t)" "t < length (operand instr)" if "t < 3" for t
    using assms(1) that by (auto simp: instr_clean_def n)
  obtain v0 where c0: "operand (clean_operand False 0 instr) = (operand instr)[0 := v0]" "same_elements (operand instr ! 0) v0"
    "opcode (clean_operand False 0 instr) = opcode instr" "inst_constant (clean_operand False 0 instr) = inst_constant instr"
    using clean_operand_ok [OF ok(1) ok(2), of 0 False] by auto
  define i0 where "i0 = clean_operand False 0 instr"
  note c0 = c0 [folded i0_def]
  have op1: "operand i0 ! 1 = operand instr ! 1" using c0(1) by simp
  have len: "length (operand i0) = length (operand instr)" using c0(1) by simp
  have so0: "same_operands 1 instr i0" using c0(1,2) ok(2) [of 0] by (auto simp: same_operands_def)
  have wf: "wf_view (operand instr ! 1)" "positive_shape (operand instr ! 1)" using ok(1) [of 1] assms(3) by (simp_all add: operand_ok_def)
  then have a: "a < length (shape (operand instr ! 1))" using assms(5) by (simp add: wf_view_def)
  define one where "one \<longleftrightarrow> shape (operand instr ! 1) ! a = 1"
  define i1 where "i1 = (if one then i0\<lparr>opcode := BH_IDENTITY\<rparr> else i0)"
  have i1: "operand i1 = operand i0" "inst_constant i1 = inst_constant instr" "opcode i1 = (if one then BH_IDENTITY else opcode instr)"
    using c0 by (simp_all add: i1_def)
  obtain v1 where c1: "operand (clean_operand (\<not> one) 1 i1) = (operand i1)[1 := v1]" "same_elements (operand i1 ! 1) v1"
    "opcode (clean_operand (\<not> one) 1 i1) = opcode i1"
    using clean_operand_ok [of i1 1 "\<not> one"] ok [of 1] op1 len i1 by auto
  have so1: "same_operands 2 instr (clean_operand (\<not> one) 1 i1)"
    using so0 c1(1,2) ok(2) [of 1] op1 unfolding i1(1) same_operands_def by (auto simp: less_2_cases_iff nth_list_update len)
  have step: "dimclean_instr instr = operands_loop 1 2 (\<not> one) (clean_operand (\<not> one) 1 i1)"
    using n assms(2,4) a op1 c0(4) by (simp add: dimclean_instr_def numeral_3_eq_3 i0_def [symmetric] i1_def one_def numeral_2_eq_2)
  have "2 + 1 \<le> length (operand instr)" "\<forall>t < 2 + 1. operand_ok (operand instr ! t)" using ok(2) [of 2] ok(1) by simp_all
  then obtain instr' where r: "dimclean_instr instr = Some instr'" "same_operands 3 instr instr'" "opcode instr' = opcode i1"
      "inst_constant instr' = inst_constant (clean_operand (\<not> one) 1 i1)"
    using operands_loop_plain [of 2 1 instr "clean_operand (\<not> one) 1 i1" "\<not> one", OF _ _ so1] c1(3)
    unfolding step [symmetric] by auto
  moreover have "\<exists>a'. constant_int64 (inst_constant instr') = int a' \<and> a' < ndim (operand instr' ! 1) \<and>
       view_dims (operand instr' ! 1) ! a' = view_dims (operand instr ! 1) ! a" if no: "\<not> one"
  proof -
    let ?v = "operand instr ! 1" and ?ds = "view_dims (operand instr ! 1)"
    have i10: "i1 = i0" using no by (simp add: i1_def)
    have "inst_constant (clean_operand True 1 i0) = inst_constant (snd (dims_loop True (ndim ?v) 0 0 ?v i0))"
      using assms(3) by (simp add: clean_operand_def op1 [simplified] bh_is_constant_def Let_def split_beta)
    then have "constant_int64 (inst_constant instr') = int (length (no_ones (dims_from 0 a ?v)))"
      using dims_loop_axis [of i0 a 0 0 "ndim ?v" ?v] assms(4,5) c0(4) wf no r(4) i10
      by (simp add: positive_shape_def wf_view_def one_def)
    moreover have ds: "dims_from 0 a ?v = take a ?ds" "a < length ?ds" "fst (?ds ! a) \<noteq> 1"
      using assms(5) wf(1) no by (simp_all add: view_dims_from dims_from_def take_map one_def)
    moreover have "cleaned ?ds = no_ones ?ds" using nth_no_ones(1) [OF ds(2,3)] by (auto simp: cleaned_def no_ones_def Let_def)
    then have "view_dims (operand instr' ! 1) = no_ones ?ds" using r(2) assms(3) by (simp add: same_operands_def same_elements_def)
    moreover have "length (view_dims (operand instr' ! 1)) \<le> ndim (operand instr' ! 1)" by (simp add: view_dims_def)
    ultimately show ?thesis using nth_no_ones [OF ds(2,3)] by (intro exI [of _ "length (no_ones (dims_from 0 a ?v))"]) simp
  qed
  ultimately show ?thesis using i1(3) n by (auto simp: one_def)
qed

subsection \<open>The filter preserves the program\<close>

definition elementwise_instr :: "bh_instruction \<Rightarrow> bool" where
  "elementwise_instr instr \<longleftrightarrow> instr_clean instr \<and> \<not> is_sweep (opcode instr) \<and>
     0 < bh_operands (opcode instr) \<and> \<not> bh_is_constant (operand instr ! 0)"

lemma dimclean_exec:
  assumes "elementwise_instr instr"
  shows "\<exists>instr'. dimclean_instr instr = Some instr' \<and> (\<forall>f c. exec_instr f c instr' = exec_instr f c instr)"
  using assms dimclean_plain [of instr] exec_same_operands [of instr] unfolding elementwise_instr_def by blast

text \<open>
  C14. The dimension filter (dimclean) applied to a list of element-wise instructions on non-empty views returns, and
  the list it leaves has the effect of the original one: executed in order from any memory, with any meaning of the
  opcodes and of the constants, both end in the same memory.
\<close>

theorem dimclean_preserves_program:
  assumes "\<forall>instr \<in> set instrs. elementwise_instr instr"
  shows "\<exists>instrs'. dimclean_filter instrs = Some instrs' \<and> length instrs' = length instrs \<and>
    (\<forall>(f :: bh_opcode \<Rightarrow> 'v list \<Rightarrow> 'v) c m. fold (exec_instr f c) instrs' m = fold (exec_instr f c) instrs m)"
  using assms
proof (induction instrs)
  case (Cons instr instrs)
  obtain instr' where "dimclean_instr instr = Some instr'" "\<forall>(f :: bh_opcode \<Rightarrow> 'v list \<Rightarrow> 'v) c. exec_instr f c instr' = exec_instr f c instr"
    using dimclean_exec [of instr] Cons.prems by auto
  moreover obtain instrs' where "dimclean_filter instrs = Some instrs'" "length instrs' = length instrs"
    "\<forall>(f :: bh_opcode \<Rightarrow> 'v list \<Rightarrow> 'v) c m. fold (exec_instr f c) instrs' m = fold (exec_instr f c) instrs m" using Cons by auto
  ultimately show ?case by (intro exI [of _ "instr' # instrs'"]) simp
qed simp

text \<open>\<^verbatim>\<open>A = B + B\<close> where both are arrays of shape one by three by one.\<close>

definition thin_view :: "ptr \<Rightarrow> bh_view" where
  "thin_view p = mk_view p 0 [(1, 3), (3, 1), (1, 1)]"

lemma thin_view_ok: "p \<noteq> NULL \<Longrightarrow> operand_ok (thin_view p) \<and> \<not> bh_is_constant (thin_view p)"
  by (auto simp: operand_ok_def thin_view_def mk_view_def wf_view_def positive_shape_def bh_is_constant_def BH_MAXDIM_def
      less_Suc_eq)

theorem dimclean_preserves_program_witness:
  "\<exists>instrs'. dimclean_filter [instr3 BH_ADD (thin_view 1) (thin_view 2) (thin_view 2)] = Some instrs' \<and>
     length instrs' = length [instr3 BH_ADD (thin_view 1) (thin_view 2) (thin_view 2)] \<and>
     (\<forall>(f :: bh_opcode \<Rightarrow> int list \<Rightarrow> int) c m. fold (exec_instr f c) instrs' m =
        fold (exec_instr f c) [instr3 BH_ADD (thin_view 1) (thin_view 2) (thin_view 2)] m)"
  by (rule dimclean_preserves_program)
    (use bh_operands_3 thin_view_ok in \<open>simp add: elementwise_instr_def instr_clean_def all_less_3 bh_opcode_is_sweep_def
      opcode_eval instr3_def\<close>)

text \<open>
  A sweep (reduction or accumulation) over a dimension of length one becomes a copy, and one over another
  dimension stays a sweep with the same opcode whose axis, renumbered, is the dimension of the same length and stride
  in the smaller view. In both cases every operand visits the same elements in the same order.
\<close>

theorem dimclean_sweep:
  assumes "instr_clean instr" and "is_sweep (opcode instr)" and "\<not> bh_is_constant (operand instr ! 1)"
    and "constant_int64 (inst_constant instr) = int a" and "a < ndim (operand instr ! 1)"
  shows "\<exists>instr'. dimclean_instr instr = Some instr' \<and>
    (\<forall>t < 3. bh_is_constant (operand instr ! t) \<or> view_offsets (operand instr' ! t) = view_offsets (operand instr ! t)) \<and>
    (if shape (operand instr ! 1) ! a = 1 then opcode instr' = BH_IDENTITY
     else opcode instr' = opcode instr \<and> (\<exists>a'. constant_int64 (inst_constant instr') = int a' \<and> a' < ndim (operand instr' ! 1) \<and>
       view_dims (operand instr' ! 1) ! a' = view_dims (operand instr ! 1) ! a))"
  using sweep_cleaned [OF assms] sweep_operands [OF assms(2)] same_elements_offsets by (fastforce simp: same_operands_def)

definition thin_sum :: bh_instruction where
  "thin_sum = \<lparr>opcode = BH_ADD_REDUCE, operand = [mk_view 1 0 [(1, 1), (1, 1)], thin_view 2, mk_view NULL 0 []],
     inst_constant = \<lparr>cvalue = 1 # replicate 15 0, ctype = BH_INT64\<rparr>\<rparr>"

theorem dimclean_sweep_witness:
  "\<exists>instr'. dimclean_instr thin_sum = Some instr' \<and>
    (\<forall>t < 3. bh_is_constant (operand thin_sum ! t) \<or> view_offsets (operand instr' ! t) = view_offsets (operand thin_sum ! t)) \<and>
    (if shape (operand thin_sum ! 1) ! 1 = 1 then opcode instr' = BH_IDENTITY
     else opcode instr' = opcode thin_sum \<and> (\<exists>a'. constant_int64 (inst_constant instr') = int a' \<and> a' < ndim (operand instr' ! 1) \<and>
       view_dims (operand instr' ! 1) ! a' = view_dims (operand thin_sum ! 1) ! 1))"
proof (rule dimclean_sweep)
  have n: "bh_operands BH_ADD_REDUCE = 3" "is_sweep BH_ADD_REDUCE" by (simp_all add: bh_opcode_is_sweep_def opcode_eval)
  show "is_sweep (opcode thin_sum)" using n by (simp add: thin_sum_def)
  have "operand_ok (mk_view 1 0 [(1, 1), (1, 1)])"
    by (auto simp: operand_ok_def mk_view_def wf_view_def positive_shape_def BH_MAXDIM_def less_Suc_eq)
  moreover have "operand_ok (mk_view NULL 0 [])" by (simp add: operand_ok_def mk_view_def bh_is_constant_def)
  ultimately show "instr_clean thin_sum" using n(1) thin_view_ok [of 2] by (simp add: instr_clean_def thin_sum_def all_less_3)
  show "\<not> bh_is_constant (operand thin_sum ! 1)" using thin_view_ok [of 2] by (simp add: thin_sum_def)
  show "constant_int64 (inst_constant thin_sum) = int 1" by (simp add: thin_sum_def constant_int64_def eval_nat_numeral)
  show "1 < ndim (operand thin_sum ! 1)" by (simp add: thin_sum_def thin_view_def mk_view_def)
qed

end
