(* ===== verification/Flt_Bccon.thy ===== *)
theory Flt_Bccon
  imports Bh_Fuse
begin

text \<open>
  The filter \<^verbatim>\<open>filter/bccon\<close>: a chain of reductions of the same operation that ends in a scalar is contracted into one
  complete reduction. The instructions of the batch are a list that the filter updates in place; pointers into it are
  indices. \<open>heap\<close> gives the base array at an address; \<open>None\<close> is a dereference of a pointer without one.
\<close>

subsection \<open>The filter\<close>

definition opcode_none :: "nat \<Rightarrow> bh_instruction list \<Rightarrow> bh_instruction list" where
  "opcode_none i instrs = instrs[i := (instrs ! i)\<lparr>opcode := BH_NONE\<rparr>]"

definition rewrite_chain :: "nat list \<Rightarrow> nat \<Rightarrow> nat \<Rightarrow> bh_instruction list \<Rightarrow> bh_instruction list" where
  "rewrite_chain links first last' instrs =
     (let instrs = instrs[first := (instrs ! first)\<lparr>operand := (operand (instrs ! first))[0 := operand (instrs ! last') ! 0]\<rparr>];
          instrs = opcode_none last' instrs
      in fold opcode_none links instrs)"

record chain =
  reduce_opcode :: bh_opcode
  ch_first :: "nat option"
  ch_last :: "nat option"
  ch_bases :: "ptr set"
  ch_links :: "nat list"

definition chain_reset :: chain where
  "chain_reset = \<lparr>reduce_opcode = BH_NONE, ch_first = None, ch_last = None, ch_bases = {}, ch_links = []\<rparr>"

fun other_use :: "ptr set \<Rightarrow> nat \<Rightarrow> nat \<Rightarrow> bh_instruction \<Rightarrow> bool \<Rightarrow> bool" where
  "other_use bases 0 oidx instr use = use"
| "other_use bases (Suc k) oidx instr use =
     (if bh_is_constant (operand instr ! oidx) then other_use bases k (Suc oidx) instr use
      else if base (operand instr ! oidx) \<in> bases then other_use bases k (Suc oidx) instr True
      else other_use bases k (Suc oidx) instr use)"

definition out_nelem :: "(ptr \<rightharpoonup> bh_base) \<Rightarrow> bh_instruction \<Rightarrow> bh_index option" where
  "out_nelem heap instr = map_option base_nelem (heap (base (operand instr ! 0)))"

definition chain_step :: "(ptr \<rightharpoonup> bh_base) \<Rightarrow> nat \<Rightarrow> bh_instruction \<Rightarrow> chain \<Rightarrow> chain option" where
  "chain_step heap pc_chain other_instr s =
     (if \<not> other_use (ch_bases s) (bh_operands (opcode other_instr)) 0 other_instr False then Some s
      else (case out_nelem heap other_instr of None \<Rightarrow> None
        | Some nelem \<Rightarrow>
          (let gets_freed = opcode other_instr = BH_FREE;
               gets_discarded = opcode other_instr = BH_DISCARD;
               gets_reduced = opcode other_instr = reduce_opcode s;
               is_continuation = gets_freed \<or> gets_discarded \<or> gets_reduced;
               scalar_output = nelem = 1;
               s = (if \<not> is_continuation then chain_reset else s)
           in if scalar_output then Some (s\<lparr>ch_last := Some pc_chain\<rparr>)
              else Some (s\<lparr>ch_links := ch_links s @ [pc_chain],
                ch_bases := (if opcode other_instr = reduce_opcode s then insert (base (operand other_instr ! 0)) (ch_bases s)
                  else ch_bases s)\<rparr>))))"

fun chain_loop :: "(ptr \<rightharpoonup> bh_base) \<Rightarrow> bh_instruction list \<Rightarrow> nat \<Rightarrow> nat \<Rightarrow> chain \<Rightarrow> chain option" where
  "chain_loop heap instrs 0 pc_chain s = Some s"
| "chain_loop heap instrs (Suc k) pc_chain s =
     (case chain_step heap pc_chain (instrs ! pc_chain) s of None \<Rightarrow> None
      | Some s \<Rightarrow> chain_loop heap instrs k (Suc pc_chain) s)"

definition bccon_step :: "(ptr \<rightharpoonup> bh_base) \<Rightarrow> nat \<Rightarrow> bh_instruction list \<Rightarrow> bh_instruction list option" where
  "bccon_step heap pc instrs =
     (let instr = instrs ! pc
      in if \<not> bh_opcode_is_reduction (opcode instr) then Some instrs
         else (case out_nelem heap instr of None \<Rightarrow> None
           | Some nelem \<Rightarrow>
             if nelem > 1 then
               (case chain_loop heap instrs (length instrs - Suc pc) (Suc pc)
                  \<lparr>reduce_opcode = opcode instr, ch_first = Some pc, ch_last = None,
                   ch_bases = {base (operand instr ! 0)}, ch_links = []\<rparr> of None \<Rightarrow> None
                | Some s \<Rightarrow> (case (ch_first s, ch_last s) of
                    (Some first, Some last') \<Rightarrow> Some (rewrite_chain (ch_links s) first last' instrs)
                  | _ \<Rightarrow> Some instrs))
             else Some instrs))"

fun bccon_loop :: "(ptr \<rightharpoonup> bh_base) \<Rightarrow> nat \<Rightarrow> nat \<Rightarrow> bh_instruction list \<Rightarrow> bh_instruction list option" where
  "bccon_loop heap 0 pc instrs = Some instrs"
| "bccon_loop heap (Suc k) pc instrs =
     (case bccon_step heap pc instrs of None \<Rightarrow> None | Some instrs \<Rightarrow> bccon_loop heap k (Suc pc) instrs)"

definition bccon_filter :: "(ptr \<rightharpoonup> bh_base) \<Rightarrow> bh_instruction list \<Rightarrow> bh_instruction list option" where
  "bccon_filter heap instrs = bccon_loop heap (length instrs) 0 instrs"

subsection \<open>What the filter may change\<close>

lemma other_use_iff:
  "other_use bases k oidx instr use \<longleftrightarrow>
     use \<or> (\<exists>t. oidx \<le> t \<and> t < oidx + k \<and> \<not> bh_is_constant (operand instr ! t) \<and> base (operand instr ! t) \<in> bases)"
proof (induction k arbitrary: oidx use)
  case (Suc k)
  have "(\<exists>t. oidx \<le> t \<and> t < oidx + Suc k \<and> P t) \<longleftrightarrow> P oidx \<or> (\<exists>t. Suc oidx \<le> t \<and> t < Suc oidx + k \<and> P t)" for P
    by (metis Suc_leD Suc_leI add_Suc_right add_Suc_shift le_add1 le_eq_less_or_eq less_add_Suc1)
  then show ?case by (simp add: Suc.IH)
qed auto

lemma length_opcode_none [simp]: "length (opcode_none i instrs) = length instrs"
  by (simp add: opcode_none_def)

lemma length_fold_opcode_none [simp]: "length (fold opcode_none links instrs) = length instrs"
  by (induction links arbitrary: instrs) simp_all

lemma nth_opcode_none: "j < length instrs \<Longrightarrow> opcode_none i instrs ! j = (if j = i then (instrs ! j)\<lparr>opcode := BH_NONE\<rparr> else instrs ! j)"
  by (simp add: opcode_none_def nth_list_update)

lemma nth_fold_opcode_none:
  "j < length instrs \<Longrightarrow> fold opcode_none links instrs ! j = (if j \<in> set links then (instrs ! j)\<lparr>opcode := BH_NONE\<rparr> else instrs ! j)"
  by (induction links arbitrary: instrs) (auto simp: nth_opcode_none)

lemma rewrite_chain_nth:
  assumes "j < length instrs" and "first < length instrs" and "last' \<noteq> first" and "first \<notin> set links"
  shows "length (rewrite_chain links first last' instrs) = length instrs"
    and "rewrite_chain links first last' instrs ! j =
      (if j = first then (instrs ! j)\<lparr>operand := (operand (instrs ! j))[0 := operand (instrs ! last') ! 0]\<rparr>
       else if j = last' \<or> j \<in> set links then (instrs ! j)\<lparr>opcode := BH_NONE\<rparr> else instrs ! j)"
  using assms by (auto simp: rewrite_chain_def Let_def nth_fold_opcode_none nth_opcode_none nth_list_update)

text \<open>The state of the inner loop that started at \<open>pc\<close> and stands before \<open>pos\<close>.\<close>

definition links_ok :: "(ptr \<rightharpoonup> bh_base) \<Rightarrow> bh_instruction list \<Rightarrow> nat \<Rightarrow> nat \<Rightarrow> chain \<Rightarrow> bool" where
  "links_ok heap instrs pc pos s \<longleftrightarrow> ch_first s = Some pc \<and> reduce_opcode s = opcode (instrs ! pc) \<and>
     (\<forall>b \<in> ch_bases s. \<forall>B. heap b = Some B \<longrightarrow> base_nelem B \<noteq> 1) \<and>
     (\<forall>l \<in> set (ch_links s). pc < l \<and> l < pos \<and>
        (opcode (instrs ! l) = BH_FREE \<or> opcode (instrs ! l) = BH_DISCARD \<or> opcode (instrs ! l) = opcode (instrs ! pc))) \<and>
     (\<forall>l. ch_last s = Some l \<longrightarrow> pc < l \<and> l < pos \<and> opcode (instrs ! l) = opcode (instrs ! pc) \<and>
        out_nelem heap (instrs ! l) = Some 1)"

definition chain_inv :: "(ptr \<rightharpoonup> bh_base) \<Rightarrow> bh_instruction list \<Rightarrow> nat \<Rightarrow> nat \<Rightarrow> chain \<Rightarrow> bool" where
  "chain_inv heap instrs pc pos s \<longleftrightarrow> ch_first s = None \<and> ch_bases s = {} \<or> links_ok heap instrs pc pos s"

definition derefs :: "(ptr \<rightharpoonup> bh_base) \<Rightarrow> bh_instruction list \<Rightarrow> bool" where
  "derefs heap instrs \<longleftrightarrow> (\<forall>instr \<in> set instrs. 0 < bh_operands (opcode instr) \<longrightarrow> out_nelem heap instr \<noteq> None)"

lemma operands_system: "bh_operands BH_NONE = 0" "bh_operands BH_FREE = 1" "bh_operands BH_DISCARD = 1"
  "\<not> bh_opcode_is_reduction BH_NONE" "\<not> bh_opcode_is_reduction BH_FREE" "\<not> bh_opcode_is_reduction BH_DISCARD"
  by (simp_all add: opcode_eval)

lemma other_use_out:
  assumes "other_use bases (bh_operands op) 0 instr False" and "op = BH_FREE \<or> op = BH_DISCARD"
  shows "base (operand instr ! 0) \<in> bases"
  using assms operands_system(2,3) by (auto simp: other_use_iff)

lemma links_ok_last:
  assumes "links_ok heap instrs pc pos s" and "pc < pos" and "opcode (instrs ! pos) = reduce_opcode s"
    and "out_nelem heap (instrs ! pos) = Some 1"
  shows "links_ok heap instrs pc (Suc pos) (s\<lparr>ch_last := Some pos\<rparr>)"
  using assms unfolding links_ok_def by (simp add: less_Suc_eq)

lemma links_ok_link:
  assumes "links_ok heap instrs pc pos s" and "pc < pos"
    and "opcode (instrs ! pos) = BH_FREE \<or> opcode (instrs ! pos) = BH_DISCARD \<or> opcode (instrs ! pos) = reduce_opcode s"
    and "out_nelem heap (instrs ! pos) = Some n" and "n \<noteq> 1"
  shows "links_ok heap instrs pc (Suc pos) (s\<lparr>ch_links := ch_links s @ [pos],
    ch_bases := (if opcode (instrs ! pos) = reduce_opcode s then insert (base (operand (instrs ! pos) ! 0)) (ch_bases s) else ch_bases s)\<rparr>)"
  using assms unfolding links_ok_def out_nelem_def by (simp add: less_Suc_eq) auto

lemma chain_step_inv:
  assumes "chain_inv heap instrs pc pos s" and "pos < length instrs" and "pc < pos" and "derefs heap instrs"
  shows "\<exists>s'. chain_step heap pos (instrs ! pos) s = Some s' \<and> chain_inv heap instrs pc (Suc pos) s'"
proof (cases "other_use (ch_bases s) (bh_operands (opcode (instrs ! pos))) 0 (instrs ! pos) False")
  case False
  then show ?thesis using assms(1) by (auto simp: chain_step_def chain_inv_def links_ok_def intro: less_SucI)
next
  case True
  let ?i = "instrs ! pos"
  have "0 < bh_operands (opcode ?i)" using True by (auto simp: other_use_iff intro: gr0I)
  then obtain n where n: "out_nelem heap ?i = Some n" using assms(2,4) nth_mem by (fastforce simp: derefs_def)
  have ok: "links_ok heap instrs pc pos s" using assms(1) True by (auto simp: chain_inv_def other_use_iff)
  have scalar: "n \<noteq> 1" if "opcode ?i = BH_FREE \<or> opcode ?i = BH_DISCARD"
    using other_use_out [OF True that] n ok by (auto simp: links_ok_def out_nelem_def)
  show ?thesis
  proof (cases "opcode ?i = BH_FREE \<or> opcode ?i = BH_DISCARD \<or> opcode ?i = reduce_opcode s")
    case False
    moreover have "opcode ?i \<noteq> BH_NONE" using \<open>0 < bh_operands (opcode ?i)\<close> by (metis operands_system(1) less_irrefl)
    ultimately show ?thesis using True n by (simp add: chain_step_def chain_inv_def chain_reset_def Let_def)
  next
    case cont: True
    show ?thesis
    proof (cases "n = 1")
      case 1: True
      then have "opcode ?i = reduce_opcode s" using cont scalar by blast
      then have "links_ok heap instrs pc (Suc pos) (s\<lparr>ch_last := Some pos\<rparr>)" using links_ok_last [OF ok assms(3)] n 1 by simp
      then show ?thesis using True n 1 cont by (auto simp: chain_step_def chain_inv_def Let_def)
    next
      case False
      then show ?thesis using True n links_ok_link [OF ok assms(3) cont n] cont by (auto simp: chain_step_def chain_inv_def Let_def)
    qed
  qed
qed

lemma chain_loop_inv:
  assumes "chain_inv heap instrs pc pos s" and "pos + k = length instrs" and "pc < pos" and "derefs heap instrs"
  shows "\<exists>s'. chain_loop heap instrs k pos s = Some s' \<and> chain_inv heap instrs pc (length instrs) s'"
  using assms
proof (induction k arbitrary: pos s)
  case (Suc k)
  obtain s1 where "chain_step heap pos (instrs ! pos) s = Some s1" "chain_inv heap instrs pc (Suc pos) s1"
    using chain_step_inv [OF Suc.prems(1)] Suc.prems(2-4) by auto
  then show ?case using Suc.IH [of "Suc pos" s1] Suc.prems(2-4) by simp
qed simp

text \<open>A removed instruction is a reduction or releases an array; a rewritten one is a reduction that now writes the
  scalar output of a later reduction of the same kind.\<close>

definition removable :: "bh_opcode \<Rightarrow> bool" where
  "removable op \<longleftrightarrow> bh_opcode_is_reduction op \<or> op = BH_FREE \<or> op = BH_DISCARD"

definition removed :: "bh_instruction \<Rightarrow> bh_instruction \<Rightarrow> bool" where
  "removed instr instr' \<longleftrightarrow> removable (opcode instr) \<and> instr' = instr\<lparr>opcode := BH_NONE\<rparr>"

definition completes :: "(ptr \<rightharpoonup> bh_base) \<Rightarrow> bh_instruction list \<Rightarrow> nat \<Rightarrow> bh_instruction \<Rightarrow> bool" where
  "completes heap instrs i instr' \<longleftrightarrow> bh_opcode_is_reduction (opcode (instrs ! i)) \<and>
     (\<exists>j. i < j \<and> j < length instrs \<and> opcode (instrs ! j) = opcode (instrs ! i) \<and> out_nelem heap (instrs ! j) = Some 1 \<and>
        instr' = (instrs ! i)\<lparr>operand := (operand (instrs ! i))[0 := operand (instrs ! j) ! 0]\<rparr>)"

lemma links_ok_rewrite:
  assumes "links_ok heap instrs pc (length instrs) s" and "ch_last s = Some l" and "pc < length instrs"
    and "bh_opcode_is_reduction (opcode (instrs ! pc))"
  defines "instrs' \<equiv> rewrite_chain (ch_links s) pc l instrs"
  shows "length instrs' = length instrs" and "completes heap instrs pc (instrs' ! pc)"
    and "\<forall>i < length instrs. i \<noteq> pc \<longrightarrow> instrs' ! i = instrs ! i \<or> pc < i \<and> removed (instrs ! i) (instrs' ! i)"
proof -
  have l: "pc < l" "l < length instrs" "opcode (instrs ! l) = opcode (instrs ! pc)" "out_nelem heap (instrs ! l) = Some 1"
    and ks: "\<And>i. i \<in> set (ch_links s) \<Longrightarrow> pc < i \<and> removable (opcode (instrs ! i))"
    using assms(1,2,4) by (auto simp: links_ok_def removable_def)
  have "pc \<notin> set (ch_links s)" using ks by blast
  note nth = rewrite_chain_nth [of _ instrs pc l "ch_links s", folded instrs'_def, OF _ assms(3) _ this]
  show "length instrs' = length instrs" using nth(1) [of pc] l assms(3) by simp
  show "completes heap instrs pc (instrs' ! pc)" using nth(2) [of pc] l assms(3,4) by (auto simp: completes_def)
  show "\<forall>i < length instrs. i \<noteq> pc \<longrightarrow> instrs' ! i = instrs ! i \<or> pc < i \<and> removed (instrs ! i) (instrs' ! i)"
    using nth(2) l ks assms(4) by (auto simp: removed_def) (auto simp: removable_def)
qed

lemma bccon_step_frame:
  assumes "derefs heap instrs" and "pc < length instrs"
  shows "\<exists>instrs'. bccon_step heap pc instrs = Some instrs' \<and> length instrs' = length instrs \<and>
    (instrs' ! pc = instrs ! pc \<or> completes heap instrs pc (instrs' ! pc)) \<and>
    (\<forall>i < length instrs. i \<noteq> pc \<longrightarrow> instrs' ! i = instrs ! i \<or> pc < i \<and> removed (instrs ! i) (instrs' ! i))"
proof (cases "bh_opcode_is_reduction (opcode (instrs ! pc))")
  case True
  then have "0 < bh_operands (opcode (instrs ! pc))" using sweep_operands [of "opcode (instrs ! pc)"] by (simp add: bh_opcode_is_sweep_def)
  then obtain n where n: "out_nelem heap (instrs ! pc) = Some n" using assms nth_mem by (fastforce simp: derefs_def)
  show ?thesis
  proof (cases "n > 1")
    case big: True
    let ?s = "\<lparr>reduce_opcode = opcode (instrs ! pc), ch_first = Some pc, ch_last = None,
      ch_bases = {base (operand (instrs ! pc) ! 0)}, ch_links = []\<rparr>"
    have "chain_inv heap instrs pc (Suc pc) ?s" using big n by (auto simp: chain_inv_def links_ok_def out_nelem_def)
    then obtain s where s: "chain_loop heap instrs (length instrs - Suc pc) (Suc pc) ?s = Some s" "chain_inv heap instrs pc (length instrs) s"
      using chain_loop_inv [of heap instrs pc "Suc pc" ?s "length instrs - Suc pc"] assms by (metis Suc_leI add_diff_inverse_nat lessI not_less)
    show ?thesis
    proof (cases "ch_first s = None \<or> ch_last s = None")
      case True
      then have "bccon_step heap pc instrs = Some instrs" using s(1) n big by (auto simp: bccon_step_def Let_def split: option.splits)
      then show ?thesis by simp
    next
      case False
      then obtain l where l: "ch_last s = Some l" "links_ok heap instrs pc (length instrs) s" using s(2) by (auto simp: chain_inv_def)
      then have "bccon_step heap pc instrs = Some (rewrite_chain (ch_links s) pc l instrs)"
        using s(1) n big \<open>bh_opcode_is_reduction _\<close> by (simp add: bccon_step_def Let_def links_ok_def)
      moreover note rw = links_ok_rewrite [OF l(2,1) assms(2) \<open>bh_opcode_is_reduction _\<close>]
      ultimately show ?thesis using l by auto
    qed
  qed (use True n in \<open>auto simp: bccon_step_def Let_def\<close>)
qed (simp add: bccon_step_def)

definition bccon_changed :: "(ptr \<rightharpoonup> bh_base) \<Rightarrow> bh_instruction list \<Rightarrow> nat \<Rightarrow> bh_instruction list \<Rightarrow> bool" where
  "bccon_changed heap instrs pc cur \<longleftrightarrow> length cur = length instrs \<and>
     (\<forall>i < length instrs. cur ! i = instrs ! i \<or> removed (instrs ! i) (cur ! i) \<or> i < pc \<and> completes heap instrs i (cur ! i))"

lemma bccon_changed_derefs:
  assumes "derefs heap instrs" and "bccon_changed heap instrs pc cur"
  shows "derefs heap cur"
  unfolding derefs_def
proof (intro ballI impI)
  fix instr assume "instr \<in> set cur" and n: "0 < bh_operands (opcode instr)"
  then obtain i where i: "i < length instrs" "instr = cur ! i" using assms(2) by (auto simp: bccon_changed_def in_set_conv_nth)
  have d: "0 < bh_operands (opcode (instrs ! i)) \<Longrightarrow> out_nelem heap (instrs ! i) \<noteq> None" using assms(1) i(1) nth_mem by (fastforce simp: derefs_def)
  consider "cur ! i = instrs ! i" | "removed (instrs ! i) (cur ! i)" | "completes heap instrs i (cur ! i)"
    using assms(2) i(1) by (auto simp: bccon_changed_def)
  then show "out_nelem heap instr \<noteq> None"
  proof cases
    case 3
    then show ?thesis using d n i(2) by (cases "operand (instrs ! i)") (auto simp: completes_def out_nelem_def)
  qed (use d n i(2) in \<open>auto simp: removed_def operands_system\<close>)
qed

lemma bccon_changed_step:
  assumes "derefs heap instrs" and "bccon_changed heap instrs pc cur" and "pc < length instrs"
  shows "\<exists>cur'. bccon_step heap pc cur = Some cur' \<and> bccon_changed heap instrs (Suc pc) cur'"
proof -
  have len: "length cur = length instrs"
    and ch: "\<And>i. i < length instrs \<Longrightarrow> cur ! i = instrs ! i \<or> removed (instrs ! i) (cur ! i) \<or> i < pc \<and> completes heap instrs i (cur ! i)"
    using assms(2) by (auto simp: bccon_changed_def)
  obtain cur' where c: "bccon_step heap pc cur = Some cur'" "length cur' = length cur"
    "cur' ! pc = cur ! pc \<or> completes heap cur pc (cur' ! pc)"
    "\<forall>i < length cur. i \<noteq> pc \<longrightarrow> cur' ! i = cur ! i \<or> pc < i \<and> removed (cur ! i) (cur' ! i)"
    using bccon_step_frame [OF bccon_changed_derefs [OF assms(1,2)], of pc] assms(3) len by auto
  have same: "cur ! i = instrs ! i" if "i < length instrs" "pc \<le> i" "removable (opcode (cur ! i))" for i
    using ch [OF that(1)] that by (auto simp: removed_def removable_def operands_system)
  have first: "completes heap instrs pc (cur' ! pc)" if "completes heap cur pc (cur' ! pc)"
  proof -
    from that have r: "removable (opcode (cur ! pc))" "\<And>j. opcode (cur ! j) = opcode (cur ! pc) \<Longrightarrow> removable (opcode (cur ! j))"
      by (auto simp: completes_def removable_def)
    then have "cur ! pc = instrs ! pc" using same assms(3) by blast
    moreover have "cur ! j = instrs ! j" if "pc < j" "j < length instrs" "opcode (cur ! j) = opcode (cur ! pc)" for j
      using same [of j] r(2) that by simp
    ultimately show ?thesis using that len by (auto simp: completes_def)
  qed
  have link: "removed (instrs ! i) (cur' ! i)" if "i < length instrs" "pc < i" "removed (cur ! i) (cur' ! i)" for i
    using that same by (auto simp: removed_def)
  have "cur' ! i = instrs ! i \<or> removed (instrs ! i) (cur' ! i) \<or> i < Suc pc \<and> completes heap instrs i (cur' ! i)"
    if "i < length instrs" for i
  proof (cases "i = pc")
    case True
    then show ?thesis using c(3) ch [OF that] first by auto
  next
    case False
    then have "cur' ! i = cur ! i \<or> pc < i \<and> removed (cur ! i) (cur' ! i)" using c(4) that len by simp
    then show ?thesis using ch [OF that] link [OF that] less_SucI by metis
  qed
  then show ?thesis using c(1,2) len by (auto simp: bccon_changed_def)
qed

lemma bccon_loop_frame:
  assumes "derefs heap instrs" and "bccon_changed heap instrs pc cur" and "pc + k = length instrs"
  shows "\<exists>cur'. bccon_loop heap k pc cur = Some cur' \<and> bccon_changed heap instrs (length instrs) cur'"
  using assms(2,3)
proof (induction k arbitrary: pc cur)
  case (Suc k)
  obtain cur' where "bccon_step heap pc cur = Some cur'" "bccon_changed heap instrs (Suc pc) cur'"
    using bccon_changed_step [OF assms(1) Suc.prems(1)] Suc.prems(2) by auto
  then show ?case using Suc.IH [of "Suc pc" cur'] Suc.prems(2) by simp
qed simp

text \<open>
  The contraction of reduction chains (bccon) returns on every batch whose output operands have a base array. It
  keeps the length and order of the batch; every instruction either stays as it is, or is a reduction, BH_FREE or
  BH_DISCARD and becomes BH_NONE, or is a reduction and gets the scalar output of a later reduction of the same kind.
\<close>

theorem bccon_filter_frame:
  assumes "derefs heap instrs"
  shows "\<exists>instrs'. bccon_filter heap instrs = Some instrs' \<and> length instrs' = length instrs \<and>
    (\<forall>i < length instrs. instrs' ! i = instrs ! i \<or> removed (instrs ! i) (instrs' ! i) \<or> completes heap instrs i (instrs' ! i))"
  using bccon_loop_frame [OF assms, of 0 instrs "length instrs"] by (auto simp: bccon_filter_def bccon_changed_def)

subsection \<open>Contraction of a chain\<close>

text \<open>What a reduction computes, over a commutative monoid: with a scalar output the combination of all elements of the
  input view, otherwise one combination along the axis for every element of the output.\<close>

definition drop_axis :: "nat \<Rightarrow> 'a list \<Rightarrow> 'a list" where
  "drop_axis a ds = take a ds @ drop (Suc a) ds"

definition axis_sum :: "bh_view \<Rightarrow> nat \<Rightarrow> 'v::comm_monoid_add memory \<Rightarrow> nat \<Rightarrow> 'v" where
  "axis_sum v a m k = (let (n, s) = view_dims v ! a
     in \<Sum>j\<leftarrow>[0..n - 1]. m (base v, start v + (offsets (drop_axis a (view_dims v)) ! k + j * s)))"

definition view_sum :: "bh_view \<Rightarrow> 'v::comm_monoid_add memory \<Rightarrow> 'v" where
  "view_sum v m = (\<Sum>p\<leftarrow>view_offsets v. m (base v, p))"

definition exec_reduce :: "bh_instruction \<Rightarrow> 'v::comm_monoid_add memory \<Rightarrow> 'v memory" where
  "exec_reduce instr m =
     (let out = operand instr ! 0; v = operand instr ! 1
      in if length (view_offsets out) = 1 then m(element out 0 := view_sum v m)
         else fold (\<lambda>k m'. m'(element out k := axis_sum v (nat (constant_int64 (inst_constant instr))) m k))
           [0..<length (view_offsets out)] m)"

definition exec_batch :: "bh_instruction list \<Rightarrow> 'v::comm_monoid_add memory \<Rightarrow> 'v memory" where
  "exec_batch = fold (\<lambda>instr. if bh_opcode_is_reduction (opcode instr) then exec_reduce instr else id)"

lemma sum_list_swap: "(\<Sum>x\<leftarrow>xs. \<Sum>y\<leftarrow>ys. f x y) = (\<Sum>y\<leftarrow>ys. \<Sum>x\<leftarrow>xs. f x y :: 'v::comm_monoid_add)"
  by (induction xs) (simp_all add: sum_list_addf)

lemma sum_list_concat: "sum_list (map g (concat xss)) = (\<Sum>xs\<leftarrow>xss. sum_list (map g xs) :: 'v::comm_monoid_add)"
  by (induction xss) simp_all

lemma offsets_axis_sum:
  "(\<Sum>p\<leftarrow>offsets (xs @ (n, s) # ys). g p) = (\<Sum>q\<leftarrow>offsets (xs @ ys). \<Sum>j\<leftarrow>[0..n - 1]. g (q + j * s) :: 'v::comm_monoid_add)"
proof (induction xs arbitrary: g)
  case Nil
  show ?case using sum_list_swap [of "\<lambda>j q. g (j * s + q)" "offsets ys" "[0..n - 1]"]
    by (simp add: sum_list_concat comp_def add.commute)
next
  case (Cons d xs)
  obtain n' s' where "d = (n', s')" by (cases d)
  then show ?case by (simp add: sum_list_concat comp_def Cons.IH add.assoc)
qed

lemma axis_sum_total:
  assumes "a < length (view_dims v)"
  shows "view_sum v m = (\<Sum>k\<leftarrow>[0..<length (offsets (drop_axis a (view_dims v)))]. axis_sum v a m k)"
proof -
  obtain n s where d: "view_dims v ! a = (n, s)" by (cases "view_dims v ! a")
  then have "view_dims v = take a (view_dims v) @ (n, s) # drop (Suc a) (view_dims v)" using assms by (metis id_take_nth_drop)
  then have "view_sum v m = (\<Sum>q\<leftarrow>offsets (drop_axis a (view_dims v)). \<Sum>j\<leftarrow>[0..n - 1]. m (base v, start v + (q + j * s)))"
    unfolding view_sum_def view_offsets_def drop_axis_def
    using offsets_axis_sum [of "\<lambda>p. m (base v, start v + p)" "take a (view_dims v)" n s "drop (Suc a) (view_dims v)"]
    by (simp add: comp_def)
  also have "\<dots> = (\<Sum>k\<leftarrow>[0..<length (offsets (drop_axis a (view_dims v)))]. axis_sum v a m k)"
    unfolding axis_sum_def d by (subst (1) map_nth [symmetric]) (simp add: comp_def)
  finally show ?thesis .
qed

lemma fold_store_other: "x \<notin> element v ` set ks \<Longrightarrow> fold (\<lambda>k m'. m'(element v k := g k)) ks m x = m x"
  by (induction ks arbitrary: m) auto

lemma fold_store_at:
  "distinct ks \<Longrightarrow> inj_on (element v) (set ks) \<Longrightarrow> k \<in> set ks \<Longrightarrow> fold (\<lambda>k m'. m'(element v k := g k)) ks m (element v k) = g k"
proof (induction ks arbitrary: m)
  case (Cons l ks)
  show ?case
  proof (cases "k = l")
    case True
    then have "element v k \<notin> element v ` set ks" using Cons.prems(1,2) by auto
    then have "fold (\<lambda>k m'. m'(element v k := g k)) ks (m(element v l := g l)) (element v k) = (m(element v l := g l)) (element v k)"
      by (rule fold_store_other)
    then show ?thesis using True by (simp del: fun_upd_apply) simp
  qed (use Cons in auto)
qed simp

lemma element_inj: "distinct (view_offsets v) \<Longrightarrow> inj_on (element v) {0..<length (view_offsets v)}"
  by (auto simp: inj_on_def element_def nth_eq_iff_index_eq)

lemma view_sum_elements: "view_sum v m = (\<Sum>k\<leftarrow>[0..<length (view_offsets v)]. m (element v k))"
  unfolding view_sum_def element_def by (subst (1) map_nth [symmetric]) (simp add: comp_def)

lemma exec_reduce_other: "fst x \<noteq> base (operand instr ! 0) \<Longrightarrow> exec_reduce instr m x = m x"
proof -
  assume "fst x \<noteq> base (operand instr ! 0)"
  then have x: "x \<noteq> element (operand instr ! 0) k" "x \<notin> element (operand instr ! 0) ` K" for k K by (auto simp: element_def)
  then show ?thesis by (simp add: exec_reduce_def Let_def fold_store_other del: fun_upd_apply) (simp add: x)
qed

text \<open>A reduction of the whole view along one axis: the elements of the output combine to what the elements of the input
  combine to.\<close>

definition reduces_view :: "bh_view \<Rightarrow> bh_instruction \<Rightarrow> bool" where
  "reduces_view v instr \<longleftrightarrow> length (operand instr) = 3 \<and> operand instr ! 1 = v \<and> base (operand instr ! 0) \<noteq> base v \<and>
     (\<exists>a. constant_int64 (inst_constant instr) = int a \<and> a < length (view_dims v) \<and>
        length (view_offsets (operand instr ! 0)) = length (offsets (drop_axis a (view_dims v)))) \<and>
     distinct (view_offsets (operand instr ! 0))"

lemma reduces_view_sum:
  assumes "reduces_view v instr"
  shows "view_sum (operand instr ! 0) (exec_reduce instr m) = view_sum v m"
proof -
  let ?out = "operand instr ! 0"
  obtain a where a: "constant_int64 (inst_constant instr) = int a" "a < length (view_dims v)"
    "length (view_offsets ?out) = length (offsets (drop_axis a (view_dims v)))" and v: "operand instr ! 1 = v"
    and d: "distinct (view_offsets ?out)" using assms by (auto simp: reduces_view_def)
  show ?thesis
  proof (cases "length (view_offsets ?out) = 1")
    case True
    then show ?thesis using v by (simp add: view_sum_elements [of ?out] exec_reduce_def)
  next
    case False
    have "exec_reduce instr m (element ?out k) = axis_sum v a m k" if "k < length (view_offsets ?out)" for k
      using False a(1) v that element_inj [OF d] by (simp add: exec_reduce_def Let_def fold_store_at)
    then have "view_sum ?out (exec_reduce instr m) = (\<Sum>k\<leftarrow>[0..<length (view_offsets ?out)]. axis_sum v a m k)"
      unfolding view_sum_elements by (intro arg_cong [where f = sum_list] map_cong) auto
    then show ?thesis by (simp only: a(3) axis_sum_total [OF a(2), of m])
  qed
qed

fun reduces_chain :: "bh_opcode \<Rightarrow> bh_view \<Rightarrow> bh_instruction list \<Rightarrow> bool" where
  "reduces_chain op v [] = True"
| "reduces_chain op v (instr # instrs) =
     (opcode instr = op \<and> reduces_view v instr \<and> reduces_chain op (operand instr ! 0) instrs)"

abbreviation out_base :: "bh_instruction \<Rightarrow> ptr" where
  "out_base instr \<equiv> base (operand instr ! 0)"

definition is_chain :: "(ptr \<rightharpoonup> bh_base) \<Rightarrow> bh_opcode \<Rightarrow> bh_view \<Rightarrow> bh_instruction list \<Rightarrow> bool" where
  "is_chain heap op v reds \<longleftrightarrow> bh_opcode_is_reduction op \<and> reduces_chain op v reds \<and> 2 \<le> length reds \<and>
     (\<forall>instr \<in> set (butlast reds). \<exists>n > 1. out_nelem heap instr = Some n) \<and>
     out_nelem heap (last reds) = Some 1 \<and> length (view_offsets (operand (last reds) ! 0)) = 1"

definition releases :: "bh_instruction list \<Rightarrow> bool" where
  "releases tail \<longleftrightarrow> (\<forall>instr \<in> set tail. opcode instr = BH_FREE \<or> opcode instr = BH_DISCARD)"

lemma reduces_chain_nth:
  "reduces_chain op v reds \<Longrightarrow> i < length reds \<Longrightarrow> opcode (reds ! i) = op \<and> length (operand (reds ! i)) = 3 \<and>
   operand (reds ! i) ! 1 = (if i = 0 then v else operand (reds ! (i - 1)) ! 0)"
proof (induction op v reds arbitrary: i rule: reduces_chain.induct)
  case (2 op v instr instrs)
  then show ?case by (cases i) (auto simp: reduces_view_def nth_Cons' split: if_splits)
qed simp

text \<open>The inner loop on a chain followed by releases of arrays.\<close>

definition runs :: "bh_instruction list \<Rightarrow> nat \<Rightarrow> chain \<Rightarrow> bool" where
  "runs reds pos s \<longleftrightarrow> ch_first s = Some 0 \<and> reduce_opcode s = opcode (reds ! 0) \<and>
     (\<forall>j < pos. j < length reds - 1 \<longrightarrow> out_base (reds ! j) \<in> ch_bases s) \<and>
     (\<forall>j. 1 \<le> j \<and> j < pos \<and> j < length reds - 1 \<longrightarrow> j \<in> set (ch_links s)) \<and>
     (length reds \<le> pos \<longrightarrow> ch_last s \<noteq> None)"

lemma runs_tail:
  assumes "runs reds pos s" and "length reds \<le> pos" and "opcode instr = BH_FREE \<or> opcode instr = BH_DISCARD"
    and "chain_step heap pos instr s = Some s'"
  shows "runs reds (Suc pos) s'"
  using assms by (auto simp: chain_step_def runs_def Let_def less_Suc_eq split: if_splits option.splits)

lemma nth_in_butlast: "i < length xs - 1 \<Longrightarrow> xs ! i \<in> set (butlast xs)"
  by (metis length_butlast nth_butlast nth_mem)

lemma runs_chain:
  assumes "is_chain heap op v reds" and "heap NULL = None" and "runs reds pos s" and "1 \<le> pos" and "pos < length reds"
    and "chain_step heap pos (reds ! pos) s = Some s'"
  shows "runs reds (Suc pos) s'"
proof -
  have ch: "reduces_chain op v reds" "2 \<le> length reds" using assms(1) by (auto simp: is_chain_def)
  let ?i = "reds ! pos"
  have "0 < length reds" using ch(2) by linarith
  then have op: "opcode ?i = op" "opcode (reds ! 0) = op" using reduces_chain_nth [OF ch(1)] assms(5) by blast+
  have in1: "operand ?i ! 1 = operand (reds ! (pos - 1)) ! 0" using reduces_chain_nth [OF ch(1) assms(5)] assms(4) by simp
  have "reds ! (pos - 1) \<in> set (butlast reds)" using assms(4,5) by (intro nth_in_butlast) simp
  then obtain n where "out_nelem heap (reds ! (pos - 1)) = Some n" using assms(1) by (auto simp: is_chain_def)
  then have "out_base (reds ! (pos - 1)) \<noteq> NULL" using assms(2) by (metis option.distinct(1) option.map(1) out_nelem_def)
  moreover have "out_base (reds ! (pos - 1)) \<in> ch_bases s" using assms(3-5) by (simp add: runs_def)
  moreover have "bh_operands op = 3" using assms(1) sweep_operands [of op] by (simp add: is_chain_def bh_opcode_is_sweep_def)
  ultimately have use: "other_use (ch_bases s) (bh_operands (opcode ?i)) 0 ?i False"
    using in1 op(1) by (auto simp: other_use_iff bh_is_constant_def intro!: exI [of _ 1])
  show ?thesis
  proof (cases "pos = length reds - 1")
    case True
    then have "reds ! pos = last reds" using ch(2) by (metis last_conv_nth length_0_conv not_numeral_le_zero)
    then have "out_nelem heap ?i = Some 1" using assms(1) by (simp add: is_chain_def)
    then show ?thesis using assms(3,6) use op True ch(2) by (auto simp: chain_step_def runs_def Let_def less_Suc_eq)
  next
    case False
    then have "?i \<in> set (butlast reds)" using assms(5) by (intro nth_in_butlast) simp
    then obtain n where "n > 1" "out_nelem heap ?i = Some n" using assms(1) by (auto simp: is_chain_def)
    then show ?thesis using assms(3,6) use op False assms(5) by (auto simp: chain_step_def runs_def Let_def less_Suc_eq)
  qed
qed

lemma runs_loop:
  assumes "is_chain heap op v reds" and "heap NULL = None" and "releases tail" and "derefs heap (reds @ tail)"
    and "runs reds pos s" and "chain_inv heap (reds @ tail) 0 pos s" and "1 \<le> pos" and "pos + k = length (reds @ tail)"
  shows "\<exists>s'. chain_loop heap (reds @ tail) k pos s = Some s' \<and> runs reds (length (reds @ tail)) s' \<and>
    chain_inv heap (reds @ tail) 0 (length (reds @ tail)) s'"
  using assms(5-8)
proof (induction k arbitrary: pos s)
  case (Suc k)
  let ?instrs = "reds @ tail"
  obtain s1 where s1: "chain_step heap pos (?instrs ! pos) s = Some s1" "chain_inv heap ?instrs 0 (Suc pos) s1"
    using chain_step_inv [OF Suc.prems(2) _ _ assms(4)] Suc.prems(3,4) by auto
  have "runs reds (Suc pos) s1"
  proof (cases "pos < length reds")
    case True
    then show ?thesis using runs_chain [OF assms(1,2) Suc.prems(1,3)] s1(1) by (simp add: nth_append)
  next
    case False
    moreover from this have "?instrs ! pos \<in> set tail" using Suc.prems(4) by (auto simp: nth_append)
    ultimately show ?thesis using runs_tail [OF Suc.prems(1) _ _ s1(1)] assms(3) by (auto simp: releases_def)
  qed
  then show ?case using Suc.IH [of "Suc pos" s1] Suc.prems(4) s1 by simp
qed simp

lemma bccon_loop_idle:
  "\<forall>i < length instrs. pc \<le> i \<longrightarrow> \<not> bh_opcode_is_reduction (opcode (instrs ! i)) \<Longrightarrow> pc + k = length instrs \<Longrightarrow>
   bccon_loop heap k pc instrs = Some instrs"
  by (induction k arbitrary: pc) (simp_all add: bccon_step_def)

lemma is_chain_scalar:
  assumes "is_chain heap op v reds" and "i < length reds" and "out_nelem heap (reds ! i) = Some 1"
  shows "i = length reds - 1"
proof (rule ccontr)
  assume "i \<noteq> length reds - 1"
  then have "reds ! i \<in> set (butlast reds)" using assms(2) by (intro nth_in_butlast) simp
  then show False using assms(1,3) by (auto simp: is_chain_def)
qed

lemma bccon_step_chain:
  assumes "is_chain heap op v reds" and "heap NULL = None" and "releases tail" and "derefs heap (reds @ tail)"
  shows "\<exists>s. bccon_step heap 0 (reds @ tail) = Some (rewrite_chain (ch_links s) 0 (length reds - 1) (reds @ tail)) \<and>
    runs reds (length (reds @ tail)) s \<and> links_ok heap (reds @ tail) 0 (length (reds @ tail)) s"
proof -
  let ?instrs = "reds @ tail"
  let ?s = "\<lparr>reduce_opcode = opcode (reds ! 0), ch_first = Some 0, ch_last = None, ch_bases = {out_base (reds ! 0)}, ch_links = []\<rparr>"
  have ch: "reduces_chain op v reds" "2 \<le> length reds" "bh_opcode_is_reduction op" using assms(1) by (auto simp: is_chain_def)
  then have ne: "reds \<noteq> []" "0 < length reds" by auto
  have "reds ! 0 \<in> set (butlast reds)" using ch(2) by (cases reds) auto
  then obtain n where n: "n > 1" "out_nelem heap (reds ! 0) = Some n" using assms(1) by (auto simp: is_chain_def)
  have "chain_inv heap ?instrs 0 1 ?s" using n ne by (auto simp: chain_inv_def links_ok_def out_nelem_def nth_append)
  moreover have "runs reds 1 ?s" using ch(2) by (simp add: runs_def)
  ultimately obtain s where s: "chain_loop heap ?instrs (length ?instrs - 1) 1 ?s = Some s" "runs reds (length ?instrs) s"
      "chain_inv heap ?instrs 0 (length ?instrs) s"
    using runs_loop [OF assms, of 1 ?s "length ?instrs - 1"] ne by auto
  then have ok: "links_ok heap ?instrs 0 (length ?instrs) s" by (simp add: runs_def chain_inv_def)
  obtain l where l: "ch_last s = Some l" using s(2) by (auto simp: runs_def)
  then have lo: "l < length ?instrs" "opcode (?instrs ! l) = op" "out_nelem heap (?instrs ! l) = Some 1" "0 < l"
    using ok reduces_chain_nth [OF ch(1), of 0] ne by (auto simp: links_ok_def nth_append)
  have "l < length reds"
  proof (rule ccontr)
    assume "\<not> l < length reds"
    then have "?instrs ! l \<in> set tail" using lo(1) by (auto simp: nth_append)
    then show False using assms(3) lo(2) ch(3) operands_system by (auto simp: releases_def)
  qed
  then have "l = length reds - 1" using is_chain_scalar [OF assms(1)] lo(3) by (simp add: nth_append)
  then have "bccon_step heap 0 ?instrs = Some (rewrite_chain (ch_links s) 0 (length reds - 1) ?instrs)"
    using s(1) l n ch(3) reduces_chain_nth [OF ch(1), of 0] ne s(2) by (simp add: bccon_step_def Let_def nth_append runs_def)
  then show ?thesis using s(2) ok by blast
qed

text \<open>The rewritten batch: the first reduction writes the last output, the others are removed.\<close>

lemma bccon_filter_chain:
  assumes "is_chain heap op v reds" and "heap NULL = None" and "releases tail" and "derefs heap (reds @ tail)"
  shows "\<exists>instrs'. bccon_filter heap (reds @ tail) = Some instrs' \<and> length instrs' = length (reds @ tail) \<and>
    instrs' ! 0 = (reds ! 0)\<lparr>operand := (operand (reds ! 0))[0 := operand (last reds) ! 0]\<rparr> \<and>
    (\<forall>i < length instrs'. 0 < i \<longrightarrow> \<not> bh_opcode_is_reduction (opcode (instrs' ! i)))"
proof -
  let ?instrs = "reds @ tail" and ?l = "length reds - 1"
  have ne: "0 < ?l" "reds \<noteq> []" using assms(1) by (auto simp: is_chain_def)
  obtain s where step: "bccon_step heap 0 ?instrs = Some (rewrite_chain (ch_links s) 0 ?l ?instrs)"
    and s: "runs reds (length ?instrs) s" "links_ok heap ?instrs 0 (length ?instrs) s" using bccon_step_chain [OF assms] by blast
  let ?new = "rewrite_chain (ch_links s) 0 ?l ?instrs"
  have last: "?instrs ! ?l = last reds" using ne by (simp add: nth_append last_conv_nth)
  have "0 \<notin> set (ch_links s)" using s(2) by (auto simp: links_ok_def)
  then have len: "length ?new = length ?instrs" and nth: "i < length ?instrs \<Longrightarrow> ?new ! i =
      (if i = 0 then (?instrs ! i)\<lparr>operand := (operand (?instrs ! i))[0 := operand (last reds) ! 0]\<rparr>
       else if i = ?l \<or> i \<in> set (ch_links s) then (?instrs ! i)\<lparr>opcode := BH_NONE\<rparr> else ?instrs ! i)" for i
    using rewrite_chain_nth [of _ ?instrs 0 ?l "ch_links s"] ne last by auto
  have rest: "\<not> bh_opcode_is_reduction (opcode (?new ! i))" if "i < length ?instrs" "0 < i" for i
  proof (cases "i < length reds")
    case True
    moreover have "i < ?l \<Longrightarrow> i \<in> set (ch_links s)" using s(1) that by (simp add: runs_def)
    ultimately have "i = ?l \<or> i \<in> set (ch_links s)" using that by linarith
    then show ?thesis using nth [of i] that by (auto simp: operands_system)
  next
    case False
    then have "?instrs ! i \<in> set tail" using that by (auto simp: nth_append)
    then show ?thesis using nth [of i] that assms(3) by (auto simp: operands_system releases_def)
  qed
  obtain k where k: "length ?instrs = Suc k" using ne by (cases reds) auto
  then have "bccon_loop heap k 1 ?new = Some ?new" using rest len by (intro bccon_loop_idle) auto
  then have "bccon_filter heap ?instrs = Some ?new" using step k unfolding bccon_filter_def by simp
  then show ?thesis using len rest nth [of 0] ne(2) by (auto simp: nth_append)
qed

lemma chain_sum:
  assumes "reduces_chain op v reds" and "bh_opcode_is_reduction op" and "reds \<noteq> []"
  shows "view_sum (operand (last reds) ! 0) (exec_batch reds m) = view_sum v m"
  using assms
proof (induction op v reds arbitrary: m rule: reduces_chain.induct)
  case (2 op v instr instrs)
  then show ?case by (cases "instrs = []") (simp_all add: exec_batch_def reduces_view_sum)
qed simp

lemma exec_batch_other:
  "x \<notin> {x. \<exists>instr \<in> set instrs. bh_opcode_is_reduction (opcode instr) \<and> fst x = out_base instr} \<Longrightarrow> exec_batch instrs m x = m x"
  by (induction instrs arbitrary: m) (auto simp: exec_batch_def exec_reduce_other)

lemma exec_batch_append: "exec_batch (xs @ ys) m = exec_batch ys (exec_batch xs m)"
  by (simp add: exec_batch_def)

lemma exec_batch_idle: "\<forall>instr \<in> set instrs. \<not> bh_opcode_is_reduction (opcode instr) \<Longrightarrow> exec_batch instrs m = m"
  by (induction instrs arbitrary: m) (auto simp: exec_batch_def)

lemma exec_scalar:
  assumes "length (view_offsets (operand instr ! 0)) = 1"
  shows "exec_reduce instr m = m(element (operand instr ! 0) 0 := view_sum (operand instr ! 1) m)"
  using assms by (simp add: exec_reduce_def)

lemma chain_memory:
  assumes "reduces_chain op v reds" and "bh_opcode_is_reduction op" and "reds \<noteq> []"
    and "length (view_offsets (operand (last reds) ! 0)) = 1" and "fst x \<notin> out_base ` set (butlast reds)"
  shows "exec_batch reds m x = (m(element (operand (last reds) ! 0) 0 := view_sum v m)) x"
proof (cases "x = element (operand (last reds) ! 0) 0")
  case True
  have "view_sum (operand (last reds) ! 0) (exec_batch reds m) = exec_batch reds m x" using assms(4) True by (simp add: view_sum_elements)
  then show ?thesis using chain_sum [OF assms(1-3), of m] True by simp
next
  case False
  have "opcode (last reds) = op" using reduces_chain_nth [OF assms(1), of "length reds - 1"] assms(3) by (simp add: last_conv_nth)
  then have "exec_batch reds m x = exec_reduce (last reds) (exec_batch (butlast reds) m) x"
    using assms(2,3) exec_batch_append [of "butlast reds" "[last reds]" m] by (simp add: exec_batch_def)
  also have "\<dots> = exec_batch (butlast reds) m x" using exec_scalar [OF assms(4), of "exec_batch (butlast reds) m"] False by simp
  also have "\<dots> = m x" using assms(5) by (intro exec_batch_other) auto
  finally show ?thesis using False by simp
qed

text \<open>
  C12. A chain of reductions of one kind, each over an axis of the whole result of the one before and the last one
  with a scalar result, followed by releases of arrays, is contracted into a single reduction: the filter returns a
  batch with exactly one reduction that leaves the same memory in every array that is not an intermediate result,
  whatever commutative monoid the values form.
\<close>

theorem bccon_contracts_chain:
  assumes "is_chain heap op v reds" and "heap NULL = None" and "releases tail" and "derefs heap (reds @ tail)"
  shows "\<exists>instrs'. bccon_filter heap (reds @ tail) = Some instrs' \<and>
    length (filter (\<lambda>instr. bh_opcode_is_reduction (opcode instr)) instrs') = 1 \<and>
    (\<forall>(m :: 'v::comm_monoid_add memory) x. fst x \<notin> out_base ` set (butlast reds) \<longrightarrow>
       exec_batch instrs' m x = exec_batch (reds @ tail) m x)"
proof -
  have c: "reduces_chain op v reds" "reds \<noteq> []" "bh_opcode_is_reduction op" "length (view_offsets (operand (last reds) ! 0)) = 1"
    using assms(1) by (auto simp: is_chain_def)
  let ?out = "operand (last reds) ! 0"
  obtain first rest where f: "bccon_filter heap (reds @ tail) = Some (first # rest)" 
      "first = (reds ! 0)\<lparr>operand := (operand (reds ! 0))[0 := ?out]\<rparr>" "\<forall>instr \<in> set rest. \<not> bh_opcode_is_reduction (opcode instr)"
  proof -
    obtain instrs' where i: "bccon_filter heap (reds @ tail) = Some instrs'" "length instrs' = length (reds @ tail)"
      "instrs' ! 0 = (reds ! 0)\<lparr>operand := (operand (reds ! 0))[0 := ?out]\<rparr>"
      "\<forall>i < length instrs'. 0 < i \<longrightarrow> \<not> bh_opcode_is_reduction (opcode (instrs' ! i))" using bccon_filter_chain [OF assms] by blast
    then obtain rest where r: "instrs' = instrs' ! 0 # rest" using c(2) by (cases instrs') auto
    have "\<not> bh_opcode_is_reduction (opcode instr)" if "instr \<in> set rest" for instr
      using that i(4) r by (metis Suc_less_eq in_set_conv_nth length_Cons nth_Cons_Suc zero_less_Suc)
    then show thesis using that [of "instrs' ! 0" rest] i r by simp
  qed
  have first: "opcode first = op" "operand first ! 0 = ?out" "operand first ! 1 = v"
    using f(2) reduces_chain_nth [OF c(1), of 0] c(2) by (auto simp: nth_list_update)
  have red: "exec_batch (first # rest) m = m(element ?out 0 := view_sum v m)" for m :: "'v memory"
    using exec_batch_idle [OF f(3)] first c(3,4) exec_scalar [of first m] by (simp add: exec_batch_def)
  have orig: "exec_batch (reds @ tail) m = exec_batch reds m" for m :: "'v memory"
    using assms(3) operands_system by (auto simp: exec_batch_append releases_def intro!: exec_batch_idle)
  have "exec_batch (first # rest) m x = exec_batch (reds @ tail) m x" if "fst x \<notin> out_base ` set (butlast reds)" for m :: "'v memory" and x
    unfolding red orig using chain_memory [OF c(1,3,2,4) that, of m] by (rule sym)
  then show ?thesis using f(1,3) first(1) c(3) by (intro exI [of _ "first # rest"]) (simp add: filter_empty_conv)
qed

subsection \<open>Examples and counterexamples\<close>

text \<open>An array of two by three elements at address 1, a row at 2 and scalars at 3 and 4.\<close>

definition sample_heap :: "ptr \<rightharpoonup> bh_base" where
  "sample_heap p = (if p = 1 then Some \<lparr>base_data = 0, base_type = BH_INT64, base_nelem = 6\<rparr>
     else if p = 2 then Some \<lparr>base_data = 0, base_type = BH_INT64, base_nelem = 3\<rparr>
     else if p = 3 \<or> p = 4 then Some \<lparr>base_data = 0, base_type = BH_INT64, base_nelem = 1\<rparr> else None)"

abbreviation grid_2_3 :: bh_view where "grid_2_3 \<equiv> mk_view 1 0 [(2, 3), (3, 1)]"
abbreviation row_3 :: bh_view where "row_3 \<equiv> mk_view 2 0 [(3, 1)]"
abbreviation scalar_at :: "ptr \<Rightarrow> bh_view" where "scalar_at p \<equiv> mk_view p 0 [(1, 1)]"

definition sum_first_axis :: "bh_view \<Rightarrow> bh_view \<Rightarrow> bh_instruction" where
  "sum_first_axis out v = \<lparr>opcode = BH_ADD_REDUCE, operand = [out, v, mk_view NULL 0 []],
     inst_constant = \<lparr>cvalue = replicate 16 0, ctype = BH_INT64\<rparr>\<rparr>"

definition release :: "bh_opcode \<Rightarrow> bh_view \<Rightarrow> bh_instruction" where
  "release op v = \<lparr>opcode = op, operand = [v, mk_view NULL 0 [], mk_view NULL 0 []], inst_constant = \<lparr>cvalue = [], ctype = BH_UNKNOWN\<rparr>\<rparr>"

lemma add_reduce_op [simp]: "bh_opcode_is_reduction BH_ADD_REDUCE" "bh_operands BH_ADD_REDUCE = 3"
  by (simp_all add: opcode_eval)

lemmas sample_simps = sum_first_axis_def release_def mk_view_def BH_MAXDIM_def out_nelem_def sample_heap_def bh_is_constant_def

lemma sample_chain: "is_chain sample_heap BH_ADD_REDUCE grid_2_3 [sum_first_axis row_3 grid_2_3, sum_first_axis (scalar_at 3) row_3]"
  by (simp add: is_chain_def reduces_view_def sample_simps view_offsets_def view_dims_def drop_axis_def constant_int64_def eval_nat_numeral)

lemma sample_derefs: "derefs sample_heap ([sum_first_axis row_3 grid_2_3, sum_first_axis (scalar_at 3) row_3] @ [release BH_FREE row_3, release BH_DISCARD row_3])"
  by (simp add: derefs_def sample_simps)

theorem bccon_contracts_chain_witness:
  "\<exists>instrs'. bccon_filter sample_heap ([sum_first_axis row_3 grid_2_3, sum_first_axis (scalar_at 3) row_3] @
       [release BH_FREE row_3, release BH_DISCARD row_3]) = Some instrs' \<and>
     length (filter (\<lambda>instr. bh_opcode_is_reduction (opcode instr)) instrs') = 1 \<and>
     (\<forall>(m :: int memory) x. fst x \<notin> out_base ` set (butlast [sum_first_axis row_3 grid_2_3, sum_first_axis (scalar_at 3) row_3]) \<longrightarrow>
        exec_batch instrs' m x = exec_batch ([sum_first_axis row_3 grid_2_3, sum_first_axis (scalar_at 3) row_3] @
          [release BH_FREE row_3, release BH_DISCARD row_3]) m x)"
  by (rule bccon_contracts_chain [OF sample_chain _ _ sample_derefs]) (simp_all add: sample_heap_def releases_def release_def)

theorem bccon_filter_frame_witness:
  "\<exists>instrs'. bccon_filter sample_heap [sum_first_axis row_3 grid_2_3, sum_first_axis (scalar_at 3) row_3] = Some instrs' \<and>
     length instrs' = length [sum_first_axis row_3 grid_2_3, sum_first_axis (scalar_at 3) row_3] \<and>
     (\<forall>i < length [sum_first_axis row_3 grid_2_3, sum_first_axis (scalar_at 3) row_3].
        instrs' ! i = [sum_first_axis row_3 grid_2_3, sum_first_axis (scalar_at 3) row_3] ! i \<or>
        removed ([sum_first_axis row_3 grid_2_3, sum_first_axis (scalar_at 3) row_3] ! i) (instrs' ! i) \<or>
        completes sample_heap [sum_first_axis row_3 grid_2_3, sum_first_axis (scalar_at 3) row_3] i (instrs' ! i))"
  by (rule bccon_filter_frame) (simp add: derefs_def sample_simps)

text \<open>The nested reductions of the comment in the source, released one by one, are contracted too.\<close>

lemma bccon_contracts_nested:
  "map_option (map opcode) (bccon_filter sample_heap [sum_first_axis row_3 grid_2_3, release BH_FREE grid_2_3,
     release BH_DISCARD grid_2_3, sum_first_axis (scalar_at 3) row_3, release BH_FREE row_3, release BH_DISCARD row_3]) =
   Some [BH_ADD_REDUCE, BH_FREE, BH_DISCARD, BH_NONE, BH_NONE, BH_NONE]"
  by code_simp

text \<open>Batches the filter breaks: the second reduction reads only two of the three elements; two scalars are computed
  from the same row; the row is not released.\<close>

definition partial_batch :: "bh_instruction list" where
  "partial_batch = [sum_first_axis row_3 grid_2_3, sum_first_axis (scalar_at 3) (mk_view 2 1 [(2, 1)])]"

definition shared_batch :: "bh_instruction list" where
  "shared_batch = [sum_first_axis row_3 grid_2_3, sum_first_axis (scalar_at 3) row_3, sum_first_axis (scalar_at 4) row_3]"

definition live_batch :: "bh_instruction list" where
  "live_batch = [sum_first_axis row_3 grid_2_3, sum_first_axis (scalar_at 3) row_3]"

definition ones_at_1 :: "int memory" where
  "ones_at_1 x = (if fst x = 1 then 1 else 0)"


end
