(* ===== verification/Bh_Float.thy ===== *)
theory Bh_Float
  imports Bh_Types Complex_Main
begin

text \<open>
  IEEE 754 numbers as the sources use them: the bit pattern of a number with \<open>e\<close> exponent and \<open>f\<close> fraction bits, its
  value, the comparison \<^verbatim>\<open>==\<close>, and the conversion of integers, rounded to the nearest representable number (ties to
  the even mantissa).
\<close>

text \<open>The value of a finite IEEE 754 number with \<open>e\<close> exponent and \<open>f\<close> fraction bits; \<open>None\<close> is an infinity or NaN.\<close>

definition scale2 :: "int \<Rightarrow> rat" where
  "scale2 k = (if 0 \<le> k then 2 ^ nat k else 1 / 2 ^ nat (- k))"

definition ieee_value :: "nat \<Rightarrow> nat \<Rightarrow> int \<Rightarrow> rat option" where
  "ieee_value e f u =
     (let frac = u mod 2 ^ f; ex = (u div 2 ^ f) mod 2 ^ e; bias = 2 ^ (e - 1) - 1;
          sgn = (if u div 2 ^ (e + f) mod 2 = 0 then 1 else - 1)
      in if ex = 2 ^ e - 1 then None
         else if ex = 0 then Some (sgn * of_int frac * scale2 (1 - bias - int f))
         else Some (sgn * of_int (2 ^ f + frac) * scale2 (ex - bias - int f)))"

definition c_trunc :: "rat \<Rightarrow> int" where
  "c_trunc x = (if 0 \<le> x then \<lfloor>x\<rfloor> else - \<lfloor>- x\<rfloor>)"

text \<open>\<^verbatim>\<open>a == b\<close>: a NaN differs from everything, the two zeros are equal.\<close>

definition ieee_nan :: "nat \<Rightarrow> nat \<Rightarrow> int \<Rightarrow> bool" where
  "ieee_nan e f u \<longleftrightarrow> (u div 2 ^ f) mod 2 ^ e = 2 ^ e - 1 \<and> u mod 2 ^ f \<noteq> 0"

definition ieee_zero :: "nat \<Rightarrow> nat \<Rightarrow> int \<Rightarrow> bool" where
  "ieee_zero e f u \<longleftrightarrow> u mod 2 ^ (e + f) = 0"

definition ieee_eq :: "nat \<Rightarrow> nat \<Rightarrow> int \<Rightarrow> int \<Rightarrow> bool" where
  "ieee_eq e f u v \<longleftrightarrow> \<not> ieee_nan e f u \<and> \<not> ieee_nan e f v \<and> (u = v \<or> ieee_zero e f u \<and> ieee_zero e f v)"

fun bit_len :: "nat \<Rightarrow> nat" where
  "bit_len n = (if n = 0 then 0 else Suc (bit_len (n div 2)))"

declare bit_len.simps [simp del]

text \<open>\<open>round_nat p n\<close>: \<open>n\<close> rounded to \<open>p\<close> significant bits.\<close>

definition round_nat :: "nat \<Rightarrow> nat \<Rightarrow> nat" where
  "round_nat p n =
     (let k = bit_len n - p; m = 2 ^ k; q = n div m; r = n mod m
      in m * (if m < 2 * r \<or> m = 2 * r \<and> odd q then q + 1 else q))"

definition round_int :: "nat \<Rightarrow> int \<Rightarrow> int" where
  "round_int p x = sgn x * int (round_nat p (nat \<bar>x\<bar>))"

definition ieee_of_int :: "nat \<Rightarrow> nat \<Rightarrow> int \<Rightarrow> int" where
  "ieee_of_int e f x =
     (let n = round_nat (f + 1) (nat \<bar>x\<bar>); l = bit_len n; bias = 2 ^ (e - 1) - 1
      in if n = 0 then 0
         else (if x < 0 then 2 ^ (e + f) else 0) + (bias + int l - 1) * 2 ^ f + (int (n * 2 ^ f div 2 ^ (l - 1)) - 2 ^ f))"

lemma bit_len_le: "0 < n \<Longrightarrow> 2 ^ (bit_len n - 1) \<le> n"
proof (induction n rule: bit_len.induct)
  case (1 n)
  have len: "bit_len n = Suc (bit_len (n div 2))" using 1(2) by (simp add: bit_len.simps [of n])
  show ?case
  proof (cases "n div 2 = 0")
    case True
    then show ?thesis using 1(2) len by (simp add: bit_len.simps [of 0])
  next
    case False
    then have "2 ^ (bit_len (n div 2) - 1) \<le> n div 2" using 1 by simp
    moreover have "bit_len (n div 2) = Suc (bit_len (n div 2) - 1)" using False by (simp add: bit_len.simps [of "n div 2"])
    ultimately show ?thesis unfolding len by (metis Suc_diff_1 diff_Suc_1 div_by_Suc_0 less_Suc_eq_0_disj mult.commute mult_le_mono2
        order_trans power_Suc times_div_less_eq_dividend zero_less_Suc)
  qed
qed

text \<open>Rounding keeps 0 and 1 apart from every other integer.\<close>

lemma round_nat_pos: "0 < p \<Longrightarrow> 0 < n \<Longrightarrow> 0 < round_nat p n"
proof -
  assume "0 < p" "0 < n"
  then have "(2::nat) ^ (bit_len n - p) \<le> 2 ^ (bit_len n - 1)" by (intro power_increasing) auto
  then have "(2::nat) ^ (bit_len n - p) \<le> n" using bit_len_le [OF \<open>0 < n\<close>] by linarith
  then show ?thesis by (auto simp: round_nat_def Let_def div_greater_zero_iff)
qed

lemma round_nat_0 [simp]: "round_nat p 0 = 0"
  by (simp add: round_nat_def bit_len.simps)

lemma round_nat_1: "0 < p \<Longrightarrow> round_nat p n = 1 \<longleftrightarrow> n = 1"
proof
  assume "0 < p" "round_nat p n = 1"
  then have "2 ^ (bit_len n - p) = (1::nat)" by (simp add: round_nat_def Let_def)
  then show "n = 1" using \<open>round_nat p n = 1\<close> by (simp add: round_nat_def Let_def)
next
  assume "0 < p" "n = 1"
  then show "round_nat p n = 1" by (simp add: round_nat_def bit_len.simps)
qed

lemma round_int_0: "0 < p \<Longrightarrow> round_int p x = 0 \<longleftrightarrow> x = 0"
  using round_nat_pos [of p "nat \<bar>x\<bar>"] by (auto simp: round_int_def sgn_if)

lemma round_int_1: "0 < p \<Longrightarrow> round_int p x = 1 \<longleftrightarrow> x = 1"
  using round_nat_1 [of p "nat \<bar>x\<bar>"] by (auto simp: round_int_def sgn_if)

lemma ieee_of_int_0 [simp]: "ieee_of_int e f 0 = 0"
  by (simp add: ieee_of_int_def)

end
