(* ===== verification/Flt_Bcexp.thy ===== *)
theory Flt_Bcexp
  imports Bh_Float Flt_Bccon "HOL-Library.Monad_Syntax"
begin

text \<open>
  The filter \<^verbatim>\<open>filter/bcexp\<close>: composite instructions (power with a constant exponent, sign, matrix product) are
  expanded into sequences of simpler ones. The state is the instruction list of the batch, the base arrays the expander
  has created and the heap of base arrays. \<open>None\<close> is a thrown exception, a bad pointer or an undefined conversion.

  \<^item> \<open>alloc\<close> is \<^verbatim>\<open>new bh_base\<close>: the address it returns in a heap, or \<open>None\<close> for \<^verbatim>\<open>std::bad_alloc\<close>.
  \<^item> \<open>junk pc\<close> is the indeterminate content of the local \<^verbatim>\<open>bh_instruction\<close> that is inserted at \<open>pc\<close>.
  \<^item> \<open>fc\<close> converts integers to floating point; the template argument of \<^verbatim>\<open>bh_set_constant\<close> is \<^verbatim>\<open>int\<close>, \<^verbatim>\<open>int64_t\<close> or
    \<^verbatim>\<open>double\<close> and its value 0, 1 or 2 in every call.
\<close>

subsection \<open>State\<close>

record expander =
  exp_bases :: "ptr list"
  gc_threshold :: nat
  matmul_on :: int
  sign_on :: int
  powk_on :: int

record exp_state =
  instr_list :: "bh_instruction list"
  xpr :: expander
  bheap :: "ptr \<rightharpoonup> bh_base"

definition Expander_new :: "nat \<Rightarrow> int \<Rightarrow> int \<Rightarrow> int \<Rightarrow> expander" where
  "Expander_new threshold matmul sign powk =
     \<lparr>exp_bases = [], gc_threshold = threshold, matmul_on = matmul, sign_on = sign, powk_on = powk\<rparr>"

record exp_env =
  alloc :: "(ptr \<rightharpoonup> bh_base) \<Rightarrow> ptr option"
  junk :: "nat \<Rightarrow> bh_instruction"
  fconv :: c_float_conv

definition make_base :: "exp_env \<Rightarrow> bh_type \<Rightarrow> bh_index \<Rightarrow> exp_state \<Rightarrow> (ptr \<times> exp_state) option" where
  "make_base env type nelem s =
     (case alloc env (bheap s) of None \<Rightarrow> None
      | Some p \<Rightarrow> Some (p, s\<lparr>bheap := (bheap s)(p \<mapsto> \<lparr>base_data = NULL, base_type = type, base_nelem = nelem\<rparr>),
          xpr := (xpr s)\<lparr>exp_bases := exp_bases (xpr s) @ [p]\<rparr>\<rparr>))"

definition make_temp :: "exp_env \<Rightarrow> bh_view \<Rightarrow> bh_type \<Rightarrow> bh_index \<Rightarrow> exp_state \<Rightarrow> (bh_view \<times> exp_state) option" where
  "make_temp env meta type nelem s =
     do { (p, s) \<leftarrow> make_base env type nelem s; Some (meta\<lparr>base := p\<rparr>, s) }"

subsection \<open>Constants of injected instructions\<close>

definition set_constant_value :: "c_float_conv \<Rightarrow> bh_type \<Rightarrow> int \<Rightarrow> bh_constant \<Rightarrow> bh_constant" where
  "set_constant_value fc type v c =
     (case type of
       BH_BOOL \<Rightarrow> put_value 1 (le_bytes 1 (if v = 0 then 0 else 1)) c
     | BH_INT8 \<Rightarrow> put_value 1 (le_bytes 1 v) c
     | BH_INT16 \<Rightarrow> put_value 2 (le_bytes 2 v) c
     | BH_INT32 \<Rightarrow> put_value 4 (le_bytes 4 v) c
     | BH_INT64 \<Rightarrow> put_value 8 (le_bytes 8 v) c
     | BH_UINT8 \<Rightarrow> put_value 1 (le_bytes 1 v) c
     | BH_UINT16 \<Rightarrow> put_value 2 (le_bytes 2 v) c
     | BH_UINT32 \<Rightarrow> put_value 4 (le_bytes 4 v) c
     | BH_UINT64 \<Rightarrow> put_value 8 (le_bytes 8 v) c
     | BH_FLOAT32 \<Rightarrow> put_value 4 (float32_of fc v) c
     | BH_FLOAT64 \<Rightarrow> put_value 8 (float64_of fc v) c
     | BH_COMPLEX64 \<Rightarrow> put_value 8 (float32_of fc v @ float32_of fc 0) c
     | BH_COMPLEX128 \<Rightarrow> put_value 16 (float64_of fc v @ float64_of fc 0) c
     | _ \<Rightarrow> c)"

definition exp_set_constant :: "c_float_conv \<Rightarrow> nat \<Rightarrow> bh_type \<Rightarrow> int \<Rightarrow> bh_instruction \<Rightarrow> bh_instruction" where
  "exp_set_constant fc opr_idx type v instr =
     instr\<lparr>operand := (operand instr)[opr_idx := bh_flag_constant (operand instr ! opr_idx)],
           inst_constant := set_constant_value fc type v ((inst_constant instr)\<lparr>ctype := type\<rparr>)\<rparr>"

subsection \<open>Injection\<close>

definition insert_at :: "nat \<Rightarrow> 'a \<Rightarrow> 'a list \<Rightarrow> 'a list" where
  "insert_at pc x xs = take pc xs @ x # drop pc xs"

definition put_instr :: "nat \<Rightarrow> bh_instruction \<Rightarrow> exp_state \<Rightarrow> exp_state" where
  "put_instr pc instr s = s\<lparr>instr_list := insert_at pc instr (instr_list s)\<rparr>"

definition with_operands :: "bh_opcode \<Rightarrow> bh_view list \<Rightarrow> bh_instruction \<Rightarrow> bh_instruction" where
  "with_operands op vs instr = instr\<lparr>opcode := op, operand := vs @ drop (length vs) (operand instr)\<rparr>"

definition inject1 :: "exp_env \<Rightarrow> nat \<Rightarrow> bh_opcode \<Rightarrow> bh_view \<Rightarrow> exp_state \<Rightarrow> exp_state" where
  "inject1 env pc op out s = put_instr pc (with_operands op [out] (junk env pc)) s"

definition inject2 :: "exp_env \<Rightarrow> nat \<Rightarrow> bh_opcode \<Rightarrow> bh_view \<Rightarrow> bh_view \<Rightarrow> exp_state \<Rightarrow> exp_state" where
  "inject2 env pc op out in1 s = put_instr pc (with_operands op [out, in1] (junk env pc)) s"

definition inject3 :: "exp_env \<Rightarrow> nat \<Rightarrow> bh_opcode \<Rightarrow> bh_view \<Rightarrow> bh_view \<Rightarrow> bh_view \<Rightarrow> exp_state \<Rightarrow> exp_state" where
  "inject3 env pc op out in1 in2 s = put_instr pc (with_operands op [out, in1, in2] (junk env pc)) s"

definition inject3_const ::
    "exp_env \<Rightarrow> nat \<Rightarrow> bh_opcode \<Rightarrow> bh_view \<Rightarrow> bh_view \<Rightarrow> int \<Rightarrow> bh_type \<Rightarrow> exp_state \<Rightarrow> exp_state" where
  "inject3_const env pc op out in1 in2 const_type s =
     put_instr pc (exp_set_constant (fconv env) 2 const_type in2 (with_operands op [out, in1] (junk env pc))) s"

definition inject3_const_in1 :: "exp_env \<Rightarrow> nat \<Rightarrow> bh_opcode \<Rightarrow> bh_view \<Rightarrow> bh_view \<Rightarrow> int \<Rightarrow> exp_state \<Rightarrow> exp_state option" where
  "inject3_const_in1 env pc op out in1 in2 s =
     do { b \<leftarrow> bheap s (base in1); Some (inject3_const env pc op out in1 in2 (base_type b) s) }"

definition inject2_const :: "exp_env \<Rightarrow> nat \<Rightarrow> bh_opcode \<Rightarrow> bh_view \<Rightarrow> int \<Rightarrow> bh_type \<Rightarrow> exp_state \<Rightarrow> exp_state" where
  "inject2_const env pc op out in1 const_type s =
     put_instr pc (exp_set_constant (fconv env) 1 const_type in1 (with_operands op [out] (junk env pc))) s"

definition inject2_const_out :: "exp_env \<Rightarrow> nat \<Rightarrow> bh_opcode \<Rightarrow> bh_view \<Rightarrow> int \<Rightarrow> exp_state \<Rightarrow> exp_state option" where
  "inject2_const_out env pc op out in1 s =
     do { b \<leftarrow> bheap s (base out); Some (inject2_const env pc op out in1 (base_type b) s) }"

definition nop_instr :: "nat \<Rightarrow> exp_state \<Rightarrow> exp_state" where
  "nop_instr pc s = s\<lparr>instr_list := opcode_none pc (instr_list s)\<rparr>"

subsection \<open>Power with a constant exponent\<close>

text \<open>\<^verbatim>\<open>x == (uint64_t)x ? (int64_t)x : -1\<close>; a conversion out of the range of the type is undefined.\<close>

definition integer_of :: "rat option \<Rightarrow> int option" where
  "integer_of v = (case v of None \<Rightarrow> None
     | Some x \<Rightarrow> if c_trunc x < 0 \<or> 2 ^ 64 \<le> c_trunc x then None
       else if x = of_int (c_trunc x) then (if 2 ^ 63 \<le> c_trunc x then None else Some (c_trunc x))
       else Some (- 1))"

definition bh_get_integer :: "bh_constant \<Rightarrow> int option" where
  "bh_get_integer constant = (case ctype constant of
       BH_FLOAT32 \<Rightarrow> integer_of (ieee_value 8 23 (le_value (take 4 (cvalue constant))))
     | BH_FLOAT64 \<Rightarrow> integer_of (ieee_value 11 52 (le_value (take 8 (cvalue constant))))
     | _ \<Rightarrow> Some (- 1))"

text \<open>The loop of the linear unrolling: \<open>k\<close> more multiplications.\<close>

fun powk_loop :: "exp_env \<Rightarrow> nat \<Rightarrow> nat \<Rightarrow> bh_view \<Rightarrow> bh_view \<Rightarrow> exp_state \<Rightarrow> nat \<times> exp_state" where
  "powk_loop env 0 pc out in1 s = (pc, s)"
| "powk_loop env (Suc k) pc out in1 s = powk_loop env k (pc + 1) out in1 (inject3 env (pc + 1) BH_MULTIPLY out out in1 s)"

definition expand_powk :: "exp_env \<Rightarrow> nat \<Rightarrow> exp_state \<Rightarrow> (nat \<times> exp_state) option" where
  "expand_powk env pc s =
     (let start_pc = pc; instr = instr_list s ! pc; k = 100
      in if \<not> bh_is_constant (operand instr ! 2) then Some (0, s)
         else do {
           exponent \<leftarrow> bh_get_integer (inst_constant instr);
           if exponent < 0 \<or> k < exponent then Some (0, s)
           else if base (operand instr ! 0) = base (operand instr ! 1) then Some (0, s)
           else
             (let s = nop_instr pc s; out = operand instr ! 0; in1 = operand instr ! 1
              in if exponent = 0 then
                   do { s \<leftarrow> inject2_const_out env (pc + 1) BH_IDENTITY out 1 s; Some (pc + 1 - start_pc, s) }
                 else if exponent = 1 then Some (pc + 1 - start_pc, inject2 env (pc + 1) BH_IDENTITY out in1 s)
                 else if exponent = 2 then Some (pc + 1 - start_pc, inject3 env (pc + 1) BH_MULTIPLY out in1 in1 s)
                 else if exponent = 3 then
                   (let s = inject3 env (pc + 1) BH_MULTIPLY out in1 in1 s;
                        s = inject3 env (pc + 2) BH_MULTIPLY out out in1 s
                    in Some (pc + 2 - start_pc, s))
                 else if exponent = 4 then
                   (let s = inject3 env (pc + 1) BH_MULTIPLY out in1 in1 s;
                        s = inject3 env (pc + 2) BH_MULTIPLY out out out s
                    in Some (pc + 2 - start_pc, s))
                 else if exponent = 5 then
                   (let s = inject3 env (pc + 1) BH_MULTIPLY out in1 in1 s;
                        s = inject3 env (pc + 2) BH_MULTIPLY out out out s;
                        s = inject3 env (pc + 3) BH_MULTIPLY out out in1 s
                    in Some (pc + 3 - start_pc, s))
                 else
                   (let s = inject3 env (pc + 1) BH_MULTIPLY out in1 in1 s;
                        (pc, s) = powk_loop env (nat (exponent - 2)) (pc + 1) out in1 s
                    in Some (pc - start_pc, s))) })"

subsection \<open>Sign\<close>

definition expand_sign :: "exp_env \<Rightarrow> nat \<Rightarrow> exp_state \<Rightarrow> (nat \<times> exp_state) option" where
  "expand_sign env pc s =
     (let start_pc = pc; composite = instr_list s ! pc; s = nop_instr pc s;
          output = operand composite ! 0; input = operand composite ! 1
      in do {
        b \<leftarrow> bheap s (base input);
        let input_type = base_type b;
        let (nelements, meta) = contiguous_loop (ndim output) (output\<lparr>start := 0\<rparr>) 1;
        if \<not> (input_type = BH_COMPLEX64 \<or> input_type = BH_COMPLEX128) then do {
          (lss, s) \<leftarrow> make_temp env meta input_type nelements s;
          (gtr, s) \<leftarrow> make_temp env meta input_type nelements s;
          (t_bool, s) \<leftarrow> make_temp env meta BH_BOOL nelements s;
          s \<leftarrow> inject3_const_in1 env (pc + 1) BH_GREATER t_bool input 0 s;
          let s = inject2 env (pc + 2) BH_IDENTITY lss t_bool s;
          let s = inject1 env (pc + 3) BH_FREE t_bool s;
          let s = inject1 env (pc + 4) BH_DISCARD t_bool s;
          s \<leftarrow> inject3_const_in1 env (pc + 5) BH_LESS t_bool input 0 s;
          let s = inject2 env (pc + 6) BH_IDENTITY gtr t_bool s;
          let s = inject1 env (pc + 7) BH_FREE t_bool s;
          let s = inject1 env (pc + 8) BH_DISCARD t_bool s;
          let s = inject3 env (pc + 9) BH_SUBTRACT output lss gtr s;
          let s = inject1 env (pc + 10) BH_FREE lss s;
          let s = inject1 env (pc + 11) BH_DISCARD lss s;
          let s = inject1 env (pc + 12) BH_FREE gtr s;
          let s = inject1 env (pc + 13) BH_DISCARD gtr s;
          Some (pc + 13 - start_pc, s) }
        else do {
          let float_type = (if input_type = BH_COMPLEX64 then BH_FLOAT32 else BH_FLOAT64);
          (f_abs, s) \<leftarrow> make_temp env meta float_type nelements s;
          (b_zero, s) \<leftarrow> make_temp env meta BH_BOOL nelements s;
          (f_zero, s) \<leftarrow> make_temp env meta float_type nelements s;
          let s = inject2 env (pc + 1) BH_ABSOLUTE f_abs input s;
          let s = inject3_const env (pc + 2) BH_EQUAL b_zero f_abs 0 float_type s;
          let s = inject2 env (pc + 3) BH_IDENTITY f_zero b_zero s;
          let s = inject1 env (pc + 4) BH_FREE b_zero s;
          let s = inject1 env (pc + 5) BH_DISCARD b_zero s;
          let s = inject3 env (pc + 6) BH_ADD f_abs f_abs f_zero s;
          let s = inject1 env (pc + 7) BH_FREE f_zero s;
          let s = inject1 env (pc + 8) BH_DISCARD f_zero s;
          let s = inject2 env (pc + 9) BH_IDENTITY output f_abs s;
          let s = inject1 env (pc + 10) BH_FREE f_abs s;
          let s = inject1 env (pc + 11) BH_DISCARD f_abs s;
          let s = inject3 env (pc + 12) BH_DIVIDE output input output s;
          Some (pc + 12 - start_pc, s) } })"

subsection \<open>Matrix product\<close>

definition broadcast_dims :: "int \<times> int \<Rightarrow> int \<times> int \<Rightarrow> int \<times> int \<Rightarrow> bh_view \<Rightarrow> bh_view" where
  "broadcast_dims d0 d1 d2 v = v\<lparr>ndim := 3, shape := (shape v)[0 := fst d0, 1 := fst d1, 2 := fst d2],
     stride := (stride v)[0 := snd d0, 1 := snd d1, 2 := snd d2]\<rparr>"

definition expand_matmul :: "exp_env \<Rightarrow> nat \<Rightarrow> exp_state \<Rightarrow> (nat \<times> exp_state) option" where
  "expand_matmul env pc s =
     (let start_pc = pc; composite = instr_list s ! pc; s = nop_instr pc s;
          out = operand composite ! 0; a = operand composite ! 1; b = operand composite ! 2;
          n = c_int (shape a ! 0); m = c_int (shape a ! 1); k = c_int (shape b ! 1);
          a_3d = broadcast_dims (n, stride a ! 0) (k, 0) (m, stride a ! 1) a;
          b_3d = broadcast_dims (n, 0) (k, stride b ! 1) (m, stride b ! 0) b;
          (nelements, c_3d) = contiguous_loop 3 b_3d 1;
          c_3d = c_3d\<lparr>start := 0\<rparr>
      in do {
        bb \<leftarrow> bheap s (base b_3d);
        (p, s) \<leftarrow> make_base env (base_type bb) nelements s;
        let c_3d = c_3d\<lparr>base := p\<rparr>;
        let s = inject3 env (pc + 1) BH_MULTIPLY c_3d a_3d b_3d s;
        let s = inject3_const env (pc + 2) BH_ADD_REDUCE out c_3d 2 BH_INT64 s;
        let s = inject1 env (pc + 3) BH_FREE c_3d s;
        let s = inject1 env (pc + 4) BH_DISCARD c_3d s;
        Some (pc + 4 - start_pc, s) })"

subsection \<open>The filter\<close>

text \<open>The loop over a list that grows: \<open>end\<close> is the bound the loop maintains. The variable \<^verbatim>\<open>increase\<close> stays 0 in the
  branches of power and matrix product.\<close>

partial_function (option) expand_loop :: "exp_env \<Rightarrow> nat \<Rightarrow> nat \<Rightarrow> exp_state \<Rightarrow> exp_state option" where
  "expand_loop env pc end' s =
     (if \<not> pc < end' then Some s
      else
        (let op = opcode (instr_list s ! pc)
         in if op = BH_POWER \<and> powk_on (xpr s) \<noteq> 0 then
              do { (n, s) \<leftarrow> expand_powk env pc s; expand_loop env (pc + 1) (end' + n) s }
            else if op = BH_MATMUL \<and> matmul_on (xpr s) \<noteq> 0 then
              do { (n, s) \<leftarrow> expand_matmul env pc s; expand_loop env (pc + 1) (end' + n) s }
            else if op = BH_SIGN \<and> sign_on (xpr s) \<noteq> 0 then
              do { (n, s) \<leftarrow> expand_sign env pc s; expand_loop env (pc + n + 1) (end' + n) s }
            else expand_loop env (pc + 1) end' s))"

definition expand :: "exp_env \<Rightarrow> exp_state \<Rightarrow> exp_state option" where
  "expand env s = expand_loop env 0 (length (instr_list s)) s"

definition pop_base :: "exp_state \<Rightarrow> exp_state" where
  "pop_base s = s\<lparr>bheap := (bheap s)(last (exp_bases (xpr s)) := None),
     xpr := (xpr s)\<lparr>exp_bases := butlast (exp_bases (xpr s))\<rparr>\<rparr>"

fun gc_loop :: "nat \<Rightarrow> nat \<Rightarrow> exp_state \<Rightarrow> nat \<times> exp_state" where
  "gc_loop 0 collected s = (collected, s)"
| "gc_loop (Suc k) collected s =
     gc_loop k (Suc collected) (pop_base s)"

definition expander_gc :: "exp_state \<Rightarrow> nat \<times> exp_state" where
  "expander_gc s =
     (let size = length (exp_bases (xpr s)); threshold = gc_threshold (xpr s)
      in if threshold \<noteq> 0 \<and> threshold < size then gc_loop (size - threshold) 0 s else (0, s))"

function expander_delete :: "exp_state \<Rightarrow> exp_state" where
  "expander_delete s =
     (if 0 < length (exp_bases (xpr s)) then expander_delete (pop_base s) else s)"
  by auto
termination by (relation "measure (\<lambda>s. length (exp_bases (xpr s)))") (auto simp: pop_base_def)

declare expander_delete.simps [simp del]

text \<open>\<open>child\<close> is the component below the filter.\<close>

definition bcexp_execute :: "exp_env \<Rightarrow> (exp_state \<Rightarrow> bh_error \<times> exp_state) \<Rightarrow> exp_state \<Rightarrow> (bh_error \<times> exp_state) option" where
  "bcexp_execute env child s =
     do { s \<leftarrow> expand env s; let (res, s) = child s; let (collected, s) = expander_gc s; Some (res, s) }"

subsection \<open>The instructions of an expansion\<close>

text \<open>The instruction injected at \<open>pc\<close>, without and with a constant as its last operand.\<close>

definition plain_at :: "exp_env \<Rightarrow> nat \<Rightarrow> bh_opcode \<Rightarrow> bh_view list \<Rightarrow> bh_instruction" where
  "plain_at env pc op vs = with_operands op vs (junk env pc)"

definition const_at :: "exp_env \<Rightarrow> nat \<Rightarrow> bh_opcode \<Rightarrow> bh_view list \<Rightarrow> bh_type \<Rightarrow> int \<Rightarrow> bh_instruction" where
  "const_at env pc op vs type v = exp_set_constant (fconv env) (length vs) type v (plain_at env pc op vs)"

lemmas inject_defs = inject1_def inject2_def inject3_def inject3_const_def inject2_const_def put_instr_def

lemma inject_plain_const:
  "inject1 env pc op out s = put_instr pc (plain_at env pc op [out]) s"
  "inject2 env pc op out in1 s = put_instr pc (plain_at env pc op [out, in1]) s"
  "inject3 env pc op out in1 in2 s = put_instr pc (plain_at env pc op [out, in1, in2]) s"
  "inject3_const env pc op out in1 v t s = put_instr pc (const_at env pc op [out, in1] t v) s"
  "inject2_const env pc op out v t s = put_instr pc (const_at env pc op [out] t v) s"
  by (simp_all add: inject_defs plain_at_def const_at_def numeral_2_eq_2)

lemma put_instr_block:
  assumes "instr_list s = pre @ c # xs @ post" and "pc = length pre + length xs + 1"
  shows "put_instr pc x s = s\<lparr>instr_list := pre @ c # (xs @ [x]) @ post\<rparr>"
  using assms by (simp add: put_instr_def insert_at_def)

text \<open>A sequence of instructions injected after \<open>pc\<close>.\<close>

fun put_seq :: "nat \<Rightarrow> bh_instruction list \<Rightarrow> exp_state \<Rightarrow> exp_state" where
  "put_seq pc [] s = s"
| "put_seq pc (x # xs) s = put_seq (pc + 1) xs (put_instr (pc + 1) x s)"

lemma put_seq_state [simp]: "xpr (put_seq pc xs s) = xpr s" "bheap (put_seq pc xs s) = bheap s"
  by (induction pc xs s rule: put_seq.induct) (simp_all add: put_instr_def)

lemma put_seq_block:
  assumes "instr_list s = pre @ c # ys @ post" and "pc = length pre + length ys"
  shows "instr_list (put_seq pc xs s) = pre @ c # (ys @ xs) @ post"
  using assms
proof (induction xs arbitrary: pc ys s)
  case (Cons x xs)
  have "instr_list (put_instr (pc + 1) x s) = pre @ c # (ys @ [x]) @ post"
    using put_instr_block [OF Cons.prems(1)] Cons.prems(2) by simp
  then show ?case using Cons.IH [of "put_instr (pc + 1) x s" "ys @ [x]" "pc + 1"] Cons.prems(2) by simp
qed simp

definition powk_seq :: "exp_env \<Rightarrow> nat \<Rightarrow> bh_type \<Rightarrow> bh_view \<Rightarrow> bh_view \<Rightarrow> nat \<Rightarrow> bh_instruction list" where
  "powk_seq env pc t out in1 e =
     (let mul = (\<lambda>i v w. plain_at env (pc + i) BH_MULTIPLY [out, v, w])
      in if e = 0 then [const_at env (pc + 1) BH_IDENTITY [out] t 1]
         else if e = 1 then [plain_at env (pc + 1) BH_IDENTITY [out, in1]]
         else if e = 4 then [mul 1 in1 in1, mul 2 out out]
         else if e = 5 then [mul 1 in1 in1, mul 2 out out, mul 3 out in1]
         else mul 1 in1 in1 # map (\<lambda>i. mul i out in1) [2..<e])"

lemma powk_loop_block:
  assumes "instr_list s = pre @ c # xs @ post" and "pc = length pre + length xs"
  shows "powk_loop env k pc out in1 s = (pc + k, s\<lparr>instr_list := pre @ c #
    (xs @ map (\<lambda>i. plain_at env (pc + i) BH_MULTIPLY [out, out, in1]) [1..<Suc k]) @ post\<rparr>)"
  using assms
proof (induction k arbitrary: xs s pc)
  case (Suc k)
  let ?x = "plain_at env (pc + 1) BH_MULTIPLY [out, out, in1]" and ?f = "\<lambda>i. plain_at env (pc + i) BH_MULTIPLY [out, out, in1]"
  have inj: "inject3 env (pc + 1) BH_MULTIPLY out out in1 s = s\<lparr>instr_list := pre @ c # (xs @ [?x]) @ post\<rparr>"
    using Suc.prems by (simp add: inject_plain_const put_instr_block [of s pre c xs post])
  have "map (\<lambda>i. ?f (Suc i)) [1..<Suc k] = map ?f [2..<Suc (Suc k)]"
    by (rule nth_equalityI) (simp_all add: nth_append del: upt_Suc)
  then have "?x # map (\<lambda>i. ?f (Suc i)) [1..<Suc k] = map ?f [1..<Suc (Suc k)]"
    by (simp add: upt_conv_Cons [of "Suc 0" "Suc (Suc k)"] numeral_2_eq_2 del: upt_Suc)
  then show ?case
    using Suc.IH [of "s\<lparr>instr_list := pre @ c # (xs @ [?x]) @ post\<rparr>" "xs @ [?x]" "pc + 1"] Suc.prems inj by simp
qed (simp add: exp_state.surjective)

lemma nop_instr_block: "instr_list s = pre @ c # post \<Longrightarrow> nop_instr (length pre) s = s\<lparr>instr_list := pre @ c\<lparr>opcode := BH_NONE\<rparr> # post\<rparr>"
  by (simp add: nop_instr_def opcode_none_def)

definition powk_applies :: "bh_instruction \<Rightarrow> nat \<Rightarrow> bool" where
  "powk_applies instr e \<longleftrightarrow> bh_is_constant (operand instr ! 2) \<and> bh_get_integer (inst_constant instr) = Some (int e) \<and>
     e \<le> 100 \<and> base (operand instr ! 0) \<noteq> base (operand instr ! 1)"

lemma expand_powk_applies:
  fixes env :: exp_env
  assumes "instr_list s = pre @ c # post" and "powk_applies c e" and "bheap s (base (operand c ! 0)) = Some b"
  defines "seq \<equiv> powk_seq env (length pre) (base_type b) (operand c ! 0) (operand c ! 1) e"
  shows "expand_powk env (length pre) s = Some (length seq, s\<lparr>instr_list := pre @ c\<lparr>opcode := BH_NONE\<rparr> # seq @ post\<rparr>)"
proof -
  define s1 where "s1 = s\<lparr>instr_list := pre @ c\<lparr>opcode := BH_NONE\<rparr> # post\<rparr>"
  have s1: "nop_instr (length pre) s = s1" "instr_list s1 = pre @ c\<lparr>opcode := BH_NONE\<rparr> # [] @ post"
    using nop_instr_block [OF assms(1)] by (simp_all add: s1_def)
  have cc: "instr_list s ! length pre = c" using assms(1) by simp
  note a = assms(2) [unfolded powk_applies_def]
  show ?thesis
  proof (cases "e \<le> 5")
    case True
    then have "e = 0 \<or> e = 1 \<or> e = 2 \<or> e = 3 \<or> e = 4 \<or> e = 5" by linarith
    then show ?thesis using a assms(3)
      by (elim disjE) (simp_all add: cc s1(1) expand_powk_def inject2_const_out_def inject_plain_const s1_def put_instr_def insert_at_def
        seq_def powk_seq_def Let_def)
  next
    case False
    define k where "k = e - 2"
    have e: "e = Suc (Suc k)" "\<not> e \<le> 5" using False by (simp_all add: k_def)
    let ?x = "plain_at env (length pre + 1) BH_MULTIPLY [operand c ! 0, operand c ! 1, operand c ! 1]"
    define s2 where "s2 = s1\<lparr>instr_list := pre @ c\<lparr>opcode := BH_NONE\<rparr> # [?x] @ post\<rparr>"
    have s2: "inject3 env (length pre + 1) BH_MULTIPLY (operand c ! 0) (operand c ! 1) (operand c ! 1) s1 = s2"
      "instr_list s2 = pre @ c\<lparr>opcode := BH_NONE\<rparr> # [?x] @ post"
      using put_instr_block [OF s1(2), of "length pre + 1"] by (simp_all add: inject_plain_const s2_def)
    have "map (\<lambda>i. plain_at env (length pre + 1 + i) BH_MULTIPLY [operand c ! 0, operand c ! 0, operand c ! 1]) [1..<Suc k] =
      map (\<lambda>i. plain_at env (length pre + i) BH_MULTIPLY [operand c ! 0, operand c ! 0, operand c ! 1]) [2..<e]"
      unfolding e(1) by (rule nth_equalityI) (simp_all add: nth_append del: upt_Suc)
    moreover have "nat (int e - 2) = k" by (simp add: k_def)
    ultimately show ?thesis
      using a e cc s1(1) s2(1) powk_loop_block [OF s2(2), of "length pre + 1" env k "operand c ! 0" "operand c ! 1"]
      unfolding expand_powk_def seq_def powk_seq_def by (simp add: Let_def s1_def s2_def del: upt_Suc)
  qed
qed

lemma expand_powk_idle:
  assumes "instr_list s = pre @ c # post" and "\<not> (\<exists>e. powk_applies c e)"
    and "bh_is_constant (operand c ! 2) \<Longrightarrow> bh_get_integer (inst_constant c) \<noteq> None"
  shows "expand_powk env (length pre) s = Some (0, s)"
proof (cases "bh_is_constant (operand c ! 2)")
  case True
  then obtain x where x: "bh_get_integer (inst_constant c) = Some x" using assms(3) by auto
  have "x < 0 \<or> 100 < x \<or> base (operand c ! 0) = base (operand c ! 1)"
  proof (rule ccontr)
    assume no: "\<not> ?thesis"
    then have "powk_applies c (nat x)" using True x by (simp add: powk_applies_def nat_le_iff)
    then show False using assms(2) by blast
  qed
  then show ?thesis using assms(1) True x by (auto simp: expand_powk_def Let_def)
qed (use assms(1) in \<open>simp add: expand_powk_def\<close>)

subsection \<open>Temporary arrays\<close>

text \<open>Allocation succeeds and returns an address that is not in use.\<close>

definition allocates :: "exp_env \<Rightarrow> bool" where
  "allocates env \<longleftrightarrow> (\<forall>h. finite (dom h) \<longrightarrow> (\<exists>p. alloc env h = Some p \<and> p \<noteq> NULL \<and> h p = None))"

text \<open>The base arrays \<open>ps\<close> were created, and nothing else of the heap and the expander changed.\<close>

definition grown :: "ptr list \<Rightarrow> exp_state \<Rightarrow> exp_state \<Rightarrow> bool" where
  "grown ps s s' \<longleftrightarrow> xpr s' = (xpr s)\<lparr>exp_bases := exp_bases (xpr s) @ ps\<rparr> \<and> distinct ps \<and> NULL \<notin> set ps \<and>
     set ps \<inter> dom (bheap s) = {} \<and> dom (bheap s') = dom (bheap s) \<union> set ps \<and> (\<forall>p. p \<notin> set ps \<longrightarrow> bheap s' p = bheap s p)"

lemma grown_refl: "xpr s' = xpr s \<Longrightarrow> bheap s' = bheap s \<Longrightarrow> grown [] s s'"
  by (simp add: grown_def)

lemma grown_trans: "grown ps s s' \<Longrightarrow> grown qs s' s'' \<Longrightarrow> grown (ps @ qs) s s''"
  by (auto simp: grown_def)

lemma grown_finite: "grown ps s s' \<Longrightarrow> finite (dom (bheap s)) \<Longrightarrow> finite (dom (bheap s'))"
  by (simp add: grown_def)

lemma grown_heap: "grown ps s s' \<Longrightarrow> bheap s p = Some b \<Longrightarrow> bheap s' p = Some b \<and> p \<notin> set ps"
  unfolding grown_def by (metis IntI domI empty_iff)

lemma make_base_grown:
  assumes "allocates env" and "finite (dom (bheap s))"
  shows "\<exists>p s'. make_base env t n s = Some (p, s') \<and> grown [p] s s' \<and> instr_list s' = instr_list s \<and>
    bheap s' p = Some \<lparr>base_data = NULL, base_type = t, base_nelem = n\<rparr>"
  using assms by (auto simp: allocates_def make_base_def grown_def split: option.splits)

lemma make_temp_grown:
  assumes "allocates env" and "finite (dom (bheap s))"
  shows "\<exists>p s'. make_temp env meta t n s = Some (meta\<lparr>base := p\<rparr>, s') \<and> grown [p] s s' \<and> instr_list s' = instr_list s"
  using make_base_grown [OF assms, of t n] by (auto simp: make_temp_def)

lemma make_temps3:
  assumes "allocates env" and "finite (dom (bheap s))"
  obtains p q r s1 s2 s3 where "make_temp env meta t n s = Some (meta\<lparr>base := p\<rparr>, s1)"
    and "make_temp env meta t' n s1 = Some (meta\<lparr>base := q\<rparr>, s2)" and "make_temp env meta t'' n s2 = Some (meta\<lparr>base := r\<rparr>, s3)"
    and "grown [p, q, r] s s3" and "instr_list s3 = instr_list s"
proof -
  obtain p s1 where 1: "make_temp env meta t n s = Some (meta\<lparr>base := p\<rparr>, s1)" "grown [p] s s1" "instr_list s1 = instr_list s"
    using make_temp_grown [OF assms] by blast
  obtain q s2 where 2: "make_temp env meta t' n s1 = Some (meta\<lparr>base := q\<rparr>, s2)" "grown [q] s1 s2" "instr_list s2 = instr_list s1"
    using make_temp_grown [OF assms(1) grown_finite [OF 1(2) assms(2)]] by blast
  have g2: "grown [p, q] s s2" using grown_trans [OF 1(2) 2(2)] by simp
  obtain r s3 where 3: "make_temp env meta t'' n s2 = Some (meta\<lparr>base := r\<rparr>, s3)" "grown [r] s2 s3" "instr_list s3 = instr_list s2"
    using make_temp_grown [OF assms(1) grown_finite [OF g2 assms(2)]] by blast
  have "grown [p, q, r] s s3" using grown_trans [OF g2 3(2)] by simp
  then show thesis using that 1 2 3 by simp
qed

subsection \<open>The expansions of sign and matrix product\<close>

definition sign_meta :: "bh_view \<Rightarrow> int \<times> bh_view" where
  "sign_meta out = contiguous_loop (ndim out) (out\<lparr>start := 0\<rparr>) 1"

definition sign_seq_real :: "exp_env \<Rightarrow> nat \<Rightarrow> bh_type \<Rightarrow> bh_view \<Rightarrow> bh_view \<Rightarrow> bh_view \<Rightarrow> bh_view \<Rightarrow> bh_view \<Rightarrow> bh_instruction list" where
  "sign_seq_real env pc t out inp lss gtr t_bool =
     [const_at env (pc + 1) BH_GREATER [t_bool, inp] t 0, plain_at env (pc + 2) BH_IDENTITY [lss, t_bool],
      plain_at env (pc + 3) BH_FREE [t_bool], plain_at env (pc + 4) BH_DISCARD [t_bool],
      const_at env (pc + 5) BH_LESS [t_bool, inp] t 0, plain_at env (pc + 6) BH_IDENTITY [gtr, t_bool],
      plain_at env (pc + 7) BH_FREE [t_bool], plain_at env (pc + 8) BH_DISCARD [t_bool],
      plain_at env (pc + 9) BH_SUBTRACT [out, lss, gtr],
      plain_at env (pc + 10) BH_FREE [lss], plain_at env (pc + 11) BH_DISCARD [lss],
      plain_at env (pc + 12) BH_FREE [gtr], plain_at env (pc + 13) BH_DISCARD [gtr]]"

lemma put_instr_state [simp]: "xpr (put_instr pc x s) = xpr s" "bheap (put_instr pc x s) = bheap s"
  "instr_list (put_instr pc x s) = insert_at pc x (instr_list s)"
  by (simp_all add: put_instr_def)

lemma grown_put_seq [simp]: "grown ps s (put_seq pc xs s') = grown ps s s'" "grown ps (nop_instr pc s) s' = grown ps s s'"
  by (simp_all add: grown_def nop_instr_def)

lemma expand_sign_real:
  assumes "instr_list s = pre @ c # post" and "allocates env" and "finite (dom (bheap s))"
    and "bheap s (base (operand c ! 1)) = Some b" and "base_type b \<noteq> BH_COMPLEX64" and "base_type b \<noteq> BH_COMPLEX128"
  obtains p q r s' where "expand_sign env (length pre) s = Some (13, s')" and "grown [p, q, r] s s'"
    and "instr_list s' = pre @ c\<lparr>opcode := BH_NONE\<rparr> # sign_seq_real env (length pre) (base_type b) (operand c ! 0) (operand c ! 1)
      ((snd (sign_meta (operand c ! 0)))\<lparr>base := p\<rparr>) ((snd (sign_meta (operand c ! 0)))\<lparr>base := q\<rparr>)
      ((snd (sign_meta (operand c ! 0)))\<lparr>base := r\<rparr>) @ post"
proof -
  define s0 where "s0 = nop_instr (length pre) s"
  obtain n meta where m: "sign_meta (operand c ! 0) = (n, meta)" by fastforce
  have s0: "finite (dom (bheap s0))" "bheap s0 = bheap s" "instr_list s0 = pre @ c\<lparr>opcode := BH_NONE\<rparr> # post"
    using assms(3) nop_instr_block [OF assms(1)] by (simp_all add: s0_def nop_instr_def)
  obtain p q r s1 s2 s3 where t: "make_temp env meta (base_type b) n s0 = Some (meta\<lparr>base := p\<rparr>, s1)"
    "make_temp env meta (base_type b) n s1 = Some (meta\<lparr>base := q\<rparr>, s2)" "make_temp env meta BH_BOOL n s2 = Some (meta\<lparr>base := r\<rparr>, s3)"
    "grown [p, q, r] s0 s3" "instr_list s3 = instr_list s0" by (rule make_temps3 [OF assms(2) s0(1)])
  have b: "bheap s3 (base (operand c ! 1)) = Some b" using grown_heap [OF t(4)] assms(4) s0(2) by simp
  have cc: "instr_list s ! length pre = c" using assms(1) by simp
  let ?seq = "sign_seq_real env (length pre) (base_type b) (operand c ! 0) (operand c ! 1) (meta\<lparr>base := p\<rparr>) (meta\<lparr>base := q\<rparr>) (meta\<lparr>base := r\<rparr>)"
  have e: "expand_sign env (length pre) s = Some (13, put_seq (length pre) ?seq s3)"
    unfolding expand_sign_def Let_def cc s0_def [symmetric] sign_meta_def [symmetric] m
    using assms(4-6) s0(2) t(1-3) b
    by (simp add: inject3_const_in1_def inject_plain_const sign_seq_real_def eval_nat_numeral)
  show thesis using that [OF e] t(4,5) s0(3) put_seq_block [of s3 pre "c\<lparr>opcode := BH_NONE\<rparr>" "[]" post "length pre" ?seq]
    by (simp add: s0_def m)
qed

definition sign_seq_complex ::
    "exp_env \<Rightarrow> nat \<Rightarrow> bh_type \<Rightarrow> bh_view \<Rightarrow> bh_view \<Rightarrow> bh_view \<Rightarrow> bh_view \<Rightarrow> bh_view \<Rightarrow> bh_instruction list" where
  "sign_seq_complex env pc float_type out inp f_abs b_zero f_zero =
     [plain_at env (pc + 1) BH_ABSOLUTE [f_abs, inp], const_at env (pc + 2) BH_EQUAL [b_zero, f_abs] float_type 0,
      plain_at env (pc + 3) BH_IDENTITY [f_zero, b_zero],
      plain_at env (pc + 4) BH_FREE [b_zero], plain_at env (pc + 5) BH_DISCARD [b_zero],
      plain_at env (pc + 6) BH_ADD [f_abs, f_abs, f_zero],
      plain_at env (pc + 7) BH_FREE [f_zero], plain_at env (pc + 8) BH_DISCARD [f_zero],
      plain_at env (pc + 9) BH_IDENTITY [out, f_abs],
      plain_at env (pc + 10) BH_FREE [f_abs], plain_at env (pc + 11) BH_DISCARD [f_abs],
      plain_at env (pc + 12) BH_DIVIDE [out, inp, out]]"

definition float_type_of :: "bh_type \<Rightarrow> bh_type" where
  "float_type_of t = (if t = BH_COMPLEX64 then BH_FLOAT32 else BH_FLOAT64)"

lemma expand_sign_complex:
  assumes "instr_list s = pre @ c # post" and "allocates env" and "finite (dom (bheap s))"
    and "bheap s (base (operand c ! 1)) = Some b" and "base_type b = BH_COMPLEX64 \<or> base_type b = BH_COMPLEX128"
  obtains p q r s' where "expand_sign env (length pre) s = Some (12, s')" and "grown [p, q, r] s s'"
    and "instr_list s' = pre @ c\<lparr>opcode := BH_NONE\<rparr> # sign_seq_complex env (length pre) (float_type_of (base_type b))
      (operand c ! 0) (operand c ! 1) ((snd (sign_meta (operand c ! 0)))\<lparr>base := p\<rparr>)
      ((snd (sign_meta (operand c ! 0)))\<lparr>base := q\<rparr>) ((snd (sign_meta (operand c ! 0)))\<lparr>base := r\<rparr>) @ post"
proof -
  define s0 where "s0 = nop_instr (length pre) s"
  define ft where "ft = float_type_of (base_type b)"
  obtain n meta where m: "sign_meta (operand c ! 0) = (n, meta)" by fastforce
  have s0: "finite (dom (bheap s0))" "bheap s0 = bheap s" "instr_list s0 = pre @ c\<lparr>opcode := BH_NONE\<rparr> # post"
    using assms(3) nop_instr_block [OF assms(1)] by (simp_all add: s0_def nop_instr_def)
  obtain p q r s1 s2 s3 where t: "make_temp env meta ft n s0 = Some (meta\<lparr>base := p\<rparr>, s1)"
    "make_temp env meta BH_BOOL n s1 = Some (meta\<lparr>base := q\<rparr>, s2)" "make_temp env meta ft n s2 = Some (meta\<lparr>base := r\<rparr>, s3)"
    "grown [p, q, r] s0 s3" "instr_list s3 = instr_list s0" by (rule make_temps3 [OF assms(2) s0(1)])
  have cc: "instr_list s ! length pre = c" using assms(1) by simp
  let ?seq = "sign_seq_complex env (length pre) ft (operand c ! 0) (operand c ! 1) (meta\<lparr>base := p\<rparr>) (meta\<lparr>base := q\<rparr>) (meta\<lparr>base := r\<rparr>)"
  have e: "expand_sign env (length pre) s = Some (12, put_seq (length pre) ?seq s3)"
    unfolding expand_sign_def Let_def cc s0_def [symmetric] sign_meta_def [symmetric] m float_type_of_def [symmetric]
    using assms(5) assms(4) s0(2) t(1-3)
    by (elim disjE) (simp_all add: inject_plain_const sign_seq_complex_def eval_nat_numeral ft_def)
  show thesis using that [OF e] t(4,5) s0(3) put_seq_block [of s3 pre "c\<lparr>opcode := BH_NONE\<rparr>" "[]" post "length pre" ?seq]
    by (simp add: s0_def m ft_def)
qed

definition matmul_views :: "bh_view \<Rightarrow> bh_view \<Rightarrow> bh_view \<times> bh_view" where
  "matmul_views a b =
     (let n = c_int (shape a ! 0); m = c_int (shape a ! 1); k = c_int (shape b ! 1)
      in (broadcast_dims (n, stride a ! 0) (k, 0) (m, stride a ! 1) a, broadcast_dims (n, 0) (k, stride b ! 1) (m, stride b ! 0) b))"

definition matmul_temp :: "bh_view \<Rightarrow> bh_view \<Rightarrow> bh_view" where
  "matmul_temp a b = (snd (contiguous_loop 3 (snd (matmul_views a b)) 1))\<lparr>start := 0\<rparr>"

definition matmul_seq :: "exp_env \<Rightarrow> nat \<Rightarrow> bh_view \<Rightarrow> bh_view \<Rightarrow> bh_view \<Rightarrow> bh_view \<Rightarrow> bh_instruction list" where
  "matmul_seq env pc out a_3d b_3d c_3d =
     [plain_at env (pc + 1) BH_MULTIPLY [c_3d, a_3d, b_3d], const_at env (pc + 2) BH_ADD_REDUCE [out, c_3d] BH_INT64 2,
      plain_at env (pc + 3) BH_FREE [c_3d], plain_at env (pc + 4) BH_DISCARD [c_3d]]"

lemma expand_matmul_block:
  assumes "instr_list s = pre @ c # post" and "allocates env" and "finite (dom (bheap s))"
    and "bheap s (base (operand c ! 2)) = Some b"
  obtains p s' where "expand_matmul env (length pre) s = Some (4, s')" and "grown [p] s s'"
    and "instr_list s' = pre @ c\<lparr>opcode := BH_NONE\<rparr> # matmul_seq env (length pre) (operand c ! 0)
      (fst (matmul_views (operand c ! 1) (operand c ! 2))) (snd (matmul_views (operand c ! 1) (operand c ! 2)))
      ((matmul_temp (operand c ! 1) (operand c ! 2))\<lparr>base := p\<rparr>) @ post"
proof -
  define s0 where "s0 = nop_instr (length pre) s"
  let ?a = "operand c ! 1" and ?b = "operand c ! 2"
  obtain n cv where m: "contiguous_loop 3 (snd (matmul_views ?a ?b)) 1 = (n, cv)" by fastforce
  have s0: "finite (dom (bheap s0))" "bheap s0 = bheap s" "instr_list s0 = pre @ c\<lparr>opcode := BH_NONE\<rparr> # post"
    using assms(3) nop_instr_block [OF assms(1)] by (simp_all add: s0_def nop_instr_def)
  obtain p s1 where t: "make_base env (base_type b) n s0 = Some (p, s1)" "grown [p] s0 s1" "instr_list s1 = instr_list s0"
    using make_base_grown [OF assms(2) s0(1)] by blast
  have cc: "instr_list s ! length pre = c" using assms(1) by simp
  have bb: "base (snd (matmul_views ?a ?b)) = base ?b" by (simp add: matmul_views_def Let_def broadcast_dims_def)
  let ?seq = "matmul_seq env (length pre) (operand c ! 0) (fst (matmul_views ?a ?b)) (snd (matmul_views ?a ?b)) ((matmul_temp ?a ?b)\<lparr>base := p\<rparr>)"
  have e: "expand_matmul env (length pre) s = Some (4, put_seq (length pre) ?seq s1)"
    using assms(4) s0(2) t(1) m bb unfolding expand_matmul_def matmul_views_def Let_def cc s0_def [symmetric] snd_conv fst_conv
    by (simp add: inject_plain_const matmul_seq_def matmul_temp_def matmul_views_def Let_def eval_nat_numeral)
  show thesis using that [OF e] t(2,3) s0(3) put_seq_block [of s1 pre "c\<lparr>opcode := BH_NONE\<rparr>" "[]" post "length pre" ?seq]
    by (simp add: s0_def)
qed

subsection \<open>Termination and the shape of the result\<close>

text \<open>The block of instructions that replaces one instruction, with the temporary arrays it creates.\<close>

inductive expansion :: "exp_env \<Rightarrow> expander \<Rightarrow> (ptr \<rightharpoonup> bh_base) \<Rightarrow> bh_instruction \<Rightarrow> bh_instruction list \<Rightarrow> ptr list \<Rightarrow> bool"
  for env x h where
  keep: "expansion env x h c [c] []"
    if "opcode c = BH_POWER \<Longrightarrow> powk_on x = 0 \<or> \<not> (\<exists>e. powk_applies c e)"
      and "opcode c = BH_MATMUL \<Longrightarrow> matmul_on x = 0" and "opcode c = BH_SIGN \<Longrightarrow> sign_on x = 0"
| powk: "expansion env x h c (c\<lparr>opcode := BH_NONE\<rparr> # powk_seq env pc (base_type b) (operand c ! 0) (operand c ! 1) e) []"
    if "opcode c = BH_POWER" and "powk_on x \<noteq> 0" and "powk_applies c e" and "h (base (operand c ! 0)) = Some b"
| matmul: "expansion env x h c (c\<lparr>opcode := BH_NONE\<rparr> # matmul_seq env pc (operand c ! 0)
      (fst (matmul_views (operand c ! 1) (operand c ! 2))) (snd (matmul_views (operand c ! 1) (operand c ! 2)))
      ((matmul_temp (operand c ! 1) (operand c ! 2))\<lparr>base := p\<rparr>)) [p]"
    if "opcode c = BH_MATMUL" and "matmul_on x \<noteq> 0"
| sign_real: "expansion env x h c (c\<lparr>opcode := BH_NONE\<rparr> # sign_seq_real env pc (base_type b) (operand c ! 0) (operand c ! 1)
      ((snd (sign_meta (operand c ! 0)))\<lparr>base := p\<rparr>) ((snd (sign_meta (operand c ! 0)))\<lparr>base := q\<rparr>)
      ((snd (sign_meta (operand c ! 0)))\<lparr>base := r\<rparr>)) [p, q, r]"
    if "opcode c = BH_SIGN" and "sign_on x \<noteq> 0" and "h (base (operand c ! 1)) = Some b"
      and "base_type b \<noteq> BH_COMPLEX64" and "base_type b \<noteq> BH_COMPLEX128"
| sign_complex: "expansion env x h c (c\<lparr>opcode := BH_NONE\<rparr> # sign_seq_complex env pc (float_type_of (base_type b))
      (operand c ! 0) (operand c ! 1) ((snd (sign_meta (operand c ! 0)))\<lparr>base := p\<rparr>)
      ((snd (sign_meta (operand c ! 0)))\<lparr>base := q\<rparr>) ((snd (sign_meta (operand c ! 0)))\<lparr>base := r\<rparr>)) [p, q, r]"
    if "opcode c = BH_SIGN" and "sign_on x \<noteq> 0" and "h (base (operand c ! 1)) = Some b"
      and "base_type b = BH_COMPLEX64 \<or> base_type b = BH_COMPLEX128"

inductive expands_to :: "exp_env \<Rightarrow> expander \<Rightarrow> (ptr \<rightharpoonup> bh_base) \<Rightarrow> bh_instruction list \<Rightarrow> bh_instruction list \<Rightarrow> ptr list \<Rightarrow> bool"
  for env x h where
  Nil: "expands_to env x h [] [] []"
| Cons: "expansion env x h c block ps \<Longrightarrow> expands_to env x h cs rest qs \<Longrightarrow> expands_to env x h (c # cs) (block @ rest) (ps @ qs)"

definition composite :: "bh_opcode \<Rightarrow> bool" where
  "composite op \<longleftrightarrow> op = BH_POWER \<or> op = BH_MATMUL \<or> op = BH_SIGN"

lemma opcode_plain_at [simp]: "opcode (plain_at env pc op vs) = op" "opcode (const_at env pc op vs t v) = op"
  by (simp_all add: plain_at_def const_at_def with_operands_def exp_set_constant_def)

lemma seq_not_composite:
  "instr \<in> set (powk_seq env pc t out in1 e) \<Longrightarrow> \<not> composite (opcode instr)"
  "instr \<in> set (matmul_seq env pc out a b c) \<Longrightarrow> \<not> composite (opcode instr)"
  by (auto simp: powk_seq_def matmul_seq_def composite_def Let_def split: if_splits)

lemma expand_loop_skip:
  assumes "instr_list s = done' @ xs @ rest" and "\<forall>instr \<in> set xs. \<not> composite (opcode instr)" and "end' = length (instr_list s)"
  shows "expand_loop env (length done') end' s = expand_loop env (length (done' @ xs)) end' s"
  using assms(1,2)
proof (induction xs arbitrary: done')
  case (Cons instr xs)
  have "expand_loop env (length done') end' s = expand_loop env (length done' + 1) end' s"
    using Cons.prems assms(3) by (subst expand_loop.simps) (simp add: composite_def)
  then show ?case using Cons.IH [of "done' @ [instr]"] Cons.prems by simp
qed simp

text \<open>What the expansion of an instruction reads: its input arrays must exist, and a constant exponent must be in the range
  of the conversions.\<close>

definition expandable :: "(ptr \<rightharpoonup> bh_base) \<Rightarrow> bh_instruction \<Rightarrow> bool" where
  "expandable h c \<longleftrightarrow>
     (opcode c = BH_POWER \<longrightarrow> h (base (operand c ! 0)) \<noteq> None \<and>
        (bh_is_constant (operand c ! 2) \<longrightarrow> bh_get_integer (inst_constant c) \<noteq> None)) \<and>
     (opcode c = BH_MATMUL \<longrightarrow> h (base (operand c ! 2)) \<noteq> None) \<and> (opcode c = BH_SIGN \<longrightarrow> h (base (operand c ! 1)) \<noteq> None)"

definition follows :: "expander \<Rightarrow> (ptr \<rightharpoonup> bh_base) \<Rightarrow> exp_state \<Rightarrow> bool" where
  "follows x h s \<longleftrightarrow> powk_on (xpr s) = powk_on x \<and> matmul_on (xpr s) = matmul_on x \<and> sign_on (xpr s) = sign_on x \<and>
     finite (dom (bheap s)) \<and> (\<forall>p b. h p = Some b \<longrightarrow> bheap s p = Some b)"

lemma follows_grown:
  assumes "follows x h s" and "grown ps s s'"
  shows "follows x h s'"
proof -
  have "xpr s' = (xpr s)\<lparr>exp_bases := exp_bases (xpr s) @ ps\<rparr>" using assms(2) by (simp add: grown_def)
  moreover have "bheap s' p = Some b" if "h p = Some b" for p b
    using grown_heap [OF assms(2)] assms(1) that by (simp add: follows_def)
  ultimately show ?thesis using assms(1) grown_finite [OF assms(2)] by (simp add: follows_def)
qed

lemma expand_loop_power:
  assumes "allocates env" and "instr_list s = done' @ c # todo" and "follows x h s" and "expandable h c"
    and "opcode c = BH_POWER" and "powk_on x \<noteq> 0"
  shows "\<exists>block ps s1. expansion env x h c block ps \<and> grown ps s s1 \<and> instr_list s1 = done' @ block @ todo \<and>
    expand_loop env (length done') (length (instr_list s)) s = expand_loop env (length (done' @ block)) (length (instr_list s1)) s1"
proof -
  have c: "instr_list s ! length done' = c" "length done' < length (instr_list s)" using assms(2) by simp_all
  have on: "powk_on (xpr s) \<noteq> 0" using assms(3,6) by (simp add: follows_def)
  obtain b where b: "h (base (operand c ! 0)) = Some b" "bheap s (base (operand c ! 0)) = Some b"
    using assms(3-5) by (auto simp: expandable_def follows_def)
  have step: "expand_loop env (length done') (length (instr_list s)) s =
      (case expand_powk env (length done') s of None \<Rightarrow> None
       | Some (n, s) \<Rightarrow> expand_loop env (length done' + 1) (length (done' @ c # todo) + n) s)"
    using c on assms(5) by (subst expand_loop.simps) (simp add: assms(2) split: option.split)
  show ?thesis
  proof (cases "\<exists>e. powk_applies c e")
    case True
    then obtain e where e: "powk_applies c e" by blast
    let ?c = "c\<lparr>opcode := BH_NONE\<rparr>" and ?seq = "powk_seq env (length done') (base_type b) (operand c ! 0) (operand c ! 1) e"
    let ?s1 = "s\<lparr>instr_list := done' @ ?c # ?seq @ todo\<rparr>"
    have "expand_loop env (length (done' @ [?c])) (length (instr_list ?s1)) ?s1 =
        expand_loop env (length ((done' @ [?c]) @ ?seq)) (length (instr_list ?s1)) ?s1"
      using expand_loop_skip [of ?s1 "done' @ [?c]" ?seq todo] seq_not_composite(1) by auto
    then have "expand_loop env (length done') (length (instr_list s)) s =
        expand_loop env (length (done' @ ?c # ?seq)) (length (instr_list ?s1)) ?s1"
      using step expand_powk_applies [OF assms(2) e b(2), of env] by (simp add: add.assoc add.commute add.left_commute)
    then show ?thesis using expansion.powk [where h = h, OF assms(5,6) e b(1)]
      by (intro exI [of _ "?c # ?seq"] exI [of _ "[]"] exI [of _ ?s1]) (simp add: grown_refl)
  next
    case False
    then have "expand_loop env (length done') (length (instr_list s)) s = expand_loop env (length (done' @ [c])) (length (instr_list s)) s"
      using step expand_powk_idle [OF assms(2) False] assms(2,4,5) by (simp add: expandable_def)
    then show ?thesis using expansion.keep [of c x env h] False assms(2,5)
      by (intro exI [of _ "[c]"] exI [of _ "[]"] exI [of _ s]) (simp add: grown_refl)
  qed
qed

lemma expand_loop_matmul:
  assumes "allocates env" and "instr_list s = done' @ c # todo" and "follows x h s" and "expandable h c"
    and "opcode c = BH_MATMUL" and "matmul_on x \<noteq> 0"
  shows "\<exists>block ps s1. expansion env x h c block ps \<and> grown ps s s1 \<and> instr_list s1 = done' @ block @ todo \<and>
    expand_loop env (length done') (length (instr_list s)) s = expand_loop env (length (done' @ block)) (length (instr_list s1)) s1"
proof -
  let ?c = "c\<lparr>opcode := BH_NONE\<rparr>" and ?v = "matmul_views (operand c ! 1) (operand c ! 2)"
  obtain b where b: "bheap s (base (operand c ! 2)) = Some b" using assms(3-5) by (auto simp: expandable_def follows_def)
  have fin: "finite (dom (bheap s))" using assms(3) by (simp add: follows_def)
  obtain p s1 where e: "expand_matmul env (length done') s = Some (4, s1)" "grown [p] s s1"
    "instr_list s1 = done' @ ?c # matmul_seq env (length done') (operand c ! 0) (fst ?v) (snd ?v)
      ((matmul_temp (operand c ! 1) (operand c ! 2))\<lparr>base := p\<rparr>) @ todo"
    by (rule expand_matmul_block [OF assms(2,1) fin b])
  define seq where "seq = matmul_seq env (length done') (operand c ! 0) (fst ?v) (snd ?v)
      ((matmul_temp (operand c ! 1) (operand c ! 2))\<lparr>base := p\<rparr>)"
  have len: "length seq = 4" by (simp add: seq_def matmul_seq_def)
  have "expand_loop env (length done') (length (instr_list s)) s = expand_loop env (length (done' @ [?c])) (length (instr_list s1)) s1"
    using assms(2,3,5,6) e(1,3) len by (subst expand_loop.simps) (simp add: follows_def seq_def add.commute add.left_commute)
  also have "\<dots> = expand_loop env (length ((done' @ [?c]) @ seq)) (length (instr_list s1)) s1"
    using seq_not_composite(2) e(3) by (intro expand_loop_skip [of s1 _ seq todo]) (auto simp: seq_def)
  finally show ?thesis using expansion.matmul [OF assms(5,6), of env h "length done'" p] e
    by (intro exI [of _ "?c # seq"] exI [of _ "[p]"] exI [of _ s1]) (simp add: seq_def)
qed

lemma expand_loop_sign:
  assumes "allocates env" and "instr_list s = done' @ c # todo" and "follows x h s" and "expandable h c"
    and "opcode c = BH_SIGN" and "sign_on x \<noteq> 0"
  shows "\<exists>block ps s1. expansion env x h c block ps \<and> grown ps s s1 \<and> instr_list s1 = done' @ block @ todo \<and>
    expand_loop env (length done') (length (instr_list s)) s = expand_loop env (length (done' @ block)) (length (instr_list s1)) s1"
proof -
  let ?c = "c\<lparr>opcode := BH_NONE\<rparr>" and ?m = "\<lambda>p. (snd (sign_meta (operand c ! 0)))\<lparr>base := p\<rparr>"
  obtain b where b: "h (base (operand c ! 1)) = Some b" "bheap s (base (operand c ! 1)) = Some b"
    using assms(3-5) by (auto simp: expandable_def follows_def)
  have fin: "finite (dom (bheap s))" using assms(3) by (simp add: follows_def)
  have "\<exists>n seq ps s1. expand_sign env (length done') s = Some (n, s1) \<and> n = length seq \<and> grown ps s s1 \<and>
     instr_list s1 = done' @ ?c # seq @ todo \<and> expansion env x h c (?c # seq) ps"
  proof (cases "base_type b = BH_COMPLEX64 \<or> base_type b = BH_COMPLEX128")
    case True
    obtain p q r s1 where "expand_sign env (length done') s = Some (12, s1)" "grown [p, q, r] s s1"
      "instr_list s1 = done' @ ?c # sign_seq_complex env (length done') (float_type_of (base_type b)) (operand c ! 0) (operand c ! 1) (?m p) (?m q) (?m r) @ todo" by (rule expand_sign_complex [OF assms(2,1) fin b(2) True])
    then show ?thesis using expansion.sign_complex [where h = h, OF assms(5,6) b(1) True, of env "length done'"]
      by (intro exI [of _ 12] exI [of _ "sign_seq_complex env (length done') (float_type_of (base_type b)) (operand c ! 0) (operand c ! 1) (?m p) (?m q) (?m r)"] exI [of _ "[p, q, r]"] exI [of _ s1])
        (simp add: sign_seq_complex_def)
  next
    case False
    then have t: "base_type b \<noteq> BH_COMPLEX64" "base_type b \<noteq> BH_COMPLEX128" by auto
    obtain p q r s1 where "expand_sign env (length done') s = Some (13, s1)" "grown [p, q, r] s s1"
      "instr_list s1 = done' @ ?c # sign_seq_real env (length done') (base_type b) (operand c ! 0) (operand c ! 1) (?m p) (?m q) (?m r) @ todo" by (rule expand_sign_real [OF assms(2,1) fin b(2) t])
    then show ?thesis using expansion.sign_real [where h = h, OF assms(5,6) b(1) t, of env "length done'"]
      by (intro exI [of _ 13] exI [of _ "sign_seq_real env (length done') (base_type b) (operand c ! 0) (operand c ! 1) (?m p) (?m q) (?m r)"] exI [of _ "[p, q, r]"] exI [of _ s1])
        (simp add: sign_seq_real_def)
  qed
  then obtain seq ps s1 where e: "expand_sign env (length done') s = Some (length seq, s1)" "grown ps s s1"
    "instr_list s1 = done' @ ?c # seq @ todo" "expansion env x h c (?c # seq) ps" by blast
  have "expand_loop env (length done') (length (instr_list s)) s =
      expand_loop env (length done' + length seq + 1) (length (done' @ c # todo) + length seq) s1"
    using assms(2,3,5,6) e(1) by (subst expand_loop.simps) (simp add: follows_def)
  then show ?thesis using e by (intro exI [of _ "?c # seq"] exI [of _ ps] exI [of _ s1]) (simp add: add.commute add.left_commute)
qed

lemma expand_loop_step:
  assumes "allocates env" and "instr_list s = done' @ c # todo" and "follows x h s" and "expandable h c"
  shows "\<exists>block ps s1. expansion env x h c block ps \<and> grown ps s s1 \<and> instr_list s1 = done' @ block @ todo \<and>
    expand_loop env (length done') (length (instr_list s)) s = expand_loop env (length (done' @ block)) (length (instr_list s1)) s1"
proof -
  consider "opcode c = BH_POWER" "powk_on x \<noteq> 0" | "opcode c = BH_MATMUL" "matmul_on x \<noteq> 0" | "opcode c = BH_SIGN" "sign_on x \<noteq> 0"
    | (idle) "opcode c = BH_POWER \<Longrightarrow> powk_on x = 0" "opcode c = BH_MATMUL \<Longrightarrow> matmul_on x = 0" "opcode c = BH_SIGN \<Longrightarrow> sign_on x = 0" by blast
  then show ?thesis
  proof cases
    case 1
    then show ?thesis by (rule expand_loop_power [OF assms])
  next
    case 2
    then show ?thesis by (rule expand_loop_matmul [OF assms])
  next
    case 3
    then show ?thesis by (rule expand_loop_sign [OF assms])
  next
    case idle
    then have "expand_loop env (length done') (length (instr_list s)) s = expand_loop env (length (done' @ [c])) (length (instr_list s)) s"
      using assms(2,3) by (subst expand_loop.simps) (auto simp: follows_def Let_def)
    then show ?thesis using expansion.keep [of c x env h] idle assms(2)
      by (intro exI [of _ "[c]"] exI [of _ "[]"] exI [of _ s]) (simp add: grown_refl)
  qed
qed

lemma expand_loop_result:
  assumes "allocates env" and "instr_list s = done' @ todo" and "follows x h s" and "\<forall>c \<in> set todo. expandable h c"
  shows "\<exists>s' out ps. expand_loop env (length done') (length (instr_list s)) s = Some s' \<and> grown ps s s' \<and>
    instr_list s' = done' @ out \<and> expands_to env x h todo out ps"
  using assms(2-4)
proof (induction todo arbitrary: s done')
  case Nil
  then have "expand_loop env (length done') (length (instr_list s)) s = Some s" by (subst expand_loop.simps) simp
  then show ?case using Nil expands_to.Nil by (auto intro!: exI [of _ "[]"] grown_refl)
next
  case (Cons c todo)
  obtain block ps s1 where 1: "expansion env x h c block ps" "grown ps s s1" "instr_list s1 = (done' @ block) @ todo"
    "expand_loop env (length done') (length (instr_list s)) s = expand_loop env (length (done' @ block)) (length (instr_list s1)) s1"
    using expand_loop_step [OF assms(1) Cons.prems(1,2)] Cons.prems(3) by auto
  obtain s' out qs where 2: "expand_loop env (length (done' @ block)) (length (instr_list s1)) s1 = Some s'" "grown qs s1 s'"
    "instr_list s' = (done' @ block) @ out" "expands_to env x h todo out qs"
    using Cons.IH [OF 1(3) follows_grown [OF Cons.prems(2) 1(2)]] Cons.prems(3) by auto
  then show ?case using expands_to.Cons [OF 1(1) 2(4)] grown_trans [OF 1(2) 2(2)] 1(4)
    by (intro exI [of _ s'] exI [of _ "block @ out"] exI [of _ "ps @ qs"]) simp
qed

text \<open>
  The expansion of composite instructions terminates although the list it walks over grows: every batch whose
  operands have base arrays and whose constant exponents can be converted is expanded, each instruction in place, into
  itself or into BH_NONE and the sequence for its opcode; the only other change is that the temporary arrays of the
  sequences, all different and new, are recorded by the expander.
\<close>

theorem expand_result:
  assumes "allocates env" and "finite (dom (bheap s))" and "\<forall>c \<in> set (instr_list s). expandable (bheap s) c"
  shows "\<exists>s' ps. expand env s = Some s' \<and> grown ps s s' \<and> expands_to env (xpr s) (bheap s) (instr_list s) (instr_list s') ps"
  using expand_loop_result [of env s "[]" "instr_list s" "xpr s" "bheap s"] assms by (auto simp: expand_def follows_def)

subsection \<open>Ownership of the temporary arrays\<close>

definition owns_bases :: "exp_state \<Rightarrow> bool" where
  "owns_bases s \<longleftrightarrow> distinct (exp_bases (xpr s)) \<and> set (exp_bases (xpr s)) \<subseteq> dom (bheap s)"

definition heap_without :: "ptr set \<Rightarrow> (ptr \<rightharpoonup> bh_base) \<Rightarrow> ptr \<rightharpoonup> bh_base" where
  "heap_without A h p = (if p \<in> A then None else h p)"

lemma pop_base_result:
  assumes "exp_bases (xpr s) = xs @ [p]"
  shows "bheap (pop_base s) = heap_without {p} (bheap s)" and "xpr (pop_base s) = (xpr s)\<lparr>exp_bases := xs\<rparr>"
    and "instr_list (pop_base s) = instr_list s"
  using assms by (auto simp: pop_base_def heap_without_def)

lemma heap_without_insert: "heap_without A (heap_without {p} h) = heap_without (insert p A) h"
  by (rule ext) (simp add: heap_without_def)

lemma heap_without_empty [simp]: "heap_without {} h = h"
  by (rule ext) (simp add: heap_without_def)

lemma gc_loop_result:
  assumes "exp_bases (xpr s) = xs @ ys"
  shows "gc_loop (length ys) n s = (n + length ys, s\<lparr>bheap := heap_without (set ys) (bheap s), xpr := (xpr s)\<lparr>exp_bases := xs\<rparr>\<rparr>)"
  using assms
proof (induction ys arbitrary: n s rule: rev_induct)
  case Nil
  then show ?case by simp
next
  case (snoc p ys)
  note pop = pop_base_result [of s "xs @ ys" p]
  have "gc_loop (length (ys @ [p])) n s = gc_loop (length ys) (Suc n) (pop_base s)" by simp
  also have "\<dots> = (Suc n + length ys, (pop_base s)\<lparr>bheap := heap_without (set ys) (heap_without {p} (bheap s)), xpr := (xpr s)\<lparr>exp_bases := xs\<rparr>\<rparr>)"
    using snoc.IH [of "pop_base s" "Suc n"] pop snoc.prems by simp
  also have "\<dots> = (n + length (ys @ [p]), s\<lparr>bheap := heap_without (set (ys @ [p])) (bheap s), xpr := (xpr s)\<lparr>exp_bases := xs\<rparr>\<rparr>)"
    by (simp add: heap_without_insert pop_base_def)
  finally show ?case .
qed

lemma expander_delete_gc: "expander_delete s = snd (gc_loop (length (exp_bases (xpr s))) n s)"
proof (induction s arbitrary: n rule: expander_delete.induct)
  case (1 s)
  then show ?case
    by (cases "exp_bases (xpr s)" rule: rev_cases) (simp_all add: expander_delete.simps [of s] pop_base_result)
qed

lemma expander_delete_result:
  "expander_delete s = s\<lparr>bheap := heap_without (set (exp_bases (xpr s))) (bheap s), xpr := (xpr s)\<lparr>exp_bases := []\<rparr>\<rparr>"
  using gc_loop_result [of s "[]" "exp_bases (xpr s)" 0] expander_delete_gc [of s 0] by simp

lemma grown_owns: "owns_bases s \<Longrightarrow> grown ps s s' \<Longrightarrow> owns_bases s'"
  by (auto simp: owns_bases_def grown_def)

lemma grown_delete:
  assumes "grown ps s s'" and "exp_bases (xpr s) = []"
  shows "heap_without (set ps) (bheap s') = bheap s" and "exp_bases (xpr s') = ps"
proof -
  have "bheap s p = None" if "p \<in> set ps" for p using assms(1) that by (auto simp: grown_def)
  then show "heap_without (set ps) (bheap s') = bheap s" using assms(1) by (auto simp: grown_def heap_without_def fun_eq_iff)
  show "exp_bases (xpr s') = ps" using assms by (simp add: grown_def)
qed

text \<open>
  C16. The expander owns its temporary arrays: after a batch its list names each of them once, all in the heap;
  garbage collection removes from heap and list exactly the newest ones beyond the threshold, none when the threshold
  is zero, and reports their number; and the destructor after it leaves the heap as it was before the batch, so nothing
  is freed twice and nothing leaks.
\<close>

theorem expander_memory:
  assumes "allocates env" and "finite (dom (bheap s))" and "\<forall>c \<in> set (instr_list s). expandable (bheap s) c"
    and "exp_bases (xpr s) = []"
  shows "\<exists>s' collected s''. expand env s = Some s' \<and> expander_gc s' = (collected, s'') \<and> owns_bases s' \<and> owns_bases s'' \<and>
    (let n = length (exp_bases (xpr s')); t = gc_threshold (xpr s)
     in collected = (if t = 0 then 0 else n - t) \<and> exp_bases (xpr s'') = take (n - collected) (exp_bases (xpr s'))) \<and>
    bheap (expander_delete s'') = bheap s"
proof -
  obtain s' ps where e: "expand env s = Some s'" and g: "grown ps s s'" using expand_result [OF assms(1-3)] by blast
  obtain collected s'' where c: "expander_gc s' = (collected, s'')" by fastforce
  note d = grown_delete [OF g assms(4)]
  have own: "owns_bases s'" using grown_owns [OF _ g] assms(4) by (simp add: owns_bases_def)
  have t: "gc_threshold (xpr s') = gc_threshold (xpr s)" using g by (simp add: grown_def)
  define k where "k = (if gc_threshold (xpr s) = 0 then 0 else length ps - gc_threshold (xpr s))"
  define xs ys where "xs = take (length ps - k) ps" and "ys = drop (length ps - k) ps"
  have xy: "ps = xs @ ys" "length ys = k" by (simp_all add: xs_def ys_def k_def)
  have "expander_gc s' = (if k = 0 then (0, s') else gc_loop k 0 s')"
    using d(2) t by (auto simp: expander_gc_def k_def)
  moreover have "gc_loop k 0 s' = (k, s'\<lparr>bheap := heap_without (set ys) (bheap s'), xpr := (xpr s')\<lparr>exp_bases := xs\<rparr>\<rparr>)"
    using gc_loop_result [of s' xs ys 0] d(2) xy by simp
  moreover have "gc_loop 0 0 s' = (0, s')" by simp
  ultimately have "(collected, s'') = (k, s'\<lparr>bheap := heap_without (set ys) (bheap s'), xpr := (xpr s')\<lparr>exp_bases := xs\<rparr>\<rparr>)"
    using c by (cases "k = 0") auto
  then have gc: "collected = k" "s'' = s'\<lparr>bheap := heap_without (set ys) (bheap s'), xpr := (xpr s')\<lparr>exp_bases := xs\<rparr>\<rparr>" by auto
  have "heap_without (set xs) (heap_without (set ys) (bheap s')) = heap_without (set ps) (bheap s')"
    using xy(1) by (auto simp: heap_without_def fun_eq_iff)
  then have "bheap (expander_delete s'') = bheap s" using gc(2) d(1) by (simp add: expander_delete_result)
  moreover have "owns_bases s''" using own gc(2) d(2) xy(1) by (auto simp: owns_bases_def heap_without_def dom_def)
  ultimately show ?thesis using e c own gc(1) d(2) unfolding gc(2)
    by (intro exI [of _ s'] exI [of _ collected] exI [of _ "s'\<lparr>bheap := heap_without (set ys) (bheap s'), xpr := (xpr s')\<lparr>exp_bases := xs\<rparr>\<rparr>"])
      (simp add: k_def xs_def)
qed

subsection \<open>A sample batch\<close>

text \<open>An allocator that takes the next address, and the sign of an array of three numbers.\<close>

definition ieee_one :: "byte list" where
  "ieee_one = [0, 0, 0, 0, 0, 0, 0xF0, 0x3F]"

definition sample_env :: exp_env where
  "sample_env = \<lparr>alloc = (\<lambda>h. Some (Suc (Max (insert 0 (dom h))))), junk = (\<lambda>pc. instr3 BH_NONE (mk_view NULL 0 []) (mk_view NULL 0 []) (mk_view NULL 0 [])),
     fconv = \<lparr>float32_of = (\<lambda>v. [0, 0, 0, 0]), float64_of = (\<lambda>v. if v = 0 then replicate 8 0 else ieee_one)\<rparr>\<rparr>"

definition sign_state :: "bh_type \<Rightarrow> ptr \<Rightarrow> exp_state" where
  "sign_state t p = \<lparr>instr_list = [instr3 BH_SIGN (line_view 1 3) (line_view p 3) (mk_view NULL 0 [])],
     xpr = Expander_new 2 1 1 1, bheap = [1 \<mapsto> \<lparr>base_data = 0, base_type = t, base_nelem = 3\<rparr>, 2 \<mapsto> \<lparr>base_data = 0, base_type = t, base_nelem = 3\<rparr>]\<rparr>"

lemma sample_allocates: "allocates sample_env"
proof -
  have "\<exists>p. alloc sample_env h = Some p \<and> p \<noteq> NULL \<and> h p = None" if "finite (dom h)" for h
  proof -
    have "Suc (Max (insert 0 (dom h))) \<notin> dom h"
    proof
      assume "Suc (Max (insert 0 (dom h))) \<in> dom h"
      then have "Suc (Max (insert 0 (dom h))) \<le> Max (insert 0 (dom h))" using that by (intro Max_ge) auto
      then show False by simp
    qed
    then show ?thesis by (auto simp: sample_env_def domIff)
  qed
  then show ?thesis by (simp add: allocates_def)
qed

lemma sign_state_expandable: "p = 1 \<or> p = 2 \<Longrightarrow> \<forall>c \<in> set (instr_list (sign_state t p)). expandable (bheap (sign_state t p)) c"
  by (auto simp: sign_state_def expandable_def instr3_def line_view_def mk_view_def)

theorem expander_memory_witness:
  "\<exists>s' collected s''. expand sample_env (sign_state BH_FLOAT64 2) = Some s' \<and> expander_gc s' = (collected, s'') \<and> owns_bases s' \<and> owns_bases s'' \<and>
    (let n = length (exp_bases (xpr s')); t = gc_threshold (xpr (sign_state BH_FLOAT64 2))
     in collected = (if t = 0 then 0 else n - t) \<and> exp_bases (xpr s'') = take (n - collected) (exp_bases (xpr s'))) \<and>
    bheap (expander_delete s'') = bheap (sign_state BH_FLOAT64 2)"
  by (rule expander_memory [OF sample_allocates _ sign_state_expandable]) (simp_all add: sign_state_def Expander_new_def)

end
