(* ===== verification/Flt_BcexpSem.thy ===== *)
theory Flt_BcexpSem
  imports Flt_Bcexp Flt_Dimclean
begin

text \<open>
  What the expansions of \<^verbatim>\<open>filter/bcexp\<close> compute. The arithmetic of the opcodes is exact (rounding is not modelled);
  releases of arrays do not change the memory, reductions are those of theory \<open>Flt_Bccon\<close>.
\<close>

subsection \<open>Stores\<close>

definition store :: "bh_view \<Rightarrow> (nat \<Rightarrow> 'v) \<Rightarrow> 'v memory \<Rightarrow> 'v memory" where
  "store v g m = fold (\<lambda>k m'. m'(element v k := g k)) [0..<length (view_offsets v)] m"

lemma store_other: "\<forall>k < length (view_offsets v). x \<noteq> element v k \<Longrightarrow> store v g m x = m x"
  unfolding store_def by (intro fold_store_other) auto

lemma store_base: "fst x \<noteq> base v \<Longrightarrow> store v g m x = m x"
  by (intro store_other) (auto simp: element_def)

lemma store_at: "distinct (view_offsets v) \<Longrightarrow> k < length (view_offsets v) \<Longrightarrow> store v g m (element v k) = g k"
  unfolding store_def using element_inj [of v] by (intro fold_store_at) auto

lemma store_cases:
  obtains k where "k < length (view_offsets v)" and "x = element v k" | "\<forall>k < length (view_offsets v). x \<noteq> element v k"
  by blast

lemma store_eqI:
  assumes "distinct (view_offsets v)" and "\<And>k. k < length (view_offsets v) \<Longrightarrow> m' (element v k) = g k"
    and "\<And>x. \<forall>k < length (view_offsets v). x \<noteq> element v k \<Longrightarrow> m' x = m x"
  shows "m' = store v g m"
proof
  fix x show "m' x = store v g m x"
    by (rule store_cases [of v x]) (use assms in \<open>simp_all add: store_at store_other\<close>)
qed

lemma store_cong: "(\<And>k. k < length (view_offsets v) \<Longrightarrow> g k = g' k) \<Longrightarrow> store v g m = store v g' m"
  unfolding store_def by (intro fold_cong) auto

lemma store_store: "distinct (view_offsets v) \<Longrightarrow> store v g' (store v g m) = store v g' m"
  by (intro store_eqI) (simp_all add: store_at store_other)

lemma element_other_base: "base w \<noteq> base v \<Longrightarrow> store v g m (element w k) = m (element w k)"
  by (intro store_base) (simp add: element_def)

text \<open>An instruction whose inputs are constants, the output view itself or views of other arrays acts on all elements
  at once.\<close>

definition input_at :: "(bh_constant \<Rightarrow> 'v) \<Rightarrow> bh_instruction \<Rightarrow> 'v memory \<Rightarrow> nat \<Rightarrow> nat \<Rightarrow> 'v" where
  "input_at c instr m k t = (if bh_is_constant (operand instr ! t) then c (inst_constant instr) else m (element (operand instr ! t) k))"

definition separate :: "bh_instruction \<Rightarrow> bool" where
  "separate instr \<longleftrightarrow> distinct (view_offsets (operand instr ! 0)) \<and>
     (\<forall>t. 1 \<le> t \<and> t < bh_operands (opcode instr) \<longrightarrow> bh_is_constant (operand instr ! t) \<or>
        operand instr ! t = operand instr ! 0 \<or> base (operand instr ! t) \<noteq> base (operand instr ! 0))"

lemma exec_elem_input:
  "exec_elem f c instr k m = m(element (operand instr ! 0) k := f (opcode instr) (map (input_at c instr m k) [1..<bh_operands (opcode instr)]))"
  by (simp add: exec_elem_def input_at_def [abs_def])

lemma exec_elem_separate:
  assumes "separate instr" and "distinct ks" and "set ks \<subseteq> {0..<length (view_offsets (operand instr ! 0))}"
  shows "fold (exec_elem f c instr) ks m = fold (\<lambda>k m'. m'(element (operand instr ! 0) k :=
    f (opcode instr) (map (input_at c instr m k) [1..<bh_operands (opcode instr)]))) ks m"
  using assms(2,3)
proof (induction ks rule: rev_induct)
  case (snoc k ks)
  let ?out = "operand instr ! 0" and ?g = "\<lambda>k. f (opcode instr) (map (input_at c instr m k) [1..<bh_operands (opcode instr)])"
  let ?m = "fold (\<lambda>k m'. m'(element ?out k := ?g k)) ks m"
  have inj: "inj_on (element ?out) {0..<length (view_offsets ?out)}" using assms(1) by (intro element_inj) (simp add: separate_def)
  have new: "element ?out k \<notin> element ?out ` set ks" using snoc.prems inj_on_image_mem_iff [OF inj, of k "set ks"] by auto
  have "input_at c instr ?m k t = input_at c instr m k t" if t: "1 \<le> t" "t < bh_operands (opcode instr)" for t
  proof (cases "bh_is_constant (operand instr ! t)")
    case False
    then consider "operand instr ! t = ?out" | "base (operand instr ! t) \<noteq> base ?out" using assms(1) t by (auto simp: separate_def)
    then show ?thesis
    proof cases
      case 2
      then have "element (operand instr ! t) k \<notin> element ?out ` set ks" by (auto simp: element_def)
      then show ?thesis by (simp add: input_at_def fold_store_other)
    qed (use new in \<open>simp add: input_at_def fold_store_other\<close>)
  qed (simp add: input_at_def)
  then have "map (input_at c instr ?m k) [1..<bh_operands (opcode instr)] = map (input_at c instr m k) [1..<bh_operands (opcode instr)]"
    by (intro map_cong) auto
  then have "exec_elem f c instr k ?m = ?m(element ?out k := ?g k)" by (simp only: exec_elem_input)
  moreover have "fold (exec_elem f c instr) ks m = ?m" using snoc.prems by (intro snoc.IH) auto
  ultimately show ?case by (simp only: fold_append fold.simps comp_apply id_apply)
qed simp

lemma exec_instr_separate:
  assumes "separate instr"
  shows "exec_instr f c instr m = store (operand instr ! 0)
    (\<lambda>k. f (opcode instr) (map (input_at c instr m k) [1..<bh_operands (opcode instr)])) m"
  unfolding exec_instr_def store_def using assms by (intro exec_elem_separate) auto

subsection \<open>Injected instructions\<close>

text \<open>Element \<open>(i, j)\<close> of the product, from the elements \<open>(i, l)\<close> of the one and \<open>(l, j)\<close> of the other matrix.\<close>

definition dot_product :: "bh_view \<Rightarrow> bh_view \<Rightarrow> nat \<Rightarrow> nat \<Rightarrow> nat \<Rightarrow> 'v::ring_1 memory \<Rightarrow> 'v" where
  "dot_product a b M i j m = (\<Sum>l\<leftarrow>[0..<M]. m (base a, start a + (int i * stride a ! 0 + int l * stride a ! 1)) *
     m (base b, start b + (int l * stride b ! 0 + int j * stride b ! 1)))"

definition matmul_store :: "bh_view \<Rightarrow> bh_view \<Rightarrow> bh_view \<Rightarrow> nat \<Rightarrow> nat \<Rightarrow> 'v::ring_1 memory \<Rightarrow> 'v memory" where
  "matmul_store out a b M K m = store out (\<lambda>q. dot_product a b M (q div K) (q mod K) m) m"

text \<open>Execution of an instruction. A matrix product is the sum over the inner dimension; \<open>f\<close> and \<open>c\<close> give the other opcodes
  and the constants their meaning.\<close>

definition run :: "(bh_opcode \<Rightarrow> 'v::ring_1 list \<Rightarrow> 'v) \<Rightarrow> (bh_constant \<Rightarrow> 'v) \<Rightarrow> bh_instruction \<Rightarrow> 'v memory \<Rightarrow> 'v memory" where
  "run f c instr m = (if bh_opcode_is_system (opcode instr) then m
     else if bh_opcode_is_reduction (opcode instr) then exec_reduce instr m
     else if opcode instr = BH_MATMUL then matmul_store (operand instr ! 0) (operand instr ! 1) (operand instr ! 2)
       (nat (shape (operand instr ! 1) ! 1)) (nat (shape (operand instr ! 2) ! 1)) m
     else exec_instr f c instr m)"

definition env_ok :: "exp_env \<Rightarrow> bool" where
  "env_ok env \<longleftrightarrow> allocates env \<and> (\<forall>pc. length (operand (junk env pc)) = 3)"

text \<open>A constant written by the filter is read as the number that was written.\<close>

definition reads :: "exp_env \<Rightarrow> (bh_constant \<Rightarrow> 'v::ring_1) \<Rightarrow> bh_type \<Rightarrow> int \<Rightarrow> bool" where
  "reads env c t v \<longleftrightarrow> (\<forall>k. c (set_constant_value (fconv env) t v (k\<lparr>ctype := t\<rparr>)) = of_int v)"

definition usable :: "bh_view \<Rightarrow> bh_view \<Rightarrow> bool" where
  "usable out v \<longleftrightarrow> base v \<noteq> NULL \<and> (v = out \<or> base v \<noteq> base out)"

lemma plain_at_operand: "env_ok env \<Longrightarrow> i < length vs \<Longrightarrow> operand (plain_at env pc op vs) ! i = vs ! i"
  by (simp add: plain_at_def with_operands_def nth_append)

lemma const_at_operand:
  assumes "env_ok env" and "length vs < 3"
  shows "i < length vs \<Longrightarrow> operand (const_at env pc op vs t v) ! i = vs ! i"
    and "bh_is_constant (operand (const_at env pc op vs t v) ! length vs)"
  using assms by (simp_all add: const_at_def exp_set_constant_def plain_at_def with_operands_def env_ok_def nth_append
      bh_is_constant_def bh_flag_constant_def)

lemma const_at_constant: "reads env c t v \<Longrightarrow> c (inst_constant (const_at env pc op vs t v)) = of_int v"
  by (simp add: reads_def const_at_def exp_set_constant_def)

lemma elementwise_opcodes:
  "bh_operands BH_MULTIPLY = 3" "bh_operands BH_IDENTITY = 2" "bh_operands BH_GREATER = 3" "bh_operands BH_LESS = 3"
  "bh_operands BH_SUBTRACT = 3" "bh_operands BH_ABSOLUTE = 2" "bh_operands BH_EQUAL = 3" "bh_operands BH_ADD = 3" "bh_operands BH_DIVIDE = 3"
  "bh_operands BH_SIGN = 2" "bh_operands BH_POWER = 3"
  by (simp_all add: opcode_eval)

definition pointwise_op :: "bh_opcode \<Rightarrow> bool" where
  "pointwise_op op \<longleftrightarrow> \<not> bh_opcode_is_system op \<and> \<not> bh_opcode_is_reduction op \<and> op \<noteq> BH_MATMUL"

lemma pointwise_opcodes [simp]:
  "pointwise_op BH_MULTIPLY" "pointwise_op BH_IDENTITY" "pointwise_op BH_GREATER" "pointwise_op BH_LESS" "pointwise_op BH_SUBTRACT"
  "pointwise_op BH_ABSOLUTE" "pointwise_op BH_EQUAL" "pointwise_op BH_ADD" "pointwise_op BH_DIVIDE" "pointwise_op BH_SIGN" "pointwise_op BH_POWER"
  by (simp_all add: pointwise_op_def opcode_eval)

lemma release_opcodes: "bh_opcode_is_system BH_FREE" "bh_opcode_is_system BH_DISCARD" "bh_opcode_is_system BH_NONE"
  "\<not> bh_opcode_is_system BH_ADD_REDUCE"
  by (simp_all add: opcode_eval)

lemma run_system [simp]: "run f c (plain_at env pc BH_FREE vs) m = m" "run f c (plain_at env pc BH_DISCARD vs) m = m"
  "run f c (instr\<lparr>opcode := BH_NONE\<rparr>) m = m"
  by (simp_all add: run_def release_opcodes)

definition fits :: "bh_view \<Rightarrow> bh_view \<Rightarrow> bool" where
  "fits out v \<longleftrightarrow> bh_is_constant v \<or> v = out \<or> base v \<noteq> base out"

lemma separate_3:
  assumes "bh_operands (opcode instr) = 3" and "distinct (view_offsets (operand instr ! 0))"
    and "fits (operand instr ! 0) (operand instr ! 1)" and "fits (operand instr ! 0) (operand instr ! 2)"
  shows "separate instr"
proof -
  have "t = 1 \<or> t = 2" if "1 \<le> t" "t < (3::nat)" for t using that by linarith
  then show ?thesis using assms unfolding separate_def fits_def by metis
qed

lemma separate_2:
  assumes "bh_operands (opcode instr) = 2" and "distinct (view_offsets (operand instr ! 0))"
    and "fits (operand instr ! 0) (operand instr ! 1)"
  shows "separate instr"
proof -
  have "t = 1" if "1 \<le> t" "t < (2::nat)" for t using that by linarith
  then show ?thesis using assms unfolding separate_def fits_def by metis
qed

lemma usable_fits: "usable out v \<Longrightarrow> fits out v"
  by (auto simp: usable_def fits_def)

lemma inputs_upt: "[Suc 0..<3] = [1, 2 :: nat]" "[Suc 0..<2] = [1 :: nat]"
  by (simp_all add: numeral_3_eq_3 numeral_2_eq_2)

lemma run_pointwise: "pointwise_op (opcode instr) \<Longrightarrow> separate instr \<Longrightarrow>
  run f c instr m = store (operand instr ! 0) (\<lambda>k. f (opcode instr) (map (input_at c instr m k) [1..<bh_operands (opcode instr)])) m"
  by (simp add: run_def pointwise_op_def exec_instr_separate)

lemma run_binary:
  assumes "env_ok env" and "pointwise_op op" and "bh_operands op = 3" and "distinct (view_offsets out)" and "usable out a" and "usable out b"
  shows "run f c (plain_at env pc op [out, a, b]) m = store out (\<lambda>k. f op [m (element a k), m (element b k)]) m"
proof -
  let ?i = "plain_at env pc op [out, a, b]"
  have o: "operand ?i ! 0 = out" "operand ?i ! 1 = a" "operand ?i ! 2 = b" using plain_at_operand [OF assms(1), of _ "[out, a, b]"] by simp_all
  have "separate ?i" using assms(3,4) usable_fits [OF assms(5)] usable_fits [OF assms(6)] o by (intro separate_3) simp_all
  then show ?thesis using run_pointwise [of ?i f c m] assms(2,3,5,6) o
    by (simp add: inputs_upt input_at_def usable_def bh_is_constant_def)
qed

lemma run_unary:
  assumes "env_ok env" and "pointwise_op op" and "bh_operands op = 2" and "distinct (view_offsets out)" and "usable out a"
  shows "run f c (plain_at env pc op [out, a]) m = store out (\<lambda>k. f op [m (element a k)]) m"
proof -
  let ?i = "plain_at env pc op [out, a]"
  have o: "operand ?i ! 0 = out" "operand ?i ! 1 = a" using plain_at_operand [OF assms(1), of _ "[out, a]"] by simp_all
  have "separate ?i" using assms(3,4) usable_fits [OF assms(5)] o by (intro separate_2) simp_all
  then show ?thesis using run_pointwise [of ?i f c m] assms(2,3,5) o
    by (simp add: inputs_upt input_at_def usable_def bh_is_constant_def)
qed

lemma run_binary_const:
  assumes "env_ok env" and "pointwise_op op" and "bh_operands op = 3" and "distinct (view_offsets out)" and "usable out a" and "reads env c t v"
  shows "run f c (const_at env pc op [out, a] t v) m = store out (\<lambda>k. f op [m (element a k), of_int v]) m"
proof -
  let ?i = "const_at env pc op [out, a] t v"
  have o: "operand ?i ! 0 = out" "operand ?i ! 1 = a" "bh_is_constant (operand ?i ! 2)"
    using const_at_operand [OF assms(1), of "[out, a]"] by (simp_all add: numeral_2_eq_2)
  have "separate ?i" using assms(3,4) usable_fits [OF assms(5)] o by (intro separate_3) (simp_all add: fits_def)
  then show ?thesis using run_pointwise [of ?i f c m] assms(2,3,5) o const_at_constant [OF assms(6)]
    by (simp add: inputs_upt input_at_def usable_def bh_is_constant_def)
qed

lemma run_const:
  assumes "env_ok env" and "pointwise_op op" and "bh_operands op = 2" and "distinct (view_offsets out)" and "reads env c t v"
  shows "run f c (const_at env pc op [out] t v) m = store out (\<lambda>k. f op [of_int v]) m"
proof -
  let ?i = "const_at env pc op [out] t v"
  have o: "operand ?i ! 0 = out" "bh_is_constant (operand ?i ! 1)" using const_at_operand [OF assms(1), of "[out]"] by simp_all
  have "separate ?i" using assms(3,4) o by (intro separate_2) (simp_all add: fits_def)
  then show ?thesis using run_pointwise [of ?i f c m] assms(2,3) o const_at_constant [OF assms(5)]
    by (simp add: inputs_upt input_at_def)
qed

subsection \<open>Power\<close>

abbreviation run_all :: "(bh_opcode \<Rightarrow> 'v::ring_1 list \<Rightarrow> 'v) \<Rightarrow> (bh_constant \<Rightarrow> 'v) \<Rightarrow> bh_instruction list \<Rightarrow> 'v memory \<Rightarrow> 'v memory" where
  "run_all f c \<equiv> fold (run f c)"

definition ring_ops :: "(bh_opcode \<Rightarrow> 'v::ring_1 list \<Rightarrow> 'v) \<Rightarrow> bool" where
  "ring_ops f \<longleftrightarrow> (\<forall>x y. f BH_ADD [x, y] = x + y \<and> f BH_SUBTRACT [x, y] = x - y \<and> f BH_MULTIPLY [x, y] = x * y \<and> f BH_IDENTITY [x] = x)"

lemma run_multiply:
  fixes f :: "bh_opcode \<Rightarrow> 'v::ring_1 list \<Rightarrow> 'v"
  assumes "env_ok env" and "ring_ops f" and "distinct (view_offsets out)" and "base out \<noteq> NULL" and "usable out a"
  shows "run f c (plain_at env pc BH_MULTIPLY [out, out, a]) (store out g m) = store out (\<lambda>k. g k * (store out g m) (element a k)) m"
proof -
  have "run f c (plain_at env pc BH_MULTIPLY [out, out, a]) (store out g m) =
      store out (\<lambda>k. (store out g m) (element out k) * (store out g m) (element a k)) (store out g m)"
    using assms by (subst run_binary) (simp_all add: elementwise_opcodes usable_def ring_ops_def)
  also have "\<dots> = store out (\<lambda>k. g k * (store out g m) (element a k)) (store out g m)"
    using assms(3) by (intro store_cong) (simp add: store_at)
  finally show ?thesis using assms(3) by (simp add: store_store)
qed

lemma powk_run:
  fixes f :: "bh_opcode \<Rightarrow> 'v::ring_1 list \<Rightarrow> 'v"
  assumes "env_ok env" and "ring_ops f" and "reads env c t 1" and "distinct (view_offsets out)" and "base out \<noteq> NULL" and "base in1 \<noteq> NULL"
    and "base out \<noteq> base in1"
  shows "run_all f c (powk_seq env pc t out in1 e) m = store out (\<lambda>k. m (element in1 k) ^ e) m"
proof -
  define x where "x = (\<lambda>k. m (element in1 k))"
  have us: "usable out in1" "usable out out" using assms(5-7) by (auto simp: usable_def)
  have sq: "run f c (plain_at env i BH_MULTIPLY [out, in1, in1]) m = store out (\<lambda>k. x k ^ 2) m" for i
    using run_binary [OF assms(1) _ _ assms(4) us(1) us(1), of BH_MULTIPLY f c i m] assms(2)
    by (simp add: elementwise_opcodes ring_ops_def x_def power2_eq_square)
  have mul: "run f c (plain_at env i BH_MULTIPLY [out, out, in1]) (store out (\<lambda>k. x k ^ n) m) = store out (\<lambda>k. x k ^ Suc n) m" for i n
    using run_multiply [OF assms(1,2,4,5) us(1), of c i "\<lambda>k. x k ^ n" m] assms(7)
    by (simp add: element_other_base x_def power_Suc2 del: power_Suc)
  have dbl: "run f c (plain_at env i BH_MULTIPLY [out, out, out]) (store out (\<lambda>k. x k ^ 2) m) = store out (\<lambda>k. x k ^ 4) m" for i
    using run_multiply [OF assms(1,2,4,5) us(2), of c i "\<lambda>k. x k ^ 2" m]
      store_cong [of out "\<lambda>k. x k ^ 2 * (store out (\<lambda>k. x k ^ 2) m) (element out k)" "\<lambda>k. x k ^ 4" m] assms(4)
    by (simp add: store_at flip: power_add)
  have unroll: "run_all f c (map (\<lambda>i. plain_at env (pc + i) BH_MULTIPLY [out, out, in1]) [2..<2 + n]) (store out (\<lambda>k. x k ^ 2) m) =
      store out (\<lambda>k. x k ^ (2 + n)) m" for n
  proof (induction n)
    case (Suc n)
    have "[2..<2 + Suc n] = [2..<2 + n] @ [2 + n]" by simp
    then show ?case using Suc mul [of "pc + (2 + n)" "2 + n"] by (simp del: power_Suc upt_Suc)
  qed simp
  consider "e = 0" | "e = 1" | "e = 4" | "e = 5" | n where "e = 2 + n" "e \<noteq> 4" "e \<noteq> 5"
    by (metis One_nat_def Suc_1 add_2_eq_Suc not0_implies_Suc)
  then show ?thesis
  proof cases
    case 1
    then show ?thesis using run_const [OF assms(1) _ _ assms(4,3), of BH_IDENTITY f "pc + 1" m] assms(2)
      by (simp add: powk_seq_def elementwise_opcodes ring_ops_def)
  next
    case 2
    then show ?thesis using run_unary [OF assms(1) _ _ assms(4) us(1), of BH_IDENTITY f c "pc + 1" m] assms(2)
      by (simp add: powk_seq_def elementwise_opcodes ring_ops_def)
  next
    case 3
    then show ?thesis by (simp add: powk_seq_def Let_def sq dbl) (simp add: x_def)
  next
    case 4
    then show ?thesis using mul [of "pc + 3" 4] by (simp add: powk_seq_def Let_def sq dbl) (simp add: x_def)
  next
    case 5
    then have "powk_seq env pc t out in1 e = plain_at env (pc + 1) BH_MULTIPLY [out, in1, in1] #
      map (\<lambda>i. plain_at env (pc + i) BH_MULTIPLY [out, out, in1]) [2..<2 + n]" by (simp add: powk_seq_def Let_def)
    then show ?thesis using 5 unroll [of n] sq [of "pc + 1"] by (simp add: x_def)
  qed
qed

subsection \<open>Sign\<close>

lemma sign_meta_offsets:
  assumes "wf_view out" and "nonneg_shape out"
  shows "distinct (view_offsets ((snd (sign_meta out))\<lparr>base := p\<rparr>))"
    and "length (view_offsets ((snd (sign_meta out))\<lparr>base := p\<rparr>)) = length (view_offsets out)"
proof -
  let ?v = "out\<lparr>start := 0\<rparr>"
  obtain n meta where m: "sign_meta out = (n, meta)" by fastforce
  have "wf_view ?v" "nonneg_shape ?v" using assms by (simp_all add: wf_view_def nonneg_shape_def)
  moreover have "bh_set_contiguous_stride ?v = (n, meta)" using m by (simp add: sign_meta_def bh_set_contiguous_stride_def)
  ultimately have c: "bh_nelements_view ?v = Some n" "view_offsets meta = [0..n - 1]" using set_contiguous_stride_correct by fastforce+
  have b: "view_offsets (meta\<lparr>base := p\<rparr>) = view_offsets meta" by (simp add: view_offsets_def view_dims_def)
  then show "distinct (view_offsets ((snd (sign_meta out))\<lparr>base := p\<rparr>))" using m c(2) by simp
  have "view_dims ?v = view_dims out" by (simp add: view_dims_def)
  then have "length (view_offsets ?v) = length (view_offsets out)" by (simp add: view_offsets_def)
  then have "n = int (length (view_offsets out))"
    using bh_nelements_view_eq [of ?v] c(1) \<open>wf_view ?v\<close> \<open>nonneg_shape ?v\<close> by simp
  then show "length (view_offsets ((snd (sign_meta out))\<lparr>base := p\<rparr>)) = length (view_offsets out)" using m b c(2) by simp
qed

lemma store_agree: "m x = m' x \<Longrightarrow> distinct (view_offsets v) \<Longrightarrow> store v g m x = store v g m' x"
  by (rule store_cases [of v x]) (simp_all add: store_at store_other)

definition order_ops :: "(bh_opcode \<Rightarrow> 'v::linordered_idom list \<Rightarrow> 'v) \<Rightarrow> bool" where
  "order_ops f \<longleftrightarrow> ring_ops f \<and> (\<forall>x y. f BH_GREATER [x, y] = of_bool (x > y) \<and> f BH_LESS [x, y] = of_bool (x < y))"

definition temps_ok :: "bh_view \<Rightarrow> bh_view \<Rightarrow> bh_view list \<Rightarrow> bool" where
  "temps_ok out inp ts \<longleftrightarrow> distinct (map base ts) \<and> base out \<noteq> NULL \<and> base inp \<noteq> NULL \<and> distinct (view_offsets out) \<and>
     (\<forall>t \<in> set ts. base t \<noteq> NULL \<and> base t \<noteq> base out \<and> base t \<noteq> base inp \<and> distinct (view_offsets t) \<and>
        length (view_offsets t) = length (view_offsets out))"

lemma sign_run_real:
  fixes f :: "bh_opcode \<Rightarrow> 'v::linordered_idom list \<Rightarrow> 'v"
  assumes "env_ok env" and "order_ops f" and "reads env c t 0" and "temps_ok out inp [lss, gtr, tb]"
    and "fst x \<notin> {base lss, base gtr, base tb}"
  shows "run_all f c (sign_seq_real env pc t out inp lss gtr tb) m x = store out (\<lambda>k. sgn (m (element inp k))) m x"
proof -
  note ts = assms(4) [unfolded temps_ok_def]
  define g1 g2 where "g1 = (\<lambda>k. of_bool (m (element inp k) > 0) :: 'v)" and "g2 = (\<lambda>k. of_bool (m (element inp k) < 0) :: 'v)"
  have us: "usable tb inp" "usable lss tb" "usable gtr tb" "usable out lss" "usable out gtr" using ts by (auto simp: usable_def)
  note ops = assms(2) [unfolded order_ops_def ring_ops_def]
  define m1 m2 m3 m4 where "m1 = store tb g1 m" and "m2 = store lss g1 m1" and "m3 = store tb g2 m2" and "m4 = store gtr g2 m3"
  have 1: "run f c (const_at env i BH_GREATER [tb, inp] t 0) m = m1" for i
    using ts us(1) ops assms(1,3) by (simp add: run_binary_const elementwise_opcodes m1_def g1_def)
  have 2: "run f c (plain_at env i BH_IDENTITY [lss, tb]) m1 = m2" for i
    using ts us(2) ops assms(1) by (auto simp: run_unary elementwise_opcodes m1_def m2_def store_at intro!: store_cong)
  have 3: "run f c (const_at env i BH_LESS [tb, inp] t 0) m2 = m3" for i
    using ts us(1) ops assms(1,3) by (auto simp: run_binary_const elementwise_opcodes m1_def m2_def m3_def g2_def element_other_base intro!: store_cong)
  have 4: "run f c (plain_at env i BH_IDENTITY [gtr, tb]) m3 = m4" for i
    using ts us(3) ops assms(1) by (auto simp: run_unary elementwise_opcodes m3_def m4_def store_at intro!: store_cong)
  have lss: "m4 (element lss k) = g1 k" if "k < length (view_offsets out)" for k
    using ts that by (auto simp: m4_def m3_def m2_def element_other_base store_at)
  have 5: "run f c (plain_at env i BH_SUBTRACT [out, lss, gtr]) m4 = store out (\<lambda>k. g1 k - g2 k) m4" for i
    using ts us(4,5) ops assms(1) lss by (auto simp: run_binary elementwise_opcodes m4_def store_at intro!: store_cong)
  have "m4 x = m x" using assms(5) by (simp add: m1_def m2_def m3_def m4_def store_base)
  then have "store out (\<lambda>k. g1 k - g2 k) m4 x = store out (\<lambda>k. g1 k - g2 k) m x" using ts by (intro store_agree) auto
  moreover have "g1 k - g2 k = sgn (m (element inp k))" for k by (auto simp: g1_def g2_def sgn_if)
  ultimately show ?thesis by (simp add: sign_seq_real_def 1 2 3 4 5)
qed

definition complex_ops :: "(bh_opcode \<Rightarrow> complex list \<Rightarrow> complex) \<Rightarrow> bool" where
  "complex_ops f \<longleftrightarrow> ring_ops f \<and> (\<forall>x y. f BH_ABSOLUTE [x] = of_real (cmod x) \<and> f BH_EQUAL [x, y] = of_bool (x = y) \<and>
     f BH_DIVIDE [x, y] = x / y)"

definition norm_or_one :: "complex \<Rightarrow> complex" where
  "norm_or_one z = of_real (cmod z) + of_bool (z = 0)"

lemma norm_or_one: "norm_or_one z \<noteq> 0" "z / norm_or_one z = sgn z"
  by (auto simp: norm_or_one_def sgn_eq)

lemma sign_run_complex:
  assumes "env_ok env" and "complex_ops f" and "reads env c t 0" and "temps_ok out inp [f_abs, b_zero, f_zero]"
    and "inp = out \<or> base inp \<noteq> base out" and "fst x \<notin> {base f_abs, base b_zero, base f_zero}"
  shows "run_all f c (sign_seq_complex env pc t out inp f_abs b_zero f_zero) m x =
    store out (\<lambda>k. if inp = out then 1 else sgn (m (element inp k))) m x"
proof -
  note ts = assms(4) [unfolded temps_ok_def]
  define z where "z = (\<lambda>k. m (element inp k))"
  define g0 where "g0 = (\<lambda>k. of_bool (z k = 0) :: complex)"
  have us: "usable f_abs inp" "usable b_zero f_abs" "usable f_zero b_zero" "usable f_abs f_abs" "usable f_abs f_zero" "usable out f_abs"
    "usable out inp" "usable out out" using ts assms(5) by (auto simp: usable_def)
  note ops = assms(2) [unfolded complex_ops_def ring_ops_def]
  define m1 m2 m3 m4 m5 where "m1 = store f_abs (\<lambda>k. of_real (cmod (z k))) m" and "m2 = store b_zero g0 m1" and "m3 = store f_zero g0 m2"
    and "m4 = store f_abs (\<lambda>k. norm_or_one (z k)) m3" and "m5 = store out (\<lambda>k. norm_or_one (z k)) m4"
  have 1: "run f c (plain_at env i BH_ABSOLUTE [f_abs, inp]) m = m1" for i
    using ts us(1) ops assms(1) by (simp add: run_unary elementwise_opcodes m1_def z_def)
  have 2: "run f c (const_at env i BH_EQUAL [b_zero, f_abs] t 0) m1 = m2" for i
    using ts us(2) ops assms(1,3) by (auto simp: run_binary_const elementwise_opcodes m1_def m2_def g0_def store_at intro!: store_cong)
  have 3: "run f c (plain_at env i BH_IDENTITY [f_zero, b_zero]) m2 = m3" for i
    using ts us(3) ops assms(1) by (auto simp: run_unary elementwise_opcodes m2_def m3_def store_at intro!: store_cong)
  have abs: "m3 (element f_abs k) = of_real (cmod (z k))" "m3 (element f_zero k) = of_bool (z k = 0)" if "k < length (view_offsets out)" for k
    using ts that by (auto simp: m3_def m2_def m1_def g0_def element_other_base store_at)
  have 4: "run f c (plain_at env i BH_ADD [f_abs, f_abs, f_zero]) m3 = m4" for i
    using ts us(4,5) ops assms(1) abs
    by (auto simp: run_binary elementwise_opcodes m4_def norm_or_one_def intro!: store_cong)
  have 5: "run f c (plain_at env i BH_IDENTITY [out, f_abs]) m4 = m5" for i
    using ts us(6) ops assms(1) by (auto simp: run_unary elementwise_opcodes m4_def m5_def store_at intro!: store_cong)
  have inp: "m5 (element inp k) = (if inp = out then norm_or_one (z k) else z k)" if "k < length (view_offsets out)" for k
    using ts that assms(5) by (auto simp: m5_def m4_def m3_def m2_def m1_def z_def element_other_base store_at)
  have 6: "run f c (plain_at env i BH_DIVIDE [out, inp, out]) m5 = store out (\<lambda>k. if inp = out then 1 else sgn (z k)) m5" for i
  proof -
    have "run f c (plain_at env i BH_DIVIDE [out, inp, out]) m5 = store out (\<lambda>k. m5 (element inp k) / m5 (element out k)) m5"
      using ts us(7,8) ops assms(1) by (simp add: run_binary elementwise_opcodes)
    also have "\<dots> = store out (\<lambda>k. if inp = out then 1 else sgn (z k)) m5"
      using ts inp by (intro store_cong) (auto simp: norm_or_one m5_def store_at)
    finally show ?thesis .
  qed
  have "m4 x = m x" using assms(6) by (simp add: m1_def m2_def m3_def m4_def store_base)
  then have "store out g m5 x = store out g m x" for g using ts by (auto simp: m5_def store_store intro!: store_agree)
  then show ?thesis by (simp add: sign_seq_complex_def 1 2 3 4 5 6) (simp only: z_def)
qed

subsection \<open>Matrix product\<close>

lemma offsets_nth2:
  assumes "i < N" and "j < K"
  shows "offsets [(int N, s0), (int K, s1)] ! (i * K + j) = int i * s0 + int j * s1"
proof -
  have "offsets [(int N, s0)] ! i = int i * s0" using offsets_snoc_nth [of 0 "[]" i "int N" s0] assms by simp
  then show ?thesis using offsets_snoc_nth [of i "[(int N, s0)]" j "int K" s1] assms length_offsets_snoc [of "[]" "int N" s0] by simp
qed

lemma length_offsets2: "length (offsets [(int N, s0), (int K, s1)]) = N * K"
  using length_offsets_snoc [of "[(int N, s0)]" "int K" s1] length_offsets_snoc [of "[]" "int N" s0] by simp

lemma offsets_nth3:
  assumes "i < N" and "j < K" and "l < M"
  shows "offsets [(int N, s0), (int K, s1), (int M, s2)] ! ((i * K + j) * M + l) = int i * s0 + int j * s1 + int l * s2"
proof -
  have "i * K + j < Suc i * K" using assms(2) by simp
  also have "\<dots> \<le> N * K" using assms(1) by (intro mult_le_mono1) simp
  finally have "i * K + j < N * K" .
  then show ?thesis
    using offsets_snoc_nth [of "i * K + j" "[(int N, s0), (int K, s1)]" l "int M" s2] offsets_nth2 [OF assms(1,2)] assms(3) length_offsets2
    by (simp add: offsets_append)
qed

lemma length_offsets3: "length (offsets [(int N, s0), (int K, s1), (int M, s2)]) = N * K * M"
  using length_offsets_snoc [of "[(int N, s0), (int K, s1)]" "int M" s2] length_offsets2 [of N s0 K s1] by simp

lemma exec_reduce_store:
  assumes "constant_int64 (inst_constant instr) = int a" and "a < length (view_dims (operand instr ! 1))"
    and "length (view_offsets (operand instr ! 0)) = length (offsets (drop_axis a (view_dims (operand instr ! 1))))"
  shows "exec_reduce instr m = store (operand instr ! 0) (axis_sum (operand instr ! 1) a m) m"
proof (cases "length (view_offsets (operand instr ! 0)) = 1")
  case True
  then have "view_sum (operand instr ! 1) m = axis_sum (operand instr ! 1) a m 0" using axis_sum_total [OF assms(2), of m] assms(3) by simp
  then show ?thesis using True by (simp add: exec_reduce_def store_def)
next
  case False
  then show ?thesis using assms(1) by (simp add: exec_reduce_def store_def Let_def)
qed

definition matmul_dims :: "bh_view \<Rightarrow> bh_view \<Rightarrow> bh_view \<Rightarrow> nat \<Rightarrow> nat \<Rightarrow> nat \<Rightarrow> bool" where
  "matmul_dims out a b N M K \<longleftrightarrow> wf_view a \<and> wf_view b \<and> length (shape a) = BH_MAXDIM \<and> length (stride a) = BH_MAXDIM \<and>
     length (shape b) = BH_MAXDIM \<and> length (stride b) = BH_MAXDIM \<and>
     shape a ! 0 = int N \<and> shape a ! 1 = int M \<and> shape b ! 0 = int M \<and> shape b ! 1 = int K \<and>
     fits_int (int N) \<and> fits_int (int M) \<and> fits_int (int K) \<and>
     length (view_offsets out) = N * K \<and> distinct (view_offsets out) \<and> base out \<noteq> NULL \<and> base a \<noteq> NULL \<and> base b \<noteq> NULL"

lemma maxdim_list: "length xs = BH_MAXDIM \<Longrightarrow> \<exists>x0 x1 x2 ys. xs = x0 # x1 # x2 # ys"
  by (auto simp: BH_MAXDIM_def length_Suc_conv eval_nat_numeral)

lemma view_dims_3:
  assumes "length (shape v) = BH_MAXDIM" and "length (stride v) = BH_MAXDIM"
  shows "view_dims (broadcast_dims d0 d1 d2 v) = [d0, d1, d2]"
  using maxdim_list [OF assms(1)] maxdim_list [OF assms(2)] by (auto simp: view_dims_def broadcast_dims_def eval_nat_numeral)

lemma contiguous_3:
  assumes "length (shape v) = BH_MAXDIM" and "length (stride v) = BH_MAXDIM"
  shows "contiguous_loop 3 (broadcast_dims (n, s0) (k, s1) (m, s2) v) 1 = (m * k * n, broadcast_dims (n, m * k) (k, m) (m, 1) v)"
  using maxdim_list [OF assms(1)] maxdim_list [OF assms(2)] by (auto simp: eval_nat_numeral broadcast_dims_def)

lemma matmul_views_dims:
  assumes "matmul_dims out a b N M K"
  shows "view_dims (fst (matmul_views a b)) = [(int N, stride a ! 0), (int K, 0), (int M, stride a ! 1)]"
    and "view_dims (snd (matmul_views a b)) = [(int N, 0), (int K, stride b ! 1), (int M, stride b ! 0)]"
    and "view_dims ((matmul_temp a b)\<lparr>base := p\<rparr>) = [(int N, int (M * K)), (int K, int M), (int M, 1)]"
    and "base (fst (matmul_views a b)) = base a" "start (fst (matmul_views a b)) = start a"
    and "base (snd (matmul_views a b)) = base b" "start (snd (matmul_views a b)) = start b"
  using assms
proof -
  note d = assms [unfolded matmul_dims_def]
  show "view_dims (fst (matmul_views a b)) = [(int N, stride a ! 0), (int K, 0), (int M, stride a ! 1)]"
    "view_dims (snd (matmul_views a b)) = [(int N, 0), (int K, stride b ! 1), (int M, stride b ! 0)]"
    using d by (simp_all add: matmul_views_def Let_def view_dims_3)
  have "view_dims ((matmul_temp a b)\<lparr>base := p\<rparr>) = view_dims (broadcast_dims (int N, int (M * K)) (int K, int M) (int M, 1) b)"
    using d by (simp add: matmul_temp_def matmul_views_def Let_def contiguous_3 view_dims_def)
  then show "view_dims ((matmul_temp a b)\<lparr>base := p\<rparr>) = [(int N, int (M * K)), (int K, int M), (int M, 1)]"
    using d by (simp add: view_dims_3)
qed (simp_all add: matmul_views_def Let_def broadcast_dims_def)

lemma contiguous_offsets_3: "offsets [(int N, int (M * K)), (int K, int M), (int M, 1)] = [0..int (N * K * M) - 1]"
proof (rule nth_equalityI)
  show "length (offsets [(int N, int (M * K)), (int K, int M), (int M, 1)]) = length [0..int (N * K * M) - 1]"
    unfolding length_offsets3 by (simp add: nat_mult_distrib)
next
  fix t assume "t < length (offsets [(int N, int (M * K)), (int K, int M), (int M, 1)])"
  then have t: "t < N * K * M" unfolding length_offsets3 .
  define q l i j where "q = t div M" and "l = t mod M" and "i = q div K" and "j = q mod K"
  have "0 < M" "0 < K" using t by (auto intro: gr0I)
  then have b: "l < M" "j < K" "t = (i * K + j) * M + l" by (simp_all add: q_def l_def i_def j_def)
  have "q < N * K" using t \<open>0 < M\<close> by (simp add: q_def less_mult_imp_div_less)
  then have "i < N" by (simp add: i_def less_mult_imp_div_less)
  then have "offsets [(int N, int (M * K)), (int K, int M), (int M, 1)] ! t = int i * int (M * K) + int j * int M + int l * 1"
    unfolding b(3) by (intro offsets_nth3 b)
  also have "\<dots> = int t" using b(3) by (simp add: algebra_simps)
  finally show "offsets [(int N, int (M * K)), (int K, int M), (int M, 1)] ! t = [0..int (N * K * M) - 1] ! t"
    using t by (simp flip: of_nat_mult)
qed

lemma sum_list_upto: "(\<Sum>l\<leftarrow>[0..int M - 1]. g l) = (\<Sum>l\<leftarrow>[0..<M]. g (int l))"
proof -
  have "[0..int M - 1] = map int [0..<M]" by (rule nth_equalityI) simp_all
  then show ?thesis by (simp add: comp_def)
qed

lemma matmul_temp_sum:
  fixes m :: "'v::ring_1 memory" and p :: ptr
  assumes "matmul_dims out a b N M K" and "q < N * K"
  defines "c_3d \<equiv> (matmul_temp a b)\<lparr>base := p\<rparr>"
  shows "axis_sum c_3d 2 (store c_3d (\<lambda>t. m (element (fst (matmul_views a b)) t) * m (element (snd (matmul_views a b)) t)) m) q =
    dot_product a b M (q div K) (q mod K) m"
proof -
  note v = matmul_views_dims [OF assms(1)]
  have c: "view_dims c_3d = [(int N, int (M * K)), (int K, int M), (int M, 1)]" "base c_3d = p" "start c_3d = 0"
    using v(3) by (simp_all add: c_3d_def matmul_temp_def)
  have off: "view_offsets c_3d = [0..int (N * K * M) - 1]" unfolding view_offsets_def c contiguous_offsets_3 by simp
  define i j where "i = q div K" and "j = q mod K"
  have "0 < K" using assms(2) by (auto intro: gr0I)
  then have ij: "i < N" "j < K" "q = i * K + j" using assms(2) by (simp_all add: i_def j_def less_mult_imp_div_less)
  have t: "q * M + l < N * K * M" if "l < M" for l
  proof -
    have "q * M + l < Suc q * M" using that by simp
    also have "\<dots> \<le> N * K * M" using assms(2) by (intro mult_le_mono1) simp
    finally show ?thesis .
  qed
  let ?g = "\<lambda>t. m (element (fst (matmul_views a b)) t) * m (element (snd (matmul_views a b)) t)"
  have at: "store c_3d ?g m (p, int (q * M + l)) = ?g (q * M + l)" if "l < M" for l
  proof -
    have "(p, int (q * M + l)) = element c_3d (q * M + l)" using t [OF that] by (simp add: element_def off c(2) flip: of_nat_mult)
    then show ?thesis using t [OF that] by (simp add: store_at off nat_mult_distrib flip: of_nat_mult)
  qed
  have el: "?g (q * M + l) = m (base a, start a + (int i * stride a ! 0 + int l * stride a ! 1)) *
      m (base b, start b + (int l * stride b ! 0 + int j * stride b ! 1))" if "l < M" for l
    using offsets_nth3 [OF ij(1,2) that] t [OF that] unfolding ij(3) element_def view_offsets_def v
    by (simp add: length_offsets3 del: offsets.simps) (simp only: add.commute)
  have "offsets (drop_axis 2 (view_dims c_3d)) ! q = int (q * M)"
    using offsets_nth2 [OF ij(1,2), of "int (M * K)" "int M"] unfolding c drop_axis_def ij(3) by (simp add: algebra_simps del: offsets.simps)
  then have "axis_sum c_3d 2 (store c_3d ?g m) q = (\<Sum>l\<leftarrow>[0..int M - 1]. store c_3d ?g m (p, int (q * M) + l * 1))"
    unfolding axis_sum_def c by (simp del: offsets.simps)
  also have "\<dots> = (\<Sum>l\<leftarrow>[0..<M]. store c_3d ?g m (p, int (q * M + l)))" unfolding sum_list_upto by simp
  also have "\<dots> = dot_product a b M i j m"
    unfolding dot_product_def using at el by (intro arg_cong [where f = sum_list] map_cong) auto
  finally show ?thesis by (simp add: i_def j_def)
qed

lemma matmul_run:
  fixes f :: "bh_opcode \<Rightarrow> 'v::ring_1 list \<Rightarrow> 'v"
  assumes "env_ok env" and "ring_ops f" and "matmul_dims out a b N M K" and "p \<notin> {NULL, base out, base a, base b}" and "fst x \<noteq> p"
  shows "run_all f c (matmul_seq env pc out (fst (matmul_views a b)) (snd (matmul_views a b)) ((matmul_temp a b)\<lparr>base := p\<rparr>)) m x =
    matmul_store out a b M K m x"
proof -
  let ?c = "(matmul_temp a b)\<lparr>base := p\<rparr>" and ?va = "fst (matmul_views a b)" and ?vb = "snd (matmul_views a b)"
  note v = matmul_views_dims [OF assms(3)] and d = assms(3) [unfolded matmul_dims_def]
  define m1 where "m1 = store ?c (\<lambda>t. m (element ?va t) * m (element ?vb t)) m"
  have off: "distinct (view_offsets ?c)" unfolding view_offsets_def v(3) [where p = p] contiguous_offsets_3 by (simp add: distinct_map)
  have 1: "run f c (plain_at env i BH_MULTIPLY [?c, ?va, ?vb]) m = m1" for i
    using assms(1,2,4) off d v(4,6) by (subst run_binary) (auto simp: elementwise_opcodes usable_def ring_ops_def m1_def)
  have 2: "run f c (const_at env i BH_ADD_REDUCE [out, ?c] BH_INT64 2) m1 = store out (axis_sum ?c 2 m1) m1" for i
  proof -
    let ?i = "const_at env i BH_ADD_REDUCE [out, ?c] BH_INT64 2"
    have o: "operand ?i ! 0 = out" "operand ?i ! 1 = ?c" using const_at_operand(1) [OF assms(1), of "[out, ?c]"] by simp_all
    have "constant_int64 (inst_constant ?i) = int 2"
      by (simp add: const_at_def exp_set_constant_def set_constant_value_def constant_int64_put)
    moreover have "length (view_offsets out) = length (offsets (drop_axis 2 (view_dims ?c)))"
      using d length_offsets2 [of N _ K] unfolding v(3) [where p = p] drop_axis_def by (simp del: offsets.simps)
    ultimately have "exec_reduce ?i m1 = store out (axis_sum ?c 2 m1) m1"
      using exec_reduce_store [of ?i 2 m1] v(3) [where p = p] unfolding o by simp
    then show ?thesis by (simp add: run_def release_opcodes)
  qed
  have "store out (axis_sum ?c 2 m1) m1 = store out (\<lambda>q. dot_product a b M (q div K) (q mod K) m) m1"
    using matmul_temp_sum [OF assms(3)] d by (intro store_cong) (simp add: m1_def)
  moreover have "m1 x = m x" using assms(5) by (simp add: m1_def store_base)
  ultimately show ?thesis using d store_agree [of m1 x m out] by (simp add: matmul_seq_def 1 2 matmul_store_def)
qed

subsection \<open>Whole batches\<close>

text \<open>Memories that agree outside a set of arrays.\<close>

definition agree :: "ptr set \<Rightarrow> 'v memory \<Rightarrow> 'v memory \<Rightarrow> bool" where
  "agree A m m' \<longleftrightarrow> (\<forall>x. fst x \<notin> A \<longrightarrow> m x = m' x)"

lemma agree_element: "agree A m m' \<Longrightarrow> base v \<notin> A \<Longrightarrow> m (element v k) = m' (element v k)"
  by (simp add: agree_def element_def)

lemma agree_trans: "agree A m m' \<Longrightarrow> agree A m' m'' \<Longrightarrow> agree A m m''"
  by (simp add: agree_def)

lemma agree_mono: "agree A m m' \<Longrightarrow> A \<subseteq> B \<Longrightarrow> agree B m m'"
  by (auto simp: agree_def)

lemma agree_fold:
  assumes "\<And>k m m'. k \<in> set ks \<Longrightarrow> agree A m m' \<Longrightarrow> agree A (g k m) (g' k m')" and "agree A m m'"
  shows "agree A (fold g ks m) (fold g' ks m')"
  using assms by (induction ks arbitrary: m m') auto

lemma agree_upd: "agree A m m' \<Longrightarrow> y = y' \<Longrightarrow> agree A (m(x := y)) (m'(x := y'))"
  by (simp add: agree_def)

lemma agree_store: "agree A m m' \<Longrightarrow> (\<And>k. g k = g' k) \<Longrightarrow> agree A (store v g m) (store v g' m')"
  unfolding store_def by (intro agree_fold agree_upd) auto

definition uses_only :: "(ptr \<rightharpoonup> bh_base) \<Rightarrow> bh_instruction \<Rightarrow> bool" where
  "uses_only h instr \<longleftrightarrow> (\<forall>t < bh_operands (opcode instr). bh_is_constant (operand instr ! t) \<or> base (operand instr ! t) \<in> dom h)"

lemma uses_only_base: "uses_only h instr \<Longrightarrow> t < bh_operands (opcode instr) \<Longrightarrow> base (operand instr ! t) \<noteq> NULL \<Longrightarrow> base (operand instr ! t) \<in> dom h"
  by (auto simp: uses_only_def bh_is_constant_def)

lemma run_agree:
  assumes "agree A m m'" and "uses_only h instr" and "A \<inter> dom h = {}" and "NULL \<notin> A"
  shows "agree A (run f c instr m) (run f c instr m')"
proof -
  have b: "base (operand instr ! t) \<notin> A" if "t < bh_operands (opcode instr)" for t
    using assms(2-4) that unfolding uses_only_def bh_is_constant_def by (metis IntI empty_iff)
  have elem: "agree A (exec_instr f c instr m) (exec_instr f c instr m')"
    unfolding exec_instr_def exec_elem_def using b assms(1)
    by (intro agree_fold agree_upd arg_cong [where f = "f (opcode instr)"] map_cong) (auto intro!: agree_element)
  have "bh_operands BH_MATMUL = 3" by (simp add: opcode_eval)
  then have mat: "agree A (matmul_store (operand instr ! 0) (operand instr ! 1) (operand instr ! 2) M K m)
      (matmul_store (operand instr ! 0) (operand instr ! 1) (operand instr ! 2) M K m')" if "opcode instr = BH_MATMUL" for M K
    using b [of 1] b [of 2] that assms(1) unfolding matmul_store_def dot_product_def
    by (intro agree_store arg_cong [where f = sum_list] map_cong) (auto simp: agree_def)
  have "agree A (exec_reduce instr m) (exec_reduce instr m')" if "bh_opcode_is_reduction (opcode instr)"
  proof -
    have "bh_operands (opcode instr) = 3" using that sweep_operands [of "opcode instr"] by (simp add: bh_opcode_is_sweep_def)
    then have v: "m (base (operand instr ! 1), p) = m' (base (operand instr ! 1), p)" for p
      using b [of 1] assms(1) by (simp add: agree_def)
    then have "view_sum (operand instr ! 1) m = view_sum (operand instr ! 1) m'" "axis_sum (operand instr ! 1) a m = axis_sum (operand instr ! 1) a m'" for a
      by (simp_all add: view_sum_def axis_sum_def fun_eq_iff)
    then show ?thesis unfolding exec_reduce_def Let_def using assms(1) by (auto intro!: agree_fold agree_upd simp del: fun_upd_apply)
  qed
  then show ?thesis using elem mat assms(1) by (auto simp: run_def)
qed

text \<open>The meaning of the composite opcodes, and constants that are read as they were written.\<close>

definition composite_ops :: "exp_env \<Rightarrow> (bh_opcode \<Rightarrow> 'v::linordered_idom list \<Rightarrow> 'v) \<Rightarrow> (bh_constant \<Rightarrow> 'v) \<Rightarrow> (ptr \<rightharpoonup> bh_base) \<Rightarrow> bool" where
  "composite_ops env f c h \<longleftrightarrow> order_ops f \<and> (\<forall>x. f BH_SIGN [x] = sgn x) \<and>
     (\<forall>x k e. bh_get_integer k = Some (int e) \<longrightarrow> f BH_POWER [x, c k] = x ^ e) \<and>
     (\<forall>p b. h p = Some b \<longrightarrow> reads env c (base_type b) 0 \<and> reads env c (base_type b) 1)"

definition instr_fine :: "(ptr \<rightharpoonup> bh_base) \<Rightarrow> bh_instruction \<Rightarrow> bool" where
  "instr_fine h instr \<longleftrightarrow> uses_only h instr \<and>
     (opcode instr = BH_POWER \<or> opcode instr = BH_SIGN \<longrightarrow> separate instr \<and> \<not> bh_is_constant (operand instr ! 0) \<and> \<not> bh_is_constant (operand instr ! 1)) \<and>
     (opcode instr = BH_POWER \<longrightarrow> bh_is_constant (operand instr ! 2) \<longrightarrow> bh_get_integer (inst_constant instr) \<noteq> None) \<and>
     (opcode instr = BH_SIGN \<longrightarrow> wf_view (operand instr ! 0) \<and> nonneg_shape (operand instr ! 0) \<and>
        (\<forall>b. h (base (operand instr ! 1)) = Some b \<longrightarrow> base_type b \<noteq> BH_COMPLEX64 \<and> base_type b \<noteq> BH_COMPLEX128)) \<and>
     (opcode instr = BH_MATMUL \<longrightarrow> (\<exists>N M K. matmul_dims (operand instr ! 0) (operand instr ! 1) (operand instr ! 2) N M K))"

lemma matmul_opcode: "bh_operands BH_MATMUL = 3" "\<not> bh_opcode_is_system BH_MATMUL" "\<not> bh_opcode_is_reduction BH_MATMUL"
  by (simp_all add: opcode_eval)

lemma instr_fine_expandable:
  assumes "instr_fine h instr" and "NULL \<notin> dom h"
  shows "expandable h instr"
proof -
  have u: "t < bh_operands (opcode instr) \<Longrightarrow> \<not> bh_is_constant (operand instr ! t) \<Longrightarrow> h (base (operand instr ! t)) \<noteq> None" for t
    using assms(1) by (auto simp: instr_fine_def uses_only_def)
  have "\<not> bh_is_constant (operand instr ! 2)" if "opcode instr = BH_MATMUL"
    using assms(1) that by (auto simp: instr_fine_def matmul_dims_def bh_is_constant_def)
  then show ?thesis using assms(1) u [of 0] u [of 1] u [of 2] by (auto simp: expandable_def instr_fine_def elementwise_opcodes matmul_opcode)
qed

lemma run_unary_instr:
  assumes "separate instr" and "pointwise_op (opcode instr)" and "bh_operands (opcode instr) = 2" and "\<not> bh_is_constant (operand instr ! 1)"
  shows "run f c instr m = store (operand instr ! 0) (\<lambda>k. f (opcode instr) [m (element (operand instr ! 1) k)]) m"
  using run_pointwise [OF assms(2,1), of f c m] assms(3,4) by (simp add: inputs_upt input_at_def)

lemma expansion_run:
  assumes "expansion env x h instr block ps" and "instr_fine h instr" and "env_ok env" and "composite_ops env f c h"
    and "distinct ps" and "NULL \<notin> set ps" and "set ps \<inter> dom h = {}"
  shows "agree (set ps) (run_all f c block m) (run f c instr m)"
  using assms(1)
proof cases
  case keep
  then show ?thesis by (simp add: agree_def)
next
  case (powk e b pc)
  let ?out = "operand instr ! 0" and ?in = "operand instr ! 1"
  have f: "separate instr" "base ?out \<noteq> NULL" "base ?in \<noteq> NULL" using assms(2) powk by (auto simp: instr_fine_def bh_is_constant_def)
  have a: "bh_is_constant (operand instr ! 2)" "bh_get_integer (inst_constant instr) = Some (int e)" "base ?out \<noteq> base ?in"
    using powk(5) by (auto simp: powk_applies_def)
  have "run f c instr m = store ?out (\<lambda>k. f BH_POWER [m (element ?in k), c (inst_constant instr)]) m"
    using run_pointwise [of instr f c m] f a(1) powk(3) by (simp add: elementwise_opcodes inputs_upt input_at_def bh_is_constant_def)
  then have "run f c instr m = store ?out (\<lambda>k. m (element ?in k) ^ e) m" using assms(4) a(2) by (simp add: composite_ops_def)
  moreover have "run_all f c (powk_seq env pc (base_type b) ?out ?in e) m = store ?out (\<lambda>k. m (element ?in k) ^ e) m"
    using assms(3,4) f a(3) powk(6) by (intro powk_run) (auto simp: composite_ops_def order_ops_def separate_def)
  ultimately show ?thesis using powk(1) by (simp add: agree_def)
next
  case (matmul pc p)
  let ?out = "operand instr ! 0" and ?a = "operand instr ! 1" and ?b = "operand instr ! 2"
  obtain N M K where d: "matmul_dims ?out ?a ?b N M K" using assms(2) matmul by (auto simp: instr_fine_def)
  have u: "uses_only h instr" "bh_operands (opcode instr) = 3" using assms(2) matmul(3) by (auto simp: instr_fine_def matmul_opcode)
  have "base ?out \<in> dom h" "base ?a \<in> dom h" "base ?b \<in> dom h"
    using uses_only_base [OF u(1), of 0] uses_only_base [OF u(1), of 1] uses_only_base [OF u(1), of 2] u(2) d
    by (auto simp: matmul_dims_def)
  then have p: "p \<notin> {NULL, base ?out, base ?a, base ?b}" using assms(6,7) matmul(2) by fastforce
  have "run f c instr m = matmul_store ?out ?a ?b M K m" using matmul(3) d by (simp add: run_def matmul_opcode matmul_dims_def)
  moreover have "ring_ops f" using assms(4) by (simp add: composite_ops_def order_ops_def)
  note matmul_run [OF assms(3) this d p]
  ultimately show ?thesis using matmul(1,2) by (simp add: agree_def)
next
  case (sign_real b pc p q r)
  let ?out = "operand instr ! 0" and ?in = "operand instr ! 1" and ?m = "snd (sign_meta (operand instr ! 0))"
  have f: "separate instr" "base ?out \<noteq> NULL" "base ?in \<noteq> NULL" "wf_view ?out" "nonneg_shape ?out" "uses_only h instr"
    using assms(2) sign_real(3) by (auto simp: instr_fine_def bh_is_constant_def)
  have "base ?out \<in> dom h" "base ?in \<in> dom h"
    using uses_only_base [OF f(6), of 0] uses_only_base [OF f(6), of 1] f(2,3) sign_real(3) by (simp_all add: elementwise_opcodes)
  have "temps_ok ?out ?in [?m\<lparr>base := p\<rparr>, ?m\<lparr>base := q\<rparr>, ?m\<lparr>base := r\<rparr>]"
    using f assms(5-7) sign_real(2) sign_meta_offsets [OF f(4,5)] \<open>base ?out \<in> dom h\<close> \<open>base ?in \<in> dom h\<close>
    by (auto simp: temps_ok_def separate_def)
  moreover have "run f c instr m = store ?out (\<lambda>k. sgn (m (element ?in k))) m"
    using run_unary_instr [of instr f c m] f sign_real(3) assms(4) by (simp add: elementwise_opcodes bh_is_constant_def composite_ops_def)
  ultimately show ?thesis using sign_run_real [OF assms(3), of f c "base_type b" ?out ?in] assms(4) sign_real(1,2,5)
    by (auto simp: agree_def composite_ops_def)
next
  case (sign_complex b pc p q r)
  then show ?thesis using assms(2) by (auto simp: instr_fine_def)
qed

lemma expands_to_run:
  assumes "expands_to env x h instrs out ps" and "\<forall>instr \<in> set instrs. instr_fine h instr" and "env_ok env" and "composite_ops env f c h"
    and "distinct ps" and "NULL \<notin> set ps" and "set ps \<inter> dom h = {}" and "agree A m m'" and "A \<inter> dom h = {}" and "NULL \<notin> A"
  shows "agree (A \<union> set ps) (run_all f c out m) (run_all f c instrs m')"
  using assms
proof (induction arbitrary: A m m' rule: expands_to.induct)
  case Nil
  then show ?case by simp
next
  case (Cons instr block ps instrs rest qs)
  have f: "instr_fine h instr" using Cons.prems(1) by simp
  then have u: "uses_only h instr" by (simp add: instr_fine_def)
  have "agree (set ps) (run_all f c block m) (run f c instr m)"
    using expansion_run [OF Cons.hyps(1) f Cons.prems(2,3), of m] Cons.prems(4-6) by auto
  then have "agree (A \<union> set ps) (run_all f c block m) (run f c instr m)" by (rule agree_mono) simp
  moreover have "agree (A \<union> set ps) (run f c instr m) (run f c instr m')"
    using Cons.prems(5-9) by (intro run_agree [OF agree_mono [OF Cons.prems(7)] u]) auto
  ultimately have step: "agree (A \<union> set ps) (run_all f c block m) (run f c instr m')" by (rule agree_trans)
  have "agree ((A \<union> set ps) \<union> set qs) (run_all f c rest (run_all f c block m)) (run_all f c instrs (run f c instr m'))"
    using Cons.prems by (intro Cons.IH step) auto
  then show ?case by (simp add: Un_assoc)
qed


subsection \<open>The sign of complex numbers\<close>

definition sign_ready :: "(ptr \<rightharpoonup> bh_base) \<Rightarrow> bh_instruction \<Rightarrow> bool" where
  "sign_ready h instr \<longleftrightarrow> opcode instr = BH_SIGN \<and> separate instr \<and> wf_view (operand instr ! 0) \<and> nonneg_shape (operand instr ! 0) \<and>
     (\<forall>t < 2. \<not> bh_is_constant (operand instr ! t) \<and> base (operand instr ! t) \<in> dom h)"

text \<open>
  C15. The expansion of the sign of complex values, twelve instructions, computes the sign (0 of 0 and z/|z| otherwise)
  when the result goes to another array. When it goes back to the array it is read from, the absolute values overwrite
  the operand before the division reads it, and every element becomes 1.
\<close>

theorem expand_sign_complex_result:
  assumes "instr_list s = pre @ instr # post" and "env_ok env" and "finite (dom (bheap s))" and "sign_ready (bheap s) instr"
    and "bheap s (base (operand instr ! 1)) = Some b" and "base_type b = BH_COMPLEX64 \<or> base_type b = BH_COMPLEX128"
    and "complex_ops f" and "reads env c (float_type_of (base_type b)) 0"
  shows "\<exists>seq ps s'. expand_sign env (length pre) s = Some (12, s') \<and> length seq = 12 \<and> grown ps s s' \<and>
    instr_list s' = pre @ instr\<lparr>opcode := BH_NONE\<rparr> # seq @ post \<and>
    (\<forall>m x. fst x \<notin> set ps \<longrightarrow> run_all f c seq m x = store (operand instr ! 0)
       (\<lambda>k. if operand instr ! 1 = operand instr ! 0 then 1 else sgn (m (element (operand instr ! 1) k))) m x)"
proof -
  let ?out = "operand instr ! 0" and ?in = "operand instr ! 1" and ?m = "snd (sign_meta (operand instr ! 0))"
  have al: "allocates env" using assms(2) by (simp add: env_ok_def)
  obtain p q r s' where e: "expand_sign env (length pre) s = Some (12, s')" "grown [p, q, r] s s'"
    "instr_list s' = pre @ instr\<lparr>opcode := BH_NONE\<rparr> # sign_seq_complex env (length pre) (float_type_of (base_type b)) ?out ?in
      (?m\<lparr>base := p\<rparr>) (?m\<lparr>base := q\<rparr>) (?m\<lparr>base := r\<rparr>) @ post" by (rule expand_sign_complex [OF assms(1) al assms(3,5,6)])
  have f: "separate instr" "base ?out \<noteq> NULL" "base ?in \<noteq> NULL" "wf_view ?out" "nonneg_shape ?out"
    and d: "base ?out \<in> dom (bheap s)" "base ?in \<in> dom (bheap s)" and op: "opcode instr = BH_SIGN"
    using assms(4) by (auto simp: sign_ready_def bh_is_constant_def)
  have g: "distinct [p, q, r]" "NULL \<notin> set [p, q, r]" "set [p, q, r] \<inter> dom (bheap s) = {}" using e(2) by (auto simp: grown_def)
  have t: "temps_ok ?out ?in [?m\<lparr>base := p\<rparr>, ?m\<lparr>base := q\<rparr>, ?m\<lparr>base := r\<rparr>]"
    using f d g sign_meta_offsets [OF f(4,5)] by (auto simp: temps_ok_def separate_def)
  have "fits ?out ?in" using f(1) op by (auto simp: separate_def fits_def elementwise_opcodes)
  then have io: "?in = ?out \<or> base ?in \<noteq> base ?out" using f(3) by (simp add: fits_def bh_is_constant_def)
  show ?thesis using e sign_run_complex [OF assms(2,7,8) t io, of _ "length pre"]
    by (intro exI conjI) (auto simp: sign_seq_complex_def)
qed

subsection \<open>Sample meanings\<close>

definition read_float :: "bh_constant \<Rightarrow> rat" where
  "read_float k = (case ctype k of
       BH_FLOAT32 \<Rightarrow> (case ieee_value 8 23 (le_value (take 4 (cvalue k))) of Some x \<Rightarrow> x | None \<Rightarrow> 0)
     | BH_FLOAT64 \<Rightarrow> (case ieee_value 11 52 (le_value (take 8 (cvalue k))) of Some x \<Rightarrow> x | None \<Rightarrow> 0)
     | _ \<Rightarrow> 0)"

definition rational_ops :: "bh_opcode \<Rightarrow> rat list \<Rightarrow> rat" where
  "rational_ops op xs = (if op = BH_ADD then xs ! 0 + xs ! 1 else if op = BH_SUBTRACT then xs ! 0 - xs ! 1
     else if op = BH_MULTIPLY then xs ! 0 * xs ! 1 else if op = BH_IDENTITY then xs ! 0
     else if op = BH_GREATER then of_bool (xs ! 0 > xs ! 1) else if op = BH_LESS then of_bool (xs ! 0 < xs ! 1)
     else if op = BH_SIGN then sgn (xs ! 0) else if op = BH_POWER then xs ! 0 ^ nat \<lfloor>xs ! 1\<rfloor> else 0)"

lemma integer_of_value: "integer_of v = Some (int e) \<Longrightarrow> v = Some (of_nat e)"
  by (auto simp: integer_of_def split: option.splits if_splits)

lemma bh_get_integer_value: "bh_get_integer k = Some (int e) \<Longrightarrow> read_float k = of_nat e"
  by (cases "ctype k") (auto simp: bh_get_integer_def read_float_def dest!: integer_of_value)

lemma read_float_constant:
  "read_float (set_constant_value (fconv sample_env) BH_FLOAT64 v (k\<lparr>ctype := BH_FLOAT64\<rparr>)) = (if v = 0 then 0 else 1)"
proof -
  have "le_value (replicate 8 0) = 0" "le_value ieee_one = 0x3FF0000000000000" by code_simp+
  moreover have "ieee_value 11 52 0 = Some 0" "ieee_value 11 52 0x3FF0000000000000 = Some 1" by code_simp+
  ultimately show ?thesis by (auto simp: set_constant_value_def put_value_def read_float_def sample_env_def ieee_one_def)
qed

lemma sample_env_ok: "env_ok sample_env"
  using sample_allocates by (simp add: env_ok_def) (simp add: sample_env_def instr3_def)

lemma rational_composite_ops: "composite_ops sample_env rational_ops read_float (bheap (sign_state BH_FLOAT64 p))"
  using bh_get_integer_value read_float_constant
  by (auto simp: composite_ops_def order_ops_def ring_ops_def rational_ops_def reads_def sign_state_def split: if_splits)

lemma line_view_3: "distinct (view_offsets (line_view p 3))" "wf_view (line_view p 3)" "nonneg_shape (line_view p 3)" "base (line_view p 3) = p"
  by (simp add: view_offsets_line) (simp_all add: line_view_def mk_view_def wf_view_def nonneg_shape_def BH_MAXDIM_def)

lemma sign_instr_separate:
  "separate (instr3 BH_SIGN (line_view 1 3) (line_view p 3) (mk_view NULL 0 []))"
  by (rule separate_2) (auto simp: elementwise_opcodes instr3_def line_view_3 fits_def)


definition complex_meaning :: "bh_opcode \<Rightarrow> complex list \<Rightarrow> complex" where
  "complex_meaning op xs = (if op = BH_ADD then xs ! 0 + xs ! 1 else if op = BH_SUBTRACT then xs ! 0 - xs ! 1
     else if op = BH_MULTIPLY then xs ! 0 * xs ! 1 else if op = BH_DIVIDE then xs ! 0 / xs ! 1
     else if op = BH_ABSOLUTE then of_real (cmod (xs ! 0)) else if op = BH_EQUAL then of_bool (xs ! 0 = xs ! 1) else xs ! 0)"

abbreviation sign_in_place :: bh_instruction where
  "sign_in_place \<equiv> instr3 BH_SIGN (line_view 1 3) (line_view 1 3) (mk_view NULL 0 [])"

theorem expand_sign_complex_result_witness:
  "\<exists>seq ps s'. expand_sign sample_env (length ([] :: bh_instruction list)) (sign_state BH_COMPLEX128 1) = Some (12, s') \<and> length seq = 12 \<and>
    grown ps (sign_state BH_COMPLEX128 1) s' \<and> instr_list s' = [] @ sign_in_place\<lparr>opcode := BH_NONE\<rparr> # seq @ [] \<and>
    (\<forall>m x. fst x \<notin> set ps \<longrightarrow> run_all complex_meaning (\<lambda>_. 0) seq m x = store (operand sign_in_place ! 0)
       (\<lambda>k. if operand sign_in_place ! 1 = operand sign_in_place ! 0 then 1 else sgn (m (element (operand sign_in_place ! 1) k))) m x)"
proof (rule expand_sign_complex_result [OF _ sample_env_ok])
  show "instr_list (sign_state BH_COMPLEX128 1) = [] @ sign_in_place # []" by (simp add: sign_state_def)
  show "sign_ready (bheap (sign_state BH_COMPLEX128 1)) sign_in_place" using sign_instr_separate [of 1] line_view_3 [of 1]
    by (auto simp: sign_ready_def sign_state_def instr3_def bh_is_constant_def less_2_cases_iff)
  show "bheap (sign_state BH_COMPLEX128 1) (base (operand sign_in_place ! 1)) = Some \<lparr>base_data = 0, base_type = BH_COMPLEX128, base_nelem = 3\<rparr>"
    by (simp add: sign_state_def instr3_def line_view_3)
qed (simp_all add: sign_state_def complex_ops_def ring_ops_def complex_meaning_def reads_def)

end
