(* ===== verification/Cpu_Tac.thy ===== *)
theory Cpu_Tac
  imports Bh_Opcode "HOL-Library.Word"
begin

text \<open>
  The three-address code of the CPU engine: \<^verbatim>\<open>ve/cpu/tac.h\<close>, its tables in \<^verbatim>\<open>ve/cpu/utils_mapping.cpp\<close>, the table
  of \<^verbatim>\<open>instrs_to_tacs\<close> (\<^verbatim>\<open>ve/cpu/utils_mapping_tacs.cpp\<close>) that maps an opcode to operation and operator, and
  \<^verbatim>\<open>tac_noperands\<close> of \<^verbatim>\<open>ve/cpu/utils.cpp\<close>. The enumerations are datatypes; \<open>OP_ZERO\<close> and \<open>OPER_ZERO\<close> are the
  value 0 of a TAC no case has filled in. An exception is the left side of a sum.
\<close>

unbundle bit_operations_syntax

subsection \<open>Enumerations\<close>

datatype OPERATION =
  MAP | ZIP | REDUCE_COMPLETE | REDUCE_PARTIAL | SCAN | INDEX | GENERATE | SYSTEM | EXTENSION |
  NOOP | OP_ZERO

datatype OPERATOR =
  ADD | SUBTRACT | ARCTAN2 | BITWISE_AND | BITWISE_OR | BITWISE_XOR | DIVIDE | EQUAL | GREATER |
  GREATER_EQUAL | LEFT_SHIFT | LESS | LESS_EQUAL | LOGICAL_AND | LOGICAL_OR | LOGICAL_XOR |
  MAXIMUM | MINIMUM | MOD | MULTIPLY | NOT_EQUAL | POWER | RIGHT_SHIFT | ABSOLUTE | ARCCOS |
  ARCCOSH | ARCSIN | ARCSINH | ARCTAN | ARCTANH | CEIL | COS | COSH | EXP | EXP2 | EXPM1 | FLOOR |
  IDENTITY | IMAG | INVERT | ISINF | ISNAN | LOG | LOG10 | LOG1P | LOG2 | LOGICAL_NOT | REAL |
  RINT | SIN | SIGN | SINH | SQRT | TAN | TANH | TRUNC | GATHER | SCATTER | DISCARD | FREE | SYNC |
  NONE | FLOOD | RANDOM | RANGE | EXTENSION_OPERATOR | OPER_ZERO

datatype ETYPE =
  BOOL | INT8 | INT16 | INT32 | INT64 | UINT8 | UINT16 | UINT32 | UINT64 | FLOAT32 | FLOAT64 |
  COMPLEX64 | COMPLEX128 | PAIRLL

datatype LAYOUT =
  SCALAR_CONST | SCALAR_TEMP | SCALAR | CONTRACTABLE | CONTIGUOUS | CONSECUTIVE | STRIDED | SPARSE

datatype cpu_error = Runtime_error | Invalid_argument | Undefined

text \<open>The numbers of the enumerators: operations and layouts are used as bit masks, layouts are compared.\<close>

fun operation_code :: "OPERATION \<Rightarrow> 32 word" where
  "operation_code MAP = 1"
| "operation_code ZIP = 2"
| "operation_code REDUCE_COMPLETE = 4"
| "operation_code REDUCE_PARTIAL = 8"
| "operation_code SCAN = 16"
| "operation_code INDEX = 32"
| "operation_code GENERATE = 64"
| "operation_code SYSTEM = 128"
| "operation_code EXTENSION = 256"
| "operation_code NOOP = 512"
| "operation_code OP_ZERO = 0"

fun layout_code :: "LAYOUT \<Rightarrow> 32 word" where
  "layout_code SCALAR_CONST = 1"
| "layout_code SCALAR_TEMP = 2"
| "layout_code SCALAR = 4"
| "layout_code CONTRACTABLE = 8"
| "layout_code CONTIGUOUS = 16"
| "layout_code CONSECUTIVE = 32"
| "layout_code STRIDED = 64"
| "layout_code SPARSE = 128"

definition SCALAR_LAYOUT :: "32 word" where
  "SCALAR_LAYOUT =
     layout_code SCALAR OR layout_code SCALAR_CONST OR layout_code SCALAR_TEMP"

definition ARRAY_LAYOUT :: "32 word" where
  "ARRAY_LAYOUT =
     layout_code CONTRACTABLE OR layout_code CONTIGUOUS OR layout_code CONSECUTIVE OR
     layout_code STRIDED OR layout_code SPARSE"

definition COLLAPSIBLE :: "32 word" where
  "COLLAPSIBLE =
     layout_code SCALAR OR layout_code SCALAR_CONST OR layout_code CONTRACTABLE OR
     layout_code CONTIGUOUS OR layout_code CONSECUTIVE"

definition EWISE :: "32 word" where
  "EWISE =
     operation_code MAP OR operation_code ZIP OR operation_code GENERATE"

definition REDUCTION :: "32 word" where
  "REDUCTION =
     operation_code REDUCE_COMPLETE OR operation_code REDUCE_PARTIAL"

definition ACCUMULATION :: "32 word" where
  "ACCUMULATION =
     operation_code REDUCE_COMPLETE OR operation_code REDUCE_PARTIAL OR operation_code SCAN"

definition ARRAY_OPS :: "32 word" where
  "ARRAY_OPS =
     operation_code MAP OR operation_code ZIP OR operation_code GENERATE OR
     operation_code REDUCE_COMPLETE OR operation_code REDUCE_PARTIAL OR operation_code SCAN OR
     operation_code INDEX"

definition op_in :: "OPERATION \<Rightarrow> 32 word \<Rightarrow> bool" where
  "op_in op m \<longleftrightarrow> operation_code op AND m > 0"

definition layout_in :: "LAYOUT \<Rightarrow> 32 word \<Rightarrow> bool" where
  "layout_in l m \<longleftrightarrow> layout_code l AND m > 0"

text \<open>\<^verbatim>\<open>ext\<close> is the index of the instruction of an extension method, \<open>None\<close> the NULL pointer.\<close>

record tac_t =
  tac_op :: OPERATION
  tac_oper :: OPERATOR
  tac_out :: nat
  tac_in1 :: nat
  tac_in2 :: nat
  tac_ext :: "nat option"

definition tac_zero :: tac_t where
  "tac_zero = \<lparr>tac_op = OP_ZERO, tac_oper = OPER_ZERO, tac_out = 0, tac_in1 = 0, tac_in2 = 0, tac_ext = None\<rparr>"

subsection \<open>Tables\<close>

fun bhtype_to_etype :: "bh_type \<Rightarrow> cpu_error + ETYPE" where
  "bhtype_to_etype BH_BOOL = Inr BOOL"
| "bhtype_to_etype BH_INT8 = Inr INT8"
| "bhtype_to_etype BH_INT16 = Inr INT16"
| "bhtype_to_etype BH_INT32 = Inr INT32"
| "bhtype_to_etype BH_INT64 = Inr INT64"
| "bhtype_to_etype BH_UINT8 = Inr UINT8"
| "bhtype_to_etype BH_UINT16 = Inr UINT16"
| "bhtype_to_etype BH_UINT32 = Inr UINT32"
| "bhtype_to_etype BH_UINT64 = Inr UINT64"
| "bhtype_to_etype BH_FLOAT32 = Inr FLOAT32"
| "bhtype_to_etype BH_FLOAT64 = Inr FLOAT64"
| "bhtype_to_etype BH_COMPLEX64 = Inr COMPLEX64"
| "bhtype_to_etype BH_COMPLEX128 = Inr COMPLEX128"
| "bhtype_to_etype BH_R123 = Inr PAIRLL"
| "bhtype_to_etype BH_UNKNOWN = Inl Runtime_error"
| "bhtype_to_etype (BH_type_code _) = Inl Runtime_error"

fun operation_text :: "OPERATION \<Rightarrow> string" where
  "operation_text MAP = ''MAP''"
| "operation_text ZIP = ''ZIP''"
| "operation_text REDUCE_COMPLETE = ''REDUCE_COMPLETE''"
| "operation_text REDUCE_PARTIAL = ''REDUCE_PARTIAL''"
| "operation_text SCAN = ''SCAN''"
| "operation_text INDEX = ''INDEX''"
| "operation_text GENERATE = ''GENERATE''"
| "operation_text SYSTEM = ''SYSTEM''"
| "operation_text EXTENSION = ''EXTENSION''"
| "operation_text NOOP = ''NOOP''"
| "operation_text OP_ZERO = ''_ERR-OP_''"

fun operator_text :: "OPERATOR \<Rightarrow> string" where
  "operator_text ADD = ''ADD''"
| "operator_text SUBTRACT = ''SUBTRACT''"
| "operator_text ARCTAN2 = ''ARCTAN2''"
| "operator_text BITWISE_AND = ''BITWISE_AND''"
| "operator_text BITWISE_OR = ''BITWISE_OR''"
| "operator_text BITWISE_XOR = ''BITWISE_XOR''"
| "operator_text DIVIDE = ''DIVIDE''"
| "operator_text EQUAL = ''EQUAL''"
| "operator_text GREATER = ''GREATER''"
| "operator_text GREATER_EQUAL = ''GREATER_EQUAL''"
| "operator_text LEFT_SHIFT = ''LEFT_SHIFT''"
| "operator_text LESS = ''LESS''"
| "operator_text LESS_EQUAL = ''LESS_EQUAL''"
| "operator_text LOGICAL_AND = ''LOGICAL_AND''"
| "operator_text LOGICAL_OR = ''LOGICAL_OR''"
| "operator_text LOGICAL_XOR = ''LOGICAL_XOR''"
| "operator_text MAXIMUM = ''MAXIMUM''"
| "operator_text MINIMUM = ''MINIMUM''"
| "operator_text MOD = ''MOD''"
| "operator_text MULTIPLY = ''MULTIPLY''"
| "operator_text NOT_EQUAL = ''NOT_EQUAL''"
| "operator_text POWER = ''POWER''"
| "operator_text RIGHT_SHIFT = ''RIGHT_SHIFT''"
| "operator_text ABSOLUTE = ''ABSOLUTE''"
| "operator_text ARCCOS = ''ARCCOS''"
| "operator_text ARCCOSH = ''ARCCOSH''"
| "operator_text ARCSIN = ''ARCSIN''"
| "operator_text ARCSINH = ''ARCSINH''"
| "operator_text ARCTAN = ''ARCTAN''"
| "operator_text ARCTANH = ''ARCTANH''"
| "operator_text CEIL = ''CEIL''"
| "operator_text COS = ''COS''"
| "operator_text COSH = ''COSH''"
| "operator_text EXP = ''EXP''"
| "operator_text EXP2 = ''EXP2''"
| "operator_text EXPM1 = ''EXPM1''"
| "operator_text FLOOR = ''FLOOR''"
| "operator_text IDENTITY = ''IDENTITY''"
| "operator_text IMAG = ''IMAG''"
| "operator_text INVERT = ''INVERT''"
| "operator_text ISINF = ''ISINF''"
| "operator_text ISNAN = ''ISNAN''"
| "operator_text LOG = ''LOG''"
| "operator_text LOG10 = ''LOG10''"
| "operator_text LOG1P = ''LOG1P''"
| "operator_text LOG2 = ''LOG2''"
| "operator_text LOGICAL_NOT = ''LOGICAL_NOT''"
| "operator_text REAL = ''REAL''"
| "operator_text RINT = ''RINT''"
| "operator_text SIN = ''SIN''"
| "operator_text SIGN = ''SIGN''"
| "operator_text SINH = ''SINH''"
| "operator_text SQRT = ''SQRT''"
| "operator_text TAN = ''TAN''"
| "operator_text TANH = ''TANH''"
| "operator_text TRUNC = ''TRUNC''"
| "operator_text GATHER = ''GATHER''"
| "operator_text SCATTER = ''SCATTER''"
| "operator_text DISCARD = ''DISCARD''"
| "operator_text FREE = ''FREE''"
| "operator_text SYNC = ''SYNC''"
| "operator_text NONE = ''NONE''"
| "operator_text FLOOD = ''FLOOD''"
| "operator_text RANDOM = ''RANDOM''"
| "operator_text RANGE = ''RANGE''"
| "operator_text EXTENSION_OPERATOR = ''EXTENSION_OPERATOR''"
| "operator_text OPER_ZERO = ''_ERR-OPER_''"

fun etype_text :: "ETYPE \<Rightarrow> string" where
  "etype_text BOOL = ''BOOL''"
| "etype_text INT8 = ''INT8''"
| "etype_text INT16 = ''INT16''"
| "etype_text INT32 = ''INT32''"
| "etype_text INT64 = ''INT64''"
| "etype_text UINT8 = ''UINT8''"
| "etype_text UINT16 = ''UINT16''"
| "etype_text UINT32 = ''UINT32''"
| "etype_text UINT64 = ''UINT64''"
| "etype_text FLOAT32 = ''FLOAT32''"
| "etype_text FLOAT64 = ''FLOAT64''"
| "etype_text COMPLEX64 = ''COMPLEX64''"
| "etype_text COMPLEX128 = ''COMPLEX128''"
| "etype_text PAIRLL = ''PAIRLL''"

fun etype_text_shand :: "ETYPE \<Rightarrow> string" where
  "etype_text_shand BOOL = ''z''"
| "etype_text_shand INT8 = ''b''"
| "etype_text_shand INT16 = ''s''"
| "etype_text_shand INT32 = ''i''"
| "etype_text_shand INT64 = ''l''"
| "etype_text_shand UINT8 = ''B''"
| "etype_text_shand UINT16 = ''S''"
| "etype_text_shand UINT32 = ''I''"
| "etype_text_shand UINT64 = ''L''"
| "etype_text_shand FLOAT32 = ''f''"
| "etype_text_shand FLOAT64 = ''d''"
| "etype_text_shand COMPLEX64 = ''c''"
| "etype_text_shand COMPLEX128 = ''C''"
| "etype_text_shand PAIRLL = ''P''"

fun etype_to_ctype_text :: "ETYPE \<Rightarrow> string" where
  "etype_to_ctype_text BOOL = ''unsigned char''"
| "etype_to_ctype_text INT8 = ''int8_t''"
| "etype_to_ctype_text INT16 = ''int16_t''"
| "etype_to_ctype_text INT32 = ''int32_t''"
| "etype_to_ctype_text INT64 = ''int64_t''"
| "etype_to_ctype_text UINT8 = ''uint8_t''"
| "etype_to_ctype_text UINT16 = ''uint16_t''"
| "etype_to_ctype_text UINT32 = ''uint32_t''"
| "etype_to_ctype_text UINT64 = ''uint64_t''"
| "etype_to_ctype_text FLOAT32 = ''float''"
| "etype_to_ctype_text FLOAT64 = ''double''"
| "etype_to_ctype_text COMPLEX64 = ''float complex''"
| "etype_to_ctype_text COMPLEX128 = ''double complex''"
| "etype_to_ctype_text PAIRLL = ''pair_LL''"

fun layout_text :: "LAYOUT \<Rightarrow> string" where
  "layout_text SCALAR_CONST = ''SCALAR_CONST''"
| "layout_text SCALAR_TEMP = ''SCALAR_TEMP''"
| "layout_text SCALAR = ''SCALAR''"
| "layout_text CONTRACTABLE = ''CONTRACTABLE''"
| "layout_text CONTIGUOUS = ''CONTIGUOUS''"
| "layout_text CONSECUTIVE = ''CONSECUTIVE''"
| "layout_text STRIDED = ''STRIDED''"
| "layout_text SPARSE = ''SPARSE''"

fun layout_text_shand :: "LAYOUT \<Rightarrow> string" where
  "layout_text_shand SCALAR_CONST = ''SCST''"
| "layout_text_shand SCALAR_TEMP = ''STMP''"
| "layout_text_shand SCALAR = ''SCLR''"
| "layout_text_shand CONTRACTABLE = ''ATMP''"
| "layout_text_shand CONTIGUOUS = ''ACOT''"
| "layout_text_shand CONSECUTIVE = ''ACOS''"
| "layout_text_shand STRIDED = ''ASTR''"
| "layout_text_shand SPARSE = ''ASPS''"

text \<open>The cases of \<^verbatim>\<open>instrs_to_tacs\<close> in the order of the source: opcode, operation, operator and the number of inputs
  that are mapped.\<close>

definition unary_tacs1 :: "(bh_opcode \<times> OPERATION \<times> OPERATOR \<times> nat) list" where
  "unary_tacs1 =
    [(BH_ABSOLUTE, MAP, ABSOLUTE, 1), (BH_ARCCOS, MAP, ARCCOS, 1), (BH_ARCCOSH, MAP, ARCCOSH, 1),
     (BH_ARCSIN, MAP, ARCSIN, 1), (BH_ARCSINH, MAP, ARCSINH, 1), (BH_ARCTAN, MAP, ARCTAN, 1),
     (BH_ARCTANH, MAP, ARCTANH, 1), (BH_CEIL, MAP, CEIL, 1), (BH_COS, MAP, COS, 1),
     (BH_COSH, MAP, COSH, 1), (BH_EXP, MAP, EXP, 1)]"

definition unary_tacs2 :: "(bh_opcode \<times> OPERATION \<times> OPERATOR \<times> nat) list" where
  "unary_tacs2 =
    [(BH_EXP2, MAP, EXP2, 1), (BH_EXPM1, MAP, EXPM1, 1), (BH_FLOOR, MAP, FLOOR, 1),
     (BH_IDENTITY, MAP, IDENTITY, 1), (BH_IMAG, MAP, IMAG, 1), (BH_INVERT, MAP, INVERT, 1),
     (BH_ISINF, MAP, ISINF, 1), (BH_ISNAN, MAP, ISNAN, 1), (BH_LOG, MAP, LOG, 1),
     (BH_LOG10, MAP, LOG10, 1), (BH_LOG1P, MAP, LOG1P, 1)]"

definition unary_tacs3 :: "(bh_opcode \<times> OPERATION \<times> OPERATOR \<times> nat) list" where
  "unary_tacs3 =
    [(BH_LOG2, MAP, LOG2, 1), (BH_LOGICAL_NOT, MAP, LOGICAL_NOT, 1), (BH_REAL, MAP, REAL, 1),
     (BH_RINT, MAP, RINT, 1), (BH_SIGN, MAP, SIGN, 1), (BH_SIN, MAP, SIN, 1),
     (BH_SINH, MAP, SINH, 1), (BH_SQRT, MAP, SQRT, 1), (BH_TAN, MAP, TAN, 1),
     (BH_TANH, MAP, TANH, 1), (BH_TRUNC, MAP, TRUNC, 1)]"

definition binary_tacs1 :: "(bh_opcode \<times> OPERATION \<times> OPERATOR \<times> nat) list" where
  "binary_tacs1 =
    [(BH_ADD, ZIP, ADD, 2), (BH_ARCTAN2, ZIP, ARCTAN2, 2), (BH_BITWISE_AND, ZIP, BITWISE_AND, 2),
     (BH_BITWISE_OR, ZIP, BITWISE_OR, 2), (BH_BITWISE_XOR, ZIP, BITWISE_XOR, 2),
     (BH_DIVIDE, ZIP, DIVIDE, 2), (BH_EQUAL, ZIP, EQUAL, 2), (BH_GREATER, ZIP, GREATER, 2),
     (BH_GREATER_EQUAL, ZIP, GREATER_EQUAL, 2), (BH_LEFT_SHIFT, ZIP, LEFT_SHIFT, 2),
     (BH_LESS, ZIP, LESS, 2)]"

definition binary_tacs2 :: "(bh_opcode \<times> OPERATION \<times> OPERATOR \<times> nat) list" where
  "binary_tacs2 =
    [(BH_LESS_EQUAL, ZIP, LESS_EQUAL, 2), (BH_LOGICAL_AND, ZIP, LOGICAL_AND, 2),
     (BH_LOGICAL_OR, ZIP, LOGICAL_OR, 2), (BH_LOGICAL_XOR, ZIP, LOGICAL_XOR, 2),
     (BH_MAXIMUM, ZIP, MAXIMUM, 2), (BH_MINIMUM, ZIP, MINIMUM, 2), (BH_MOD, ZIP, MOD, 2),
     (BH_MULTIPLY, ZIP, MULTIPLY, 2), (BH_NOT_EQUAL, ZIP, NOT_EQUAL, 2), (BH_POWER, ZIP, POWER, 2),
     (BH_RIGHT_SHIFT, ZIP, RIGHT_SHIFT, 2)]"

definition binary_tacs3 :: "(bh_opcode \<times> OPERATION \<times> OPERATOR \<times> nat) list" where
  "binary_tacs3 =
    [(BH_SUBTRACT, ZIP, SUBTRACT, 2)]"

definition reduce_tacs :: "(bh_opcode \<times> OPERATION \<times> OPERATOR \<times> nat) list" where
  "reduce_tacs =
    [(BH_ADD_REDUCE, REDUCE_PARTIAL, ADD, 2),
     (BH_BITWISE_AND_REDUCE, REDUCE_PARTIAL, BITWISE_AND, 2),
     (BH_BITWISE_OR_REDUCE, REDUCE_PARTIAL, BITWISE_OR, 2),
     (BH_BITWISE_XOR_REDUCE, REDUCE_PARTIAL, BITWISE_XOR, 2),
     (BH_LOGICAL_AND_REDUCE, REDUCE_PARTIAL, LOGICAL_AND, 2),
     (BH_LOGICAL_OR_REDUCE, REDUCE_PARTIAL, LOGICAL_OR, 2),
     (BH_LOGICAL_XOR_REDUCE, REDUCE_PARTIAL, LOGICAL_XOR, 2),
     (BH_MAXIMUM_REDUCE, REDUCE_PARTIAL, MAXIMUM, 2),
     (BH_MINIMUM_REDUCE, REDUCE_PARTIAL, MINIMUM, 2),
     (BH_MULTIPLY_REDUCE, REDUCE_PARTIAL, MULTIPLY, 2)]"

definition other_tacs :: "(bh_opcode \<times> OPERATION \<times> OPERATOR \<times> nat) list" where
  "other_tacs =
    [(BH_ADD_ACCUMULATE, SCAN, ADD, 2), (BH_MULTIPLY_ACCUMULATE, SCAN, MULTIPLY, 2),
     (BH_RANDOM, GENERATE, RANDOM, 2), (BH_RANGE, GENERATE, RANGE, 0),
     (BH_GATHER, INDEX, GATHER, 2), (BH_SCATTER, INDEX, SCATTER, 2),
     (BH_DISCARD, SYSTEM, DISCARD, 0), (BH_FREE, SYSTEM, FREE, 0), (BH_NONE, SYSTEM, NONE, 0),
     (BH_SYNC, SYSTEM, SYNC, 0)]"

definition tac_table :: "(bh_opcode \<times> OPERATION \<times> OPERATOR \<times> nat) list" where
  "tac_table =
     unary_tacs1 @ unary_tacs2 @ unary_tacs3 @ binary_tacs1 @
     binary_tacs2 @ binary_tacs3 @ reduce_tacs @ other_tacs"

fun tac_noperands :: "OPERATION \<Rightarrow> OPERATOR \<Rightarrow> cpu_error + nat" where
  "tac_noperands MAP oper = Inr 2"
| "tac_noperands ZIP oper = Inr 3"
| "tac_noperands SCAN oper = Inr 3"
| "tac_noperands REDUCE_COMPLETE oper = Inr 3"
| "tac_noperands REDUCE_PARTIAL oper = Inr 3"
| "tac_noperands GENERATE oper =
     (case oper of FLOOD \<Rightarrow> Inr 2 | RANDOM \<Rightarrow> Inr 3 | RANGE \<Rightarrow> Inr 1 | _ \<Rightarrow> Inl Runtime_error)"
| "tac_noperands INDEX oper = Inr 3"
| "tac_noperands SYSTEM oper =
     (case oper of DISCARD \<Rightarrow> Inr 1 | FREE \<Rightarrow> Inr 1 | SYNC \<Rightarrow> Inr 1 | NONE \<Rightarrow> Inr 0 | _ \<Rightarrow> Inl Runtime_error)"
| "tac_noperands EXTENSION oper = Inr 3"
| "tac_noperands NOOP oper = Inr 0"
| "tac_noperands OP_ZERO oper = Inr 0"

end
