(* ===== verification/Cpu_Symbol.thy ===== *)
theory Cpu_Symbol
  imports Cpu_Tac Bh_Float
begin

text \<open>
  Operands and the symbol table of the CPU engine: \<^verbatim>\<open>ve/cpu/symbol_table.cpp\<close> and the operand functions of
  \<^verbatim>\<open>ve/cpu/utils.cpp\<close>. An operand holds pointers: its dimensions lie in the instruction it was mapped from, the
  constant of a scalar is reached through the table entry (\<^verbatim>\<open>data = &table_[i].const_data\<close>). The pointers are
  references into the list of instructions and the table, so that writing through them is seen by everyone who
  shares them. \<open>Undefined\<close> is an access outside an array or through a dangling pointer.
\<close>

subsection \<open>References\<close>

datatype dims_ref = ShapeOf nat nat | StrideOf nat nat

datatype const_ref = ValueOf nat | StartOf nat | KeyOf nat

datatype data_ref = ConstSlot nat | BaseData ptr

record operand_t =
  layout :: LAYOUT
  odata :: data_ref
  const_data :: "const_ref option"
  etype :: ETYPE
  ostart :: int
  onelem :: int
  ondim :: nat
  oshape :: dims_ref
  ostride :: dims_ref
  obase :: ptr

type_synonym program = "bh_instruction list"

fun dims_at :: "program \<Rightarrow> dims_ref \<Rightarrow> int list" where
  "dims_at is (ShapeOf i k) = shape (operand (is ! i) ! k)"
| "dims_at is (StrideOf i k) = stride (operand (is ! i) ! k)"

definition set_operand :: "nat \<Rightarrow> nat \<Rightarrow> bh_view \<Rightarrow> program \<Rightarrow> program" where
  "set_operand i k v is = is[i := (is ! i)\<lparr>operand := (operand (is ! i))[k := v]\<rparr>]"

fun set_dim :: "dims_ref \<Rightarrow> nat \<Rightarrow> int \<Rightarrow> program \<Rightarrow> program" where
  "set_dim (ShapeOf i k) j x is =
     set_operand i k ((operand (is ! i) ! k)\<lparr>shape := (shape (operand (is ! i) ! k))[j := x]\<rparr>) is"
| "set_dim (StrideOf i k) j x is =
     set_operand i k ((operand (is ! i) ! k)\<lparr>stride := (stride (operand (is ! i) ! k))[j := x]\<rparr>) is"

fun const_at_ref :: "program \<Rightarrow> const_ref \<Rightarrow> byte list" where
  "const_at_ref is (ValueOf i) = cvalue (inst_constant (is ! i))"
| "const_at_ref is (StartOf i) = cvalue (inst_constant (is ! i))"
| "const_at_ref is (KeyOf i) = drop 8 (cvalue (inst_constant (is ! i)))"

definition put_constant :: "nat \<Rightarrow> bh_constant \<Rightarrow> program \<Rightarrow> program" where
  "put_constant i c is = is[i := (is ! i)\<lparr>inst_constant := c\<rparr>]"

fun set_const_ref :: "const_ref \<Rightarrow> nat \<Rightarrow> byte list \<Rightarrow> program \<Rightarrow> program" where
  "set_const_ref (ValueOf i) n bs is = put_constant i (put_value n bs (inst_constant (is ! i))) is"
| "set_const_ref (StartOf i) n bs is = put_constant i (put_value n bs (inst_constant (is ! i))) is"
| "set_const_ref (KeyOf i) n bs is =
     (let c = inst_constant (is ! i)
      in put_constant i (c\<lparr>cvalue := take 8 (cvalue c) @ take n bs @ drop (8 + n) (cvalue c)\<rparr>) is)"

text \<open>\<^verbatim>\<open>*(arg.data)\<close> of an operand with a constant. The data of base arrays is not part of the state; no function reads
  it through an operand.\<close>

definition const_of :: "operand_t list \<Rightarrow> operand_t \<Rightarrow> const_ref option" where
  "const_of tbl arg = (case odata arg of ConstSlot k \<Rightarrow> const_data (tbl ! k) | BaseData p \<Rightarrow> None)"

definition scalar_bytes :: "program \<Rightarrow> operand_t list \<Rightarrow> operand_t \<Rightarrow> byte list" where
  "scalar_bytes is tbl arg = (case const_of tbl arg of Some r \<Rightarrow> const_at_ref is r | None \<Rightarrow> [])"

subsection \<open>Layout of an operand\<close>

text \<open>The loop of \<^verbatim>\<open>determine_layout\<close> from dimension \<open>d - 1\<close> down: the flag and the number of elements.\<close>

fun layout_loop :: "nat \<Rightarrow> int list \<Rightarrow> int list \<Rightarrow> bool \<Rightarrow> int \<Rightarrow> int \<Rightarrow> bool \<times> int" where
  "layout_loop 0 shp strd consecutive weight nelements = (consecutive, nelements)"
| "layout_loop (Suc d) shp strd consecutive weight nelements =
     layout_loop d shp strd (if strd ! d \<noteq> weight then False else consecutive)
       (shp ! d * strd ! d) (nelements * shp ! d)"

definition determine_layout :: "nat \<Rightarrow> int list \<Rightarrow> int list \<Rightarrow> cpu_error + LAYOUT" where
  "determine_layout nd shp strd =
     (if nd = 0 then Inl Undefined
      else
        (let inner = strd ! (nd - 1); (consecutive, nelements) = layout_loop nd shp strd True inner 1
         in Inr (if nelements = 1 then SCALAR
                 else if consecutive \<and> inner = 1 then CONTIGUOUS
                 else if consecutive \<and> 1 < inner then CONSECUTIVE
                 else STRIDED)))"

fun contiguous_from :: "nat \<Rightarrow> int list \<Rightarrow> int list \<Rightarrow> int \<Rightarrow> bool" where
  "contiguous_from 0 shp strd weight = True"
| "contiguous_from (Suc d) shp strd weight =
     (if strd ! d \<noteq> weight then False else contiguous_from d shp strd (weight * shp ! d))"

definition contiguous :: "program \<Rightarrow> operand_t \<Rightarrow> bool" where
  "contiguous is arg = contiguous_from (ondim arg) (dims_at is (oshape arg)) (dims_at is (ostride arg)) 1"

definition compatible :: "program \<Rightarrow> operand_t \<Rightarrow> operand_t \<Rightarrow> bool" where
  "compatible is one other =
     (if layout_in (layout one) SCALAR_LAYOUT \<or> layout_in (layout other) SCALAR_LAYOUT then True
      else if ostart one \<noteq> ostart other then False
      else if ondim one \<noteq> ondim other then False
      else eq_loop (ondim one) 0 (dims_at is (oshape one)) (dims_at is (oshape other)))"

subsection \<open>Scalars\<close>

fun etype_int :: "ETYPE \<Rightarrow> byte list \<Rightarrow> int option" where
  "etype_int BOOL bs = Some (le_value (take 1 bs))"
| "etype_int INT8 bs = Some (signed_of 1 (le_value (take 1 bs)))"
| "etype_int INT16 bs = Some (signed_of 2 (le_value (take 2 bs)))"
| "etype_int INT32 bs = Some (signed_of 4 (le_value (take 4 bs)))"
| "etype_int INT64 bs = Some (signed_of 8 (le_value (take 8 bs)))"
| "etype_int UINT8 bs = Some (le_value (take 1 bs))"
| "etype_int UINT16 bs = Some (le_value (take 2 bs))"
| "etype_int UINT32 bs = Some (le_value (take 4 bs))"
| "etype_int UINT64 bs = Some (le_value (take 8 bs))"
| "etype_int FLOAT32 bs = None"
| "etype_int FLOAT64 bs = None"
| "etype_int COMPLEX64 bs = None"
| "etype_int COMPLEX128 bs = None"
| "etype_int PAIRLL bs = None"

fun scalar_eq :: "ETYPE \<Rightarrow> byte list \<Rightarrow> byte list \<Rightarrow> bool" where
  "scalar_eq FLOAT32 a b = ieee_eq 8 23 (le_value (take 4 a)) (le_value (take 4 b))"
| "scalar_eq FLOAT64 a b = ieee_eq 11 52 (le_value (take 8 a)) (le_value (take 8 b))"
| "scalar_eq COMPLEX64 a b = False"
| "scalar_eq COMPLEX128 a b = False"
| "scalar_eq PAIRLL a b = False"
| "scalar_eq e a b = (etype_int e a = etype_int e b)"

text \<open>The loop over the dimensions at the end of \<^verbatim>\<open>equivalent\<close>.\<close>

fun same_dims :: "nat \<Rightarrow> nat \<Rightarrow> int list \<Rightarrow> int list \<Rightarrow> int list \<Rightarrow> int list \<Rightarrow> bool" where
  "same_dims 0 j strd strd' shp shp' = True"
| "same_dims (Suc k) j strd strd' shp shp' =
     (if strd ! j \<noteq> strd' ! j then False
      else if shp ! j \<noteq> shp' ! j then False
      else same_dims k (Suc j) strd strd' shp shp')"

definition equivalent :: "program \<Rightarrow> operand_t list \<Rightarrow> operand_t \<Rightarrow> operand_t \<Rightarrow> bool" where
  "equivalent is tbl one other =
     (if layout one \<noteq> layout other then False
      else if layout one = SCALAR_CONST \<and> etype one = etype other
        then scalar_eq (etype one) (scalar_bytes is tbl one) (scalar_bytes is tbl other)
      else if odata one \<noteq> odata other then False
      else if ondim one \<noteq> ondim other then False
      else if ostart one \<noteq> ostart other then False
      else if obase one \<noteq> obase other then False
      else same_dims (ondim one) 0 (dims_at is (ostride one)) (dims_at is (ostride other))
             (dims_at is (oshape one)) (dims_at is (oshape other)))"

text \<open>The value of the \<^verbatim>\<open>double\<close> returned by \<^verbatim>\<open>get_scalar\<close>, \<open>None\<close> for an infinity or NaN. Integers are rounded to 53
  bits; single precision converts exactly.\<close>

definition get_scalar :: "program \<Rightarrow> operand_t list \<Rightarrow> operand_t \<Rightarrow> cpu_error + rat option" where
  "get_scalar is tbl arg =
     (let bs = scalar_bytes is tbl arg in
      case etype arg of
        FLOAT32 \<Rightarrow> Inr (ieee_value 8 23 (le_value (take 4 bs)))
      | FLOAT64 \<Rightarrow> Inr (ieee_value 11 52 (le_value (take 8 bs)))
      | _ \<Rightarrow> (case etype_int (etype arg) bs of
                 Some x \<Rightarrow> Inr (Some (of_int (round_int 53 x)))
               | None \<Rightarrow> Inl Invalid_argument))"

text \<open>\<^verbatim>\<open>set_scalar\<close> with an integer as its value; the only call passes 0.\<close>

definition set_scalar :: "program \<Rightarrow> operand_t list \<Rightarrow> operand_t \<Rightarrow> int \<Rightarrow> cpu_error + program" where
  "set_scalar is tbl arg value =
     (case const_of tbl arg of
        None \<Rightarrow> Inl Undefined
      | Some r \<Rightarrow>
          (let put = (\<lambda>n x. Inr (set_const_ref r n (le_bytes n x) is)) in
           case etype arg of
             BOOL \<Rightarrow> put 1 value | INT8 \<Rightarrow> put 1 value | INT16 \<Rightarrow> put 2 value | INT32 \<Rightarrow> put 4 value | INT64 \<Rightarrow> put 8 value
           | UINT8 \<Rightarrow> put 1 value | UINT16 \<Rightarrow> put 2 value | UINT32 \<Rightarrow> put 4 value | UINT64 \<Rightarrow> put 8 value
           | FLOAT32 \<Rightarrow> put 4 (ieee_of_int 8 23 value) | FLOAT64 \<Rightarrow> put 8 (ieee_of_int 11 52 value)
           | _ \<Rightarrow> Inl Invalid_argument))"

subsection \<open>The symbol table\<close>

text \<open>\<open>junk\<close> is what the freshly allocated array holds.\<close>

record symbol_table =
  table :: "operand_t list"
  nsymbols :: nat

definition SymbolTable_new :: "(nat \<Rightarrow> operand_t) \<Rightarrow> nat \<Rightarrow> symbol_table" where
  "SymbolTable_new junk n = \<lparr>table = map junk [0..<n], nsymbols = 0\<rparr>"

definition symbol_clear :: "symbol_table \<Rightarrow> symbol_table" where
  "symbol_clear st = st\<lparr>nsymbols := 0\<rparr>"

definition symbol_capacity :: "symbol_table \<Rightarrow> nat" where
  "symbol_capacity st = length (table st)"

definition symbol_size :: "symbol_table \<Rightarrow> nat" where
  "symbol_size st = nsymbols st"

definition symbol_import :: "operand_t \<Rightarrow> symbol_table \<Rightarrow> cpu_error + nat \<times> symbol_table" where
  "symbol_import opd st =
     (if nsymbols st < length (table st)
      then Inr (Suc (nsymbols st), \<lparr>table = (table st)[nsymbols st := opd], nsymbols = Suc (nsymbols st)\<rparr>)
      else Inl Undefined)"

text \<open>The operand of a constant. The same array is used for shape and stride, and its first entry is set to 1 and
  then to 0.\<close>

definition const_operand :: "program \<Rightarrow> nat \<Rightarrow> nat \<Rightarrow> nat \<Rightarrow> cpu_error + operand_t \<times> program" where
  "const_operand is i k arg_idx =
     (let type = ctype (inst_constant (is ! i));
          mk = (\<lambda>r e. (\<lparr>layout = SCALAR_CONST, odata = ConstSlot arg_idx, const_data = Some r, etype = e, ostart = 0,
             onelem = 1, ondim = 1, oshape = ShapeOf i k, ostride = ShapeOf i k, obase = NULL\<rparr>,
             set_dim (ShapeOf i k) 0 0 (set_dim (ShapeOf i k) 0 1 is)))
      in if type \<noteq> BH_R123 then
           (case bhtype_to_etype type of Inl e \<Rightarrow> Inl e | Inr e \<Rightarrow> Inr (mk (ValueOf i) e))
         else if k = 1 then Inr (mk (StartOf i) UINT64)
         else if k = 2 then Inr (mk (KeyOf i) UINT64)
         else Inl Runtime_error)"

definition array_operand :: "(ptr \<rightharpoonup> bh_base) \<Rightarrow> program \<Rightarrow> nat \<Rightarrow> nat \<Rightarrow> cpu_error + operand_t" where
  "array_operand bs is i k =
     (let v = operand (is ! i) ! k in
      case bs (base v) of
        None \<Rightarrow> Inl Undefined
      | Some b \<Rightarrow>
          (case bhtype_to_etype (base_type b) of
             Inl e \<Rightarrow> Inl e
           | Inr e \<Rightarrow>
               (case determine_layout (ndim v) (shape v) (stride v) of
                  Inl e \<Rightarrow> Inl e
                | Inr l \<Rightarrow> Inr \<lparr>layout = l, odata = BaseData (base v), const_data = None, etype = e,
                    ostart = start v, onelem = base_nelem b, ondim = ndim v,
                    oshape = ShapeOf i k, ostride = StrideOf i k, obase = base v\<rparr>)))"

text \<open>The search for an operand that was seen before.\<close>

definition reuse_symbol :: "program \<Rightarrow> nat \<Rightarrow> symbol_table \<Rightarrow> nat \<times> symbol_table" where
  "reuse_symbol is arg_idx st =
     (case find (\<lambda>j. equivalent is (table st) (table st ! j) (table st ! arg_idx)) [1..<arg_idx] of
        Some j \<Rightarrow> (j, st\<lparr>nsymbols := nsymbols st - 1\<rparr>)
      | None \<Rightarrow> (arg_idx, st))"

definition map_operand ::
  "(ptr \<rightharpoonup> bh_base) \<Rightarrow> nat \<Rightarrow> nat \<Rightarrow> program \<times> symbol_table \<Rightarrow> cpu_error + nat \<times> program \<times> symbol_table" where
  "map_operand bs i k s =
     (let (is, st) = s; arg_idx = Suc (nsymbols st)
      in if \<not> arg_idx < length (table st) then Inl Undefined
         else
           (case (if bh_is_constant (operand (is ! i) ! k) then const_operand is i k arg_idx
                  else map_sum id (\<lambda>opd. (opd, is)) (array_operand bs is i k)) of
              Inl e \<Rightarrow> Inl e
            | Inr (opd, is) \<Rightarrow>
                (let (idx, st) = reuse_symbol is arg_idx \<lparr>table = (table st)[arg_idx := opd], nsymbols = arg_idx\<rparr>
                 in Inr (idx, is, st))))"

definition turn_contractable :: "nat \<Rightarrow> symbol_table \<Rightarrow> symbol_table" where
  "turn_contractable idx st =
     (let opd = table st ! idx
      in st\<lparr>table := (table st)[idx := opd\<lparr>layout := (if layout opd = SCALAR then SCALAR_TEMP else CONTRACTABLE)\<rparr>]\<rparr>)"

end
