(* ===== verification/Cpu_Layout.thy ===== *)
theory Cpu_Layout
  imports Cpu_Symbol
begin

text \<open>
  What \<^verbatim>\<open>determine_layout\<close> says of a view: whether its elements lie one after the other in memory.
\<close>

lemma layout_loop_eq:
  assumes "d \<le> length shp"
  shows "layout_loop d shp strd c w ne =
    (c \<and> (0 < d \<longrightarrow> strd ! (d - 1) = w) \<and> (\<forall>j. Suc j < d \<longrightarrow> strd ! j = shp ! Suc j * strd ! Suc j), ne * prod_list (take d shp))"
  using assms
proof (induction d arbitrary: c w ne)
  case (Suc d)
  have "(0 < d \<longrightarrow> strd ! (d - 1) = shp ! d * strd ! d) \<and> (\<forall>j. Suc j < d \<longrightarrow> strd ! j = shp ! Suc j * strd ! Suc j) \<longleftrightarrow>
    (\<forall>j. Suc j < Suc d \<longrightarrow> strd ! j = shp ! Suc j * strd ! Suc j)"
    by (cases d) (auto simp: less_Suc_eq)
  with Suc show ?case by (auto simp: take_Suc_conv_app_nth mult.assoc)
qed simp

definition packed :: "(int \<times> int) list \<Rightarrow> bool" where
  "packed ds \<longleftrightarrow> (\<forall>j. Suc j < length ds \<longrightarrow> snd (ds ! j) = fst (ds ! Suc j) * snd (ds ! Suc j))"

lemma packed_Cons: "packed (d # e # ds) \<longleftrightarrow> snd d = fst e * snd e \<and> packed (e # ds)"
  unfolding packed_def
proof (intro iffI conjI allI impI)
  fix j assume "snd d = fst e * snd e \<and> (\<forall>j. Suc j < length (e # ds) \<longrightarrow> snd ((e # ds) ! j) = fst ((e # ds) ! Suc j) * snd ((e # ds) ! Suc j))"
    and "Suc j < length (d # e # ds)"
  then show "snd ((d # e # ds) ! j) = fst ((d # e # ds) ! Suc j) * snd ((d # e # ds) ! Suc j)" by (cases j) auto
qed force+

lemma offsets_packed:
  assumes "packed (d # ds)" and "\<forall>(n, s) \<in> set (d # ds). 0 \<le> n"
  shows "offsets (d # ds) = map (\<lambda>i. snd (last (d # ds)) * i) [0..prod_list (map fst (d # ds)) - 1] \<and>
    fst d * snd d = snd (last (d # ds)) * prod_list (map fst (d # ds))"
  using assms
proof (induction ds arbitrary: d)
  case Nil
  obtain n s where d: "d = (n, s)" by (cases d)
  have "concat (map (\<lambda>i. [i * s]) xs) = map (\<lambda>i. s * i) xs" for xs by (induction xs) (simp_all add: mult.commute)
  then show ?case by (simp add: d mult.commute)
next
  case (Cons e ds)
  obtain n s where d: "d = (n, s)" by (cases d)
  let ?s = "snd (last (e # ds))" and ?N = "prod_list (map fst (e # ds))"
  have IH: "offsets (e # ds) = map (\<lambda>i. ?s * i) [0..?N - 1]" "fst e * snd e = ?s * ?N"
    using Cons by (auto simp: packed_Cons)
  have s: "s = ?s * ?N" using Cons.prems IH(2) d by (simp add: packed_Cons)
  have N: "0 \<le> ?N" using Cons.prems(2) by (intro prod_list_nonneg) auto
  have "offsets (d # e # ds) = map (\<lambda>i. ?s * i) (concat (map (\<lambda>i. map (\<lambda>j. i * ?N + j) [0..?N - 1]) [0..n - 1]))"
    unfolding d offsets.simps(2) IH(1) by (simp add: map_concat s algebra_simps comp_def)
  moreover have "concat (map (\<lambda>i. map (\<lambda>j. i * ?N + j) [0..?N - 1]) [0..n - 1]) = [0..n * ?N - 1]"
    using concat_map_upto [OF N, of "nat n"] Cons.prems(2) d by simp
  ultimately show ?case using d s by simp
qed

lemma upto_prefix:
  assumes "0 \<le> M" and "M \<le> N"
  shows "take (nat M) (map f [0..N - 1]) = map f [0..M - 1]"
proof -
  have "[0..N - 1] = [0..M - 1] @ [M..N - 1]" using assms upto_split1 [of 0 M "N - 1"] by (cases "M = N") auto
  then show ?thesis using assms by (simp add: take_map)
qed

lemma offsets_head:
  assumes "2 \<le> n"
  shows "\<exists>xs. offsets ((n, s) # ds) = offsets ds @ map (\<lambda>p. s + p) (offsets ds) @ xs"
proof -
  have "[0..n - 1] = 0 # 1 # [2..n - 1]" using assms by (simp add: upto_rec1 [of 0] upto_rec1 [of 1])
  then show ?thesis by simp
qed

lemma prod_list_positive: "(\<And>x. x \<in> set xs \<Longrightarrow> (2::int) \<le> x) \<Longrightarrow> 0 < prod_list xs"
  by (induction xs) (simp_all, fastforce)

lemma offsets_first: "(\<forall>(n, s) \<in> set ds. 2 \<le> n) \<Longrightarrow> 0 < length (offsets ds) \<and> offsets ds ! 0 = 0"
proof (induction ds)
  case (Cons d ds)
  obtain n s where d: "d = (n, s)" by (cases d)
  then obtain xs where "offsets (d # ds) = offsets ds @ xs" using offsets_head [of n s ds] Cons.prems by auto
  with Cons show ?case by (simp add: nth_append)
qed simp

lemma packed_offsets:
  assumes "offsets (d # ds) = map (\<lambda>i. t * i) [0..prod_list (map fst (d # ds)) - 1]" and "\<forall>(n, s) \<in> set (d # ds). 2 \<le> n"
  shows "packed (d # ds) \<and> snd (last (d # ds)) = t"
  using assms
proof (induction ds arbitrary: d)
  case Nil
  obtain n s where d: "d = (n, s)" by (cases d)
  have "offsets [d] ! 1 = s" using offsets_head [of n s "[]"] Nil.prems(2) d by auto
  moreover have "offsets [d] ! 1 = t" unfolding Nil.prems(1) using Nil.prems(2) d by (simp add: nth_upto)
  ultimately show ?case using d by (simp add: packed_def)
next
  case (Cons e ds)
  obtain n s where d: "d = (n, s)" by (cases d)
  let ?N = "prod_list (map fst (e # ds))"
  have N: "0 < ?N" using Cons.prems(2) by (intro prod_list_positive) auto
  have n: "2 \<le> n" using Cons.prems(2) d by simp
  then have nN: "2 * ?N \<le> n * ?N" using N by (intro mult_right_mono) auto
  obtain xs where xs: "offsets (d # e # ds) = offsets (e # ds) @ map (\<lambda>p. s + p) (offsets (e # ds)) @ xs"
    using offsets_head [OF n] d by blast
  have len: "length (offsets (e # ds)) = nat ?N"
    using length_offsets [of "e # ds"] Cons.prems(2) N by fastforce
  have all: "offsets (d # e # ds) = map (\<lambda>i. t * i) [0..n * ?N - 1]" using Cons.prems(1) d by simp
  have "offsets (e # ds) = take (nat ?N) (offsets (d # e # ds))" unfolding xs len [symmetric] by simp
  also have "\<dots> = map (\<lambda>i. t * i) [0..?N - 1]" unfolding all using N nN by (intro upto_prefix) auto
  finally have "offsets (e # ds) = map (\<lambda>i. t * i) [0..prod_list (map fst (e # ds)) - 1]" .
  then have IH: "packed (e # ds)" "snd (last (e # ds)) = t" using Cons.IH [of e] Cons.prems(2) by auto
  have first: "0 < length (offsets (e # ds))" "offsets (e # ds) ! 0 = 0" using offsets_first [of "e # ds"] Cons.prems(2) by auto
  have "offsets (d # e # ds) ! nat ?N = s" unfolding xs using first by (simp add: nth_append len)
  moreover have "offsets (d # e # ds) ! nat ?N = t * ?N" unfolding all using N nN by (simp add: nth_upto)
  moreover have "fst e * snd e = t * ?N" using offsets_packed [OF IH(1)] Cons.prems(2) IH(2) by fastforce
  ultimately show ?case using IH d by (auto simp: packed_Cons)
qed

lemma dims_many:
  assumes "wf_view v" and "\<forall>j < ndim v. 2 \<le> shape v ! j"
  shows "int (length (view_offsets v)) \<noteq> 1"
proof -
  have two: "\<forall>(n, s) \<in> set (view_dims v). 2 \<le> n"
    using assms by (auto simp: in_set_conv_nth length_view_dims view_dims_nth)
  obtain n s ds where d: "view_dims v = (n, s) # ds" using assms(1) length_view_dims [OF assms(1)] by (cases "view_dims v") (auto simp: wf_view_def)
  then obtain xs where "offsets (view_dims v) = offsets ds @ map (\<lambda>p. s + p) (offsets ds) @ xs" using offsets_head [of n s ds] two by auto
  moreover have "0 < length (offsets ds)" using offsets_first [of ds] two d by auto
  ultimately show ?thesis by (simp only: view_offsets_def length_map length_append)
qed

subsection \<open>The layout of a view\<close>

definition view_layout :: "bh_view \<Rightarrow> cpu_error + LAYOUT" where
  "view_layout v = determine_layout (ndim v) (shape v) (stride v)"

definition inner_stride :: "bh_view \<Rightarrow> int" where
  "inner_stride v = stride v ! (ndim v - 1)"

lemma view_layout_eq:
  assumes "wf_view v" and "nonneg_shape v"
  shows "view_layout v = Inr (if length (view_offsets v) = 1 then SCALAR
     else if packed (view_dims v) \<and> inner_stride v = 1 then CONTIGUOUS
     else if packed (view_dims v) \<and> 1 < inner_stride v then CONSECUTIVE else STRIDED)"
proof -
  have nd: "0 < ndim v" "ndim v \<le> length (shape v)" "ndim v \<le> length (stride v)" using assms(1) by (auto simp: wf_view_def)
  have "packed (view_dims v) \<longleftrightarrow> (\<forall>j. Suc j < ndim v \<longrightarrow> stride v ! j = shape v ! Suc j * stride v ! Suc j)"
    using assms(1) by (auto simp: packed_def view_dims_nth length_view_dims)
  moreover have "prod_list (take (ndim v) (shape v)) = int (length (view_offsets v))"
    using length_offsets [OF nonneg_dims [OF assms(2)]] by (simp add: view_offsets_def map_fst_view_dims [OF assms(1)])
  ultimately show ?thesis using nd
    by (simp add: view_layout_def determine_layout_def Let_def layout_loop_eq inner_stride_def) blast
qed

lemma view_dims_last:
  assumes "wf_view v"
  obtains d ds where "view_dims v = d # ds" and "snd (last (d # ds)) = inner_stride v"
proof -
  have l: "length (view_dims v) = ndim v" "0 < ndim v" using assms by (auto simp: length_view_dims wf_view_def)
  then have "last (view_dims v) = view_dims v ! (ndim v - 1)" by (metis last_conv_nth length_0_conv less_numeral_extra(3))
  then have "snd (last (view_dims v)) = inner_stride v" using view_dims_nth [OF assms, of "ndim v - 1"] l by (simp add: inner_stride_def)
  then show ?thesis using that l by (cases "view_dims v") auto
qed

lemma packed_view_offsets:
  assumes "wf_view v" and "nonneg_shape v" and "packed (view_dims v)"
  shows "view_offsets v = map (\<lambda>i. start v + inner_stride v * i) [0..int (length (view_offsets v)) - 1]"
proof -
  obtain d ds where d: "view_dims v = d # ds" "snd (last (d # ds)) = inner_stride v" using view_dims_last [OF assms(1)] .
  have "int (length (offsets (view_dims v))) = prod_list (map fst (view_dims v))" using length_offsets [OF nonneg_dims [OF assms(2)]] .
  then show ?thesis using offsets_packed [of d ds] assms(3) nonneg_dims [OF assms(2)] d
    by (simp add: view_offsets_def comp_def)
qed

lemma arithmetic_packed:
  assumes "wf_view v" and "\<forall>j < ndim v. 2 \<le> shape v ! j"
    and "view_offsets v = map (\<lambda>i. start v + t * i) [0..int (length (view_offsets v)) - 1]"
  shows "packed (view_dims v) \<and> inner_stride v = t"
proof -
  obtain d ds where d: "view_dims v = d # ds" "snd (last (d # ds)) = inner_stride v" using view_dims_last [OF assms(1)] .
  have two: "\<forall>(n, s) \<in> set (view_dims v). 2 \<le> n"
    using assms(1,2) by (auto simp: in_set_conv_nth length_view_dims view_dims_nth)
  then have "int (length (offsets (view_dims v))) = prod_list (map fst (view_dims v))" by (intro length_offsets) force
  then have "map (\<lambda>p. start v + p) (offsets (view_dims v)) =
    map (\<lambda>p. start v + p) (map (\<lambda>i. t * i) [0..prod_list (map fst (view_dims v)) - 1])"
    using assms(3) by (simp add: view_offsets_def comp_def)
  then have "offsets (view_dims v) = map (\<lambda>i. t * i) [0..prod_list (map fst (view_dims v)) - 1]"
    by (rule map_injective) (simp add: inj_def)
  then show ?thesis using packed_offsets [of d ds t] two d by simp
qed

text \<open>
  C30. The layout the CPU engine gives an operand is right for every well-formed view: SCALAR exactly for views of one
  element, CONTIGUOUS only when the elements lie at consecutive addresses, CONSECUTIVE only when they lie at a fixed
  distance above one. When no dimension has length one (or zero) the layout is exact: a view whose elements are
  consecutive, or at a fixed distance, in the order of iteration gets that layout and no weaker one.
\<close>

theorem determine_layout_correct:
  assumes "wf_view v" and "nonneg_shape v"
  defines "n \<equiv> int (length (view_offsets v))"
  shows "\<exists>l. determine_layout (ndim v) (shape v) (stride v) = Inr l \<and> l \<in> {SCALAR, CONTIGUOUS, CONSECUTIVE, STRIDED} \<and>
    (l = SCALAR \<longleftrightarrow> n = 1) \<and>
    (l = CONTIGUOUS \<longrightarrow> view_offsets v = [start v..start v + n - 1]) \<and>
    (l = CONSECUTIVE \<longrightarrow> (\<exists>s>1. view_offsets v = map (\<lambda>i. start v + s * i) [0..n - 1])) \<and>
    ((\<forall>j < ndim v. 2 \<le> shape v ! j) \<longrightarrow>
       (l = CONTIGUOUS \<longleftrightarrow> view_offsets v = [start v..start v + n - 1]) \<and>
       (l = CONSECUTIVE \<longleftrightarrow> (\<exists>s>1. view_offsets v = map (\<lambda>i. start v + s * i) [0..n - 1])))"
proof -
  let ?pk = "packed (view_dims v)" and ?s = "inner_stride v"
  let ?l = "if n = 1 then SCALAR else if ?pk \<and> ?s = 1 then CONTIGUOUS else if ?pk \<and> 1 < ?s then CONSECUTIVE else STRIDED"
  have l: "determine_layout (ndim v) (shape v) (stride v) = Inr ?l"
    using view_layout_eq [OF assms(1,2)] by (simp add: view_layout_def n_def)
  have step: "view_offsets v = map (\<lambda>i. start v + ?s * i) [0..n - 1]" if ?pk
    unfolding n_def by (rule packed_view_offsets [OF assms(1,2) that])
  have unit: "map (\<lambda>i. start v + 1 * i) [0..n - 1] = [start v..start v + n - 1]"
    using map_plus_upto [of "start v" 0 "n - 1"] by (simp add: algebra_simps)
  have conv: "?pk \<and> ?s = t" if "\<forall>j < ndim v. 2 \<le> shape v ! j" "view_offsets v = map (\<lambda>i. start v + t * i) [0..n - 1]" for t
    by (rule arithmetic_packed [OF assms(1) that(1) that(2) [unfolded n_def]])
  have many: "n \<noteq> 1" if "\<forall>j < ndim v. 2 \<le> shape v ! j"
    using dims_many [OF assms(1) that] by (simp add: n_def)
  have sound: "?l = CONTIGUOUS \<Longrightarrow> view_offsets v = [start v..start v + n - 1]"
    "?l = CONSECUTIVE \<Longrightarrow> \<exists>s>1. view_offsets v = map (\<lambda>i. start v + s * i) [0..n - 1]"
    using step unit by (auto split: if_splits)
  have exact: "?l = CONTIGUOUS" if "\<forall>j < ndim v. 2 \<le> shape v ! j" "view_offsets v = [start v..start v + n - 1]"
    using conv [OF that(1), of 1] many [OF that(1)] that(2) unit by simp
  have exact': "?l = CONSECUTIVE"
    if two: "\<forall>j < ndim v. 2 \<le> shape v ! j" and step: "\<exists>s>1. view_offsets v = map (\<lambda>i. start v + s * i) [0..n - 1]"
  proof -
    obtain t where t: "1 < t" "view_offsets v = map (\<lambda>i. start v + t * i) [0..n - 1]" using step by blast
    show ?thesis using conv [OF two t(2)] t(1) many [OF two] by simp
  qed
  have range: "?l \<in> {SCALAR, CONTIGUOUS, CONSECUTIVE, STRIDED}" "?l = SCALAR \<longleftrightarrow> n = 1" by (simp_all split: if_splits)
  obtain L where L: "L = ?l" by simp
  show ?thesis using l range sound exact exact' unfolding L [symmetric] by blast
qed

text \<open>A matrix of two rows and three columns that uses every second element.\<close>

theorem determine_layout_correct_witness:
  "determine_layout 2 (shape (mk_view 1 4 [(2, 6), (3, 2)])) (stride (mk_view 1 4 [(2, 6), (3, 2)])) = Inr CONSECUTIVE"
proof -
  let ?v = "mk_view 1 4 [(2, 6), (3, 2)]"
  have "view_offsets (mk_view 1 4 [(2, 6), (3, 2)]) = map (\<lambda>i. 4 + 2 * i) [0..5]"
    by (simp add: view_offsets_def view_dims_def mk_view_def BH_MAXDIM_def upto_rec1)
  then have "\<exists>s>1. view_offsets ?v = map (\<lambda>i. start ?v + s * i) [0..int (length (view_offsets ?v)) - 1]"
    by (intro exI [of _ 2]) (simp add: mk_view_def)
  moreover have "wf_view ?v" "nonneg_shape ?v" "\<forall>j < ndim ?v. 2 \<le> shape ?v ! j"
    by (auto simp: wf_view_def nonneg_shape_def mk_view_def BH_MAXDIM_def less_Suc_eq numeral_2_eq_2)
  ultimately have "determine_layout (ndim ?v) (shape ?v) (stride ?v) = Inr CONSECUTIVE" using determine_layout_correct [of ?v] by metis
  then show ?thesis by (simp add: mk_view_def numeral_2_eq_2)
qed

end
