(* ===== verification/Cpu_Compile.thy ===== *)
theory Cpu_Compile
  imports Cpu_Layout
begin

text \<open>
  Translation of a batch into three-address code: \<^verbatim>\<open>instrs_to_tacs\<close> of \<^verbatim>\<open>ve/cpu/utils_mapping_tacs.cpp\<close> and
  \<^verbatim>\<open>tac_transform\<close> of \<^verbatim>\<open>ve/cpu/utils.cpp\<close>. The state is the batch, which the translation writes to, and the symbol
  table. The local operation mask of \<^verbatim>\<open>instrs_to_tacs\<close> is never read and left out.
\<close>

subsection \<open>Transformation of one TAC\<close>

definition transform_identity :: "tac_t \<Rightarrow> tac_t" where
  "transform_identity tac = (if tac_out tac = tac_in1 tac then tac\<lparr>tac_op := NOOP\<rparr> else tac)"

definition to_identity :: "tac_t \<Rightarrow> tac_t" where
  "to_identity tac = transform_identity (tac\<lparr>tac_op := MAP, tac_oper := IDENTITY, tac_in2 := 0\<rparr>)"

definition is_scalar_const :: "operand_t \<Rightarrow> bool" where
  "is_scalar_const opd \<longleftrightarrow> layout_in (layout opd) (layout_code SCALAR_CONST)"

definition transform_zip :: "program \<Rightarrow> operand_t list \<Rightarrow> tac_t \<Rightarrow> cpu_error + tac_t \<times> program" where
  "transform_zip is tbl tac =
     (let in2 = tbl ! tac_in2 tac in
      case tac_oper tac of
        ADD \<Rightarrow>
          (if is_scalar_const in2 then
             (case get_scalar is tbl in2 of
                Inl e \<Rightarrow> Inl e
              | Inr v \<Rightarrow> Inr (if v = Some 0 then to_identity tac else tac, is))
           else Inr (tac, is))
      | MULTIPLY \<Rightarrow>
          (if is_scalar_const in2 then
             (case get_scalar is tbl in2 of
                Inl e \<Rightarrow> Inl e
              | Inr v \<Rightarrow>
                  if v = Some 0 then
                    (case set_scalar is tbl in2 0 of
                       Inl e \<Rightarrow> Inl e
                     | Inr is' \<Rightarrow>
                         Inr (tac\<lparr>tac_op := MAP, tac_oper := IDENTITY, tac_in1 := tac_in2 tac, tac_in2 := 0\<rparr>, is'))
                  else if v = Some 1 then Inr (to_identity tac, is)
                  else Inr (tac, is))
           else Inr (tac, is))
      | DIVIDE \<Rightarrow>
          (if is_scalar_const in2 then
             (case get_scalar is tbl in2 of
                Inl e \<Rightarrow> Inl e
              | Inr v \<Rightarrow> Inr (if v = Some 1 then to_identity tac else tac, is))
           else Inr (tac, is))
      | _ \<Rightarrow> Inr (tac, is))"

definition tac_transform :: "program \<Rightarrow> operand_t list \<Rightarrow> tac_t \<Rightarrow> cpu_error + tac_t \<times> program" where
  "tac_transform is tbl tac =
     (let scalar_in1 = (layout (tbl ! tac_in1 tac) = SCALAR) in
      case tac_op tac of
        REDUCE_COMPLETE \<Rightarrow> Inr (if scalar_in1 then to_identity tac else tac, is)
      | REDUCE_PARTIAL \<Rightarrow>
          Inr (if scalar_in1 then to_identity tac
               else if layout (tbl ! tac_out tac) = SCALAR then tac\<lparr>tac_op := REDUCE_COMPLETE\<rparr>
               else tac, is)
      | SCAN \<Rightarrow> Inr (if scalar_in1 then to_identity tac else tac, is)
      | ZIP \<Rightarrow> transform_zip is tbl tac
      | MAP \<Rightarrow> Inr (if tac_oper tac = IDENTITY then transform_identity tac else tac, is)
      | _ \<Rightarrow> Inr (tac, is))"

subsection \<open>Translation of the batch\<close>

definition BH_MAX_OPCODE_ID :: bh_opcode where
  "BH_MAX_OPCODE_ID = Max (fst ` set opcode_table)"

type_synonym cpu_state = "program \<times> symbol_table"

text \<open>Mapping of the first \<open>n\<close> operands of instruction \<open>i\<close> (\<open>n\<close> is at most 3): the indices, 0 for an operand that is not
  mapped. \<open>BH_NONE\<close> has no output.\<close>

fun map_operands :: "(ptr \<rightharpoonup> bh_base) \<Rightarrow> nat \<Rightarrow> nat list \<Rightarrow> cpu_state \<Rightarrow> cpu_error + nat list \<times> cpu_state" where
  "map_operands bs i [] s = Inr ([], s)"
| "map_operands bs i (k # ks) s =
     (case map_operand bs i k s of
        Inl e \<Rightarrow> Inl e
      | Inr (idx, s) \<Rightarrow> (case map_operands bs i ks s of Inl e \<Rightarrow> Inl e | Inr (idxs, s) \<Rightarrow> Inr (idx # idxs, s)))"

definition mapped_operands :: "bh_opcode \<Rightarrow> nat list" where
  "mapped_operands op =
     (if op \<noteq> BH_NONE then [0] else []) @
     (case map_of tac_table op of
        Some (_, _, n) \<Rightarrow> [1..<Suc n]
      | None \<Rightarrow> if BH_MAX_OPCODE_ID \<le> op then [1, 2] else [])"

definition pick :: "nat list \<Rightarrow> nat \<Rightarrow> nat" where
  "pick xs k = (if k < length xs then xs ! k else 0)"

text \<open>The switch over the opcode; an opcode below \<^verbatim>\<open>BH_MAX_OPCODE_ID\<close> without a case only prints a message.\<close>

definition switch_opcode :: "nat \<Rightarrow> bh_opcode \<Rightarrow> nat list \<Rightarrow> tac_t \<Rightarrow> tac_t" where
  "switch_opcode i op idxs tac =
     (case map_of tac_table op of
        Some (operation, operator, _) \<Rightarrow>
          \<lparr>tac_op = operation, tac_oper = operator, tac_out = pick idxs 0, tac_in1 = pick idxs 1, tac_in2 = pick idxs 2,
           tac_ext = None\<rparr>
      | None \<Rightarrow>
          if BH_MAX_OPCODE_ID \<le> op then
            \<lparr>tac_op = EXTENSION, tac_oper = EXTENSION_OPERATOR, tac_out = pick idxs 0, tac_in1 = pick idxs 1,
             tac_in2 = pick idxs 2, tac_ext = Some i\<rparr>
          else tac)"

definition instr_to_tac :: "(ptr \<rightharpoonup> bh_base) \<Rightarrow> nat \<Rightarrow> tac_t \<Rightarrow> cpu_state \<Rightarrow> cpu_error + tac_t \<times> cpu_state" where
  "instr_to_tac bs i tac s =
     (let op = opcode (fst s ! i) in
      case map_operands bs i (mapped_operands op) s of
        Inl e \<Rightarrow> Inl e
      | Inr (idxs, is, st) \<Rightarrow>
          (case tac_transform is (table st) (switch_opcode i op idxs tac) of
             Inl e \<Rightarrow> Inl e
           | Inr (tac, is) \<Rightarrow> Inr (tac, is, st)))"

fun instrs_loop :: "(ptr \<rightharpoonup> bh_base) \<Rightarrow> nat \<Rightarrow> nat \<Rightarrow> tac_t list \<Rightarrow> cpu_state \<Rightarrow> cpu_error + tac_t list \<times> cpu_state" where
  "instrs_loop bs 0 idx tacs s = Inr (tacs, s)"
| "instrs_loop bs (Suc n) idx tacs s =
     (case instr_to_tac bs idx (tacs ! idx) s of
        Inl e \<Rightarrow> Inl e
      | Inr (tac, s) \<Rightarrow> instrs_loop bs n (Suc idx) (tacs[idx := tac]) s)"

definition instrs_to_tacs :: "(ptr \<rightharpoonup> bh_base) \<Rightarrow> tac_t list \<Rightarrow> cpu_state \<Rightarrow> cpu_error + tac_t list \<times> cpu_state" where
  "instrs_to_tacs bs tacs s = instrs_loop bs (length (fst s)) 0 tacs s"

text \<open>The first part of \<^verbatim>\<open>Engine::execute\<close>: an empty program and a fresh symbol table.\<close>

definition compile_batch :: "(ptr \<rightharpoonup> bh_base) \<Rightarrow> (nat \<Rightarrow> operand_t) \<Rightarrow> program \<Rightarrow> cpu_error + tac_t list \<times> cpu_state" where
  "compile_batch bs junk is =
     instrs_to_tacs bs (replicate (length is) tac_zero) (is, SymbolTable_new junk (length is * 6 + 2))"

end
