(* ===== verification/Cpu_Sound.thy ===== *)
theory Cpu_Sound
  imports Cpu_Compile
begin

text \<open>
  The symbol table: mapping an operand never leaves the table, never disturbs a symbol, and returns a symbol that
  stands for the operand.
\<close>

subsection \<open>Scalars that compare equal\<close>

definition same_scalar :: "ETYPE \<Rightarrow> byte list \<Rightarrow> byte list \<Rightarrow> bool" where
  "same_scalar e a b \<longleftrightarrow> a = b \<or> scalar_eq e a b"

lemma ieee_eq_sym: "ieee_eq e f u v \<Longrightarrow> ieee_eq e f v u"
  by (auto simp: ieee_eq_def)

lemma ieee_eq_trans: "ieee_eq e f u v \<Longrightarrow> ieee_eq e f v w \<Longrightarrow> ieee_eq e f u w"
  by (auto simp: ieee_eq_def)

lemma scalar_eq_sym: "scalar_eq e a b \<Longrightarrow> scalar_eq e b a"
  by (cases e) (auto intro: ieee_eq_sym)

lemma scalar_eq_trans: "scalar_eq e a b \<Longrightarrow> scalar_eq e b d \<Longrightarrow> scalar_eq e a d"
  by (cases e) (auto intro: ieee_eq_trans)

lemma same_scalar_refl [simp]: "same_scalar e a a"
  by (simp add: same_scalar_def)

lemma same_scalar_sym: "same_scalar e a b \<Longrightarrow> same_scalar e b a"
  by (auto simp: same_scalar_def intro: scalar_eq_sym)

lemma same_scalar_trans: "same_scalar e a b \<Longrightarrow> same_scalar e b d \<Longrightarrow> same_scalar e a d"
  by (auto simp: same_scalar_def intro: scalar_eq_trans)

text \<open>Element type and bytes of operand \<open>k\<close> when it is the constant: \<^verbatim>\<open>BH_R123\<close> holds two numbers.\<close>

definition operand_etype :: "bh_constant \<Rightarrow> nat \<Rightarrow> cpu_error + ETYPE" where
  "operand_etype c k =
     (if ctype c \<noteq> BH_R123 then bhtype_to_etype (ctype c)
      else if k = 1 \<or> k = 2 then Inr UINT64 else Inl Runtime_error)"

definition operand_bytes :: "bh_constant \<Rightarrow> nat \<Rightarrow> byte list" where
  "operand_bytes c k = (if ctype c = BH_R123 \<and> k = 2 then drop 8 (cvalue c) else cvalue c)"

definition same_constant :: "bh_constant \<Rightarrow> bh_constant \<Rightarrow> bool" where
  "same_constant c c' \<longleftrightarrow> ctype c' = ctype c \<and> length (cvalue c') = length (cvalue c) \<and>
     (\<forall>k e. operand_etype c k = Inr e \<longrightarrow> same_scalar e (operand_bytes c k) (operand_bytes c' k))"

lemma same_constant_refl [simp]: "same_constant c c"
  by (simp add: same_constant_def)

lemma operand_etype_cong: "ctype c = ctype c' \<Longrightarrow> operand_etype c k = operand_etype c' k"
  by (simp add: operand_etype_def)

lemma same_constant_trans: "same_constant a b \<Longrightarrow> same_constant b c \<Longrightarrow> same_constant a c"
  unfolding same_constant_def using operand_etype_cong [of a b] same_scalar_trans by metis

subsection \<open>What the translation changes in the batch\<close>

definition evolved_instr :: "bh_instruction \<Rightarrow> bh_instruction \<Rightarrow> bool" where
  "evolved_instr a b \<longleftrightarrow> opcode b = opcode a \<and> length (operand b) = length (operand a) \<and>
     same_constant (inst_constant a) (inst_constant b) \<and>
     (\<forall>k < length (operand a). base (operand b ! k) = base (operand a ! k) \<and>
        (base (operand a ! k) \<noteq> NULL \<longrightarrow> operand b ! k = operand a ! k))"

definition evolved :: "program \<Rightarrow> program \<Rightarrow> bool" where
  "evolved is is' \<longleftrightarrow> list_all2 evolved_instr is is'"

lemma evolved_instr_refl [simp]: "evolved_instr a a"
  by (simp add: evolved_instr_def)

lemma evolved_instr_trans: "evolved_instr a b \<Longrightarrow> evolved_instr b c \<Longrightarrow> evolved_instr a c"
  unfolding evolved_instr_def using same_constant_trans by fastforce

lemma evolved_refl [simp]: "evolved is is"
  by (simp add: evolved_def list_all2_refl)

lemma evolved_trans: "evolved a b \<Longrightarrow> evolved b c \<Longrightarrow> evolved a c"
  unfolding evolved_def by (erule (1) list_all2_trans [rotated]) (rule evolved_instr_trans)

lemma evolved_length: "evolved is is' \<Longrightarrow> length is' = length is"
  by (simp add: evolved_def list_all2_lengthD)

lemma evolved_nth: "evolved is is' \<Longrightarrow> i < length is \<Longrightarrow> evolved_instr (is ! i) (is' ! i)"
  by (simp add: evolved_def list_all2_nthD)

lemma evolved_update: "evolved_instr (is ! i) a \<Longrightarrow> evolved is (is[i := a])"
  unfolding evolved_def by (cases "i < length is") (auto simp: list_all2_conv_all_nth nth_list_update)

lemma evolved_set_dim:
  assumes "base (operand (is ! i) ! k) = NULL"
  shows "evolved is (set_dim (ShapeOf i k) j x is)"
  unfolding set_dim.simps set_operand_def
  using assms by (intro evolved_update, cases "k < length (operand (is ! i))") (auto simp: evolved_instr_def nth_list_update)

subsection \<open>Symbols\<close>

text \<open>The pointer to a constant and the element type agree with the type of the constant.\<close>

fun ref_ok :: "program \<Rightarrow> const_ref \<Rightarrow> ETYPE \<Rightarrow> bool" where
  "ref_ok is (ValueOf i) e \<longleftrightarrow> i < length is \<and> wf_constant (inst_constant (is ! i)) \<and>
     ctype (inst_constant (is ! i)) \<noteq> BH_R123 \<and> bhtype_to_etype (ctype (inst_constant (is ! i))) = Inr e"
| "ref_ok is (StartOf i) e \<longleftrightarrow> i < length is \<and> wf_constant (inst_constant (is ! i)) \<and> ctype (inst_constant (is ! i)) = BH_R123 \<and> e = UINT64"
| "ref_ok is (KeyOf i) e \<longleftrightarrow> i < length is \<and> wf_constant (inst_constant (is ! i)) \<and> ctype (inst_constant (is ! i)) = BH_R123 \<and> e = UINT64"

definition const_symbol :: "program \<Rightarrow> nat \<Rightarrow> operand_t \<Rightarrow> bool" where
  "const_symbol is j opd \<longleftrightarrow> layout opd = SCALAR_CONST \<and> odata opd = ConstSlot j \<and> obase opd = NULL \<and>
     (\<exists>r. const_data opd = Some r \<and> ref_ok is r (etype opd))"

text \<open>The view an operand of an array stands for.\<close>

definition opd_view :: "program \<Rightarrow> operand_t \<Rightarrow> bh_view" where
  "opd_view is opd = \<lparr>base = obase opd, start = ostart opd, ndim = ondim opd,
     shape = dims_at is (oshape opd), stride = dims_at is (ostride opd)\<rparr>"

definition array_symbol :: "program \<Rightarrow> operand_t \<Rightarrow> bool" where
  "array_symbol is opd \<longleftrightarrow> layout opd \<in> {SCALAR, CONTIGUOUS, CONSECUTIVE, STRIDED} \<and> obase opd \<noteq> NULL \<and>
     odata opd = BaseData (obase opd) \<and> wf_view (opd_view is opd) \<and>
     (\<exists>i k. i < length is \<and> k < length (operand (is ! i)) \<and> oshape opd = ShapeOf i k \<and> ostride opd = StrideOf i k \<and>
        opd_view is opd = operand (is ! i) ! k \<and> view_layout (operand (is ! i) ! k) = Inr (layout opd))"

definition symbol_ok :: "program \<Rightarrow> nat \<Rightarrow> operand_t \<Rightarrow> bool" where
  "symbol_ok is j opd \<longleftrightarrow> const_symbol is j opd \<or> array_symbol is opd"

definition table_ok :: "program \<Rightarrow> symbol_table \<Rightarrow> bool" where
  "table_ok is st \<longleftrightarrow> nsymbols st < length (table st) \<and> (\<forall>j. 1 \<le> j \<and> j \<le> nsymbols st \<longrightarrow> symbol_ok is j (table st ! j))"

lemma ref_ok_evolved: "evolved is is' \<Longrightarrow> ref_ok is r e \<Longrightarrow> ref_ok is' r e"
  by (cases r) (auto simp: evolved_length evolved_instr_def same_constant_def wf_constant_def dest: evolved_nth)

lemma const_at_ref_evolved:
  assumes "evolved is is'" and "ref_ok is r e"
  shows "same_scalar e (const_at_ref is r) (const_at_ref is' r)"
proof -
  obtain i k where r: "i < length is" "operand_etype (inst_constant (is ! i)) k = Inr e"
    "const_at_ref is r = operand_bytes (inst_constant (is ! i)) k" "const_at_ref is' r = operand_bytes (inst_constant (is' ! i)) k"
  proof (cases r)
    case (ValueOf i)
    then show ?thesis using that [of i 0] assms by (auto simp: operand_etype_def operand_bytes_def evolved_instr_def same_constant_def dest: evolved_nth)
  next
    case (StartOf i)
    then show ?thesis using that [of i 1] assms by (auto simp: operand_etype_def operand_bytes_def evolved_instr_def same_constant_def dest: evolved_nth)
  next
    case (KeyOf i)
    then show ?thesis using that [of i 2] assms by (auto simp: operand_etype_def operand_bytes_def evolved_instr_def same_constant_def dest: evolved_nth)
  qed
  then show ?thesis using evolved_nth [OF assms(1) r(1)] by (auto simp: evolved_instr_def same_constant_def)
qed

lemma array_symbol_evolved:
  assumes "evolved is is'" and "array_symbol is opd"
  shows "array_symbol is' opd" and "opd_view is' opd = opd_view is opd"
proof -
  obtain i k where k: "i < length is" "k < length (operand (is ! i))" "oshape opd = ShapeOf i k" "ostride opd = StrideOf i k"
      "opd_view is opd = operand (is ! i) ! k" "view_layout (operand (is ! i) ! k) = Inr (layout opd)" "obase opd \<noteq> NULL"
    using assms(2) by (auto simp: array_symbol_def)
  have "base (operand (is ! i) ! k) = obase opd" using k(5) by (metis bh_view.select_convs(1) opd_view_def)
  then have same: "operand (is' ! i) ! k = operand (is ! i) ! k" "length (operand (is' ! i)) = length (operand (is ! i))"
    using evolved_nth [OF assms(1) k(1)] k(2,7) by (auto simp: evolved_instr_def)
  then show v: "opd_view is' opd = opd_view is opd" using k by (simp add: opd_view_def)
  then show "array_symbol is' opd" using assms(2) k same evolved_length [OF assms(1)] unfolding array_symbol_def by metis
qed

lemma symbol_ok_evolved: "evolved is is' \<Longrightarrow> symbol_ok is j opd \<Longrightarrow> symbol_ok is' j opd"
  unfolding symbol_ok_def const_symbol_def using ref_ok_evolved array_symbol_evolved(1) by blast

lemma const_symbol_bytes:
  assumes "const_symbol is j (tbl ! j)"
  obtains r where "const_of tbl (tbl ! j) = Some r" and "scalar_bytes is' tbl (tbl ! j) = const_at_ref is' r" and "ref_ok is r (etype (tbl ! j))"
proof -
  obtain r where "odata (tbl ! j) = ConstSlot j" "const_data (tbl ! j) = Some r" "ref_ok is r (etype (tbl ! j))"
    using assms by (auto simp: const_symbol_def)
  then show ?thesis using that [of r] by (simp add: const_of_def scalar_bytes_def)
qed

subsection \<open>Symbols that stand for an operand\<close>

definition same_view :: "bh_view \<Rightarrow> bh_view \<Rightarrow> bool" where
  "same_view v w \<longleftrightarrow> base v = base w \<and> start v = start w \<and> ndim v = ndim w \<and>
     (\<forall>j < ndim v. shape v ! j = shape w ! j \<and> stride v ! j = stride w ! j)"

definition denotes :: "program \<Rightarrow> operand_t list \<Rightarrow> nat \<Rightarrow> nat \<Rightarrow> nat \<Rightarrow> bool" where
  "denotes is tbl idx i k \<longleftrightarrow>
     (let opd = tbl ! idx; v = operand (is ! i) ! k; c = inst_constant (is ! i)
      in if base v = NULL
         then const_symbol is idx opd \<and> operand_etype c k = Inr (etype opd) \<and>
           same_scalar (etype opd) (scalar_bytes is tbl opd) (operand_bytes c k)
         else array_symbol is opd \<and> same_view (opd_view is opd) v)"

lemma denotes_evolved:
  assumes "evolved is is'" and "denotes is tbl idx i k" and "i < length is" and "k < length (operand (is ! i))" and "tbl' ! idx = tbl ! idx"
  shows "denotes is' tbl' idx i k"
proof (cases "base (operand (is ! i) ! k) = NULL")
  case True
  note d = assms(2) [unfolded denotes_def Let_def]
  have c: "const_symbol is idx (tbl ! idx)" "operand_etype (inst_constant (is ! i)) k = Inr (etype (tbl ! idx))"
    "same_scalar (etype (tbl ! idx)) (scalar_bytes is tbl (tbl ! idx)) (operand_bytes (inst_constant (is ! i)) k)"
    using d True by auto
  have e: "same_constant (inst_constant (is ! i)) (inst_constant (is' ! i))" "base (operand (is' ! i) ! k) = NULL"
    using evolved_nth [OF assms(1,3)] True assms(4) by (auto simp: evolved_instr_def)
  obtain r where r: "scalar_bytes is tbl (tbl ! idx) = const_at_ref is r" "ref_ok is r (etype (tbl ! idx))" "const_of tbl (tbl ! idx) = Some r"
    using const_symbol_bytes [OF c(1)] by metis
  have r': "scalar_bytes is' tbl' (tbl ! idx) = const_at_ref is' r"
  proof -
    have "const_of tbl' (tbl ! idx) = Some r" using r(3) c(1) assms(5) by (auto simp: const_of_def const_symbol_def)
    then show ?thesis by (simp add: scalar_bytes_def)
  qed
  have "const_symbol is' idx (tbl ! idx)" using c(1) ref_ok_evolved [OF assms(1)] by (auto simp: const_symbol_def)
  moreover have "operand_etype (inst_constant (is' ! i)) k = Inr (etype (tbl ! idx))"
    using c(2) e(1) operand_etype_cong [of "inst_constant (is' ! i)" "inst_constant (is ! i)" k] by (simp add: same_constant_def)
  moreover have "same_scalar (etype (tbl ! idx)) (const_at_ref is' r) (operand_bytes (inst_constant (is' ! i)) k)"
  proof -
    have "same_scalar (etype (tbl ! idx)) (const_at_ref is' r) (const_at_ref is r)"
      by (rule same_scalar_sym [OF const_at_ref_evolved [OF assms(1) r(2)]])
    also have "same_scalar (etype (tbl ! idx)) \<dots> (operand_bytes (inst_constant (is ! i)) k)" using c(3) r(1) by simp
    finally (same_scalar_trans) have "same_scalar (etype (tbl ! idx)) (const_at_ref is' r) (operand_bytes (inst_constant (is ! i)) k)" .
    moreover have "same_scalar (etype (tbl ! idx)) (operand_bytes (inst_constant (is ! i)) k) (operand_bytes (inst_constant (is' ! i)) k)"
      using e(1) c(2) by (auto simp: same_constant_def)
    ultimately show ?thesis by (rule same_scalar_trans)
  qed
  ultimately show ?thesis using e(2) r' assms(5) by (simp add: denotes_def)
next
  case False
  then have "array_symbol is (tbl ! idx)" "same_view (opd_view is (tbl ! idx)) (operand (is ! i) ! k)"
    using assms(2) by (auto simp: denotes_def Let_def)
  moreover have "operand (is' ! i) ! k = operand (is ! i) ! k" using evolved_nth [OF assms(1,3)] False assms(4) by (auto simp: evolved_instr_def)
  ultimately show ?thesis using array_symbol_evolved [OF assms(1)] False assms(5) by (simp add: denotes_def)
qed

lemma same_view_trans: "same_view u v \<Longrightarrow> same_view v w \<Longrightarrow> same_view u w"
  by (auto simp: same_view_def)

lemma same_dims_iff: "same_dims k j a a' b b' \<longleftrightarrow> (\<forall>l < k. a ! (j + l) = a' ! (j + l) \<and> b ! (j + l) = b' ! (j + l))"
  by (induction k arbitrary: j) (auto simp: less_Suc_eq_0_disj)

lemma symbol_kinds: "const_symbol is j opd \<Longrightarrow> \<not> array_symbol is' opd"
  by (auto simp: const_symbol_def array_symbol_def)

lemma equivalent_denotes:
  assumes "equivalent is tbl (tbl ! j) (tbl ! a)" and "symbol_ok is j (tbl ! j)" and "denotes is tbl a i k" and "j \<noteq> a"
  shows "denotes is tbl j i k"
proof (cases "base (operand (is ! i) ! k) = NULL")
  case True
  then have a: "const_symbol is a (tbl ! a)" "operand_etype (inst_constant (is ! i)) k = Inr (etype (tbl ! a))"
    "same_scalar (etype (tbl ! a)) (scalar_bytes is tbl (tbl ! a)) (operand_bytes (inst_constant (is ! i)) k)"
    using assms(3) by (auto simp: denotes_def Let_def)
  have l: "layout (tbl ! j) = SCALAR_CONST" using assms(1) a(1) by (auto simp: equivalent_def const_symbol_def split: if_splits)
  then have j: "const_symbol is j (tbl ! j)" using assms(2) by (auto simp: symbol_ok_def array_symbol_def)
  have e: "etype (tbl ! j) = etype (tbl ! a)" using assms(1,4) a(1) j by (auto simp: equivalent_def const_symbol_def split: if_splits)
  then have "same_scalar (etype (tbl ! a)) (scalar_bytes is tbl (tbl ! j)) (scalar_bytes is tbl (tbl ! a))"
    using assms(1) l by (auto simp: equivalent_def same_scalar_def split: if_splits)
  then show ?thesis using True a j e same_scalar_trans by (fastforce simp: denotes_def Let_def)
next
  case False
  then have a: "array_symbol is (tbl ! a)" "same_view (opd_view is (tbl ! a)) (operand (is ! i) ! k)"
    using assms(3) by (auto simp: denotes_def Let_def)
  then have "layout (tbl ! j) \<noteq> SCALAR_CONST" using assms(1) by (auto simp: equivalent_def array_symbol_def split: if_splits)
  then have j: "array_symbol is (tbl ! j)" "same_view (opd_view is (tbl ! j)) (opd_view is (tbl ! a))"
    using assms(1,2) by (auto simp: symbol_ok_def const_symbol_def equivalent_def same_view_def opd_view_def same_dims_iff split: if_splits)
  then show ?thesis using a False same_view_trans by (auto simp: denotes_def Let_def)
qed

subsection \<open>Mapping an operand\<close>

definition mappable :: "(ptr \<rightharpoonup> bh_base) \<Rightarrow> program \<Rightarrow> nat \<Rightarrow> nat \<Rightarrow> bool" where
  "mappable bs is i k \<longleftrightarrow> i < length is \<and> k < length (operand (is ! i)) \<and>
     (let v = operand (is ! i) ! k
      in if base v = NULL then wf_constant (inst_constant (is ! i)) \<and> (\<exists>e. operand_etype (inst_constant (is ! i)) k = Inr e)
         else wf_view v \<and> nonneg_shape v \<and> (\<exists>b e. bs (base v) = Some b \<and> bhtype_to_etype (base_type b) = Inr e))"

lemma mappable_evolved: "evolved is is' \<Longrightarrow> mappable bs is i k \<Longrightarrow> mappable bs is' i k"
proof -
  assume e: "evolved is is'" and ok: "mappable bs is i k"
  then have k: "i < length is" "k < length (operand (is ! i))" by (simp_all add: mappable_def)
  note ev = evolved_nth [OF e k(1), unfolded evolved_instr_def same_constant_def]
  then have "operand_etype (inst_constant (is' ! i)) k = operand_etype (inst_constant (is ! i)) k" by (intro operand_etype_cong) simp
  then show ?thesis using ok k ev evolved_length [OF e] by (cases "base (operand (is ! i) ! k) = NULL") (auto simp: mappable_def wf_constant_def)
qed

text \<open>What \<^verbatim>\<open>map_operand\<close> guarantees: table and batch as before except for the new symbol, and a symbol for the operand.\<close>

definition mapped :: "program \<Rightarrow> symbol_table \<Rightarrow> program \<Rightarrow> symbol_table \<Rightarrow> bool" where
  "mapped is st is' st' \<longleftrightarrow> evolved is is' \<and> table_ok is' st' \<and> nsymbols st \<le> nsymbols st' \<and>
     length (table st') = length (table st) \<and> (\<forall>j \<le> nsymbols st. table st' ! j = table st ! j)"

lemma reuse_symbol_denotes:
  assumes "evolved is is'" and "table_ok is st" and "a = Suc (nsymbols st)" and "a < length (table st)"
    and "st1 = \<lparr>table = (table st)[a := opd], nsymbols = a\<rparr>" and "symbol_ok is' a opd" and "denotes is' (table st1) a i k"
  shows "\<exists>idx st'. reuse_symbol is' a st1 = (idx, st') \<and> mapped is st is' st' \<and> nsymbols st' \<le> a \<and>
    1 \<le> idx \<and> idx \<le> nsymbols st' \<and> denotes is' (table st') idx i k"
proof -
  have old: "table st1 ! j = table st ! j" if "j \<le> nsymbols st" for j using that assms(3,5) by simp
  have ok: "symbol_ok is' j (table st1 ! j)" if "1 \<le> j" "j \<le> nsymbols st" for j
    using that old [of j] assms(2) symbol_ok_evolved [OF assms(1)] by (auto simp: table_ok_def)
  have new: "table st1 ! a = opd" using assms(4,5) by simp
  show ?thesis
  proof (cases "find (\<lambda>j. equivalent is' (table st1) (table st1 ! j) (table st1 ! a)) [1..<a]")
    case None
    have "table_ok is' st1" using ok assms(3-6) new by (auto simp: table_ok_def le_Suc_eq)
    then show ?thesis using None assms old by (simp add: reuse_symbol_def mapped_def)
  next
    case (Some j)
    then have j: "1 \<le> j" "j < a" "equivalent is' (table st1) (table st1 ! j) (table st1 ! a)" by (auto simp: find_Some_iff)
    have "denotes is' (table st1) j i k" using j ok assms(3) by (intro equivalent_denotes [OF j(3) _ assms(7)]) auto
    moreover have "table_ok is' (st1\<lparr>nsymbols := nsymbols st\<rparr>)" using ok assms(3-5) by (auto simp: table_ok_def)
    ultimately show ?thesis using Some j assms old by (simp add: reuse_symbol_def mapped_def)
  qed
qed

lemma set_dim_constant: "inst_constant (set_dim (ShapeOf i k) j x is ! l) = inst_constant (is ! l)"
  by (cases "i < length is") (auto simp: set_operand_def nth_list_update list_update_beyond not_less)

lemma const_operand_denotes:
  assumes "mappable bs is i k" and "base (operand (is ! i) ! k) = NULL"
  shows "\<exists>opd is'. const_operand is i k a = Inr (opd, is') \<and> evolved is is' \<and> const_symbol is' a opd \<and>
    (\<forall>tbl. tbl ! a = opd \<longrightarrow> denotes is' tbl a i k)"
proof -
  let ?c = "inst_constant (is ! i)" and ?is' = "set_dim (ShapeOf i k) 0 0 (set_dim (ShapeOf i k) 0 1 is)"
  have i: "i < length is" "k < length (operand (is ! i))" using assms(1) by (simp_all add: mappable_def)
  obtain e where e: "operand_etype ?c k = Inr e" and wf: "wf_constant ?c" using assms by (auto simp: mappable_def)
  define r where "r = (if ctype ?c \<noteq> BH_R123 then ValueOf i else if k = 1 then StartOf i else KeyOf i)"
  define opd where "opd = \<lparr>layout = SCALAR_CONST, odata = ConstSlot a, const_data = Some r, etype = e, ostart = 0,
     onelem = 1, ondim = 1, oshape = ShapeOf i k, ostride = ShapeOf i k, obase = NULL\<rparr>"
  have op: "const_operand is i k a = Inr (opd, ?is')"
    using e by (auto simp: const_operand_def operand_etype_def opd_def r_def Let_def split: if_splits)
  have ev1: "evolved is (set_dim (ShapeOf i k) 0 1 is)" using assms(2) by (rule evolved_set_dim)
  then have "base (operand (set_dim (ShapeOf i k) 0 1 is ! i) ! k) = NULL"
    using evolved_nth [OF ev1 i(1)] i(2) assms(2) by (simp add: evolved_instr_def)
  then have ev: "evolved is ?is'" using ev1 evolved_set_dim evolved_trans by blast
  have c: "inst_constant (?is' ! i) = ?c" by (simp only: set_dim_constant)
  have bytes: "const_at_ref ?is' r = operand_bytes ?c k" and ref: "ref_ok ?is' r e"
    using e wf i(1) evolved_length [OF ev] unfolding r_def
    by (auto simp: operand_etype_def operand_bytes_def set_dim_constant simp del: set_dim.simps split: if_splits)
  then have sym: "const_symbol ?is' a opd" by (simp add: const_symbol_def opd_def)
  have "denotes ?is' tbl a i k" if "tbl ! a = opd" for tbl
  proof -
    have "scalar_bytes ?is' tbl opd = operand_bytes ?c k"
      using that bytes by (simp add: scalar_bytes_def const_of_def opd_def del: set_dim.simps)
    moreover have "base (operand (?is' ! i) ! k) = NULL" using evolved_nth [OF ev i(1)] i(2) assms(2) by (simp add: evolved_instr_def)
    moreover have "etype opd = e" by (simp add: opd_def)
    ultimately show ?thesis using sym e that unfolding denotes_def Let_def c by simp
  qed
  then show ?thesis using op ev sym by blast
qed

lemma array_operand_denotes:
  assumes "mappable bs is i k" and "base (operand (is ! i) ! k) \<noteq> NULL"
  shows "\<exists>opd. array_operand bs is i k = Inr opd \<and> array_symbol is opd \<and> (\<forall>tbl a. tbl ! a = opd \<longrightarrow> denotes is tbl a i k)"
proof -
  let ?v = "operand (is ! i) ! k"
  have ok: "i < length is" "k < length (operand (is ! i))" "wf_view ?v" "nonneg_shape ?v" using assms by (auto simp: mappable_def Let_def)
  obtain b e where b: "bs (base ?v) = Some b" "bhtype_to_etype (base_type b) = Inr e" using assms by (auto simp: mappable_def Let_def)
  obtain l where l: "view_layout ?v = Inr l" "l \<in> {SCALAR, CONTIGUOUS, CONSECUTIVE, STRIDED}"
    using view_layout_eq [OF ok(3,4)] by auto
  define opd where "opd = \<lparr>layout = l, odata = BaseData (base ?v), const_data = None, etype = e, ostart = start ?v,
    onelem = base_nelem b, ondim = ndim ?v, oshape = ShapeOf i k, ostride = StrideOf i k, obase = base ?v\<rparr>"
  have "array_operand bs is i k = Inr opd" using b l(1) by (simp add: array_operand_def view_layout_def opd_def Let_def)
  moreover have v: "opd_view is opd = ?v" by (simp add: opd_view_def opd_def)
  then have "array_symbol is opd" using ok l assms(2) unfolding array_symbol_def v by (auto simp: opd_def)
  moreover have "same_view (opd_view is opd) ?v" by (simp add: v same_view_def)
  ultimately show ?thesis using assms(2) by (auto simp: denotes_def)
qed

lemma map_operand_correct:
  assumes "table_ok is st" and "Suc (nsymbols st) < length (table st)" and "mappable bs is i k"
  shows "\<exists>idx is' st'. map_operand bs i k (is, st) = Inr (idx, is', st') \<and> mapped is st is' st' \<and> nsymbols st' \<le> Suc (nsymbols st) \<and>
    1 \<le> idx \<and> idx \<le> nsymbols st' \<and> denotes is' (table st') idx i k"
proof -
  let ?a = "Suc (nsymbols st)"
  obtain opd is' where o: "(if bh_is_constant (operand (is ! i) ! k) then const_operand is i k ?a
      else map_sum id (\<lambda>opd. (opd, is)) (array_operand bs is i k)) = Inr (opd, is')"
    "evolved is is'" "symbol_ok is' ?a opd" "\<forall>tbl. tbl ! ?a = opd \<longrightarrow> denotes is' tbl ?a i k"
  proof (cases "base (operand (is ! i) ! k) = NULL")
    case True
    then show ?thesis using const_operand_denotes [OF assms(3) True, of ?a] that by (auto simp: bh_is_constant_def symbol_ok_def)
  next
    case False
    then show ?thesis using array_operand_denotes [OF assms(3) False] that by (auto simp: bh_is_constant_def symbol_ok_def)
  qed
  let ?st1 = "\<lparr>table = (table st)[?a := opd], nsymbols = ?a\<rparr>"
  have "denotes is' (table ?st1) ?a i k" using o(4) assms(2) by simp
  then obtain idx st' where "reuse_symbol is' ?a ?st1 = (idx, st')" "mapped is st is' st'" "nsymbols st' \<le> ?a" "1 \<le> idx"
    "idx \<le> nsymbols st'" "denotes is' (table st') idx i k"
    using reuse_symbol_denotes [OF o(2) assms(1) refl assms(2) refl o(3)] by blast
  then show ?thesis using o(1) assms(2) by (simp add: map_operand_def Let_def)
qed

lemma mapped_refl: "table_ok is st \<Longrightarrow> mapped is st is st"
  by (simp add: mapped_def)

lemma mapped_trans: "mapped is st is1 st1 \<Longrightarrow> mapped is1 st1 is2 st2 \<Longrightarrow> mapped is st is2 st2"
  unfolding mapped_def using evolved_trans by fastforce

lemma mapped_denotes:
  assumes "mapped is st is' st'" and "denotes is (table st) idx i k" and "mappable bs is i k" and "idx \<le> nsymbols st"
  shows "denotes is' (table st') idx i k"
  using assms by (intro denotes_evolved [of "is" is' "table st"]) (auto simp: mapped_def mappable_def)

lemma map_operands_correct:
  assumes "table_ok is st" and "nsymbols st + length ks < length (table st)" and "\<forall>k \<in> set ks. mappable bs is i k"
  shows "\<exists>idxs is' st'. map_operands bs i ks (is, st) = Inr (idxs, is', st') \<and> mapped is st is' st' \<and>
    nsymbols st' \<le> nsymbols st + length ks \<and>
    list_all2 (\<lambda>idx k. 1 \<le> idx \<and> idx \<le> nsymbols st' \<and> denotes is' (table st') idx i k) idxs ks"
  using assms
proof (induction ks arbitrary: "is" st)
  case Nil
  then show ?case by (simp add: mapped_refl)
next
  case (Cons k ks)
  obtain idx is1 st1 where 1: "map_operand bs i k (is, st) = Inr (idx, is1, st1)" "mapped is st is1 st1" "nsymbols st1 \<le> Suc (nsymbols st)"
    "1 \<le> idx" "idx \<le> nsymbols st1" "denotes is1 (table st1) idx i k"
    using map_operand_correct [OF Cons.prems(1), of bs i k] Cons.prems by auto
  have ev: "evolved is is1" "table_ok is1 st1" "length (table st1) = length (table st)" using 1(2) by (auto simp: mapped_def)
  have ok: "\<forall>k \<in> set (k # ks). mappable bs is1 i k" using Cons.prems(3) mappable_evolved [OF ev(1)] by blast
  have "nsymbols st1 + length ks < length (table st1)" "\<forall>k \<in> set ks. mappable bs is1 i k"
    using Cons.prems(2) 1(3) ev(3) ok by auto
  from Cons.IH [OF ev(2) this] obtain idxs is2 st2 where
    2: "map_operands bs i ks (is1, st1) = Inr (idxs, is2, st2)" "mapped is1 st1 is2 st2" "nsymbols st2 \<le> nsymbols st1 + length ks"
    "list_all2 (\<lambda>idx k. 1 \<le> idx \<and> idx \<le> nsymbols st2 \<and> denotes is2 (table st2) idx i k) idxs ks" by blast
  have "denotes is2 (table st2) idx i k" using mapped_denotes [OF 2(2) 1(6) _ 1(5)] ok by auto
  moreover have "nsymbols st1 \<le> nsymbols st2" using 2(2) by (simp add: mapped_def)
  ultimately show ?case using 1 2 mapped_trans [OF 1(2) 2(2)] by auto
qed

end
