(* ===== verification/Cpu_Transform.thy ===== *)
theory Cpu_Transform
  imports Cpu_Sound
begin

text \<open>
  \<^verbatim>\<open>tac_transform\<close> on a TAC whose operands are symbols: it fails only on a complex constant, and changes the batch only by
  replacing a constant zero by a zero.
\<close>

subsection \<open>The number of a constant\<close>

definition scalar_number :: "ETYPE \<Rightarrow> byte list \<Rightarrow> rat option" where
  "scalar_number e bs =
     (case e of
        FLOAT32 \<Rightarrow> ieee_value 8 23 (le_value (take 4 bs))
      | FLOAT64 \<Rightarrow> ieee_value 11 52 (le_value (take 8 bs))
      | _ \<Rightarrow> map_option of_int (etype_int e bs))"

definition has_scalar :: "ETYPE \<Rightarrow> bool" where
  "has_scalar e \<longleftrightarrow> e \<notin> {COMPLEX64, COMPLEX128, PAIRLL}"

lemma etype_int_Some: "has_scalar e \<Longrightarrow> e \<noteq> FLOAT32 \<Longrightarrow> e \<noteq> FLOAT64 \<Longrightarrow> \<exists>x. etype_int e bs = Some x"
  by (cases e) (auto simp: has_scalar_def)

lemma get_scalar_number:
  assumes "has_scalar (etype arg)"
  shows "\<exists>v. get_scalar is tbl arg = Inr v \<and>
    (v = Some 0 \<longleftrightarrow> scalar_number (etype arg) (scalar_bytes is tbl arg) = Some 0) \<and>
    (v = Some 1 \<longleftrightarrow> scalar_number (etype arg) (scalar_bytes is tbl arg) = Some 1)"
proof (cases "etype arg = FLOAT32 \<or> etype arg = FLOAT64")
  case True
  then show ?thesis by (auto simp: get_scalar_def scalar_number_def)
next
  case False
  then obtain x where x: "etype_int (etype arg) (scalar_bytes is tbl arg) = Some x" using etype_int_Some assms by blast
  then have "get_scalar is tbl arg = Inr (Some (of_int (round_int 53 x)))"
    using False by (cases "etype arg") (simp_all add: get_scalar_def)
  moreover have "scalar_number (etype arg) (scalar_bytes is tbl arg) = Some (of_int x)"
    using x False by (cases "etype arg") (simp_all add: scalar_number_def)
  ultimately show ?thesis using round_int_0 [of 53 x] round_int_1 [of 53 x] by simp
qed

lemma get_scalar_throws: "\<not> has_scalar (etype arg) \<Longrightarrow> get_scalar is tbl arg = Inl Invalid_argument"
  by (cases "etype arg") (simp_all add: has_scalar_def get_scalar_def)

lemma scale2_nonzero [simp]: "scale2 k \<noteq> 0"
  by (simp add: scale2_def)

lemma ieee_value_0:
  assumes "ieee_value e f u = Some 0"
  shows "ieee_zero e f u \<and> \<not> ieee_nan e f u"
proof -
  let ?fr = "u mod 2 ^ f" and ?ex = "(u div 2 ^ f) mod 2 ^ e"
  have nn: "0 \<le> ?fr" by simp
  have ex: "?ex \<noteq> 2 ^ e - 1" using assms by (auto simp: ieee_value_def Let_def split: if_splits)
  have pos: "of_int (2 ^ f + ?fr) \<noteq> (0::rat)"
  proof -
    have "0 < 2 ^ f + ?fr" using nn by (simp add: add_pos_nonneg)
    then show ?thesis by (metis less_irrefl of_int_eq_0_iff)
  qed
  have "?ex = 0" using assms ex pos by (auto simp: ieee_value_def Let_def split: if_splits)
  moreover have "?fr = 0" using assms ex \<open>?ex = 0\<close> by (auto simp: ieee_value_def Let_def split: if_splits)
  ultimately have "u mod 2 ^ (e + f) = 0" using mod_mult2_eq' [of u "2 ^ f" "2 ^ e"] by (simp add: power_add mult.commute)
  then show ?thesis using ex by (simp add: ieee_zero_def ieee_nan_def)
qed

lemma le_value_zeros: "le_value (replicate n 0) = 0"
  by (induction n) simp_all

lemma le_bytes_zero: "le_bytes n 0 = replicate n 0"
  by (simp add: le_bytes_def map_replicate_const)

fun ewidth :: "ETYPE \<Rightarrow> nat" where
  "ewidth BOOL = 1" | "ewidth INT8 = 1" | "ewidth INT16 = 2" | "ewidth INT32 = 4" | "ewidth INT64 = 8"
| "ewidth UINT8 = 1" | "ewidth UINT16 = 2" | "ewidth UINT32 = 4" | "ewidth UINT64 = 8"
| "ewidth FLOAT32 = 4" | "ewidth FLOAT64 = 8" | "ewidth COMPLEX64 = 8" | "ewidth COMPLEX128 = 16" | "ewidth PAIRLL = 16"

lemma scalar_zeroed:
  assumes "has_scalar e" and "scalar_number e bs = Some 0"
  shows "same_scalar e bs (replicate (ewidth e) 0 @ rest)"
proof -
  have z: "ieee_zero e' f' 0" "\<not> ieee_nan 8 23 0" "\<not> ieee_nan 11 52 0" for e' f' by (simp_all add: ieee_zero_def ieee_nan_def)
  have "scalar_eq e bs (replicate (ewidth e) 0 @ rest)"
    using assms ieee_value_0 [of 8 23 "le_value (take 4 bs)"] ieee_value_0 [of 11 52 "le_value (take 8 bs)"] z
    by (cases e) (simp_all add: has_scalar_def scalar_number_def le_value_zeros signed_of_def ieee_eq_def)
  then show ?thesis by (simp add: same_scalar_def)
qed

lemma set_scalar_zero:
  assumes "const_symbol is j (tbl ! j)" and "has_scalar (etype (tbl ! j))"
    and "scalar_number (etype (tbl ! j)) (scalar_bytes is tbl (tbl ! j)) = Some 0"
  shows "\<exists>is'. set_scalar is tbl (tbl ! j) 0 = Inr is' \<and> evolved is is'"
proof -
  let ?e = "etype (tbl ! j)" and ?n = "ewidth (etype (tbl ! j))"
  obtain r where r: "const_of tbl (tbl ! j) = Some r" "scalar_bytes is tbl (tbl ! j) = const_at_ref is r" "ref_ok is r ?e"
    using const_symbol_bytes [OF assms(1)] by metis
  have set: "set_scalar is tbl (tbl ! j) 0 = Inr (set_const_ref r ?n (replicate ?n 0) is)"
    using r(1) assms(2) by (cases ?e) (simp_all add: set_scalar_def has_scalar_def le_bytes_zero)
  have zero: "same_scalar ?e (const_at_ref is r) (replicate ?n 0 @ rest)" for rest
    using scalar_zeroed assms(2,3) r(2) by simp
  have "evolved is (set_const_ref r ?n (replicate ?n 0) is)"
  proof (cases r)
    case (ValueOf i)
    let ?c = "inst_constant (is ! i)"
    have t: "ctype ?c \<noteq> BH_R123" "bhtype_to_etype (ctype ?c) = Inr ?e" "length (cvalue ?c) = 16" using r(3) ValueOf by (auto simp: wf_constant_def)
    have "?n \<le> 16" by (cases ?e) simp_all
    then have "same_constant ?c (put_value ?n (replicate ?n 0) ?c)"
      using zero t ValueOf by (auto simp: same_constant_def operand_etype_def operand_bytes_def put_value_def)
    then show ?thesis using ValueOf by (auto simp: put_constant_def evolved_instr_def intro: evolved_update)
  next
    case (StartOf i)
    let ?c = "inst_constant (is ! i)"
    have t: "ctype ?c = BH_R123" "?e = UINT64" "length (cvalue ?c) = 16" using r(3) StartOf by (auto simp: wf_constant_def)
    then have "same_constant ?c (put_value 8 (replicate 8 0) ?c)"
      using zero StartOf by (auto simp: same_constant_def operand_etype_def operand_bytes_def put_value_def split: if_splits)
    then show ?thesis using StartOf t(2) by (auto simp: put_constant_def evolved_instr_def intro: evolved_update)
  next
    case (KeyOf i)
    let ?c = "inst_constant (is ! i)"
    let ?c' = "?c\<lparr>cvalue := take 8 (cvalue ?c) @ replicate 8 0 @ drop 16 (cvalue ?c)\<rparr>"
    have t: "ctype ?c = BH_R123" "?e = UINT64" "length (cvalue ?c) = 16" using r(3) KeyOf by (auto simp: wf_constant_def)
    have "same_scalar UINT64 (cvalue ?c) (cvalue ?c')" using t(3) by (simp add: same_scalar_def)
    then have "same_constant ?c ?c'"
      using zero [of "[]"] KeyOf t by (auto simp: same_constant_def operand_etype_def operand_bytes_def split: if_splits)
    then show ?thesis using KeyOf t(2) by (auto simp: put_constant_def evolved_instr_def Let_def intro!: evolved_update)
  qed
  then show ?thesis using set by blast
qed

subsection \<open>The transformation\<close>

lemma is_scalar_const_iff: "is_scalar_const opd \<longleftrightarrow> layout opd = SCALAR_CONST"
  by (cases "layout opd") (simp_all add: is_scalar_const_def layout_in_def)

text \<open>What \<^verbatim>\<open>tac_transform\<close> may do: leave the TAC, copy the first input when the second is neutral or a reduction has one
  element, copy the zero of a product, reduce completely, or drop a copy of a symbol onto itself.\<close>

definition number_of :: "program \<Rightarrow> operand_t list \<Rightarrow> nat \<Rightarrow> rat option" where
  "number_of is tbl j = (if layout (tbl ! j) = SCALAR_CONST then scalar_number (etype (tbl ! j)) (scalar_bytes is tbl (tbl ! j)) else None)"

inductive transforms :: "program \<Rightarrow> operand_t list \<Rightarrow> tac_t \<Rightarrow> tac_t \<Rightarrow> bool" for "is" tbl where
  keep: "transforms is tbl tac tac"
| sweep_scalar: "tac_op tac \<in> {REDUCE_COMPLETE, REDUCE_PARTIAL, SCAN} \<Longrightarrow> layout (tbl ! tac_in1 tac) = SCALAR \<Longrightarrow>
    transforms is tbl tac (to_identity tac)"
| complete: "tac_op tac = REDUCE_PARTIAL \<Longrightarrow> layout (tbl ! tac_out tac) = SCALAR \<Longrightarrow>
    transforms is tbl tac (tac\<lparr>tac_op := REDUCE_COMPLETE\<rparr>)"
| neutral: "tac_op tac = ZIP \<Longrightarrow>
    tac_oper tac = ADD \<and> number_of is tbl (tac_in2 tac) = Some 0 \<or>
    tac_oper tac \<in> {MULTIPLY, DIVIDE} \<and> number_of is tbl (tac_in2 tac) = Some 1 \<Longrightarrow>
    transforms is tbl tac (to_identity tac)"
| absorb: "tac_op tac = ZIP \<Longrightarrow> tac_oper tac = MULTIPLY \<Longrightarrow> number_of is tbl (tac_in2 tac) = Some 0 \<Longrightarrow>
    transforms is tbl tac (tac\<lparr>tac_op := MAP, tac_oper := IDENTITY, tac_in1 := tac_in2 tac, tac_in2 := 0\<rparr>)"
| self_copy: "tac_op tac = MAP \<Longrightarrow> tac_oper tac = IDENTITY \<Longrightarrow> transforms is tbl tac (transform_identity tac)"

definition constant_in2_ok :: "operand_t list \<Rightarrow> tac_t \<Rightarrow> bool" where
  "constant_in2_ok tbl tac \<longleftrightarrow>
     (tac_op tac = ZIP \<and> tac_oper tac \<in> {ADD, MULTIPLY, DIVIDE} \<and> layout (tbl ! tac_in2 tac) = SCALAR_CONST \<longrightarrow>
        has_scalar (etype (tbl ! tac_in2 tac)))"

lemma transform_zip_correct:
  assumes "tac_op tac = ZIP" and "constant_in2_ok tbl tac"
    and "layout (tbl ! tac_in2 tac) = SCALAR_CONST \<longrightarrow> const_symbol is (tac_in2 tac) (tbl ! tac_in2 tac)"
  shows "\<exists>tac' is'. transform_zip is tbl tac = Inr (tac', is') \<and> evolved is is' \<and> transforms is tbl tac tac'"
proof (cases "tac_oper tac \<in> {ADD, MULTIPLY, DIVIDE} \<and> layout (tbl ! tac_in2 tac) = SCALAR_CONST")
  case True
  let ?o = "tbl ! tac_in2 tac"
  have h: "has_scalar (etype ?o)" "const_symbol is (tac_in2 tac) ?o" "is_scalar_const ?o"
    using True assms by (auto simp: constant_in2_ok_def is_scalar_const_iff)
  obtain v where v: "get_scalar is tbl ?o = Inr v" "v = Some 0 \<longleftrightarrow> number_of is tbl (tac_in2 tac) = Some 0"
    "v = Some 1 \<longleftrightarrow> number_of is tbl (tac_in2 tac) = Some 1"
    using get_scalar_number [OF h(1), of "is" tbl] True by (auto simp: number_of_def)
  have neu: "transforms is tbl tac (to_identity tac)"
    if "tac_oper tac = ADD \<and> v = Some 0 \<or> tac_oper tac \<in> {MULTIPLY, DIVIDE} \<and> v = Some 1"
    using that v assms(1) by (intro transforms.neutral) auto
  consider "tac_oper tac = ADD" | "tac_oper tac = DIVIDE" | "tac_oper tac = MULTIPLY" using True by blast
  then show ?thesis
  proof cases
    case 3
    show ?thesis
    proof (cases "v = Some 0")
      case v0: True
      obtain is' where "set_scalar is tbl ?o 0 = Inr is'" "evolved is is'"
        using set_scalar_zero [OF h(2,1)] v(2) v0 True by (auto simp: number_of_def)
      moreover have "transforms is tbl tac (tac\<lparr>tac_op := MAP, tac_oper := IDENTITY, tac_in1 := tac_in2 tac, tac_in2 := 0\<rparr>)"
        using 3 v v0 assms(1) by (intro transforms.absorb) auto
      ultimately show ?thesis using 3 v(1) h v0 by (simp add: transform_zip_def)
    qed (use 3 v h neu in \<open>auto simp: transform_zip_def intro: transforms.keep\<close>)
  qed (use v h neu in \<open>auto simp: transform_zip_def intro: transforms.keep\<close>)
next
  case False
  then show ?thesis by (cases "tac_oper tac") (auto simp: transform_zip_def is_scalar_const_iff intro: transforms.keep)
qed

lemma tac_transform_correct:
  assumes "constant_in2_ok tbl tac"
    and "tac_op tac = ZIP \<and> layout (tbl ! tac_in2 tac) = SCALAR_CONST \<longrightarrow> const_symbol is (tac_in2 tac) (tbl ! tac_in2 tac)"
  shows "\<exists>tac' is'. tac_transform is tbl tac = Inr (tac', is') \<and> evolved is is' \<and> transforms is tbl tac tac'"
proof (cases "tac_op tac = ZIP")
  case True
  then show ?thesis using transform_zip_correct [OF True assms(1)] assms(2) by (simp add: tac_transform_def)
next
  case False
  then show ?thesis
    by (cases "tac_op tac") (auto simp: tac_transform_def intro: transforms.intros)
qed

end
