(* ===== verification/Cpu_Batch.thy ===== *)
theory Cpu_Batch
  imports Cpu_Transform
begin

text \<open>
  The translation of a batch: it stays within its tables, and every TAC is made of symbols for the operands of its instruction.
\<close>

text \<open>The opcode a TAC stands for.\<close>

definition tac_opcode :: "OPERATION \<Rightarrow> OPERATOR \<Rightarrow> bh_opcode" where
  "tac_opcode op oper = (case find (\<lambda>(_, o', p, _). o' = op \<and> p = oper) tac_table of Some (opc, _) \<Rightarrow> opc | None \<Rightarrow> BH_NONE)"

subsection \<open>The table\<close>

definition plain_opcode :: "bh_opcode \<Rightarrow> bool" where
  "plain_opcode op \<longleftrightarrow> \<not> bh_opcode_is_system op \<and> \<not> bh_opcode_is_reduction op \<and> op \<noteq> BH_MATMUL"

definition row_ok :: "bh_opcode \<times> OPERATION \<times> OPERATOR \<times> nat \<Rightarrow> bool" where
  "row_ok row = (case row of (opc, op, oper, n) \<Rightarrow> tac_opcode op oper = opc \<and>
     (op = MAP \<longrightarrow> n = 1 \<and> bh_operands opc = 2 \<and> plain_opcode opc) \<and>
     (op = ZIP \<longrightarrow> n = 2 \<and> bh_operands opc = 3 \<and> plain_opcode opc) \<and>
     (op = REDUCE_PARTIAL \<longrightarrow> n = 2 \<and> bh_operands opc = 3 \<and> bh_opcode_is_reduction opc \<and> \<not> bh_opcode_is_system opc) \<and>
     (op = SCAN \<longrightarrow> n = 2) \<and> (op = SYSTEM \<longrightarrow> n = 0 \<and> bh_opcode_is_system opc) \<and> (opc = BH_NONE \<longrightarrow> op = SYSTEM) \<and>
     op \<notin> {REDUCE_COMPLETE, NOOP, OP_ZERO, EXTENSION} \<and> n \<le> 2)"

lemma tac_table_ok: "list_all row_ok tac_table"
  by code_simp

lemma tac_table_row: "map_of tac_table opc = Some row \<Longrightarrow> row_ok (opc, row)"
  using tac_table_ok by (metis list_all_iff map_of_SomeD)

subsection \<open>The TACs of a batch\<close>

lemmas tac_rows = tac_table_def unary_tacs1_def unary_tacs2_def unary_tacs3_def binary_tacs1_def binary_tacs2_def
  binary_tacs3_def reduce_tacs_def other_tacs_def

lemma binary_rows: "map_of tac_table BH_ADD = Some (ZIP, ADD, 2)" "map_of tac_table BH_MULTIPLY = Some (ZIP, MULTIPLY, 2)"
  "map_of tac_table BH_DIVIDE = Some (ZIP, DIVIDE, 2)" "map_of tac_table BH_NONE = Some (SYSTEM, NONE, 0)"
  "map_of tac_table BH_IDENTITY = Some (MAP, IDENTITY, 1)"
  by (simp_all add: tac_rows)

lemma binary_opcodes: "tac_opcode ZIP ADD = BH_ADD" "tac_opcode ZIP MULTIPLY = BH_MULTIPLY" "tac_opcode ZIP DIVIDE = BH_DIVIDE"
  "tac_opcode MAP IDENTITY = BH_IDENTITY"
  using tac_table_row [OF binary_rows(1)] tac_table_row [OF binary_rows(2)] tac_table_row [OF binary_rows(3)] tac_table_row [OF binary_rows(5)]
  by (simp_all add: row_ok_def)

lemma mapped_operands_three:
  "mapped_operands BH_ADD = [0, 1, 2]" "mapped_operands BH_MULTIPLY = [0, 1, 2]" "mapped_operands BH_DIVIDE = [0, 1, 2]"
  by (simp_all add: mapped_operands_def binary_rows upt_rec)

lemma ieee_zero_value:
  assumes "ieee_zero e f u" and "\<not> ieee_nan e f u" and "0 < e"
  shows "ieee_value e f u = Some 0"
proof -
  have "u mod (2 ^ f * 2 ^ e) = 0" using assms(1) by (simp add: ieee_zero_def power_add mult.commute)
  then have "u = 2 ^ f * (2 ^ e * (u div (2 ^ f * 2 ^ e)))" by (metis mult.assoc mult_div_mod_eq add.right_neutral)
  then have "u mod 2 ^ f = 0" "u div 2 ^ f = 2 ^ e * (u div (2 ^ f * 2 ^ e))"
    by (metis mod_mult_self1_is_0, metis nonzero_mult_div_cancel_left power_not_zero zero_neq_numeral)
  moreover have "(1::int) < 2 ^ e" using assms(3) by simp
  ultimately show ?thesis by (simp add: ieee_value_def Let_def)
qed

lemma same_scalar_number: "same_scalar e a b \<Longrightarrow> scalar_number e a = scalar_number e b"
proof -
  assume "same_scalar e a b"
  moreover have "ieee_value e' f u = ieee_value e' f v" if "ieee_eq e' f u v" "0 < e'" for e' f u v
    using that ieee_zero_value [of e' f] by (auto simp: ieee_eq_def)
  ultimately show ?thesis by (cases e) (auto simp: same_scalar_def scalar_number_def)
qed

definition symbols_for :: "program \<Rightarrow> symbol_table \<Rightarrow> nat \<Rightarrow> nat list \<Rightarrow> nat list \<Rightarrow> bool" where
  "symbols_for is st i idxs ks \<longleftrightarrow> list_all2 (\<lambda>idx k. 1 \<le> idx \<and> idx \<le> nsymbols st \<and> denotes is (table st) idx i k) idxs ks"

definition translated :: "program \<Rightarrow> symbol_table \<Rightarrow> nat \<Rightarrow> tac_t \<Rightarrow> bool" where
  "translated is st i tac \<longleftrightarrow> (\<exists>idxs. symbols_for is st i idxs (mapped_operands (opcode (is ! i))) \<and>
     transforms is (table st) (switch_opcode i (opcode (is ! i)) idxs tac_zero) tac)"

definition batch_ok :: "(ptr \<rightharpoonup> bh_base) \<Rightarrow> program \<Rightarrow> bool" where
  "batch_ok bs is \<longleftrightarrow> (\<forall>i < length is. (\<forall>k \<in> set (mapped_operands (opcode (is ! i))). mappable bs is i k) \<and>
     (opcode (is ! i) \<in> {BH_ADD, BH_MULTIPLY, BH_DIVIDE} \<and> base (operand (is ! i) ! 2) = NULL \<longrightarrow>
        ctype (inst_constant (is ! i)) \<notin> {BH_COMPLEX64, BH_COMPLEX128}))"

lemma batch_ok_evolved:
  assumes "evolved is is'" and "batch_ok bs is"
  shows "batch_ok bs is'"
  unfolding batch_ok_def
proof (intro allI impI conjI ballI)
  fix i assume "i < length is'"
  then have i: "i < length is" using evolved_length [OF assms(1)] by simp
  note ev = evolved_nth [OF assms(1) i, unfolded evolved_instr_def same_constant_def]
  { fix k assume "k \<in> set (mapped_operands (opcode (is' ! i)))"
    then show "mappable bs is' i k" using assms(2) i ev mappable_evolved [OF assms(1)] by (auto simp: batch_ok_def) }
  assume a: "opcode (is' ! i) \<in> {BH_ADD, BH_MULTIPLY, BH_DIVIDE} \<and> base (operand (is' ! i) ! 2) = NULL"
  then have "2 \<in> set (mapped_operands (opcode (is ! i)))" using ev by (auto simp: mapped_operands_three)
  then have "2 < length (operand (is ! i))" using assms(2) i by (auto simp: batch_ok_def mappable_def)
  then show "ctype (inst_constant (is' ! i)) \<notin> {BH_COMPLEX64, BH_COMPLEX128}" using a assms(2) i ev by (auto simp: batch_ok_def)
qed

lemma mapped_operands_row:
  assumes "map_of tac_table op = Some (operation, oper, n)" and "operation \<noteq> SYSTEM"
  shows "mapped_operands op = 0 # [1..<Suc n]" and "n \<le> 2"
  using tac_table_row [OF assms(1)] assms by (auto simp: mapped_operands_def row_ok_def)

lemma mapped_operands_length: "length (mapped_operands op) \<le> 3"
proof (cases "map_of tac_table op")
  case (Some row)
  then show ?thesis using tac_table_row [OF Some] by (cases row) (auto simp: mapped_operands_def row_ok_def)
qed (simp add: mapped_operands_def)

lemma symbols_for_nth:
  assumes "symbols_for is st i idxs ks" and "k < length ks"
  shows "1 \<le> pick idxs k" and "pick idxs k \<le> nsymbols st" and "denotes is (table st) (pick idxs k) i (ks ! k)"
  using assms by (auto simp: symbols_for_def pick_def list_all2_conv_all_nth)

lemma symbols_for_pick: "symbols_for is st i idxs ks \<Longrightarrow> pick idxs k \<le> nsymbols st"
  using symbols_for_nth(2) [of "is" st i idxs ks k] by (auto simp: pick_def symbols_for_def list_all2_lengthD)

lemma symbols_for_mapped:
  assumes "symbols_for is st i idxs ks" and "mapped is st is' st'" and "\<forall>k \<in> set ks. mappable bs is i k"
  shows "symbols_for is' st' i idxs ks"
proof -
  have "nsymbols st \<le> nsymbols st'" using assms(2) by (simp add: mapped_def)
  moreover have "denotes is' (table st') (idxs ! j) i (ks ! j)"
    if "j < length ks" "denotes is (table st) (idxs ! j) i (ks ! j)" "idxs ! j \<le> nsymbols st" for j
    using that assms(3) by (intro mapped_denotes [OF assms(2), where bs = bs]) auto
  ultimately show ?thesis using assms(1) by (auto simp: symbols_for_def list_all2_conv_all_nth)
qed

text \<open>The symbol of a binary operation's second input.\<close>

lemma zip_in2:
  assumes "symbols_for is st i idxs (mapped_operands op)" and "tac_op (switch_opcode i op idxs tac_zero) = ZIP"
  shows "tac_in2 (switch_opcode i op idxs tac_zero) = pick idxs 2" and "1 \<le> pick idxs 2"
    and "denotes is (table st) (pick idxs 2) i 2" and "op = tac_opcode ZIP (tac_oper (switch_opcode i op idxs tac_zero))"
proof -
  obtain oper n where row: "map_of tac_table op = Some (ZIP, oper, n)"
    using assms(2) by (auto simp: switch_opcode_def tac_zero_def split: option.splits if_splits)
  then have n: "n = 2" "tac_opcode ZIP oper = op" using tac_table_row [OF row] by (auto simp: row_ok_def)
  then have "mapped_operands op = [0, 1, 2]" using mapped_operands_row(1) [OF row] by (simp add: upt_rec)
  then show "1 \<le> pick idxs 2" "denotes is (table st) (pick idxs 2) i 2" using symbols_for_nth [OF assms(1), of 2] by simp_all
  show "tac_in2 (switch_opcode i op idxs tac_zero) = pick idxs 2" "op = tac_opcode ZIP (tac_oper (switch_opcode i op idxs tac_zero))"
    using row n(2) by (simp_all add: switch_opcode_def)
qed

lemma denotes_constant:
  assumes "denotes is tbl idx i k" and "layout (tbl ! idx) = SCALAR_CONST"
  shows "const_symbol is idx (tbl ! idx)" and "base (operand (is ! i) ! k) = NULL" and "operand_etype (inst_constant (is ! i)) k = Inr (etype (tbl ! idx))"
proof -
  have "\<not> array_symbol is (tbl ! idx)" using assms(2) by (auto simp: array_symbol_def)
  then show "const_symbol is idx (tbl ! idx)" "base (operand (is ! i) ! k) = NULL" "operand_etype (inst_constant (is ! i)) k = Inr (etype (tbl ! idx))"
    using assms(1) by (auto simp: denotes_def Let_def split: if_splits)
qed

lemma operand_etype_scalar:
  assumes "operand_etype c k = Inr e" and "ctype c \<notin> {BH_COMPLEX64, BH_COMPLEX128}"
  shows "has_scalar e"
  using assms by (cases "ctype c") (auto simp: operand_etype_def has_scalar_def split: if_splits)

lemma transforms_table:
  assumes "transforms is tbl tac tac'" and "\<forall>j \<in> {tac_out tac, tac_in1 tac}. tbl' ! j = tbl ! j"
    and "tac_op tac = ZIP \<Longrightarrow> number_of is' tbl' (tac_in2 tac) = number_of is tbl (tac_in2 tac)"
  shows "transforms is' tbl' tac tac'"
  using assms by (cases rule: transforms.cases) (auto intro: transforms.intros)

lemma number_of_evolved:
  assumes "evolved is is'" and "tbl' ! j = tbl ! j" and "layout (tbl ! j) = SCALAR_CONST \<Longrightarrow> const_symbol is j (tbl ! j)"
  shows "number_of is' tbl' j = number_of is tbl j"
proof (cases "layout (tbl ! j) = SCALAR_CONST")
  case True
  then have c: "const_symbol is j (tbl ! j)" by (rule assms(3))
  obtain r where r: "const_of tbl (tbl ! j) = Some r" "scalar_bytes is tbl (tbl ! j) = const_at_ref is r" "ref_ok is r (etype (tbl ! j))"
    using const_symbol_bytes [OF c] by metis
  have "const_of tbl' (tbl ! j) = Some r" using r(1) c assms(2) by (auto simp: const_of_def const_symbol_def)
  then have "scalar_bytes is' tbl' (tbl' ! j) = const_at_ref is' r" using assms(2) by (simp add: scalar_bytes_def)
  then show ?thesis using same_scalar_number [OF const_at_ref_evolved [OF assms(1) r(3)]] r(2) True assms(2) by (simp add: number_of_def)
qed (simp add: number_of_def assms(2))

lemma switch_opcode_indices: "tac_out (switch_opcode i op idxs tac_zero) \<in> {pick idxs 0, 0}" "tac_in1 (switch_opcode i op idxs tac_zero) \<in> {pick idxs 1, 0}"
  by (auto simp: switch_opcode_def tac_zero_def split: option.splits if_splits)

lemma translated_mapped:
  assumes "translated is st i tac" and "mapped is st is' st'" and "batch_ok bs is" and "i < length is"
  shows "translated is' st' i tac"
proof -
  have ev: "evolved is is'" and tbl: "\<And>j. j \<le> nsymbols st \<Longrightarrow> table st' ! j = table st ! j" using assms(2) by (auto simp: mapped_def)
  have op: "opcode (is' ! i) = opcode (is ! i)" using evolved_nth [OF ev assms(4)] by (simp add: evolved_instr_def)
  obtain idxs where idxs: "symbols_for is st i idxs (mapped_operands (opcode (is ! i)))"
    "transforms is (table st) (switch_opcode i (opcode (is ! i)) idxs tac_zero) tac" using assms(1) by (auto simp: translated_def)
  let ?t = "switch_opcode i (opcode (is ! i)) idxs tac_zero"
  have ok: "\<forall>k \<in> set (mapped_operands (opcode (is ! i))). mappable bs is i k" using assms(3,4) by (auto simp: batch_ok_def)
  have pick: "pick idxs k \<le> nsymbols st" for k using symbols_for_pick [OF idxs(1)] .
  have "number_of is' (table st') (tac_in2 ?t) = number_of is (table st) (tac_in2 ?t)" if z: "tac_op ?t = ZIP"
    using zip_in2 [OF idxs(1) z] pick denotes_constant(1) by (intro number_of_evolved [OF ev]) (auto intro: tbl)
  moreover have "\<forall>j \<in> {tac_out ?t, tac_in1 ?t}. table st' ! j = table st ! j"
    using switch_opcode_indices [of i "opcode (is ! i)" idxs] pick tbl by auto
  ultimately have "transforms is' (table st') ?t tac" using transforms_table [OF idxs(2)] by blast
  then show ?thesis using symbols_for_mapped [OF idxs(1) assms(2) ok] by (auto simp: translated_def op)
qed

lemma instr_to_tac_correct:
  assumes "table_ok is st" and "batch_ok bs is" and "i < length is" and "nsymbols st + 3 < length (table st)"
  shows "\<exists>tac is' st'. instr_to_tac bs i tac_zero (is, st) = Inr (tac, is', st') \<and> mapped is st is' st' \<and>
    nsymbols st' \<le> nsymbols st + 3 \<and> translated is' st' i tac"
proof -
  let ?op = "opcode (is ! i)"
  have len: "length (mapped_operands ?op) \<le> 3" by (rule mapped_operands_length)
  have ok: "\<forall>k \<in> set (mapped_operands ?op). mappable bs is i k" using assms(2,3) by (auto simp: batch_ok_def)
  obtain idxs is1 st1 where 1: "map_operands bs i (mapped_operands ?op) (is, st) = Inr (idxs, is1, st1)" "mapped is st is1 st1"
    "nsymbols st1 \<le> nsymbols st + length (mapped_operands ?op)" "symbols_for is1 st1 i idxs (mapped_operands ?op)"
    using map_operands_correct [OF assms(1), of "mapped_operands ?op" bs i] assms(4) len ok unfolding symbols_for_def by auto
  have ev1: "evolved is is1" using 1(2) by (simp add: mapped_def)
  have op: "opcode (is1 ! i) = ?op" using evolved_nth [OF ev1 assms(3)] by (simp add: evolved_instr_def)
  let ?t = "switch_opcode i ?op idxs tac_zero"
  have c: "constant_in2_ok (table st1) ?t"
    unfolding constant_in2_ok_def
  proof (intro impI, elim conjE)
    assume z: "tac_op ?t = ZIP" and o: "tac_oper ?t \<in> {ADD, MULTIPLY, DIVIDE}" and l: "layout (table st1 ! tac_in2 ?t) = SCALAR_CONST"
    note z2 = zip_in2 [OF 1(4) z]
    have "?op \<in> {BH_ADD, BH_MULTIPLY, BH_DIVIDE}" using z2(4) o binary_opcodes by auto
    moreover have "base (operand (is1 ! i) ! 2) = NULL" "operand_etype (inst_constant (is1 ! i)) 2 = Inr (etype (table st1 ! tac_in2 ?t))"
      using denotes_constant(2,3) [OF z2(3)] l z2(1) by auto
    ultimately show "has_scalar (etype (table st1 ! tac_in2 ?t))"
      using batch_ok_evolved [OF ev1 assms(2)] assms(3) op evolved_length [OF ev1] by (intro operand_etype_scalar) (auto simp: batch_ok_def)
  qed
  have "tac_op ?t = ZIP \<and> layout (table st1 ! tac_in2 ?t) = SCALAR_CONST \<longrightarrow> const_symbol is1 (tac_in2 ?t) (table st1 ! tac_in2 ?t)"
    using zip_in2 [OF 1(4)] denotes_constant(1) by metis
  from tac_transform_correct [OF c this] obtain tac is2 where
    2: "tac_transform is1 (table st1) ?t = Inr (tac, is2)" "evolved is1 is2" "transforms is1 (table st1) ?t tac" by blast
  have m: "mapped is1 st1 is2 st1" using 1(2) 2(2) symbol_ok_evolved by (auto simp: mapped_def table_ok_def)
  have "translated is1 st1 i tac" using 1(4) 2(3) op by (auto simp: translated_def)
  then have "translated is2 st1 i tac"
    using translated_mapped [OF _ m batch_ok_evolved [OF ev1 assms(2)]] evolved_length [OF ev1] assms(3) by simp
  moreover have "instr_to_tac bs i tac_zero (is, st) = Inr (tac, is2, st1)" using 1(1) 2(1) by (simp add: instr_to_tac_def)
  ultimately show ?thesis using mapped_trans [OF 1(2) m] 1(3) len by auto
qed

lemma instrs_loop_correct:
  assumes "table_ok is st" and "batch_ok bs is" and "idx + n = length is" and "length tacs = length is"
    and "nsymbols st \<le> 3 * idx" and "length (table st) = 6 * length is + 2"
    and "\<forall>i < idx. translated is st i (tacs ! i)" and "\<forall>i. idx \<le> i \<and> i < length is \<longrightarrow> tacs ! i = tac_zero"
  shows "\<exists>tacs' is' st'. instrs_loop bs n idx tacs (is, st) = Inr (tacs', is', st') \<and> mapped is st is' st' \<and>
    length tacs' = length is \<and> nsymbols st' \<le> 3 * length is \<and> (\<forall>i < length is. translated is' st' i (tacs' ! i))"
  using assms
proof (induction n arbitrary: idx tacs "is" st)
  case 0
  then show ?case by (auto simp: mapped_refl)
next
  case (Suc n)
  have i: "idx < length is" "nsymbols st + 3 < length (table st)" using Suc.prems by auto
  obtain tac is1 st1 where 1: "instr_to_tac bs idx tac_zero (is, st) = Inr (tac, is1, st1)" "mapped is st is1 st1"
    "nsymbols st1 \<le> nsymbols st + 3" "translated is1 st1 idx tac"
    using instr_to_tac_correct [OF Suc.prems(1,2) i] by blast
  have ev: "evolved is is1" "table_ok is1 st1" "length is1 = length is" "length (table st1) = length (table st)"
    using 1(2) evolved_length by (auto simp: mapped_def)
  have "\<forall>j < Suc idx. translated is1 st1 j (tacs[idx := tac] ! j)"
    using Suc.prems(3,4,7) 1(4) translated_mapped [OF _ 1(2) Suc.prems(2)] i(1) by (auto simp: nth_list_update less_Suc_eq)
  then obtain tacs' is' st' where "instrs_loop bs n (Suc idx) (tacs[idx := tac]) (is1, st1) = Inr (tacs', is', st')" "mapped is1 st1 is' st'"
    "length tacs' = length is1" "nsymbols st' \<le> 3 * length is1" "\<forall>i < length is1. translated is' st' i (tacs' ! i)"
    using Suc.IH [OF ev(2) batch_ok_evolved [OF ev(1) Suc.prems(2)], of "Suc idx" "tacs[idx := tac]"] Suc.prems 1(3) ev by auto
  then show ?case using Suc.prems(8) i 1 ev mapped_trans [OF 1(2)] by auto
qed

lemma compile_batch_translated:
  assumes "batch_ok bs is"
  shows "\<exists>tacs is' st. compile_batch bs junk is = Inr (tacs, is', st) \<and> evolved is is' \<and> table_ok is' st \<and>
    length tacs = length is \<and> nsymbols st \<le> 3 * length is \<and> length (table st) = 6 * length is + 2 \<and>
    (\<forall>i < length is. translated is' st i (tacs ! i))"
proof -
  let ?st = "SymbolTable_new junk (length is * 6 + 2)"
  have "table_ok is ?st" by (simp add: table_ok_def SymbolTable_new_def)
  from instrs_loop_correct [OF this assms, of 0 "length is" "replicate (length is) tac_zero"] show ?thesis
    by (auto simp: compile_batch_def instrs_to_tacs_def SymbolTable_new_def mapped_def)
qed

end
