(* ===== verification/Cpu_Translate.thy ===== *)
theory Cpu_Translate
  imports Cpu_Batch
begin

text \<open>
  Two properties of the translation of a batch: its symbols fit into the table and stand for the operands, and a complex
  constant makes it fail.
\<close>

subsection \<open>Symbols of a batch\<close>

lemma transforms_indices:
  assumes "transforms is tbl tac tac'"
  shows "{tac_out tac', tac_in1 tac', tac_in2 tac'} \<subseteq> {0, tac_out tac, tac_in1 tac, tac_in2 tac}"
  using assms by cases (auto simp: to_identity_def transform_identity_def)

lemma translated_indices:
  assumes "translated is st i tac"
  shows "{tac_out tac, tac_in1 tac, tac_in2 tac} \<subseteq> {0..nsymbols st}"
proof -
  obtain idxs where idxs: "symbols_for is st i idxs (mapped_operands (opcode (is ! i)))"
    "transforms is (table st) (switch_opcode i (opcode (is ! i)) idxs tac_zero) tac" using assms by (auto simp: translated_def)
  have "tac_in2 (switch_opcode i op idxs tac_zero) \<in> {pick idxs 2, 0}" for op
    by (auto simp: switch_opcode_def tac_zero_def split: option.splits if_splits)
  then have "{tac_out t, tac_in1 t, tac_in2 t} \<subseteq> {0..nsymbols st}" if "t = switch_opcode i (opcode (is ! i)) idxs tac_zero" for t
    using switch_opcode_indices [of i "opcode (is ! i)" idxs] symbols_for_pick [OF idxs(1)] that
    by (metis (no_types, lifting) atLeastAtMost_iff empty_iff insertE le0 subsetI)
  from this [OF refl] show ?thesis using transforms_indices [OF idxs(2)] by (meson atLeastAtMost_iff insert_subset le0 order_trans empty_subsetI)
qed

text \<open>
  C31. The symbol table is large enough and its symbols stand for the operands. A batch of \<open>n\<close> instructions uses at most
  \<open>3 n\<close> symbols of the \<open>6 n + 2\<close> entries; no access leaves the table, no operand index of a TAC exceeds the number of
  symbols, and every operand of every instruction has a symbol (never index 0) that denotes it in the final table: the
  same elements of the same array, or a constant of the same type that compares equal.
\<close>

theorem compile_batch_symbols:
  assumes "batch_ok bs is"
  shows "\<exists>tacs is' st. compile_batch bs junk is = Inr (tacs, is', st) \<and> length tacs = length is \<and>
    nsymbols st \<le> 3 * length is \<and> nsymbols st < symbol_capacity st \<and>
    (\<forall>i < length is. {tac_out (tacs ! i), tac_in1 (tacs ! i), tac_in2 (tacs ! i)} \<subseteq> {0..nsymbols st} \<and>
       (\<forall>k \<in> set (mapped_operands (opcode (is ! i))). \<exists>idx. 1 \<le> idx \<and> idx \<le> nsymbols st \<and> denotes is' (table st) idx i k))"
proof -
  obtain tacs is' st where t: "compile_batch bs junk is = Inr (tacs, is', st)" "evolved is is'" "table_ok is' st" "length tacs = length is"
    "nsymbols st \<le> 3 * length is" "\<forall>i < length is. translated is' st i (tacs ! i)"
    using compile_batch_translated [OF assms, of junk] by blast
  have "\<exists>idx. 1 \<le> idx \<and> idx \<le> nsymbols st \<and> denotes is' (table st) idx i k"
    if i: "i < length is" and k: "k \<in> set (mapped_operands (opcode (is ! i)))" for i k
  proof -
    have "opcode (is' ! i) = opcode (is ! i)" using evolved_nth [OF t(2) i] by (simp add: evolved_instr_def)
    then obtain idxs where "symbols_for is' st i idxs (mapped_operands (opcode (is ! i)))" using t(6) i unfolding translated_def by metis
    then show ?thesis using k symbols_for_nth by (metis in_set_conv_nth)
  qed
  moreover have "nsymbols st < symbol_capacity st" using t(3) by (simp add: table_ok_def symbol_capacity_def)
  ultimately show ?thesis using t translated_indices by blast
qed

text \<open>
  C32. An addition, multiplication or division by a complex constant cannot be translated: \<^verbatim>\<open>tac_transform\<close> asks for the
  constant as a real number to recognise a neutral element, \<^verbatim>\<open>get_scalar\<close> throws, and the whole batch is lost.
\<close>

theorem complex_constant_throws:
  assumes "\<forall>k \<in> {0, 1, 2}. mappable bs [a] 0 k" and "opcode a \<in> {BH_ADD, BH_MULTIPLY, BH_DIVIDE}"
    and "base (operand a ! 2) = NULL" and "ctype (inst_constant a) \<in> {BH_COMPLEX64, BH_COMPLEX128}"
  shows "compile_batch bs junk [a] = Inl Invalid_argument"
proof -
  let ?st = "SymbolTable_new junk 8"
  have ks: "mapped_operands (opcode a) = [0, 1, 2]" using assms(2) mapped_operands_three by auto
  have "table_ok [a] ?st" by (simp add: table_ok_def SymbolTable_new_def)
  then obtain idxs is1 st1 where 1: "map_operands bs 0 [0, 1, 2] ([a], ?st) = Inr (idxs, is1, st1)" "mapped [a] ?st is1 st1"
    "symbols_for is1 st1 0 idxs [0, 1, 2]"
    using map_operands_correct [of "[a]" ?st "[0, 1, 2]" bs 0] assms(1) by (auto simp: symbols_for_def SymbolTable_new_def)
  let ?t = "switch_opcode 0 (opcode a) idxs tac_zero"
  have t: "tac_op ?t = ZIP" "tac_oper ?t \<in> {ADD, MULTIPLY, DIVIDE}" "tac_in2 ?t = pick idxs 2"
    using assms(2) binary_rows by (auto simp: switch_opcode_def)
  have ev: "evolved_instr a (is1 ! 0)" using evolved_nth [of "[a]" is1 0] 1(2) by (simp add: mapped_def)
  have d: "denotes is1 (table st1) (tac_in2 ?t) 0 2" using symbols_for_nth(3) [OF 1(3), of 2] t(3) by simp
  have "2 < length (operand a)" using assms(1) by (simp add: mappable_def)
  then have "base (operand (is1 ! 0) ! 2) = NULL" "ctype (inst_constant (is1 ! 0)) \<in> {BH_COMPLEX64, BH_COMPLEX128}"
    using ev assms(3,4) by (auto simp: evolved_instr_def same_constant_def)
  then have "layout (table st1 ! tac_in2 ?t) = SCALAR_CONST" "\<not> has_scalar (etype (table st1 ! tac_in2 ?t))"
    using d by (auto simp: denotes_def Let_def const_symbol_def operand_etype_def has_scalar_def)
  then have "tac_transform is1 (table st1) ?t = Inl Invalid_argument"
    using t by (auto simp: tac_transform_def transform_zip_def is_scalar_const_iff get_scalar_throws)
  then have "instr_to_tac bs 0 tac_zero ([a], ?st) = Inl Invalid_argument" using 1(1) ks by (simp add: instr_to_tac_def)
  then show ?thesis by (simp add: compile_batch_def instrs_to_tacs_def)
qed

text \<open>\<^verbatim>\<open>A = B + c\<close> on arrays of three elements; the constant is of the given type.\<close>

definition add_constant :: "bh_type \<Rightarrow> bh_instruction" where
  "add_constant t = \<lparr>opcode = BH_ADD, operand = [mk_view 1 0 [(3, 1)], mk_view 2 0 [(3, 1)], mk_view NULL 0 [(1, 1)]],
     inst_constant = \<lparr>cvalue = replicate 16 0, ctype = t\<rparr>\<rparr>"

definition typed_bases :: "bh_type \<Rightarrow> ptr \<rightharpoonup> bh_base" where
  "typed_bases t p = (if p = 1 \<or> p = 2 then Some \<lparr>base_data = NULL, base_type = t, base_nelem = 3\<rparr> else None)"

lemma add_constant_mappable:
  assumes "bhtype_to_etype t = Inr e" and "t \<noteq> BH_R123"
  shows "\<forall>k \<in> {0, 1, 2}. mappable (typed_bases t) [add_constant t] 0 k"
  using assms by (simp add: mappable_def add_constant_def typed_bases_def mk_view_def wf_view_def nonneg_shape_def BH_MAXDIM_def
      operand_etype_def wf_constant_def)

lemma add_constant_ok: "batch_ok (typed_bases BH_UINT8) [add_constant BH_UINT8]"
  using add_constant_mappable [of BH_UINT8] by (simp add: batch_ok_def mapped_operands_three add_constant_def)

theorem compile_batch_symbols_witness:
  "\<exists>tacs is' st. compile_batch (typed_bases BH_UINT8) (\<lambda>_. undefined) [add_constant BH_UINT8] = Inr (tacs, is', st) \<and> nsymbols st \<le> 3 \<and>
     (\<exists>idx. 1 \<le> idx \<and> idx \<le> nsymbols st \<and> denotes is' (table st) idx 0 2)"
proof -
  have "mapped_operands (opcode (add_constant BH_UINT8)) = [0, 1, 2]" by (simp add: add_constant_def mapped_operands_three)
  then show ?thesis using compile_batch_symbols [OF add_constant_ok, of "\<lambda>_. undefined"] by fastforce
qed

theorem complex_constant_throws_witness:
  "compile_batch (typed_bases BH_COMPLEX64) (\<lambda>_. undefined) [add_constant BH_COMPLEX64] = Inl Invalid_argument"
  by (rule complex_constant_throws [OF add_constant_mappable]) (simp_all add: add_constant_def mk_view_def)

end
