(* ===== verification/Cpu_Exec.thy ===== *)
theory Cpu_Exec
  imports Cpu_Translate Flt_BcexpSem
begin

text \<open>
  What the three-address code of a batch computes. A TAC means the instruction its operation, operator and symbols
  stand for, a complete reduction combines all elements of its input. Arithmetic is exact, as in theory
  \<open>Flt_BcexpSem\<close>; operations the semantics of instructions does not cover (scans, generators, indexing, extension
  methods) have no meaning here.
\<close>

subsection \<open>Meaning of a TAC\<close>

fun etype_bhtype :: "ETYPE \<Rightarrow> bh_type" where
  "etype_bhtype BOOL = BH_BOOL" | "etype_bhtype INT8 = BH_INT8" | "etype_bhtype INT16 = BH_INT16"
| "etype_bhtype INT32 = BH_INT32" | "etype_bhtype INT64 = BH_INT64" | "etype_bhtype UINT8 = BH_UINT8"
| "etype_bhtype UINT16 = BH_UINT16" | "etype_bhtype UINT32 = BH_UINT32" | "etype_bhtype UINT64 = BH_UINT64"
| "etype_bhtype FLOAT32 = BH_FLOAT32" | "etype_bhtype FLOAT64 = BH_FLOAT64" | "etype_bhtype COMPLEX64 = BH_COMPLEX64"
| "etype_bhtype COMPLEX128 = BH_COMPLEX128" | "etype_bhtype PAIRLL = BH_R123"

lemma etype_bhtype_inverse: "bhtype_to_etype t = Inr e \<Longrightarrow> etype_bhtype e = t"
  by (cases t) auto

definition sym_view :: "program \<Rightarrow> operand_t list \<Rightarrow> nat \<Rightarrow> bh_view" where
  "sym_view is tbl j = (if layout (tbl ! j) = SCALAR_CONST then mk_view NULL 0 [] else opd_view is (tbl ! j))"

definition sym_const :: "program \<Rightarrow> operand_t list \<Rightarrow> nat \<Rightarrow> bh_constant" where
  "sym_const is tbl j = \<lparr>cvalue = scalar_bytes is tbl (tbl ! j), ctype = etype_bhtype (etype (tbl ! j))\<rparr>"

definition tac_inputs :: "tac_t \<Rightarrow> nat list" where
  "tac_inputs tac = (if tac_op tac = MAP then [tac_in1 tac] else [tac_in1 tac, tac_in2 tac])"

definition tac_instr :: "program \<Rightarrow> operand_t list \<Rightarrow> tac_t \<Rightarrow> bh_instruction" where
  "tac_instr is tbl tac =
     \<lparr>opcode = tac_opcode (tac_op tac) (tac_oper tac),
      operand = map (sym_view is tbl) (tac_out tac # tac_inputs tac),
      inst_constant = (case find (\<lambda>j. layout (tbl ! j) = SCALAR_CONST) (tac_inputs tac) of
        Some j \<Rightarrow> sym_const is tbl j | None \<Rightarrow> \<lparr>cvalue = [], ctype = BH_UNKNOWN\<rparr>)\<rparr>"

definition tac_exec ::
  "(bh_opcode \<Rightarrow> 'v::field_char_0 list \<Rightarrow> 'v) \<Rightarrow> (bh_constant \<Rightarrow> 'v) \<Rightarrow> program \<Rightarrow> operand_t list \<Rightarrow> tac_t \<Rightarrow> 'v memory \<Rightarrow> 'v memory option" where
  "tac_exec f c is tbl tac m =
     (case tac_op tac of
        MAP \<Rightarrow> Some (run f c (tac_instr is tbl tac) m)
      | ZIP \<Rightarrow> Some (run f c (tac_instr is tbl tac) m)
      | REDUCE_PARTIAL \<Rightarrow> Some (run f c (tac_instr is tbl tac) m)
      | REDUCE_COMPLETE \<Rightarrow>
          Some (m(element (sym_view is tbl (tac_out tac)) 0 := view_sum (sym_view is tbl (tac_in1 tac)) m))
      | SYSTEM \<Rightarrow> Some m
      | NOOP \<Rightarrow> Some m
      | _ \<Rightarrow> None)"

text \<open>Exact arithmetic: the opcodes the transformation knows about, and constants read as the numbers they hold.\<close>

definition exact_ops :: "(bh_opcode \<Rightarrow> 'v::field_char_0 list \<Rightarrow> 'v) \<Rightarrow> bool" where
  "exact_ops f \<longleftrightarrow> (\<forall>x. f BH_IDENTITY [x] = x) \<and> (\<forall>x y. f BH_ADD [x, y] = x + y) \<and>
     (\<forall>x y. f BH_MULTIPLY [x, y] = x * y) \<and> (\<forall>x y. f BH_DIVIDE [x, y] = x / y)"

definition exact_constants :: "(bh_constant \<Rightarrow> 'v::field_char_0) \<Rightarrow> bool" where
  "exact_constants c \<longleftrightarrow>
     (\<forall>k e x. bhtype_to_etype (ctype k) = Inr e \<longrightarrow> scalar_number e (cvalue k) = Some x \<longrightarrow> c k = of_rat x) \<and>
     (\<forall>k k' e. ctype k' = ctype k \<longrightarrow> bhtype_to_etype (ctype k) = Inr e \<longrightarrow> same_scalar e (cvalue k) (cvalue k') \<longrightarrow> c k' = c k)"

subsection \<open>Instructions that agree\<close>

definition view_like :: "bh_view \<Rightarrow> bh_view \<Rightarrow> bool" where
  "view_like v w \<longleftrightarrow> base v = base w \<and> start v = start w \<and> view_dims v = view_dims w"

lemma view_like_offsets: "view_like v w \<Longrightarrow> view_offsets v = view_offsets w"
  by (simp add: view_like_def view_offsets_def)

lemma view_like_element: "view_like v w \<Longrightarrow> element v k = element w k"
  by (simp add: element_def view_like_offsets) (simp add: view_like_def)

lemma view_like_sym: "view_like v w \<Longrightarrow> view_like w v"
  by (simp add: view_like_def)

lemma same_view_like:
  assumes "same_view v w" and "wf_view v" and "wf_view w"
  shows "view_like v w"
proof -
  have n: "ndim v = ndim w" using assms(1) by (simp add: same_view_def)
  have "view_dims v = view_dims w"
    using assms by (intro nth_equalityI) (auto simp: length_view_dims n view_dims_nth same_view_def)
  then show ?thesis using assms(1) by (simp add: view_like_def same_view_def)
qed

definition operand_like :: "(bh_constant \<Rightarrow> 'v) \<Rightarrow> bh_instruction \<Rightarrow> bh_instruction \<Rightarrow> nat \<Rightarrow> bool" where
  "operand_like c a b t \<longleftrightarrow>
     bh_is_constant (operand a ! t) \<and> bh_is_constant (operand b ! t) \<and> c (inst_constant a) = c (inst_constant b) \<or>
     \<not> bh_is_constant (operand a ! t) \<and> view_like (operand a ! t) (operand b ! t)"

lemma exec_instr_like:
  assumes "opcode a = opcode b" and "0 < bh_operands (opcode a)" and "\<not> bh_is_constant (operand a ! 0)"
    and "\<forall>t < bh_operands (opcode a). operand_like c a b t"
  shows "exec_instr f c a m = exec_instr f c b m"
proof -
  have out: "view_like (operand a ! 0) (operand b ! 0)" using assms(2-4) by (auto simp: operand_like_def)
  have "input_at c a m' k t = input_at c b m' k t" if "t < bh_operands (opcode a)" for m' k t
    using that assms(4) by (auto simp: operand_like_def input_at_def bh_is_constant_def view_like_element) (auto simp: view_like_def)
  then have "map (input_at c a m' k) [1..<bh_operands (opcode a)] = map (input_at c b m' k) [1..<bh_operands (opcode a)]" for m' k
    by (intro map_cong) auto
  then have "exec_elem f c a = exec_elem f c b"
    by (intro ext) (simp only: exec_elem_input view_like_element [OF out] assms(1))
  then show ?thesis by (simp add: exec_instr_def view_like_offsets [OF out])
qed

lemma run_like:
  assumes "opcode a = opcode b" and "pointwise_op (opcode a)" and "0 < bh_operands (opcode a)" and "\<not> bh_is_constant (operand a ! 0)"
    and "\<forall>t < bh_operands (opcode a). operand_like c a b t"
  shows "run f c a m = run f c b m"
  using exec_instr_like [OF assms(1,3,4,5)] assms(1,2) by (simp add: run_def pointwise_op_def)

lemma exec_reduce_like:
  fixes m :: "'v::comm_monoid_add memory"
  assumes "view_like (operand a ! 0) (operand b ! 0)" and "view_like (operand a ! 1) (operand b ! 1)"
    and "constant_int64 (inst_constant a) = constant_int64 (inst_constant b)"
  shows "exec_reduce a m = exec_reduce b m"
proof -
  have "axis_sum (operand a ! 1) d m k = axis_sum (operand b ! 1) d m k" "view_sum (operand a ! 1) m = view_sum (operand b ! 1) m" for d k
    using assms(2) view_like_offsets [OF assms(2)] by (auto simp: view_like_def axis_sum_def view_sum_def)
  then show ?thesis unfolding exec_reduce_def Let_def view_like_element [OF assms(1)] view_like_offsets [OF assms(1)] assms(3)
    by simp
qed

lemma run_reduction_like:
  assumes "opcode a = opcode b" and "bh_opcode_is_reduction (opcode a)" and "\<not> bh_opcode_is_system (opcode a)"
    and "view_like (operand a ! 0) (operand b ! 0)" and "view_like (operand a ! 1) (operand b ! 1)"
    and "constant_int64 (inst_constant a) = constant_int64 (inst_constant b)"
  shows "run f c a m = run f c b m"
  using exec_reduce_like [OF assms(4-6)] assms(1-3) by (simp add: run_def)

subsection \<open>Symbols mean their operands\<close>

lemma sym_view_array:
  assumes "denotes is tbl j i k" and "base (operand (is ! i) ! k) \<noteq> NULL" and "wf_view (operand (is ! i) ! k)"
  shows "view_like (sym_view is tbl j) (operand (is ! i) ! k)" and "layout (tbl ! j) \<noteq> SCALAR_CONST"
proof -
  have a: "array_symbol is (tbl ! j)" "same_view (opd_view is (tbl ! j)) (operand (is ! i) ! k)"
    using assms(1,2) by (auto simp: denotes_def Let_def)
  then show "layout (tbl ! j) \<noteq> SCALAR_CONST" by (auto simp: array_symbol_def)
  then show "view_like (sym_view is tbl j) (operand (is ! i) ! k)"
    using a assms(3) same_view_like [OF a(2)] by (simp add: sym_view_def array_symbol_def)
qed

lemma sym_view_constant:
  assumes "denotes is tbl j i k" and "base (operand (is ! i) ! k) = NULL"
  shows "bh_is_constant (sym_view is tbl j)" and "layout (tbl ! j) = SCALAR_CONST"
    and "exact_constants c \<Longrightarrow> ctype (inst_constant (is ! i)) \<noteq> BH_R123 \<Longrightarrow> c (sym_const is tbl j) = c (inst_constant (is ! i))"
proof -
  let ?c = "inst_constant (is ! i)"
  have s: "const_symbol is j (tbl ! j)" "operand_etype ?c k = Inr (etype (tbl ! j))"
    "same_scalar (etype (tbl ! j)) (scalar_bytes is tbl (tbl ! j)) (operand_bytes ?c k)"
    using assms by (auto simp: denotes_def Let_def)
  then show l: "layout (tbl ! j) = SCALAR_CONST" by (simp add: const_symbol_def)
  then show "bh_is_constant (sym_view is tbl j)" by (simp add: sym_view_def mk_view_def bh_is_constant_def)
  assume "exact_constants c" and t: "ctype ?c \<noteq> BH_R123"
  moreover have e: "bhtype_to_etype (ctype ?c) = Inr (etype (tbl ! j))" using s(2) t by (simp add: operand_etype_def)
  moreover have "same_scalar (etype (tbl ! j)) (cvalue ?c) (cvalue (sym_const is tbl j))"
    using same_scalar_sym [OF s(3)] t by (simp add: sym_const_def operand_bytes_def)
  moreover have "ctype (sym_const is tbl j) = ctype ?c" using etype_bhtype_inverse [OF e] by (simp add: sym_const_def)
  ultimately show "c (sym_const is tbl j) = c ?c" unfolding exact_constants_def by blast
qed

text \<open>The instruction of the TAC agrees with the original one in every operand.\<close>

lemma tac_instr_operands:
  assumes "tac_op tac = MAP \<and> n = 2 \<or> tac_op tac \<noteq> MAP \<and> n = 3"
  shows "length (operand (tac_instr is tbl tac)) = n"
    and "operand (tac_instr is tbl tac) ! 0 = sym_view is tbl (tac_out tac)" "operand (tac_instr is tbl tac) ! 1 = sym_view is tbl (tac_in1 tac)"
    and "n = 3 \<Longrightarrow> operand (tac_instr is tbl tac) ! 2 = sym_view is tbl (tac_in2 tac)"
  using assms by (auto simp: tac_instr_def tac_inputs_def)

lemma tac_instr_constant:
  assumes "j \<in> set (tac_inputs tac)" and "layout (tbl ! j) = SCALAR_CONST"
    and "\<And>j. j \<in> set (tac_inputs tac) \<Longrightarrow> layout (tbl ! j) = SCALAR_CONST \<Longrightarrow> c (sym_const is tbl j) = x"
  shows "c (inst_constant (tac_instr is tbl tac)) = x"
proof -
  obtain l where l: "find (\<lambda>j. layout (tbl ! j) = SCALAR_CONST) (tac_inputs tac) = Some l"
    using assms(1,2) by (metis (mono_tags, lifting) find_None_iff not_Some_eq)
  then have "l \<in> set (tac_inputs tac)" "layout (tbl ! l) = SCALAR_CONST" by (auto simp: find_Some_iff)
  then show ?thesis using l assms(3) by (simp add: tac_instr_def)
qed

lemma less_3_cases: "t < (3::nat) \<longleftrightarrow> t = 0 \<or> t = 1 \<or> t = 2"
  by linarith

text \<open>A translated unary or binary instruction before the transformation.\<close>

definition symbolic :: "program \<Rightarrow> operand_t list \<Rightarrow> nat \<Rightarrow> tac_t \<Rightarrow> bool" where
  "symbolic is tbl i tac \<longleftrightarrow> tac_op tac \<in> {MAP, ZIP} \<and> opcode (is ! i) = tac_opcode (tac_op tac) (tac_oper tac) \<and>
     pointwise_op (opcode (is ! i)) \<and> bh_operands (opcode (is ! i)) = Suc (length (tac_inputs tac)) \<and>
     base (operand (is ! i) ! 0) \<noteq> NULL \<and> ctype (inst_constant (is ! i)) \<noteq> BH_R123 \<and>
     denotes is tbl (tac_out tac) i 0 \<and> denotes is tbl (tac_in1 tac) i 1 \<and> (tac_op tac = ZIP \<longrightarrow> denotes is tbl (tac_in2 tac) i 2) \<and>
     (\<forall>k < Suc (length (tac_inputs tac)). base (operand (is ! i) ! k) = NULL \<or> wf_view (operand (is ! i) ! k))"

lemma symbolic_input:
  assumes "symbolic is tbl i tac" and "exact_constants c" and "denotes is tbl j i k" and "base (operand (is ! i) ! k) = NULL \<or> wf_view (operand (is ! i) ! k)"
  shows "bh_is_constant (operand (is ! i) ! k) \<and> bh_is_constant (sym_view is tbl j) \<and> layout (tbl ! j) = SCALAR_CONST \<and>
      c (sym_const is tbl j) = c (inst_constant (is ! i)) \<or>
    \<not> bh_is_constant (operand (is ! i) ! k) \<and> layout (tbl ! j) \<noteq> SCALAR_CONST \<and> view_like (sym_view is tbl j) (operand (is ! i) ! k)"
proof (cases "base (operand (is ! i) ! k) = NULL")
  case True
  then show ?thesis using sym_view_constant [OF assms(3) True] assms(1,2) by (auto simp: bh_is_constant_def symbolic_def)
next
  case False
  then show ?thesis using sym_view_array [OF assms(3) False] assms(4) by (auto simp: bh_is_constant_def)
qed

lemma symbolic_run:
  assumes "symbolic is tbl i tac" and "exact_constants c"
  shows "run f c (tac_instr is tbl tac) m = run f c (is ! i) m"
proof -
  let ?t = "tac_instr is tbl tac" and ?a = "is ! i"
  have op: "opcode ?t = opcode ?a" "pointwise_op (opcode ?t)" using assms(1) by (auto simp: symbolic_def tac_instr_def)
  have n: "bh_operands (opcode ?t) = Suc (length (tac_inputs tac))" "0 < length (tac_inputs tac)"
    using assms(1) op(1) by (auto simp: symbolic_def tac_inputs_def)
  define js where "js = tac_out tac # tac_inputs tac"
  have js: "js = [tac_out tac, tac_in1 tac] \<and> tac_op tac = MAP \<or> js = [tac_out tac, tac_in1 tac, tac_in2 tac] \<and> tac_op tac = ZIP"
    using assms(1) unfolding symbolic_def by (simp add: js_def tac_inputs_def) blast
  have "\<forall>t < length js. denotes is tbl (js ! t) i t"
    using js assms(1) unfolding symbolic_def by (elim disjE conjE) (simp_all add: less_Suc_eq numeral_2_eq_2)
  moreover have "\<forall>t < length js. base (operand ?a ! t) = NULL \<or> wf_view (operand ?a ! t)"
    using assms(1) unfolding symbolic_def js_def by simp
  ultimately have den: "denotes is tbl (js ! t) i t" "base (operand ?a ! t) = NULL \<or> wf_view (operand ?a ! t)" if "t < length js" for t
    using that by blast+
  have opd: "operand ?t ! t = sym_view is tbl (js ! t)" if "t < length js" for t
    using that by (simp add: tac_instr_def js_def del: nth_Cons_Suc list.map flip: list.map)
  have inp: "\<exists>t. t < length js \<and> js ! t = j" if "j \<in> set (tac_inputs tac)" for j
  proof -
    obtain l where "l < length (tac_inputs tac)" "tac_inputs tac ! l = j" using \<open>j \<in> set (tac_inputs tac)\<close> by (auto simp: in_set_conv_nth)
    then show ?thesis by (intro exI [of _ "Suc l"]) (simp add: js_def)
  qed
  have const: "c (inst_constant ?t) = c (inst_constant ?a)" if "t < length js" "0 < t" "layout (tbl ! (js ! t)) = SCALAR_CONST" for t
  proof (rule tac_instr_constant [of "js ! t"])
    show "js ! t \<in> set (tac_inputs tac)" using that(1,2) by (cases t) (auto simp: js_def)
    show "c (sym_const is tbl j) = c (inst_constant ?a)" if "j \<in> set (tac_inputs tac)" "layout (tbl ! j) = SCALAR_CONST" for j
      using inp [OF that(1)] symbolic_input [OF assms den] that(2) by blast
  qed (use that in simp)
  have out: "\<not> bh_is_constant (operand ?a ! 0)" using assms(1) by (simp add: symbolic_def bh_is_constant_def)
  have "operand_like c ?t ?a t" if "t < bh_operands (opcode ?t)" for t
  proof -
    have t: "t < length js" using that n by (simp add: js_def)
    show ?thesis using symbolic_input [OF assms den [OF t]] const [OF t] opd [OF t] out
      by (cases "t = 0") (auto simp: operand_like_def bh_is_constant_def view_like_def)
  qed
  moreover have "\<not> bh_is_constant (operand ?t ! 0)"
    using symbolic_input [OF assms den [of 0]] opd [of 0] out by (auto simp: js_def bh_is_constant_def view_like_def)
  ultimately show ?thesis using n by (intro run_like [OF op]) auto
qed

subsection \<open>The transformation preserves the meaning\<close>

definition copy_view :: "(nat \<Rightarrow> 'v memory \<Rightarrow> 'v) \<Rightarrow> bh_view \<Rightarrow> 'v memory \<Rightarrow> 'v memory" where
  "copy_view g out m = fold (\<lambda>k m. m(element out k := g k m)) [0..<length (view_offsets out)] m"

lemma identity_opcode: "bh_operands BH_IDENTITY = 2" "pointwise_op BH_IDENTITY"
  by (simp_all add: elementwise_opcodes)

lemma run_copy:
  assumes "exact_ops f" and "opcode a = BH_IDENTITY"
  shows "run f c a m = copy_view (\<lambda>k m. input_at c a m k 1) (operand a ! 0) m"
proof -
  have "exec_elem f c a = (\<lambda>k m. m(element (operand a ! 0) k := input_at c a m k 1))"
    using assms by (intro ext) (simp add: exec_elem_input identity_opcode exact_ops_def upt_rec)
  then show ?thesis using assms(2) identity_opcode by (simp add: run_def pointwise_op_def exec_instr_def copy_view_def)
qed

lemma run_zip:
  assumes "pointwise_op (opcode a)" and "bh_operands (opcode a) = 3"
  shows "run f c a m = copy_view (\<lambda>k m. f (opcode a) [input_at c a m k 1, input_at c a m k 2]) (operand a ! 0) m"
proof -
  have "exec_elem f c a = (\<lambda>k m. m(element (operand a ! 0) k := f (opcode a) [input_at c a m k 1, input_at c a m k 2]))"
    using assms(2) by (intro ext) (simp add: exec_elem_input inputs_upt)
  then show ?thesis using assms(1) by (simp add: run_def pointwise_op_def exec_instr_def copy_view_def)
qed

lemma copy_view_self: "(\<And>k m. g k m = m (element out k)) \<Longrightarrow> copy_view g out m = m"
proof -
  assume "\<And>k m. g k m = m (element out k)"
  then have "fold (\<lambda>k m. m(element out k := g k m)) ks m = m" for ks m by (induction ks arbitrary: m) simp_all
  then show ?thesis by (simp add: copy_view_def)
qed

lemma copy_view_like: "view_like v w \<Longrightarrow> copy_view g v = copy_view g w"
  by (intro ext) (simp add: copy_view_def view_like_element view_like_offsets)

text \<open>What a TAC reads from symbol \<open>j\<close> in iteration \<open>k\<close>.\<close>

definition sym_input :: "(bh_constant \<Rightarrow> 'v) \<Rightarrow> program \<Rightarrow> operand_t list \<Rightarrow> nat \<Rightarrow> nat \<Rightarrow> 'v memory \<Rightarrow> 'v" where
  "sym_input c is tbl j k m = (if layout (tbl ! j) = SCALAR_CONST then c (sym_const is tbl j) else m (element (sym_view is tbl j) k))"

lemma copy_tac_exec:
  assumes "exact_ops f" and "tac_op tac = MAP" and "tac_oper tac = IDENTITY"
    and "layout (tbl ! tac_in1 tac) \<noteq> SCALAR_CONST \<Longrightarrow> base (sym_view is tbl (tac_in1 tac)) \<noteq> NULL"
  shows "run f c (tac_instr is tbl tac) m = copy_view (sym_input c is tbl (tac_in1 tac)) (sym_view is tbl (tac_out tac)) m"
proof -
  let ?b = "tac_instr is tbl tac"
  have op: "opcode ?b = BH_IDENTITY" "operand ?b ! 0 = sym_view is tbl (tac_out tac)" "operand ?b ! 1 = sym_view is tbl (tac_in1 tac)"
    using assms(2,3) by (simp_all add: tac_instr_def binary_opcodes tac_inputs_def)
  have "input_at c ?b m k 1 = sym_input c is tbl (tac_in1 tac) k m" for m k
  proof (cases "layout (tbl ! tac_in1 tac) = SCALAR_CONST")
    case True
    then have "inst_constant ?b = sym_const is tbl (tac_in1 tac)" using assms(2) by (simp add: tac_instr_def tac_inputs_def)
    moreover have "bh_is_constant (operand ?b ! 1)" unfolding op(3) using True by (simp add: sym_view_def mk_view_def bh_is_constant_def)
    ultimately show ?thesis using True by (simp add: input_at_def sym_input_def)
  next
    case False
    then have "\<not> bh_is_constant (operand ?b ! 1)" unfolding op(3) using assms(4) by (simp add: bh_is_constant_def)
    then show ?thesis unfolding input_at_def op(3) using False by (simp add: sym_input_def)
  qed
  then show ?thesis using run_copy [OF assms(1) op(1)] op(2) by simp
qed

lemma identity_tac_exec:
  assumes "exact_ops f" and "tac_op tac = MAP" and "tac_oper tac = IDENTITY" and "layout (tbl ! tac_out tac) \<noteq> SCALAR_CONST"
    and "layout (tbl ! tac_in1 tac) \<noteq> SCALAR_CONST \<Longrightarrow> base (sym_view is tbl (tac_in1 tac)) \<noteq> NULL"
  shows "tac_exec f c is tbl (transform_identity tac) m =
    Some (copy_view (sym_input c is tbl (tac_in1 tac)) (sym_view is tbl (tac_out tac)) m)"
proof (cases "tac_out tac = tac_in1 tac")
  case True
  then have "copy_view (sym_input c is tbl (tac_in1 tac)) (sym_view is tbl (tac_out tac)) m = m"
    using assms(4) by (intro copy_view_self) (simp add: sym_input_def)
  then show ?thesis using True by (simp add: transform_identity_def tac_exec_def)
next
  case False
  then show ?thesis using copy_tac_exec [OF assms(1-3,5), of c m] assms(2) by (simp add: transform_identity_def tac_exec_def)
qed

lemma sym_input_like:
  assumes "symbolic is tbl i tac" and "exact_constants c" and "denotes is tbl j i k" and "base (operand (is ! i) ! k) = NULL \<or> wf_view (operand (is ! i) ! k)"
  shows "sym_input c is tbl j l m = input_at c (is ! i) m l k"
  using symbolic_input [OF assms] by (auto simp: sym_input_def input_at_def view_like_element)

lemma symbolic_out:
  assumes "symbolic is tbl i tac"
  shows "view_like (sym_view is tbl (tac_out tac)) (operand (is ! i) ! 0)" and "layout (tbl ! tac_out tac) \<noteq> SCALAR_CONST"
  using sym_view_array [of "is" tbl "tac_out tac" i 0] assms by (auto simp: symbolic_def)

lemma symbolic_in1_base:
  assumes "denotes is tbl j i k" and "layout (tbl ! j) \<noteq> SCALAR_CONST"
  shows "base (sym_view is tbl j) \<noteq> NULL"
  using assms by (auto simp: denotes_def Let_def const_symbol_def array_symbol_def sym_view_def opd_view_def split: if_splits)

text \<open>Copying symbol \<open>j\<close> for operand \<open>k\<close> into the output.\<close>

lemma symbolic_copy:
  assumes "symbolic is tbl i tac" and "exact_ops f" and "exact_constants c" and "denotes is tbl j i k"
    and "base (operand (is ! i) ! k) = NULL \<or> wf_view (operand (is ! i) ! k)"
    and "t = tac\<lparr>tac_op := MAP, tac_oper := IDENTITY, tac_in1 := j, tac_in2 := 0\<rparr>"
  shows "tac_exec f c is tbl (transform_identity t) m = Some (copy_view (\<lambda>l m. input_at c (is ! i) m l k) (operand (is ! i) ! 0) m)"
    and "tac_exec f c is tbl t m = Some (copy_view (\<lambda>l m. input_at c (is ! i) m l k) (operand (is ! i) ! 0) m)"
proof -
  have t: "tac_op t = MAP" "tac_oper t = IDENTITY" "tac_in1 t = j" "tac_out t = tac_out tac" using assms(6) by simp_all
  have in1: "layout (tbl ! tac_in1 t) \<noteq> SCALAR_CONST \<Longrightarrow> base (sym_view is tbl (tac_in1 t)) \<noteq> NULL"
    using symbolic_in1_base [OF assms(4)] t(3) by simp
  have "sym_input c is tbl j = (\<lambda>l m. input_at c (is ! i) m l k)" using sym_input_like [OF assms(1,3-5)] by (intro ext)
  then have eq: "copy_view (sym_input c is tbl (tac_in1 t)) (sym_view is tbl (tac_out t)) m = copy_view (\<lambda>l m. input_at c (is ! i) m l k) (operand (is ! i) ! 0) m"
    using copy_view_like [OF symbolic_out(1) [OF assms(1)], of "\<lambda>l m. input_at c (is ! i) m l k"] t by simp
  show "tac_exec f c is tbl (transform_identity t) m = Some (copy_view (\<lambda>l m. input_at c (is ! i) m l k) (operand (is ! i) ! 0) m)"
    using identity_tac_exec [OF assms(2) t(1,2) _ in1, of c m] symbolic_out(2) [OF assms(1)] t eq by simp
  show "tac_exec f c is tbl t m = Some (copy_view (\<lambda>l m. input_at c (is ! i) m l k) (operand (is ! i) ! 0) m)"
    using copy_tac_exec [OF assms(2) t(1,2) in1, of c m] t(1) eq by (simp add: tac_exec_def)
qed

lemma number_of_constant:
  assumes "symbolic is tbl i tac" and "exact_constants c" and "denotes is tbl j i k" and "number_of is tbl j = Some x"
  shows "bh_is_constant (operand (is ! i) ! k)" and "c (inst_constant (is ! i)) = of_rat x"
proof -
  have l: "layout (tbl ! j) = SCALAR_CONST" "scalar_number (etype (tbl ! j)) (scalar_bytes is tbl (tbl ! j)) = Some x"
    using assms(4) by (auto simp: number_of_def split: if_splits)
  note d = denotes_constant [OF assms(3) l(1)]
  show "bh_is_constant (operand (is ! i) ! k)" using d(2) by (simp add: bh_is_constant_def)
  have t: "ctype (inst_constant (is ! i)) \<noteq> BH_R123" using assms(1) by (simp add: symbolic_def)
  then have "bhtype_to_etype (ctype (sym_const is tbl j)) = Inr (etype (tbl ! j))"
    using d(3) etype_bhtype_inverse by (simp add: operand_etype_def sym_const_def)
  then have "c (sym_const is tbl j) = of_rat x" using assms(2) l(2) by (simp add: exact_constants_def sym_const_def)
  then show "c (inst_constant (is ! i)) = of_rat x" using sym_view_constant(3) [OF assms(3) d(2) assms(2) t] by simp
qed

lemma symbolic_transform:
  assumes "symbolic is tbl i tac" and "exact_ops f" and "exact_constants c" and "transforms is tbl tac tac'"
  shows "tac_exec f c is tbl tac' m = Some (run f c (is ! i) m)"
  using assms(4)
proof cases
  case keep
  then show ?thesis using symbolic_run [OF assms(1,3), of f m] assms(1) by (auto simp: tac_exec_def symbolic_def)
next
  case neutral
  have a: "pointwise_op (opcode (is ! i))" "bh_operands (opcode (is ! i)) = 3" "denotes is tbl (tac_in1 tac) i 1" "denotes is tbl (tac_in2 tac) i 2"
      "base (operand (is ! i) ! 1) = NULL \<or> wf_view (operand (is ! i) ! 1)" "opcode (is ! i) = tac_opcode ZIP (tac_oper tac)"
    using assms(1) neutral by (auto simp: symbolic_def tac_inputs_def)
  have "f (opcode (is ! i)) [input_at c (is ! i) m k 1, input_at c (is ! i) m k 2] = input_at c (is ! i) m k 1" for k m
  proof -
    have "input_at c (is ! i) m k 2 = c (inst_constant (is ! i))"
      using neutral(3) number_of_constant(1) [OF assms(1,3) a(4)] by (auto simp: input_at_def)
    then show ?thesis using neutral(3) number_of_constant(2) [OF assms(1,3) a(4)] assms(2) a(6)
      by (auto simp: binary_opcodes exact_ops_def)
  qed
  then show ?thesis using run_zip [OF a(1,2), of f c m] symbolic_copy(1) [OF assms(1-3) a(3,5) refl, of m] neutral(1)
    by (simp add: to_identity_def)
next
  case absorb
  have a: "pointwise_op (opcode (is ! i))" "bh_operands (opcode (is ! i)) = 3" "denotes is tbl (tac_in2 tac) i 2"
      "base (operand (is ! i) ! 2) = NULL \<or> wf_view (operand (is ! i) ! 2)" "opcode (is ! i) = BH_MULTIPLY"
    using assms(1) absorb by (auto simp: symbolic_def tac_inputs_def binary_opcodes)
  note z = number_of_constant [OF assms(1,3) a(3) absorb(4)]
  then have "f (opcode (is ! i)) [input_at c (is ! i) m k 1, input_at c (is ! i) m k 2] = input_at c (is ! i) m k 2" for k m
    using assms(2) a(5) by (simp add: input_at_def exact_ops_def)
  then show ?thesis using run_zip [OF a(1,2), of f c m] symbolic_copy(2) [OF assms(1-3) a(3,4) refl, of m] absorb(1) by simp
next
  case self_copy
  have a: "denotes is tbl (tac_in1 tac) i 1" "base (operand (is ! i) ! 1) = NULL \<or> wf_view (operand (is ! i) ! 1)" "opcode (is ! i) = BH_IDENTITY"
    using assms(1) self_copy by (auto simp: symbolic_def tac_inputs_def binary_opcodes)
  have in1: "layout (tbl ! tac_in1 tac) \<noteq> SCALAR_CONST \<Longrightarrow> base (sym_view is tbl (tac_in1 tac)) \<noteq> NULL"
    using symbolic_in1_base [OF a(1)] by simp
  have "sym_input c is tbl (tac_in1 tac) = (\<lambda>l m. input_at c (is ! i) m l 1)" using sym_input_like [OF assms(1,3) a(1,2)] by (intro ext)
  then show ?thesis using identity_tac_exec [OF assms(2) self_copy(2,3) symbolic_out(2) [OF assms(1)] in1, of c m]
    run_copy [OF assms(2) a(3), of c m]
    copy_view_like [OF symbolic_out(1) [OF assms(1)], of "\<lambda>l m. input_at c (is ! i) m l 1"] self_copy(1) by simp
qed (use assms(1) in \<open>auto simp: symbolic_def\<close>)

subsection \<open>Reductions\<close>

lemma scalar_symbol:
  assumes "denotes is tbl j i k" and "base (operand (is ! i) ! k) \<noteq> NULL" and "wf_view (operand (is ! i) ! k)"
    and "nonneg_shape (operand (is ! i) ! k)" and "layout (tbl ! j) = SCALAR"
  shows "length (view_offsets (operand (is ! i) ! k)) = 1"
proof -
  let ?w = "opd_view is (tbl ! j)"
  have a: "array_symbol is (tbl ! j)" "same_view ?w (operand (is ! i) ! k)" using assms(1,2) by (auto simp: denotes_def Let_def)
  have l: "wf_view ?w" "view_layout ?w = Inr SCALAR" using a(1) assms(5) by (auto simp: array_symbol_def)
  have like: "view_like ?w (operand (is ! i) ! k)" by (rule same_view_like [OF a(2) l(1) assms(3)])
  then have "take (ndim ?w) (shape ?w) = take (ndim (operand (is ! i) ! k)) (shape (operand (is ! i) ! k))"
    using map_fst_view_dims [OF l(1)] map_fst_view_dims [OF assms(3)] by (simp add: view_like_def)
  then have "nonneg_shape ?w" using assms(4) by (simp add: nonneg_shape_def)
  then have "length (view_offsets ?w) = 1" using view_layout_eq [OF l(1)] l(2) by (auto split: if_splits)
  then show ?thesis using view_like_offsets [OF like] by simp
qed

definition reducing :: "program \<Rightarrow> operand_t list \<Rightarrow> nat \<Rightarrow> tac_t \<Rightarrow> bool" where
  "reducing is tbl i tac \<longleftrightarrow> tac_op tac = REDUCE_PARTIAL \<and> opcode (is ! i) = tac_opcode (tac_op tac) (tac_oper tac) \<and>
     bh_opcode_is_reduction (opcode (is ! i)) \<and> \<not> bh_opcode_is_system (opcode (is ! i)) \<and>
     (\<forall>k < 2. base (operand (is ! i) ! k) \<noteq> NULL \<and> wf_view (operand (is ! i) ! k) \<and> nonneg_shape (operand (is ! i) ! k)) \<and>
     base (operand (is ! i) ! 2) = NULL \<and> ctype (inst_constant (is ! i)) = BH_INT64 \<and>
     (length (view_offsets (operand (is ! i) ! 1)) = 1 \<longrightarrow> length (view_offsets (operand (is ! i) ! 0)) = 1) \<and>
     denotes is tbl (tac_out tac) i 0 \<and> denotes is tbl (tac_in1 tac) i 1 \<and> denotes is tbl (tac_in2 tac) i 2"

lemma constant_int64_same:
  assumes "same_scalar INT64 (cvalue k) (cvalue k')"
  shows "constant_int64 k = constant_int64 k'"
proof -
  let ?u = "le_value (take 8 (cvalue k))" and ?v = "le_value (take 8 (cvalue k'))"
  have "?u = ?v \<or> ?u = ?v + 2 ^ 64 \<or> ?v = ?u + 2 ^ 64"
    using assms by (auto simp: same_scalar_def signed_of_def split: if_splits)
  then have "(word_of_int ?u :: 64 word) = word_of_int ?v"
    by (auto simp: word_of_int_eq_iff take_bit_eq_mod)
  then show ?thesis by (simp add: constant_int64_def)
qed

lemma reducing_views:
  assumes "reducing is tbl i tac"
  shows "view_like (sym_view is tbl (tac_out tac)) (operand (is ! i) ! 0)" and "view_like (sym_view is tbl (tac_in1 tac)) (operand (is ! i) ! 1)"
    and "layout (tbl ! tac_out tac) \<noteq> SCALAR_CONST" and "layout (tbl ! tac_in1 tac) \<noteq> SCALAR_CONST" and "layout (tbl ! tac_in2 tac) = SCALAR_CONST"
    and "layout (tbl ! tac_in1 tac) = SCALAR \<Longrightarrow> length (view_offsets (operand (is ! i) ! 1)) = 1"
    and "layout (tbl ! tac_out tac) = SCALAR \<Longrightarrow> length (view_offsets (operand (is ! i) ! 0)) = 1"
proof -
  have d: "denotes is tbl (tac_out tac) i 0" "denotes is tbl (tac_in1 tac) i 1" "denotes is tbl (tac_in2 tac) i 2"
    and v: "\<And>k. k < 2 \<Longrightarrow> base (operand (is ! i) ! k) \<noteq> NULL \<and> wf_view (operand (is ! i) ! k) \<and> nonneg_shape (operand (is ! i) ! k)"
    and b: "base (operand (is ! i) ! 2) = NULL" using assms by (auto simp: reducing_def)
  show "view_like (sym_view is tbl (tac_out tac)) (operand (is ! i) ! 0)" "layout (tbl ! tac_out tac) \<noteq> SCALAR_CONST"
    using sym_view_array [OF d(1)] v [of 0] by auto
  show "view_like (sym_view is tbl (tac_in1 tac)) (operand (is ! i) ! 1)" "layout (tbl ! tac_in1 tac) \<noteq> SCALAR_CONST"
    using sym_view_array [OF d(2)] v [of 1] by auto
  show "layout (tbl ! tac_in2 tac) = SCALAR_CONST" by (rule sym_view_constant(2) [OF d(3) b])
  show "layout (tbl ! tac_in1 tac) = SCALAR \<Longrightarrow> length (view_offsets (operand (is ! i) ! 1)) = 1" using scalar_symbol [OF d(2)] v [of 1] by auto
  show "layout (tbl ! tac_out tac) = SCALAR \<Longrightarrow> length (view_offsets (operand (is ! i) ! 0)) = 1" using scalar_symbol [OF d(1)] v [of 0] by auto
qed

lemma reducing_run:
  assumes "reducing is tbl i tac"
  shows "run f c (tac_instr is tbl tac) m = run f c (is ! i) m"
proof -
  let ?t = "tac_instr is tbl tac" and ?c = "inst_constant (is ! i)"
  note v = reducing_views [OF assms]
  have op: "operand ?t ! 0 = sym_view is tbl (tac_out tac)" "operand ?t ! 1 = sym_view is tbl (tac_in1 tac)" "opcode ?t = opcode (is ! i)"
    "inst_constant ?t = sym_const is tbl (tac_in2 tac)"
    using assms v(4,5) by (auto simp: reducing_def tac_instr_def tac_inputs_def)
  have "denotes is tbl (tac_in2 tac) i 2" "base (operand (is ! i) ! 2) = NULL" "ctype ?c = BH_INT64" using assms by (auto simp: reducing_def)
  then have "same_scalar INT64 (cvalue (sym_const is tbl (tac_in2 tac))) (cvalue ?c)"
    by (auto simp: denotes_def Let_def operand_etype_def operand_bytes_def sym_const_def)
  then have "constant_int64 (inst_constant ?t) = constant_int64 ?c" unfolding op(4) by (rule constant_int64_same)
  then show ?thesis using op v(1,2) assms by (intro run_reduction_like) (auto simp: reducing_def)
qed

lemma run_reduce_scalar:
  assumes "reducing is tbl i tac" and "length (view_offsets (operand (is ! i) ! 0)) = 1"
  shows "run f c (is ! i) m = m(element (operand (is ! i) ! 0) 0 := view_sum (operand (is ! i) ! 1) m)"
  using assms by (auto simp: reducing_def run_def exec_reduce_def)

lemma reducing_transform:
  assumes "reducing is tbl i tac" and "exact_ops f" and "transforms is tbl tac tac'"
  shows "tac_exec f c is tbl tac' m = Some (run f c (is ! i) m)"
  using assms(3)
proof cases
  case keep
  then show ?thesis using reducing_run [OF assms(1), of f c m] assms(1) by (simp add: tac_exec_def reducing_def)
next
  case sweep_scalar
  note v = reducing_views [OF assms(1)]
  have len: "length (view_offsets (operand (is ! i) ! 1)) = 1" "length (view_offsets (operand (is ! i) ! 0)) = 1"
    using v(6) sweep_scalar(3) assms(1) by (auto simp: reducing_def)
  let ?t = "tac\<lparr>tac_op := MAP, tac_oper := IDENTITY, tac_in2 := 0\<rparr>"
  have "base (sym_view is tbl (tac_in1 tac)) \<noteq> NULL" using v(2) assms(1) by (auto simp: view_like_def reducing_def)
  then have "tac_exec f c is tbl tac' m = Some (copy_view (sym_input c is tbl (tac_in1 tac)) (sym_view is tbl (tac_out tac)) m)"
    using identity_tac_exec [OF assms(2), of ?t tbl "is" c m] v(3) sweep_scalar(1) by (simp add: to_identity_def)
  also have "\<dots> = Some (m(element (operand (is ! i) ! 0) 0 := m (element (operand (is ! i) ! 1) 0)))"
    using len(2) v(4) by (simp add: copy_view_def sym_input_def view_like_offsets [OF v(1)] view_like_element [OF v(1)] view_like_element [OF v(2)])
  also have "\<dots> = Some (run f c (is ! i) m)" using run_reduce_scalar [OF assms(1) len(2), of f c m] len(1) by (simp add: view_sum_elements)
  finally show ?thesis .
next
  case complete
  note v = reducing_views [OF assms(1)]
  have len: "length (view_offsets (operand (is ! i) ! 0)) = 1" using v(7) complete(3) by simp
  have "view_sum (sym_view is tbl (tac_in1 tac)) m = view_sum (operand (is ! i) ! 1) m"
    using v(2) view_like_offsets [OF v(2)] by (simp add: view_sum_def view_like_def)
  then show ?thesis using run_reduce_scalar [OF assms(1) len, of f c m] complete(1) view_like_element [OF v(1)] by (simp add: tac_exec_def)
qed (use assms(1) in \<open>auto simp: reducing_def\<close>)

subsection \<open>The batch\<close>

text \<open>Instructions with a meaning here: element-wise ones, reductions with the axis as constant whose output has one
  element when the input has, and system instructions.\<close>

definition supported :: "bh_instruction \<Rightarrow> bool" where
  "supported a \<longleftrightarrow>
     (case map_of tac_table (opcode a) of
        None \<Rightarrow> False
      | Some (op, _, _) \<Rightarrow>
          op = SYSTEM \<or>
          op \<in> {MAP, ZIP} \<and> base (operand a ! 0) \<noteq> NULL \<and> ctype (inst_constant a) \<noteq> BH_R123 \<or>
          op = REDUCE_PARTIAL \<and> base (operand a ! 0) \<noteq> NULL \<and> base (operand a ! 1) \<noteq> NULL \<and> base (operand a ! 2) = NULL \<and>
            ctype (inst_constant a) = BH_INT64 \<and>
            (length (view_offsets (operand a ! 1)) = 1 \<longrightarrow> length (view_offsets (operand a ! 0)) = 1))"

lemma mappable_view: "mappable bs is i k \<Longrightarrow> base (operand (is ! i) ! k) \<noteq> NULL \<Longrightarrow>
  wf_view (operand (is ! i) ! k) \<and> nonneg_shape (operand (is ! i) ! k)"
  by (simp add: mappable_def Let_def)

lemma translated_exec:
  assumes "translated is st i tac" and "supported (is ! i)" and "batch_ok bs is" and "i < length is" and "exact_ops f" and "exact_constants c"
  shows "tac_exec f c is (table st) tac m = Some (run f c (is ! i) m)"
proof -
  let ?op = "opcode (is ! i)"
  obtain idxs where idxs: "symbols_for is st i idxs (mapped_operands ?op)"
    "transforms is (table st) (switch_opcode i ?op idxs tac_zero) tac" using assms(1) by (auto simp: translated_def)
  let ?t = "switch_opcode i ?op idxs tac_zero"
  obtain op oper n where row: "map_of tac_table ?op = Some (op, oper, n)" using assms(2) by (auto simp: supported_def split: option.splits)
  have t: "?t = \<lparr>tac_op = op, tac_oper = oper, tac_out = pick idxs 0, tac_in1 = pick idxs 1, tac_in2 = pick idxs 2, tac_ext = None\<rparr>"
    using row by (simp add: switch_opcode_def)
  note r = tac_table_row [OF row, unfolded row_ok_def prod.case]
  have view: "base (operand (is ! i) ! k) = NULL \<or> wf_view (operand (is ! i) ! k) \<and> nonneg_shape (operand (is ! i) ! k)"
    if "k \<in> set (mapped_operands ?op)" for k
  proof -
    have "mappable bs is i k" using assms(3,4) that by (simp add: batch_ok_def)
    then show ?thesis using mappable_view by blast
  qed
  consider "op = SYSTEM" | "op = MAP" | "op = ZIP" | "op = REDUCE_PARTIAL" using assms(2) row by (auto simp: supported_def)
  then show ?thesis
  proof cases
    case 1
    then have "tac = ?t" "run f c (is ! i) m = m" using idxs(2) t r by (auto simp: run_def elim: transforms.cases)
    then show ?thesis using 1 t by (simp add: tac_exec_def)
  next
    case 2
    then have ks: "mapped_operands ?op = [0, 1]" using mapped_operands_row(1) [OF row] r by (simp add: upt_rec)
    have d: "denotes is (table st) (pick idxs 0) i 0" "denotes is (table st) (pick idxs 1) i 1"
      using symbols_for_nth(3) [OF idxs(1), of 0] symbols_for_nth(3) [OF idxs(1), of 1] unfolding ks by simp_all
    have "pointwise_op ?op" "bh_operands ?op = 2" "?op = tac_opcode MAP oper" using 2 r by (simp_all add: pointwise_op_def plain_opcode_def)
    moreover have "base (operand (is ! i) ! 0) \<noteq> NULL" "ctype (inst_constant (is ! i)) \<noteq> BH_R123"
      using 2 row assms(2) by (simp_all add: supported_def)
    moreover have "\<forall>k < 2. base (operand (is ! i) ! k) = NULL \<or> wf_view (operand (is ! i) ! k)"
      using view [of 0] view [of 1] unfolding ks by (auto simp: less_2_cases_iff)
    ultimately have "symbolic is (table st) i ?t" using d 2 unfolding t symbolic_def tac_inputs_def by (simp add: numeral_2_eq_2)
    then show ?thesis by (rule symbolic_transform [OF _ assms(5,6) idxs(2)])
  next
    case 3
    then have ks: "mapped_operands ?op = [0, 1, 2]" using mapped_operands_row(1) [OF row] r by (simp add: upt_rec)
    have d: "denotes is (table st) (pick idxs 0) i 0" "denotes is (table st) (pick idxs 1) i 1" "denotes is (table st) (pick idxs 2) i 2"
      using symbols_for_nth(3) [OF idxs(1), of 0] symbols_for_nth(3) [OF idxs(1), of 1] symbols_for_nth(3) [OF idxs(1), of 2] unfolding ks by simp_all
    have "pointwise_op ?op" "bh_operands ?op = 3" "?op = tac_opcode ZIP oper" using 3 r by (simp_all add: pointwise_op_def plain_opcode_def)
    moreover have "base (operand (is ! i) ! 0) \<noteq> NULL" "ctype (inst_constant (is ! i)) \<noteq> BH_R123"
      using 3 row assms(2) by (simp_all add: supported_def)
    moreover have "\<forall>k < 3. base (operand (is ! i) ! k) = NULL \<or> wf_view (operand (is ! i) ! k)"
      using view [of 0] view [of 1] view [of 2] unfolding ks less_3_cases by auto
    ultimately have "symbolic is (table st) i ?t" using d 3 unfolding t symbolic_def tac_inputs_def by (simp add: numeral_3_eq_3)
    then show ?thesis by (rule symbolic_transform [OF _ assms(5,6) idxs(2)])
  next
    case 4
    then have ks: "mapped_operands ?op = [0, 1, 2]" using mapped_operands_row(1) [OF row] r by (simp add: upt_rec)
    have d: "denotes is (table st) (pick idxs 0) i 0" "denotes is (table st) (pick idxs 1) i 1" "denotes is (table st) (pick idxs 2) i 2"
      using symbols_for_nth(3) [OF idxs(1), of 0] symbols_for_nth(3) [OF idxs(1), of 1] symbols_for_nth(3) [OF idxs(1), of 2] unfolding ks by simp_all
    have op: "bh_opcode_is_reduction ?op" "\<not> bh_opcode_is_system ?op" "?op = tac_opcode REDUCE_PARTIAL oper" using 4 r by simp_all
    have sup: "base (operand (is ! i) ! 0) \<noteq> NULL" "base (operand (is ! i) ! 1) \<noteq> NULL" "base (operand (is ! i) ! 2) = NULL"
      "ctype (inst_constant (is ! i)) = BH_INT64"
      "length (view_offsets (operand (is ! i) ! 1)) = 1 \<longrightarrow> length (view_offsets (operand (is ! i) ! 0)) = 1"
      using 4 row assms(2) by (simp_all add: supported_def)
    then have "\<forall>k < 2. base (operand (is ! i) ! k) \<noteq> NULL \<and> wf_view (operand (is ! i) ! k) \<and> nonneg_shape (operand (is ! i) ! k)"
      using view [of 0] view [of 1] unfolding ks by (auto simp: less_2_cases_iff)
    then have "reducing is (table st) i ?t" using d 4 op sup unfolding t reducing_def by simp
    then show ?thesis by (rule reducing_transform [OF _ assms(5) idxs(2)])
  qed
qed

text \<open>The changes of the batch during the translation keep the meaning of its instructions.\<close>

lemma supported_operands:
  assumes "supported a" and "\<not> bh_opcode_is_system (opcode a)"
  obtains (pointwise) "pointwise_op (opcode a)" "0 < bh_operands (opcode a)" "\<forall>t < bh_operands (opcode a). t \<in> set (mapped_operands (opcode a))"
      "base (operand a ! 0) \<noteq> NULL" "ctype (inst_constant a) \<noteq> BH_R123"
    | (reduction) "bh_opcode_is_reduction (opcode a)" "set (mapped_operands (opcode a)) = {0, 1, 2}" "base (operand a ! 0) \<noteq> NULL" "base (operand a ! 1) \<noteq> NULL"
      "ctype (inst_constant a) = BH_INT64" "length (view_offsets (operand a ! 1)) = 1 \<longrightarrow> length (view_offsets (operand a ! 0)) = 1"
proof -
  obtain op oper n where row: "map_of tac_table (opcode a) = Some (op, oper, n)" using assms(1) by (auto simp: supported_def split: option.splits)
  note r = tac_table_row [OF row, unfolded row_ok_def prod.case]
  have "op \<noteq> SYSTEM" using r assms(2) by auto
  note ks = mapped_operands_row [OF row this]
  show thesis
  proof (cases "op = REDUCE_PARTIAL")
    case True
    then have "set (mapped_operands (opcode a)) = {0, 1, 2}" using ks(1) r by (auto simp: less_3_cases)
    moreover have "base (operand a ! 0) \<noteq> NULL" "base (operand a ! 1) \<noteq> NULL" "ctype (inst_constant a) = BH_INT64"
      "length (view_offsets (operand a ! 1)) = 1 \<longrightarrow> length (view_offsets (operand a ! 0)) = 1"
      using True row assms(1) by (simp_all add: supported_def)
    ultimately show ?thesis using reduction r True by blast
  next
    case False
    then have op: "op = MAP \<or> op = ZIP" "base (operand a ! 0) \<noteq> NULL" "ctype (inst_constant a) \<noteq> BH_R123"
      using \<open>op \<noteq> SYSTEM\<close> row assms(1) by (auto simp: supported_def)
    then have "pointwise_op (opcode a)" "bh_operands (opcode a) = Suc n" using r by (auto simp: plain_opcode_def pointwise_op_def)
    moreover have "\<forall>t < Suc n. t \<in> set (mapped_operands (opcode a))" unfolding ks(1) by auto
    ultimately show ?thesis using pointwise op(2,3) by simp
  qed
qed

lemma run_evolved:
  assumes "evolved is is'" and "batch_ok bs is" and "i < length is" and "supported (is ! i)" and "exact_constants c"
  shows "run f c (is' ! i) m = run f c (is ! i) m"
proof (cases "bh_opcode_is_system (opcode (is ! i))")
  case True
  then show ?thesis using evolved_nth [OF assms(1,3)] by (simp add: run_def evolved_instr_def)
next
  case False
  let ?a = "is ! i" and ?b = "is' ! i"
  note ev = evolved_nth [OF assms(1,3), unfolded evolved_instr_def]
  have map: "mappable bs is i k" if "k \<in> set (mapped_operands (opcode ?a))" for k using assms(2,3) that by (simp add: batch_ok_def)
  have len: "k < length (operand ?a)" if "k \<in> set (mapped_operands (opcode ?a))" for k using map [OF that] by (simp add: mappable_def)
  show ?thesis
    using assms(4) False
  proof (cases rule: supported_operands)
    case pointwise
    have "operand_like c ?a ?b t" if t: "t < bh_operands (opcode ?a)" for t
    proof (cases "base (operand ?a ! t) = NULL")
      case True
      have "mappable bs is i t" using pointwise(3) t map by blast
      then obtain e where e: "operand_etype (inst_constant ?a) t = Inr e" using True by (auto simp: mappable_def)
      then have "bhtype_to_etype (ctype (inst_constant ?a)) = Inr e" "same_scalar e (cvalue (inst_constant ?a)) (cvalue (inst_constant ?b))"
        using ev pointwise(5) by (auto simp: operand_etype_def same_constant_def operand_bytes_def)
      then have "c (inst_constant ?b) = c (inst_constant ?a)" using assms(5) ev unfolding exact_constants_def same_constant_def by blast
      then show ?thesis using True ev len pointwise(3) t by (auto simp: operand_like_def bh_is_constant_def)
    next
      case False
      then show ?thesis using ev len pointwise(3) t by (auto simp: operand_like_def bh_is_constant_def view_like_def)
    qed
    then have "run f c ?a m = run f c ?b m" using ev pointwise by (intro run_like) (auto simp: bh_is_constant_def)
    then show ?thesis by simp
  next
    case reduction
    have "same_scalar INT64 (cvalue (inst_constant ?a)) (cvalue (inst_constant ?b))"
      using ev reduction(5) by (auto simp: same_constant_def operand_etype_def operand_bytes_def)
    then have "constant_int64 (inst_constant ?a) = constant_int64 (inst_constant ?b)" by (rule constant_int64_same)
    moreover have "operand ?b ! 0 = operand ?a ! 0" "operand ?b ! 1 = operand ?a ! 1" "opcode ?b = opcode ?a"
      using ev len [of 0] len [of 1] reduction(2-4) by simp_all
    ultimately have "run f c ?a m = run f c ?b m" using reduction(1) False by (intro run_reduction_like) (simp_all add: view_like_def)
    then show ?thesis by simp
  qed
qed

lemma supported_evolved:
  assumes "evolved is is'" and "batch_ok bs is" and "i < length is" and "supported (is ! i)"
  shows "supported (is' ! i)"
proof -
  note ev = evolved_nth [OF assms(1,3), unfolded evolved_instr_def same_constant_def]
  obtain op oper n where row: "map_of tac_table (opcode (is ! i)) = Some (op, oper, n)" using assms(4) by (auto simp: supported_def split: option.splits)
  show ?thesis
  proof (cases "op = SYSTEM")
    case False
    note ks = mapped_operands_row [OF row False]
    note r = tac_table_row [OF row, unfolded row_ok_def prod.case]
    have len: "k < length (operand (is ! i))" if "k \<in> set (mapped_operands (opcode (is ! i)))" for k
      using assms(2,3) that by (auto simp: batch_ok_def mappable_def)
    have "0 < length (operand (is ! i))" "op = REDUCE_PARTIAL \<Longrightarrow> 2 < length (operand (is ! i))"
      using len [of 0] len [of 2] ks r by auto
    then show ?thesis using assms(4) row ev False by (auto simp: supported_def)
  qed (use assms(4) row ev in \<open>simp add: supported_def\<close>)
qed


text \<open>Exact arithmetic over the rational numbers.\<close>

definition rat_ops :: "bh_opcode \<Rightarrow> rat list \<Rightarrow> rat" where
  "rat_ops op xs = (if op = BH_ADD then xs ! 0 + xs ! 1 else if op = BH_MULTIPLY then xs ! 0 * xs ! 1
     else if op = BH_DIVIDE then xs ! 0 / xs ! 1 else xs ! 0)"

definition rat_constant :: "bh_constant \<Rightarrow> rat" where
  "rat_constant k = (case bhtype_to_etype (ctype k) of Inl e \<Rightarrow> 0
     | Inr e \<Rightarrow> (case scalar_number e (cvalue k) of Some x \<Rightarrow> x | None \<Rightarrow> 0))"

lemma rat_ops_exact: "exact_ops rat_ops"
  by (simp add: exact_ops_def rat_ops_def)

lemma rat_constant_exact: "exact_constants rat_constant"
  unfolding exact_constants_def using same_scalar_number by (fastforce simp: rat_constant_def)

lemma add_constant_supported: "supported (add_constant BH_UINT8)"
  by (simp add: supported_def add_constant_def binary_rows mk_view_def)


end
