(* ===== verification/Cpu_Hash.thy ===== *)
theory Cpu_Hash
  imports Bh_Prelude "HOL-Library.Word"
begin

text \<open>
  The hash under which the CPU engine stores a compiled kernel: \<^verbatim>\<open>MurmurHash3_x86_128\<close> of
  \<^verbatim>\<open>ve/cpu/thirdparty/MurmurHash3.cpp\<close> on 32-bit words and \<^verbatim>\<open>hash_text\<close> of \<^verbatim>\<open>ve/cpu/utils.cpp\<close>. Blocks of 32 bits are
  read in little-endian order. \<^verbatim>\<open>nat_text\<close> is the decimal output of a stream.
\<close>

unbundle bit_operations_syntax

subsection \<open>MurmurHash3\<close>

definition rotl32 :: "32 word \<Rightarrow> nat \<Rightarrow> 32 word" where
  "rotl32 x r = push_bit r x OR drop_bit (32 - r) x"

definition fmix32 :: "32 word \<Rightarrow> 32 word" where
  "fmix32 h =
     (let h = h XOR drop_bit 16 h; h = h * 0x85ebca6b;
          h = h XOR drop_bit 13 h; h = h * 0xc2b2ae35
      in h XOR drop_bit 16 h)"

text \<open>Up to four bytes, the first one lowest.\<close>

fun getblock32 :: "char list \<Rightarrow> 32 word" where
  "getblock32 [] = 0"
| "getblock32 (b # bs) = of_nat (of_char b) XOR push_bit 8 (getblock32 bs)"

definition block32 :: "char list \<Rightarrow> nat \<Rightarrow> 32 word" where
  "block32 bs i = getblock32 (take 4 (drop (4 * i) bs))"

type_synonym hash128 = "32 word \<times> 32 word \<times> 32 word \<times> 32 word"

definition murmur_c1 :: "32 word" where "murmur_c1 = 0x239b961b"

definition murmur_c2 :: "32 word" where "murmur_c2 = 0xab0e9789"

definition murmur_c3 :: "32 word" where "murmur_c3 = 0x38b34ae5"

definition murmur_c4 :: "32 word" where "murmur_c4 = 0xa1e38b93"

definition murmur_round :: "char list \<Rightarrow> hash128 \<Rightarrow> hash128" where
  "murmur_round bs h =
     (let (h1, h2, h3, h4) = h;
          h1 = h1 XOR rotl32 (block32 bs 0 * murmur_c1) 15 * murmur_c2;
          h1 = (rotl32 h1 19 + h2) * 5 + 0x561ccd1b;
          h2 = h2 XOR rotl32 (block32 bs 1 * murmur_c2) 16 * murmur_c3;
          h2 = (rotl32 h2 17 + h3) * 5 + 0x0bcaa747;
          h3 = h3 XOR rotl32 (block32 bs 2 * murmur_c3) 17 * murmur_c4;
          h3 = (rotl32 h3 15 + h4) * 5 + 0x96cd1c35;
          h4 = h4 XOR rotl32 (block32 bs 3 * murmur_c4) 18 * murmur_c1;
          h4 = (rotl32 h4 13 + h1) * 5 + 0x32ac3b17
      in (h1, h2, h3, h4))"

text \<open>The body consumes blocks of 16 bytes; \<open>n\<close> is the number of them that are left.\<close>

fun murmur_body :: "nat \<Rightarrow> char list \<Rightarrow> hash128 \<Rightarrow> hash128" where
  "murmur_body 0 bs h = h"
| "murmur_body (Suc n) bs h = murmur_body n (drop 16 bs) (murmur_round (take 16 bs) h)"

text \<open>The tail of fewer than 16 bytes, the case \<open>length bs\<close> of the switch and those below it.\<close>

definition murmur_tail :: "char list \<Rightarrow> hash128 \<Rightarrow> hash128" where
  "murmur_tail bs h =
     (let (h1, h2, h3, h4) = h;
          h4 = (if 12 < length bs then h4 XOR rotl32 (block32 bs 3 * murmur_c4) 18 * murmur_c1 else h4);
          h3 = (if 8 < length bs then h3 XOR rotl32 (block32 bs 2 * murmur_c3) 17 * murmur_c4 else h3);
          h2 = (if 4 < length bs then h2 XOR rotl32 (block32 bs 1 * murmur_c2) 16 * murmur_c3 else h2);
          h1 = (if 0 < length bs then h1 XOR rotl32 (block32 bs 0 * murmur_c1) 15 * murmur_c2 else h1)
      in (h1, h2, h3, h4))"

definition murmur_add :: "hash128 \<Rightarrow> hash128" where
  "murmur_add h = (let (h1, h2, h3, h4) = h; h1 = h1 + h2 + h3 + h4 in (h1, h2 + h1, h3 + h1, h4 + h1))"

definition murmur_final :: "nat \<Rightarrow> hash128 \<Rightarrow> hash128" where
  "murmur_final len h =
     (let (h1, h2, h3, h4) = h; l = of_nat len;
          (h1, h2, h3, h4) = murmur_add (h1 XOR l, h2 XOR l, h3 XOR l, h4 XOR l)
      in murmur_add (fmix32 h1, fmix32 h2, fmix32 h3, fmix32 h4))"

definition MurmurHash3_x86_128 :: "string \<Rightarrow> 32 word \<Rightarrow> hash128" where
  "MurmurHash3_x86_128 key seed =
     (let nblocks = length key div 16
      in murmur_final (length key)
           (murmur_tail (drop (nblocks * 16) key) (murmur_body nblocks key (seed, seed, seed, seed))))"

subsection \<open>Text of numbers\<close>

definition digit_char :: "nat \<Rightarrow> char" where
  "digit_char d = ''0123456789abcdef'' ! d"

fun nat_text :: "nat \<Rightarrow> string" where
  "nat_text n = (if n < 10 then [digit_char n] else nat_text (n div 10) @ [digit_char (n mod 10)])"

declare nat_text.simps [simp del]

text \<open>\<^verbatim>\<open>std::hex\<close> with \<^verbatim>\<open>std::setw(n)\<close> and \<^verbatim>\<open>std::setfill('0')\<close>, for a number of at most \<open>n\<close> digits.\<close>

fun hex_text :: "nat \<Rightarrow> int \<Rightarrow> string" where
  "hex_text 0 x = []"
| "hex_text (Suc n) x = hex_text n (x div 16) @ [digit_char (nat (x mod 16))]"

definition hash_text :: "string \<Rightarrow> string" where
  "hash_text txt =
     (let (h1, h2, h3, h4) = MurmurHash3_x86_128 txt 4200; hex = (\<lambda>h. hex_text 8 (uint h))
      in hex h1 @ ''_'' @ hex h2 @ ''_'' @ hex h3 @ ''_'' @ hex h4)"

text \<open>The other use of the hash: its first word.\<close>

definition hash :: "string \<Rightarrow> 32 word" where
  "hash txt = fst (MurmurHash3_x86_128 txt 4200)"

subsection \<open>Form of the hash\<close>

lemma length_hex_text [simp]: "length (hex_text n x) = n"
  by (induction n arbitrary: x) simp_all

lemma digit_char_set: "d < 16 \<Longrightarrow> digit_char d \<in> set ''0123456789abcdef''"
  unfolding digit_char_def by (rule nth_mem) simp

lemma set_hex_text: "set (hex_text n x) \<subseteq> set ''0123456789abcdef''"
proof (induction n arbitrary: x)
  case (Suc n)
  then show ?case using digit_char_set [of "nat (x mod 16)"] by simp
qed simp

lemma length_hash_text: "length (hash_text txt) = 35"
  by (simp add: hash_text_def Let_def split: prod.splits)

lemma set_hash_text: "set (hash_text txt) \<subseteq> insert (CHR ''_'') (set ''0123456789abcdef'')"
proof -
  obtain h1 h2 h3 h4 where h: "MurmurHash3_x86_128 txt 4200 = (h1, h2, h3, h4)" by (rule prod_cases4)
  define U where "U = set ''0123456789abcdef''"
  have "set (hex_text 8 x) \<subseteq> U" for x unfolding U_def by (rule set_hex_text)
  then have "set (hash_text txt) \<subseteq> insert (CHR ''_'') U"
    unfolding hash_text_def h Let_def prod.case set_append list.set by blast
  then show ?thesis by (simp only: U_def)
qed

lemma digit_char_inj: "a < 16 \<Longrightarrow> b < 16 \<Longrightarrow> digit_char a = digit_char b \<Longrightarrow> a = b"
  unfolding digit_char_def by (simp add: nth_eq_iff_index_eq)

lemma digit_char_decimal: "d < 10 \<Longrightarrow> digit_char d \<in> set ''0123456789''"
  unfolding digit_char_def using nth_mem [of d "''0123456789''"] nth_append [of "''0123456789''" "''abcdef''" d] by simp

lemma nat_text_not_Nil [simp]: "nat_text n \<noteq> []"
  by (subst nat_text.simps) simp

lemma set_nat_text: "set (nat_text n) \<subseteq> set ''0123456789''"
proof (induction n rule: nat_text.induct)
  case (1 n)
  then show ?case using digit_char_decimal [of n] digit_char_decimal [of "n mod 10"] by (subst nat_text.simps) simp
qed

lemma nat_text_inj: "nat_text m = nat_text n \<Longrightarrow> m = n"
proof (induction m arbitrary: n rule: less_induct)
  case (less m)
  have eq: "(if m < 10 then [digit_char m] else nat_text (m div 10) @ [digit_char (m mod 10)]) =
      (if n < 10 then [digit_char n] else nat_text (n div 10) @ [digit_char (n mod 10)])"
    using less.prems nat_text.simps [of m] nat_text.simps [of n] by simp
  show ?case
  proof (cases "m < 10")
    case True
    then show ?thesis using eq digit_char_inj [of m n] by (cases "n < 10") (simp_all add: append_eq_Cons_conv Cons_eq_append_conv)
  next
    case False
    then have "nat_text (m div 10) = nat_text (n div 10)" "digit_char (m mod 10) = digit_char (n mod 10)" "\<not> n < 10"
      using eq by (simp_all split: if_splits)
    moreover have "m mod 10 = n mod 10" using calculation(2) by (intro digit_char_inj) simp_all
    moreover have "m div 10 = n div 10" using less.IH [of "m div 10" "n div 10"] False calculation(1) by simp
    ultimately show ?thesis by (metis div_mult_mod_eq)
  qed
qed

end
