(* ===== verification/Cpu_Block.thy ===== *)
theory Cpu_Block
  imports Cpu_Translate Cpu_Hash
begin

text \<open>
  Blocks of the CPU engine, \<^verbatim>\<open>ve/cpu/block.cpp\<close>: the TACs of one kernel with the operands they use, the iteration space
  and the symbol under which the compiled kernel is stored. Pointers to TACs and to operands are indices into the program
  and the global symbol table. \<open>Undefined\<close> is an access outside an array, through NULL or past the end of a map.
\<close>

subsection \<open>State\<close>

record iterspace_t =
  it_layout :: LAYOUT
  it_ndim :: nat
  it_shape :: "dims_ref option"
  it_nelem :: int

record block =
  b_tacs :: "nat list"
  b_array_tacs :: "nat list"
  b_operands :: "nat list"
  b_operands_cap :: nat
  b_omask :: "32 word"
  b_iterspace :: iterspace_t
  b_global_to_local :: "nat \<rightharpoonup> nat"
  b_local_to_global :: "nat \<rightharpoonup> nat"
  b_base_refs :: "ptr \<Rightarrow> nat set"
  b_symbol_text :: string
  b_symbol :: string

text \<open>The constructor leaves the iteration space uninitialised.\<close>

definition Block_new :: "iterspace_t \<Rightarrow> block" where
  "Block_new junk = \<lparr>b_tacs = [], b_array_tacs = [], b_operands = [], b_operands_cap = 0, b_omask = 0, b_iterspace = junk,
     b_global_to_local = Map.empty, b_local_to_global = Map.empty, b_base_refs = (\<lambda>_. {}), b_symbol_text = [], b_symbol = []\<rparr>"

text \<open>\<^verbatim>\<open>clear\<close> resets every field, so its result does not depend on the block it is called on.\<close>

definition block_clear :: "block \<Rightarrow> block" where
  "block_clear b = b\<lparr>b_tacs := [], b_array_tacs := [], b_base_refs := (\<lambda>_. {}), b_omask := 0,
     b_iterspace := \<lparr>it_layout = SCALAR_TEMP, it_ndim = 0, it_shape = None, it_nelem = 0\<rparr>,
     b_operands := [], b_operands_cap := 0, b_global_to_local := Map.empty, b_local_to_global := Map.empty,
     b_symbol_text := [], b_symbol := []\<rparr>"

text \<open>\<^verbatim>\<open>std::map::insert\<close> keeps an existing entry.\<close>

definition map_insert :: "'k \<Rightarrow> 'v \<Rightarrow> ('k \<rightharpoonup> 'v) \<Rightarrow> 'k \<rightharpoonup> 'v" where
  "map_insert k v m = (case m k of None \<Rightarrow> m(k \<mapsto> v) | Some _ \<Rightarrow> m)"

subsection \<open>Composition\<close>

text \<open>The search of \<^verbatim>\<open>localize\<close> and the entry of a new operand.\<close>

definition local_index :: "program \<Rightarrow> operand_t list \<Rightarrow> nat \<Rightarrow> block \<Rightarrow> cpu_error + nat \<times> block" where
  "local_index is tbl global_idx b =
     (let n = length (b_operands b) in
      case find (\<lambda>i. equivalent is tbl (tbl ! (b_operands b ! i)) (tbl ! global_idx)) [0..<n] of
        Some i \<Rightarrow> Inr (i, b)
      | None \<Rightarrow> if n < b_operands_cap b then Inr (n, b\<lparr>b_operands := b_operands b @ [global_idx]\<rparr>) else Inl Undefined)"

definition localize :: "program \<Rightarrow> operand_t list \<Rightarrow> nat \<Rightarrow> block \<Rightarrow> cpu_error + nat \<times> block" where
  "localize is tbl global_idx b =
     (if length tbl \<le> global_idx then Inl Undefined
      else
        (case local_index is tbl global_idx b of
           Inl e \<Rightarrow> Inl e
         | Inr (local_idx, b) \<Rightarrow>
             (let p = obase (tbl ! (b_operands b ! local_idx))
              in Inr (local_idx,
                   b\<lparr>b_global_to_local := map_insert global_idx local_idx (b_global_to_local b),
                     b_local_to_global := map_insert local_idx global_idx (b_local_to_global b),
                     b_base_refs := (b_base_refs b)(p := insert global_idx (b_base_refs b p))\<rparr>))))"

fun localize_all :: "program \<Rightarrow> operand_t list \<Rightarrow> nat list \<Rightarrow> block \<Rightarrow> cpu_error + block" where
  "localize_all is tbl [] b = Inr b"
| "localize_all is tbl (g # gs) b =
     (case localize is tbl g b of Inl e \<Rightarrow> Inl e | Inr (_, b) \<Rightarrow> localize_all is tbl gs b)"

text \<open>The operands of a TAC, in the order the falling cases of the switch visit them.\<close>

definition tac_operands :: "tac_t \<Rightarrow> cpu_error + nat list" where
  "tac_operands tac =
     map_sum id (\<lambda>n. if n = 3 then [tac_in2 tac, tac_in1 tac, tac_out tac]
       else if n = 2 then [tac_in1 tac, tac_out tac]
       else if n = 1 then [tac_out tac] else []) (tac_noperands (tac_op tac) (tac_oper tac))"

definition compose_tac :: "program \<Rightarrow> operand_t list \<Rightarrow> tac_t list \<Rightarrow> nat \<Rightarrow> block \<Rightarrow> cpu_error + block" where
  "compose_tac is tbl prog idx b =
     (if length prog \<le> idx then Inl Undefined
      else
        (let tac = prog ! idx;
             b = b\<lparr>b_tacs := b_tacs b @ [idx], b_omask := b_omask b OR operation_code (tac_op tac)\<rparr>;
             b = (if op_in (tac_op tac) ARRAY_OPS then b\<lparr>b_array_tacs := b_array_tacs b @ [idx]\<rparr> else b)
         in case tac_operands tac of Inl e \<Rightarrow> Inl e | Inr gs \<Rightarrow> localize_all is tbl gs b))"

fun compose_loop :: "program \<Rightarrow> operand_t list \<Rightarrow> tac_t list \<Rightarrow> nat list \<Rightarrow> block \<Rightarrow> cpu_error + block" where
  "compose_loop is tbl prog [] b = Inr b"
| "compose_loop is tbl prog (idx # idxs) b =
     (case compose_tac is tbl prog idx b of Inl e \<Rightarrow> Inl e | Inr b \<Rightarrow> compose_loop is tbl prog idxs b)"

text \<open>\<^verbatim>\<open>compose(krnl)\<close> on the instruction indices of a kernel, and \<^verbatim>\<open>compose(prg_begin, prg_end)\<close>.\<close>

definition compose :: "program \<Rightarrow> operand_t list \<Rightarrow> tac_t list \<Rightarrow> nat list \<Rightarrow> block \<Rightarrow> cpu_error + block" where
  "compose is tbl prog instr_indexes b =
     compose_loop is tbl prog instr_indexes (b\<lparr>b_operands_cap := length instr_indexes * 3\<rparr>)"

definition compose_range :: "program \<Rightarrow> operand_t list \<Rightarrow> tac_t list \<Rightarrow> nat \<Rightarrow> nat \<Rightarrow> block \<Rightarrow> cpu_error + block" where
  "compose_range is tbl prog prg_begin prg_end b =
     compose_loop is tbl prog [prg_begin..<Suc prg_end] (b\<lparr>b_operands_cap := (Suc prg_end - prg_begin) * 3\<rparr>)"

definition global_to_local :: "nat \<Rightarrow> block \<Rightarrow> cpu_error + nat" where
  "global_to_local global_idx b = (case b_global_to_local b global_idx of Some l \<Rightarrow> Inr l | None \<Rightarrow> Inl Undefined)"

definition local_to_global :: "nat \<Rightarrow> block \<Rightarrow> cpu_error + nat" where
  "local_to_global local_idx b = (case b_local_to_global b local_idx of Some g \<Rightarrow> Inr g | None \<Rightarrow> Inl Undefined)"

definition base_refcount :: "ptr \<Rightarrow> block \<Rightarrow> nat" where
  "base_refcount p b = card (b_base_refs b p)"

definition narray_tacs :: "block \<Rightarrow> nat" where
  "narray_tacs b = length (b_array_tacs b)"

subsection \<open>Iteration space\<close>

definition widen :: "operand_t \<Rightarrow> iterspace_t \<Rightarrow> iterspace_t" where
  "widen opd it =
     (if layout_code (it_layout it) < layout_code (layout opd) then
        (let it = it\<lparr>it_layout := layout opd\<rparr>
         in if layout_code SCALAR_TEMP < layout_code (it_layout it)
            then it\<lparr>it_ndim := ondim opd, it_shape := Some (oshape opd)\<rparr> else it)
      else it)"

definition iterspace_tac :: "operand_t list \<Rightarrow> tac_t \<Rightarrow> iterspace_t \<Rightarrow> cpu_error + iterspace_t" where
  "iterspace_tac tbl tac it =
     (if \<not> op_in (tac_op tac) ARRAY_OPS then Inr it
      else if op_in (tac_op tac) (operation_code REDUCE_COMPLETE OR operation_code REDUCE_PARTIAL) then
        (let in1 = tbl ! tac_in1 tac; out = tbl ! tac_out tac;
             it = (if layout_code (it_layout it) \<le> layout_code (layout in1)
                   then it\<lparr>it_layout := layout in1, it_ndim := ondim in1, it_shape := Some (oshape in1)\<rparr> else it)
         in Inr (if layout_code (it_layout it) < layout_code (layout out) then it\<lparr>it_layout := layout out\<rparr> else it))
      else map_sum id (\<lambda>gs. fold (\<lambda>g. widen (tbl ! g)) gs it) (tac_operands tac))"

fun iterspace_loop :: "operand_t list \<Rightarrow> tac_t list \<Rightarrow> nat list \<Rightarrow> iterspace_t \<Rightarrow> cpu_error + iterspace_t" where
  "iterspace_loop tbl prog [] it = Inr it"
| "iterspace_loop tbl prog (i # is) it =
     (case iterspace_tac tbl (prog ! i) it of Inl e \<Rightarrow> Inl e | Inr it \<Rightarrow> iterspace_loop tbl prog is it)"

definition update_iterspace :: "program \<Rightarrow> operand_t list \<Rightarrow> tac_t list \<Rightarrow> block \<Rightarrow> cpu_error + block" where
  "update_iterspace is tbl prog b =
     (case iterspace_loop tbl prog (b_tacs b) (b_iterspace b) of
        Inl e \<Rightarrow> Inl e
      | Inr it \<Rightarrow>
          Inr (b\<lparr>b_iterspace := (case it_shape it of
            None \<Rightarrow> it | Some r \<Rightarrow> it\<lparr>it_nelem := prod_list (take (it_ndim it) (dims_at is r))\<rparr>)\<rparr>))"

subsection \<open>Symbol\<close>

definition operand_symbol :: "operand_t list \<Rightarrow> block \<Rightarrow> nat \<Rightarrow> string" where
  "operand_symbol tbl b i =
     (let opd = tbl ! (b_operands b ! i)
      in ''~'' @ nat_text i @ layout_text_shand (layout opd) @ etype_text_shand (etype opd) @
         (if base_refcount (obase opd) b = 1 then ''R'' else ''A''))"

definition tac_ndim :: "operand_t list \<Rightarrow> tac_t \<Rightarrow> nat" where
  "tac_ndim tbl tac =
     (if op_in (tac_op tac) (operation_code REDUCE_COMPLETE OR operation_code REDUCE_PARTIAL)
      then ondim (tbl ! tac_in1 tac) else ondim (tbl ! tac_out tac))"

text \<open>The axis of a partial reduction, read through \<^verbatim>\<open>const_data\<close>, against \<^verbatim>\<open>ndim-1\<close> in \<^verbatim>\<open>size_t\<close>.\<close>

definition axis_symbol :: "program \<Rightarrow> operand_t list \<Rightarrow> tac_t \<Rightarrow> cpu_error + string" where
  "axis_symbol is tbl tac =
     (if op_in (tac_op tac) (operation_code REDUCE_PARTIAL) then
        (case const_data (tbl ! tac_in2 tac) of
           None \<Rightarrow> Inl Undefined
         | Some r \<Rightarrow>
             Inr (if le_value (take 8 (const_at_ref is r)) = (int (tac_ndim tbl tac) - 1) mod 2 ^ 64
                  then ''_INNER'' else ''_AXIS''))
      else Inr [])"

definition ndim_symbol :: "nat \<Rightarrow> string" where
  "ndim_symbol n = (if n \<le> 3 then nat_text n else ''N'') @ ''D''"

fun id_symbols :: "nat list \<Rightarrow> block \<Rightarrow> cpu_error + string" where
  "id_symbols [] b = Inr []"
| "id_symbols (g # gs) b =
     (case global_to_local g b of
        Inl e \<Rightarrow> Inl e
      | Inr l \<Rightarrow> map_sum id (\<lambda>s. ''_'' @ nat_text l @ s) (id_symbols gs b))"

definition tac_symbol :: "program \<Rightarrow> operand_t list \<Rightarrow> block \<Rightarrow> tac_t \<Rightarrow> cpu_error + string" where
  "tac_symbol is tbl b tac =
     (case axis_symbol is tbl tac of
        Inl e \<Rightarrow> Inl e
      | Inr ax \<Rightarrow>
          (case tac_operands tac of
             Inl e \<Rightarrow> Inl e
           | Inr gs \<Rightarrow>
               map_sum id (\<lambda>ids. operation_text (tac_op tac) @ ax @ ''-'' @ operator_text (tac_oper tac) @ ''-'' @
                   ndim_symbol (tac_ndim tbl tac) @ ids)
                 (id_symbols (rev gs) b)))"

text \<open>The loop over the TACs; \<open>first\<close> tells that nothing has been written yet.\<close>

fun tacs_symbol :: "program \<Rightarrow> operand_t list \<Rightarrow> tac_t list \<Rightarrow> block \<Rightarrow> nat list \<Rightarrow> bool \<Rightarrow> cpu_error + string" where
  "tacs_symbol is tbl prog b [] first = Inr []"
| "tacs_symbol is tbl prog b (i # idxs) first =
     (let tac = prog ! i in
      if tac_op tac = SYSTEM \<or> tac_op tac = EXTENSION then tacs_symbol is tbl prog b idxs first
      else
        (case tac_symbol is tbl b tac of
           Inl e \<Rightarrow> Inl e
         | Inr s \<Rightarrow>
             map_sum id (\<lambda>rest. (if first then [] else ''_'') @ s @ rest) (tacs_symbol is tbl prog b idxs False)))"

definition symbolize :: "program \<Rightarrow> operand_t list \<Rightarrow> tac_t list \<Rightarrow> block \<Rightarrow> cpu_error + block" where
  "symbolize is tbl prog b =
     (case tacs_symbol is tbl prog b (b_tacs b) True of
        Inl e \<Rightarrow> Inl e
      | Inr s \<Rightarrow>
          (let txt = s @ ''_'' @ concat (map (operand_symbol tbl b) [0..<length (b_operands b)])
           in Inr (b\<lparr>b_symbol_text := txt, b_symbol := hash_text txt\<rparr>)))"

end
