(* ===== verification/Cpu_Compose.thy ===== *)
theory Cpu_Compose
  imports Cpu_Block
begin

text \<open>
  Composition of a block: the operands of its TACs fit into the array allocated for them, every operand can be resolved in
  the block and denotes what it denotes in the program, and the references to base arrays are counted correctly.
\<close>

subsection \<open>Operands of the translated TACs\<close>

definition tac_symbols :: "tac_t \<Rightarrow> nat set" where
  "tac_symbols tac = (case tac_operands tac of Inl e \<Rightarrow> {} | Inr gs \<Rightarrow> set gs)"

definition noperands_ok :: "bh_opcode \<times> OPERATION \<times> OPERATOR \<times> nat \<Rightarrow> bool" where
  "noperands_ok row = (case row of (opc, op, oper, n) \<Rightarrow>
     (case tac_noperands op oper of Inl e \<Rightarrow> False | Inr m \<Rightarrow> m \<le> (if opc = BH_NONE then 0 else 1) + n))"

lemma noperands_table: "list_all noperands_ok tac_table"
  by code_simp

lemma noperands_row: "map_of tac_table opc = Some row \<Longrightarrow> noperands_ok (opc, row)"
  using noperands_table by (metis list_all_iff map_of_SomeD)

lemma tac_operands_Inr:
  assumes "tac_noperands (tac_op tac) (tac_oper tac) = Inr m"
  shows "\<exists>gs. tac_operands tac = Inr gs \<and> length gs \<le> 3 \<and>
    set gs \<subseteq> {g. (g = tac_out tac \<and> 1 \<le> m) \<or> (g = tac_in1 tac \<and> 2 \<le> m) \<or> (g = tac_in2 tac \<and> 3 \<le> m)}"
  using assms by (auto simp: tac_operands_def)

lemma switch_operands:
  assumes "symbols_for is st i idxs (mapped_operands op)"
  shows "\<exists>m. tac_noperands (tac_op (switch_opcode i op idxs tac_zero)) (tac_oper (switch_opcode i op idxs tac_zero)) = Inr m \<and>
    m \<le> length (mapped_operands op)"
proof (cases "map_of tac_table op")
  case None
  have "op \<noteq> BH_NONE" using None binary_rows(4) by auto
  then show ?thesis using None by (auto simp: switch_opcode_def tac_zero_def mapped_operands_def)
next
  case (Some row)
  obtain o' p n where row: "row = (o', p, n)" by (cases row)
  have "noperands_ok (op, row)" by (rule noperands_row [OF Some])
  then show ?thesis using Some row by (auto simp: noperands_ok_def switch_opcode_def mapped_operands_def split: sum.splits if_splits)
qed

lemma tac_noperands_sweep: "op \<in> {REDUCE_COMPLETE, REDUCE_PARTIAL, SCAN, ZIP} \<Longrightarrow> tac_noperands op oper = Inr 3"
  by auto

lemma translated_operands:
  assumes "translated is st i tac"
  shows "\<exists>gs. tac_operands tac = Inr gs \<and> length gs \<le> 3 \<and> (\<forall>g \<in> set gs. 1 \<le> g \<and> g \<le> nsymbols st)"
proof -
  obtain idxs where idxs: "symbols_for is st i idxs (mapped_operands (opcode (is ! i)))"
    "transforms is (table st) (switch_opcode i (opcode (is ! i)) idxs tac_zero) tac"
    using assms by (auto simp: translated_def)
  let ?op = "opcode (is ! i)" and ?t = "switch_opcode i (opcode (is ! i)) idxs tac_zero"
  obtain m where m: "tac_noperands (tac_op ?t) (tac_oper ?t) = Inr m" "m \<le> length (mapped_operands ?op)"
    using switch_operands [OF idxs(1)] by blast
  have sym: "1 \<le> pick idxs k \<and> pick idxs k \<le> nsymbols st" if "k < m" for k
    using symbols_for_nth [OF idxs(1), of k] that m(2) by simp
  have t: "tac_out ?t = pick idxs 0" "tac_in1 ?t = pick idxs 1" "tac_in2 ?t = pick idxs 2" if "0 < m"
    using that m by (auto simp: switch_opcode_def tac_zero_def mapped_operands_def split: option.splits if_splits prod.splits)
  have ok: "1 \<le> g \<and> g \<le> nsymbols st"
    if "(g = tac_out ?t \<and> 1 \<le> m) \<or> (g = tac_in1 ?t \<and> 2 \<le> m) \<or> (g = tac_in2 ?t \<and> 3 \<le> m)" for g
    using that t sym [of 0] sym [of 1] sym [of 2] by auto
  note ops = tac_operands_Inr [OF m(1)]
  have id: "\<exists>gs. tac_operands (to_identity ?t) = Inr gs \<and> length gs \<le> 3 \<and> (\<forall>g \<in> set gs. 1 \<le> g \<and> g \<le> nsymbols st)" if "2 \<le> m"
    using that ok [of "tac_out ?t"] ok [of "tac_in1 ?t"] by (auto simp: to_identity_def transform_identity_def tac_operands_def)
  from idxs(2) show ?thesis
  proof cases
    case keep
    then show ?thesis using ops ok by blast
  next
    case sweep_scalar
    then show ?thesis using id m(1) tac_noperands_sweep [of "tac_op ?t" "tac_oper ?t"] by auto
  next
    case complete
    then show ?thesis using ops ok m(1) by (auto simp: tac_operands_def)
  next
    case neutral
    then show ?thesis using id m(1) by auto
  next
    case absorb
    then show ?thesis using m(1) ok [of "tac_out ?t"] ok [of "tac_in2 ?t"] by (auto simp: tac_operands_def)
  next
    case self_copy
    then show ?thesis using ops ok m(1) by (auto simp: tac_operands_def transform_identity_def)
  qed
qed

subsection \<open>Invariant of a block under composition\<close>

text \<open>\<open>G\<close> is the set of global indices that have been localized.\<close>

definition block_inv :: "program \<Rightarrow> operand_t list \<Rightarrow> nat set \<Rightarrow> block \<Rightarrow> bool" where
  "block_inv is tbl G b \<longleftrightarrow>
     (\<forall>g \<in> G. \<exists>l < length (b_operands b). b_global_to_local b g = Some l \<and>
        (b_operands b ! l = g \<or> equivalent is tbl (tbl ! (b_operands b ! l)) (tbl ! g))) \<and>
     dom (b_global_to_local b) = G \<and>
     (\<forall>l. b_local_to_global b l = (if l < length (b_operands b) then Some (b_operands b ! l) else None)) \<and>
     set (b_operands b) \<subseteq> G \<and>
     (\<forall>p. b_base_refs b p = {g \<in> G. obase (tbl ! g) = p})"

lemma block_inv_local:
  assumes "block_inv is tbl G b" and "g \<in> G"
  obtains l where "l < length (b_operands b)" "b_global_to_local b g = Some l" "b_local_to_global b l = Some (b_operands b ! l)"
    "b_operands b ! l \<in> G" "b_operands b ! l = g \<or> equivalent is tbl (tbl ! (b_operands b ! l)) (tbl ! g)"
proof -
  obtain l where l: "l < length (b_operands b)" "b_global_to_local b g = Some l"
    "b_operands b ! l = g \<or> equivalent is tbl (tbl ! (b_operands b ! l)) (tbl ! g)"
    using assms unfolding block_inv_def by blast
  moreover have "b_local_to_global b l = Some (b_operands b ! l)" using assms(1) l(1) unfolding block_inv_def by simp
  moreover have "b_operands b ! l \<in> G" using assms(1) nth_mem [OF l(1)] unfolding block_inv_def by blast
  ultimately show ?thesis using that by blast
qed

definition const_base_ok :: "operand_t \<Rightarrow> bool" where
  "const_base_ok opd \<longleftrightarrow> (layout opd = SCALAR_CONST \<longrightarrow> obase opd = NULL)"

lemma equivalent_base: "equivalent is tbl x y \<Longrightarrow> const_base_ok x \<Longrightarrow> const_base_ok y \<Longrightarrow> obase x = obase y"
  by (auto simp: equivalent_def const_base_ok_def split: if_splits)

lemma symbol_ok_const_base: "symbol_ok is j opd \<Longrightarrow> const_base_ok opd"
  by (auto simp: symbol_ok_def const_symbol_def array_symbol_def const_base_ok_def)

lemma localize_correct:
  assumes "block_inv is tbl G b" and "length (b_operands b) < b_operands_cap b"
    and "g < length tbl" and "\<forall>h \<in> insert g G. const_base_ok (tbl ! h)"
  shows "\<exists>l b'. localize is tbl g b = Inr (l, b') \<and> block_inv is tbl (insert g G) b' \<and> length (b_operands b') \<le> Suc (length (b_operands b)) \<and>
    b_operands_cap b' = b_operands_cap b \<and> b_tacs b' = b_tacs b \<and> b_array_tacs b' = b_array_tacs b \<and> b_omask b' = b_omask b \<and>
    b_iterspace b' = b_iterspace b"
proof -
  let ?P = "\<lambda>i. equivalent is tbl (tbl ! (b_operands b ! i)) (tbl ! g)" and ?n = "length (b_operands b)"
  have k: "y < ?n \<and> (b_operands b ! y = g \<or> ?P y)" if "b_global_to_local b g = Some y" for y
  proof -
    have "g \<in> G" using assms(1) that by (auto simp: block_inv_def)
    from block_inv_local [OF assms(1) this] show ?thesis using that by auto
  qed
  show ?thesis
  proof (cases "find ?P [0..<?n]")
    case None
    show ?thesis using assms None
      apply (auto simp: localize_def local_index_def Let_def block_inv_def map_insert_def nth_append less_Suc_eq dom_def split: option.splits)
      subgoal for y using k [of y] by (intro exI [of _ y]) simp
      done
  next
    case (Some i)
    then have i: "i < ?n" "?P i" by (auto simp: find_Some_iff)
    have "b_operands b ! i \<in> G" using assms(1) nth_mem [OF i(1)] unfolding block_inv_def by blast
    then have "obase (tbl ! (b_operands b ! i)) = obase (tbl ! g)" using assms(4) by (intro equivalent_base [OF i(2)]) blast+
    then show ?thesis using Some i assms
      apply (auto simp: localize_def local_index_def Let_def block_inv_def map_insert_def dom_def split: option.splits)
      subgoal for y using k [of y] by simp
      subgoal for y using k [of y] by simp
      done
  qed
qed

lemma block_clear_inv [simp]: "block_inv is tbl {} (block_clear b)"
  by (simp add: block_inv_def block_clear_def)

lemma localize_all_correct:
  assumes "block_inv is tbl G b" and "length (b_operands b) + length gs \<le> b_operands_cap b"
    and "\<forall>h \<in> set gs. h < length tbl" and "\<forall>h \<in> set gs \<union> G. const_base_ok (tbl ! h)"
  shows "\<exists>b'. localize_all is tbl gs b = Inr b' \<and> block_inv is tbl (set gs \<union> G) b' \<and>
    length (b_operands b') \<le> length (b_operands b) + length gs \<and>
    b_operands_cap b' = b_operands_cap b \<and> b_tacs b' = b_tacs b \<and> b_array_tacs b' = b_array_tacs b \<and> b_omask b' = b_omask b \<and>
    b_iterspace b' = b_iterspace b"
  using assms
proof (induction gs arbitrary: b G)
  case (Cons g gs)
  obtain l b1 where 1: "localize is tbl g b = Inr (l, b1)" "block_inv is tbl (insert g G) b1"
    "length (b_operands b1) \<le> Suc (length (b_operands b))" "b_operands_cap b1 = b_operands_cap b"
    "b_tacs b1 = b_tacs b" "b_array_tacs b1 = b_array_tacs b" "b_omask b1 = b_omask b" "b_iterspace b1 = b_iterspace b"
    using localize_correct [OF Cons.prems(1), of g] Cons.prems(2-4) by auto
  show ?case using Cons.IH [OF 1(2)] Cons.prems(2-4) 1 by (auto simp: insert_commute)
qed simp

text \<open>A TAC all of whose operands are symbols of the table.\<close>

definition tac_ok :: "operand_t list \<Rightarrow> tac_t \<Rightarrow> bool" where
  "tac_ok tbl tac \<longleftrightarrow> (\<exists>gs. tac_operands tac = Inr gs \<and> length gs \<le> 3 \<and> (\<forall>g \<in> set gs. g < length tbl \<and> const_base_ok (tbl ! g)))"

definition array_tac :: "tac_t list \<Rightarrow> nat \<Rightarrow> bool" where
  "array_tac prog i \<longleftrightarrow> op_in (tac_op (prog ! i)) ARRAY_OPS"

lemma compose_tac_correct:
  assumes "block_inv is tbl G b" and "length (b_operands b) + 3 \<le> b_operands_cap b"
    and "idx < length prog" and "tac_ok tbl (prog ! idx)" and "\<forall>h \<in> G. const_base_ok (tbl ! h)"
  shows "\<exists>b'. compose_tac is tbl prog idx b = Inr b' \<and> block_inv is tbl (tac_symbols (prog ! idx) \<union> G) b' \<and>
    length (b_operands b') \<le> length (b_operands b) + 3 \<and>
    b_operands_cap b' = b_operands_cap b \<and> b_tacs b' = b_tacs b @ [idx] \<and>
    b_array_tacs b' = b_array_tacs b @ filter (array_tac prog) [idx] \<and>
    b_omask b' = b_omask b OR operation_code (tac_op (prog ! idx)) \<and> b_iterspace b' = b_iterspace b"
proof -
  obtain gs where gs: "tac_operands (prog ! idx) = Inr gs" "length gs \<le> 3" "\<forall>g \<in> set gs. g < length tbl \<and> const_base_ok (tbl ! g)"
    using assms(4) by (auto simp: tac_ok_def)
  let ?b = "b\<lparr>b_tacs := b_tacs b @ [idx], b_omask := b_omask b OR operation_code (tac_op (prog ! idx)),
    b_array_tacs := b_array_tacs b @ filter (array_tac prog) [idx]\<rparr>"
  have inv: "block_inv is tbl G ?b" using assms(1) by (simp add: block_inv_def)
  have "compose_tac is tbl prog idx b = localize_all is tbl gs ?b"
    using assms(3) gs(1) by (simp add: compose_tac_def Let_def array_tac_def)
  moreover obtain b' where "localize_all is tbl gs ?b = Inr b'" "block_inv is tbl (set gs \<union> G) b'"
    "length (b_operands b') \<le> length (b_operands b) + length gs" "b_operands_cap b' = b_operands_cap b" "b_tacs b' = b_tacs ?b"
    "b_array_tacs b' = b_array_tacs ?b" "b_omask b' = b_omask ?b" "b_iterspace b' = b_iterspace b"
    using localize_all_correct [OF inv, of gs] assms(2,5) gs(2,3) by fastforce
  ultimately show ?thesis using gs by (intro exI [of _ b']) (simp add: tac_symbols_def)
qed

lemma compose_loop_correct:
  assumes "block_inv is tbl G b" and "length (b_operands b) + 3 * length idxs \<le> b_operands_cap b"
    and "\<forall>i \<in> set idxs. i < length prog \<and> tac_ok tbl (prog ! i)" and "\<forall>h \<in> G. const_base_ok (tbl ! h)"
  shows "\<exists>b'. compose_loop is tbl prog idxs b = Inr b' \<and> block_inv is tbl ((\<Union>i \<in> set idxs. tac_symbols (prog ! i)) \<union> G) b' \<and>
    length (b_operands b') \<le> length (b_operands b) + 3 * length idxs \<and> b_operands_cap b' = b_operands_cap b \<and>
    b_tacs b' = b_tacs b @ idxs \<and> b_array_tacs b' = b_array_tacs b @ filter (array_tac prog) idxs \<and>
    b_omask b' = fold (\<lambda>i m. m OR operation_code (tac_op (prog ! i))) idxs (b_omask b) \<and> b_iterspace b' = b_iterspace b"
  using assms
proof (induction idxs arbitrary: b G)
  case (Cons i idxs)
  obtain b1 where 1: "compose_tac is tbl prog i b = Inr b1" "block_inv is tbl (tac_symbols (prog ! i) \<union> G) b1"
    "length (b_operands b1) \<le> length (b_operands b) + 3" "b_operands_cap b1 = b_operands_cap b" "b_tacs b1 = b_tacs b @ [i]"
    "b_array_tacs b1 = b_array_tacs b @ filter (array_tac prog) [i]" "b_omask b1 = b_omask b OR operation_code (tac_op (prog ! i))"
    "b_iterspace b1 = b_iterspace b"
    using compose_tac_correct [OF Cons.prems(1), of i prog] Cons.prems(2-4) by auto
  have ok: "\<forall>h \<in> tac_symbols (prog ! i) \<union> G. const_base_ok (tbl ! h)"
    using Cons.prems(3,4) by (auto simp: tac_ok_def tac_symbols_def)
  show ?case using Cons.IH [OF 1(2) _ _ ok] Cons.prems(2,3) 1 by (auto simp: Un_assoc Un_left_commute)
qed simp

lemma compose_clear:
  assumes "\<forall>i \<in> set idxs. i < length prog \<and> tac_ok tbl (prog ! i)"
  shows "\<exists>b. compose is tbl prog idxs (block_clear b0) = Inr b \<and> block_inv is tbl (\<Union>i \<in> set idxs. tac_symbols (prog ! i)) b \<and>
    length (b_operands b) \<le> b_operands_cap b \<and> b_tacs b = idxs \<and> b_array_tacs b = filter (array_tac prog) idxs \<and>
    b_omask b = fold (\<lambda>i m. m OR operation_code (tac_op (prog ! i))) idxs 0 \<and>
    b_iterspace b = \<lparr>it_layout = SCALAR_TEMP, it_ndim = 0, it_shape = None, it_nelem = 0\<rparr>"
proof -
  define b1 where "b1 = (block_clear b0)\<lparr>b_operands_cap := length idxs * 3\<rparr>"
  have b1: "block_inv is tbl {} b1" "b_operands b1 = []" "b_operands_cap b1 = 3 * length idxs" "b_tacs b1 = []" "b_array_tacs b1 = []"
    "b_omask b1 = 0" "b_iterspace b1 = \<lparr>it_layout = SCALAR_TEMP, it_ndim = 0, it_shape = None, it_nelem = 0\<rparr>"
    by (simp_all add: b1_def block_inv_def block_clear_def)
  then show ?thesis using compose_loop_correct [OF b1(1) _ assms] unfolding compose_def b1_def [symmetric] by auto
qed

lemma compose_single: "compose_range is tbl prog i i b = compose is tbl prog [i] b"
  by (simp add: compose_range_def compose_def)

lemma translated_tac_ok:
  assumes "translated is st i tac" and "table_ok is st"
  shows "tac_ok (table st) tac" and "\<forall>g \<in> tac_symbols tac. symbol_ok is g (table st ! g)"
  using translated_operands [OF assms(1)] assms(2) symbol_ok_const_base unfolding tac_ok_def tac_symbols_def table_ok_def by fastforce+

lemma compile_batch_tacs:
  assumes "batch_ok bs is" and "compile_batch bs init is = Inr (tacs, is', st)"
  shows "evolved is is'" and "table_ok is' st" and "length tacs = length is" and "\<forall>i < length is. translated is' st i (tacs ! i)"
    and "\<forall>i < length is. tac_ok (table st) (tacs ! i) \<and> (\<forall>g \<in> tac_symbols (tacs ! i). symbol_ok is' g (table st ! g))"
  using compile_batch_translated [OF assms(1), of init] assms(2) translated_tac_ok by auto

text \<open>
  C11. A kernel composes into a block without leaving the array of operands, which has room for three operands per
  instruction: the block holds the TACs of the kernel in order, and among them the array operations; every symbol a TAC
  uses has a local index, the local operand denotes whatever the symbol denotes, and the way back from local to global
  indices agrees. A base array is referred to by exactly the symbols of the block that lie in it, so the flag that
  allows the compiler to assume no aliasing is set exactly for arrays with a single symbol.
\<close>

theorem compose_correct:
  assumes "batch_ok bs is" and "compile_batch bs init is = Inr (tacs, is', st)" and "set idxs \<subseteq> {..<length is}"
  shows "\<exists>b. compose is' (table st) tacs idxs (block_clear b0) = Inr b \<and> b_tacs b = idxs \<and>
    b_array_tacs b = filter (\<lambda>i. op_in (tac_op (tacs ! i)) ARRAY_OPS) idxs \<and> length (b_operands b) \<le> b_operands_cap b \<and>
    (\<forall>i \<in> set idxs. \<forall>g \<in> tac_symbols (tacs ! i). \<exists>l < length (b_operands b).
       global_to_local g b = Inr l \<and> local_to_global l b = Inr (b_operands b ! l) \<and>
       (\<forall>j k. denotes is' (table st) g j k \<longrightarrow> denotes is' (table st) (b_operands b ! l) j k)) \<and>
    (\<forall>p. base_refcount p b = card {g \<in> (\<Union>i \<in> set idxs. tac_symbols (tacs ! i)). obase (table st ! g) = p})"
proof -
  note c = compile_batch_tacs [OF assms(1,2)]
  let ?G = "\<Union>i \<in> set idxs. tac_symbols (tacs ! i)"
  have ops: "\<forall>i \<in> set idxs. i < length tacs \<and> tac_ok (table st) (tacs ! i)" using c(3,5) assms(3) by auto
  obtain b where b: "compose is' (table st) tacs idxs (block_clear b0) = Inr b" "block_inv is' (table st) ?G b"
    "length (b_operands b) \<le> b_operands_cap b" "b_tacs b = idxs" "b_array_tacs b = filter (array_tac tacs) idxs"
    using compose_clear [OF ops] by blast
  have ok: "symbol_ok is' g (table st ! g)" if "g \<in> ?G" for g using that c(5) assms(3) by auto
  have "\<exists>l < length (b_operands b). global_to_local g b = Inr l \<and> local_to_global l b = Inr (b_operands b ! l) \<and>
      (\<forall>j k. denotes is' (table st) g j k \<longrightarrow> denotes is' (table st) (b_operands b ! l) j k)" if "g \<in> ?G" for g
  proof -
    from block_inv_local [OF b(2) that] obtain l where l: "l < length (b_operands b)" "b_global_to_local b g = Some l"
      "b_local_to_global b l = Some (b_operands b ! l)" "b_operands b ! l \<in> ?G"
      "b_operands b ! l = g \<or> equivalent is' (table st) (table st ! (b_operands b ! l)) (table st ! g)" .
    then have "denotes is' (table st) (b_operands b ! l) j k" if "denotes is' (table st) g j k" for j k
      using equivalent_denotes [OF _ ok that] that by (cases "b_operands b ! l = g") auto
    then show ?thesis using l(1,2,3) by (intro exI [of _ l]) (simp add: global_to_local_def local_to_global_def)
  qed
  moreover have "base_refcount p b = card {g \<in> ?G. obase (table st ! g) = p}" for p
    using b(2) by (simp add: base_refcount_def block_inv_def)
  moreover have "b_array_tacs b = filter (\<lambda>i. op_in (tac_op (tacs ! i)) ARRAY_OPS) idxs"
    using b(5) by (simp add: array_tac_def [abs_def])
  ultimately show ?thesis using b(1,3,4) by blast
qed

theorem compose_correct_witness:
  "\<exists>tacs is' st b. compile_batch (typed_bases BH_UINT8) (\<lambda>_. undefined) [add_constant BH_UINT8] = Inr (tacs, is', st) \<and>
     compose is' (table st) tacs [0] (block_clear (Block_new undefined)) = Inr b \<and> b_tacs b = [0]"
proof -
  obtain tacs is' st where "compile_batch (typed_bases BH_UINT8) (\<lambda>_. undefined) [add_constant BH_UINT8] = Inr (tacs, is', st)"
    using compile_batch_translated [OF add_constant_ok, of "\<lambda>_. undefined"] by blast
  then show ?thesis using compose_correct [OF add_constant_ok, of "\<lambda>_. undefined" tacs is' st "[0]" "Block_new undefined"] by auto
qed

end
