(* ===== verification/Cpu_Signature.thy ===== *)
theory Cpu_Signature
  imports Cpu_Block
begin

text \<open>
  The symbol of a block identifies the structure of the block: no two blocks that differ in their operations, operators,
  dimensions, operand indices, layouts, types or aliasing have the same text. Kernels are reused by the hash of this text.
\<close>

subsection \<open>Splitting texts\<close>

lemma split_at:
  assumes "x \<notin> set as" and "x \<notin> set bs" and "as @ x # cs = bs @ x # ds"
  shows "as = bs \<and> cs = ds"
  using assms
proof (induction "as" arbitrary: bs)
  case Nil
  then show ?case by (cases bs) auto
next
  case (Cons a "as")
  then show ?case by (cases bs) auto
qed

definition all_operators :: "OPERATOR list" where
  "all_operators = [ADD, SUBTRACT, ARCTAN2, BITWISE_AND, BITWISE_OR, BITWISE_XOR, DIVIDE, EQUAL, GREATER, GREATER_EQUAL,
     LEFT_SHIFT, LESS, LESS_EQUAL, LOGICAL_AND, LOGICAL_OR, LOGICAL_XOR, MAXIMUM, MINIMUM, MOD, MULTIPLY, NOT_EQUAL, POWER,
     RIGHT_SHIFT, ABSOLUTE, ARCCOS, ARCCOSH, ARCSIN, ARCSINH, ARCTAN, ARCTANH, CEIL, COS, COSH, EXP, EXP2, EXPM1, FLOOR,
     IDENTITY, IMAG, INVERT, ISINF, ISNAN, LOG, LOG10, LOG1P, LOG2, LOGICAL_NOT, REAL, RINT, SIN, SIGN, SINH, SQRT, TAN, TANH,
     TRUNC, GATHER, SCATTER, DISCARD, FREE, SYNC, NONE, FLOOD, RANDOM, RANGE, EXTENSION_OPERATOR]"

lemma operator_cases: "oper \<noteq> OPER_ZERO \<Longrightarrow> oper \<in> set all_operators"
  unfolding all_operators_def by (cases oper) simp_all

lemma operator_texts: "distinct (map operator_text all_operators)"
  by code_simp

lemma operator_texts_dash: "list_all (\<lambda>oper. CHR ''-'' \<notin> set (operator_text oper)) all_operators"
  by code_simp

lemma operator_text_inj:
  "operator_text a = operator_text b \<Longrightarrow> a \<noteq> OPER_ZERO \<Longrightarrow> b \<noteq> OPER_ZERO \<Longrightarrow> a = b"
  using operator_texts operator_cases unfolding distinct_map inj_on_def by blast

lemma operator_text_dash: "oper \<noteq> OPER_ZERO \<Longrightarrow> CHR ''-'' \<notin> set (operator_text oper)"
  using operator_texts_dash operator_cases by (auto simp: list_all_iff)

text \<open>The operation with the mark of a partial reduction.\<close>

definition operation_mark :: "OPERATION \<Rightarrow> string \<Rightarrow> bool" where
  "operation_mark op ax \<longleftrightarrow> (if op = REDUCE_PARTIAL then ax \<in> {''_INNER'', ''_AXIS''} else ax = [])"

lemma operation_text_inj:
  assumes "operation_text a @ ax = operation_text b @ bx" and "operation_mark a ax" and "operation_mark b bx"
    and "a \<noteq> OP_ZERO" and "b \<noteq> OP_ZERO"
  shows "a = b \<and> ax = bx"
  using assms unfolding operation_mark_def by (cases a; cases b) auto

lemma operation_text_dash: "a \<noteq> OP_ZERO \<Longrightarrow> operation_mark a ax \<Longrightarrow> CHR ''-'' \<notin> set (operation_text a @ ax)"
  unfolding operation_mark_def by (cases a) auto

lemma operation_text_head: "a \<noteq> OP_ZERO \<Longrightarrow> \<exists>c cs. operation_text a = c # cs \<and> c \<noteq> CHR ''_'' \<and> c \<noteq> CHR ''~''"
  by (cases a) simp_all

subsection \<open>One operation\<close>

definition ids_text :: "nat list \<Rightarrow> string" where
  "ids_text ls = concat (map (\<lambda>l. CHR ''_'' # nat_text l) ls)"

lemma nat_text_underscore: "CHR ''_'' \<notin> set (nat_text n)"
  using set_nat_text [of n] by auto

lemma ids_text_inj:
  assumes "ids_text ls @ CHR ''_'' # r = ids_text ls' @ CHR ''_'' # r'" and "length ls = length ls'"
  shows "ls = ls' \<and> r = r'"
  using assms(2,1)
proof (induction ls ls' rule: list_induct2)
  case (Cons l ls l' ls')
  have ex: "\<exists>t. ids_text k @ CHR ''_'' # x = CHR ''_'' # t \<and> (t = x \<and> k = [] \<or> k \<noteq> [])" for k x
    by (cases k) (simp_all add: ids_text_def)
  obtain t t' where t: "ids_text ls @ CHR ''_'' # r = CHR ''_'' # t" "ids_text ls' @ CHR ''_'' # r' = CHR ''_'' # t'"
    using ex [of ls r] ex [of ls' r'] by blast
  have "nat_text l @ CHR ''_'' # t = nat_text l' @ CHR ''_'' # t'"
    using Cons.prems t by (simp add: ids_text_def)
  then have "nat_text l = nat_text l' \<and> t = t'" by (rule split_at [OF nat_text_underscore nat_text_underscore])
  then show ?case using Cons.IH t nat_text_inj by simp
qed (simp add: ids_text_def)

lemma ndim_symbol_inj:
  assumes "ndim_symbol m @ r = ndim_symbol n @ r'"
  shows "min 4 m = min 4 n \<and> r = r'"
proof -
  let ?t = "\<lambda>n. if n \<le> 3 then nat_text n else ''N''"
  have "CHR ''D'' \<notin> set (?t n)" for n using set_nat_text [of n] by auto
  then have "?t m = ?t n \<and> r = r'" using assms split_at [of "CHR ''D''" "?t m" "?t n" r r'] by (simp add: ndim_symbol_def)
  moreover have "nat_text k \<noteq> ''N''" for k using set_nat_text [of k] by auto
  ultimately show ?thesis using nat_text_inj [of m n] by (auto split: if_splits)
qed

definition tac_text :: "OPERATION \<Rightarrow> string \<Rightarrow> OPERATOR \<Rightarrow> nat \<Rightarrow> nat list \<Rightarrow> string" where
  "tac_text op ax oper n ls = operation_text op @ ax @ ''-'' @ operator_text oper @ ''-'' @ ndim_symbol n @ ids_text ls"

lemma tac_text_inj:
  assumes "tac_text op ax oper n ls @ CHR ''_'' # r = tac_text op' ax' oper' n' ls' @ CHR ''_'' # r'"
    and "op \<noteq> OP_ZERO" "op' \<noteq> OP_ZERO" "oper \<noteq> OPER_ZERO" "oper' \<noteq> OPER_ZERO" "operation_mark op ax" "operation_mark op' ax'"
    and "tac_noperands op oper = Inr (length ls)" "tac_noperands op' oper' = Inr (length ls')"
  shows "op = op' \<and> ax = ax' \<and> oper = oper' \<and> min 4 n = min 4 n' \<and> ls = ls' \<and> r = r'"
proof -
  let ?C = "ndim_symbol n @ ids_text ls @ CHR ''_'' # r" and ?C' = "ndim_symbol n' @ ids_text ls' @ CHR ''_'' # r'"
  have "(operation_text op @ ax) @ CHR ''-'' # operator_text oper @ CHR ''-'' # ?C =
      (operation_text op' @ ax') @ CHR ''-'' # operator_text oper' @ CHR ''-'' # ?C'"
    using assms(1) by (simp add: tac_text_def)
  then have 1: "operation_text op @ ax = operation_text op' @ ax'"
    "operator_text oper @ CHR ''-'' # ?C = operator_text oper' @ CHR ''-'' # ?C'"
    using split_at [OF operation_text_dash [OF assms(2,6)] operation_text_dash [OF assms(3,7)]] by blast+
  then have 2: "operator_text oper = operator_text oper'" "?C = ?C'" using split_at [OF operator_text_dash [OF assms(4)] operator_text_dash [OF assms(5)]] by blast+
  have 3: "op = op'" "ax = ax'" "oper = oper'"
    using operation_text_inj [OF 1(1) assms(6,7,2,3)] operator_text_inj [OF 2(1) assms(4,5)] by simp_all
  then have "length ls = length ls'" using assms(8,9) by simp
  then show ?thesis using ids_text_inj ndim_symbol_inj [OF 2(2)] 3 by blast
qed

subsection \<open>The operations of a block\<close>

text \<open>What the symbol shows of a TAC: the local index of each operand, the number of dimensions up to four.\<close>

definition tac_signature ::
  "program \<Rightarrow> operand_t list \<Rightarrow> block \<Rightarrow> tac_t \<Rightarrow> OPERATION \<times> (cpu_error + string) \<times> OPERATOR \<times> nat \<times> nat option list" where
  "tac_signature is tbl b tac = (tac_op tac, axis_symbol is tbl tac, tac_oper tac, min 4 (tac_ndim tbl tac),
     (case tac_operands tac of Inl e \<Rightarrow> [] | Inr gs \<Rightarrow> map (b_global_to_local b) (rev gs)))"

definition kernel_tacs :: "tac_t list \<Rightarrow> block \<Rightarrow> tac_t list" where
  "kernel_tacs prog b = filter (\<lambda>tac. tac_op tac \<noteq> SYSTEM \<and> tac_op tac \<noteq> EXTENSION) (map ((!) prog) (b_tacs b))"

definition proper_tac :: "tac_t \<Rightarrow> bool" where
  "proper_tac tac \<longleftrightarrow> tac_op tac \<noteq> OP_ZERO \<and> tac_oper tac \<noteq> OPER_ZERO"

lemma id_symbols_Inr:
  "id_symbols gs b = Inr s \<Longrightarrow> \<exists>ls. map (b_global_to_local b) gs = map Some ls \<and> s = ids_text ls"
proof (induction gs arbitrary: s)
  case Nil
  then show ?case by (simp add: ids_text_def)
next
  case (Cons g gs)
  obtain l where l: "b_global_to_local b g = Some l" using Cons.prems by (auto simp: global_to_local_def split: option.splits)
  then obtain s' where s': "id_symbols gs b = Inr s'" "s = CHR ''_'' # nat_text l @ s'"
    using Cons.prems by (cases "id_symbols gs b") (auto simp: global_to_local_def)
  obtain ls where "map (b_global_to_local b) gs = map Some ls" "s' = ids_text ls" using Cons.IH [OF s'(1)] by blast
  then show ?case using l s'(2) by (intro exI [of _ "l # ls"]) (simp add: ids_text_def)
qed

lemma axis_symbol_mark: "axis_symbol is tbl tac = Inr ax \<Longrightarrow> operation_mark (tac_op tac) ax"
proof -
  have "op_in op (operation_code REDUCE_PARTIAL) \<longleftrightarrow> op = REDUCE_PARTIAL" for op by (cases op) (simp_all add: op_in_def)
  then show "axis_symbol is tbl tac = Inr ax \<Longrightarrow> operation_mark (tac_op tac) ax"
    by (auto simp: axis_symbol_def operation_mark_def split: if_splits option.splits)
qed

lemma tac_operands_length:
  "tac_operands tac = Inr gs \<Longrightarrow> tac_noperands (tac_op tac) (tac_oper tac) = Inr (length gs)"
proof -
  have "n \<le> 3" if "tac_noperands op oper = Inr n" for op oper n using that by (cases op) (auto split: OPERATOR.splits)
  then show "tac_operands tac = Inr gs \<Longrightarrow> ?thesis"
    by (cases "tac_noperands (tac_op tac) (tac_oper tac)") (fastforce simp: tac_operands_def split: if_splits)+
qed

lemma tac_symbol_text:
  assumes "tac_symbol is tbl b tac = Inr s"
  obtains ax ls where "tac_signature is tbl b tac = (tac_op tac, Inr ax, tac_oper tac, min 4 (tac_ndim tbl tac), map Some ls)"
    "s = tac_text (tac_op tac) ax (tac_oper tac) (tac_ndim tbl tac) ls" "operation_mark (tac_op tac) ax"
    "tac_noperands (tac_op tac) (tac_oper tac) = Inr (length ls)"
proof -
  obtain ax where ax: "axis_symbol is tbl tac = Inr ax" using assms by (auto simp: tac_symbol_def split: sum.splits)
  obtain gs where gs: "tac_operands tac = Inr gs" using assms ax by (auto simp: tac_symbol_def split: sum.splits)
  obtain ids where ids: "id_symbols (rev gs) b = Inr ids"
    "s = operation_text (tac_op tac) @ ax @ ''-'' @ operator_text (tac_oper tac) @ ''-'' @ ndim_symbol (tac_ndim tbl tac) @ ids"
    using assms ax gs by (cases "id_symbols (rev gs) b") (auto simp: tac_symbol_def)
  obtain ls where ls: "map (b_global_to_local b) (rev gs) = map Some ls" "ids = ids_text ls" using id_symbols_Inr [OF ids(1)] by blast
  have "length ls = length gs" using arg_cong [OF ls(1), of length] by simp
  then show ?thesis using that [of ax ls] ax gs ids(2) ls axis_symbol_mark [OF ax] tac_operands_length [OF gs]
    by (simp add: tac_signature_def tac_text_def)
qed

lemma tac_symbol_head:
  assumes "tac_symbol is tbl b tac = Inr s" and "proper_tac tac"
  shows "\<exists>c cs. s = c # cs \<and> c \<noteq> CHR ''_'' \<and> c \<noteq> CHR ''~''"
  using tac_symbol_text [OF assms(1)] operation_text_head [of "tac_op tac"] assms(2)
  by (metis append_Cons proper_tac_def tac_text_def)

lemma tac_symbol_inj:
  assumes "tac_symbol is tbl b tac = Inr s" and "tac_symbol is' tbl' b' tac' = Inr s'" and "proper_tac tac" and "proper_tac tac'"
    and "s @ CHR ''_'' # r = s' @ CHR ''_'' # r'"
  shows "tac_signature is tbl b tac = tac_signature is' tbl' b' tac' \<and> r = r'"
proof -
  from tac_symbol_text [OF assms(1)] obtain ax ls where
    1: "tac_signature is tbl b tac = (tac_op tac, Inr ax, tac_oper tac, min 4 (tac_ndim tbl tac), map Some ls)"
      "s = tac_text (tac_op tac) ax (tac_oper tac) (tac_ndim tbl tac) ls" "operation_mark (tac_op tac) ax"
      "tac_noperands (tac_op tac) (tac_oper tac) = Inr (length ls)" .
  from tac_symbol_text [OF assms(2)] obtain ax' ls' where
    2: "tac_signature is' tbl' b' tac' = (tac_op tac', Inr ax', tac_oper tac', min 4 (tac_ndim tbl' tac'), map Some ls')"
      "s' = tac_text (tac_op tac') ax' (tac_oper tac') (tac_ndim tbl' tac') ls'" "operation_mark (tac_op tac') ax'"
      "tac_noperands (tac_op tac') (tac_oper tac') = Inr (length ls')" .
  show ?thesis using tac_text_inj [OF assms(5) [unfolded 1(2) 2(2)]] assms(3,4) 1 2 by (simp add: proper_tac_def)
qed

lemma map_sum_eq_Inr: "map_sum id f x = Inr y \<longleftrightarrow> (\<exists>z. x = Inr z \<and> y = f z)"
  by (cases x) auto

fun tac_texts :: "program \<Rightarrow> operand_t list \<Rightarrow> block \<Rightarrow> tac_t list \<Rightarrow> cpu_error + string list" where
  "tac_texts is tbl b [] = Inr []"
| "tac_texts is tbl b (tac # tacs) =
     (case tac_symbol is tbl b tac of Inl e \<Rightarrow> Inl e | Inr s \<Rightarrow> map_sum id ((#) s) (tac_texts is tbl b tacs))"

lemma tacs_symbol_texts:
  assumes "tacs_symbol is tbl prog b idxs first = Inr s"
  shows "\<exists>ss. tac_texts is tbl b (filter (\<lambda>tac. tac_op tac \<noteq> SYSTEM \<and> tac_op tac \<noteq> EXTENSION) (map ((!) prog) idxs)) = Inr ss \<and>
    (if ss = [] then s = [] else (if first then [] else ''_'') @ concat (map (\<lambda>t. t @ ''_'') ss) = s @ ''_'')"
  using assms
proof (induction idxs arbitrary: first s)
  case (Cons i idxs)
  show ?case
  proof (cases "tac_op (prog ! i) = SYSTEM \<or> tac_op (prog ! i) = EXTENSION")
    case True
    then show ?thesis using Cons by auto
  next
    case False
    then obtain t rest where t: "tac_symbol is tbl b (prog ! i) = Inr t" "tacs_symbol is tbl prog b idxs False = Inr rest"
      "s = (if first then [] else ''_'') @ t @ rest"
      using Cons.prems by (cases "tac_symbol is tbl b (prog ! i)"; cases "tacs_symbol is tbl prog b idxs False") (auto simp: Let_def)
    from Cons.IH [OF t(2)] obtain ss where ss: "tac_texts is tbl b (filter (\<lambda>tac. tac_op tac \<noteq> SYSTEM \<and> tac_op tac \<noteq> EXTENSION) (map ((!) prog) idxs)) = Inr ss"
      "if ss = [] then rest = [] else ''_'' @ concat (map (\<lambda>t. t @ ''_'') ss) = rest @ ''_''"
      unfolding if_False by blast
    then show ?thesis using t False by (intro exI [of _ "t # ss"]) (auto split: if_splits)
  qed
qed auto

lemma tac_texts_inj:
  assumes "tac_texts is tbl b tacs = Inr ss" and "tac_texts is' tbl' b' tacs' = Inr ss'"
    and "list_all proper_tac tacs" and "list_all proper_tac tacs'"
    and "concat (map (\<lambda>t. t @ ''_'') ss) @ r = concat (map (\<lambda>t. t @ ''_'') ss') @ r'"
    and "r = [] \<or> hd r = CHR ''~''" and "r' = [] \<or> hd r' = CHR ''~''"
  shows "map (tac_signature is tbl b) tacs = map (tac_signature is' tbl' b') tacs' \<and> r = r'"
  using assms
proof (induction tacs arbitrary: ss tacs' ss')
  case Nil
  then show ?case
  proof (cases tacs')
    case (Cons tac' rest')
    then obtain t' ss1 where "tac_symbol is' tbl' b' tac' = Inr t'" "ss' = t' # ss1" "proper_tac tac'"
      using Nil.prems(2,4) by (auto split: sum.splits simp: map_sum_eq_Inr)
    then show ?thesis using Nil.prems(1,5,6) tac_symbol_head by fastforce
  qed auto
next
  case (Cons tac tacs)
  obtain t ss1 where t: "tac_symbol is tbl b tac = Inr t" "tac_texts is tbl b tacs = Inr ss1" "ss = t # ss1" "proper_tac tac"
    using Cons.prems(1,3) by (auto split: sum.splits simp: map_sum_eq_Inr)
  show ?case
  proof (cases tacs')
    case Nil
    then show ?thesis using Cons.prems(2,5,7) t tac_symbol_head by fastforce
  next
    case (Cons tac' rest')
    obtain t' ss1' where t': "tac_symbol is' tbl' b' tac' = Inr t'" "tac_texts is' tbl' b' rest' = Inr ss1'" "ss' = t' # ss1'" "proper_tac tac'"
      using Cons.prems(2,4) Cons by (auto split: sum.splits simp: map_sum_eq_Inr)
    let ?r = "concat (map (\<lambda>t. t @ ''_'') ss1) @ r" and ?r' = "concat (map (\<lambda>t. t @ ''_'') ss1') @ r'"
    have "t @ CHR ''_'' # ?r = t' @ CHR ''_'' # ?r'" using Cons.prems(5) t(3) t'(3) by simp
    then have "tac_signature is tbl b tac = tac_signature is' tbl' b' tac' \<and> ?r = ?r'"
      by (rule tac_symbol_inj [OF t(1) t'(1) t(4) t'(4)])
    then show ?thesis using Cons.IH [OF t(2) t'(2)] Cons.prems(3,4,6,7) Cons by simp
  qed
qed

subsection \<open>The operands of a block\<close>

definition operand_signature :: "operand_t list \<Rightarrow> block \<Rightarrow> nat \<Rightarrow> LAYOUT \<times> ETYPE \<times> bool" where
  "operand_signature tbl b i =
     (let opd = tbl ! (b_operands b ! i) in (layout opd, etype opd, base_refcount (obase opd) b = 1))"

definition operand_text :: "LAYOUT \<times> ETYPE \<times> bool \<Rightarrow> string" where
  "operand_text x = (case x of (l, e, r) \<Rightarrow> layout_text_shand l @ etype_text_shand e @ (if r then ''R'' else ''A''))"

lemma operand_symbol_text: "operand_symbol tbl b i = ''~'' @ nat_text i @ operand_text (operand_signature tbl b i)"
  by (simp add: operand_symbol_def operand_text_def operand_signature_def Let_def)

lemma layout_text_shand_length: "length (layout_text_shand l) = 4" and etype_text_shand_length: "length (etype_text_shand e) = 1"
  by (cases l; simp) (cases e; simp)

lemma layout_text_shand_inj: "layout_text_shand l = layout_text_shand l' \<Longrightarrow> l = l'"
  by (cases l; cases l') simp_all

lemma etype_text_shand_inj: "etype_text_shand e = etype_text_shand e' \<Longrightarrow> e = e'"
  by (cases e; cases e') simp_all

lemma operand_text_inj:
  assumes "operand_text x @ r = operand_text y @ r'"
  shows "x = y \<and> r = r'"
proof -
  obtain l e a where x: "x = (l, e, a)" by (cases x)
  obtain l' e' a' where y: "y = (l', e', a')" by (cases y)
  let ?f = "\<lambda>a. if a then ''R'' else ''A''"
  have "layout_text_shand l @ etype_text_shand e @ ?f a @ r = layout_text_shand l' @ etype_text_shand e' @ ?f a' @ r'"
    using assms x y by (simp add: operand_text_def)
  then have 1: "layout_text_shand l = layout_text_shand l'" "etype_text_shand e @ ?f a @ r = etype_text_shand e' @ ?f a' @ r'"
    using append_eq_append_conv [of "layout_text_shand l" "layout_text_shand l'"] by (simp_all add: layout_text_shand_length)
  then have 2: "etype_text_shand e = etype_text_shand e'" "?f a @ r = ?f a' @ r'"
    using append_eq_append_conv [of "etype_text_shand e" "etype_text_shand e'"] by (simp_all add: etype_text_shand_length)
  show ?thesis using layout_text_shand_inj [OF 1(1)] etype_text_shand_inj [OF 2(1)] 2(2) x y by (auto split: if_splits)
qed

lemma operands_text_inj:
  assumes "concat (map (\<lambda>i. ''~'' @ nat_text i @ operand_text (f i)) [k..<m]) = concat (map (\<lambda>i. ''~'' @ nat_text i @ operand_text (g i)) [k..<n])"
    and "k \<le> m" and "k \<le> n"
  shows "m = n \<and> (\<forall>i. k \<le> i \<and> i < m \<longrightarrow> f i = g i)"
  using assms
proof (induction "m - k" arbitrary: k)
  case 0
  then show ?case by (cases "k < n") (auto simp: upt_conv_Cons)
next
  case (Suc d)
  then have k: "k < m" by simp
  moreover have n: "k < n" using Suc.prems k by (cases "k < n") (simp_all add: upt_conv_Cons)
  ultimately have eq: "f k = g k \<and> concat (map (\<lambda>i. ''~'' @ nat_text i @ operand_text (f i)) [Suc k..<m]) =
      concat (map (\<lambda>i. ''~'' @ nat_text i @ operand_text (g i)) [Suc k..<n])"
    using Suc.prems(1) operand_text_inj [of "f k"] by (simp add: upt_conv_Cons)
  have "d = m - Suc k" using Suc.hyps(2) by simp
  from Suc.hyps(1) [OF this] have rest: "m = n" "\<forall>i. Suc k \<le> i \<and> i < m \<longrightarrow> f i = g i" using eq k n by simp_all
  have "f i = g i" if "k \<le> i" "i < m" for i using that rest(2) eq by (cases "i = k") simp_all
  then show ?case using rest(1) by simp
qed

subsection \<open>The symbol\<close>

lemma tac_texts_Nil: "tac_texts is tbl b tacs = Inr [] \<Longrightarrow> tacs = []"
  by (cases tacs) (auto simp: map_sum_eq_Inr split: sum.splits)

lemma tac_texts_head:
  assumes "tac_texts is tbl b tacs = Inr ss" and "list_all proper_tac tacs" and "ss \<noteq> []"
  shows "hd (concat (map (\<lambda>t. t @ ''_'') ss) @ r) \<noteq> CHR ''_''"
proof (cases tacs)
  case (Cons tac rest)
  then obtain t ss1 where t: "tac_symbol is tbl b tac = Inr t" "ss = t # ss1" "proper_tac tac"
    using assms by (auto split: sum.splits simp: map_sum_eq_Inr)
  obtain c cs where "t = c # cs" "c \<noteq> CHR ''_''" using tac_symbol_head [OF t(1,3)] by blast
  then show ?thesis using t(2) by simp
qed (use assms in simp)

lemma operands_text_head:
  "concat (map (operand_symbol tbl b) [0..<n]) = [] \<or> hd (concat (map (operand_symbol tbl b) [0..<n])) = CHR ''~''"
  by (cases n) (simp_all add: upt_conv_Cons operand_symbol_text del: upt_Suc)

text \<open>
  C10. The symbol of a block determines the structure its kernel is generated from. Blocks of any two programs with the
  same symbol text have, in order, the same operations and operators on the same local operands, with the same number of
  dimensions (above three they are not told apart) and the same kind of reduction axis, and the same list of
  operands with layout, element type and permission to assume no aliasing.
\<close>

theorem symbolize_unambiguous:
  assumes "symbolize is tbl prog b = Inr c" and "symbolize is' tbl' prog' b' = Inr c'" and "b_symbol_text c = b_symbol_text c'"
    and "list_all proper_tac (kernel_tacs prog b)" and "list_all proper_tac (kernel_tacs prog' b')"
  shows "map (tac_signature is tbl b) (kernel_tacs prog b) = map (tac_signature is' tbl' b') (kernel_tacs prog' b') \<and>
    map (operand_signature tbl b) [0..<length (b_operands b)] = map (operand_signature tbl' b') [0..<length (b_operands b')]"
proof -
  let ?O = "\<lambda>tbl b. concat (map (operand_symbol tbl b) [0..<length (b_operands b)])"
  let ?C = "\<lambda>ss. concat (map (\<lambda>t. t @ ''_'') ss)"
  have shape: "\<exists>ss. tac_texts is tbl b (kernel_tacs prog b) = Inr ss \<and> b_symbol_text c = (if ss = [] then ''_'' else ?C ss) @ ?O tbl b"
    if sym: "symbolize is tbl prog b = Inr c" for "is" tbl prog b c
  proof -
    obtain s where s: "tacs_symbol is tbl prog b (b_tacs b) True = Inr s" "b_symbol_text c = s @ ''_'' @ ?O tbl b"
      using sym by (cases "tacs_symbol is tbl prog b (b_tacs b) True") (auto simp: symbolize_def Let_def)
    obtain ss where "tac_texts is tbl b (kernel_tacs prog b) = Inr ss" "if ss = [] then s = [] else [] @ ?C ss = s @ ''_''"
      using tacs_symbol_texts [OF s(1)] unfolding kernel_tacs_def if_True by blast
    moreover from this(2) have "s @ ''_'' = (if ss = [] then ''_'' else ?C ss)" by (cases "ss = []") simp_all
    then have "b_symbol_text c = (if ss = [] then ''_'' else ?C ss) @ ?O tbl b" using s(2) by (simp only: append_assoc [symmetric])
    ultimately show ?thesis by blast
  qed
  obtain ss where ss: "tac_texts is tbl b (kernel_tacs prog b) = Inr ss" "b_symbol_text c = (if ss = [] then ''_'' else ?C ss) @ ?O tbl b"
    using shape [OF assms(1)] by blast
  obtain ss' where ss': "tac_texts is' tbl' b' (kernel_tacs prog' b') = Inr ss'" "b_symbol_text c' = (if ss' = [] then ''_'' else ?C ss') @ ?O tbl' b'"
    using shape [OF assms(2)] by blast
  have "ss = [] \<longleftrightarrow> ss' = []"
    using arg_cong [OF assms(3), of hd] ss(2) ss'(2) tac_texts_head [OF ss(1) assms(4)] tac_texts_head [OF ss'(1) assms(5)]
    by (cases "ss = []"; cases "ss' = []") auto
  moreover have "?C ss @ ?O tbl b = ?C ss' @ ?O tbl' b'" using assms(3) ss(2) ss'(2) calculation by (cases "ss = []") auto
  ultimately have "map (tac_signature is tbl b) (kernel_tacs prog b) = map (tac_signature is' tbl' b') (kernel_tacs prog' b') \<and> ?O tbl b = ?O tbl' b'"
    using tac_texts_inj [OF ss(1) ss'(1) assms(4,5)] operands_text_head by blast
  moreover have "map (operand_signature tbl b) [0..<length (b_operands b)] = map (operand_signature tbl' b') [0..<length (b_operands b')]"
    using operands_text_inj [of "operand_signature tbl b" 0 "length (b_operands b)" "operand_signature tbl' b'" "length (b_operands b')"] calculation
    by (simp add: operand_symbol_text [abs_def])
  ultimately show ?thesis by blast
qed

text \<open>\<^verbatim>\<open>q = sqrt(p)\<close> on contiguous arrays: two symbols, one TAC, and the block made of it.\<close>

definition sqrt_operand :: "ptr \<Rightarrow> operand_t" where
  "sqrt_operand p = \<lparr>layout = CONTIGUOUS, odata = BaseData p, const_data = None, etype = FLOAT64, ostart = 0, onelem = 3, ondim = 1,
     oshape = ShapeOf 0 0, ostride = StrideOf 0 0, obase = p\<rparr>"

definition sqrt_program :: "tac_t list" where
  "sqrt_program = [\<lparr>tac_op = MAP, tac_oper = SQRT, tac_out = 1, tac_in1 = 0, tac_in2 = 0, tac_ext = None\<rparr>]"

definition sqrt_block :: "ptr \<Rightarrow> ptr \<Rightarrow> block" where
  "sqrt_block p q = \<lparr>b_tacs = [0], b_array_tacs = [0], b_operands = [0, 1], b_operands_cap = 3, b_omask = operation_code MAP,
     b_iterspace = \<lparr>it_layout = CONTIGUOUS, it_ndim = 1, it_shape = Some (ShapeOf 0 0), it_nelem = 3\<rparr>,
     b_global_to_local = [0 \<mapsto> 0, 1 \<mapsto> 1], b_local_to_global = [0 \<mapsto> 0, 1 \<mapsto> 1],
     b_base_refs = (\<lambda>_. {})(p := {0}, q := {1}), b_symbol_text = [], b_symbol = []\<rparr>"

lemma sqrt_symbol:
  assumes "p \<noteq> q"
  shows "\<exists>c. symbolize is [sqrt_operand p, sqrt_operand q] sqrt_program (sqrt_block p q) = Inr c \<and>
    b_symbol_text c = ''MAP-SQRT-1D_1_0_~0ACOTdR~1ACOTdR''"
proof -
  have t: "nat_text 0 = ''0''" "nat_text (Suc 0) = ''1''" by (subst nat_text.simps, simp add: digit_char_def)+
  then show ?thesis using assms by (simp add: symbolize_def sqrt_program_def sqrt_block_def tac_symbol_def axis_symbol_def op_in_def tac_operands_def
      global_to_local_def ndim_symbol_def tac_ndim_def sqrt_operand_def operand_symbol_def base_refcount_def Let_def)
qed

theorem symbolize_unambiguous_witness:
  "\<exists>c c'. symbolize [] [sqrt_operand 1, sqrt_operand 2] sqrt_program (sqrt_block 1 2) = Inr c \<and>
     symbolize [] [sqrt_operand 3, sqrt_operand 4] sqrt_program (sqrt_block 3 4) = Inr c' \<and> b_symbol_text c = b_symbol_text c' \<and>
     map (operand_signature [sqrt_operand 1, sqrt_operand 2] (sqrt_block 1 2)) [0..<2] =
       map (operand_signature [sqrt_operand 3, sqrt_operand 4] (sqrt_block 3 4)) [0..<2]"
proof -
  obtain c where c: "symbolize [] [sqrt_operand 1, sqrt_operand 2] sqrt_program (sqrt_block 1 2) = Inr c"
    "b_symbol_text c = ''MAP-SQRT-1D_1_0_~0ACOTdR~1ACOTdR''" using sqrt_symbol [of 1 2] by auto
  obtain c' where c': "symbolize [] [sqrt_operand 3, sqrt_operand 4] sqrt_program (sqrt_block 3 4) = Inr c'"
    "b_symbol_text c' = ''MAP-SQRT-1D_1_0_~0ACOTdR~1ACOTdR''" using sqrt_symbol [of 3 4] by auto
  have p: "list_all proper_tac (kernel_tacs sqrt_program (sqrt_block p q))" for p q
    by (simp add: kernel_tacs_def sqrt_program_def sqrt_block_def proper_tac_def)
  have n: "length (b_operands (sqrt_block p q)) = 2" for p q by (simp add: sqrt_block_def)
  have eq: "b_symbol_text c = b_symbol_text c'" using c(2) c'(2) by simp
  show ?thesis using symbolize_unambiguous [OF c(1) c'(1) eq p p] c(1) c'(1) eq unfolding n by blast
qed

end
