(* ===== verification/Cpu_Store.thy ===== *)
theory Cpu_Store
  imports Cpu_Tac Cpu_Hash Cpp_Map "HOL-Library.List_Lexorder" "HOL-Library.Char_ord"
begin

text \<open>
  The kernel store of the CPU engine, \<^verbatim>\<open>ve/cpu/store.cpp\<close>: which symbol lies in which library, the handles of opened
  libraries and the functions loaded from them. The dynamic linker and the file system are a parameter: a world \<open>'w\<close> and
  functions that read it. NULL is 0; \<open>dlsym\<close> returns \<open>None\<close> when \<^verbatim>\<open>dlerror\<close> reports an error.
\<close>

subsection \<open>State\<close>

record 'w dl_env =
  dlopen :: "'w \<Rightarrow> string \<Rightarrow> ptr"
  dlsym :: "'w \<Rightarrow> ptr \<Rightarrow> string \<Rightarrow> ptr option"
  opendir :: "'w \<Rightarrow> string \<Rightarrow> string list option"
  getlines :: "'w \<Rightarrow> string \<Rightarrow> string list"

record kernel_store =
  funcs :: "string \<rightharpoonup> ptr"
  handles :: "string \<rightharpoonup> ptr"
  libraries :: "(string, string) omap"
  object_directory :: string
  kernel_directory :: string
  uid :: string

definition kernel_prefix :: string where
  "kernel_prefix = ''KRN_''"

text \<open>The identifier consists of six random characters, the last of the seven is the terminator.\<close>

definition Store_new :: "(nat \<Rightarrow> char) \<Rightarrow> string \<Rightarrow> string \<Rightarrow> kernel_store" where
  "Store_new rand obj krn = \<lparr>funcs = Map.empty, handles = Map.empty, libraries = [], object_directory = obj,
     kernel_directory = krn, uid = map rand [0..<6]\<rparr>"

definition obj_filename :: "string \<Rightarrow> kernel_store \<Rightarrow> string" where
  "obj_filename symbol st = kernel_prefix @ symbol @ ''_'' @ uid st @ ''.so''"

definition obj_abspath :: "string \<Rightarrow> kernel_store \<Rightarrow> string" where
  "obj_abspath symbol st = object_directory st @ ''/'' @ obj_filename symbol st"

definition src_filename :: "string \<Rightarrow> kernel_store \<Rightarrow> string" where
  "src_filename symbol st = kernel_prefix @ symbol @ ''_'' @ uid st @ ''.c''"

definition src_abspath :: "string \<Rightarrow> kernel_store \<Rightarrow> string" where
  "src_abspath symbol st = kernel_directory st @ ''/'' @ src_filename symbol st"

definition symbol_ready :: "string \<Rightarrow> kernel_store \<Rightarrow> bool" where
  "symbol_ready symbol st \<longleftrightarrow> funcs st symbol \<noteq> None"

text \<open>\<^verbatim>\<open>insert\<close> keeps the library a symbol already has.\<close>

definition add_symbol :: "string \<Rightarrow> string \<Rightarrow> kernel_store \<Rightarrow> kernel_store" where
  "add_symbol symbol library st =
     (case omap_find (libraries st) symbol of
        Some _ \<Rightarrow> st
      | None \<Rightarrow> st\<lparr>libraries := omap_set symbol library (libraries st)\<rparr>)"

subsection \<open>Loading\<close>

text \<open>The function is stored before the error of \<^verbatim>\<open>dlsym\<close> is looked at; it is NULL then.\<close>

definition load_library :: "'w dl_env \<Rightarrow> 'w \<Rightarrow> string \<Rightarrow> string \<Rightarrow> kernel_store \<Rightarrow> bool \<times> kernel_store" where
  "load_library dl w symbol library st =
     (let opened =
        (case handles st library of
           Some h \<Rightarrow> Some (h, st)
         | None \<Rightarrow>
             (let h = dlopen dl w (object_directory st @ ''/'' @ library)
              in if h = NULL then None else Some (h, st\<lparr>handles := (handles st)(library \<mapsto> h)\<rparr>)))
      in case opened of
           None \<Rightarrow> (False, st)
         | Some (h, st) \<Rightarrow>
             (case dlsym dl w h (kernel_prefix @ symbol) of
                Some f \<Rightarrow> (True, st\<lparr>funcs := (funcs st)(symbol \<mapsto> f)\<rparr>)
              | None \<Rightarrow> (False, st\<lparr>funcs := (funcs st)(symbol \<mapsto> NULL)\<rparr>)))"

text \<open>\<^verbatim>\<open>libraries_[symbol]\<close> enters the empty name for a symbol without a library.\<close>

definition store_load :: "'w dl_env \<Rightarrow> 'w \<Rightarrow> string \<Rightarrow> kernel_store \<Rightarrow> bool \<times> kernel_store" where
  "store_load dl w symbol st =
     (case omap_find (libraries st) symbol of
        Some library \<Rightarrow> load_library dl w symbol library st
      | None \<Rightarrow> load_library dl w symbol [] (st\<lparr>libraries := omap_set symbol [] (libraries st)\<rparr>))"

subsection \<open>Preloading\<close>

definition has_suffix :: "string \<Rightarrow> string \<Rightarrow> bool" where
  "has_suffix filename sfx \<longleftrightarrow> drop (length filename - length sfx) filename = sfx"

text \<open>The first pass: the symbols listed in index files.\<close>

definition index_entry :: "'w dl_env \<Rightarrow> 'w \<Rightarrow> string \<Rightarrow> kernel_store \<Rightarrow> kernel_store" where
  "index_entry dl w filename st =
     (if length filename < 14 then st
      else if has_suffix filename ''.idx'' then
        (let library = take (length filename - 4) filename @ ''.so''
         in fold (\<lambda>symbol. add_symbol symbol library) (getlines dl w (object_directory st @ ''/'' @ filename)) st)
      else st)"

text \<open>The second pass: libraries with a single symbol, which is part of the file name.\<close>

definition kernel_entry :: "string \<Rightarrow> kernel_store \<Rightarrow> kernel_store" where
  "kernel_entry filename st =
     (if length filename < 14 then st
      else if take (length kernel_prefix) filename = kernel_prefix \<and> has_suffix filename ''.so'' then
        add_symbol (take (length filename - 10 - length kernel_prefix) (drop (length kernel_prefix) filename)) filename st
      else st)"

text \<open>The last pass loads every symbol until one fails.\<close>

fun load_loop :: "'w dl_env \<Rightarrow> 'w \<Rightarrow> (string \<times> string) list \<Rightarrow> nat \<Rightarrow> kernel_store \<Rightarrow> nat \<times> kernel_store" where
  "load_loop dl w [] nloaded st = (nloaded, st)"
| "load_loop dl w ((symbol, library) # ls) nloaded st =
     (let (res, st) = load_library dl w symbol library st
      in if res then load_loop dl w ls (Suc nloaded) st else (nloaded, st))"

definition preload :: "'w dl_env \<Rightarrow> 'w \<Rightarrow> kernel_store \<Rightarrow> cpu_error + nat \<times> kernel_store" where
  "preload dl w st =
     (case opendir dl w (object_directory st) of
        None \<Rightarrow> Inl Runtime_error
      | Some ents \<Rightarrow>
          (let st = fold kernel_entry ents (fold (index_entry dl w) ents st)
           in Inr (load_loop dl w (libraries st) 0 st)))"

subsection \<open>Names of object files\<close>

lemma obj_filename_symbol:
  assumes "length (uid st) = 6"
  shows "kernel_entry (obj_filename symbol st) st' = add_symbol symbol (obj_filename symbol st) st'"
proof -
  let ?f = "obj_filename symbol st"
  have "length ?f = length symbol + 14" using assms by (simp add: obj_filename_def kernel_prefix_def)
  moreover have "has_suffix ?f ''.so''" by (simp add: has_suffix_def obj_filename_def)
  ultimately show ?thesis by (simp add: kernel_entry_def obj_filename_def kernel_prefix_def)
qed

lemma object_directory_new: "object_directory (Store_new rand obj krn) = obj"
  by (simp add: Store_new_def)

lemma length_uid_new [simp]: "length (uid (Store_new rand obj krn)) = 6"
  by (simp add: Store_new_def)

subsection \<open>What preloading leaves alone\<close>

lemma add_symbol_simps [simp]:
  "object_directory (add_symbol s l st) = object_directory st" "funcs (add_symbol s l st) = funcs st" "handles (add_symbol s l st) = handles st"
  by (simp_all add: add_symbol_def split: option.splits)

lemma find_add_symbol:
  "omap_find (libraries (add_symbol s l st)) s' =
     (if s' = s \<and> omap_find (libraries st) s = None then Some l else omap_find (libraries st) s')"
  by (auto simp: add_symbol_def omap_find_set split: option.splits)

lemma omap_inv_add_symbol: "omap_inv (libraries st) \<Longrightarrow> omap_inv (libraries (add_symbol s l st))"
  by (simp add: add_symbol_def omap_inv_set split: option.splits)

text \<open>Both passes only enter symbols.\<close>

definition grows :: "kernel_store \<Rightarrow> kernel_store \<Rightarrow> bool" where
  "grows st st' \<longleftrightarrow> object_directory st' = object_directory st \<and> funcs st' = funcs st \<and> handles st' = handles st \<and>
     (omap_inv (libraries st) \<longrightarrow> omap_inv (libraries st')) \<and>
     (\<forall>s l. omap_find (libraries st) s = Some l \<longrightarrow> omap_find (libraries st') s = Some l)"

lemma grows_refl [simp]: "grows st st"
  by (simp add: grows_def)

lemma grows_trans: "grows a b \<Longrightarrow> grows b c \<Longrightarrow> grows a c"
  by (auto simp: grows_def)

lemma grows_add_symbol [simp]: "grows st (add_symbol s l st)"
  by (auto simp: grows_def find_add_symbol omap_inv_add_symbol)

lemma grows_fold: "(\<And>x st. grows st (f x st)) \<Longrightarrow> grows st (fold f xs st)"
  by (induction xs arbitrary: st) (auto intro: grows_trans)

lemma grows_index_entry: "grows st (index_entry dl w e st)"
  by (auto simp: index_entry_def Let_def intro: grows_fold)

lemma grows_kernel_entry: "grows st (kernel_entry e st)"
  by (simp add: kernel_entry_def)

lemma kernel_entries_find:
  assumes "obj_filename s st0 \<in> set ents" and "length (uid st0) = 6"
  shows "omap_find (libraries (fold kernel_entry ents st)) s \<noteq> None"
proof -
  obtain ys zs where ents: "ents = ys @ obj_filename s st0 # zs" using assms(1) by (meson split_list)
  let ?st = "fold kernel_entry ys st"
  have "omap_find (libraries (kernel_entry (obj_filename s st0) ?st)) s \<noteq> None"
    using obj_filename_symbol [OF assms(2)] by (auto simp: find_add_symbol)
  moreover have "grows (kernel_entry (obj_filename s st0) ?st) (fold kernel_entry ents st)"
    unfolding ents by (simp add: grows_fold grows_kernel_entry)
  ultimately show ?thesis by (auto simp: grows_def)
qed

subsection \<open>Loading everything\<close>

definition dl_ok :: "'w dl_env \<Rightarrow> 'w \<Rightarrow> string \<Rightarrow> bool" where
  "dl_ok dl w dir \<longleftrightarrow> (\<forall>l. dlopen dl w (dir @ ''/'' @ l) \<noteq> NULL) \<and> (\<forall>h s. h \<noteq> NULL \<longrightarrow> (\<exists>f. dlsym dl w h s = Some f \<and> f \<noteq> NULL))"

definition handles_ok :: "'w dl_env \<Rightarrow> 'w \<Rightarrow> kernel_store \<Rightarrow> bool" where
  "handles_ok dl w st \<longleftrightarrow> (\<forall>l h. handles st l = Some h \<longrightarrow> h = dlopen dl w (object_directory st @ ''/'' @ l))"

lemma load_library_ok:
  assumes "dl_ok dl w (object_directory st)" and "handles_ok dl w st"
  shows "\<exists>st'. load_library dl w s l st = (True, st') \<and>
    funcs st' = (funcs st)(s := dlsym dl w (dlopen dl w (object_directory st @ ''/'' @ l)) (kernel_prefix @ s)) \<and>
    libraries st' = libraries st \<and> object_directory st' = object_directory st \<and> handles_ok dl w st'"
proof -
  let ?h = "dlopen dl w (object_directory st @ ''/'' @ l)"
  obtain f where "?h \<noteq> NULL" "dlsym dl w ?h (kernel_prefix @ s) = Some f" using assms(1) unfolding dl_ok_def by blast
  then show ?thesis using assms(2) by (cases "handles st l") (auto simp: load_library_def handles_ok_def Let_def)
qed

lemma load_loop_ok:
  assumes "dl_ok dl w (object_directory st)" and "handles_ok dl w st" and "distinct (map fst ls)"
  shows "\<exists>st'. load_loop dl w ls n st = (n + length ls, st') \<and> libraries st' = libraries st \<and>
    funcs st' = (\<lambda>s. case map_of ls s of
       Some l \<Rightarrow> dlsym dl w (dlopen dl w (object_directory st @ ''/'' @ l)) (kernel_prefix @ s) | None \<Rightarrow> funcs st s)"
  using assms
proof (induction ls arbitrary: n st)
  case (Cons e ls)
  obtain s l where e: "e = (s, l)" by (cases e)
  obtain st1 where 1: "load_library dl w s l st = (True, st1)"
    "funcs st1 = (funcs st)(s := dlsym dl w (dlopen dl w (object_directory st @ ''/'' @ l)) (kernel_prefix @ s))"
    "libraries st1 = libraries st" "object_directory st1 = object_directory st" "handles_ok dl w st1"
    using load_library_ok [OF Cons.prems(1,2), of s l] by blast
  have s: "map_of ls s = None" using Cons.prems(3) e by (simp add: map_of_eq_None_iff)
  have "dl_ok dl w (object_directory st1)" "distinct (map fst ls)" using Cons.prems 1(4) by simp_all
  from Cons.IH [OF this(1) 1(5) this(2), of "Suc n"] obtain st' where st': "load_loop dl w ls (Suc n) st1 = (Suc n + length ls, st')"
    "libraries st' = libraries st1"
    "funcs st' = (\<lambda>s. case map_of ls s of
       Some l \<Rightarrow> dlsym dl w (dlopen dl w (object_directory st1 @ ''/'' @ l)) (kernel_prefix @ s) | None \<Rightarrow> funcs st1 s)" by blast
  have "load_loop dl w (e # ls) n st = (n + length (e # ls), st')" using 1(1) st'(1) e by simp
  moreover have "funcs st' = (\<lambda>s. case map_of (e # ls) s of
       Some l \<Rightarrow> dlsym dl w (dlopen dl w (object_directory st @ ''/'' @ l)) (kernel_prefix @ s) | None \<Rightarrow> funcs st s)"
    using s unfolding st'(3) 1(2,4) e by (intro ext) (simp split: option.splits)
  ultimately show ?case using st'(2) 1(3) by simp
qed simp

lemma omap_find_map_of: "omap_find m k = map_of m k"
  by (induction m) auto

lemma omap_inv_distinct: "omap_inv m \<Longrightarrow> distinct (map fst m)"
  by (simp add: omap_inv_def strict_sorted_iff)

text \<open>A symbol entered by the second pass comes from the name of a file.\<close>

lemma kernel_entries_origin:
  "omap_find (libraries (fold kernel_entry ents st)) s = Some l \<Longrightarrow>
     omap_find (libraries st) s = Some l \<or> l \<in> set ents \<and> (\<exists>t. length t = 10 \<and> l = kernel_prefix @ s @ t)"
proof (induction ents arbitrary: st)
  case (Cons f ents)
  then have "omap_find (libraries (kernel_entry f st)) s = Some l \<or> l \<in> set ents \<and> (\<exists>t. length t = 10 \<and> l = kernel_prefix @ s @ t)" by simp
  moreover have "omap_find (libraries st) s = Some l \<or> l = f \<and> (\<exists>t. length t = 10 \<and> l = kernel_prefix @ s @ t)"
    if "omap_find (libraries (kernel_entry f st)) s = Some l"
  proof (cases "omap_find (libraries st) s = Some l")
    case False
    let ?n = "length f - 10 - length kernel_prefix" and ?g = "drop (length kernel_prefix) f"
    have "14 \<le> length f" "take (length kernel_prefix) f = kernel_prefix" "s = take ?n ?g" "l = f"
      using that False by (auto simp: kernel_entry_def find_add_symbol split: if_splits)
    moreover from this have "length (drop ?n ?g) = 10" by (simp add: kernel_prefix_def)
    moreover have "l = kernel_prefix @ s @ drop ?n ?g"
      using calculation(2-4) append_take_drop_id [of "length kernel_prefix" f] append_take_drop_id [of ?n ?g] by metis
    ultimately show ?thesis by blast
  qed simp
  ultimately show ?case by auto
qed simp


text \<open>A directory with one kernel.\<close>

definition one_kernel :: "unit dl_env" where
  "one_kernel = \<lparr>dlopen = (\<lambda>_ _. 1), dlsym = (\<lambda>_ _ _. Some 2), opendir = (\<lambda>_ _. Some [''KRN_ab_Xy4711.so'']), getlines = (\<lambda>_ _. [])\<rparr>"


end
