(* ===== verification/Cpu_Engine.thy ===== *)
theory Cpu_Engine
  imports Cpu_Compose Cpu_Store Bh_Memory Bh_Ir
begin

text \<open>
  The CPU engine, \<^verbatim>\<open>ve/cpu/engine.cpp\<close>: every kernel of a batch becomes a block, whose compiled function is looked up in
  the store (and generated, compiled and loaded first if needed), called after the arrays it writes have been allocated,
  and the arrays the batch releases are released afterwards.

  \<^item> The world \<open>'w\<close> is what the engine cannot see: the contents of the arrays, files and the dynamic linker. The code
    generator (\<^verbatim>\<open>codegen::Kernel::generate_source\<close>), the C compiler, the loaded functions and the extension methods are
    parameters that read and change it.
  \<^item> \<open>est_calls\<close> records the kernels that were called, with the base arrays as they were at the call.
  \<^item> \<open>None\<close> is an exception, a bad pointer, or a call through NULL.

  Messages, timers and the thread control are left out.
\<close>

subsection \<open>State\<close>

record kernel_call =
  kc_fun :: ptr
  kc_operands :: "operand_t list"
  kc_iterspace :: iterspace_t
  kc_outputs :: "ptr list"
  kc_bases :: "ptr \<rightharpoonup> bh_base"

record 'w engine_state =
  est_mem :: mem_state
  est_store :: kernel_store
  est_world :: 'w
  est_calls :: "kernel_call list"

type_synonym 'w extmethod = "bh_instruction \<Rightarrow> mem_state \<Rightarrow> 'w \<Rightarrow> bh_error \<times> mem_state \<times> 'w"

record 'w cpu_env =
  env_os :: os_mem
  env_dl :: "'w dl_env"
  generate_source :: "program \<Rightarrow> operand_t list \<Rightarrow> tac_t list \<Rightarrow> block \<Rightarrow> string"
  write_file :: "string \<Rightarrow> string \<Rightarrow> 'w \<Rightarrow> 'w"
  compile_file :: "string \<Rightarrow> string \<Rightarrow> 'w \<Rightarrow> bool \<times> 'w"
  compile_text :: "string \<Rightarrow> string \<Rightarrow> 'w \<Rightarrow> bool \<times> 'w"
  call_kernel :: "ptr \<Rightarrow> operand_t list \<Rightarrow> iterspace_t \<Rightarrow> mem_state \<Rightarrow> 'w \<Rightarrow> 'w"

record 'w engine =
  jit_enabled :: bool
  jit_dumpsrc :: bool
  jit_fusion :: bool
  jit_contraction :: bool
  extensions :: "bh_opcode \<rightharpoonup> 'w extmethod"

subsection \<open>Configuration\<close>

text \<open>The switch over \<^verbatim>\<open>jit_level\<close> in \<^verbatim>\<open>bh_ve_cpu_init\<close>.\<close>

definition engine_of_level :: "int \<Rightarrow> bool \<Rightarrow> 'w engine" where
  "engine_of_level jit_level dumpsrc =
     (if jit_level = 0
      then \<lparr>jit_enabled = False, jit_dumpsrc = False, jit_fusion = False, jit_contraction = False, extensions = Map.empty\<rparr>
      else \<lparr>jit_enabled = True, jit_dumpsrc = dumpsrc, jit_fusion = (jit_level \<in> {2, 3}), jit_contraction = (jit_level = 3),
        extensions = Map.empty\<rparr>)"

text \<open>Constructor and destructor: the victim cache and the preloading of the store. \<open>malloc_ok\<close> tells whether the cache could
  be allocated.\<close>

definition Engine_new :: "'w cpu_env \<Rightarrow> bool \<Rightarrow> int \<Rightarrow> bool \<Rightarrow> 'w engine_state \<Rightarrow> 'w engine_state option" where
  "Engine_new env malloc_ok vcache_size pre s =
     (case bh_vcache_init malloc_ok vcache_size (est_mem s) of
        None \<Rightarrow> None
      | Some m \<Rightarrow>
          (let s = s\<lparr>est_mem := m\<rparr>
           in if pre then
                (case preload (env_dl env) (est_world s) (est_store s) of
                   Inl e \<Rightarrow> None | Inr (n, st) \<Rightarrow> Some (s\<lparr>est_store := st\<rparr>))
              else Some s))"

definition Engine_delete :: "'w cpu_env \<Rightarrow> int \<Rightarrow> 'w engine_state \<Rightarrow> 'w engine_state option" where
  "Engine_delete env vcache_size s =
     (if 0 < vcache_size then
        (case bh_vcache_clear (env_os env) (est_mem s) of
           None \<Rightarrow> None | Some m \<Rightarrow> map_option (\<lambda>m. s\<lparr>est_mem := m\<rparr>) (bh_vcache_delete m))
      else Some s)"

text \<open>\<^verbatim>\<open>register_extension\<close>: a second registration of an opcode replaces the first. \<open>found\<close> is the answer of the component.\<close>

definition register_extension :: "bh_error \<times> 'w extmethod \<Rightarrow> bh_opcode \<Rightarrow> 'w engine \<Rightarrow> bh_error \<times> 'w engine" where
  "register_extension found opc eng =
     (let (err, extmethod) = found
      in if err \<noteq> BH_SUCCESS then (err, eng) else (BH_SUCCESS, eng\<lparr>extensions := (extensions eng)(opc \<mapsto> extmethod)\<rparr>))"

subsection \<open>Execution of a block\<close>

text \<open>Array contraction: every operand of the block that lies in a temporary array of the kernel.\<close>

fun contract_operands :: "ptr \<Rightarrow> block \<Rightarrow> nat list \<Rightarrow> symbol_table \<Rightarrow> symbol_table option" where
  "contract_operands p b [] st = Some st"
| "contract_operands p b (i # is) st =
     (if obase (table st ! (b_operands b ! i)) = p then
        (case local_to_global i b of Inl e \<Rightarrow> None | Inr g \<Rightarrow> contract_operands p b is (turn_contractable g st))
      else contract_operands p b is st)"

fun contract_temps :: "ptr list \<Rightarrow> block \<Rightarrow> symbol_table \<Rightarrow> symbol_table option" where
  "contract_temps [] b st = Some st"
| "contract_temps (p # ps) b st =
     (case contract_operands p b [0..<length (b_operands b)] st of None \<Rightarrow> None | Some st \<Rightarrow> contract_temps ps b st)"

text \<open>Compilation of a block whose symbol is not ready. \<open>False\<close> when the compiler fails.\<close>

definition jit_compile ::
  "'w cpu_env \<Rightarrow> 'w engine \<Rightarrow> program \<Rightarrow> operand_t list \<Rightarrow> tac_t list \<Rightarrow> block \<Rightarrow> 'w engine_state \<Rightarrow> bool \<times> 'w engine_state" where
  "jit_compile env eng is tbl prog b s =
     (let sourcecode = generate_source env is tbl prog b; sym = b_symbol b; st = est_store s;
          (res, w) = (if jit_dumpsrc eng
             then compile_file env (obj_abspath sym st) (src_abspath sym st) (write_file env (src_abspath sym st) sourcecode (est_world s))
             else compile_text env (obj_abspath sym st) sourcecode (est_world s));
          s = s\<lparr>est_world := w\<rparr>
      in if res then (True, s\<lparr>est_store := add_symbol sym (obj_filename sym st) st\<rparr>) else (False, s))"

definition needs_output :: "operand_t list \<Rightarrow> tac_t \<Rightarrow> bool" where
  "needs_output tbl tac \<longleftrightarrow> op_in (tac_op tac) ARRAY_OPS \<and>
     \<not> layout_in (layout (tbl ! tac_out tac)) (layout_code SCALAR_CONST OR layout_code SCALAR_TEMP OR layout_code CONTRACTABLE)"

definition output_bases :: "operand_t list \<Rightarrow> tac_t list \<Rightarrow> block \<Rightarrow> ptr list" where
  "output_bases tbl prog b =
     map (\<lambda>tac. obase (tbl ! tac_out tac)) (filter (needs_output tbl) (map ((!) prog) (b_tacs b)))"

definition freed_bases :: "operand_t list \<Rightarrow> tac_t list \<Rightarrow> block \<Rightarrow> ptr list" where
  "freed_bases tbl prog b =
     map (\<lambda>tac. obase (tbl ! tac_out tac)) (filter (\<lambda>tac. tac_oper tac = FREE) (map ((!) prog) (b_tacs b)))"

text \<open>The loops that allocate and release, which end at the first error.\<close>

fun serve :: "mem_op \<Rightarrow> os_mem \<Rightarrow> ptr list \<Rightarrow> mem_state \<Rightarrow> (bh_error \<times> mem_state) option" where
  "serve f os [] m = Some (BH_SUCCESS, m)"
| "serve f os (p # ps) m =
     (case f os p m of None \<Rightarrow> None | Some (res, m) \<Rightarrow> if res \<noteq> BH_SUCCESS then Some (res, m) else serve f os ps m)"

text \<open>The part of \<^verbatim>\<open>execute_block\<close> after the code has been loaded.\<close>

definition run_block ::
  "'w cpu_env \<Rightarrow> operand_t list \<Rightarrow> tac_t list \<Rightarrow> block \<Rightarrow> 'w engine_state \<Rightarrow> (bh_error \<times> 'w engine_state) option" where
  "run_block env tbl prog b s =
     (let outs = output_bases tbl prog b in
      case serve bh_vcache_malloc_base (env_os env) outs (est_mem s) of
        None \<Rightarrow> None
      | Some (res, m) \<Rightarrow>
          (let s = s\<lparr>est_mem := m\<rparr> in
           if res \<noteq> BH_SUCCESS then Some (res, s)
           else
             (case (if narray_tacs b = 0 then Some s
                    else
                      (case funcs (est_store s) (b_symbol b) of
                         None \<Rightarrow> None
                       | Some f \<Rightarrow>
                           if f = NULL then None
                           else
                             (let ops = map ((!) tbl) (b_operands b)
                              in Some (s\<lparr>est_world := call_kernel env f ops (b_iterspace b) m (est_world s),
                                   est_calls := est_calls s @ [\<lparr>kc_fun = f, kc_operands = ops, kc_iterspace = b_iterspace b,
                                     kc_outputs = outs, kc_bases = bases m\<rparr>]\<rparr>)))) of
                None \<Rightarrow> None
              | Some s \<Rightarrow>
                  (case serve bh_vcache_free_base (env_os env) (freed_bases tbl prog b) (est_mem s) of
                     None \<Rightarrow> None
                   | Some (res, m) \<Rightarrow> Some (res, s\<lparr>est_mem := m\<rparr>)))))"

definition load_block ::
  "'w cpu_env \<Rightarrow> 'w engine \<Rightarrow> program \<Rightarrow> operand_t list \<Rightarrow> tac_t list \<Rightarrow> block \<Rightarrow> 'w engine_state \<Rightarrow> bool \<times> 'w engine_state" where
  "load_block env eng is tbl prog b s =
     (let sym = b_symbol b; consider_jit = (jit_enabled eng \<and> 0 < narray_tacs b);
          (res, s) = (if consider_jit \<and> \<not> symbol_ready sym (est_store s) then jit_compile env eng is tbl prog b s else (True, s))
      in if \<not> res then (False, s)
         else if 0 < narray_tacs b \<and> \<not> symbol_ready sym (est_store s) then
           (let (res, st) = store_load (env_dl env) (est_world s) sym (est_store s) in (res, s\<lparr>est_store := st\<rparr>))
         else (True, s))"

definition execute_block ::
  "'w cpu_env \<Rightarrow> 'w engine \<Rightarrow> program \<Rightarrow> tac_t list \<Rightarrow> ptr list \<Rightarrow> block \<Rightarrow> symbol_table \<Rightarrow> 'w engine_state \<Rightarrow>
   (bh_error \<times> symbol_table \<times> 'w engine_state) option" where
  "execute_block env eng is prog tmps b st s =
     (case (if jit_enabled eng \<and> 0 < narray_tacs b \<and> jit_contraction eng then
              (case contract_temps tmps b st of
                 None \<Rightarrow> None
               | Some st \<Rightarrow> (case update_iterspace is (table st) prog b of Inl e \<Rightarrow> None | Inr b \<Rightarrow> Some (b, st)))
            else Some (b, st)) of
        None \<Rightarrow> None
      | Some (b, st) \<Rightarrow>
          (case symbolize is (table st) prog b of
             Inl e \<Rightarrow> None
           | Inr b \<Rightarrow>
               (let (res, s) = load_block env eng is (table st) prog b s
                in if \<not> res then Some (BH_ERROR, st, s)
                   else map_option (\<lambda>(res, s). (res, st, s)) (run_block env (table st) prog b s))))"

subsection \<open>Execution of a batch\<close>

text \<open>Compose a cleared block from instructions, determine its iteration space.\<close>

definition make_block :: "program \<Rightarrow> operand_t list \<Rightarrow> tac_t list \<Rightarrow> nat list \<Rightarrow> block \<Rightarrow> cpu_error + block" where
  "make_block is tbl prog idxs b =
     (case compose is tbl prog idxs (block_clear b) of Inl e \<Rightarrow> Inl e | Inr b \<Rightarrow> update_iterspace is tbl prog b)"

text \<open>One instruction at a time; \<^verbatim>\<open>compose(idx, idx)\<close> is the composition of a single index (\<open>compose_single\<close>).\<close>

fun sij_loop ::
  "'w cpu_env \<Rightarrow> 'w engine \<Rightarrow> program \<Rightarrow> tac_t list \<Rightarrow> ptr list \<Rightarrow> nat list \<Rightarrow> block \<Rightarrow> symbol_table \<Rightarrow> 'w engine_state \<Rightarrow>
   (bh_error \<times> symbol_table \<times> 'w engine_state) option" where
  "sij_loop env eng is prog tmps [] b st s = Some (BH_SUCCESS, st, s)"
| "sij_loop env eng is prog tmps (idx # idxs) b st s =
     (case (case compose_range is (table st) prog idx idx (block_clear b) of
              Inl e \<Rightarrow> Inl e | Inr b \<Rightarrow> update_iterspace is (table st) prog b) of
        Inl e \<Rightarrow> None
      | Inr b \<Rightarrow>
          (case execute_block env eng is prog tmps b st s of
             None \<Rightarrow> None
           | Some (res, st, s) \<Rightarrow>
               if res \<noteq> BH_SUCCESS then Some (res, st, s) else sij_loop env eng is prog tmps idxs b st s))"

text \<open>A kernel with an extension method: the method of the first TAC, if it is registered.\<close>

definition run_extension ::
  "'w engine \<Rightarrow> program \<Rightarrow> tac_t list \<Rightarrow> block \<Rightarrow> 'w engine_state \<Rightarrow> (bh_error \<times> 'w engine_state) option" where
  "run_extension eng is prog b s =
     (case tac_ext (prog ! hd (b_tacs b)) of
        None \<Rightarrow> None
      | Some i \<Rightarrow>
          (case extensions eng (opcode (is ! i)) of
             None \<Rightarrow> Some (BH_SUCCESS, s)
           | Some extmethod \<Rightarrow>
               (let (res, m, w) = extmethod (is ! i) (est_mem s) (est_world s)
                in Some (res, s\<lparr>est_mem := m, est_world := w\<rparr>))))"

definition execute_kernel ::
  "'w cpu_env \<Rightarrow> 'w engine \<Rightarrow> program \<Rightarrow> tac_t list \<Rightarrow> bh_ir_kernel \<Rightarrow> block \<Rightarrow> symbol_table \<Rightarrow> 'w engine_state \<Rightarrow>
   (bh_error \<times> symbol_table \<times> 'w engine_state) option" where
  "execute_kernel env eng is prog krnl b st s =
     (let tmps = sorted_list_of_set (temps krnl) in
      case make_block is (table st) prog (instr_indexes krnl) b of
        Inl e \<Rightarrow> None
      | Inr b \<Rightarrow>
          if b_omask b AND operation_code EXTENSION > 0 then map_option (\<lambda>(res, s). (res, st, s)) (run_extension eng is prog b s)
          else if jit_fusion eng \<and> 1 < narray_tacs b then execute_block env eng is prog tmps b st s
          else sij_loop env eng is prog tmps (instr_indexes krnl) b st s)"

fun execute_loop ::
  "'w cpu_env \<Rightarrow> 'w engine \<Rightarrow> program \<Rightarrow> tac_t list \<Rightarrow> bh_ir_kernel list \<Rightarrow> block \<Rightarrow> symbol_table \<Rightarrow> 'w engine_state \<Rightarrow>
   (bh_error \<times> symbol_table \<times> 'w engine_state) option" where
  "execute_loop env eng is prog [] b st s = Some (BH_SUCCESS, st, s)"
| "execute_loop env eng is prog (krnl # krnls) b st s =
     (case execute_kernel env eng is prog krnl b st s of
        None \<Rightarrow> None
      | Some (res, st, s) \<Rightarrow>
          if res \<noteq> BH_SUCCESS then Some (res, st, s) else execute_loop env eng is prog krnls b st s)"

text \<open>\<^verbatim>\<open>Engine::execute\<close>. \<open>init\<close> is the content of the new symbol table; the batch is changed by the translation. The iteration
  space of the new block is overwritten by \<^verbatim>\<open>clear\<close> before it is read.\<close>

definition no_iterspace :: iterspace_t where
  "no_iterspace = \<lparr>it_layout = SCALAR_TEMP, it_ndim = 0, it_shape = None, it_nelem = 0\<rparr>"

definition execute ::
  "'w cpu_env \<Rightarrow> 'w engine \<Rightarrow> (nat \<Rightarrow> operand_t) \<Rightarrow> program \<Rightarrow> bh_ir_kernel list \<Rightarrow> 'w engine_state \<Rightarrow>
   (bh_error \<times> program \<times> 'w engine_state) option" where
  "execute env eng init is krnls s =
     (case compile_batch (bases (est_mem s)) init is of
        Inl e \<Rightarrow> None
      | Inr (prog, is, st) \<Rightarrow>
          map_option (\<lambda>(res, st, s). (res, is, s)) (execute_loop env eng is prog krnls (Block_new no_iterspace) st s))"

end
