(* ===== verification/Cpu_EngineSafe.thy ===== *)
theory Cpu_EngineSafe
  imports Cpu_Engine Cpu_Signature
begin

text \<open>
  Safety of the CPU engine: a batch executes without undefined behaviour, keeps the ownership of memory, and calls
  kernels only through loaded functions and with all arrays they write allocated.
\<close>

subsection \<open>Allocation and release\<close>

definition allocated :: "(ptr \<rightharpoonup> bh_base) \<Rightarrow> ptr \<Rightarrow> bool" where
  "allocated bs p \<longleftrightarrow> (\<exists>b. bs p = Some b \<and> (0 < bh_base_size b \<longrightarrow> base_data b \<noteq> NULL))"

context base_allocator
begin

lemma serve_alloc:
  assumes "os_mem_ok os" and "mem_inv m" and "set ps \<subseteq> dom (bases m)"
  shows "\<exists>e m'. serve alloc os ps m = Some (e, m') \<and> mem_inv m' \<and> dom (bases m') = dom (bases m) \<and>
    (\<forall>p. allocated (bases m) p \<longrightarrow> allocated (bases m') p) \<and> (e = BH_SUCCESS \<longrightarrow> (\<forall>p \<in> set ps. allocated (bases m') p))"
  using assms(2,3)
proof (induction ps arbitrary: m)
  case (Cons p ps)
  obtain b where b: "bases m p = Some b" using Cons.prems(2) by auto
  obtain e m1 d where m1: "alloc os p m = Some (e, m1)" "mem_inv m1" "bases m1 = (bases m)(p \<mapsto> b\<lparr>base_data := d\<rparr>)"
    "base_data b \<noteq> NULL \<longrightarrow> d = base_data b" "e = BH_SUCCESS \<and> 0 < bh_base_size b \<longrightarrow> d \<noteq> NULL"
    using alloc_correct [OF assms(1) Cons.prems(1) b] by blast
  have dom: "dom (bases m1) = dom (bases m)" using m1(3) b by auto
  have keep: "allocated (bases m1) q" if "allocated (bases m) q" for q
    using that m1(3,4) b by (auto simp: allocated_def bh_base_size_def)
  show ?case
  proof (cases "e = BH_SUCCESS")
    case True
    then have "allocated (bases m1) p" using m1(3,5) by (simp add: allocated_def bh_base_size_def)
    moreover obtain e' m' where "serve alloc os ps m1 = Some (e', m')" "mem_inv m'" "dom (bases m') = dom (bases m1)"
      "\<forall>q. allocated (bases m1) q \<longrightarrow> allocated (bases m') q" "e' = BH_SUCCESS \<longrightarrow> (\<forall>q \<in> set ps. allocated (bases m') q)"
      using Cons.IH [OF m1(2)] Cons.prems(2) dom by auto
    ultimately show ?thesis using m1(1) True dom keep by auto
  next
    case False
    then show ?thesis using m1 dom keep by auto
  qed
qed simp

lemma serve_dealloc:
  assumes "os_mem_ok os" and "mem_inv m" and "set ps \<subseteq> dom (bases m)"
  shows "\<exists>m'. serve dealloc os ps m = Some (BH_SUCCESS, m') \<and> mem_inv m' \<and> dom (bases m') = dom (bases m)"
  using assms(2,3)
proof (induction ps arbitrary: m)
  case (Cons p ps)
  obtain b where b: "bases m p = Some b" using Cons.prems(2) by auto
  obtain m1 where m1: "dealloc os p m = Some (BH_SUCCESS, m1)" "mem_inv m1" "bases m1 = (bases m)(p \<mapsto> b\<lparr>base_data := NULL\<rparr>)"
    using dealloc_correct [OF assms(1) Cons.prems(1) b] by blast
  have "dom (bases m1) = dom (bases m)" using m1(3) b by auto
  then show ?case using Cons.IH [OF m1(2)] Cons.prems(2) m1(1) by auto
qed simp

end

subsection \<open>Tables and blocks\<close>

text \<open>Contraction changes layouts only, and never to the layout of a constant.\<close>

definition contracted :: "operand_t list \<Rightarrow> operand_t list \<Rightarrow> bool" where
  "contracted T T' \<longleftrightarrow> length T' = length T \<and>
     (\<forall>j < length T. obase (T' ! j) = obase (T ! j) \<and> const_data (T' ! j) = const_data (T ! j) \<and>
        (layout (T' ! j) = SCALAR_CONST \<longrightarrow> layout (T ! j) = SCALAR_CONST))"

lemma contracted_refl [simp]: "contracted T T"
  by (simp add: contracted_def)

lemma contracted_trans: "contracted a b \<Longrightarrow> contracted b c \<Longrightarrow> contracted a c"
  by (auto simp: contracted_def)

lemma contracted_turn: "contracted (table st) (table (turn_contractable g st))"
  unfolding contracted_def
proof (intro conjI allI impI)
  fix j assume j: "j < length (table st)"
  let ?x = "table (turn_contractable g st) ! j"
  have x: "?x = table st ! j \<or> (\<exists>l \<in> {SCALAR_TEMP, CONTRACTABLE}. ?x = (table st ! j)\<lparr>layout := l\<rparr>)"
    using j by (cases "j = g") (auto simp: turn_contractable_def Let_def)
  show "obase ?x = obase (table st ! j)" "const_data ?x = const_data (table st ! j)" using x by auto
  show "layout ?x = SCALAR_CONST \<Longrightarrow> layout (table st ! j) = SCALAR_CONST" using x by auto
qed (simp add: turn_contractable_def Let_def)

text \<open>What the engine needs to know of a TAC: the symbols are in the table, outputs and released arrays are known, the axis of
  a reduction is a constant.\<close>

definition tac_runs :: "ptr set \<Rightarrow> operand_t list \<Rightarrow> tac_t \<Rightarrow> bool" where
  "tac_runs D tbl tac \<longleftrightarrow> tac_ok tbl tac \<and>
     (op_in (tac_op tac) ARRAY_OPS \<or> tac_oper tac = FREE \<longrightarrow> tac_out tac < length tbl \<and> obase (tbl ! tac_out tac) \<in> D) \<and>
     (tac_op tac = REDUCE_PARTIAL \<longrightarrow> tac_in2 tac < length tbl \<and> const_data (tbl ! tac_in2 tac) \<noteq> None)"

lemma tac_runs_contracted: "tac_runs D T tac \<Longrightarrow> contracted T T' \<Longrightarrow> tac_runs D T' tac"
  unfolding tac_runs_def tac_ok_def contracted_def const_base_ok_def by fastforce

definition block_ok :: "tac_t list \<Rightarrow> block \<Rightarrow> bool" where
  "block_ok prog b \<longleftrightarrow> (\<forall>i \<in> set (b_tacs b). i < length prog \<and> tac_symbols (prog ! i) \<subseteq> dom (b_global_to_local b)) \<and>
     (\<forall>l < length (b_operands b). b_local_to_global b l \<noteq> None)"

lemma iterspace_loop_Inr:
  assumes "\<forall>i \<in> set idxs. \<exists>gs. tac_operands (prog ! i) = Inr gs"
  shows "\<exists>it'. iterspace_loop tbl prog idxs it = Inr it'"
  using assms
proof (induction idxs arbitrary: it)
  case (Cons i idxs)
  then obtain gs where "tac_operands (prog ! i) = Inr gs" by auto
  then have "\<exists>it'. iterspace_tac tbl (prog ! i) it = Inr it'" by (simp add: iterspace_tac_def Let_def)
  then show ?case using Cons by auto
qed simp

lemma update_iterspace_ok:
  assumes "block_ok prog b" and "\<forall>tac \<in> set prog. tac_runs D tbl tac"
  shows "\<exists>it. update_iterspace is tbl prog b = Inr (b\<lparr>b_iterspace := it\<rparr>)"
proof -
  have "\<exists>gs. tac_operands (prog ! i) = Inr gs" if "i \<in> set (b_tacs b)" for i
  proof -
    have "prog ! i \<in> set prog" using that assms(1) by (simp add: block_ok_def)
    then show ?thesis using assms(2) by (auto simp: tac_runs_def tac_ok_def)
  qed
  then obtain it where "iterspace_loop tbl prog (b_tacs b) (b_iterspace b) = Inr it" using iterspace_loop_Inr by blast
  then show ?thesis by (auto simp: update_iterspace_def)
qed

lemma block_ok_iterspace [simp]: "block_ok prog (b\<lparr>b_iterspace := it\<rparr>) = block_ok prog b"
  and block_ok_symbol [simp]: "block_ok prog (b\<lparr>b_symbol_text := t, b_symbol := y\<rparr>) = block_ok prog b"
  by (simp_all add: block_ok_def)

lemma make_block_ok:
  assumes "\<forall>i \<in> set idxs. i < length prog" and "\<forall>tac \<in> set prog. tac_runs D tbl tac"
  shows "\<exists>b. make_block is tbl prog idxs b0 = Inr b \<and> block_ok prog b \<and> b_tacs b = idxs \<and>
    b_array_tacs b = filter (array_tac prog) idxs \<and> b_omask b = fold (\<lambda>i m. m OR operation_code (tac_op (prog ! i))) idxs 0"
proof -
  let ?G = "\<Union>i \<in> set idxs. tac_symbols (prog ! i)"
  have "\<forall>i \<in> set idxs. i < length prog \<and> tac_ok tbl (prog ! i)" using assms by (auto simp: tac_runs_def)
  from compose_clear [OF this] obtain b where b: "compose is tbl prog idxs (block_clear b0) = Inr b" "block_inv is tbl ?G b"
    "b_tacs b = idxs" "b_array_tacs b = filter (array_tac prog) idxs" "b_omask b = fold (\<lambda>i m. m OR operation_code (tac_op (prog ! i))) idxs 0"
    by blast
  have "dom (b_global_to_local b) = ?G" "\<forall>l < length (b_operands b). b_local_to_global b l \<noteq> None"
    using b(2) unfolding block_inv_def by simp_all
  then have ok: "block_ok prog b" using assms(1) b(3) by (auto simp: block_ok_def)
  obtain it where "update_iterspace is tbl prog b = Inr (b\<lparr>b_iterspace := it\<rparr>)" using update_iterspace_ok [OF ok assms(2)] by blast
  then show ?thesis using b ok by (simp add: make_block_def)
qed

subsection \<open>Preparation of a block\<close>

lemma contract_operands_ok:
  assumes "\<forall>i \<in> set idxs. b_local_to_global b i \<noteq> None"
  shows "\<exists>st'. contract_operands p b idxs st = Some st' \<and> contracted (table st) (table st')"
  using assms
proof (induction idxs arbitrary: st)
  case (Cons i idxs)
  obtain g where g: "local_to_global i b = Inr g" using Cons.prems by (auto simp: local_to_global_def)
  show ?case
  proof (cases "obase (table st ! (b_operands b ! i)) = p")
    case True
    obtain st' where "contract_operands p b idxs (turn_contractable g st) = Some st'" "contracted (table (turn_contractable g st)) (table st')"
      using Cons.IH Cons.prems by (meson list.set_intros(2))
    then show ?thesis using True g contracted_trans [OF contracted_turn] by auto
  next
    case False
    then show ?thesis using Cons by simp
  qed
qed simp

lemma contract_temps_ok:
  assumes "block_ok prog b"
  shows "\<exists>st'. contract_temps ps b st = Some st' \<and> contracted (table st) (table st')"
proof (induction ps arbitrary: st)
  case (Cons p ps)
  have "\<forall>i \<in> set [0..<length (b_operands b)]. b_local_to_global b i \<noteq> None" using assms by (simp add: block_ok_def)
  from contract_operands_ok [OF this] obtain st1 where 1: "contract_operands p b [0..<length (b_operands b)] st = Some st1"
    "contracted (table st) (table st1)" by blast
  then show ?case using Cons.IH [of st1] contracted_trans [OF 1(2)] by auto
qed simp

lemma id_symbols_ok: "set gs \<subseteq> dom (b_global_to_local b) \<Longrightarrow> \<exists>s. id_symbols gs b = Inr s"
  by (induction gs) (auto simp: global_to_local_def)

lemma tac_symbol_ok:
  assumes "tac_runs D tbl tac" and "tac_symbols tac \<subseteq> dom (b_global_to_local b)"
  shows "\<exists>s. tac_symbol is tbl b tac = Inr s"
proof -
  obtain gs where gs: "tac_operands tac = Inr gs" using assms(1) by (auto simp: tac_runs_def tac_ok_def)
  have "op_in op (operation_code REDUCE_PARTIAL) \<longleftrightarrow> op = REDUCE_PARTIAL" for op by (cases op) (simp_all add: op_in_def)
  then have "\<exists>ax. axis_symbol is tbl tac = Inr ax" using assms(1) by (auto simp: axis_symbol_def tac_runs_def simp del: operation_code.simps)
  then obtain ax where "axis_symbol is tbl tac = Inr ax" by blast
  moreover obtain s where "id_symbols (rev gs) b = Inr s" using id_symbols_ok [of "rev gs" b] assms(2) gs by (auto simp: tac_symbols_def)
  ultimately show ?thesis using gs by (simp add: tac_symbol_def)
qed

lemma symbolize_ok:
  assumes "block_ok prog b" and "\<forall>tac \<in> set prog. tac_runs D tbl tac"
  shows "\<exists>t y. symbolize is tbl prog b = Inr (b\<lparr>b_symbol_text := t, b_symbol := y\<rparr>)"
proof -
  have "\<exists>s. tacs_symbol is tbl prog b idxs first = Inr s" if "set idxs \<subseteq> set (b_tacs b)" for idxs first
    using that
  proof (induction idxs arbitrary: first)
    case (Cons i idxs)
    have "prog ! i \<in> set prog" "tac_symbols (prog ! i) \<subseteq> dom (b_global_to_local b)" using Cons.prems assms(1) by (auto simp: block_ok_def)
    then obtain t where "tac_symbol is tbl b (prog ! i) = Inr t" using tac_symbol_ok assms(2) by blast
    moreover have "set idxs \<subseteq> set (b_tacs b)" using Cons.prems by simp
    then obtain s s' where "tacs_symbol is tbl prog b idxs False = Inr s" "tacs_symbol is tbl prog b idxs first = Inr s'"
      using Cons.IH by blast
    ultimately show ?case by (simp add: Let_def)
  qed simp
  then obtain s where "tacs_symbol is tbl prog b (b_tacs b) True = Inr s" by blast
  then show ?thesis by (auto simp: symbolize_def Let_def)
qed

subsection \<open>Loading and running a block\<close>

definition env_ok :: "'w cpu_env \<Rightarrow> bool" where
  "env_ok env \<longleftrightarrow> os_mem_ok (env_os env) \<and> (\<forall>w h y. dlsym (env_dl env) w h y \<noteq> Some NULL)"

definition funcs_ok :: "kernel_store \<Rightarrow> bool" where
  "funcs_ok st \<longleftrightarrow> NULL \<notin> ran (funcs st)"

definition call_ok :: "kernel_call \<Rightarrow> bool" where
  "call_ok c \<longleftrightarrow> kc_fun c \<noteq> NULL \<and> (\<forall>p \<in> set (kc_outputs c). allocated (kc_bases c) p)"

definition state_ok :: "ptr set \<Rightarrow> 'w engine_state \<Rightarrow> bool" where
  "state_ok D s \<longleftrightarrow> mem_inv (est_mem s) \<and> dom (bases (est_mem s)) = D \<and> (\<forall>c \<in> set (est_calls s). call_ok c)"

lemma load_library_funcs:
  assumes "load_library dl w y l st = (True, st')" and "funcs_ok st" and "\<forall>w h y. dlsym dl w h y \<noteq> Some NULL"
  shows "funcs_ok st' \<and> symbol_ready y st'"
proof -
  obtain h f where f: "dlsym dl w h (kernel_prefix @ y) = Some f" "funcs st' = (funcs st)(y \<mapsto> f)"
    using assms(1) by (cases "handles st l") (auto simp: load_library_def Let_def split: option.splits if_splits)
  have "f \<noteq> NULL" using spec [OF spec [OF spec [OF assms(3), of w], of h], of "kernel_prefix @ y"] f(1) by simp
  then show ?thesis using assms(2) f(2) by (auto simp: funcs_ok_def symbol_ready_def ran_def)
qed

lemma store_load_funcs:
  assumes "store_load dl w y st = (True, st')" and "funcs_ok st" and "\<forall>w h y. dlsym dl w h y \<noteq> Some NULL"
  shows "funcs_ok st' \<and> symbol_ready y st'"
  using assms(1) load_library_funcs [OF _ _ assms(3)] assms(2) by (auto simp: store_load_def funcs_ok_def split: option.splits)

lemma funcs_ok_add_symbol [simp]: "funcs_ok (add_symbol y l st) = funcs_ok st"
  by (simp add: funcs_ok_def)

lemma jit_compile_ok:
  assumes "jit_compile env eng is tbl prog b s = (res, s')"
  shows "est_mem s' = est_mem s \<and> est_calls s' = est_calls s \<and> funcs (est_store s') = funcs (est_store s)"
  using assms by (auto simp: jit_compile_def Let_def split: prod.splits if_splits)

lemma load_block_ok:
  assumes "env_ok env" and "funcs_ok (est_store s)"
  shows "\<exists>res s'. load_block env eng is tbl prog b s = (res, s') \<and> est_mem s' = est_mem s \<and> est_calls s' = est_calls s \<and>
    (res \<longrightarrow> funcs_ok (est_store s') \<and> (0 < narray_tacs b \<longrightarrow> symbol_ready (b_symbol b) (est_store s')))"
proof -
  let ?jit = "jit_enabled eng \<and> 0 < narray_tacs b \<and> \<not> symbol_ready (b_symbol b) (est_store s)"
  obtain res1 s1 where 1: "(if ?jit then jit_compile env eng is tbl prog b s else (True, s)) = (res1, s1)" by (cases "if ?jit then jit_compile env eng is tbl prog b s else (True, s)")
  have s1: "est_mem s1 = est_mem s" "est_calls s1 = est_calls s" "funcs (est_store s1) = funcs (est_store s)"
    using 1 jit_compile_ok [of env eng "is" tbl prog b s] by (auto split: if_splits)
  have lb: "load_block env eng is tbl prog b s =
      (if \<not> res1 then (False, s1)
       else if 0 < narray_tacs b \<and> \<not> symbol_ready (b_symbol b) (est_store s1)
         then (let (res, st) = store_load (env_dl env) (est_world s1) (b_symbol b) (est_store s1) in (res, s1\<lparr>est_store := st\<rparr>))
         else (True, s1))"
    using 1 by (simp add: load_block_def Let_def)
  have f1: "funcs_ok (est_store s1)" using assms(2) s1(3) by (simp add: funcs_ok_def)
  obtain res2 st2 where 2: "store_load (env_dl env) (est_world s1) (b_symbol b) (est_store s1) = (res2, st2)" by fastforce
  have "funcs_ok st2 \<and> symbol_ready (b_symbol b) st2" if res2
    using store_load_funcs [OF _ f1, of "env_dl env" "est_world s1" "b_symbol b" st2] 2 that assms(1) by (simp add: env_ok_def)
  then show ?thesis using lb s1(1,2) f1 2 by auto
qed

lemma bases_of_block:
  assumes "block_ok prog b" and "\<forall>tac \<in> set prog. tac_runs D tbl tac"
  shows "set (output_bases tbl prog b) \<subseteq> D" and "set (freed_bases tbl prog b) \<subseteq> D"
proof -
  have "prog ! i \<in> set prog" if "i \<in> set (b_tacs b)" for i using that assms(1) by (simp add: block_ok_def)
  then show "set (output_bases tbl prog b) \<subseteq> D" "set (freed_bases tbl prog b) \<subseteq> D"
    using assms(2) by (auto simp: output_bases_def freed_bases_def needs_output_def tac_runs_def)
qed

lemma run_block_ok:
  assumes "env_ok env" and "state_ok D s" and "funcs_ok (est_store s)" and "0 < narray_tacs b \<longrightarrow> symbol_ready (b_symbol b) (est_store s)"
    and "set (output_bases tbl prog b) \<subseteq> D" and "set (freed_bases tbl prog b) \<subseteq> D"
  shows "\<exists>e s'. run_block env tbl prog b s = Some (e, s') \<and> state_ok D s' \<and> est_store s' = est_store s"
proof -
  let ?outs = "output_bases tbl prog b"
  have os: "os_mem_ok (env_os env)" using assms(1) by (simp add: env_ok_def)
  obtain e m where m: "serve bh_vcache_malloc_base (env_os env) ?outs (est_mem s) = Some (e, m)" "mem_inv m" "dom (bases m) = D"
    "e = BH_SUCCESS \<longrightarrow> (\<forall>p \<in> set ?outs. allocated (bases m) p)"
    using vcache_allocator.serve_alloc [OF os, of "est_mem s" ?outs] assms(2,5) by (auto simp: state_ok_def)
  show ?thesis
  proof (cases "e = BH_SUCCESS")
    case False
    then show ?thesis using m assms(2) by (simp add: run_block_def Let_def state_ok_def)
  next
    case True
    obtain m' where m': "serve bh_vcache_free_base (env_os env) (freed_bases tbl prog b) m = Some (BH_SUCCESS, m')" "mem_inv m'" "dom (bases m') = D"
      using vcache_allocator.serve_dealloc [OF os m(2), of "freed_bases tbl prog b"] m(3) assms(6) by auto
    show ?thesis
    proof (cases "narray_tacs b = 0")
      case True
      then show ?thesis using \<open>e = BH_SUCCESS\<close> m m' assms(2) by (simp add: run_block_def Let_def state_ok_def)
    next
      case False
      then obtain f where f: "funcs (est_store s) (b_symbol b) = Some f" "f \<noteq> NULL"
        using assms(3,4) by (auto simp: symbol_ready_def funcs_ok_def ran_def)
      then show ?thesis using False \<open>e = BH_SUCCESS\<close> m m' assms(2) by (auto simp: run_block_def Let_def state_ok_def call_ok_def)
    qed
  qed
qed

lemma execute_block_ok:
  assumes "env_ok env" and "state_ok D s" and "funcs_ok (est_store s)" and "block_ok prog b" and "\<forall>tac \<in> set prog. tac_runs D (table st) tac"
  shows "\<exists>e st' s'. execute_block env eng is prog tmps b st s = Some (e, st', s') \<and> state_ok D s' \<and> contracted (table st) (table st') \<and>
    (e = BH_SUCCESS \<longrightarrow> funcs_ok (est_store s'))"
proof -
  have "\<exists>it st1. (if jit_enabled eng \<and> 0 < narray_tacs b \<and> jit_contraction eng then
              (case contract_temps tmps b st of
                 None \<Rightarrow> None
               | Some st \<Rightarrow> (case update_iterspace is (table st) prog b of Inl e \<Rightarrow> None | Inr b \<Rightarrow> Some (b, st)))
            else Some (b, st)) = Some (b\<lparr>b_iterspace := it\<rparr>, st1) \<and> contracted (table st) (table st1)"
  proof -
    obtain st1 where st1: "contract_temps tmps b st = Some st1" "contracted (table st) (table st1)" using contract_temps_ok [OF assms(4)] by blast
    have "\<forall>tac \<in> set prog. tac_runs D (table st1) tac" using assms(5) tac_runs_contracted [OF _ st1(2)] by blast
    from update_iterspace_ok [OF assms(4) this] obtain it where "update_iterspace is (table st1) prog b = Inr (b\<lparr>b_iterspace := it\<rparr>)" by blast
    then show ?thesis using st1
      by (cases "jit_enabled eng \<and> 0 < narray_tacs b \<and> jit_contraction eng") (auto intro: exI [of _ it] exI [of _ "b_iterspace b"])
  qed
  then obtain it st1 where 1: "(if jit_enabled eng \<and> 0 < narray_tacs b \<and> jit_contraction eng then
              (case contract_temps tmps b st of
                 None \<Rightarrow> None
               | Some st \<Rightarrow> (case update_iterspace is (table st) prog b of Inl e \<Rightarrow> None | Inr b \<Rightarrow> Some (b, st)))
            else Some (b, st)) = Some (b\<lparr>b_iterspace := it\<rparr>, st1)" "contracted (table st) (table st1)" by blast
  let ?b1 = "b\<lparr>b_iterspace := it\<rparr>"
  have runs: "\<forall>tac \<in> set prog. tac_runs D (table st1) tac" using assms(5) tac_runs_contracted [OF _ 1(2)] by blast
  obtain t y where sym: "symbolize is (table st1) prog ?b1 = Inr (?b1\<lparr>b_symbol_text := t, b_symbol := y\<rparr>)"
    using symbolize_ok [of prog ?b1 D "table st1" "is"] assms(4) runs by auto
  let ?b2 = "?b1\<lparr>b_symbol_text := t, b_symbol := y\<rparr>"
  have ok2: "block_ok prog ?b2" using assms(4) by simp
  obtain res s2 where 2: "load_block env eng is (table st1) prog ?b2 s = (res, s2)" "est_mem s2 = est_mem s" "est_calls s2 = est_calls s"
    "res \<longrightarrow> funcs_ok (est_store s2) \<and> (0 < narray_tacs ?b2 \<longrightarrow> symbol_ready (b_symbol ?b2) (est_store s2))"
    using load_block_ok [OF assms(1,3)] by blast
  have s2: "state_ok D s2" using assms(2) 2(2,3) by (simp add: state_ok_def)
  show ?thesis
  proof (cases res)
    case False
    then show ?thesis using 1 sym 2(1) s2 by (simp add: execute_block_def)
  next
    case True
    from run_block_ok [OF assms(1) s2 _ _ bases_of_block [OF ok2 runs]] obtain e s3 where
      "run_block env (table st1) prog ?b2 s2 = Some (e, s3)" "state_ok D s3" "est_store s3 = est_store s2" using 2(4) True by blast
    then show ?thesis using 1 sym 2(1,4) True by (simp add: execute_block_def)
  qed
qed

subsection \<open>The TACs of a batch\<close>

definition is_extension :: "bh_instruction \<Rightarrow> bool" where
  "is_extension a \<longleftrightarrow> map_of tac_table (opcode a) = None \<and> BH_MAX_OPCODE_ID \<le> opcode a"

text \<open>Every instruction writes to an array, and the axis of a reduction is a constant.\<close>

definition outputs_ok :: "program \<Rightarrow> bool" where
  "outputs_ok is \<longleftrightarrow> (\<forall>a \<in> set is. (opcode a \<noteq> BH_NONE \<longrightarrow> base (operand a ! 0) \<noteq> NULL) \<and>
     (map_option fst (map_of tac_table (opcode a)) = Some REDUCE_PARTIAL \<longrightarrow> base (operand a ! 2) = NULL))"

lemma transforms_out: "transforms is tbl t tac \<Longrightarrow> tac_out tac = tac_out t"
  by (induction rule: transforms.induct) (simp_all add: to_identity_def transform_identity_def)

lemma transforms_kept:
  "transforms is tbl t tac \<Longrightarrow> tac_op t \<notin> {REDUCE_COMPLETE, REDUCE_PARTIAL, SCAN, ZIP, MAP} \<Longrightarrow> tac = t"
  by (induction rule: transforms.induct) auto

lemma transforms_from_array:
  "transforms is tbl t tac \<Longrightarrow> tac = t \<or> tac_op t \<in> {REDUCE_COMPLETE, REDUCE_PARTIAL, SCAN, ZIP, MAP} \<and> tac_op tac \<notin> {REDUCE_PARTIAL, EXTENSION}"
  by (induction rule: transforms.induct) (auto simp: to_identity_def transform_identity_def)

lemma translated_runs:
  assumes "translated is st i tac" and "table_ok is st" and "batch_ok bs is" and "outputs_ok is" and "i < length is"
  shows "tac_runs (dom bs) (table st) tac" and "tac_op tac = EXTENSION \<longleftrightarrow> is_extension (is ! i)" and "tac_op tac = EXTENSION \<Longrightarrow> tac_ext tac = Some i"
proof -
  let ?op = "opcode (is ! i)"
  obtain idxs where idxs: "symbols_for is st i idxs (mapped_operands ?op)"
    "transforms is (table st) (switch_opcode i ?op idxs tac_zero) tac" using assms(1) by (auto simp: translated_def)
  let ?t = "switch_opcode i ?op idxs tac_zero"
  have out: "base (operand (is ! i) ! 0) \<noteq> NULL" if "?op \<noteq> BH_NONE" using assms(4,5) that by (auto simp: outputs_ok_def)
  have bound: "pick idxs k < length (table st)" for k using symbols_for_pick [OF idxs(1), of k] assms(2) by (simp add: table_ok_def)
  have arr: "?op \<noteq> BH_NONE \<and> tac_out ?t = pick idxs 0" if "op_in (tac_op ?t) ARRAY_OPS \<or> tac_oper ?t = FREE"
  proof -
    have "?op \<noteq> BH_NONE" using that binary_rows(4) by (auto simp: switch_opcode_def op_in_def ARRAY_OPS_def)
    moreover have "?t \<noteq> tac_zero" using that by (auto simp: tac_zero_def op_in_def ARRAY_OPS_def)
    ultimately show ?thesis by (auto simp: switch_opcode_def split: option.splits if_splits)
  qed
  have known: "obase (table st ! pick idxs 0) \<in> dom bs" if "?op \<noteq> BH_NONE"
  proof -
    have "0 < length (mapped_operands ?op)" "mapped_operands ?op ! 0 = 0" using that by (simp_all add: mapped_operands_def)
    then have "denotes is (table st) (pick idxs 0) i 0" using symbols_for_nth(3) [OF idxs(1), of 0] by simp
    then have "obase (table st ! pick idxs 0) = base (operand (is ! i) ! 0)"
      using out [OF that] by (simp add: denotes_def Let_def same_view_def opd_view_def)
    moreover have "mappable bs is i 0" using assms(3,5) that by (auto simp: batch_ok_def mapped_operands_def)
    ultimately show ?thesis using out [OF that] by (auto simp: mappable_def Let_def)
  qed
  have axis: "const_data (table st ! tac_in2 ?t) \<noteq> None \<and> tac_in2 ?t < length (table st)" if red: "tac_op ?t = REDUCE_PARTIAL"
  proof -
    obtain oper n where row: "map_of tac_table ?op = Some (REDUCE_PARTIAL, oper, n)"
      using red by (auto simp: switch_opcode_def tac_zero_def split: option.splits if_splits)
    have "row_ok (?op, REDUCE_PARTIAL, oper, n)" by (rule tac_table_row [OF row])
    then have r: "n = 2" by (simp add: row_ok_def)
    have ks: "mapped_operands ?op = [0, 1, 2]" using mapped_operands_row [OF row] r by (simp add: upt_rec)
    have "denotes is (table st) (pick idxs 2) i 2" using symbols_for_nth(3) [OF idxs(1), of 2] ks by simp
    moreover have "base (operand (is ! i) ! 2) = NULL" using assms(4,5) row by (auto simp: outputs_ok_def)
    ultimately have "const_symbol is (pick idxs 2) (table st ! pick idxs 2)" by (simp add: denotes_def Let_def)
    moreover have "tac_in2 ?t = pick idxs 2" using row by (simp add: switch_opcode_def)
    ultimately show ?thesis using bound by (auto simp: const_symbol_def)
  qed
  note tr = transforms_from_array [OF idxs(2)]
  have needs: "op_in (tac_op ?t) ARRAY_OPS \<or> tac_oper ?t = FREE" if "op_in (tac_op tac) ARRAY_OPS \<or> tac_oper tac = FREE"
    using tr that by (auto simp: op_in_def ARRAY_OPS_def)
  show "tac_runs (dom bs) (table st) tac"
    unfolding tac_runs_def
    using translated_tac_ok(1) [OF assms(1,2)] needs arr known bound axis transforms_out [OF idxs(2)] tr by auto
  have ext: "tac_op ?t = EXTENSION \<longleftrightarrow> is_extension (is ! i)"
  proof (cases "map_of tac_table ?op")
    case (Some row)
    then show ?thesis using tac_table_row [OF Some] by (cases row) (auto simp: switch_opcode_def is_extension_def row_ok_def)
  qed (simp add: switch_opcode_def is_extension_def tac_zero_def)
  then show "tac_op tac = EXTENSION \<longleftrightarrow> is_extension (is ! i)" using tr by auto
  show "tac_ext tac = Some i" if "tac_op tac = EXTENSION"
  proof -
    have "tac = ?t" using tr that by auto
    moreover from this that ext have "is_extension (is ! i)" by simp
    ultimately show ?thesis by (simp add: switch_opcode_def is_extension_def)
  qed
qed

subsection \<open>Kernels and batches\<close>

definition kernel_ok :: "program \<Rightarrow> bh_ir_kernel \<Rightarrow> bool" where
  "kernel_ok is krnl \<longleftrightarrow> (\<forall>i \<in> set (instr_indexes krnl). i < length is \<and>
     (is_extension (is ! i) \<longrightarrow> is_extension (is ! hd (instr_indexes krnl))))"

definition extensions_ok :: "'w engine \<Rightarrow> ptr set \<Rightarrow> bool" where
  "extensions_ok eng D \<longleftrightarrow> (\<forall>opc f a m w. extensions eng opc = Some f \<longrightarrow> mem_inv m \<longrightarrow> dom (bases m) = D \<longrightarrow>
     (case f a m w of (e, m', w') \<Rightarrow> mem_inv m' \<and> dom (bases m') = D))"

lemma extensions_okD:
  assumes "extensions_ok eng D" and "extensions eng opc = Some f" and "mem_inv m" and "dom (bases m) = D" and "f a m w = (e, m', w')"
  shows "mem_inv m' \<and> dom (bases m') = D"
  using assms(1) [unfolded extensions_ok_def, rule_format, OF assms(2-4), of a w] assms(5) by simp

definition program_ok :: "program \<Rightarrow> tac_t list \<Rightarrow> bool" where
  "program_ok is prog \<longleftrightarrow> length prog = length is \<and>
     (\<forall>i < length is. (tac_op (prog ! i) = EXTENSION \<longleftrightarrow> is_extension (is ! i)) \<and> (tac_op (prog ! i) = EXTENSION \<longrightarrow> tac_ext (prog ! i) = Some i))"

lemma fold_or_zero:
  fixes f :: "nat \<Rightarrow> 32 word"
  shows "fold (\<lambda>i m. m OR f i) xs m0 AND c = 0 \<longleftrightarrow> m0 AND c = 0 \<and> (\<forall>i \<in> set xs. f i AND c = 0)"
  by (induction xs arbitrary: m0) (auto simp: bit.conj_disj_distrib2 or_eq_0_iff)

lemma extension_code: "operation_code op AND operation_code EXTENSION = 0 \<longleftrightarrow> op \<noteq> EXTENSION"
  by (cases op) simp_all

lemma omask_extension:
  assumes "b_omask b = fold (\<lambda>i m. m OR operation_code (tac_op (prog ! i))) idxs 0"
  shows "b_omask b AND operation_code EXTENSION > 0 \<longleftrightarrow> (\<exists>i \<in> set idxs. tac_op (prog ! i) = EXTENSION)"
  unfolding assms word_gt_0 using fold_or_zero [of "\<lambda>i. operation_code (tac_op (prog ! i))" idxs 0 "operation_code EXTENSION"]
  by (simp add: extension_code del: operation_code.simps)

lemma sij_loop_ok:
  assumes "env_ok env" and "\<forall>i \<in> set idxs. i < length prog" and "state_ok D s" and "funcs_ok (est_store s)" and "\<forall>tac \<in> set prog. tac_runs D (table st) tac"
  shows "\<exists>e st' s'. sij_loop env eng is prog tmps idxs b st s = Some (e, st', s') \<and> state_ok D s' \<and> contracted (table st) (table st') \<and>
    (e = BH_SUCCESS \<longrightarrow> funcs_ok (est_store s'))"
  using assms(2-5)
proof (induction idxs arbitrary: b st s)
  case (Cons i idxs)
  have "\<forall>j \<in> set [i]. j < length prog" using Cons.prems(1) by simp
  from make_block_ok [OF this Cons.prems(4)] obtain b1 where b1: "make_block is (table st) prog [i] b = Inr b1" "block_ok prog b1" by blast
  from execute_block_ok [OF assms(1) Cons.prems(2,3) b1(2) Cons.prems(4)] obtain e st1 s1 where
    1: "execute_block env eng is prog tmps b1 st s = Some (e, st1, s1)" "state_ok D s1" "contracted (table st) (table st1)"
    "e = BH_SUCCESS \<longrightarrow> funcs_ok (est_store s1)" by blast
  show ?case
  proof (cases "e = BH_SUCCESS")
    case False
    then show ?thesis using 1 b1(1) by (simp add: make_block_def compose_single)
  next
    case True
    have "\<forall>tac \<in> set prog. tac_runs D (table st1) tac" using Cons.prems(4) tac_runs_contracted [OF _ 1(3)] by blast
    from Cons.IH [OF _ 1(2) _ this, of b1] obtain e' st' s' where "sij_loop env eng is prog tmps idxs b1 st1 s1 = Some (e', st', s')"
      "state_ok D s'" "contracted (table st1) (table st')" "e' = BH_SUCCESS \<longrightarrow> funcs_ok (est_store s')"
      using Cons.prems(1) 1(4) True by auto
    then show ?thesis using True 1 b1(1) contracted_trans [OF 1(3)] by (simp add: make_block_def compose_single)
  qed
qed simp

lemma execute_kernel_ok:
  assumes "env_ok env" and "extensions_ok eng D" and "program_ok is prog" and "kernel_ok is krnl" and "state_ok D s"
    and "funcs_ok (est_store s)" and "\<forall>tac \<in> set prog. tac_runs D (table st) tac"
  shows "\<exists>e st' s'. execute_kernel env eng is prog krnl b st s = Some (e, st', s') \<and> state_ok D s' \<and> contracted (table st) (table st') \<and>
    (e = BH_SUCCESS \<longrightarrow> funcs_ok (est_store s'))"
proof -
  let ?idxs = "instr_indexes krnl"
  have idx: "\<forall>i \<in> set ?idxs. i < length prog" using assms(3,4) by (simp add: program_ok_def kernel_ok_def)
  from make_block_ok [OF idx assms(7)] obtain b1 where b1: "make_block is (table st) prog ?idxs b = Inr b1" "block_ok prog b1" "b_tacs b1 = ?idxs"
    "b_omask b1 = fold (\<lambda>i m. m OR operation_code (tac_op (prog ! i))) ?idxs 0" by blast
  show ?thesis
  proof (cases "\<exists>i \<in> set ?idxs. tac_op (prog ! i) = EXTENSION")
    case True
    then have h: "hd ?idxs \<in> set ?idxs" by (cases ?idxs) auto
    have "hd ?idxs < length is" "is_extension (is ! hd ?idxs)" using True h assms(3,4) unfolding kernel_ok_def program_ok_def by blast+
    then have t: "tac_ext (prog ! hd ?idxs) = Some (hd ?idxs)" using assms(3) by (simp add: program_ok_def)
    have "\<exists>e s'. run_extension eng is prog b1 s = Some (e, s') \<and> state_ok D s' \<and> est_store s' = est_store s"
    proof (cases "extensions eng (opcode (is ! hd ?idxs))")
      case None
      then show ?thesis using t b1(3) assms(5) by (simp add: run_extension_def)
    next
      case (Some f)
      obtain e m w where f: "f (is ! hd ?idxs) (est_mem s) (est_world s) = (e, m, w)" by (cases "f (is ! hd ?idxs) (est_mem s) (est_world s)")
      have "mem_inv m \<and> dom (bases m) = D" using extensions_okD [OF assms(2) Some _ _ f] assms(5) by (simp add: state_ok_def)
      then show ?thesis using Some f t b1(3) assms(5) by (simp add: run_extension_def state_ok_def)
    qed
    then show ?thesis using omask_extension [OF b1(4)] True b1(1) assms(6) by (auto simp: execute_kernel_def Let_def)
  next
    case False
    have x: "\<not> b_omask b1 AND operation_code EXTENSION > 0" using omask_extension [OF b1(4)] False by simp
    show ?thesis
      using execute_block_ok [OF assms(1,5,6) b1(2) assms(7), of eng "is" "sorted_list_of_set (temps krnl)"]
        sij_loop_ok [OF assms(1) idx assms(5-7), of eng "is" "sorted_list_of_set (temps krnl)" b1] b1(1) x
      by (simp add: execute_kernel_def Let_def)
  qed
qed

lemma execute_loop_ok:
  assumes "env_ok env" and "extensions_ok eng D" and "program_ok is prog" and "\<forall>krnl \<in> set krnls. kernel_ok is krnl"
    and "state_ok D s" and "funcs_ok (est_store s)" and "\<forall>tac \<in> set prog. tac_runs D (table st) tac"
  shows "\<exists>e st' s'. execute_loop env eng is prog krnls b st s = Some (e, st', s') \<and> state_ok D s' \<and> (e = BH_SUCCESS \<longrightarrow> funcs_ok (est_store s'))"
  using assms(4-7)
proof (induction krnls arbitrary: st s)
  case (Cons k krnls)
  from execute_kernel_ok [OF assms(1-3) _ Cons.prems(2-4), of k b] Cons.prems(1) obtain e st1 s1 where
    1: "execute_kernel env eng is prog k b st s = Some (e, st1, s1)" "state_ok D s1" "contracted (table st) (table st1)"
    "e = BH_SUCCESS \<longrightarrow> funcs_ok (est_store s1)" by auto
  show ?case
  proof (cases "e = BH_SUCCESS")
    case True
    have "\<forall>tac \<in> set prog. tac_runs D (table st1) tac" using Cons.prems(4) tac_runs_contracted [OF _ 1(3)] by blast
    then show ?thesis using Cons.IH [OF _ 1(2)] Cons.prems(1) 1 True by simp
  qed (use 1 in simp)
qed simp

lemma compile_batch_runs:
  assumes "batch_ok bs is" and "outputs_ok is" and "compile_batch bs init is = Inr (prog, is', st)"
  shows "program_ok is' prog" and "\<forall>tac \<in> set prog. tac_runs (dom bs) (table st) tac"
    and "\<forall>i < length is. opcode (is' ! i) = opcode (is ! i)" and "length is' = length is"
proof -
  note c = compile_batch_tacs [OF assms(1,3)]
  have l: "length is' = length is" using evolved_length [OF c(1)] by simp
  have ev: "opcode (is' ! i) = opcode (is ! i)" if "i < length is" for i using evolved_nth [OF c(1) that] by (simp add: evolved_instr_def)
  have o': "outputs_ok is'"
    unfolding outputs_ok_def
  proof (intro ballI)
    fix a assume "a \<in> set is'"
    then obtain i where i: "i < length is" "a = is' ! i" using l by (auto simp: in_set_conv_nth)
    note e = evolved_nth [OF c(1) i(1), unfolded evolved_instr_def]
    have same: "base (operand a ! k) = base (operand (is ! i) ! k)" if "k \<in> set (mapped_operands (opcode (is ! i)))" for k
      using assms(1) i that e by (auto simp: batch_ok_def mappable_def)
    have old: "is ! i \<in> set is" "opcode a = opcode (is ! i)" using i ev by simp_all
    have "base (operand a ! 0) \<noteq> NULL" if "opcode a \<noteq> BH_NONE"
      using assms(2) old that same [of 0] by (auto simp: outputs_ok_def mapped_operands_def)
    moreover have "base (operand a ! 2) = NULL" if red: "map_option fst (map_of tac_table (opcode a)) = Some REDUCE_PARTIAL"
    proof -
      obtain oper n where row: "map_of tac_table (opcode a) = Some (REDUCE_PARTIAL, oper, n)" using red by auto
      have "row_ok (opcode a, REDUCE_PARTIAL, oper, n)" by (rule tac_table_row [OF row])
      then have "n = 2" by (simp add: row_ok_def)
      then have "2 \<in> set (mapped_operands (opcode (is ! i)))" using mapped_operands_row [OF row] old(2) by simp
      then show ?thesis using assms(2) old red same [of 2] by (auto simp: outputs_ok_def)
    qed
    ultimately show "(opcode a \<noteq> BH_NONE \<longrightarrow> base (operand a ! 0) \<noteq> NULL) \<and>
        (map_option fst (map_of tac_table (opcode a)) = Some REDUCE_PARTIAL \<longrightarrow> base (operand a ! 2) = NULL)" by blast
  qed
  note t = translated_runs [OF _ c(2) batch_ok_evolved [OF c(1) assms(1)] o']
  show "program_ok is' prog" using t(2,3) c(3,4) l by (auto simp: program_ok_def)
  have "tac_runs (dom bs) (table st) (prog ! i)" if "i < length is" for i using t(1) [of i "prog ! i"] c(4) l that by simp
  then show "\<forall>tac \<in> set prog. tac_runs (dom bs) (table st) tac" using c(3) by (auto simp: in_set_conv_nth)
  show "\<forall>i < length is. opcode (is' ! i) = opcode (is ! i)" "length is' = length is" using ev l by simp_all
qed

lemma transforms_ext: "transforms is tbl t tac \<Longrightarrow> tac_ext tac = tac_ext t"
  by (induction rule: transforms.induct) (simp_all add: to_identity_def transform_identity_def)

lemma compile_batch_ext:
  assumes "batch_ok bs is" and "compile_batch bs init is = Inr (prog, is', st)" and "i < length is" and "tac_op (prog ! i) \<noteq> EXTENSION"
  shows "tac_ext (prog ! i) = None"
proof -
  have "translated is' st i (prog ! i)" using compile_batch_tacs(4) [OF assms(1,2)] assms(3) by blast
  then obtain idxs where t: "transforms is' (table st) (switch_opcode i (opcode (is' ! i)) idxs tac_zero) (prog ! i)" by (auto simp: translated_def)
  have "tac_op (switch_opcode i (opcode (is' ! i)) idxs tac_zero) \<noteq> EXTENSION" using transforms_kept [OF t] assms(4) by auto
  then show ?thesis unfolding transforms_ext [OF t] by (auto simp: switch_opcode_def tac_zero_def split: option.splits if_splits)
qed

subsection \<open>Properties\<close>

text \<open>
  C9. The engine is safe. A batch whose operands have known arrays, whose kernels name its instructions and hold extension
  methods only in first place, executes to an error code for every code generator, compiler, linker (as long as no
  symbol resolves to NULL), kernel function and extension method that keeps the memory in order: no access leaves a table,
  ownership of memory is kept, every kernel is called through a loaded function, and every array a kernel writes has its
  memory at the time of the call. After a success no loaded function is NULL, so the next batch can be executed.
\<close>

theorem execute_safe:
  fixes env :: "'w cpu_env"
  assumes "env_ok env" and "mem_inv (est_mem s)" and "batch_ok (bases (est_mem s)) is" and "outputs_ok is"
    and "\<forall>krnl \<in> set krnls. kernel_ok is krnl" and "extensions_ok eng (dom (bases (est_mem s)))" and "funcs_ok (est_store s)" and "est_calls s = []"
  shows "\<exists>e is' s'. execute env eng init is krnls s = Some (e, is', s') \<and> mem_inv (est_mem s') \<and>
    dom (bases (est_mem s')) = dom (bases (est_mem s)) \<and>
    (\<forall>c \<in> set (est_calls s'). kc_fun c \<noteq> NULL \<and> (\<forall>p \<in> set (kc_outputs c). allocated (kc_bases c) p)) \<and>
    (e = BH_SUCCESS \<longrightarrow> funcs_ok (est_store s'))"
proof -
  let ?D = "dom (bases (est_mem s))"
  obtain prog is' st where c: "compile_batch (bases (est_mem s)) init is = Inr (prog, is', st)"
    using compile_batch_translated [OF assms(3), of init] by blast
  note r = compile_batch_runs [OF assms(3,4) c]
  have "kernel_ok is' krnl" if "krnl \<in> set krnls" for krnl
  proof -
    have k: "\<forall>i \<in> set (instr_indexes krnl). i < length is \<and> (is_extension (is ! i) \<longrightarrow> is_extension (is ! hd (instr_indexes krnl)))"
      using assms(5) that by (simp add: kernel_ok_def)
    moreover have "is_extension (is' ! i) = is_extension (is ! i)" if "i < length is" for i using r(3) that by (simp add: is_extension_def)
    moreover have "hd (instr_indexes krnl) < length is" if "i \<in> set (instr_indexes krnl)" for i using k that by (cases "instr_indexes krnl") auto
    ultimately show ?thesis using r(4) unfolding kernel_ok_def by simp
  qed
  moreover have "state_ok ?D s" using assms(2,8) by (simp add: state_ok_def)
  ultimately obtain e st' s' where "execute_loop env eng is' prog krnls (Block_new no_iterspace) st s = Some (e, st', s')" "state_ok ?D s'"
    "e = BH_SUCCESS \<longrightarrow> funcs_ok (est_store s')"
    using execute_loop_ok [OF assms(1,6) r(1) _ _ assms(7) r(2), of krnls "Block_new no_iterspace"] by blast
  then show ?thesis using c by (auto simp: execute_def state_ok_def call_ok_def)
qed

text \<open>
  C33. A kernel that starts with an extension method runs only the extension method: whatever other instructions the
  kernel has, such as the release of an array fused into it, are dropped. When an extension method is in another place, the
  engine follows a NULL pointer.
\<close>

theorem extension_kernel_drops_rest:
  fixes env :: "'w cpu_env"
  assumes "batch_ok bs is" and "outputs_ok is" and "compile_batch bs init is = Inr (prog, is', st)"
    and "instr_indexes krnl = i # idxs" and "set (i # idxs) \<subseteq> {..<length is}" and "is_extension (is ! j)" and "j \<in> set (i # idxs)"
  shows "if is_extension (is ! i) then execute_kernel env eng is' prog krnl b st s =
      (case extensions eng (opcode (is ! i)) of
         None \<Rightarrow> Some (BH_SUCCESS, st, s)
       | Some f \<Rightarrow> (case f (is' ! i) (est_mem s) (est_world s) of (e, m, w) \<Rightarrow> Some (e, st, s\<lparr>est_mem := m, est_world := w\<rparr>)))
    else execute_kernel env eng is' prog krnl b st s = None"
proof -
  note r = compile_batch_runs [OF assms(1-3)]
  have ext: "tac_op (prog ! k) = EXTENSION \<longleftrightarrow> is_extension (is ! k)" "is_extension (is ! k) \<Longrightarrow> tac_ext (prog ! k) = Some k" if "k < length is" for k
    using r(1,3,4) that by (auto simp: program_ok_def is_extension_def)
  have "\<forall>k \<in> set (i # idxs). k < length prog" using assms(5) r(1,4) by (auto simp: program_ok_def)
  from make_block_ok [OF this r(2)] obtain b1 where b1: "make_block is' (table st) prog (i # idxs) b = Inr b1" "b_tacs b1 = i # idxs"
    "b_omask b1 = fold (\<lambda>i m. m OR operation_code (tac_op (prog ! i))) (i # idxs) 0" by blast
  have j: "j < length is" "i < length is" using assms(5,7) by auto
  have "b_omask b1 AND operation_code EXTENSION > 0" using omask_extension [OF b1(3)] ext(1) [OF j(1)] assms(6,7) by blast
  then have x: "execute_kernel env eng is' prog krnl b st s = map_option (\<lambda>(res, s). (res, st, s)) (run_extension eng is' prog b1 s)"
    using b1(1) assms(4) by (simp add: execute_kernel_def Let_def)
  show ?thesis
  proof (cases "is_extension (is ! i)")
    case True
    then show ?thesis using x b1(2) ext(2) [OF j(2)] r(3) j(2)
      by (auto simp: run_extension_def Let_def split: option.splits prod.splits)
  next
    case False
    then have "tac_op (prog ! i) \<noteq> EXTENSION" using ext(1) [OF j(2)] by simp
    then have "tac_ext (prog ! i) = None" using compile_batch_ext [OF assms(1,3) j(2)] by blast
    then show ?thesis using x b1(2) False by (simp add: run_extension_def)
  qed
qed

text \<open>
  C34. A symbol that cannot be resolved poisons the store: the first execution of a block whose library opens but lacks the
  function reports an error, but leaves NULL under the symbol, which then counts as ready; the next execution of the
  same block calls through NULL. (Shown for the engine without compilation, which relies on stored libraries.)
\<close>

theorem failed_load_calls_null:
  fixes env :: "'w cpu_env"
  assumes "\<not> jit_enabled eng" and "0 < narray_tacs b" and "symbolize is (table st) prog b = Inr c"
    and "\<not> symbol_ready (b_symbol c) (est_store s)" and "omap_find (libraries (est_store s)) (b_symbol c) = Some l"
    and "handles (est_store s) l = Some h" and "dlsym (env_dl env) (est_world s) h (kernel_prefix @ b_symbol c) = None"
    and "serve bh_vcache_malloc_base (env_os env) (output_bases (table st) prog c) (est_mem s) = Some (BH_SUCCESS, m)"
  shows "\<exists>s1. execute_block env eng is prog tmps b st s = Some (BH_ERROR, st, s1) \<and> symbol_ready (b_symbol c) (est_store s1) \<and>
    execute_block env eng is prog tmps b st s1 = None"
proof -
  have n: "0 < narray_tacs c" using assms(2,3) by (auto simp: symbolize_def narray_tacs_def Let_def split: sum.splits)
  let ?s1 = "s\<lparr>est_store := (est_store s)\<lparr>funcs := (funcs (est_store s))(b_symbol c \<mapsto> NULL)\<rparr>\<rparr>"
  have "load_block env eng is (table st) prog c s = (False, ?s1)"
    using assms(1,4-7) n by (simp add: load_block_def Let_def store_load_def load_library_def)
  then have "execute_block env eng is prog tmps b st s = Some (BH_ERROR, st, ?s1)"
    using assms(1,3) by (simp add: execute_block_def)
  moreover have "symbol_ready (b_symbol c) (est_store ?s1)" by (simp add: symbol_ready_def)
  moreover have "load_block env eng is (table st) prog c ?s1 = (True, ?s1)"
    using assms(1) by (simp add: load_block_def Let_def symbol_ready_def)
  then have "execute_block env eng is prog tmps b st ?s1 = None"
    using assms(1,3,8) n by (simp add: execute_block_def run_block_def Let_def)
  ultimately show ?thesis by blast
qed

subsection \<open>A concrete engine\<close>

definition demo_env :: "unit cpu_env" where
  "demo_env = \<lparr>env_os = simple_os, env_dl = one_kernel, generate_source = (\<lambda>_ _ _ _. []), write_file = (\<lambda>_ _ w. w),
     compile_file = (\<lambda>_ _ w. (True, w)), compile_text = (\<lambda>_ _ w. (True, w)), call_kernel = (\<lambda>_ _ _ _ w. w)\<rparr>"

definition demo_state :: "kernel_store \<Rightarrow> unit engine_state" where
  "demo_state st = \<lparr>est_mem = two_bases 10, est_store = st, est_world = (), est_calls = []\<rparr>"

definition demo_kernel :: "nat list \<Rightarrow> bh_ir_kernel" where
  "demo_kernel idxs = bh_ir_kernel_new\<lparr>instr_indexes := idxs\<rparr>"

lemma demo_mappable: "\<forall>k \<in> {0, 1, 2}. mappable (bases (two_bases 10)) [add_constant BH_UINT8] 0 k"
  by (simp add: mappable_def add_constant_def two_bases_def mk_view_def wf_view_def nonneg_shape_def BH_MAXDIM_def operand_etype_def wf_constant_def)

lemma demo_batch: "batch_ok (bases (two_bases 10)) [add_constant BH_UINT8]" "outputs_ok [add_constant BH_UINT8]"
  using demo_mappable binary_rows(1)
  by (simp_all add: batch_ok_def mapped_operands_three add_constant_def outputs_ok_def mk_view_def)

theorem execute_safe_witness:
  "\<exists>e is' s'. execute demo_env (engine_of_level 3 True) (\<lambda>_. undefined) [add_constant BH_UINT8] [demo_kernel [0]]
     (demo_state (Store_new (\<lambda>_. CHR ''0'') ''/obj'' ''/krn'')) = Some (e, is', s') \<and> mem_inv (est_mem s')"
proof -
  let ?s = "demo_state (Store_new (\<lambda>_. CHR ''0'') ''/obj'' ''/krn'')"
  have "env_ok demo_env" using simple_os_ok by (simp add: env_ok_def demo_env_def one_kernel_def)
  moreover have "mem_inv (est_mem ?s)" using two_bases_inv by (simp add: demo_state_def)
  moreover have "batch_ok (bases (est_mem ?s)) [add_constant BH_UINT8]" using demo_batch(1) by (simp add: demo_state_def)
  moreover have "\<forall>krnl \<in> set [demo_kernel [0]]. kernel_ok [add_constant BH_UINT8] krnl" by (simp add: kernel_ok_def demo_kernel_def)
  moreover have "extensions_ok (engine_of_level 3 True :: unit engine) D" for D by (simp add: extensions_ok_def engine_of_level_def)
  moreover have "funcs_ok (est_store ?s)" "est_calls ?s = []" by (simp_all add: funcs_ok_def demo_state_def Store_new_def)
  ultimately show ?thesis
    using execute_safe [of demo_env ?s "[add_constant BH_UINT8]" "[demo_kernel [0]]" "engine_of_level 3 True" "\<lambda>_. undefined"] demo_batch(2) by blast
qed

text \<open>An extension method on arrays 1 and 2, and the release of array 2.\<close>

definition ext_batch :: program where
  "ext_batch = [(add_constant BH_UINT8)\<lparr>opcode := 1000\<rparr>, (add_constant BH_UINT8)\<lparr>opcode := BH_FREE\<rparr>]"

definition ext_engine :: "unit engine" where
  "ext_engine = (engine_of_level 3 True)\<lparr>extensions := [1000 \<mapsto> (\<lambda>a m w. (BH_SUCCESS, m, w))]\<rparr>"

lemma ext_rows: "map_of tac_table 1000 = None" "map_of tac_table BH_FREE = Some (SYSTEM, FREE, 0)" "BH_MAX_OPCODE_ID \<le> 1000" "BH_FREE \<noteq> BH_NONE"
  "BH_NONE \<noteq> 1000" "BH_FREE \<notin> {BH_ADD, BH_MULTIPLY, BH_DIVIDE}" "(1000 :: bh_opcode) \<notin> {BH_ADD, BH_MULTIPLY, BH_DIVIDE}"
  by code_simp+

theorem extension_kernel_drops_rest_witness:
  "\<exists>prog is' st. compile_batch (bases (two_bases 10)) (\<lambda>_. undefined) ext_batch = Inr (prog, is', st) \<and>
     execute_kernel demo_env ext_engine is' prog (demo_kernel [0, 1]) (Block_new no_iterspace) st
       (demo_state (Store_new (\<lambda>_. CHR ''0'') ''/obj'' ''/krn'')) =
     Some (BH_SUCCESS, st, demo_state (Store_new (\<lambda>_. CHR ''0'') ''/obj'' ''/krn''))"
proof -
  let ?s = "demo_state (Store_new (\<lambda>_. CHR ''0'') ''/obj'' ''/krn'')"
  have "mappable (bases (two_bases 10)) ext_batch i k = mappable (bases (two_bases 10)) [add_constant BH_UINT8] 0 k" if "i < 2" for i k
    using that by (auto simp: mappable_def ext_batch_def less_2_cases_iff)
  then have m: "mappable (bases (two_bases 10)) ext_batch i k" if "i < 2" "k \<in> {0, 1, 2}" for i k using demo_mappable that by blast
  have ks: "mapped_operands (opcode (ext_batch ! 0)) = [0, 1, 2]" "mapped_operands (opcode (ext_batch ! 1)) = [0]"
    using ext_rows by (simp_all add: mapped_operands_def ext_batch_def)
  have ok: "batch_ok (bases (two_bases 10)) ext_batch"
    unfolding batch_ok_def
  proof (intro allI impI conjI)
    fix i assume "i < length ext_batch"
    then have i: "i < 2" by (simp add: ext_batch_def)
    then show "\<forall>k \<in> set (mapped_operands (opcode (ext_batch ! i))). mappable (bases (two_bases 10)) ext_batch i k"
      using m [OF i] ks by (auto simp: less_2_cases_iff)
    assume "opcode (ext_batch ! i) \<in> {BH_ADD, BH_MULTIPLY, BH_DIVIDE} \<and> base (operand (ext_batch ! i) ! 2) = NULL"
    then show "ctype (inst_constant (ext_batch ! i)) \<notin> {BH_COMPLEX64, BH_COMPLEX128}"
      using i ext_rows(6,7) unfolding less_2_cases_iff by (auto simp: ext_batch_def add_constant_def)
  qed
  have out: "outputs_ok ext_batch" using ext_rows by (simp add: outputs_ok_def ext_batch_def add_constant_def mk_view_def)
  obtain prog is' st where c: "compile_batch (bases (two_bases 10)) (\<lambda>_. undefined) ext_batch = Inr (prog, is', st)"
    using compile_batch_translated [OF ok] by blast
  have e: "is_extension (ext_batch ! 0)" using ext_rows by (simp add: is_extension_def ext_batch_def)
  have "instr_indexes (demo_kernel [0, 1]) = 0 # [1]" "set (0 # [1]) \<subseteq> {..<length ext_batch}" "0 \<in> set (0 # [1 :: nat])"
    by (simp_all add: demo_kernel_def ext_batch_def)
  from extension_kernel_drops_rest [OF ok out c this(1,2) e this(3), of demo_env ext_engine "Block_new no_iterspace" ?s] e
  have "execute_kernel demo_env ext_engine is' prog (demo_kernel [0, 1]) (Block_new no_iterspace) st ?s = Some (BH_SUCCESS, st, ?s)"
    by (simp add: ext_engine_def ext_batch_def)
  then show ?thesis using c by blast
qed

text \<open>An engine without compilation, with a library that lacks the kernel of \<open>sqrt_block\<close>.\<close>

definition sqrt_symbol_name :: string where
  "sqrt_symbol_name = (case symbolize [] [sqrt_operand 1, sqrt_operand 2] sqrt_program (sqrt_block 1 2) of Inr c \<Rightarrow> b_symbol c | Inl e \<Rightarrow> [])"

definition broken_store :: kernel_store where
  "broken_store = \<lparr>funcs = Map.empty, handles = [''lib.so'' \<mapsto> 1], libraries = [(sqrt_symbol_name, ''lib.so'')], object_directory = ''/obj'',
     kernel_directory = ''/krn'', uid = ''000000''\<rparr>"

theorem failed_load_calls_null_witness:
  "let env = demo_env\<lparr>env_dl := one_kernel\<lparr>dlsym := (\<lambda>_ _ _. None)\<rparr>\<rparr>;
       st = \<lparr>table = [sqrt_operand 1, sqrt_operand 2], nsymbols = 1\<rparr>
   in \<exists>s1. execute_block env (engine_of_level 0 False) [] sqrt_program [] (sqrt_block 1 2) st (demo_state broken_store) = Some (BH_ERROR, st, s1) \<and>
     execute_block env (engine_of_level 0 False) [] sqrt_program [] (sqrt_block 1 2) st s1 = None"
proof -
  let ?env = "demo_env\<lparr>env_dl := one_kernel\<lparr>dlsym := (\<lambda>_ _ _. None)\<rparr>\<rparr>" and ?tbl = "[sqrt_operand 1, sqrt_operand 2]"
  obtain c where c: "symbolize [] ?tbl sqrt_program (sqrt_block 1 2) = Inr c" using sqrt_symbol [of 1 2 "[]"] by auto
  have y: "b_symbol c = sqrt_symbol_name" using c by (simp add: sqrt_symbol_name_def)
  have n: "b_tacs c = [0]" using c by (auto simp: symbolize_def Let_def sqrt_block_def split: sum.splits)
  have outs: "output_bases ?tbl sqrt_program c = [2]"
    using n by (simp add: output_bases_def needs_output_def sqrt_program_def sqrt_operand_def op_in_def layout_in_def ARRAY_OPS_def)
  have "map_option fst (bh_vcache_malloc_base simple_os 2 (two_bases 10)) = Some BH_SUCCESS" by code_simp
  then obtain m where m: "bh_vcache_malloc_base simple_os 2 (two_bases 10) = Some (BH_SUCCESS, m)" by auto
  have "serve bh_vcache_malloc_base (env_os ?env) (output_bases (table \<lparr>table = ?tbl, nsymbols = 1\<rparr>) sqrt_program c) (est_mem (demo_state broken_store)) = Some (BH_SUCCESS, m)"
    using outs m by (simp add: demo_env_def demo_state_def)
  moreover have "\<not> jit_enabled (engine_of_level 0 False :: unit engine)" "0 < narray_tacs (sqrt_block 1 2)"
    by (simp_all add: engine_of_level_def narray_tacs_def sqrt_block_def)
  moreover have "symbolize [] (table \<lparr>table = ?tbl, nsymbols = 1\<rparr>) sqrt_program (sqrt_block 1 2) = Inr c" using c by simp
  moreover have "\<not> symbol_ready (b_symbol c) (est_store (demo_state broken_store))" by (simp add: symbol_ready_def demo_state_def broken_store_def)
  moreover have "omap_find (libraries (est_store (demo_state broken_store))) (b_symbol c) = Some ''lib.so''"
    "handles (est_store (demo_state broken_store)) ''lib.so'' = Some 1"
    using y by (simp_all add: demo_state_def broken_store_def)
  moreover have "dlsym (env_dl ?env) (est_world (demo_state broken_store)) 1 (kernel_prefix @ b_symbol c) = None" by simp
  ultimately show ?thesis unfolding Let_def
    using failed_load_calls_null [of "engine_of_level 0 False" "sqrt_block 1 2" "[]" "\<lparr>table = ?tbl, nsymbols = 1\<rparr>" sqrt_program c "demo_state broken_store" "''lib.so''" 1 ?env m "[]"]
    by blast
qed

end
