(* ===== verification/Np_Runtime.thy ===== *)
theory Np_Runtime
  imports Bh_MemSignal "HOL-Library.Monad_Syntax"
begin

text \<open>
  What the NumPy bridge (\<^verbatim>\<open>bridge/npbackend/src/_bhmodule.c\<close> and \<^verbatim>\<open>operator_overload.c\<close>) sees of
  its surroundings.

  \<^item> \<open>np_state\<close>: reference counts, the pending exception, a log of the calls into Python, the NumPy
    array structures by address, the memory mappings with protection and contents, and the state of
    the memory-access signals (theory \<open>Bh_MemSignal\<close>).
  \<^item> \<open>py_api\<close> is a parameter: CPython, NumPy and the Python half of Bohrium. A call may change the
    state in any way; \<open>None\<close> means it does not return. C functions that take an object slot of the
    NumPy base type (\<^verbatim>\<open>tp_new\<close>, \<^verbatim>\<open>mp_subscript\<close>, ...) are calls under the slot's name.
  \<^item> \<open>np_os\<close> is a parameter: which system calls the kernel accepts. Their effect on the mappings is
    what the manual pages document.
  \<^item> The result of a function that returns \<^verbatim>\<open>PyObject *\<close> is an address, NULL for a raised exception.
    An outer \<open>None\<close> is undefined behaviour, a failed assertion or a call that blocks.
\<close>

subsection \<open>State\<close>

datatype py_exc = PyExc_TypeError | PyExc_RuntimeError | PyExc_ValueError | PyExc_NotImplementedError
  | RaisedByCallee nat

datatype py_arg = PyObj ptr | PyInt int | PySliceObj int int | PyTuple "py_arg list"

datatype prot = PROT_NONE | PROT_WRITE

record region =
  rg_size :: int
  rg_prot :: prot
  rg_data :: "byte list"

text \<open>The fields of a NumPy array (and of a \<^verbatim>\<open>BhArray\<close>, when \<open>is_bharray\<close>) that the sources use.\<close>

record bharray =
  is_bharray :: bool
  arr_data :: addr
  arr_nbytes :: int
  arr_itemsize :: int
  arr_size :: int
  arr_ndim :: nat
  OWNDATA :: bool
  WRITEABLE :: bool
  ISCARRAY_RO :: bool
  ITEM_REFCOUNT :: bool
  bhc_ary :: ptr
  bhc_ary_version :: ptr
  bhc_view :: ptr
  bhc_view_version :: ptr
  mmap_allocated :: bool

record np_state =
  refs :: "ptr \<Rightarrow> int"
  pending :: "py_exc option"
  log :: "(string \<times> string \<times> py_arg list) list"
  arrays :: "ptr \<rightharpoonup> bharray"
  pylong :: "ptr \<rightharpoonup> addr"
  regions :: "addr \<rightharpoonup> region"
  sig :: sig_state

type_synonym 'a np_result = "('a \<times> np_state) option"

record py_api =
  api_call :: "string \<Rightarrow> string \<Rightarrow> py_arg list \<Rightarrow> np_state \<Rightarrow> ptr np_result"
  IsInstance :: "ptr \<Rightarrow> np_state \<Rightarrow> int"
  FromSsize_t :: "int \<Rightarrow> np_state \<Rightarrow> ptr \<times> np_state"
  TupleItems :: "ptr \<Rightarrow> np_state \<Rightarrow> ptr list option"
  Slice_Check :: "ptr \<Rightarrow> np_state \<Rightarrow> bool"
  IntegerScalar :: "ptr \<Rightarrow> np_state \<Rightarrow> bool"
  Index_Check :: "ptr \<Rightarrow> np_state \<Rightarrow> bool"
  Sequence_Check :: "ptr \<Rightarrow> np_state \<Rightarrow> bool"
  Nonzero :: "ptr \<Rightarrow> np_state \<Rightarrow> int"

record np_os =
  os_mmap :: "np_state \<Rightarrow> int \<Rightarrow> addr option"
  os_mprotect :: "np_state \<Rightarrow> addr \<Rightarrow> int \<Rightarrow> prot \<Rightarrow> bool"
  os_munmap :: "np_state \<Rightarrow> addr \<Rightarrow> int \<Rightarrow> bool"
  os_mremap :: "np_state \<Rightarrow> addr \<Rightarrow> addr \<Rightarrow> int \<Rightarrow> bool"
  MREMAP_FIXED :: bool

definition Py_None :: ptr where
  "Py_None = 1"

definition Py_NotImplemented :: ptr where
  "Py_NotImplemented = 2"

lemma Py_singletons [simp]: "Py_None \<noteq> NULL" "Py_NotImplemented \<noteq> NULL" "Py_None \<noteq> Py_NotImplemented"
  "0 < Py_None" "0 < Py_NotImplemented"
  by (simp_all add: Py_None_def Py_NotImplemented_def)

subsection \<open>Reference counts, exceptions and calls\<close>

definition Py_INCREF :: "ptr \<Rightarrow> np_state \<Rightarrow> np_state" where
  "Py_INCREF ob s = s\<lparr>refs := (refs s)(ob := refs s ob + 1)\<rparr>"

definition Py_DECREF :: "ptr \<Rightarrow> np_state \<Rightarrow> np_state" where
  "Py_DECREF ob s = s\<lparr>refs := (refs s)(ob := refs s ob - 1)\<rparr>"

definition Py_XDECREF :: "ptr \<Rightarrow> np_state \<Rightarrow> np_state" where
  "Py_XDECREF ob s = (if ob = NULL then s else Py_DECREF ob s)"

definition PyErr_Set :: "py_exc \<Rightarrow> np_state \<Rightarrow> np_state" where
  "PyErr_Set e s = s\<lparr>pending := Some e\<rparr>"

definition PyErr_Print :: "np_state \<Rightarrow> np_state" where
  "PyErr_Print s = s\<lparr>pending := None\<rparr>"

definition CallMethod :: "py_api \<Rightarrow> string \<Rightarrow> string \<Rightarrow> py_arg list \<Rightarrow> np_state \<Rightarrow> ptr np_result" where
  "CallMethod py m f as s = api_call py m f as (s\<lparr>log := log s @ [(m, f, as)]\<rparr>)"

subsection \<open>System calls\<close>

definition sys_mprotect :: "np_os \<Rightarrow> addr \<Rightarrow> int \<Rightarrow> prot \<Rightarrow> np_state \<Rightarrow> bool \<times> np_state" where
  "sys_mprotect os a n p s =
     (if os_mprotect os s a n p
      then (True, s\<lparr>regions := (regions s)(a := map_option (\<lambda>r. r\<lparr>rg_prot := p\<rparr>) (regions s a))\<rparr>)
      else (False, s))"

definition sys_munmap :: "np_os \<Rightarrow> addr \<Rightarrow> int \<Rightarrow> np_state \<Rightarrow> bool \<times> np_state" where
  "sys_munmap os a n s =
     (if os_munmap os s a n then (True, s\<lparr>regions := (regions s)(a := None)\<rparr>) else (False, s))"

text \<open>Anonymous memory is zero-filled.\<close>

definition sys_mmap :: "np_os \<Rightarrow> int \<Rightarrow> prot \<Rightarrow> np_state \<Rightarrow> addr option \<times> np_state" where
  "sys_mmap os n p s =
     (case os_mmap os s n of
        None \<Rightarrow> (None, s)
      | Some a \<Rightarrow> (Some a, s\<lparr>regions := (regions s)
            (a \<mapsto> \<lparr>rg_size = n, rg_prot = p, rg_data = replicate (nat n) 0\<rparr>)\<rparr>))"

text \<open>\<^verbatim>\<open>mremap(src, size, size, MREMAP_FIXED|MREMAP_MAYMOVE, dst)\<close>: the pages move with their protection.\<close>

definition sys_mremap :: "np_os \<Rightarrow> addr \<Rightarrow> addr \<Rightarrow> int \<Rightarrow> np_state \<Rightarrow> bool \<times> np_state" where
  "sys_mremap os src dst n s =
     (if os_mremap os s src dst n
      then (True, s\<lparr>regions := (regions s)(src := None, dst := regions s src)\<rparr>)
      else (False, s))"

lemmas rt_defs [bh_defs] = Py_INCREF_def Py_DECREF_def Py_XDECREF_def PyErr_Set_def PyErr_Print_def
  CallMethod_def sys_mprotect_def sys_munmap_def sys_mmap_def sys_mremap_def

end
