(* ===== verification/Np_Module.thy ===== *)
theory Np_Module
  imports Np_Runtime
begin

text \<open>
  The extension type \<^verbatim>\<open>bohrium.ndarray\<close>: \<^verbatim>\<open>bridge/npbackend/src/_bhmodule.c\<close>, function by function.

  A base array keeps its data twice: the NumPy part, an anonymous mapping protected against all
  access, and the Bohrium part behind \<^verbatim>\<open>bhc_ary\<close>. A stray access to the NumPy part faults; the
  signal handler then moves the data over (\<^verbatim>\<open>BhArray_data_bhc2np\<close>). The last section proves that
  these moves keep a protocol: the NumPy part is either protected and watched, or accessible and
  not watched.
\<close>

subsection \<open>Helpers\<close>

definition ary_nbytes :: "bharray \<Rightarrow> int" where
  "ary_nbytes ary = (let n = arr_nbytes ary in if n = 0 then arr_itemsize ary else n)"

text \<open>\<open>None\<close> inside is the return value -1, \<open>Some d\<close> is 0 with \<open>d\<close> stored through \<^verbatim>\<open>out_data\<close>.\<close>

definition get_bhc_data_pointer :: "py_api \<Rightarrow> ptr \<Rightarrow> int \<Rightarrow> int \<Rightarrow> np_state \<Rightarrow> addr option np_result" where
  "get_bhc_data_pointer py ary force_allocation nullify s = do {
     a \<leftarrow> arrays s ary;
     if \<not> mmap_allocated a then Some (None, PyErr_Set PyExc_TypeError s)
     else do {
       (data, s) \<leftarrow> CallMethod py ''ndarray'' ''get_bhc_data_pointer''
                     [PyObj ary, PyInt force_allocation, PyInt nullify] s;
       if data = NULL then Some (None, s)
       else case pylong s data of
         None \<Rightarrow> Some (None, Py_DECREF data (PyErr_Set PyExc_TypeError s))
       | Some d \<Rightarrow>
           (let s = Py_DECREF data s in
            if force_allocation \<noteq> 0 \<and> d = 0 then Some (None, PyErr_Set PyExc_TypeError s)
            else Some (Some d, s))
     }
   }"

text \<open>\<open>False\<close> is -1.\<close>

definition set_bhc_data_from_ary :: "py_api \<Rightarrow> ptr \<Rightarrow> ptr \<Rightarrow> np_state \<Rightarrow> bool np_result" where
  "set_bhc_data_from_ary py self ary s = do {
     a \<leftarrow> arrays s self;
     if \<not> mmap_allocated a then Some (False, PyErr_Set PyExc_TypeError s)
     else do {
       (ret, s) \<leftarrow> CallMethod py ''ndarray'' ''set_bhc_data_from_ary'' [PyObj self, PyObj ary] s;
       Some (ret \<noteq> NULL, Py_XDECREF ret s)
     }
   }"

definition munprotect :: "np_os \<Rightarrow> addr \<Rightarrow> int \<Rightarrow> np_state \<Rightarrow> bool \<times> np_state" where
  "munprotect os data n s =
     (let (ok, s) = sys_mprotect os data n PROT_WRITE s in
      if \<not> ok then (False, PyErr_Set PyExc_RuntimeError s) else (True, s))"

definition np_munmap :: "np_os \<Rightarrow> addr \<Rightarrow> int \<Rightarrow> np_state \<Rightarrow> bool \<times> np_state" where
  "np_munmap os a n s =
     (let (ok, s) = sys_munmap os a n s in
      if \<not> ok then (False, PyErr_Set PyExc_RuntimeError s) else (True, s))"

text \<open>\<^verbatim>\<open>memcpy\<close> between two mappings.\<close>

definition copy_region :: "addr \<Rightarrow> addr \<Rightarrow> int \<Rightarrow> np_state \<Rightarrow> np_state option" where
  "copy_region dst src n s = do {
     d \<leftarrow> regions s dst;
     r \<leftarrow> regions s src;
     Some (s\<lparr>regions := (regions s)(dst \<mapsto>
       d\<lparr>rg_data := take (nat n) (rg_data r) @ drop (nat n) (rg_data d)\<rparr>)\<rparr>)
   }"

definition mremap_data :: "np_os \<Rightarrow> addr \<Rightarrow> addr \<Rightarrow> int \<Rightarrow> np_state \<Rightarrow> bool np_result" where
  "mremap_data os dst src n s =
     (if MREMAP_FIXED os then
        (let (ok, s) = sys_mremap os src dst n s in
         if \<not> ok then Some (False, PyErr_Set PyExc_RuntimeError s) else Some (True, s))
      else
        (let (ok, s) = munprotect os dst n s in
         if \<not> ok then Some (False, s)
         else do {
           s \<leftarrow> copy_region dst src n s;
           Some (np_munmap os src n s)
         }))"

text \<open>Number of the callback in the signal table; the number stands for \<^verbatim>\<open>mem_access_callback\<close>.\<close>

definition mem_access_callback_id :: nat where
  "mem_access_callback_id = 1"

text \<open>The return code of \<^verbatim>\<open>bh_mem_signal_attach\<close> is ignored by its callers here.\<close>

definition attach_signal :: "ptr \<Rightarrow> bharray \<Rightarrow> np_state \<Rightarrow> np_state option" where
  "attach_signal ary a s = do {
     (e, sg) \<leftarrow> bh_mem_signal_attach ary (arr_data a) (word_of_int (ary_nbytes a)) mem_access_callback_id (sig s);
     Some (s\<lparr>sig := sg\<rparr>)
   }"

definition detach_signal :: "addr \<Rightarrow> np_state \<Rightarrow> np_state option" where
  "detach_signal d s = do {
     (e, sg) \<leftarrow> bh_mem_signal_detach d (sig s);
     Some (s\<lparr>sig := sg\<rparr>)
   }"

definition mprotect_np_part :: "np_os \<Rightarrow> ptr \<Rightarrow> np_state \<Rightarrow> bool np_result" where
  "mprotect_np_part os ary s = do {
     a \<leftarrow> arrays s ary;
     let (ok, s) = sys_mprotect os (arr_data a) (ary_nbytes a) PROT_NONE s;
     if \<not> ok then Some (False, PyErr_Set PyExc_RuntimeError s)
     else do {
       s \<leftarrow> attach_signal ary a s;
       Some (True, s)
     }
   }"

definition protected_malloc :: "np_os \<Rightarrow> ptr \<Rightarrow> np_state \<Rightarrow> bool np_result" where
  "protected_malloc os ary s = do {
     a \<leftarrow> arrays s ary;
     if mmap_allocated a \<or> \<not> OWNDATA a then Some (True, s)
     else do {
       let a = a\<lparr>mmap_allocated := True\<rparr>;
       let s = s\<lparr>arrays := (arrays s)(ary \<mapsto> a)\<rparr>;
       let (r, s) = sys_mmap os (ary_nbytes a) PROT_NONE s;
       case r of
         None \<Rightarrow> Some (False, PyErr_Set PyExc_RuntimeError s)
       | Some d \<Rightarrow> do {
           let a = a\<lparr>arr_data := d\<rparr>;
           s \<leftarrow> attach_signal ary a (s\<lparr>arrays := (arrays s)(ary \<mapsto> a)\<rparr>);
           Some (True, s)
         }
     }
   }"

subsection \<open>Construction and destruction\<close>

definition BhArray_new :: "py_api \<Rightarrow> np_os \<Rightarrow> py_arg list \<Rightarrow> np_state \<Rightarrow> ptr np_result" where
  "BhArray_new py os args s = do {
     (ret, s) \<leftarrow> CallMethod py ''numpy.ndarray'' ''tp_new'' args s;
     (ok, s) \<leftarrow> protected_malloc os ret s;
     if \<not> ok then Some (NULL, s) else Some (ret, s)
   }"

definition BhArray_finalize :: "py_api \<Rightarrow> np_os \<Rightarrow> ptr \<Rightarrow> np_state \<Rightarrow> ptr np_result" where
  "BhArray_finalize py os self s =
     (let e = IsInstance py self s in
      if e = - 1 then Some (NULL, s)
      else if e = 0 then Some (Py_None, Py_INCREF Py_None s)
      else do {
        let (zero, s) = FromSsize_t py 0 s;
        a \<leftarrow> arrays s self;
        let s = s\<lparr>arrays := (arrays s)(self \<mapsto> a\<lparr>bhc_ary := Py_None, bhc_ary_version := zero,
                    bhc_view := Py_None, bhc_view_version := Py_None\<rparr>)\<rparr>;
        let s = Py_INCREF Py_None (Py_INCREF Py_None (Py_INCREF Py_None s));
        (ok, s) \<leftarrow> protected_malloc os self s;
        if \<not> ok then Some (NULL, s) else Some (Py_None, Py_INCREF Py_None s)
      })"

text \<open>
  \<open>obj\<close> is what \<^verbatim>\<open>malloc\<close> returned, \<open>raw\<close> the indeterminate contents of the block;
  \<^verbatim>\<open>PyObject_Init\<close> sets the reference count to one.
\<close>

definition BhArray_alloc :: "ptr \<Rightarrow> bharray \<Rightarrow> np_state \<Rightarrow> ptr np_result" where
  "BhArray_alloc obj raw s =
     (if obj = NULL then None
      else Some (obj, s\<lparr>refs := (refs s)(obj := 1),
                        arrays := (arrays s)(obj \<mapsto> raw\<lparr>is_bharray := True, mmap_allocated := False\<rparr>)\<rparr>))"

definition base_dealloc :: "py_api \<Rightarrow> ptr \<Rightarrow> np_state \<Rightarrow> np_state option" where
  "base_dealloc py self s = map_option snd (CallMethod py ''numpy.ndarray'' ''tp_dealloc'' [PyObj self] s)"

definition BhArray_dealloc :: "py_api \<Rightarrow> np_os \<Rightarrow> ptr \<Rightarrow> np_state \<Rightarrow> np_state option" where
  "BhArray_dealloc py os self s = do {
     a \<leftarrow> arrays s self;
     if \<not> is_bharray a then None
     else do {
       let s = Py_XDECREF (bhc_view a) s;
       let s = Py_XDECREF (bhc_view_version a) s;
       let s = Py_XDECREF (bhc_ary_version a) s;
       let s = Py_XDECREF (bhc_ary a) s;
       if \<not> OWNDATA a then base_dealloc py self s
       else if ITEM_REFCOUNT a then None
       else if mmap_allocated a then do {
         let (ok, s) = np_munmap os (arr_data a) (ary_nbytes a) s;
         let s = (if \<not> ok then PyErr_Print s else s);
         s \<leftarrow> detach_signal (arr_data a) s;
         base_dealloc py self (s\<lparr>arrays := (arrays s)(self \<mapsto> a\<lparr>arr_data := 0\<rparr>)\<rparr>)
       }
       else base_dealloc py self s
     }
   }"

subsection \<open>Moving data between the two parts\<close>

text \<open>
  The signal is detached through \<^verbatim>\<open>PyArray_DATA(base)\<close> before the NULL check of \<^verbatim>\<open>base\<close>, so a failing
  \<^verbatim>\<open>get_base\<close> is a NULL dereference (\<open>arrays s NULL\<close> has no entry). The early returns do not release
  \<^verbatim>\<open>base\<close>.
\<close>

definition BhArray_data_bhc2np :: "py_api \<Rightarrow> np_os \<Rightarrow> ptr \<Rightarrow> np_state \<Rightarrow> ptr np_result" where
  "BhArray_data_bhc2np py os self s = do {
     a0 \<leftarrow> arrays s self;
     if \<not> is_bharray a0 then None
     else do {
       (base, s) \<leftarrow> CallMethod py ''ndarray'' ''get_base'' [PyObj self] s;
       a \<leftarrow> arrays s base;
       s \<leftarrow> detach_signal (arr_data a) s;
       if base = NULL then Some (NULL, s)
       else if \<not> is_bharray a then None
       else if \<not> OWNDATA a then Some (NULL, PyErr_Set PyExc_ValueError s)
       else do {
         (d, s) \<leftarrow> get_bhc_data_pointer py base 0 1 s;
         case d of
           None \<Rightarrow> Some (NULL, s)
         | Some d \<Rightarrow> do {
             a \<leftarrow> arrays s base;
             (ok, s) \<leftarrow> (if d \<noteq> 0 then mremap_data os (arr_data a) d (ary_nbytes a) s
                        else Some (munprotect os (arr_data a) (ary_nbytes a) s));
             if \<not> ok then Some (NULL, s)
             else do {
               (ret, s) \<leftarrow> CallMethod py ''ndarray'' ''del_bhc'' [PyObj self] (Py_DECREF base s);
               if ret = NULL then Some (NULL, s) else Some (Py_None, Py_INCREF Py_None s)
             }
           }
       }
     }
   }"

text \<open>
  The result of the move is ignored but for printing the exception. The warning itself may raise,
  which is ignored too.
\<close>

definition mem_access_callback :: "py_api \<Rightarrow> np_os \<Rightarrow> ptr \<Rightarrow> addr \<Rightarrow> np_state \<Rightarrow> np_state option" where
  "mem_access_callback py os ary a s = do {
     (w, s) \<leftarrow> CallMethod py ''warnings'' ''warn'' [] s;
     (r, s) \<leftarrow> BhArray_data_bhc2np py os ary s;
     Some (if r = NULL then PyErr_Print s else s)
   }"

definition BhArray_data_np2bhc :: "py_api \<Rightarrow> np_os \<Rightarrow> ptr \<Rightarrow> np_state \<Rightarrow> ptr np_result" where
  "BhArray_data_np2bhc py os self s = do {
     a0 \<leftarrow> arrays s self;
     if \<not> is_bharray a0 then None
     else do {
       (base, s) \<leftarrow> CallMethod py ''ndarray'' ''get_base'' [PyObj self] s;
       if base = NULL then Some (NULL, s)
       else do {
         a \<leftarrow> arrays s base;
         if \<not> is_bharray a then None
         else if \<not> OWNDATA a then Some (NULL, PyErr_Set PyExc_ValueError s)
         else do {
           (ok, s) \<leftarrow> (if bhc_ary a = Py_None then do {
               (err, s) \<leftarrow> CallMethod py ''ndarray'' ''new_bhc_base'' [PyObj base] s;
               if err = NULL then Some (False, s) else Some (True, Py_DECREF err s)
             } else Some (True, s));
           if \<not> ok then Some (NULL, s)
           else do {
             a \<leftarrow> arrays s base;
             s \<leftarrow> detach_signal (arr_data a) s;
             let (ok, s) = munprotect os (arr_data a) (ary_nbytes a) s;
             if \<not> ok then Some (NULL, s)
             else do {
               (ok, s) \<leftarrow> set_bhc_data_from_ary py base base s;
               if \<not> ok then Some (NULL, s)
               else do {
                 (ok, s) \<leftarrow> mprotect_np_part os base s;
                 if \<not> ok then Some (NULL, s)
                 else Some (Py_None, Py_INCREF Py_None (Py_DECREF base s))
               }
             }
           }
         }
       }
     }
   }"

text \<open>\<open>args\<close> is the argument tuple; \<^verbatim>\<open>PyArg_ParseTuple\<close> accepts exactly one object.\<close>

definition BhArray_data_fill :: "py_api \<Rightarrow> ptr \<Rightarrow> ptr list \<Rightarrow> np_state \<Rightarrow> ptr np_result" where
  "BhArray_data_fill py self args s =
     (case args of
        [np_ary] \<Rightarrow>
          (case arrays s np_ary of
             None \<Rightarrow> Some (NULL, PyErr_Set PyExc_TypeError s)
           | Some a \<Rightarrow>
               if \<not> ISCARRAY_RO a then Some (NULL, PyErr_Set PyExc_TypeError s)
               else do {
                 (ok, s) \<leftarrow> set_bhc_data_from_ary py self np_ary s;
                 if \<not> ok then Some (NULL, s) else Some (Py_None, Py_INCREF Py_None s)
               })
      | _ \<Rightarrow> Some (NULL, PyErr_Set PyExc_TypeError s))"

subsection \<open>Copies and forwarded methods\<close>

text \<open>The common tail of the two copies: assign into \<open>ret\<close>, released on failure.\<close>

definition assign_into :: "py_api \<Rightarrow> ptr \<Rightarrow> ptr \<Rightarrow> np_state \<Rightarrow> ptr np_result" where
  "assign_into py self ret s =
     (if ret = NULL then Some (NULL, s)
      else do {
        (err, s) \<leftarrow> CallMethod py ''ufunc'' ''assign'' [PyObj self, PyObj ret] s;
        if err = NULL then Some (NULL, Py_DECREF ret s) else Some (ret, Py_DECREF err s)
      })"

definition BhArray_copy :: "py_api \<Rightarrow> ptr \<Rightarrow> np_state \<Rightarrow> ptr np_result" where
  "BhArray_copy py self s = do {
     (ret, s) \<leftarrow> CallMethod py ''array_create'' ''empty_like'' [PyObj self] s;
     assign_into py self ret s
   }"

definition BhArray_copy2numpy :: "py_api \<Rightarrow> ptr \<Rightarrow> np_state \<Rightarrow> ptr np_result" where
  "BhArray_copy2numpy py self s = do {
     (ret, s) \<leftarrow> CallMethod py ''numpy'' ''PyArray_NewLikeArray'' [PyObj self] s;
     assign_into py self ret s
   }"

definition BhArray_resize :: "np_state \<Rightarrow> ptr np_result" where
  "BhArray_resize s = Some (NULL, PyErr_Set PyExc_NotImplementedError s)"

text \<open>
  \<^verbatim>\<open>method2function\<close> builds the tuple \<open>(self, *args)\<close>; a single object argument that is a tuple is the
  argument list of the call. Releasing the tuple releases what it holds. \<open>tuple_ok\<close>: \<^verbatim>\<open>PyTuple_New\<close>
  succeeded.
\<close>

definition method2function :: "py_api \<Rightarrow> bool \<Rightarrow> string \<Rightarrow> ptr \<Rightarrow> ptr list \<Rightarrow> np_state \<Rightarrow> ptr np_result" where
  "method2function py tuple_ok name self args s =
     (if \<not> tuple_ok then Some (NULL, s)
      else do {
        let s = fold Py_INCREF (self # args) s;
        (ret, s) \<leftarrow> CallMethod py ''bohrium'' name (map PyObj (self # args)) s;
        Some (ret, fold Py_DECREF (self # args) s)
      })"

definition BhArray_reshape :: "py_api \<Rightarrow> bool \<Rightarrow> ptr \<Rightarrow> ptr list \<Rightarrow> np_state \<Rightarrow> ptr np_result" where
  "BhArray_reshape py tuple_ok self args s = method2function py tuple_ok ''reshape'' self args s"

definition BhArray_flatten :: "py_api \<Rightarrow> bool \<Rightarrow> ptr \<Rightarrow> ptr list \<Rightarrow> np_state \<Rightarrow> ptr np_result" where
  "BhArray_flatten py tuple_ok self args s = method2function py tuple_ok ''flatten'' self args s"

definition BhArray_sum :: "py_api \<Rightarrow> bool \<Rightarrow> ptr \<Rightarrow> ptr list \<Rightarrow> np_state \<Rightarrow> ptr np_result" where
  "BhArray_sum py tuple_ok self args s = method2function py tuple_ok ''sum'' self args s"

definition BhArray_prod :: "py_api \<Rightarrow> bool \<Rightarrow> ptr \<Rightarrow> ptr list \<Rightarrow> np_state \<Rightarrow> ptr np_result" where
  "BhArray_prod py tuple_ok self args s = method2function py tuple_ok ''prod'' self args s"

subsection \<open>Subscripts\<close>

text \<open>\<open>False\<close> is -1; \<open>v = NULL\<close> is a deletion. The temporary slice object is passed as its bounds.\<close>

definition set_subscript :: "py_api \<Rightarrow> ptr \<Rightarrow> py_arg \<Rightarrow> ptr \<Rightarrow> np_state \<Rightarrow> bool np_result" where
  "set_subscript py ob key v s =
     (if v = NULL then Some (False, PyErr_Set PyExc_ValueError s)
      else do {
        a \<leftarrow> arrays s ob;
        if \<not> WRITEABLE a then Some (False, PyErr_Set PyExc_ValueError s)
        else do {
          (ret, s) \<leftarrow> CallMethod py ''ufunc'' ''setitem'' [PyObj ob, key, PyObj v] s;
          if ret = NULL then Some (False, s) else Some (True, Py_XDECREF ret s)
        }
      })"

definition BhArray_SetSlice :: "py_api \<Rightarrow> ptr \<Rightarrow> int \<Rightarrow> int \<Rightarrow> ptr \<Rightarrow> np_state \<Rightarrow> bool np_result" where
  "BhArray_SetSlice py ob ilow ihigh v s = set_subscript py ob (PySliceObj ilow ihigh) v s"

definition BhArray_SetItem :: "py_api \<Rightarrow> ptr \<Rightarrow> ptr \<Rightarrow> ptr \<Rightarrow> np_state \<Rightarrow> bool np_result" where
  "BhArray_SetItem py ob key v s = set_subscript py ob (PyObj key) v s"

fun has_slice :: "py_api \<Rightarrow> ptr list \<Rightarrow> np_state \<Rightarrow> bool" where
  "has_slice py [] s = False"
| "has_slice py (a # as) s = (if Slice_Check py a s then True else has_slice py as s)"

definition mp_subscript :: "py_api \<Rightarrow> ptr \<Rightarrow> ptr \<Rightarrow> np_state \<Rightarrow> ptr np_result" where
  "mp_subscript py ob k s = CallMethod py ''numpy.ndarray'' ''mp_subscript'' [PyObj ob, PyObj k] s"

definition BhArray_GetItem :: "py_api \<Rightarrow> np_os \<Rightarrow> ptr \<Rightarrow> ptr \<Rightarrow> np_state \<Rightarrow> ptr np_result" where
  "BhArray_GetItem py os ob k s =
     (if k = NULL then None
      else do {
        a \<leftarrow> arrays s ob;
        if (case TupleItems py k s of None \<Rightarrow> False | Some items \<Rightarrow> length items = arr_ndim a \<and> has_slice py items s)
        then mp_subscript py ob k s
        else if IntegerScalar py k s \<or> (Index_Check py k s \<and> \<not> Sequence_Check py k s) then do {
          (r, s) \<leftarrow> BhArray_data_bhc2np py os ob s;
          if r = NULL then Some (NULL, s) else mp_subscript py ob k s
        }
        else mp_subscript py ob k s
      })"

definition BhArray_GetSeqItem :: "py_api \<Rightarrow> np_os \<Rightarrow> ptr \<Rightarrow> int \<Rightarrow> np_state \<Rightarrow> ptr np_result" where
  "BhArray_GetSeqItem py os ob i s =
     (let (index, s) = FromSsize_t py i s in
      if index = NULL then Some (NULL, s)
      else do {
        (ret, s) \<leftarrow> BhArray_GetItem py os ob index s;
        Some (ret, Py_DECREF index s)
      })"

text \<open>\<^verbatim>\<open>repr\<close> and \<^verbatim>\<open>str\<close> of a temporary NumPy copy.\<close>

definition text_of_copy :: "py_api \<Rightarrow> string \<Rightarrow> ptr \<Rightarrow> np_state \<Rightarrow> ptr np_result" where
  "text_of_copy py slot self s = do {
     a \<leftarrow> arrays s self;
     if \<not> is_bharray a then None
     else do {
       (t, s) \<leftarrow> BhArray_copy2numpy py self s;
       if t = NULL then Some (NULL, s)
       else do {
         (str, s) \<leftarrow> CallMethod py ''numpy.ndarray'' slot [PyObj t] s;
         Some (str, Py_DECREF t s)
       }
     }
   }"

definition BhArray_Repr :: "py_api \<Rightarrow> ptr \<Rightarrow> np_state \<Rightarrow> ptr np_result" where
  "BhArray_Repr py self s = text_of_copy py ''tp_repr'' self s"

definition BhArray_Str :: "py_api \<Rightarrow> ptr \<Rightarrow> np_state \<Rightarrow> ptr np_result" where
  "BhArray_Str py self s = text_of_copy py ''tp_str'' self s"

subsection \<open>The method table\<close>

datatype bh_method = M_finalize | M_data_bhc2np | M_data_np2bhc | M_data_fill | M_copy | M_copy2numpy
  | M_resize | M_reshape | M_flatten | M_sum | M_prod

definition BhArrayMethods :: "(string \<times> bh_method) list" where
  "BhArrayMethods =
     [(''__array_finalize__'', M_finalize), (''_data_bhc2np'', M_data_bhc2np),
      (''_data_np2bhc'', M_data_np2bhc), (''_data_fill'', M_data_fill), (''copy'', M_copy),
      (''copy2numpy'', M_copy2numpy), (''resize'', M_resize), (''reshape'', M_reshape),
      (''flatten'', M_flatten), (''ravel'', M_flatten), (''sum'', M_sum), (''prod'', M_prod)]"

text \<open>A method call as the interpreter makes it: \<^verbatim>\<open>METH_NOARGS\<close> entries accept no argument.\<close>

fun run_method :: "py_api \<Rightarrow> np_os \<Rightarrow> bool \<Rightarrow> bh_method \<Rightarrow> ptr \<Rightarrow> ptr list \<Rightarrow> np_state \<Rightarrow> ptr np_result" where
  "run_method py os tok M_finalize self args s = BhArray_finalize py os self s"
| "run_method py os tok M_data_bhc2np self args s =
     (if args \<noteq> [] then Some (NULL, PyErr_Set PyExc_TypeError s) else BhArray_data_bhc2np py os self s)"
| "run_method py os tok M_data_np2bhc self args s =
     (if args \<noteq> [] then Some (NULL, PyErr_Set PyExc_TypeError s) else BhArray_data_np2bhc py os self s)"
| "run_method py os tok M_data_fill self args s = BhArray_data_fill py self args s"
| "run_method py os tok M_copy self args s =
     (if args \<noteq> [] then Some (NULL, PyErr_Set PyExc_TypeError s) else BhArray_copy py self s)"
| "run_method py os tok M_copy2numpy self args s =
     (if args \<noteq> [] then Some (NULL, PyErr_Set PyExc_TypeError s) else BhArray_copy2numpy py self s)"
| "run_method py os tok M_resize self args s = BhArray_resize s"
| "run_method py os tok M_reshape self args s = BhArray_reshape py tok self args s"
| "run_method py os tok M_flatten self args s = BhArray_flatten py tok self args s"
| "run_method py os tok M_sum self args s = BhArray_sum py tok self args s"
| "run_method py os tok M_prod self args s = BhArray_prod py tok self args s"

subsection \<open>Module initialisation\<close>

text \<open>The static module pointers and the method resolution order of the type (NULL entries are unset).\<close>

record bh_module =
  mod_ndarray :: ptr
  mod_ufunc :: ptr
  mod_bohrium :: ptr
  mod_array_create :: ptr
  tp_mro :: "ptr list"

text \<open>Outcome of the calls that are not Python calls: module and type creation, the tuple resize.\<close>

record init_env =
  PyModule_Create_ok :: bool
  PyType_Ready_ok :: bool
  PyTuple_Resize_ok :: bool
  list_items :: "ptr \<Rightarrow> ptr list"

text \<open>\<open>False\<close>: an attribute lookup failed and the function returned; \<open>ts\<close> are the entries left.\<close>

fun mro_loop :: "py_api \<Rightarrow> nat \<Rightarrow> ptr list \<Rightarrow> bh_module \<Rightarrow> np_state \<Rightarrow> (bool \<times> bh_module) np_result" where
  "mro_loop py i [] m s = Some ((True, m), s)"
| "mro_loop py i (dt # dts) m s = do {
     (t, s) \<leftarrow> CallMethod py ''getattr'' ''type'' [PyObj dt] s;
     if t = NULL then Some ((False, m), s)
     else mro_loop py (Suc i) dts (m\<lparr>tp_mro := (tp_mro m)[i := t]\<rparr>) s
   }"

fun import_modules :: "py_api \<Rightarrow> (string \<times> (ptr \<Rightarrow> bh_module \<Rightarrow> bh_module)) list \<Rightarrow> bh_module \<Rightarrow> np_state \<Rightarrow>
    (bool \<times> bh_module) np_result" where
  "import_modules py [] m s = Some ((True, m), s)"
| "import_modules py ((name, put) # rest) m s = do {
     (p, s) \<leftarrow> CallMethod py ''import'' name [] s;
     if p = NULL then Some ((False, put p m), s) else import_modules py rest (put p m) s
   }"

definition module_imports :: "(string \<times> (ptr \<Rightarrow> bh_module \<Rightarrow> bh_module)) list" where
  "module_imports =
     [(''bohrium.ndarray'', \<lambda>p m. m\<lparr>mod_ndarray := p\<rparr>), (''bohrium.ufunc'', \<lambda>p m. m\<lparr>mod_ufunc := p\<rparr>),
      (''bohrium'', \<lambda>p m. m\<lparr>mod_bohrium := p\<rparr>), (''bohrium.array_create'', \<lambda>p m. m\<lparr>mod_array_create := p\<rparr>)]"

text \<open>\<open>True\<close>: the function ran to its end, the signal handler included; otherwise it returned early.\<close>

definition init_bh :: "py_api \<Rightarrow> init_env \<Rightarrow> bh_module \<Rightarrow> np_state \<Rightarrow> (bool \<times> bh_module) np_result" where
  "init_bh py env m s =
     (if \<not> PyModule_Create_ok env then Some ((False, m), s)
      else do {
        (np, s) \<leftarrow> CallMethod py ''numpy'' ''import_array'' [] s;
        if np = NULL then Some ((False, m), s)
        else if \<not> PyType_Ready_ok env then Some ((False, m), s)
        else do {
          (info, s) \<leftarrow> CallMethod py ''import'' ''bohrium._info'' [] s;
          if info = NULL then Some ((False, m), s)
          else do {
            (dtypes, s) \<leftarrow> CallMethod py ''getattr'' ''numpy_types'' [PyObj info] s;
            if dtypes = NULL then Some ((False, m), s)
            else do {
              let dts = list_items env dtypes;
              let old_size = length (tp_mro m);
              if \<not> PyTuple_Resize_ok env then Some ((False, m), s)
              else do {
                ((ok, m), s) \<leftarrow> mro_loop py old_size dts (m\<lparr>tp_mro := tp_mro m @ replicate (length dts) NULL\<rparr>) s;
                if \<not> ok then Some ((False, m), s)
                else do {
                  ((ok, m), s) \<leftarrow> import_modules py module_imports m (Py_DECREF info s);
                  if \<not> ok then Some ((False, m), s)
                  else do {
                    (e, sg) \<leftarrow> bh_mem_signal_init (sig s);
                    Some ((True, m), s\<lparr>sig := sg\<rparr>)
                  }
                }
              }
            }
          }
        }
      })"

end
