(* ===== verification/Np_Protocol.thy ===== *)
theory Np_Protocol
  imports Np_Module
begin

text \<open>
  The data protection protocol of \<^verbatim>\<open>bohrium.ndarray\<close>. A base array is \<open>Guarded\<close> (its NumPy part
  allows no access and its address is attached to the signal handler with the array as id) or
  \<open>Open\<close> (accessible and not attached). The operations of \<^verbatim>\<open>_bhmodule.c\<close> implement the automaton
  of these two states, as long as the Python half and the kernel do what they document.
\<close>

subsection \<open>What the operations rely on\<close>

text \<open>A Python call that leaves the mappings, the signals and the non-Bohrium fields of arrays alone.\<close>

definition core_of :: "bharray \<Rightarrow> bharray" where
  "core_of a = a\<lparr>bhc_ary := NULL, bhc_ary_version := NULL, bhc_view := NULL, bhc_view_version := NULL\<rparr>"

definition quiet :: "np_state \<Rightarrow> np_state \<Rightarrow> bool" where
  "quiet s s' \<longleftrightarrow> regions s' = regions s \<and> sig s' = sig s \<and>
     (\<forall>q. map_option core_of (arrays s' q) = map_option core_of (arrays s q))"

text \<open>
  The functions of \<^verbatim>\<open>ndarray.pyx\<close> on a base array \<open>p\<close>: \<^verbatim>\<open>get_base\<close> returns the array itself, and the
  others succeed quietly; when the array has a Bohrium part, its data pointer is \<open>d\<close> (0 for none).
\<close>

definition calls_quietly :: "py_api \<Rightarrow> string \<Rightarrow> py_arg list \<Rightarrow> bool" where
  "calls_quietly py f as \<longleftrightarrow>
     (\<forall>s. \<exists>r s'. api_call py ''ndarray'' f as s = Some (r, s') \<and> r \<noteq> NULL \<and> quiet s s')"

definition ndarray_ok :: "py_api \<Rightarrow> ptr \<Rightarrow> addr \<Rightarrow> bool" where
  "ndarray_ok py p d \<longleftrightarrow> p \<noteq> NULL \<and>
     (\<forall>s. \<exists>s'. api_call py ''ndarray'' ''get_base'' [PyObj p] s = Some (p, s') \<and> quiet s s' \<and>
        arrays s' = arrays s) \<and>
     calls_quietly py ''set_bhc_data_from_ary'' [PyObj p, PyObj p] \<and>
     calls_quietly py ''del_bhc'' [PyObj p] \<and>
     calls_quietly py ''new_bhc_base'' [PyObj p] \<and>
     (\<forall>s a. arrays s p = Some a \<longrightarrow> bhc_ary a \<noteq> Py_None \<longrightarrow>
        (\<exists>r s'. api_call py ''ndarray'' ''get_bhc_data_pointer'' [PyObj p, PyInt 0, PyInt 1] s = Some (r, s') \<and>
           r \<noteq> NULL \<and> quiet s s' \<and> pylong s' r = Some d))"

definition os_accepts :: "np_os \<Rightarrow> bool" where
  "os_accepts os \<longleftrightarrow> (\<forall>s a n p. os_mprotect os s a n p) \<and> (\<forall>s a n. os_munmap os s a n) \<and>
     (\<forall>s a b n. os_mremap os s a b n)"

definition sig_ok :: "np_state \<Rightarrow> bool" where
  "sig_ok s \<longleftrightarrow> omap_inv (segments (sig s)) \<and> no_wrap (segments (sig s)) \<and> \<not> signal_mutex (sig s)"

subsection \<open>The two states of a base array\<close>

definition watch :: "ptr \<Rightarrow> bharray \<Rightarrow> segment" where
  "watch p a = \<lparr>seg_idx = p, seg_size = word_of_int (ary_nbytes a), seg_callback = mem_access_callback_id\<rparr>"

definition base_array :: "np_state \<Rightarrow> ptr \<Rightarrow> bharray \<Rightarrow> bool" where
  "base_array s p a \<longleftrightarrow> arrays s p = Some a \<and> is_bharray a \<and> OWNDATA a \<and> mmap_allocated a \<and>
     uint (arr_data a) + ary_nbytes a < 2 ^ 64 \<and> 0 \<le> ary_nbytes a"

definition guarded :: "np_state \<Rightarrow> ptr \<Rightarrow> bharray \<Rightarrow> byte list \<Rightarrow> bool" where
  "guarded s p a content \<longleftrightarrow> base_array s p a \<and> sig_ok s \<and>
     (\<exists>r. regions s (arr_data a) = Some r \<and> rg_prot r = PROT_NONE \<and> rg_data r = content) \<and>
     omap_find (segments (sig s)) (arr_data a) = Some (watch p a)"

definition opened :: "np_state \<Rightarrow> ptr \<Rightarrow> bharray \<Rightarrow> byte list \<Rightarrow> bool" where
  "opened s p a content \<longleftrightarrow> base_array s p a \<and> sig_ok s \<and>
     (\<exists>r. regions s (arr_data a) = Some r \<and> rg_prot r = PROT_WRITE \<and> rg_data r = content) \<and>
     omap_find (segments (sig s)) (arr_data a) = None"

subsection \<open>Lemmas on the helpers\<close>

lemma quiet_core:
  assumes "quiet s s'" and "arrays s p = Some a"
  shows "\<exists>a'. arrays s' p = Some a' \<and> core_of a' = core_of a"
proof -
  have "map_option core_of (arrays s' p) = Some (core_of a)" using assms by (simp add: quiet_def)
  then show ?thesis by (cases "arrays s' p") simp_all
qed

lemma core_fields:
  assumes "core_of a' = core_of a"
  shows "is_bharray a' = is_bharray a" and "arr_data a' = arr_data a" and "arr_nbytes a' = arr_nbytes a"
    and "arr_itemsize a' = arr_itemsize a" and "OWNDATA a' = OWNDATA a" and "mmap_allocated a' = mmap_allocated a"
proof -
  note eq = assms [unfolded core_of_def]
  show "is_bharray a' = is_bharray a" using arg_cong [OF eq, of is_bharray] by simp
  show "arr_data a' = arr_data a" using arg_cong [OF eq, of arr_data] by simp
  show "arr_nbytes a' = arr_nbytes a" using arg_cong [OF eq, of arr_nbytes] by simp
  show "arr_itemsize a' = arr_itemsize a" using arg_cong [OF eq, of arr_itemsize] by simp
  show "OWNDATA a' = OWNDATA a" using arg_cong [OF eq, of OWNDATA] by simp
  show "mmap_allocated a' = mmap_allocated a" using arg_cong [OF eq, of mmap_allocated] by simp
qed

lemma core_nbytes:
  assumes "core_of a' = core_of a"
  shows "ary_nbytes a' = ary_nbytes a"
  using core_fields(3,4) [OF assms] by (simp add: ary_nbytes_def Let_def)

lemma base_array_quiet:
  assumes "quiet s s'" and "base_array s p a"
  shows "\<exists>a'. base_array s' p a' \<and> core_of a' = core_of a"
proof -
  have b: "arrays s p = Some a" using assms(2) by (simp add: base_array_def)
  obtain a' where a': "arrays s' p = Some a'" "core_of a' = core_of a" using quiet_core [OF assms(1) b] by blast
  note fields = core_fields [OF a'(2)] core_nbytes [OF a'(2)]
  have "base_array s' p a'" using assms(2) a'(1) by (simp add: base_array_def fields)
  then show ?thesis using a'(2) by blast
qed

lemma sig_ok_cong: "sig s' = sig s \<Longrightarrow> sig_ok s' = sig_ok s"
  by (simp add: sig_ok_def)

lemma detach_signal_eq:
  "sig_ok s \<Longrightarrow> detach_signal d s = Some (s\<lparr>sig := (sig s)\<lparr>segments := omap_erase d (segments (sig s))\<rparr>\<rparr>)"
  by (simp add: detach_signal_def bh_mem_signal_detach_def sig_ok_def lock_def unlock_def)

lemma sig_ok_detach:
  "sig_ok s \<Longrightarrow> sig_ok (s\<lparr>sig := (sig s)\<lparr>segments := omap_erase d (segments (sig s))\<rparr>\<rparr>)"
  by (simp add: sig_ok_def omap_inv_erase no_wrap_erase)

lemma attach_signal_eq:
  assumes "sig_ok s" and "omap_find (segments (sig s)) (arr_data a) = None"
  shows "attach_signal p a s = Some (s\<lparr>sig := (sig s)\<lparr>segments := omap_set (arr_data a) (watch p a) (segments (sig s))\<rparr>\<rparr>)"
  using assms by (simp add: attach_signal_def bh_mem_signal_attach_def sig_ok_def lock_def unlock_def
      get_segment_eq watch_def)

lemma sig_ok_attach:
  assumes "sig_ok s" and "uint (arr_data a) + ary_nbytes a < 2 ^ 64" and "0 \<le> ary_nbytes a"
  shows "sig_ok (s\<lparr>sig := (sig s)\<lparr>segments := omap_set (arr_data a) (watch p a) (segments (sig s))\<rparr>\<rparr>)"
proof -
  have "ary_nbytes a < 2 ^ 64" using assms(2) uint_ge_0 [of "arr_data a"] by linarith
  then have "uint (word_of_int (ary_nbytes a) :: 64 word) = ary_nbytes a"
    using assms(3) by (simp add: uint_word_of_int)
  then have "int (unat (arr_data a) + unat (word_of_int (ary_nbytes a) :: 64 word)) < 2 ^ 64"
    using assms(2) by simp
  then have "unat (arr_data a) + unat (word_of_int (ary_nbytes a) :: 64 word) < 2 ^ 64"
    by (simp flip: of_nat_less_iff [where 'a = int])
  then show ?thesis using assms(1) by (simp add: sig_ok_def omap_inv_set no_wrap_set watch_def)
qed

lemma base_array_cong: "arrays s' p = arrays s p \<Longrightarrow> base_array s' p a = base_array s p a"
  by (simp add: base_array_def)

lemma openedI:
  assumes "base_array s p a" and "sig_ok s" and "regions s (arr_data a) = Some r" and "rg_prot r = PROT_WRITE"
    and "omap_find (segments (sig s)) (arr_data a) = None"
  shows "opened s p a (rg_data r)"
  using assms by (simp add: opened_def)

lemma opened_quiet:
  assumes "quiet s s'" and "opened s p a c"
  shows "\<exists>a'. opened s' p a' c \<and> core_of a' = core_of a"
proof -
  obtain a' where a': "base_array s' p a'" "core_of a' = core_of a"
    using base_array_quiet [OF assms(1)] assms(2) by (auto simp: opened_def)
  then have "opened s' p a' c"
    using assms core_fields(2) [OF a'(2)] by (simp add: opened_def quiet_def sig_ok_def)
  then show ?thesis using a'(2) by blast
qed

lemma opened_refs: "opened (s\<lparr>refs := f\<rparr>) p a c = opened s p a c"
  "opened (s\<lparr>log := l\<rparr>) p a c = opened s p a c"
  by (simp_all add: opened_def base_array_def sig_ok_def)

lemma call_quiet: "calls_quietly py f as \<Longrightarrow>
    \<exists>r s'. CallMethod py ''ndarray'' f as s = Some (r, s') \<and> r \<noteq> NULL \<and> quiet s s'"
  unfolding calls_quietly_def CallMethod_def by (drule spec) (fastforce simp: quiet_def)

lemma get_base_quiet: "ndarray_ok py p d \<Longrightarrow>
    \<exists>s'. CallMethod py ''ndarray'' ''get_base'' [PyObj p] s = Some (p, s') \<and> quiet s s' \<and> arrays s' = arrays s"
  unfolding ndarray_ok_def CallMethod_def
  by (drule conjunct2, drule conjunct1, drule spec) (fastforce simp: quiet_def)

lemma pointer_call_quiet:
  assumes "ndarray_ok py p d" and "arrays s p = Some a" and "bhc_ary a \<noteq> Py_None"
  shows "\<exists>r s'. CallMethod py ''ndarray'' ''get_bhc_data_pointer'' [PyObj p, PyInt 0, PyInt 1] s = Some (r, s') \<and>
     r \<noteq> NULL \<and> quiet s s' \<and> pylong s' r = Some d"
proof -
  let ?s = "s\<lparr>log := log s @ [(''ndarray'', ''get_bhc_data_pointer'', [PyObj p, PyInt 0, PyInt 1])]\<rparr>"
  have "arrays ?s p = Some a" using assms(2) by simp
  then have "\<exists>r s'. api_call py ''ndarray'' ''get_bhc_data_pointer'' [PyObj p, PyInt 0, PyInt 1] ?s = Some (r, s') \<and>
     r \<noteq> NULL \<and> quiet ?s s' \<and> pylong s' r = Some d"
    using assms(1,3) unfolding ndarray_ok_def by blast
  then show ?thesis by (simp add: CallMethod_def quiet_def)
qed

lemma get_bhc_data_pointer_eq:
  assumes "ndarray_ok py p d" and "base_array s p a" and "bhc_ary a \<noteq> Py_None"
  shows "\<exists>s'. get_bhc_data_pointer py p 0 1 s = Some (Some d, s') \<and> quiet s s'"
proof -
  have a: "arrays s p = Some a" "mmap_allocated a" using assms(2) by (simp_all add: base_array_def)
  obtain r s1 where c: "CallMethod py ''ndarray'' ''get_bhc_data_pointer'' [PyObj p, PyInt 0, PyInt 1] s = Some (r, s1)"
      "r \<noteq> NULL" "quiet s s1" "pylong s1 r = Some d"
    using pointer_call_quiet [OF assms(1) a(1) assms(3)] by blast
  then have "get_bhc_data_pointer py p 0 1 s = Some (Some d, Py_DECREF r s1)"
    using a by (simp add: get_bhc_data_pointer_def Let_def)
  moreover have "quiet s (Py_DECREF r s1)" using c(3) by (simp add: quiet_def Py_DECREF_def)
  ultimately show ?thesis by blast
qed

subsection \<open>Moving the data\<close>

text \<open>Either state, whatever the protection: the NumPy part is mapped and holds \<open>content\<close>.\<close>

definition held :: "np_state \<Rightarrow> ptr \<Rightarrow> bharray \<Rightarrow> byte list \<Rightarrow> bool" where
  "held s p a content \<longleftrightarrow> base_array s p a \<and> sig_ok s \<and>
     (\<exists>r. regions s (arr_data a) = Some r \<and> rg_data r = content)"

lemma guarded_held: "guarded s p a c \<Longrightarrow> held s p a c"
  by (auto simp: guarded_def held_def)

lemma opened_held: "opened s p a c \<Longrightarrow> held s p a c"
  by (auto simp: opened_def held_def)

text \<open>The Bohrium side has no data (\<open>d = 0\<close>) or a mapping of the array's size at \<open>d\<close> that holds \<open>bc\<close>.\<close>

definition bhc_data :: "np_state \<Rightarrow> bharray \<Rightarrow> byte list \<Rightarrow> addr \<Rightarrow> byte list \<Rightarrow> bool" where
  "bhc_data s a c d bc \<longleftrightarrow> d \<noteq> 0 \<longrightarrow> d \<noteq> arr_data a \<and> length c = nat (ary_nbytes a) \<and> length bc = nat (ary_nbytes a) \<and>
     (\<exists>r. regions s d = Some r \<and> rg_prot r = PROT_WRITE \<and> rg_data r = bc)"

lemma munprotect_eq:
  assumes "os_accepts os" and "regions s a = Some r"
  shows "munprotect os a n s = (True, s\<lparr>regions := (regions s)(a \<mapsto> r\<lparr>rg_prot := PROT_WRITE\<rparr>)\<rparr>)"
  using assms by (simp add: munprotect_def sys_mprotect_def os_accepts_def)

lemma mremap_data_eq:
  assumes "os_accepts os" and "regions s dst = Some r0" and "regions s src = Some r1" and "src \<noteq> dst"
    and "rg_prot r1 = PROT_WRITE" and "length (rg_data r0) = nat n" and "length (rg_data r1) = nat n"
  shows "\<exists>s' r. mremap_data os dst src n s = Some (True, s') \<and> regions s' dst = Some r \<and> rg_prot r = PROT_WRITE \<and>
    rg_data r = rg_data r1 \<and> regions s' src = None \<and> arrays s' = arrays s \<and> sig s' = sig s"
proof (cases "MREMAP_FIXED os")
  case True
  then show ?thesis using assms by (simp add: mremap_data_def sys_mremap_def os_accepts_def)
next
  case False
  then show ?thesis
    using assms by (simp add: mremap_data_def munprotect_eq copy_region_def np_munmap_def sys_munmap_def os_accepts_def)
qed

lemma move_to_numpy:
  assumes "os_accepts os" and "base_array s p a" and "regions s (arr_data a) = Some r0" and "bhc_data s a (rg_data r0) d bc"
  shows "\<exists>s' r. (if d \<noteq> 0 then mremap_data os (arr_data a) d (ary_nbytes a) s
      else Some (munprotect os (arr_data a) (ary_nbytes a) s)) = Some (True, s') \<and>
    regions s' (arr_data a) = Some r \<and> rg_prot r = PROT_WRITE \<and> rg_data r = (if d = 0 then rg_data r0 else bc) \<and>
    (d \<noteq> 0 \<longrightarrow> regions s' d = None) \<and> arrays s' = arrays s \<and> sig s' = sig s"
proof (cases "d = 0")
  case True
  then show ?thesis using munprotect_eq [OF assms(1,3)] by simp
next
  case False
  then obtain r1 where r1: "regions s d = Some r1" "rg_prot r1 = PROT_WRITE" "rg_data r1 = bc" "d \<noteq> arr_data a"
      "length (rg_data r0) = nat (ary_nbytes a)" "length bc = nat (ary_nbytes a)"
    using assms(4) by (auto simp: bhc_data_def)
  then show ?thesis
    using mremap_data_eq [OF assms(1,3) r1(1,4,2,5)] False by simp
qed

lemma bhc2np_opens:
  assumes "ndarray_ok py p d" and "os_accepts os" and "held s p a c" and "bhc_ary a \<noteq> Py_None"
    and "bhc_data s a c d bc"
  shows "\<exists>s' a'. BhArray_data_bhc2np py os p s = Some (Py_None, s') \<and>
    opened s' p a' (if d = 0 then c else bc) \<and> core_of a' = core_of a"
proof -
  obtain r0 where h: "base_array s p a" "sig_ok s" "regions s (arr_data a) = Some r0" "rg_data r0 = c"
    using assms(3) by (auto simp: held_def)
  then have a: "arrays s p = Some a" "is_bharray a" "OWNDATA a" by (simp_all add: base_array_def)
  obtain s1 where s1: "CallMethod py ''ndarray'' ''get_base'' [PyObj p] s = Some (p, s1)" "quiet s s1" "arrays s1 = arrays s"
    using get_base_quiet [OF assms(1)] by blast
  define s2 where "s2 = s1\<lparr>sig := (sig s1)\<lparr>segments := omap_erase (arr_data a) (segments (sig s1))\<rparr>\<rparr>"
  have ok1: "sig_ok s1" using h(2) s1(2) by (simp add: quiet_def sig_ok_def)
  have s2: "detach_signal (arr_data a) s1 = Some s2" "sig_ok s2"
    using detach_signal_eq [OF ok1] sig_ok_detach [OF ok1] by (simp_all add: s2_def)
  have nowatch: "omap_find (segments (sig s2)) (arr_data a) = None"
    using ok1 by (simp add: s2_def sig_ok_def omap_find_erase)
  have b2: "base_array s2 p a" using h(1) s1(3) by (simp add: base_array_def s2_def)
  obtain s3 where s3: "get_bhc_data_pointer py p 0 1 s2 = Some (Some d, s3)" "quiet s2 s3"
    using get_bhc_data_pointer_eq [OF assms(1) b2 assms(4)] by blast
  obtain a3 where a3: "base_array s3 p a3" "core_of a3 = core_of a" using base_array_quiet [OF s3(2) b2] by blast
  note f = core_fields [OF a3(2)] core_nbytes [OF a3(2)]
  have reg: "regions s3 = regions s" "sig s3 = sig s2" using s3(2) s1(2) by (simp_all add: quiet_def s2_def)
  have "bhc_data s3 a3 (rg_data r0) d bc" using assms(5) h(4) reg(1) f by (simp add: bhc_data_def)
  then obtain s4 r where s4: "(if d \<noteq> 0 then mremap_data os (arr_data a3) d (ary_nbytes a3) s3
        else Some (munprotect os (arr_data a3) (ary_nbytes a3) s3)) = Some (True, s4)"
      "regions s4 (arr_data a3) = Some r" "rg_prot r = PROT_WRITE" "rg_data r = (if d = 0 then c else bc)"
      "arrays s4 = arrays s3" "sig s4 = sig s3"
    using move_to_numpy [OF assms(2) a3(1), of r0 d bc] h(3,4) reg(1) f by auto
  have a3': "arrays s3 p = Some a3" using a3(1) by (simp add: base_array_def)
  have "opened s4 p a3 (rg_data r)"
    by (rule openedI) (use s4 a3(1) s2(2) nowatch reg(2) f in \<open>simp_all add: base_array_def sig_ok_def\<close>)
  then have o4: "opened (Py_DECREF p s4) p a3 (if d = 0 then c else bc)" using s4(4) by (simp add: Py_DECREF_def opened_refs)
  obtain rt s5 where s5: "CallMethod py ''ndarray'' ''del_bhc'' [PyObj p] (Py_DECREF p s4) = Some (rt, s5)" "rt \<noteq> NULL"
      "quiet (Py_DECREF p s4) s5"
    using call_quiet assms(1) unfolding ndarray_ok_def by blast
  obtain a5 where a5: "opened s5 p a5 (if d = 0 then c else bc)" "core_of a5 = core_of a3" using opened_quiet [OF s5(3) o4] by blast
  have "p \<noteq> NULL" using assms(1) by (simp add: ndarray_ok_def)
  moreover have "arrays s1 p = Some a" using a(1) s1(3) by simp
  ultimately have "BhArray_data_bhc2np py os p s = Some (Py_None, Py_INCREF Py_None s5)"
    using a s1(1) s2(1) s3(1) a3' s4(1) s5(1,2) by (simp add: BhArray_data_bhc2np_def)
  then show ?thesis using a5 a3(2) by (auto simp: Py_INCREF_def opened_refs)
qed

lemma held_quiet:
  assumes "quiet s s'" and "held s p a c"
  shows "\<exists>a'. held s' p a' c \<and> core_of a' = core_of a"
proof -
  obtain a' where a': "base_array s' p a'" "core_of a' = core_of a"
    using base_array_quiet [OF assms(1)] assms(2) by (auto simp: held_def)
  then have "held s' p a' c"
    using assms core_fields(2) [OF a'(2)] by (simp add: held_def quiet_def sig_ok_def)
  then show ?thesis using a'(2) by blast
qed

lemma quiet_refs: "quiet s (Py_DECREF r s') = quiet s s'"
  by (simp add: quiet_def Py_DECREF_def)

lemma set_data_quiet:
  assumes "ndarray_ok py p d" and "base_array s p a"
  shows "\<exists>s'. set_bhc_data_from_ary py p p s = Some (True, s') \<and> quiet s s'"
proof -
  have a: "arrays s p = Some a" "mmap_allocated a" using assms(2) by (simp_all add: base_array_def)
  obtain r s1 where c: "CallMethod py ''ndarray'' ''set_bhc_data_from_ary'' [PyObj p, PyObj p] s = Some (r, s1)"
      "r \<noteq> NULL" "quiet s s1"
    using call_quiet assms(1) unfolding ndarray_ok_def by blast
  then show ?thesis using a by (simp add: set_bhc_data_from_ary_def Py_XDECREF_def quiet_refs)
qed

lemma new_base_quiet:
  assumes "ndarray_ok py p d"
  shows "\<exists>s'. (if bhc_ary a = Py_None then do {
           (err, s) \<leftarrow> CallMethod py ''ndarray'' ''new_bhc_base'' [PyObj p] s;
           if err = NULL then Some (False, s) else Some (True, Py_DECREF err s)
         } else Some (True, s)) = Some (True, s') \<and> quiet s s'"
proof (cases "bhc_ary a = Py_None")
  case True
  obtain r s1 where "CallMethod py ''ndarray'' ''new_bhc_base'' [PyObj p] s = Some (r, s1)" "r \<noteq> NULL" "quiet s s1"
    using call_quiet assms(1) unfolding ndarray_ok_def by blast
  then show ?thesis using True by (simp add: quiet_refs)
qed (simp add: quiet_def)

text \<open>Protecting an accessible, unwatched array.\<close>

lemma mprotect_np_part_guards:
  assumes "os_accepts os" and "opened s p a c"
  shows "\<exists>s'. mprotect_np_part os p s = Some (True, s') \<and> guarded s' p a c"
proof -
  obtain r where h: "base_array s p a" "sig_ok s" "regions s (arr_data a) = Some r" "rg_data r = c"
      "omap_find (segments (sig s)) (arr_data a) = None"
    using assms(2) by (auto simp: opened_def)
  define s1 where "s1 = s\<lparr>regions := (regions s)(arr_data a \<mapsto> r\<lparr>rg_prot := PROT_NONE\<rparr>)\<rparr>"
  have ok: "sig_ok s1" "omap_find (segments (sig s1)) (arr_data a) = None" using h by (simp_all add: s1_def sig_ok_def)
  have w: "uint (arr_data a) + ary_nbytes a < 2 ^ 64" "0 \<le> ary_nbytes a" using h(1) by (simp_all add: base_array_def)
  let ?s2 = "s1\<lparr>sig := (sig s1)\<lparr>segments := omap_set (arr_data a) (watch p a) (segments (sig s1))\<rparr>\<rparr>"
  have "mprotect_np_part os p s = Some (True, ?s2)"
    using h(1,3) assms(1) attach_signal_eq [OF ok]
    by (simp add: mprotect_np_part_def sys_mprotect_def os_accepts_def base_array_def s1_def)
  moreover have "guarded ?s2 p a c"
    using sig_ok_attach [OF ok(1) w] h(1,4)
    by (simp add: guarded_def base_array_def omap_find_set) (simp add: s1_def)
  ultimately show ?thesis by blast
qed

lemma np2bhc_guards:
  assumes "ndarray_ok py p d" and "os_accepts os" and "held s p a c"
  shows "\<exists>s' a'. BhArray_data_np2bhc py os p s = Some (Py_None, s') \<and> guarded s' p a' c \<and> core_of a' = core_of a"
proof -
  have a: "arrays s p = Some a" "is_bharray a" "OWNDATA a" "p \<noteq> NULL"
    using assms(1,3) by (simp_all add: held_def base_array_def ndarray_ok_def)
  obtain s1 where s1: "CallMethod py ''ndarray'' ''get_base'' [PyObj p] s = Some (p, s1)" "quiet s s1" "arrays s1 = arrays s"
    using get_base_quiet [OF assms(1)] by blast
  obtain s2 where s2: "(if bhc_ary a = Py_None then do {
           (err, s) \<leftarrow> CallMethod py ''ndarray'' ''new_bhc_base'' [PyObj p] s1;
           if err = NULL then Some (False, s) else Some (True, Py_DECREF err s)
         } else Some (True, s1)) = Some (True, s2)" "quiet s1 s2"
    using new_base_quiet [OF assms(1)] by blast
  have "held s1 p a c" using assms(3) s1(2,3) by (simp add: held_def quiet_def base_array_def sig_ok_def)
  then obtain a2 where a2: "held s2 p a2 c" "core_of a2 = core_of a" using held_quiet [OF s2(2)] by blast
  then obtain r where r: "base_array s2 p a2" "sig_ok s2" "regions s2 (arr_data a2) = Some r" "rg_data r = c"
    by (auto simp: held_def)
  define s3 where "s3 = s2\<lparr>sig := (sig s2)\<lparr>segments := omap_erase (arr_data a2) (segments (sig s2))\<rparr>\<rparr>"
  have d3: "detach_signal (arr_data a2) s2 = Some s3" using detach_signal_eq [OF r(2)] by (simp add: s3_def)
  have r3: "regions s3 (arr_data a2) = Some r" using r(3) by (simp add: s3_def)
  define s4 where "s4 = s3\<lparr>regions := (regions s3)(arr_data a2 \<mapsto> r\<lparr>rg_prot := PROT_WRITE\<rparr>)\<rparr>"
  have m4: "munprotect os (arr_data a2) (ary_nbytes a2) s3 = (True, s4)" using munprotect_eq [OF assms(2) r3] by (simp add: s4_def)
  have "opened s4 p a2 c"
    using r(1,2,4) sig_ok_detach [OF r(2)] by (simp add: opened_def s4_def s3_def base_array_def sig_ok_def omap_find_erase)
  moreover obtain s5 where s5: "set_bhc_data_from_ary py p p s4 = Some (True, s5)" "quiet s4 s5"
    using set_data_quiet [OF assms(1)] calculation by (auto simp: opened_def)
  ultimately obtain a5 where a5: "opened s5 p a5 c" "core_of a5 = core_of a2" using opened_quiet by blast
  obtain s6 where s6: "mprotect_np_part os p s5 = Some (True, s6)" "guarded s6 p a5 c"
    using mprotect_np_part_guards [OF assms(2) a5(1)] by blast
  have "arrays s2 p = Some a2" "arrays s1 p = Some a" using r(1) a(1) s1(3) by (simp_all add: base_array_def)
  then have "BhArray_data_np2bhc py os p s = Some (Py_None, Py_INCREF Py_None (Py_DECREF p s6))"
    using a s1(1) s2(1) d3 m4 s5(1) s6(1) by (simp add: BhArray_data_np2bhc_def)
  moreover have "guarded (Py_INCREF Py_None (Py_DECREF p s6)) p a5 c"
    using s6(2) by (simp add: guarded_def base_array_def sig_ok_def Py_INCREF_def Py_DECREF_def)
  ultimately show ?thesis using a5(2) a2(2) by auto
qed

lemma protected_malloc_guards:
  assumes "arrays s p = Some a" and "is_bharray a" and "OWNDATA a" and "\<not> mmap_allocated a" and "sig_ok s"
    and "os_mmap os s' (ary_nbytes a) = Some d" and "s' = s\<lparr>arrays := (arrays s)(p \<mapsto> a\<lparr>mmap_allocated := True\<rparr>)\<rparr>"
    and "omap_find (segments (sig s)) d = None" and "uint d + ary_nbytes a < 2 ^ 64" and "0 \<le> ary_nbytes a"
  shows "\<exists>t. protected_malloc os p s = Some (True, t) \<and>
    guarded t p (a\<lparr>mmap_allocated := True, arr_data := d\<rparr>) (replicate (nat (ary_nbytes a)) 0)"
proof -
  let ?a = "a\<lparr>mmap_allocated := True, arr_data := d\<rparr>"
  have n: "ary_nbytes (a\<lparr>mmap_allocated := True\<rparr>) = ary_nbytes a" "ary_nbytes ?a = ary_nbytes a"
    by (simp_all add: ary_nbytes_def Let_def)
  define s1 where "s1 = s\<lparr>regions := (regions s)(d \<mapsto>
      \<lparr>rg_size = ary_nbytes a, rg_prot = PROT_NONE, rg_data = replicate (nat (ary_nbytes a)) 0\<rparr>),
      arrays := (arrays s)(p \<mapsto> ?a)\<rparr>"
  have ok: "sig_ok s1" "omap_find (segments (sig s1)) (arr_data ?a) = None" using assms(5,8) by (simp_all add: s1_def sig_ok_def)
  let ?t = "s1\<lparr>sig := (sig s1)\<lparr>segments := omap_set (arr_data ?a) (watch p ?a) (segments (sig s1))\<rparr>\<rparr>"
  have "protected_malloc os p s = map_option (\<lambda>t. (True, t)) (attach_signal p ?a s1)"
    using assms(1,3,4,6,7) n(1)
    by (cases "attach_signal p ?a s1") (simp_all add: protected_malloc_def sys_mmap_def s1_def Let_def)
  moreover have "guarded ?t p ?a (replicate (nat (ary_nbytes a)) 0)"
    using sig_ok_attach [OF ok(1), of ?a p] assms(2,3,9,10) n
    by (simp add: guarded_def base_array_def omap_find_set) (simp add: s1_def)
  ultimately show ?thesis using attach_signal_eq [OF ok, of p] by auto
qed

subsection \<open>Properties\<close>

text \<open>A Python half, a kernel and two arrays for which all hypotheses hold.\<close>

definition tame_py :: "ptr \<Rightarrow> addr \<Rightarrow> py_api" where
  "tame_py p d = \<lparr>api_call = (\<lambda>m f as s. if f = ''get_base'' then Some (p, s)
       else Some (9, s\<lparr>pylong := (pylong s)(9 \<mapsto> d)\<rparr>)),
     IsInstance = (\<lambda>_ _. 1), FromSsize_t = (\<lambda>_ s. (8, s)), TupleItems = (\<lambda>_ _. None),
     Slice_Check = (\<lambda>_ _. False), IntegerScalar = (\<lambda>_ _. True), Index_Check = (\<lambda>_ _. True),
     Sequence_Check = (\<lambda>_ _. False), Nonzero = (\<lambda>_ _. 1)\<rparr>"

lemma tame_py_ok: "p \<noteq> NULL \<Longrightarrow> ndarray_ok (tame_py p d) p d"
  by (simp add: ndarray_ok_def tame_py_def calls_quietly_def quiet_def)

definition tame_os :: "bool \<Rightarrow> np_os" where
  "tame_os fixed = \<lparr>os_mmap = (\<lambda>s n. Some 8192), os_mprotect = (\<lambda>s a n p. True), os_munmap = (\<lambda>s a n. True),
     os_mremap = (\<lambda>s a b n. True), MREMAP_FIXED = fixed\<rparr>"

lemma tame_os_ok: "os_accepts (tame_os fixed)"
  by (simp add: os_accepts_def tame_os_def)

definition two_byte_array :: bharray where
  "two_byte_array = \<lparr>is_bharray = True, arr_data = 4096, arr_nbytes = 2, arr_itemsize = 1, arr_size = 2, arr_ndim = 1,
     OWNDATA = True, WRITEABLE = True, ISCARRAY_RO = True, ITEM_REFCOUNT = False, bhc_ary = 5, bhc_ary_version = 8,
     bhc_view = 1, bhc_view_version = 1, mmap_allocated = True\<rparr>"

text \<open>The array 3 is guarded and zero; its Bohrium part at 65536 holds the bytes 7 and 9.\<close>

definition guarded_state :: np_state where
  "guarded_state = \<lparr>refs = (\<lambda>_. 1), pending = None, log = [], arrays = [3 \<mapsto> two_byte_array], pylong = Map.empty,
     regions = [4096 \<mapsto> \<lparr>rg_size = 2, rg_prot = PROT_NONE, rg_data = [0, 0]\<rparr>,
                65536 \<mapsto> \<lparr>rg_size = 2, rg_prot = PROT_WRITE, rg_data = [7, 9]\<rparr>],
     sig = \<lparr>signal_mutex = False, initialized = True, segments = [(4096, watch 3 two_byte_array)], segv = Handler\<rparr>\<rparr>"

lemma guarded_state_ok: "guarded guarded_state 3 two_byte_array [0, 0]"
  by (simp add: guarded_def base_array_def sig_ok_def omap_inv_def no_wrap_def guarded_state_def watch_def
      two_byte_array_def ary_nbytes_def Let_def)

lemma guarded_state_bhc: "bhc_data guarded_state two_byte_array [0, 0] 65536 [7, 9]"
  by (simp add: bhc_data_def guarded_state_def two_byte_array_def ary_nbytes_def Let_def)





text \<open>
  \<^verbatim>\<open>_protected_malloc\<close> gives a new base array that owns its data a guarded, zero-filled NumPy part
  of its size; on an array that has one already, or that does not own its data, it does nothing.
\<close>

theorem protected_malloc_correct:
  assumes "arrays s p = Some a" and "is_bharray a" and "sig_ok s" and "0 \<le> ary_nbytes a"
    and "\<And>s'. \<exists>d. os_mmap os s' (ary_nbytes a) = Some d \<and> omap_find (segments (sig s)) d = None \<and>
           uint d + ary_nbytes a < 2 ^ 64"
  shows "\<exists>t. protected_malloc os p s = Some (True, t) \<and>
    (if mmap_allocated a \<or> \<not> OWNDATA a then t = s
     else \<exists>d. guarded t p (a\<lparr>mmap_allocated := True, arr_data := d\<rparr>) (replicate (nat (ary_nbytes a)) 0))"
proof (cases "mmap_allocated a \<or> \<not> OWNDATA a")
  case True
  then show ?thesis using assms(1) by (auto simp: protected_malloc_def)
next
  case False
  obtain d where "os_mmap os (s\<lparr>arrays := (arrays s)(p \<mapsto> a\<lparr>mmap_allocated := True\<rparr>)\<rparr>) (ary_nbytes a) = Some d"
      "omap_find (segments (sig s)) d = None" "uint d + ary_nbytes a < 2 ^ 64"
    using assms(5) by blast
  then show ?thesis
    using protected_malloc_guards [OF assms(1,2) _ _ assms(3) _ refl _ _ assms(4), of os d] False by auto
qed

theorem protected_malloc_correct_witness:
  "\<exists>t d. protected_malloc (tame_os True) 4 (guarded_state\<lparr>arrays := (arrays guarded_state)
       (4 \<mapsto> two_byte_array\<lparr>mmap_allocated := False\<rparr>)\<rparr>) = Some (True, t) \<and>
    guarded t 4 (two_byte_array\<lparr>mmap_allocated := True, arr_data := d\<rparr>) [0, 0]"
proof -
  let ?a = "two_byte_array\<lparr>mmap_allocated := False\<rparr>"
  let ?s = "guarded_state\<lparr>arrays := (arrays guarded_state)(4 \<mapsto> ?a)\<rparr>"
  have n: "ary_nbytes ?a = 2" by (simp add: ary_nbytes_def two_byte_array_def Let_def)
  have "sig_ok guarded_state" using guarded_state_ok by (simp add: guarded_def)
  then have ok: "sig_ok ?s" by (simp add: sig_ok_def)
  have m: "\<exists>d. os_mmap (tame_os True) s' (ary_nbytes ?a) = Some d \<and> omap_find (segments (sig ?s)) d = None \<and>
      uint d + ary_nbytes ?a < 2 ^ 64" for s'
    unfolding n by (simp add: tame_os_def guarded_state_def)
  have "is_bharray ?a" "OWNDATA ?a" "0 \<le> ary_nbytes ?a" unfolding n by (simp_all add: two_byte_array_def)
  then obtain t d where "protected_malloc (tame_os True) 4 ?s = Some (True, t)"
      "guarded t 4 (?a\<lparr>mmap_allocated := True, arr_data := d\<rparr>) (replicate (nat (ary_nbytes ?a)) 0)"
    using protected_malloc_correct [of ?s 4 ?a "tame_os True"] ok m by auto
  then show ?thesis unfolding n by (auto simp: numeral_2_eq_2)
qed



end
