(* ===== verification/Np_Operators.thy ===== *)
theory Np_Operators
  imports Np_Module
begin

text \<open>
  The operators of \<^verbatim>\<open>bohrium.ndarray\<close>: \<^verbatim>\<open>bridge/npbackend/src/operator_overload.c\<close>. Almost every
  operator forwards to a function of the Python module \<^verbatim>\<open>bohrium\<close>; \<open>array_as_number\<close> is the slot
  table. The theorems compare in-place operators with their binary counterparts and follow the
  references through \<^verbatim>\<open>array_divmod\<close>.
\<close>

type_synonym unaryfunc = "py_api \<Rightarrow> ptr \<Rightarrow> np_state \<Rightarrow> ptr np_result"
type_synonym binaryfunc = "py_api \<Rightarrow> ptr \<Rightarrow> ptr \<Rightarrow> np_state \<Rightarrow> ptr np_result"
type_synonym ternaryfunc = "py_api \<Rightarrow> ptr \<Rightarrow> ptr \<Rightarrow> ptr \<Rightarrow> np_state \<Rightarrow> ptr np_result"

abbreviation bh_call :: "py_api \<Rightarrow> string \<Rightarrow> ptr list \<Rightarrow> np_state \<Rightarrow> ptr np_result" where
  "bh_call py f as s \<equiv> CallMethod py ''bohrium'' f (map PyObj as) s"

subsection \<open>Forwarded operators\<close>

definition array_add :: binaryfunc where
  "array_add py m1 m2 s = bh_call py ''add'' [m1, m2] s"

definition array_subtract :: binaryfunc where
  "array_subtract py m1 m2 s = bh_call py ''subtract'' [m1, m2] s"

definition array_multiply :: binaryfunc where
  "array_multiply py m1 m2 s = bh_call py ''multiply'' [m1, m2] s"

definition array_divide :: binaryfunc where
  "array_divide py m1 m2 s = bh_call py ''divide'' [m1, m2] s"

definition array_remainder :: binaryfunc where
  "array_remainder py m1 m2 s = bh_call py ''mod'' [m1, m2] s"

definition array_power :: ternaryfunc where
  "array_power py m1 m2 modulus s = bh_call py ''power'' [m1, m2] s"

definition array_negative :: unaryfunc where
  "array_negative py m1 s = bh_call py ''negative'' [m1] s"

definition array_absolute :: unaryfunc where
  "array_absolute py m1 s = bh_call py ''absolute'' [m1] s"

definition array_invert :: unaryfunc where
  "array_invert py m1 s = bh_call py ''invert'' [m1] s"

definition array_left_shift :: binaryfunc where
  "array_left_shift py m1 m2 s = bh_call py ''left_shift'' [m1, m2] s"

definition array_right_shift :: binaryfunc where
  "array_right_shift py m1 m2 s = bh_call py ''right_shift'' [m1, m2] s"

definition array_bitwise_and :: binaryfunc where
  "array_bitwise_and py m1 m2 s = bh_call py ''bitwise_and'' [m1, m2] s"

definition array_bitwise_or :: binaryfunc where
  "array_bitwise_or py m1 m2 s = bh_call py ''bitwise_or'' [m1, m2] s"

definition array_bitwise_xor :: binaryfunc where
  "array_bitwise_xor py m1 m2 s = bh_call py ''bitwise_xor'' [m1, m2] s"

definition array_inplace_add :: binaryfunc where
  "array_inplace_add py m1 m2 s = bh_call py ''add'' [m1, m2, m1] s"

definition array_inplace_subtract :: binaryfunc where
  "array_inplace_subtract py m1 m2 s = bh_call py ''subtract'' [m1, m2, m1] s"

definition array_inplace_multiply :: binaryfunc where
  "array_inplace_multiply py m1 m2 s = bh_call py ''multiply'' [m1, m2, m1] s"

definition array_inplace_divide :: binaryfunc where
  "array_inplace_divide py m1 m2 s = bh_call py ''divide'' [m1, m2, m1] s"

definition array_inplace_remainder :: binaryfunc where
  "array_inplace_remainder py m1 m2 s = bh_call py ''remainder'' [m1, m2, m1] s"

definition array_inplace_left_shift :: binaryfunc where
  "array_inplace_left_shift py m1 m2 s = bh_call py ''left_shift'' [m1, m2, m1] s"

definition array_inplace_right_shift :: binaryfunc where
  "array_inplace_right_shift py m1 m2 s = bh_call py ''right_shift'' [m1, m2, m1] s"

definition array_inplace_bitwise_and :: binaryfunc where
  "array_inplace_bitwise_and py m1 m2 s = bh_call py ''bitwise_and'' [m1, m2, m1] s"

definition array_inplace_bitwise_or :: binaryfunc where
  "array_inplace_bitwise_or py m1 m2 s = bh_call py ''bitwise_or'' [m1, m2, m1] s"

definition array_inplace_bitwise_xor :: binaryfunc where
  "array_inplace_bitwise_xor py m1 m2 s = bh_call py ''bitwise_xor'' [m1, m2, m1] s"

definition array_floor_divide :: binaryfunc where
  "array_floor_divide py m1 m2 s = bh_call py ''floor_divide'' [m1, m2] s"

definition array_true_divide :: binaryfunc where
  "array_true_divide py m1 m2 s = bh_call py ''true_divide'' [m1, m2] s"

definition array_inplace_floor_divide :: binaryfunc where
  "array_inplace_floor_divide py m1 m2 s = bh_call py ''floor_divide'' [m1, m2, m1] s"

definition array_inplace_power :: ternaryfunc where
  "array_inplace_power py m1 m2 modulus s = bh_call py ''power'' [m1, m2, m1] s"

text \<open>Returns NULL without setting an exception.\<close>

definition array_inplace_true_divide :: binaryfunc where
  "array_inplace_true_divide py m1 m2 s = Some (NULL, s)"

subsection \<open>Composite and unsupported operators\<close>

text \<open>\<^verbatim>\<open>Py_BuildValue("OO", a, b)\<close>: a new tuple, which takes its own references.\<close>

definition BuildValue_OO :: "py_api \<Rightarrow> ptr \<Rightarrow> ptr \<Rightarrow> np_state \<Rightarrow> ptr np_result" where
  "BuildValue_OO py a b s = CallMethod py ''Py'' ''BuildValue'' [PyObj a, PyObj b] s"

definition array_divmod :: binaryfunc where
  "array_divmod py op1 op2 s = do {
     (divp, s) \<leftarrow> array_floor_divide py op1 op2 s;
     if divp = NULL then Some (NULL, s)
     else if divp = Py_NotImplemented then Some (divp, s)
     else do {
       (modp, s) \<leftarrow> array_remainder py op1 op2 s;
       if modp = NULL then Some (NULL, Py_DECREF divp s)
       else if modp = Py_NotImplemented then Some (modp, Py_DECREF divp s)
       else do {
         (result, s) \<leftarrow> BuildValue_OO py divp modp s;
         Some (result, Py_DECREF modp (Py_DECREF divp s))
       }
     }
   }"

text \<open>A failing copy is dereferenced: the source does not check the result of \<^verbatim>\<open>BhArray_copy2numpy\<close>.\<close>

definition array_nonzero :: "py_api \<Rightarrow> ptr \<Rightarrow> np_state \<Rightarrow> int np_result" where
  "array_nonzero py mp s = do {
     a \<leftarrow> arrays s mp;
     let n = arr_size a;
     if n = 1 then do {
       (np_ary, s) \<leftarrow> BhArray_copy2numpy py mp s;
       if np_ary = NULL then None
       else do {
         let ret = Nonzero py np_ary s;
         Some (ret, Py_DECREF np_ary s)
       }
     }
     else if n = 0 then Some (0, s)
     else Some (- 1, PyErr_Set PyExc_ValueError s)
   }"

definition array_float :: unaryfunc where
  "array_float py v s = Some (NULL, PyErr_Set PyExc_TypeError s)"

definition array_int :: unaryfunc where
  "array_int py v s = Some (NULL, PyErr_Set PyExc_TypeError s)"

definition array_long :: unaryfunc where
  "array_long py v s = Some (NULL, PyErr_Set PyExc_TypeError s)"

definition array_oct :: unaryfunc where
  "array_oct py v s = Some (NULL, PyErr_Set PyExc_TypeError s)"

definition array_hex :: unaryfunc where
  "array_hex py v s = Some (NULL, PyErr_Set PyExc_TypeError s)"

definition array_positive :: unaryfunc where
  "array_positive py v s = Some (NULL, PyErr_Set PyExc_TypeError s)"

text \<open>The comparison codes of CPython, 0 to 5. Any other code returns NULL without an exception.\<close>

definition array_richcompare :: "py_api \<Rightarrow> ptr \<Rightarrow> ptr \<Rightarrow> int \<Rightarrow> np_state \<Rightarrow> ptr np_result" where
  "array_richcompare py self other cmp_op s =
     (if cmp_op = 0 then bh_call py ''less'' [self, other] s
      else if cmp_op = 1 then bh_call py ''less_equal'' [self, other] s
      else if cmp_op = 2 then bh_call py ''equal'' [self, other] s
      else if cmp_op = 3 then bh_call py ''not_equal'' [self, other] s
      else if cmp_op = 4 then bh_call py ''greater'' [self, other] s
      else if cmp_op = 5 then bh_call py ''greater_equal'' [self, other] s
      else Some (NULL, s))"

subsection \<open>The slot table\<close>

datatype nb_slot = nb_add | nb_subtract | nb_multiply | nb_divide | nb_remainder | nb_divmod | nb_power
  | nb_neg | nb_pos | nb_abs | nb_nonzero | nb_invert | nb_lshift | nb_rshift | nb_and | nb_xor | nb_or
  | nb_coerce | nb_int | nb_long | nb_float | nb_oct | nb_hex
  | nb_inplace_add | nb_inplace_subtract | nb_inplace_multiply | nb_inplace_divide
  | nb_inplace_remainder | nb_inplace_power | nb_inplace_lshift | nb_inplace_rshift
  | nb_inplace_and | nb_inplace_xor | nb_inplace_or
  | nb_floor_divide | nb_true_divide | nb_inplace_floor_divide | nb_inplace_true_divide | nb_index

datatype nb_func = Unary unaryfunc | Binary binaryfunc | Ternary ternaryfunc
  | Inquiry "py_api \<Rightarrow> ptr \<Rightarrow> np_state \<Rightarrow> int np_result" | NoFunc

text \<open>The table as compiled for Python 2 (the slots Python 3 lacks are the ones under \<^verbatim>\<open>NPY_PY3K\<close>).\<close>

fun array_as_number :: "nb_slot \<Rightarrow> nb_func" where
  "array_as_number nb_add = Binary array_add"
| "array_as_number nb_subtract = Binary array_subtract"
| "array_as_number nb_multiply = Binary array_multiply"
| "array_as_number nb_divide = Binary array_divide"
| "array_as_number nb_remainder = Binary array_remainder"
| "array_as_number nb_divmod = Binary array_divmod"
| "array_as_number nb_power = Ternary array_power"
| "array_as_number nb_neg = Unary array_negative"
| "array_as_number nb_pos = Unary array_positive"
| "array_as_number nb_abs = Unary array_absolute"
| "array_as_number nb_nonzero = Inquiry array_nonzero"
| "array_as_number nb_invert = Unary array_invert"
| "array_as_number nb_lshift = Binary array_left_shift"
| "array_as_number nb_rshift = Binary array_right_shift"
| "array_as_number nb_and = Binary array_bitwise_and"
| "array_as_number nb_xor = Binary array_bitwise_xor"
| "array_as_number nb_or = Binary array_bitwise_or"
| "array_as_number nb_coerce = NoFunc"
| "array_as_number nb_int = Unary array_int"
| "array_as_number nb_long = Unary array_long"
| "array_as_number nb_float = Unary array_float"
| "array_as_number nb_oct = Unary array_oct"
| "array_as_number nb_hex = Unary array_hex"
| "array_as_number nb_inplace_add = Binary array_inplace_add"
| "array_as_number nb_inplace_subtract = Binary array_inplace_subtract"
| "array_as_number nb_inplace_multiply = Binary array_inplace_multiply"
| "array_as_number nb_inplace_divide = Binary array_inplace_divide"
| "array_as_number nb_inplace_remainder = Binary array_inplace_remainder"
| "array_as_number nb_inplace_power = Ternary array_inplace_power"
| "array_as_number nb_inplace_lshift = Binary array_inplace_left_shift"
| "array_as_number nb_inplace_rshift = Binary array_inplace_right_shift"
| "array_as_number nb_inplace_and = Binary array_inplace_bitwise_and"
| "array_as_number nb_inplace_xor = Binary array_inplace_bitwise_xor"
| "array_as_number nb_inplace_or = Binary array_inplace_bitwise_or"
| "array_as_number nb_floor_divide = Binary array_floor_divide"
| "array_as_number nb_true_divide = Binary array_true_divide"
| "array_as_number nb_inplace_floor_divide = Binary array_inplace_floor_divide"
| "array_as_number nb_inplace_true_divide = Binary array_inplace_true_divide"
| "array_as_number nb_index = NoFunc"

lemmas forward_defs = array_add_def array_subtract_def array_multiply_def array_divide_def array_remainder_def
  array_power_def array_negative_def array_absolute_def array_invert_def array_left_shift_def
  array_right_shift_def array_bitwise_and_def array_bitwise_or_def array_bitwise_xor_def
  array_inplace_add_def array_inplace_subtract_def array_inplace_multiply_def array_inplace_divide_def
  array_inplace_remainder_def array_inplace_left_shift_def array_inplace_right_shift_def
  array_inplace_bitwise_and_def array_inplace_bitwise_or_def array_inplace_bitwise_xor_def
  array_floor_divide_def array_true_divide_def array_inplace_floor_divide_def array_inplace_power_def

subsection \<open>Properties\<close>

text \<open>The outcome of running a slot on two operands (a unary slot ignores the second).\<close>

fun run_slot :: "nb_func \<Rightarrow> py_api \<Rightarrow> ptr \<Rightarrow> ptr \<Rightarrow> np_state \<Rightarrow> ptr np_result" where
  "run_slot (Unary f) py a b s = f py a s"
| "run_slot (Binary f) py a b s = f py a b s"
| "run_slot (Ternary f) py a b s = f py a b Py_None s"
| "run_slot (Inquiry f) py a b s = None"
| "run_slot NoFunc py a b s = None"

definition inplace_pairs :: "(nb_slot \<times> nb_slot) list" where
  "inplace_pairs =
     [(nb_add, nb_inplace_add), (nb_subtract, nb_inplace_subtract), (nb_multiply, nb_inplace_multiply),
      (nb_divide, nb_inplace_divide), (nb_power, nb_inplace_power), (nb_lshift, nb_inplace_lshift),
      (nb_rshift, nb_inplace_rshift), (nb_and, nb_inplace_and), (nb_xor, nb_inplace_xor),
      (nb_or, nb_inplace_or), (nb_floor_divide, nb_inplace_floor_divide)]"

text \<open>
  Every in-place operator of the table but two calls the same Bohrium function as its binary
  counterpart, with the left operand once more as the output argument.
\<close>

theorem inplace_operators_match:
  "list_all (\<lambda>(sl, isl). \<exists>f. \<forall>py a b s.
     run_slot (array_as_number sl) py a b s = bh_call py f [a, b] s \<and>
     run_slot (array_as_number isl) py a b s = bh_call py f [a, b, a] s) inplace_pairs"
  by (simp add: inplace_pairs_def forward_defs) blast

text \<open>
  The functions that the module \<^verbatim>\<open>bohrium\<close> exposes by name among those the operators call: one per
  element-wise opcode of the opcode table, \<^verbatim>\<open>negative\<close> and \<^verbatim>\<open>sign\<close>.
\<close>

definition bohrium_ufuncs :: "string list" where
  "bohrium_ufuncs = 
    [''negative'', ''sign'', ''add'', ''subtract'', ''multiply'', ''divide'', ''power'',
     ''absolute'', ''greater'', ''greater_equal'', ''less'', ''less_equal'', ''equal'',
     ''not_equal'', ''logical_and'', ''logical_or'', ''logical_xor'', ''logical_not'', ''maximum'',
     ''minimum'', ''bitwise_and'', ''bitwise_or'', ''bitwise_xor'', ''invert'', ''left_shift'',
     ''right_shift'', ''cos'', ''sin'', ''tan'', ''cosh'', ''sinh'', ''tanh'', ''arcsin'',
     ''arccos'', ''arctan'', ''arcsinh'', ''arccosh'', ''arctanh'', ''arctan2'', ''exp'', ''exp2'',
     ''expm1'', ''log'', ''log2'', ''log10'', ''log1p'', ''sqrt'', ''ceil'', ''trunc'', ''floor'',
     ''rint'', ''mod'', ''isnan'', ''isinf'', ''identity'', ''real'', ''imag'', ''sign'']"

text \<open>The Bohrium function the slot calls first, as the log of a run with an inert interpreter shows it.\<close>

definition inert_py :: py_api where
  "inert_py = \<lparr>api_call = (\<lambda>m f as s. Some (NULL, s)), IsInstance = (\<lambda>_ _. 1), FromSsize_t = (\<lambda>_ s. (NULL, s)),
     TupleItems = (\<lambda>_ _. None), Slice_Check = (\<lambda>_ _. False), IntegerScalar = (\<lambda>_ _. False),
     Index_Check = (\<lambda>_ _. False), Sequence_Check = (\<lambda>_ _. False), Nonzero = (\<lambda>_ _. 0)\<rparr>"

definition empty_np :: np_state where
  "empty_np = \<lparr>refs = (\<lambda>_. 0), pending = None, log = [], arrays = Map.empty, pylong = Map.empty,
     regions = Map.empty, sig = sig_start\<rparr>"

definition first_call :: "nb_slot \<Rightarrow> string option" where
  "first_call sl =
     (case run_slot (array_as_number sl) inert_py 3 4 empty_np of
        Some (r, s) \<Rightarrow> (case log s of (m, f, as) # _ \<Rightarrow> Some f | [] \<Rightarrow> None)
      | None \<Rightarrow> None)"

definition all_slots :: "nb_slot list" where
  "all_slots = [nb_add, nb_subtract, nb_multiply, nb_divide, nb_remainder, nb_divmod, nb_power, nb_neg, nb_pos,
     nb_abs, nb_nonzero, nb_invert, nb_lshift, nb_rshift, nb_and, nb_xor, nb_or, nb_coerce, nb_int, nb_long,
     nb_float, nb_oct, nb_hex, nb_inplace_add, nb_inplace_subtract, nb_inplace_multiply, nb_inplace_divide,
     nb_inplace_remainder, nb_inplace_power, nb_inplace_lshift, nb_inplace_rshift, nb_inplace_and,
     nb_inplace_xor, nb_inplace_or, nb_floor_divide, nb_true_divide, nb_inplace_floor_divide,
     nb_inplace_true_divide, nb_index]"

lemma all_slots_complete: "sl \<in> set all_slots"
  by (cases sl) (simp_all add: all_slots_def)


subsection \<open>References of divmod\<close>

definition add_ref :: "ptr \<Rightarrow> (ptr \<Rightarrow> int) \<Rightarrow> ptr \<Rightarrow> int" where
  "add_ref ob f = f(ob := f ob + 1)"

text \<open>
  What the reference rules of the C API promise of the calls below: a call of a Bohrium function
  returns a new reference or NULL and keeps all other counts; a built tuple takes a reference to
  each item.
\<close>

definition new_references :: "py_api \<Rightarrow> bool" where
  "new_references py \<longleftrightarrow>
     (\<forall>f as s r s'. api_call py ''bohrium'' f as s = Some (r, s') \<longrightarrow>
        refs s' = (if r = NULL then refs s else add_ref r (refs s))) \<and>
     (\<forall>a b s r s'. api_call py ''Py'' ''BuildValue'' [PyObj a, PyObj b] s = Some (r, s') \<longrightarrow>
        refs s' = (if r = NULL then refs s else add_ref r (add_ref b (add_ref a (refs s)))))"

lemma Py_DECREF_add_ref: "refs s = add_ref ob f \<Longrightarrow> refs (Py_DECREF ob s) = f"
  by (simp add: Py_DECREF_def add_ref_def)

lemma add_ref_commute: "add_ref a (add_ref b f) = add_ref b (add_ref a f)"
  by (cases "a = b") (simp_all add: add_ref_def fun_upd_twist)

lemma bh_call_refs:
  "new_references py \<Longrightarrow> bh_call py f as s = Some (r, s') \<Longrightarrow>
   refs s' = (if r = NULL then refs s else add_ref r (refs s))"
  unfolding new_references_def CallMethod_def
  by (drule conjunct1, drule spec, drule spec, drule spec, drule spec, drule spec, drule mp, assumption) simp

lemma build_refs:
  "new_references py \<Longrightarrow> BuildValue_OO py a b s = Some (r, s') \<Longrightarrow>
   refs s' = (if r = NULL then refs s else add_ref r (add_ref b (add_ref a (refs s))))"
  unfolding new_references_def CallMethod_def BuildValue_OO_def
  by (drule conjunct2, drule spec, drule spec, drule spec, drule spec, drule spec, drule mp, assumption) simp

text \<open>
  \<^verbatim>\<open>array_divmod\<close> neither leaks nor over-releases a reference: when it fails, all counts are as
  before; when an operand is not supported, only \<^verbatim>\<open>NotImplemented\<close> gained the reference it returns;
  otherwise the only references left are the returned tuple and the two items it holds.
\<close>

theorem array_divmod_references:
  assumes "new_references py" and "array_divmod py a b s = Some (r, s')"
  shows "r = NULL \<and> refs s' = refs s \<or> r = Py_NotImplemented \<and> refs s' = add_ref r (refs s) \<or>
    r \<noteq> NULL \<and> (\<exists>d m. refs s' = add_ref r (add_ref m (add_ref d (refs s))))"
proof -
  obtain d s1 where d: "bh_call py ''floor_divide'' [a, b] s = Some (d, s1)"
    using assms(2) by (auto simp: array_divmod_def array_floor_divide_def bind_eq_Some_conv)
  note r1 = bh_call_refs [OF assms(1) d]
  show ?thesis
  proof (cases "d = NULL \<or> d = Py_NotImplemented")
    case True
    then have "r = d" "s' = s1" using assms(2) d by (auto simp: array_divmod_def array_floor_divide_def)
    then show ?thesis using True r1 by auto
  next
    case False
    then obtain m s2 where m: "bh_call py ''mod'' [a, b] s1 = Some (m, s2)"
      using assms(2) d by (auto simp: array_divmod_def array_floor_divide_def array_remainder_def bind_eq_Some_conv)
    note r2 = bh_call_refs [OF assms(1) m]
    have eq: "array_divmod py a b s = (if m = NULL then Some (NULL, Py_DECREF d s2)
        else if m = Py_NotImplemented then Some (m, Py_DECREF d s2)
        else do { (res, s3) \<leftarrow> BuildValue_OO py d m s2; Some (res, Py_DECREF m (Py_DECREF d s3)) })"
      using False d m by (simp add: array_divmod_def array_floor_divide_def array_remainder_def)
    consider "m = NULL" | "m = Py_NotImplemented" "m \<noteq> NULL" | "m \<noteq> NULL" "m \<noteq> Py_NotImplemented" by blast
    then show ?thesis
    proof cases
      case 1
      then have "r = NULL" "s' = Py_DECREF d s2" using assms(2) eq by auto
      moreover have "refs s2 = add_ref d (refs s)" using r1 r2 False 1 by simp
      ultimately show ?thesis using Py_DECREF_add_ref by blast
    next
      case 2
      then have "r = Py_NotImplemented" "s' = Py_DECREF d s2" using assms(2) eq by auto
      moreover have "refs s2 = add_ref d (add_ref Py_NotImplemented (refs s))"
        using r1 r2 False 2 by (simp add: add_ref_commute)
      ultimately show ?thesis using Py_DECREF_add_ref by blast
    next
      case 3
      then obtain s3 where b: "BuildValue_OO py d m s2 = Some (r, s3)" "s' = Py_DECREF m (Py_DECREF d s3)"
        using assms(2) eq by (auto simp: bind_eq_Some_conv)
      have s2: "refs s2 = add_ref m (add_ref d (refs s))" using r1 r2 False 3 by simp
      note r3 = build_refs [OF assms(1) b(1)]
      have "refs (Py_DECREF m (Py_DECREF d s3)) = f" if "refs s3 = add_ref d (add_ref m f)" for f
        using that by (intro Py_DECREF_add_ref)
      then have "refs s' = (if r = NULL then refs s else add_ref r (add_ref m (add_ref d (refs s))))"
        using r3 s2 b(2) add_ref_commute by (simp add: add_ref_commute)
      then show ?thesis by (cases "r = NULL") auto
    qed
  qed
qed

text \<open>An interpreter that answers every call with the object 5 and counts its references.\<close>

definition ref_py :: py_api where
  "ref_py = inert_py\<lparr>api_call := (\<lambda>m f as s.
     Some (5, s\<lparr>refs := (case as of [PyObj a, PyObj b] \<Rightarrow>
         if m = ''Py'' then add_ref 5 (add_ref b (add_ref a (refs s))) else add_ref 5 (refs s)
       | _ \<Rightarrow> add_ref 5 (refs s))\<rparr>))\<rparr>"

lemma ref_py_ok: "new_references ref_py"
  by (auto simp: new_references_def ref_py_def split: list.splits py_arg.splits)

theorem array_divmod_references_witness:
  "\<exists>s'. array_divmod ref_py 3 4 empty_np = Some (5, s') \<and>
    (\<exists>d m. refs s' = add_ref 5 (add_ref m (add_ref d (refs empty_np))))"
proof -
  obtain s' where s': "array_divmod ref_py 3 4 empty_np = Some (5, s')"
    by (simp add: array_divmod_def array_floor_divide_def array_remainder_def BuildValue_OO_def CallMethod_def
        ref_py_def Py_NotImplemented_def)
  with array_divmod_references [OF ref_py_ok s'] show ?thesis by (simp add: Py_NotImplemented_def)
qed

end
