(* ===== verification/Swig_Pack.thy ===== *)
theory Swig_Pack
  imports Bh_Prelude
begin

text \<open>
  Packed pointers of the SWIG runtime that is part of \<^verbatim>\<open>bridge/npbackend/src/bhc_wrap.c\<close>: an underscore,
  the bytes of the value in hexadecimal, and the type name. A C string is the list of its
  characters without the terminating NUL; a value of \<open>n\<close> bytes is the list of its bytes in memory,
  so nothing depends on the byte order. \<open>None\<close> is a returned null pointer.
\<close>

subsection \<open>Data\<close>

definition sizeof_void_ptr :: nat where
  "sizeof_void_ptr = 8"

definition hex :: "nat \<Rightarrow> char" where
  "hex n = ''0123456789abcdef'' ! n"

fun SWIG_PackData :: "byte list \<Rightarrow> string" where
  "SWIG_PackData [] = []"
| "SWIG_PackData (uu # u) =
     hex (unat (drop_bit 4 (uu AND 0xf0))) # hex (unat (uu AND 0xf)) # SWIG_PackData u"

text \<open>The value of a hexadecimal digit, lower case only.\<close>

definition hex_value :: "char \<Rightarrow> byte option" where
  "hex_value d =
     (let c = of_char d :: nat in
      if 48 \<le> c \<and> c \<le> 57 then Some (of_nat (c - 48))
      else if 97 \<le> c \<and> c \<le> 102 then Some (of_nat (c - 87))
      else None)"

text \<open>
  The bytes written so far, and the rest of the input on success. At the end of the string the
  terminating NUL is read, which is not a digit.
\<close>

fun SWIG_UnpackData :: "string \<Rightarrow> nat \<Rightarrow> byte list \<times> string option" where
  "SWIG_UnpackData c 0 = ([], Some c)"
| "SWIG_UnpackData (d1 # d2 # c) (Suc n) =
     (case hex_value d1 of
        None \<Rightarrow> ([], None)
      | Some h \<Rightarrow>
          (case hex_value d2 of
             None \<Rightarrow> ([], None)
           | Some l \<Rightarrow>
               (let (u, r) = SWIG_UnpackData c n in ((push_bit 4 h OR l) # u, r))))"
| "SWIG_UnpackData [d] (Suc n) = ([], None)"
| "SWIG_UnpackData [] (Suc n) = ([], None)"

subsection \<open>Pointers and named data\<close>

definition SWIG_PackVoidPtr :: "byte list \<Rightarrow> string \<Rightarrow> nat \<Rightarrow> string option" where
  "SWIG_PackVoidPtr ptr name bsz =
     (if 2 * sizeof_void_ptr + 2 > bsz then None
      else
        (let r = CHR ''_'' # SWIG_PackData ptr in
         if length name + 1 > bsz - length r then None else Some (r @ name)))"

text \<open>
  The pointer stored and the returned string; \<open>name\<close> is returned for the text \<^verbatim>\<open>NULL\<close>. The pointer is
  unchanged where the source does not write it.
\<close>

definition SWIG_UnpackVoidPtr :: "string \<Rightarrow> byte list \<Rightarrow> string option \<Rightarrow> byte list \<times> string option" where
  "SWIG_UnpackVoidPtr c ptr name =
     (if c = [] \<or> hd c \<noteq> CHR ''_'' then
        (if c = ''NULL'' then (replicate sizeof_void_ptr 0, name) else (ptr, None))
      else
        (let (u, r) = SWIG_UnpackData (tl c) sizeof_void_ptr in (u @ drop (length u) ptr, r)))"

definition SWIG_PackDataName :: "byte list \<Rightarrow> string option \<Rightarrow> nat \<Rightarrow> string option" where
  "SWIG_PackDataName ptr name bsz =
     (let lname = (case name of None \<Rightarrow> 0 | Some n \<Rightarrow> length n);
          sz = length ptr
      in if 2 * sz + 2 + lname > bsz then None
         else Some (CHR ''_'' # SWIG_PackData ptr @ (case name of None \<Rightarrow> [] | Some n \<Rightarrow> n)))"

definition SWIG_UnpackDataName :: "string \<Rightarrow> byte list \<Rightarrow> string option \<Rightarrow> byte list \<times> string option" where
  "SWIG_UnpackDataName c ptr name =
     (if c = [] \<or> hd c \<noteq> CHR ''_'' then
        (if c = ''NULL'' then (replicate (length ptr) 0, name) else (ptr, None))
      else
        (let (u, r) = SWIG_UnpackData (tl c) (length ptr) in (u @ drop (length u) ptr, r)))"

subsection \<open>Hexadecimal digits\<close>

lemma hex_value_hex: "n < 16 \<Longrightarrow> hex_value (hex n) = Some (of_nat n)"
proof -
  assume "n < 16"
  then have "n \<in> set [0 ..< 16]" by simp
  then show ?thesis by (auto simp: hex_def hex_value_def upt_rec numeral_eq_Suc)
qed

lemma hex_hex_value:
  assumes "hex_value d = Some h"
  shows "unat h < 16 \<and> hex (unat h) = d"
proof -
  define c where "c = (of_char d :: nat)"
  have d: "d = char_of c" by (simp add: c_def)
  have "48 \<le> c \<and> c \<le> 57 \<or> 97 \<le> c \<and> c \<le> 102"
    using assms by (auto simp: hex_value_def c_def Let_def split: if_splits)
  then have "c = 48 \<or> c = 49 \<or> c = 50 \<or> c = 51 \<or> c = 52 \<or> c = 53 \<or> c = 54 \<or> c = 55 \<or> c = 56 \<or> c = 57 \<or>
      c = 97 \<or> c = 98 \<or> c = 99 \<or> c = 100 \<or> c = 101 \<or> c = 102" by arith
  moreover have "h = of_nat (if c \<le> 57 then c - 48 else c - 87)"
    using assms by (auto simp: hex_value_def c_def Let_def split: if_splits)
  ultimately show ?thesis unfolding d by (elim disjE) (simp_all add: hex_def char_of_def bit_0)
qed

lemma high_nibble: "drop_bit 4 (b AND 0xf0) = drop_bit 4 (b :: byte)"
  by (rule bit_word_eqI) (auto simp: bit_simps numeral_eq_Suc less_Suc_eq dest: bit_imp_le_length)

lemma low_nibble: "b AND 0xf = take_bit 4 (b :: byte)"
proof -
  have "(0xf :: byte) = mask 4" by (simp add: mask_eq_exp_minus_1)
  then show ?thesis by (simp add: take_bit_eq_mask)
qed

lemma nibbles_less: "unat (drop_bit 4 (b AND 0xf0) :: byte) < 16" "unat (b AND 0xf :: byte) < 16"
proof -
  have "unat b < 2 ^ LENGTH(8)" by (rule unsigned_less)
  then show "unat (drop_bit 4 (b AND 0xf0) :: byte) < 16"
    unfolding high_nibble by (simp add: drop_bit_eq_div unat_div)
  have "unat (take_bit 4 b) = take_bit 4 (unat b)" by (simp add: unsigned_take_bit_eq)
  then show "unat (b AND 0xf :: byte) < 16" unfolding low_nibble by (simp add: take_bit_eq_mod)
qed

lemma nibbles_join: "push_bit 4 (drop_bit 4 (b AND 0xf0)) OR (b AND 0xf) = (b :: byte)"
  unfolding high_nibble low_nibble
  by (rule bit_word_eqI) (auto simp: bit_simps)

lemma nibbles_split:
  fixes h l :: byte
  assumes "unat h < 16" and "unat l < 16"
  shows "drop_bit 4 ((push_bit 4 h OR l) AND 0xf0) = h \<and> (push_bit 4 h OR l) AND 0xf = l"
proof -
  have "h = take_bit 4 h" "l = take_bit 4 l"
    using assms by (simp_all add: word_unat_eq_iff take_bit_eq_mod unat_mod)
  then have b: "bit h n \<Longrightarrow> n < 4" "bit l n \<Longrightarrow> n < 4" for n by (metis bit_take_bit_iff)+
  show ?thesis
    unfolding high_nibble low_nibble
  proof
    show "drop_bit 4 (push_bit 4 h OR l) = h"
      by (rule bit_word_eqI) (use b in \<open>auto simp: bit_simps\<close>)
    show "take_bit 4 (push_bit 4 h OR l) = l"
      by (rule bit_word_eqI) (use b in \<open>auto simp: bit_simps\<close>)
  qed
qed

subsection \<open>Round trips\<close>

lemma unpack_pack: "SWIG_UnpackData (SWIG_PackData bs @ rest) (length bs) = (bs, Some rest)"
proof (induction bs)
  case (Cons b bs)
  have "hex_value (hex (unat (drop_bit 4 (b AND 0xf0) :: byte))) = Some (drop_bit 4 (b AND 0xf0))"
    "hex_value (hex (unat (b AND 0xf :: byte))) = Some (b AND 0xf)"
    by (simp_all add: hex_value_hex [OF nibbles_less(1)] hex_value_hex [OF nibbles_less(2)])
  then show ?case using Cons nibbles_join [of b] by simp
qed simp

lemma pack_unpack: "SWIG_UnpackData c n = (bs, Some rest) \<Longrightarrow> c = SWIG_PackData bs @ rest \<and> length bs = n"
proof (induction c n arbitrary: bs rule: SWIG_UnpackData.induct)
  case (2 d1 d2 c n)
  obtain h l where hl: "hex_value d1 = Some h" "hex_value d2 = Some l"
    using "2.prems" by (auto split: option.splits)
  obtain u where u: "SWIG_UnpackData c n = (u, Some rest)" "bs = (push_bit 4 h OR l) # u"
    using "2.prems" hl by (auto split: prod.splits)
  have "c = SWIG_PackData u @ rest \<and> length u = n" using "2.IH" [OF hl u(1)] .
  moreover have "hex (unat h) = d1" "hex (unat l) = d2" "unat h < 16" "unat l < 16"
    using hex_hex_value hl by blast+
  ultimately show ?case using u(2) nibbles_split [of h l] by simp
qed simp_all

lemma length_pack: "length (SWIG_PackData bs) = 2 * length bs"
  by (induction bs) simp_all

lemma hex_ne_underscore: "hex_value d \<noteq> None \<Longrightarrow> d \<noteq> CHR ''_''"
  by (auto simp: hex_value_def)

text \<open>
  C40. A packed pointer unpacks to the same pointer and the same type name, and the packed string with
  its terminator fits the buffer whose size was given.
\<close>

theorem SWIG_PackVoidPtr_roundtrip:
  assumes "length ptr = sizeof_void_ptr" and "SWIG_PackVoidPtr ptr name bsz = Some c"
  shows "SWIG_UnpackVoidPtr c old nm = (ptr @ drop sizeof_void_ptr old, Some name) \<and> length c + 1 \<le> bsz"
proof -
  have c: "c = CHR ''_'' # SWIG_PackData ptr @ name" "length name + 1 \<le> bsz - (2 * length ptr + 1)"
    "2 * sizeof_void_ptr + 2 \<le> bsz"
    using assms(2) by (auto simp: SWIG_PackVoidPtr_def Let_def length_pack split: if_splits)
  then show ?thesis
    using unpack_pack [of ptr name] assms(1) by (simp add: SWIG_UnpackVoidPtr_def length_pack)
qed

theorem SWIG_PackVoidPtr_roundtrip_witness:
  "SWIG_UnpackVoidPtr ''_10a7000000000000_p_int'' [0, 0, 0, 0, 0, 0, 0, 0] None =
     ([16, 167, 0, 0, 0, 0, 0, 0], Some ''_p_int'')"
  using SWIG_PackVoidPtr_roundtrip [of "[16, 167, 0, 0, 0, 0, 0, 0]" "''_p_int''" 1024
      "''_10a7000000000000_p_int''" "[0, 0, 0, 0, 0, 0, 0, 0]" None]
  by (simp add: sizeof_void_ptr_def SWIG_PackVoidPtr_def hex_def)

text \<open>
  Unpacking is strict: whatever string it accepts is exactly what packing the bytes it returns
  would produce, so no two packed strings denote the same data and upper-case digits, short strings
  and foreign characters are refused.
\<close>

theorem SWIG_UnpackDataName_strict:
  assumes "SWIG_UnpackDataName c old nm = (bs, Some rest)" and "c \<noteq> ''NULL''"
  shows "SWIG_PackDataName bs (Some rest) (2 * length bs + 2 + length rest) = Some c \<and> length bs = length old"
proof -
  obtain c' where c: "c = CHR ''_'' # c'"
    using assms by (cases c) (auto simp: SWIG_UnpackDataName_def split: if_splits)
  then obtain u where u: "SWIG_UnpackData c' (length old) = (u, Some rest)" "bs = u @ drop (length u) old"
    using assms(1) by (auto simp: SWIG_UnpackDataName_def split: prod.splits)
  then show ?thesis using pack_unpack [OF u(1)] c by (simp add: SWIG_PackDataName_def Let_def)
qed

theorem SWIG_UnpackDataName_strict_witness:
  "SWIG_PackDataName [255, 1] (Some ''x'') 7 = Some ''_ff01x''"
  using SWIG_UnpackDataName_strict [of "''_ff01x''" "[0, 0]" None "[255, 1]" "''x''"]
  by (simp add: SWIG_UnpackDataName_def hex_value_def eval_nat_numeral)

end
