(* ===== verification/Swig_Types.thy ===== *)
theory Swig_Types
  imports Bh_Prelude "HOL-Library.Monad_Syntax"
begin

text \<open>
  The type tables of the SWIG runtime in \<^verbatim>\<open>bridge/npbackend/src/bhc_wrap.c\<close>: result codes, comparison
  of type names, the cast list of a type (a doubly linked list with move-to-front), the search in
  the circular list of modules and the client data of types.

  The structures live in a heap indexed by address. \<open>None\<close> is undefined behaviour (a dangling
  pointer or a read behind the end of a string) or, for the loops given by \<open>partial_function\<close>, a
  loop that does not end. C strings are character lists without the terminating NUL.
\<close>

subsection \<open>Result codes\<close>

definition SWIG_ERROR :: int where "SWIG_ERROR = - 1"
definition SWIG_TypeError :: int where "SWIG_TypeError = - 5"
definition SWIG_CASTRANKLIMIT :: int where "SWIG_CASTRANKLIMIT = push_bit 8 1"
definition SWIG_NEWOBJMASK :: int where "SWIG_NEWOBJMASK = push_bit 1 SWIG_CASTRANKLIMIT"
definition SWIG_TMPOBJMASK :: int where "SWIG_TMPOBJMASK = push_bit 1 SWIG_NEWOBJMASK"

definition SWIG_IsOK :: "int \<Rightarrow> bool" where
  "SWIG_IsOK r \<longleftrightarrow> r \<ge> 0"

definition SWIG_ArgError :: "int \<Rightarrow> int" where
  "SWIG_ArgError r = (if r \<noteq> SWIG_ERROR then r else SWIG_TypeError)"

definition SWIG_AddNewMask :: "int \<Rightarrow> int" where
  "SWIG_AddNewMask r = (if SWIG_IsOK r then r OR SWIG_NEWOBJMASK else r)"

definition SWIG_DelNewMask :: "int \<Rightarrow> int" where
  "SWIG_DelNewMask r = (if SWIG_IsOK r then r AND NOT SWIG_NEWOBJMASK else r)"

definition SWIG_IsNewObj :: "int \<Rightarrow> bool" where
  "SWIG_IsNewObj r \<longleftrightarrow> SWIG_IsOK r \<and> r AND SWIG_NEWOBJMASK \<noteq> 0"

definition SWIG_AddTmpMask :: "int \<Rightarrow> int" where
  "SWIG_AddTmpMask r = (if SWIG_IsOK r then r OR SWIG_TMPOBJMASK else r)"

definition SWIG_DelTmpMask :: "int \<Rightarrow> int" where
  "SWIG_DelTmpMask r = (if SWIG_IsOK r then r AND NOT SWIG_TMPOBJMASK else r)"

definition SWIG_IsTmpObj :: "int \<Rightarrow> bool" where
  "SWIG_IsTmpObj r \<longleftrightarrow> SWIG_IsOK r \<and> r AND SWIG_TMPOBJMASK \<noteq> 0"

text \<open>The two functions of the cast-rank mode, with the default limit of two casts.\<close>

definition SWIG_CastRank :: "int \<Rightarrow> int" where
  "SWIG_CastRank r = r AND (SWIG_CASTRANKLIMIT - 1)"

definition SWIG_AddCast :: "int \<Rightarrow> int" where
  "SWIG_AddCast r = (if SWIG_IsOK r then (if SWIG_CastRank r < 2 then r + 1 else SWIG_ERROR) else r)"

definition SWIG_CheckState :: "int \<Rightarrow> int" where
  "SWIG_CheckState r = (if SWIG_IsOK r then SWIG_CastRank r + 1 else 0)"

subsection \<open>Structures\<close>

text \<open>Converters and dynamic casts are function pointers: numbers, 0 for a null pointer.\<close>

record swig_type_info =
  ti_name :: "string option"
  ti_str :: "string option"
  ti_dcast :: nat
  ti_cast :: ptr
  ti_clientdata :: ptr
  ti_owndata :: bool

record swig_cast_info =
  ci_type :: ptr
  ci_converter :: nat
  ci_next :: ptr
  ci_prev :: ptr

record swig_module_info =
  mi_types :: "ptr list"
  mi_size :: nat
  mi_next :: ptr
  mi_type_initial :: "ptr list"
  mi_cast_initial :: "ptr list"
  mi_clientdata :: ptr

record swig_heap =
  tinfo :: "ptr \<rightharpoonup> swig_type_info"
  cinfo :: "ptr \<rightharpoonup> swig_cast_info"
  minfo :: "ptr \<rightharpoonup> swig_module_info"

subsection \<open>Type names\<close>

definition cstr_at :: "string \<Rightarrow> nat \<Rightarrow> char option" where
  "cstr_at s i = (if i < length s then Some (s ! i) else if i = length s then Some (CHR 0x00) else None)"

text \<open>The value of a \<^verbatim>\<open>char\<close>, signed as on the supported machines.\<close>

definition schar :: "char \<Rightarrow> int" where
  "schar c = (let n = of_char c :: int in if n < 128 then n else n - 256)"

text \<open>\<^verbatim>\<open>while ((*f == ' ') && (f != l)) ++f;\<close>\<close>

function skip_spaces :: "string \<Rightarrow> nat \<Rightarrow> nat \<Rightarrow> nat option" where
  "skip_spaces s f l =
     (case cstr_at s f of
        None \<Rightarrow> None
      | Some c \<Rightarrow> if c = CHR '' '' \<and> f \<noteq> l then skip_spaces s (Suc f) l else Some f)"
  by pat_completeness auto
termination
  by (relation "measure (\<lambda>(s, f, l). Suc (length s) - f)") (auto simp: cstr_at_def split: if_splits)

declare skip_spaces.simps [simp del]

lemma skip_spaces_ge: "skip_spaces s f l = Some g \<Longrightarrow> f \<le> g \<and> g \<le> length s"
proof (induction s f l rule: skip_spaces.induct)
  case (1 s f l)
  obtain c where c: "cstr_at s f = Some c" using "1.prems" by (subst (asm) skip_spaces.simps) (auto split: option.splits)
  then have f: "f \<le> length s" by (auto simp: cstr_at_def split: if_splits)
  show ?case
  proof (cases "c = CHR '' '' \<and> f \<noteq> l")
    case True
    then have "skip_spaces s (Suc f) l = Some g" using "1.prems" c by (subst (asm) skip_spaces.simps) simp
    then show ?thesis using "1.IH" [OF c True] by simp
  next
    case False
    then have "g = f" using "1.prems" c by (subst (asm) skip_spaces.simps) (auto split: if_splits)
    then show ?thesis using f by simp
  qed
qed

text \<open>
  The loop of \<^verbatim>\<open>SWIG_TypeNameComp\<close>. After a name that ends in spaces the position can step over the
  end \<open>l\<close> and run on.
\<close>

function SWIG_TypeNameComp :: "string \<Rightarrow> nat \<Rightarrow> nat \<Rightarrow> string \<Rightarrow> nat \<Rightarrow> nat \<Rightarrow> int option" where
  "SWIG_TypeNameComp s1 f1 l1 s2 f2 l2 =
     (if f1 \<noteq> l1 \<and> f2 \<noteq> l2 then
        (case skip_spaces s1 f1 l1 of
           None \<Rightarrow> None
         | Some g1 \<Rightarrow>
             (case skip_spaces s2 f2 l2 of
                None \<Rightarrow> None
              | Some g2 \<Rightarrow>
                  (let c1 = the (cstr_at s1 g1); c2 = the (cstr_at s2 g2) in
                   if c1 \<noteq> c2 then Some (if schar c1 > schar c2 then 1 else - 1)
                   else SWIG_TypeNameComp s1 (Suc g1) l1 s2 (Suc g2) l2)))
      else Some ((int l1 - int f1) - (int l2 - int f2)))"
  by pat_completeness auto
termination
  by (relation "measure (\<lambda>(s1, f1, l1, s2, f2, l2). Suc (length s1) - f1)") (auto dest!: skip_spaces_ge)

declare SWIG_TypeNameComp.simps [simp del]

fun find_bar :: "string \<Rightarrow> nat \<Rightarrow> nat \<Rightarrow> nat" where
  "find_bar s 0 i = i"
| "find_bar s (Suc k) i = (if s ! i = CHR ''|'' then i else find_bar s k (Suc i))"

lemma find_bar_bounds: "i \<le> find_bar s k i \<and> find_bar s k i \<le> i + k"
proof (induction k arbitrary: i)
  case (Suc k)
  show ?case using Suc.IH [of "Suc i"] by auto
qed simp

function type_cmp_loop :: "string \<Rightarrow> nat \<Rightarrow> string \<Rightarrow> int \<Rightarrow> int option" where
  "type_cmp_loop nb ne tb eqv =
     (if eqv \<noteq> 0 \<and> ne < length nb then
        (let e = find_bar nb (length nb - ne) ne in
         case SWIG_TypeNameComp nb ne e tb 0 (length tb) of
           None \<Rightarrow> None
         | Some q \<Rightarrow> type_cmp_loop nb (if e < length nb then Suc e else e) tb q)
      else Some eqv)"
  by pat_completeness auto
termination
proof (relation "measure (\<lambda>(nb, ne, tb, eqv). length nb - ne)", goal_cases)
  case (2 nb ne tb eqv e q)
  then show ?case using find_bar_bounds [of ne nb "length nb - ne"] by (auto simp: less_diff_conv2)
qed simp

declare type_cmp_loop.simps [simp del]

definition SWIG_TypeCmp :: "string \<Rightarrow> string \<Rightarrow> int option" where
  "SWIG_TypeCmp nb tb = type_cmp_loop nb 0 tb 1"

definition SWIG_TypeEquiv :: "string \<Rightarrow> string \<Rightarrow> bool option" where
  "SWIG_TypeEquiv nb tb = map_option (\<lambda>r. r = 0) (SWIG_TypeCmp nb tb)"

fun strcmp :: "string \<Rightarrow> string \<Rightarrow> int" where
  "strcmp [] [] = 0"
| "strcmp [] (b # bs) = - 1"
| "strcmp (a # as) [] = 1"
| "strcmp (a # as) (b # bs) =
     (if a = b then strcmp as bs else if (of_char a :: nat) < of_char b then - 1 else 1)"

subsection \<open>The cast list of a type\<close>

text \<open>\<open>match\<close> decides an entry; \<open>ty\<close> is the address of the type whose list is searched.\<close>

definition move_to_front :: "ptr \<Rightarrow> ptr \<Rightarrow> swig_heap \<Rightarrow> swig_heap option" where
  "move_to_front ty iter h = do {
     t \<leftarrow> tinfo h ty;
     c \<leftarrow> cinfo h iter;
     p \<leftarrow> cinfo h (ci_prev c);
     let ca = (cinfo h)(ci_prev c \<mapsto> p\<lparr>ci_next := ci_next c\<rparr>);
     ca \<leftarrow> (if ci_next c = NULL then Some ca
            else do { n \<leftarrow> ca (ci_next c); Some (ca(ci_next c \<mapsto> n\<lparr>ci_prev := ci_prev c\<rparr>)) });
     c \<leftarrow> ca iter;
     let ca = ca(iter \<mapsto> c\<lparr>ci_next := ti_cast t, ci_prev := NULL\<rparr>);
     ca \<leftarrow> (if ti_cast t = NULL then Some ca
            else do { f \<leftarrow> ca (ti_cast t); Some (ca(ti_cast t \<mapsto> f\<lparr>ci_prev := iter\<rparr>)) });
     Some (h\<lparr>cinfo := ca, tinfo := (tinfo h)(ty \<mapsto> t\<lparr>ti_cast := iter\<rparr>)\<rparr>)
   }"

partial_function (option) check_loop ::
  "(swig_heap \<Rightarrow> swig_cast_info \<Rightarrow> bool option) \<Rightarrow> ptr \<Rightarrow> ptr \<Rightarrow> swig_heap \<Rightarrow> (ptr \<times> swig_heap) option" where
  "check_loop match ty iter h =
     (if iter = NULL then Some (NULL, h)
      else do {
        c \<leftarrow> cinfo h iter;
        m \<leftarrow> match h c;
        if m then do {
          t \<leftarrow> tinfo h ty;
          if iter = ti_cast t then Some (iter, h)
          else do { h \<leftarrow> move_to_front ty iter h; Some (iter, h) }
        }
        else check_loop match ty (ci_next c) h
      })"

definition name_match :: "string \<Rightarrow> swig_heap \<Rightarrow> swig_cast_info \<Rightarrow> bool option" where
  "name_match c h ci = do { t \<leftarrow> tinfo h (ci_type ci); n \<leftarrow> ti_name t; Some (strcmp n c = 0) }"

definition struct_match :: "ptr \<Rightarrow> swig_heap \<Rightarrow> swig_cast_info \<Rightarrow> bool option" where
  "struct_match from h ci = Some (ci_type ci = from)"

definition SWIG_TypeCheck :: "string \<Rightarrow> ptr \<Rightarrow> swig_heap \<Rightarrow> (ptr \<times> swig_heap) option" where
  "SWIG_TypeCheck c ty h =
     (if ty = NULL then Some (NULL, h)
      else do { t \<leftarrow> tinfo h ty; check_loop (name_match c) ty (ti_cast t) h })"

definition SWIG_TypeCheckStruct :: "ptr \<Rightarrow> ptr \<Rightarrow> swig_heap \<Rightarrow> (ptr \<times> swig_heap) option" where
  "SWIG_TypeCheckStruct from ty h =
     (if ty = NULL then Some (NULL, h)
      else do { t \<leftarrow> tinfo h ty; check_loop (struct_match from) ty (ti_cast t) h })"

text \<open>\<open>conv\<close> gives the converter functions; the result is the pointer and what is added to \<^verbatim>\<open>newmemory\<close>.\<close>

definition SWIG_TypeCast :: "(nat \<Rightarrow> ptr \<Rightarrow> ptr \<times> int) \<Rightarrow> ptr \<Rightarrow> ptr \<Rightarrow> int \<Rightarrow> swig_heap \<Rightarrow> (ptr \<times> int) option" where
  "SWIG_TypeCast conv ty p newmemory h =
     (if ty = NULL then Some (p, newmemory)
      else do {
        c \<leftarrow> cinfo h ty;
        Some (if ci_converter c = 0 then (p, newmemory)
              else (let (q, f) = conv (ci_converter c) p in (q, newmemory OR f)))
      })"

text \<open>\<open>dyn\<close> gives the dynamic cast functions: a type (or NULL) and the adjusted pointer.\<close>

partial_function (option) dyncast_loop ::
  "(nat \<Rightarrow> ptr \<Rightarrow> ptr \<times> ptr) \<Rightarrow> ptr \<Rightarrow> ptr \<Rightarrow> ptr \<Rightarrow> swig_heap \<Rightarrow> (ptr \<times> ptr) option" where
  "dyncast_loop dyn ty lastty p h =
     (if ty = NULL then Some (lastty, p)
      else do {
        t \<leftarrow> tinfo h ty;
        if ti_dcast t = 0 then Some (lastty, p)
        else (let (ty', p') = dyn (ti_dcast t) p in
              dyncast_loop dyn ty' (if ty' \<noteq> NULL then ty' else lastty) p' h)
      })"

definition SWIG_TypeDynamicCast :: "(nat \<Rightarrow> ptr \<Rightarrow> ptr \<times> ptr) \<Rightarrow> ptr \<Rightarrow> ptr \<Rightarrow> swig_heap \<Rightarrow> (ptr \<times> ptr) option" where
  "SWIG_TypeDynamicCast dyn ty p h = dyncast_loop dyn ty ty p h"

definition SWIG_TypeName :: "ptr \<Rightarrow> swig_heap \<Rightarrow> string option option" where
  "SWIG_TypeName ty h = map_option ti_name (tinfo h ty)"

fun last_name :: "string \<Rightarrow> string \<Rightarrow> string" where
  "last_name best [] = best"
| "last_name best (c # s) = last_name (if c = CHR ''|'' then s else best) s"

definition SWIG_TypePrettyName :: "ptr \<Rightarrow> swig_heap \<Rightarrow> string option option" where
  "SWIG_TypePrettyName ty h =
     (if ty = NULL then Some None
      else do {
        t \<leftarrow> tinfo h ty;
        Some (case ti_str t of Some s \<Rightarrow> Some (last_name s s) | None \<Rightarrow> ti_name t)
      })"

text \<open>
  One recursive function for the recursion over types (\<open>Inl\<close>) and the loop over the cast list
  (\<open>Inr\<close>) of \<^verbatim>\<open>SWIG_TypeClientData\<close>.
\<close>

partial_function (option) client_data :: "ptr \<Rightarrow> ptr + ptr \<Rightarrow> swig_heap \<Rightarrow> swig_heap option" where
  "client_data cd x h =
     (case x of
        Inl ti \<Rightarrow> do {
          t \<leftarrow> tinfo h ti;
          client_data cd (Inr (ti_cast t)) (h\<lparr>tinfo := (tinfo h)(ti \<mapsto> t\<lparr>ti_clientdata := cd\<rparr>)\<rparr>)
        }
      | Inr cast \<Rightarrow>
          if cast = NULL then Some h
          else do {
            c \<leftarrow> cinfo h cast;
            h \<leftarrow> (if ci_converter c = 0 then do {
                    tc \<leftarrow> tinfo h (ci_type c);
                    if ti_clientdata tc = NULL then client_data cd (Inl (ci_type c)) h else Some h
                  } else Some h);
            client_data cd (Inr (ci_next c)) h
          })"

definition SWIG_TypeClientData :: "ptr \<Rightarrow> ptr \<Rightarrow> swig_heap \<Rightarrow> swig_heap option" where
  "SWIG_TypeClientData ti clientdata h = client_data clientdata (Inl ti) h"

definition SWIG_TypeNewClientData :: "ptr \<Rightarrow> ptr \<Rightarrow> swig_heap \<Rightarrow> swig_heap option" where
  "SWIG_TypeNewClientData ti clientdata h = do {
     h \<leftarrow> SWIG_TypeClientData ti clientdata h;
     t \<leftarrow> tinfo h ti;
     Some (h\<lparr>tinfo := (tinfo h)(ti \<mapsto> t\<lparr>ti_owndata := True\<rparr>)\<rparr>)
   }"

subsection \<open>Searching the modules\<close>

text \<open>The binary search in one module; \<open>Some NULL\<close> is no match.\<close>

function mangled_search :: "swig_heap \<Rightarrow> ptr list \<Rightarrow> string \<Rightarrow> nat \<Rightarrow> nat \<Rightarrow> ptr option" where
  "mangled_search h types name l r =
     (if l \<le> r then
        (let i = (l + r) div 2 in
         if i < length types then
           (case tinfo h (types ! i) of
              None \<Rightarrow> None
            | Some t \<Rightarrow>
                (case ti_name t of
                   None \<Rightarrow> Some NULL
                 | Some iname \<Rightarrow>
                     (let compare = strcmp name iname in
                      if compare = 0 then Some (types ! i)
                      else if compare < 0 then
                        (if i \<noteq> 0 then mangled_search h types name l (i - 1) else Some NULL)
                      else mangled_search h types name (i + 1) r)))
         else None)
      else Some NULL)"
  by pat_completeness auto
termination
  by (relation "measure (\<lambda>(h, types, name, l, r). Suc r - l)") auto

declare mangled_search.simps [simp del]

partial_function (option) mangled_loop :: "swig_heap \<Rightarrow> ptr \<Rightarrow> string \<Rightarrow> ptr \<Rightarrow> ptr option" where
  "mangled_loop h end_mod name iter = do {
     m \<leftarrow> minfo h iter;
     ty \<leftarrow> (if mi_size m \<noteq> 0 then mangled_search h (mi_types m) name 0 (mi_size m - 1) else Some NULL);
     if ty \<noteq> NULL then Some ty
     else if mi_next m \<noteq> end_mod then mangled_loop h end_mod name (mi_next m)
     else Some NULL
   }"

definition SWIG_MangledTypeQueryModule :: "ptr \<Rightarrow> ptr \<Rightarrow> string \<Rightarrow> swig_heap \<Rightarrow> ptr option" where
  "SWIG_MangledTypeQueryModule start end_mod name h = mangled_loop h end_mod name start"

fun str_search :: "swig_heap \<Rightarrow> ptr list \<Rightarrow> string \<Rightarrow> ptr option" where
  "str_search h [] name = Some NULL"
| "str_search h (ty # tys) name = do {
     t \<leftarrow> tinfo h ty;
     case ti_str t of
       None \<Rightarrow> str_search h tys name
     | Some s \<Rightarrow> do {
         q \<leftarrow> SWIG_TypeEquiv s name;
         if q then Some ty else str_search h tys name
       }
   }"

partial_function (option) str_loop :: "swig_heap \<Rightarrow> ptr \<Rightarrow> string \<Rightarrow> ptr \<Rightarrow> ptr option" where
  "str_loop h end_mod name iter = do {
     m \<leftarrow> minfo h iter;
     ty \<leftarrow> str_search h (take (mi_size m) (mi_types m)) name;
     if ty \<noteq> NULL then Some ty
     else if mi_next m \<noteq> end_mod then str_loop h end_mod name (mi_next m)
     else Some NULL
   }"

definition SWIG_TypeQueryModule :: "ptr \<Rightarrow> ptr \<Rightarrow> string \<Rightarrow> swig_heap \<Rightarrow> ptr option" where
  "SWIG_TypeQueryModule start end_mod name h = do {
     ret \<leftarrow> SWIG_MangledTypeQueryModule start end_mod name h;
     if ret \<noteq> NULL then Some ret else str_loop h end_mod name start
   }"

end
