(* ===== verification/Swig_Casts.thy ===== *)
theory Swig_Casts
  imports Swig_Types
begin

text \<open>
  Correctness of the type tables. The cast list of a type is abstracted to the list of its node
  addresses; \<open>SWIG_TypeCheck\<close> refines \<open>move-to-front\<close> on that list. The circular list of modules
  is abstracted to the list of modules between two addresses; the binary search refines a search by
  name.
\<close>

subsection \<open>Doubly linked lists\<close>

text \<open>\<open>dl ca pr p xs q\<close>: from \<open>p\<close>, the nodes \<open>xs\<close> in order, up to \<open>q\<close>; the first points back to \<open>pr\<close>.\<close>

fun dl :: "(ptr \<rightharpoonup> swig_cast_info) \<Rightarrow> ptr \<Rightarrow> ptr \<Rightarrow> ptr list \<Rightarrow> ptr \<Rightarrow> bool" where
  "dl ca pr p [] q \<longleftrightarrow> p = q"
| "dl ca pr p (x # xs) q \<longleftrightarrow> p = x \<and> x \<noteq> NULL \<and>
     (\<exists>c. ca x = Some c \<and> ci_prev c = pr \<and> dl ca x (ci_next c) xs q)"

lemma dl_append:
  "dl ca pr p (as @ bs) q \<longleftrightarrow> (\<exists>m. dl ca pr p as m \<and> dl ca (if as = [] then pr else last as) m bs q)"
  by (induction as arbitrary: pr p) auto

lemma dl_frame: "x \<notin> set xs \<Longrightarrow> dl (ca(x := v)) pr p xs q = dl ca pr p xs q"
  by (induction xs arbitrary: pr p) auto

lemma dl_head: "dl ca pr p xs NULL \<Longrightarrow> p = (case xs of [] \<Rightarrow> NULL | x # _ \<Rightarrow> x)"
  by (cases xs) auto

lemma dl_not_NULL: "dl ca pr p xs q \<Longrightarrow> NULL \<notin> set xs"
  by (induction xs arbitrary: pr p) auto

lemma dl_node: "dl ca pr p xs q \<Longrightarrow> x \<in> set xs \<Longrightarrow> \<exists>c. ca x = Some c"
  by (induction xs arbitrary: pr p) auto

text \<open>Redirecting the last node, and the back pointer of the first.\<close>

lemma dl_set_next:
  "dl ca pr p (as @ [y]) m \<Longrightarrow> distinct (as @ [y]) \<Longrightarrow> ca y = Some c \<Longrightarrow>
   dl (ca(y \<mapsto> c\<lparr>ci_next := m'\<rparr>)) pr p (as @ [y]) m'"
proof (induction as arbitrary: pr p)
  case (Cons a as)
  then show ?case by auto
qed auto

lemma dl_set_prev:
  assumes "dl ca pr p xs NULL" and "distinct xs" and "p \<noteq> NULL" and "ca p = Some c"
  shows "dl (ca(p \<mapsto> c\<lparr>ci_prev := pr'\<rparr>)) pr' p xs NULL"
proof -
  obtain ys where ys: "xs = p # ys" using assms(1,3) by (cases xs) auto
  then have "dl ca p (ci_next c) ys NULL" "p \<notin> set ys" using assms by auto
  then show ?thesis using ys assms(3) by (simp add: dl_frame)
qed

text \<open>What moving a node does not change: the type and the converter of every node.\<close>

definition same_casts :: "(ptr \<rightharpoonup> swig_cast_info) \<Rightarrow> (ptr \<rightharpoonup> swig_cast_info) \<Rightarrow> bool" where
  "same_casts ca ca' \<longleftrightarrow>
     (\<forall>x. map_option (\<lambda>c. (ci_type c, ci_converter c)) (ca' x) = map_option (\<lambda>c. (ci_type c, ci_converter c)) (ca x))"

lemma same_casts_upd:
  "same_casts ca ca' \<Longrightarrow> ca' x = Some c \<Longrightarrow> ci_type c' = ci_type c \<Longrightarrow> ci_converter c' = ci_converter c \<Longrightarrow>
   same_casts ca (ca'(x \<mapsto> c'))"
  by (auto simp: same_casts_def) (metis option.simps(9))

lemma same_casts_refl [simp]: "same_casts ca ca"
  by (simp add: same_casts_def)

lemma move_to_front_correct:
  assumes "tinfo h ty = Some t" and "dl (cinfo h) NULL (ti_cast t) (as @ x # bs) NULL"
    and "distinct (as @ x # bs)" and "as \<noteq> []"
  shows "\<exists>h'. move_to_front ty x h = Some h' \<and> tinfo h' = (tinfo h)(ty \<mapsto> t\<lparr>ti_cast := x\<rparr>) \<and>
    minfo h' = minfo h \<and> dl (cinfo h') NULL x (x # as @ bs) NULL \<and> same_casts (cinfo h) (cinfo h')"
proof -
  let ?ca = "cinfo h"
  obtain as' y where as: "as = as' @ [y]" using assms(4) by (metis rev_exhaust)
  obtain c where c: "?ca x = Some c" "ci_prev c = y" "dl ?ca x (ci_next c) bs NULL"
      and d1: "dl ?ca NULL (ti_cast t) as x" and x: "x \<noteq> NULL"
    using assms(2) as by (auto simp: dl_append)
  obtain cy where cy: "?ca y = Some cy" using dl_node [OF d1, of y] as by auto
  define ca1 where "ca1 = ?ca(y \<mapsto> cy\<lparr>ci_next := ci_next c\<rparr>)"
  have dist: "x \<notin> set as" "x \<notin> set bs" "y \<notin> set bs" "set as \<inter> set bs = {}" "distinct as" "distinct bs"
    "distinct (as' @ [y])"
    using assms(3) as by auto
  have l1: "dl ca1 NULL (ti_cast t) as (ci_next c)" "dl ca1 x (ci_next c) bs NULL" "same_casts ?ca ca1"
    using dl_set_next [OF d1 [unfolded as] dist(7) cy] c(3) dist(3) same_casts_upd [of ?ca ?ca, OF same_casts_refl cy]
    by (simp_all add: ca1_def as dl_frame)
  define ca2 where "ca2 = (if ci_next c = NULL then ca1 else ca1(ci_next c \<mapsto> (the (ca1 (ci_next c)))\<lparr>ci_prev := y\<rparr>))"
  have nx: "ci_next c \<in> set bs \<and> (\<exists>n. ca1 (ci_next c) = Some n)" if "ci_next c \<noteq> NULL"
    using l1(2) that dl_head [OF l1(2)] dl_node [OF l1(2)] by (cases bs) auto
  have l2: "dl ca2 NULL (ti_cast t) as (ci_next c)" "dl ca2 y (ci_next c) bs NULL" "same_casts ?ca ca2"
  proof -
    show "dl ca2 NULL (ti_cast t) as (ci_next c)"
    proof (cases "ci_next c = NULL")
      case False
      then have "ci_next c \<notin> set as" using nx dist(4) by blast
      then show ?thesis using l1(1) False by (simp add: ca2_def dl_frame)
    qed (use l1(1) in \<open>simp add: ca2_def\<close>)
    show "dl ca2 y (ci_next c) bs NULL"
    proof (cases "ci_next c = NULL")
      case True
      then have "bs = []" using dl_head [OF l1(2)] dl_not_NULL [OF l1(2)] by (cases bs) auto
      then show ?thesis using True by simp
    next
      case False
      then obtain n where n: "ca1 (ci_next c) = Some n" using nx by blast
      then show ?thesis using dl_set_prev [OF l1(2) dist(6) False n, of y] False by (simp add: ca2_def)
    qed
    show "same_casts ?ca ca2" using l1(3) nx same_casts_upd [OF l1(3)] by (auto simp: ca2_def)
  qed
  have cx: "ca2 x = Some c"
    using c(1) nx dist as by (auto simp: ca2_def ca1_def)
  define ca3 where "ca3 = ca2(x \<mapsto> c\<lparr>ci_next := ti_cast t, ci_prev := NULL\<rparr>)"
  have "dl ca2 NULL (ti_cast t) (as @ bs) NULL" using l2(1,2) assms(4) as by (auto simp: dl_append)
  then have l3: "dl ca3 NULL (ti_cast t) (as @ bs) NULL" "same_casts ?ca ca3"
    using dist(1,2) same_casts_upd [OF l2(3) cx] by (simp_all add: ca3_def dl_frame)
  have hd: "ti_cast t \<noteq> NULL" "ti_cast t \<in> set as"
    using dl_head [OF l3(1)] dl_not_NULL [OF l3(1)] assms(4) by (cases as; auto)+
  then obtain f where f: "ca3 (ti_cast t) = Some f" using dl_node [OF l3(1)] by auto
  define ca4 where "ca4 = ca3(ti_cast t \<mapsto> f\<lparr>ci_prev := x\<rparr>)"
  have "distinct (as @ bs)" using dist by simp
  then have l4: "dl ca4 x (ti_cast t) (as @ bs) NULL" "same_casts ?ca ca4"
    using dl_set_prev [OF l3(1) _ hd(1) f] same_casts_upd [OF l3(2) f] by (simp_all add: ca4_def)
  have "ca4 x = Some (c\<lparr>ci_next := ti_cast t, ci_prev := NULL\<rparr>)" using hd(2) dist(1) by (auto simp: ca4_def ca3_def)
  then have d4: "dl ca4 NULL x (x # as @ bs) NULL" using l4(1) x by simp
  have s2: "(if ci_next c = NULL then Some ca1
      else do { n \<leftarrow> ca1 (ci_next c); Some (ca1(ci_next c \<mapsto> n\<lparr>ci_prev := y\<rparr>)) }) = Some ca2"
    using nx by (auto simp: ca2_def)
  have s4: "(if ti_cast t = NULL then Some ca3
      else do { f \<leftarrow> ca3 (ti_cast t); Some (ca3(ti_cast t \<mapsto> f\<lparr>ci_prev := x\<rparr>)) }) = Some ca4"
    using f hd(1) by (simp add: ca4_def)
  have "move_to_front ty x h = Some (h\<lparr>cinfo := ca4, tinfo := (tinfo h)(ty \<mapsto> t\<lparr>ti_cast := x\<rparr>)\<rparr>)"
    unfolding move_to_front_def Let_def assms(1) c(1) Option.bind.simps c(2) cy ca1_def [symmetric] s2 cx
      ca3_def [symmetric] s4 by (rule refl)
  then show ?thesis using d4 l4(2) by simp
qed

subsection \<open>Search with move-to-front\<close>

text \<open>The reference: the first element that matches comes to the front.\<close>

fun mtf :: "('a \<Rightarrow> bool) \<Rightarrow> 'a list \<Rightarrow> ('a \<times> 'a list) option" where
  "mtf P [] = None"
| "mtf P (x # xs) = (if P x then Some (x, x # xs)
     else case mtf P xs of None \<Rightarrow> None | Some (y, zs) \<Rightarrow> Some (y, y # x # tl zs))"

lemma mtf_Some_split:
  "mtf P xs = Some (y, zs) \<Longrightarrow> \<exists>as bs. xs = as @ y # bs \<and> zs = y # as @ bs \<and> P y \<and> (\<forall>a \<in> set as. \<not> P a)"
proof (induction xs arbitrary: y zs)
  case (Cons x xs)
  show ?case
  proof (cases "P x")
    case True
    then show ?thesis using Cons.prems by (intro exI [of _ "[]"] exI [of _ xs]) auto
  next
    case False
    then obtain ws where ws: "mtf P xs = Some (y, ws)" "zs = y # x # tl ws"
      using Cons.prems by (auto split: option.splits)
    obtain as bs where "xs = as @ y # bs" "ws = y # as @ bs" "P y" "\<forall>a \<in> set as. \<not> P a"
      using Cons.IH [OF ws(1)] by blast
    then show ?thesis using False ws(2) by (intro exI [of _ "x # as"] exI [of _ bs]) auto
  qed
qed simp

lemma mtf_None: "mtf P xs = None \<longleftrightarrow> (\<forall>x \<in> set xs. \<not> P x)"
  by (induction xs) (auto split: option.splits)

text \<open>\<open>decides\<close>: the match is defined on every node of the list and decided by \<open>P\<close>.\<close>

definition decides :: "(swig_heap \<Rightarrow> swig_cast_info \<Rightarrow> bool option) \<Rightarrow> swig_heap \<Rightarrow> ptr list \<Rightarrow> (ptr \<Rightarrow> bool) \<Rightarrow> bool" where
  "decides match h xs P \<longleftrightarrow> (\<forall>x \<in> set xs. \<forall>c. cinfo h x = Some c \<longrightarrow> match h c = Some (P x))"

lemma check_loop_walk:
  assumes "dl (cinfo h) pr p (as @ bs) NULL" and "decides match h (as @ bs) P" and "\<forall>a \<in> set as. \<not> P a"
  shows "\<exists>m. dl (cinfo h) (if as = [] then pr else last as) m bs NULL \<and>
    check_loop match ty p h = check_loop match ty m h"
  using assms
proof (induction as arbitrary: pr p)
  case (Cons a as)
  then obtain c where c: "p = a" "a \<noteq> NULL" "cinfo h a = Some c" "dl (cinfo h) a (ci_next c) (as @ bs) NULL" by auto
  have "match h c = Some False" using Cons.prems(2,3) c(3) by (simp add: decides_def)
  then have step: "check_loop match ty p h = check_loop match ty (ci_next c) h"
    using c(1-3) by (subst check_loop.simps) simp
  have "decides match h (as @ bs) P" "\<forall>a \<in> set as. \<not> P a" using Cons.prems(2,3) by (auto simp: decides_def)
  then show ?case using Cons.IH [OF c(4)] step by (cases "as = []") auto
qed auto

lemma check_loop_correct:
  assumes "tinfo h ty = Some t" and "dl (cinfo h) NULL (ti_cast t) xs NULL" and "distinct xs"
    and "decides match h xs P"
  shows "case mtf P xs of
      None \<Rightarrow> check_loop match ty (ti_cast t) h = Some (NULL, h)
    | Some (x, ys) \<Rightarrow> (\<exists>h'. check_loop match ty (ti_cast t) h = Some (x, h') \<and>
        tinfo h' = (tinfo h)(ty \<mapsto> t\<lparr>ti_cast := x\<rparr>) \<and> minfo h' = minfo h \<and>
        dl (cinfo h') NULL x ys NULL \<and> same_casts (cinfo h) (cinfo h'))"
proof (cases "mtf P xs")
  case None
  then have "\<forall>a \<in> set xs. \<not> P a" by (simp add: mtf_None)
  then have "check_loop match ty (ti_cast t) h = check_loop match ty NULL h"
    using check_loop_walk [of h NULL "ti_cast t" xs "[]" match P ty] assms(2,4) by auto
  then show ?thesis using None by (simp add: check_loop.simps [of match ty NULL])
next
  case (Some e)
  then obtain x ys where e: "mtf P xs = Some (x, ys)" by (cases e) auto
  from mtf_Some_split [OF e] obtain as bs
    where xs: "xs = as @ x # bs" "ys = x # as @ bs" "P x" "\<forall>a \<in> set as. \<not> P a" by (elim exE conjE)
  have "\<exists>m. dl (cinfo h) (if as = [] then NULL else last as) m (x # bs) NULL \<and>
      check_loop match ty (ti_cast t) h = check_loop match ty m h"
    using check_loop_walk [of h NULL "ti_cast t" as "x # bs" match P ty] assms(2,4) xs by simp
  then obtain c where walk: "check_loop match ty (ti_cast t) h = check_loop match ty x h" "x \<noteq> NULL" "cinfo h x = Some c"
    by auto
  have m: "match h c = Some True" using assms(4) xs(1,3) walk(3) by (simp add: decides_def)
  show ?thesis
  proof (cases "as = []")
    case True
    then have xt: "ti_cast t = x" using assms(2) xs(1) by simp
    then have "check_loop match ty x h = Some (x, h)" using walk m assms(1) by (subst check_loop.simps) simp
    moreover have "t\<lparr>ti_cast := x\<rparr> = t" using xt by (cases t) simp
    then have "tinfo h = (tinfo h)(ty \<mapsto> t\<lparr>ti_cast := x\<rparr>)" using assms(1) by (simp add: fun_upd_idem)
    moreover have "dl (cinfo h) NULL x ys NULL" using assms(2) xs(1,2) xt True by simp
    ultimately show ?thesis unfolding e option.case prod.case walk(1)
      by (intro exI [of _ h] conjI) (simp_all only: same_casts_refl)
  next
    case False
    have "x \<noteq> ti_cast t" using False assms(2,3) xs(1) by (cases as) auto
    then have "check_loop match ty x h = map_option (\<lambda>h. (x, h)) (move_to_front ty x h)"
      using walk m assms(1) by (subst check_loop.simps) (simp add: map_conv_bind_option comp_def)
    moreover obtain h' where "move_to_front ty x h = Some h'" "tinfo h' = (tinfo h)(ty \<mapsto> t\<lparr>ti_cast := x\<rparr>)"
        "minfo h' = minfo h" "dl (cinfo h') NULL x ys NULL" "same_casts (cinfo h) (cinfo h')"
      unfolding xs(2) using move_to_front_correct [OF assms(1) assms(2,3) [unfolded xs(1)] False] by (elim exE conjE)
    ultimately show ?thesis unfolding e option.case prod.case walk(1) by (intro exI [of _ h'] conjI) simp_all
  qed
qed

subsection \<open>The order of names\<close>

lemma strcmp_eq_0: "strcmp a b = 0 \<longleftrightarrow> a = b"
  by (induction a b rule: strcmp.induct) auto

lemma strcmp_refl [simp]: "strcmp a a = 0"
  by (simp add: strcmp_eq_0)

lemma strcmp_swap: "strcmp b a = - strcmp a b"
  by (induction a b rule: strcmp.induct) (auto simp: of_char_eq_iff dest: antisym_conv3)

lemma strcmp_trans: "strcmp a b < 0 \<Longrightarrow> strcmp b c < 0 \<Longrightarrow> strcmp a c < 0"
proof (induction a b arbitrary: c rule: strcmp.induct)
  case (2 b bs)
  then show ?case by (cases c) auto
next
  case (4 a as b bs)
  then obtain d ds where c: "c = d # ds" by (cases c) auto
  then show ?case using 4 by (auto split: if_splits)
qed auto

subsection \<open>Searching a module\<close>

definition name_of :: "swig_heap \<Rightarrow> ptr \<Rightarrow> string" where
  "name_of h p = the (ti_name (the (tinfo h p)))"

definition sorted_names :: "swig_heap \<Rightarrow> ptr list \<Rightarrow> bool" where
  "sorted_names h types \<longleftrightarrow> (\<forall>p \<in> set types. \<exists>t n. tinfo h p = Some t \<and> ti_name t = Some n) \<and>
     sorted_wrt (\<lambda>p q. strcmp (name_of h p) (name_of h q) < 0) types"

lemma sorted_names_nth:
  assumes "sorted_names h types" and "i < j" and "j < length types"
  shows "strcmp (name_of h (types ! i)) (name_of h (types ! j)) < 0"
  using assms by (simp add: sorted_names_def sorted_wrt_iff_nth_less)

definition the_type :: "swig_heap \<Rightarrow> string \<Rightarrow> ptr list \<Rightarrow> ptr" where
  "the_type h name types = (case find (\<lambda>p. name_of h p = name) types of Some p \<Rightarrow> p | None \<Rightarrow> NULL)"

lemma the_type_hit:
  assumes "sorted_names h types" and "i < length types" and "name_of h (types ! i) = name"
  shows "the_type h name types = types ! i"
proof -
  have "name_of h (types ! j) \<noteq> name" if "j < i" for j
    using sorted_names_nth [OF assms(1) that assms(2)] assms(3) by (auto simp: strcmp_eq_0)
  then have "find (\<lambda>p. name_of h p = name) types = Some (types ! i)"
    using assms(2,3) by (auto simp: find_Some_iff intro!: exI [of _ i])
  then show ?thesis by (simp add: the_type_def)
qed

lemma the_type_miss: "(\<And>i. i < length types \<Longrightarrow> name_of h (types ! i) \<noteq> name) \<Longrightarrow> the_type h name types = NULL"
  by (auto simp: the_type_def in_set_conv_nth split: option.splits dest!: find_Some_iff [THEN iffD1])

lemma mangled_search_correct:
  assumes "sorted_names h types" and "r < length types"
    and "\<forall>i < l. strcmp name (name_of h (types ! i)) > 0"
    and "\<forall>i. r < i \<longrightarrow> i < length types \<longrightarrow> strcmp name (name_of h (types ! i)) < 0"
  shows "mangled_search h types name l r = Some (the_type h name types)"
  using assms
proof (induction h types name l r rule: mangled_search.induct)
  case (1 h types name l r)
  note sorted = "1.prems"(1) and r = "1.prems"(2) and lo = "1.prems"(3) and hi = "1.prems"(4)
  show ?case
  proof (cases "l \<le> r")
    case False
    have "name_of h (types ! i) \<noteq> name" if "i < length types" for i
    proof (cases "i < l")
      case True
      then have "strcmp name (name_of h (types ! i)) > 0" using lo by blast
      then show ?thesis by auto
    next
      case False
      then have "strcmp name (name_of h (types ! i)) < 0" using hi that \<open>\<not> l \<le> r\<close> by simp
      then show ?thesis by auto
    qed
    then show ?thesis using False the_type_miss by (simp add: mangled_search.simps [of h types name l r])
  next
    case True
    define i where "i = (l + r) div 2"
    have i: "l \<le> i" "i \<le> r" "i < length types" using True r by (simp_all add: i_def)
    obtain t n where t: "tinfo h (types ! i) = Some t" "ti_name t = Some n"
      using sorted nth_mem [OF i(3)] unfolding sorted_names_def by blast
    then have n: "name_of h (types ! i) = n" by (simp add: name_of_def)
    have lo_i: "strcmp name (name_of h (types ! j)) < 0" if "strcmp name n < 0" "i \<le> j" "j < length types" for j
      using that n sorted_names_nth [OF sorted, of i j] strcmp_trans [of name n] by (cases "i = j") auto
    have hi_i: "strcmp name (name_of h (types ! j)) > 0" if "strcmp name n > 0" "j \<le> i" for j
      using that n sorted_names_nth [OF sorted, of j i] strcmp_trans [of _ n name] i(3)
      by (cases "i = j") (auto simp: strcmp_swap [of name])
    note IH = "1.IH" [OF True i_def, unfolded i_def [symmetric], OF i(3) t(1) t(2) refl]
    have step: "mangled_search h types name l r =
        (if strcmp name n = 0 then Some (types ! i)
         else if strcmp name n < 0 then (if i \<noteq> 0 then mangled_search h types name l (i - 1) else Some NULL)
         else mangled_search h types name (i + 1) r)"
      using True i(3) t by (subst mangled_search.simps) (simp add: Let_def flip: i_def)
    consider "strcmp name n = 0" | "strcmp name n < 0" | "strcmp name n > 0" by linarith
    then show ?thesis
    proof cases
      case 1
      then show ?thesis using step the_type_hit [OF sorted i(3)] n by (simp add: strcmp_eq_0)
    next
      case 2
      show ?thesis
      proof (cases "i = 0")
        case True
        then have "name_of h (types ! j) \<noteq> name" if "j < length types" for j
          using lo_i [OF 2 _ that] by auto
        then show ?thesis using step 2 True the_type_miss by simp
      next
        case False
        have "\<forall>j. i - 1 < j \<longrightarrow> j < length types \<longrightarrow> strcmp name (name_of h (types ! j)) < 0" using lo_i [OF 2] by auto
        then show ?thesis using step 2 False IH(1) sorted lo i(3) by simp
      qed
    next
      case 3
      then have "\<forall>j < i + 1. strcmp name (name_of h (types ! j)) > 0" using hi_i [OF 3] by auto
      then show ?thesis using step 3 IH(2) sorted r hi by simp
    qed
  qed
qed

subsection \<open>The circular list of modules\<close>

text \<open>\<open>mpath h p ms e\<close>: the modules visited from \<open>p\<close> until the next one is \<open>e\<close>.\<close>

fun mpath :: "swig_heap \<Rightarrow> ptr \<Rightarrow> swig_module_info list \<Rightarrow> ptr \<Rightarrow> bool" where
  "mpath h p [] e \<longleftrightarrow> False"
| "mpath h p [m] e \<longleftrightarrow> minfo h p = Some m \<and> mi_next m = e"
| "mpath h p (m # m' # ms) e \<longleftrightarrow> minfo h p = Some m \<and> mi_next m \<noteq> e \<and> mpath h (mi_next m) (m' # ms) e"

definition module_ok :: "swig_heap \<Rightarrow> swig_module_info \<Rightarrow> bool" where
  "module_ok h m \<longleftrightarrow> mi_size m = length (mi_types m) \<and> NULL \<notin> set (mi_types m) \<and> sorted_names h (mi_types m)"

lemma the_type_append:
  "NULL \<notin> set as \<Longrightarrow> the_type h name (as @ bs) = (if the_type h name as \<noteq> NULL then the_type h name as else the_type h name bs)"
  by (induction as) (auto simp: the_type_def)

lemma mangled_module:
  assumes "module_ok h m"
  shows "(if mi_size m \<noteq> 0 then mangled_search h (mi_types m) name 0 (mi_size m - 1) else Some NULL) =
    Some (the_type h name (mi_types m))"
proof (cases "mi_size m = 0")
  case True
  then show ?thesis using assms by (simp add: module_ok_def the_type_def)
next
  case False
  then have "mangled_search h (mi_types m) name 0 (mi_size m - 1) = Some (the_type h name (mi_types m))"
    using assms by (intro mangled_search_correct) (auto simp: module_ok_def)
  then show ?thesis using False by simp
qed

lemma mangled_loop_correct:
  "mpath h p ms e \<Longrightarrow> \<forall>m \<in> set ms. module_ok h m \<Longrightarrow>
   mangled_loop h e name p = Some (the_type h name (concat (map mi_types ms)))"
proof (induction h p ms e rule: mpath.induct)
  case (2 h p m e)
  then show ?case
    using mangled_module [of h m name] by (subst mangled_loop.simps) simp
next
  case (3 h p m m' ms e)
  then have m: "minfo h p = Some m" "mi_next m \<noteq> e" "module_ok h m" by auto
  have IH: "mangled_loop h e name (mi_next m) = Some (the_type h name (concat (map mi_types (m' # ms))))"
    using 3 by simp
  have "NULL \<notin> set (mi_types m)" using m(3) by (simp add: module_ok_def)
  note split = the_type_append [OF this, of h name "concat (map mi_types (m' # ms))"]
  show ?case
    using m mangled_module [OF m(3), of name] IH split by (subst mangled_loop.simps) simp
qed simp

subsection \<open>Properties\<close>

text \<open>
  C39. \<^verbatim>\<open>SWIG_TypeCheckStruct\<close> refines move-to-front: on a well-formed cast list it returns the first
  entry whose type is the one asked for and moves exactly that entry to the front of the list, all
  links consistent and the types and converters of all entries untouched; without such an entry it
  returns NULL and changes nothing. It always returns.
\<close>

theorem SWIG_TypeCheckStruct_refines:
  assumes "ty \<noteq> NULL" and "tinfo h ty = Some t" and "dl (cinfo h) NULL (ti_cast t) xs NULL" and "distinct xs"
  shows "case mtf (\<lambda>x. ci_type (the (cinfo h x)) = from) xs of
      None \<Rightarrow> SWIG_TypeCheckStruct from ty h = Some (NULL, h)
    | Some (x, ys) \<Rightarrow> (\<exists>h'. SWIG_TypeCheckStruct from ty h = Some (x, h') \<and>
        tinfo h' = (tinfo h)(ty \<mapsto> t\<lparr>ti_cast := x\<rparr>) \<and> minfo h' = minfo h \<and>
        dl (cinfo h') NULL x ys NULL \<and> same_casts (cinfo h) (cinfo h'))"
proof -
  have d: "decides (struct_match from) h xs (\<lambda>x. ci_type (the (cinfo h x)) = from)"
    by (auto simp: decides_def struct_match_def)
  have eq: "SWIG_TypeCheckStruct from ty h = check_loop (struct_match from) ty (ti_cast t) h"
    using assms(1,2) by (simp add: SWIG_TypeCheckStruct_def)
  show ?thesis unfolding eq using check_loop_correct [OF assms(2-4) d] .
qed

text \<open>A type at 100 with the casts 1, 2, 3 from the types 100, 200 and 300.\<close>

definition three_casts :: swig_heap where
  "three_casts = \<lparr>tinfo = [100 \<mapsto> \<lparr>ti_name = Some ''_p_a'', ti_str = None, ti_dcast = 0, ti_cast = 1, ti_clientdata = NULL, ti_owndata = False\<rparr>,
       200 \<mapsto> \<lparr>ti_name = Some ''_p_b'', ti_str = None, ti_dcast = 0, ti_cast = NULL, ti_clientdata = NULL, ti_owndata = False\<rparr>],
     cinfo = [1 \<mapsto> \<lparr>ci_type = 100, ci_converter = 0, ci_next = 2, ci_prev = NULL\<rparr>,
       2 \<mapsto> \<lparr>ci_type = 200, ci_converter = 7, ci_next = 3, ci_prev = 1\<rparr>,
       3 \<mapsto> \<lparr>ci_type = 300, ci_converter = 0, ci_next = NULL, ci_prev = 2\<rparr>],
     minfo = [10 \<mapsto> \<lparr>mi_types = [100, 200], mi_size = 2, mi_next = 10, mi_type_initial = [], mi_cast_initial = [], mi_clientdata = NULL\<rparr>]\<rparr>"

theorem SWIG_TypeCheckStruct_refines_witness:
  "\<exists>h'. SWIG_TypeCheckStruct 200 100 three_casts = Some (2, h') \<and> dl (cinfo h') NULL 2 [2, 1, 3] NULL"
  using SWIG_TypeCheckStruct_refines [of 100 three_casts "the (tinfo three_casts 100)" "[1, 2, 3]" 200]
  by (simp add: three_casts_def) blast

text \<open>
  The search by mangled name is complete and exact: over the modules of the circular list, each with
  its types in the order of their names, it returns the first type with that name and NULL exactly
  when there is none. The search visits each module once and always ends.
\<close>

theorem SWIG_MangledTypeQueryModule_correct:
  assumes "mpath h start ms end_mod" and "\<forall>m \<in> set ms. module_ok h m"
  shows "SWIG_MangledTypeQueryModule start end_mod name h = Some (the_type h name (concat (map mi_types ms)))"
  using mangled_loop_correct [OF assms] by (simp add: SWIG_MangledTypeQueryModule_def)

theorem SWIG_MangledTypeQueryModule_correct_witness:
  "SWIG_MangledTypeQueryModule 10 10 ''_p_b'' three_casts = Some 200"
  using SWIG_MangledTypeQueryModule_correct [of three_casts 10 "[the (minfo three_casts 10)]" 10 "''_p_b''"]
  by (simp add: three_casts_def module_ok_def sorted_names_def name_of_def the_type_def)

text \<open>
  \<^verbatim>\<open>SWIG_TypeNameComp\<close> does not skip spaces everywhere: a name and the same name with a space at its
  end compare as different, against the comment, and two names that both end in spaces make it read
  behind the end of the strings.
\<close>

theorem SWIG_TypeNameComp_trailing_spaces:
  "SWIG_TypeNameComp ''int'' 0 3 ''i nt'' 0 4 = Some 0 \<and>
   SWIG_TypeNameComp ''int '' 0 4 ''int'' 0 3 = Some 1 \<and>
   SWIG_TypeNameComp ''int '' 0 4 ''int  '' 0 5 = None"
  by (simp add: SWIG_TypeNameComp.simps skip_spaces.simps cstr_at_def eval_nat_numeral)

end
