(* ===== verification/Spec2Isabelle.thy ===== *)
theory Spec2Isabelle
  imports Bh_Prelude Bh_Types Bh_View Bh_Disjoint Bh_Memory Bh_MemSignal Bh_SeqSet Bh_Opcode Bh_Fuse Bh_ViewOrder Bh_Ir Bgl Bh_Graph
    Bh_Dag Bh_DagInv Bh_DagBuild Bh_DagFuse Bh_DagSplit Bh_FuseCache Bh_Fusers Bh_TypeUtil
    Flt_Dimclean Flt_Bccon Flt_Bcexp Flt_BcexpSem
    Bh_Float Cpu_Tac Cpu_Symbol Cpu_Layout Cpu_Compile Cpu_Exec Cpu_Hash Cpu_Block Cpu_Compose Cpu_Signature Cpu_Store Cpu_Engine Cpu_EngineSafe
    Np_Protocol Np_Operators Swig_Pack Swig_Casts
begin

text \<open>
  Verification of Bohrium, a runtime for array programs. A language bridge (NumPy, C, C++) records array operations as byte
  code: batches of \<^verbatim>\<open>bh_instruction\<close>, each an opcode with up to three views of base arrays and a constant. A batch is
  passed down a stack of components: filters rewrite it, a fuser groups its instructions into kernels, and an engine
  executes the kernels. All of them share the core library (views, opcodes, types, memory, the kernel graph).

  \<^bold>\<open>Parts, theories, sources.\<close>

  \<^item> Core. \<open>Bh_Types\<close> (\<^verbatim>\<open>bh_type.h\<close>, \<^verbatim>\<open>bh_error.h\<close>, constants), \<open>Bh_View\<close> and \<open>Bh_ViewOrder\<close> (views, \<^verbatim>\<open>bh_array.h\<close> and
    \<^verbatim>\<open>core/bh.cpp\<close>), \<open>Bh_Disjoint\<close> (overlap and dependency, \<^verbatim>\<open>core/bh.cpp\<close>), \<open>Bh_Opcode\<close> (the table
    \<^verbatim>\<open>core/codegen/opcodes.json\<close>), \<open>Bh_TypeUtil\<close> (\<^verbatim>\<open>core/bh_typeutil.cpp\<close>), \<open>Bh_SeqSet\<close> (\<^verbatim>\<open>bh_seqset.h\<close>),
    \<open>Cpp_Map\<close> (\<^verbatim>\<open>std::map\<close>), \<open>Bh_Float\<close> (IEEE values of constants).
  \<^item> Memory. \<open>Bh_Memory\<close> (\<^verbatim>\<open>bh_memory.cpp\<close>, \<^verbatim>\<open>bh_array.cpp\<close>, \<^verbatim>\<open>bh_vcache.cpp\<close>), \<open>Bh_MemSignal\<close>
    (\<^verbatim>\<open>bh_mem_signal.cpp\<close>).
  \<^item> Fusion. \<open>Bh_Fuse\<close> (the fuse models, \<^verbatim>\<open>bh_fuse.cpp\<close>), \<open>Bh_Ir\<close> (kernels, \<^verbatim>\<open>bh_ir.cpp\<close>), \<open>Bh_Dag\<close> (the kernel graph,
    \<^verbatim>\<open>bh_dag.cpp\<close>) with its proofs in \<open>Bh_DagInv\<close>, \<open>Bh_DagBuild\<close>, \<open>Bh_DagFuse\<close> and \<open>Bh_DagSplit\<close> over
    \<open>Bgl\<close> and \<open>Bh_Graph\<close>, \<open>Bh_FuseCache\<close> (\<^verbatim>\<open>bh_fuse_cache.cpp\<close>), \<open>Bh_Fusers\<close> (\<^verbatim>\<open>fuser/*/fuser.cpp\<close>).
  \<^item> Filters. \<open>Flt_Dimclean\<close> (\<^verbatim>\<open>filter/dimclean\<close>), \<open>Flt_Bccon\<close> (\<^verbatim>\<open>filter/bccon\<close>), \<open>Flt_Bcexp\<close> and \<open>Flt_BcexpSem\<close>
    (\<^verbatim>\<open>filter/bcexp\<close>).
  \<^item> CPU engine. \<open>Cpu_Tac\<close> (\<^verbatim>\<open>tac.h\<close>, \<^verbatim>\<open>utils_mapping.cpp\<close>), \<open>Cpu_Symbol\<close> (\<^verbatim>\<open>symbol_table.cpp\<close>, operands of \<^verbatim>\<open>utils.cpp\<close>),
    \<open>Cpu_Compile\<close> (\<^verbatim>\<open>utils_mapping_tacs.cpp\<close>, \<^verbatim>\<open>tac_transform\<close>); proofs in \<open>Cpu_Layout\<close>, \<open>Cpu_Sound\<close>, \<open>Cpu_Transform\<close>,
    \<open>Cpu_Batch\<close>, \<open>Cpu_Translate\<close> and \<open>Cpu_Exec\<close>. \<open>Cpu_Block\<close> (\<^verbatim>\<open>block.cpp\<close>) with \<open>Cpu_Hash\<close> (\<^verbatim>\<open>MurmurHash3\<close>) and proofs in
    \<open>Cpu_Compose\<close> and \<open>Cpu_Signature\<close>, \<open>Cpu_Store\<close> (\<^verbatim>\<open>store.cpp\<close>), \<open>Cpu_Engine\<close> (\<^verbatim>\<open>engine.cpp\<close>) with proofs in \<open>Cpu_EngineSafe\<close>.
  \<^item> NumPy bridge. \<open>Np_Runtime\<close>, \<open>Np_Module\<close> and \<open>Np_Protocol\<close> (\<^verbatim>\<open>_bhmodule.c\<close>), \<open>Np_Operators\<close>
    (\<^verbatim>\<open>operator_overload.c\<close>), \<open>Swig_Types\<close>, \<open>Swig_Casts\<close> and \<open>Swig_Pack\<close> (the runtime part of \<^verbatim>\<open>bhc_wrap.c\<close>).

  \<^bold>\<open>How the model corresponds to the code.\<close> A struct or class is a record with the fields of the source, an enumeration a
  datatype, a function of the source a definition of the same name, a loop a recursive function over what the loop
  counts. Pointers are addresses (0 is NULL) with an explicit heap where objects are shared (\<open>Bh_Memory\<close>, \<open>Swig_Types\<close>,
  \<open>Np_Runtime\<close>) and indices where they point into a list (\<open>Flt_Bccon\<close>, \<open>Cpu_Symbol\<close>). Exceptions and error codes are values
  of a sum or option type; an outer \<open>None\<close> or \<open>Undefined\<close> stands for undefined behaviour, a failed assertion, or a
  call that does not return. C integers are words, or integers with the narrowing written out where the code
  narrows (the 32-bit locals of \<^verbatim>\<open>bh_view_disjoint\<close>).

  \<^bold>\<open>What the lemmas show.\<close>

  \<^item> Views: simplification, alignment and overlap tests against the elements a view visits; where the overlap test is unsound.
  \<^item> Fusion: a kernel graph built from any program is valid; gentle and greedy fusion, splitting and transitive reduction
    keep it valid; each fuser (interface \<open>fusion\<close>) returns kernels that compute what the program computes, alone and through
    the cache; the cache confuses batches that differ only in overlaps.
  \<^item> Filters: dimension removal, contraction of reductions and expansion of composite instructions preserve results, with
    exact conditions, and counterexamples where they do not.
  \<^item> CPU engine: layouts, bounds of the symbol table, that the translated code computes what the batch computes, that blocks
    resolve their operands and that their symbols are unambiguous, that stored kernels are found again, and that executing a
    batch is safe over the allocator interface; where kernels with extension methods and failed loads go wrong.
  \<^item> Memory (interface \<open>base_allocator\<close>): exclusive ownership through any sequence of requests; the protection protocol of
    the NumPy bridge down to the signal handler, and faults it does not serve.
  \<^item> Types, containers, wrapper: conversion of types, round trips, refinement of the cast table to a move-to-front list.

  \<^bold>\<open>Termination.\<close> Loops that may run forever are partial functions into \<open>option\<close>: \<open>greedy_loop\<close> and \<open>expand_loop\<close>, for which
  termination is proved, and the walks over linked lists of \<open>Swig_Types\<close>, which return on well-formed lists. No
  definition uses fuel.

  \<^bold>\<open>Parameters.\<close> The Boost Graph Library (\<open>Bgl\<close>, with its documented laws as a locale and an executable instance), string
  hash and archives of the fuse cache, CPython, NumPy and the Python half of the bridge (\<open>py_api\<close>), the kernel's memory calls,
  \<^verbatim>\<open>new\<close>, the dynamic linker, the directory, the code generator, the compiler and the loaded functions of the CPU engine (over an
  abstract world), the conversion of integers to floating point in \<open>Flt_Bcexp\<close>, and the indeterminate contents of fresh memory.
  Arithmetic on array elements is a parameter too; the filters and the translation use exact arithmetic over a field.

  \<^bold>\<open>Not modelled.\<close> The optimal fuser (a parallel search), the code generator and compiler of the CPU engine, the OpenCL engine, the cluster and proxy managers (MPI, sockets), the C++, CIL and MiniMatlab bridges, generated
  argument conversion, printing, timing, configuration and vendored code: they emit program text, drive external
  processes or devices, or only forward.
\<close>

end
